(* ===== verification/Go_Prelude.thy ===== *)
theory Go_Prelude
  imports Main "HOL-Library.Sublist" "HOL-Library.AList" "HOL-Library.List_Lexorder"
    "HOL-Library.Char_ord"
begin

text \<open>
  What the components share: the fragment of Go the program is written in, and the generic
  lemmas about it.

  \<^item> A Go string is a sequence of bytes, here \<^typ>\<open>string\<close>. The case functions
    (\<open>ToLower\<close>, \<open>EqualFold\<close>) and \<open>TrimSpace\<close> are those of the ASCII range, which is the
    range of every identifier the program compares (model names, provider keys, levels,
    header names); bytes above it are left as they are.
  \<^item> A Go \<open>int\<close> is 64 bits wide; it is an \<^typ>\<open>int\<close>, with the wrap-around (\<open>wrap64\<close>)
    written where a sum can leave the range, and division truncated towards zero (\<open>quot64\<close>).
  \<^item> A \<open>time.Time\<close> is the number of nanoseconds since Go's zero time; the zero value, for
    which \<open>IsZero\<close> holds, is \<open>0\<close>. A \<open>time.Duration\<close> is a number of nanoseconds.
  \<^item> A Go map is an association list with distinct keys (\<open>wf_map\<close>): \<open>mget\<close> looks a key up,
    \<open>mput\<close> and \<open>mdel\<close> store and delete. The order of the list stands for the order in
    which one execution iterates over the map, which Go leaves open.
\<close>

section \<open>Strings\<close>

named_theorems go_simps \<open>unfolding of the Go string and integer operations\<close>

definition lower_char :: "char \<Rightarrow> char" where
  "lower_char c =
     (if 65 \<le> (of_char c :: nat) \<and> (of_char c :: nat) \<le> 90
      then char_of ((of_char c :: nat) + 32) else c)"

definition ToLower :: "string \<Rightarrow> string" where
  "ToLower s = map lower_char s"

definition is_space :: "char \<Rightarrow> bool" where
  "is_space c \<longleftrightarrow> (9 \<le> (of_char c :: nat) \<and> (of_char c :: nat) \<le> 13) \<or> (of_char c :: nat) = 32"

definition TrimLeft :: "string \<Rightarrow> string" where
  "TrimLeft s = dropWhile is_space s"

definition TrimSpace :: "string \<Rightarrow> string" where
  "TrimSpace s = rev (dropWhile is_space (rev (dropWhile is_space s)))"

definition EqualFold :: "string \<Rightarrow> string \<Rightarrow> bool" where
  "EqualFold s t \<longleftrightarrow> ToLower s = ToLower t"

fun LastIndexByte :: "char \<Rightarrow> string \<Rightarrow> nat option" where
  "LastIndexByte c [] = None"
| "LastIndexByte c (x # xs) =
     (case LastIndexByte c xs of
        Some i \<Rightarrow> Some (Suc i)
      | None \<Rightarrow> if x = c then Some 0 else None)"

definition HasPrefix :: "string \<Rightarrow> string \<Rightarrow> bool" where
  "HasPrefix s p \<longleftrightarrow> take (length p) s = p"

definition HasSuffix :: "string \<Rightarrow> string \<Rightarrow> bool" where
  "HasSuffix s p \<longleftrightarrow> HasPrefix (rev s) (rev p)"

fun Contains :: "string \<Rightarrow> string \<Rightarrow> bool" where
  "Contains [] p = (p = [])"
| "Contains (c # s) p = (HasPrefix (c # s) p \<or> Contains s p)"

text \<open>\<open>strings.Cut\<close>: the text around the first occurrence of a non-empty separator.\<close>

fun Cut :: "string \<Rightarrow> string \<Rightarrow> (string \<times> string) option" where
  "Cut [] sep = (if sep = [] then Some ([], []) else None)"
| "Cut (c # s) sep =
     (if HasPrefix (c # s) sep then Some ([], drop (length sep) (c # s))
      else map_option (\<lambda>(a, b). (c # a, b)) (Cut s sep))"

text \<open>\<open>strings.Fields\<close>: the maximal runs of non-space bytes; \<open>strings.Join\<close>.\<close>

function Fields :: "string \<Rightarrow> string list" where
  "Fields s =
     (let t = dropWhile is_space s in
      if t = [] then [] else takeWhile (\<lambda>c. \<not> is_space c) t # Fields (dropWhile (\<lambda>c. \<not> is_space c) t))"
  by pat_completeness auto

termination
proof (relation "measure length", goal_cases)
  case (2 s t)
  obtain c t' where t: "t = c # t'" using 2(2) by (meson neq_Nil_conv)
  have "\<not> is_space c" using 2 t by (metis hd_dropWhile list.sel(1))
  moreover have "length t \<le> length s" unfolding 2(1) by (rule length_dropWhile_le)
  ultimately show ?case using length_dropWhile_le [of "\<lambda>c. \<not> is_space c" t'] by (simp add: t)
qed simp

fun Join :: "string list \<Rightarrow> string \<Rightarrow> string" where
  "Join [] sep = []"
| "Join [s] sep = s"
| "Join (s # t # ss) sep = s @ sep @ Join (t # ss) sep"

subsection \<open>Decimal numbers: \<open>strconv.Atoi\<close> and \<open>strconv.ParseInt(s, 10, 64)\<close>\<close>

definition digit_value :: "char \<Rightarrow> nat option" where
  "digit_value c =
     (if 48 \<le> (of_char c :: nat) \<and> (of_char c :: nat) \<le> 57 then Some (of_char c - 48) else None)"

fun digits_value :: "nat \<Rightarrow> string \<Rightarrow> nat option" where
  "digits_value acc [] = Some acc"
| "digits_value acc (c # s) =
     (case digit_value c of None \<Rightarrow> None | Some d \<Rightarrow> digits_value (10 * acc + d) s)"

definition MaxInt64 :: int where
  "MaxInt64 = 9223372036854775807"

definition MinInt64 :: int where
  "MinInt64 = -9223372036854775808"

definition Atoi :: "string \<Rightarrow> int option" where
  "Atoi s =
     (let neg = (s \<noteq> [] \<and> hd s = CHR ''-'');
          ds = (if s \<noteq> [] \<and> (hd s = CHR ''-'' \<or> hd s = CHR ''+'') then tl s else s)
      in if ds = [] then None
         else case digits_value 0 ds of
                None \<Rightarrow> None
              | Some n \<Rightarrow>
                  let v = (if neg then - int n else int n)
                  in if MinInt64 \<le> v \<and> v \<le> MaxInt64 then Some v else None)"

text \<open>The decimal notation of \<open>strconv.Itoa\<close> and \<open>strconv.FormatInt(n, 10)\<close> for \<open>n \<ge> 0\<close>.\<close>

fun show_nat :: "nat \<Rightarrow> string" where
  "show_nat n = (if n < 10 then [char_of (48 + n)] else show_nat (n div 10) @ [char_of (48 + n mod 10)])"

section \<open>Integers\<close>

definition wrap64 :: "int \<Rightarrow> int" where
  "wrap64 x = (x + 9223372036854775808) mod 18446744073709551616 - 9223372036854775808"

definition quot64 :: "int \<Rightarrow> int \<Rightarrow> int" where
  "quot64 a b = sgn a * sgn b * (\<bar>a\<bar> div \<bar>b\<bar>)"

definition in_int64 :: "int \<Rightarrow> bool" where
  "in_int64 x \<longleftrightarrow> MinInt64 \<le> x \<and> x \<le> MaxInt64"

section \<open>Time\<close>

type_synonym time = int
type_synonym duration = int

abbreviation (input) zero_time :: time where
  "zero_time \<equiv> 0"

abbreviation (input) IsZero :: "time \<Rightarrow> bool" where
  "IsZero t \<equiv> t = 0"

definition Second :: duration where
  "Second = 1000000000"

definition Minute :: duration where
  "Minute = 60 * Second"

definition Hour :: duration where
  "Hour = 60 * Minute"

section \<open>Maps\<close>

type_synonym ('k, 'v) gomap = "('k \<times> 'v) list"

abbreviation mget :: "('k, 'v) gomap \<Rightarrow> 'k \<Rightarrow> 'v option" where
  "mget m k \<equiv> map_of m k"

abbreviation mput :: "'k \<Rightarrow> 'v \<Rightarrow> ('k, 'v) gomap \<Rightarrow> ('k, 'v) gomap" where
  "mput k v m \<equiv> AList.update k v m"

abbreviation mdel :: "'k \<Rightarrow> ('k, 'v) gomap \<Rightarrow> ('k, 'v) gomap" where
  "mdel k m \<equiv> AList.delete k m"

abbreviation wf_map :: "('k, 'v) gomap \<Rightarrow> bool" where
  "wf_map m \<equiv> distinct (map fst m)"

section \<open>Lemmas\<close>

subsection \<open>Strings\<close>

lemma of_char_char_of_nat [simp]: "n < 256 \<Longrightarrow> (of_char (char_of n :: char) :: nat) = n"
  by (simp add: of_char_of)

lemma lower_char_idem [simp]: "lower_char (lower_char c) = lower_char c"
  by (auto simp: lower_char_def)

lemma is_space_lower_char [simp]: "is_space (lower_char c) = is_space c"
  by (auto simp: lower_char_def is_space_def)

lemma ToLower_idem [simp]: "ToLower (ToLower s) = ToLower s"
  by (simp add: ToLower_def comp_def)

lemma ToLower_Nil [simp]: "ToLower [] = []"
  by (simp add: ToLower_def)

lemma ToLower_eq_Nil [simp]: "ToLower s = [] \<longleftrightarrow> s = []"
  by (simp add: ToLower_def)

lemma ToLower_append: "ToLower (s @ t) = ToLower s @ ToLower t"
  by (simp add: ToLower_def)

lemma length_ToLower [simp]: "length (ToLower s) = length s"
  by (simp add: ToLower_def)

lemma EqualFold_refl [simp]: "EqualFold s s"
  by (simp add: EqualFold_def)

lemma EqualFold_sym: "EqualFold s t \<longleftrightarrow> EqualFold t s"
  by (auto simp: EqualFold_def)

lemma EqualFold_trans: "EqualFold s t \<Longrightarrow> EqualFold t u \<Longrightarrow> EqualFold s u"
  by (simp add: EqualFold_def)

lemma TrimSpace_Nil [simp]: "TrimSpace [] = []"
  by (simp add: TrimSpace_def)

lemma dropWhile_map_lower: "dropWhile is_space (map lower_char s) = map lower_char (dropWhile is_space s)"
  by (simp add: dropWhile_map comp_def)

lemma TrimSpace_ToLower: "TrimSpace (ToLower s) = ToLower (TrimSpace s)"
  by (simp add: TrimSpace_def ToLower_def dropWhile_map_lower rev_map)

text \<open>A string that \<open>TrimSpace\<close> leaves alone.\<close>

definition trimmed :: "string \<Rightarrow> bool" where
  "trimmed s \<longleftrightarrow> s = [] \<or> (\<not> is_space (hd s) \<and> \<not> is_space (last s))"

lemma TrimSpace_trimmed [simp]: "trimmed s \<Longrightarrow> TrimSpace s = s"
proof (cases s)
  case (Cons c cs)
  assume "trimmed s"
  with Cons have "\<not> is_space c" and l: "\<not> is_space (last (c # cs))"
    by (auto simp: trimmed_def)
  then have "dropWhile is_space s = s" using Cons by simp
  moreover have "dropWhile is_space (rev s) = rev s"
    using Cons l by (metis dropWhile.simps(2) last_rev list.exhaust_sel list.sel(1) rev_is_Nil_conv
        rev_rev_ident hd_rev list.distinct(1))
  ultimately show ?thesis by (simp add: TrimSpace_def)
qed simp

lemma trimmed_TrimSpace [simp]: "trimmed (TrimSpace s)"
proof -
  let ?t = "dropWhile is_space s"
  have last: "r \<noteq> [] \<Longrightarrow> \<not> is_space (last r)" if "r = rev (dropWhile is_space (rev ?t))" for r
    using that by (metis hd_dropWhile last_rev rev_is_Nil_conv)
  have "\<not> is_space (hd (TrimSpace s))" if ne: "TrimSpace s \<noteq> []"
  proof -
    have "suffix (dropWhile is_space (rev ?t)) (rev ?t)"
      by (metis suffix_dropWhile)
    then have "prefix (TrimSpace s) ?t"
      by (metis TrimSpace_def rev_rev_ident suffix_to_prefix)
    with ne have "hd (TrimSpace s) = hd ?t" and "?t \<noteq> []"
      by (auto simp: prefix_def simp del: dropWhile_eq_Nil_conv)
    moreover from \<open>?t \<noteq> []\<close> have "\<not> is_space (hd ?t)" by (rule hd_dropWhile)
    ultimately show ?thesis by simp
  qed
  with last show ?thesis unfolding trimmed_def TrimSpace_def by blast
qed

lemma TrimSpace_idem [simp]: "TrimSpace (TrimSpace s) = TrimSpace s"
  by simp

lemma trimmed_ToLower [simp]: "trimmed (ToLower s) = trimmed s"
  by (auto simp: trimmed_def ToLower_def hd_map last_map)

lemma LastIndexByte_None_iff: "LastIndexByte c s = None \<longleftrightarrow> c \<notin> set s"
  by (induction s) (auto split: option.splits)

lemma LastIndexByte_append_notin:
  "c \<notin> set t \<Longrightarrow> LastIndexByte c (s @ c # t) = Some (length s)"
proof (induction s)
  case Nil
  then have "LastIndexByte c t = None" by (simp add: LastIndexByte_None_iff)
  then show ?case by simp
qed simp

lemma LastIndexByte_SomeD:
  "LastIndexByte c s = Some i \<Longrightarrow>
     i < length s \<and> s ! i = c \<and> c \<notin> set (drop (Suc i) s)"
proof (induction s arbitrary: i)
  case (Cons x xs)
  show ?case
  proof (cases "LastIndexByte c xs")
    case None
    with Cons.prems show ?thesis
      by (auto simp: LastIndexByte_None_iff split: if_splits)
  next
    case (Some j)
    with Cons.prems have "i = Suc j" by simp
    with Cons.IH [OF Some] show ?thesis by simp
  qed
qed simp

lemma HasPrefix_iff_prefix: "HasPrefix s p \<longleftrightarrow> prefix p s"
  by (metis HasPrefix_def append_eq_conv_conj prefix_def take_is_prefix)

lemma HasSuffix_iff_suffix: "HasSuffix s p \<longleftrightarrow> suffix p s"
  by (simp add: HasSuffix_def HasPrefix_iff_prefix suffix_to_prefix)

lemma HasSuffix_snoc [simp]: "HasSuffix (s @ [c]) [d] \<longleftrightarrow> c = d"
  by (auto simp: HasSuffix_def HasPrefix_def)

subsection \<open>Decimal numbers\<close>

declare show_nat.simps [simp del] Fields.simps [simp del]

lemma digit_value_digit: "d < 10 \<Longrightarrow> digit_value (char_of (48 + d)) = Some d"
  by (simp add: digit_value_def)

lemma digits_value_snoc:
  "digits_value acc (s @ [c]) =
     (case digits_value acc s of
        None \<Rightarrow> None
      | Some n \<Rightarrow> (case digit_value c of None \<Rightarrow> None | Some d \<Rightarrow> Some (10 * n + d)))"
  by (induction s arbitrary: acc) (auto split: option.splits)

lemma digits_value_show_nat: "digits_value 0 (show_nat n) = Some n"
proof (induction n rule: show_nat.induct)
  case (1 n)
  then show ?case
    by (cases "n < 10") (simp_all add: show_nat.simps [of n] digit_value_digit digits_value_snoc)
qed

lemma show_nat_digits: "c \<in> set (show_nat n) \<Longrightarrow> 48 \<le> (of_char c :: nat) \<and> (of_char c :: nat) \<le> 57"
proof (induction n rule: show_nat.induct)
  case (1 n)
  then show ?case by (cases "n < 10") (auto simp: show_nat.simps [of n])
qed

lemma show_nat_ne [simp]: "show_nat n \<noteq> []"
  by (simp add: show_nat.simps [of n])

lemma show_nat_ends: "48 \<le> (of_char (hd (show_nat n)) :: nat)" "48 \<le> (of_char (last (show_nat n)) :: nat)"
  "(of_char (hd (show_nat n)) :: nat) \<le> 57"
  using show_nat_digits [of "hd (show_nat n)" n] show_nat_digits [of "last (show_nat n)" n] by simp_all

lemma trimmed_show_nat [simp]: "trimmed (show_nat n)"
  using show_nat_ends [of n] by (auto simp: trimmed_def is_space_def)

lemma Atoi_show_nat: "int n \<le> MaxInt64 \<Longrightarrow> Atoi (show_nat n) = Some (int n)"
proof -
  assume "int n \<le> MaxInt64"
  moreover have "hd (show_nat n) \<noteq> CHR ''-''" "hd (show_nat n) \<noteq> CHR ''+''" using show_nat_ends [of n] by auto
  ultimately show ?thesis by (simp add: Atoi_def digits_value_show_nat MinInt64_def)
qed

subsection \<open>Integers\<close>

lemma wrap64_id [simp]: "in_int64 x \<Longrightarrow> wrap64 x = x"
  by (simp add: wrap64_def in_int64_def MinInt64_def MaxInt64_def)

lemma in_int64_wrap64 [simp]: "in_int64 (wrap64 x)"
  using pos_mod_bound [of 18446744073709551616 "x + 9223372036854775808"]
    pos_mod_sign [of 18446744073709551616 "x + 9223372036854775808"]
  by (simp add: wrap64_def in_int64_def MinInt64_def MaxInt64_def)

lemma quot64_nonneg [simp]: "0 \<le> a \<Longrightarrow> 0 < b \<Longrightarrow> quot64 a b = a div b"
  by (cases "a = 0") (auto simp: quot64_def sgn_if)

subsection \<open>Maps\<close>

lemmas gomap_simps = update_conv' delete_conv'

lemma mget_mput [simp]: "mget (mput k v m) k' = (if k' = k then Some v else mget m k')"
  by (simp add: update_conv')

lemma mget_mdel [simp]: "mget (mdel k m) k' = (if k' = k then None else mget m k')"
  by (simp add: delete_conv')

lemma wf_map_mput [simp, intro]: "wf_map m \<Longrightarrow> wf_map (mput k v m)"
  by (rule distinct_update)

lemma wf_map_mdel [simp, intro]: "wf_map m \<Longrightarrow> wf_map (mdel k m)"
  by (rule distinct_delete)

lemma mdel_filter: "mdel k m = filter (\<lambda>e. fst e \<noteq> k) m"
  unfolding AList.delete_eq by (rule filter_cong) auto

lemma mget_filter:
  "wf_map m \<Longrightarrow> mget (filter P m) k = Some v \<longleftrightarrow> mget m k = Some v \<and> P (k, v)"
  by (simp add: distinct_map_filter)

lemma mget_in_set: "wf_map m \<Longrightarrow> mget m k = Some v \<longleftrightarrow> (k, v) \<in> set m"
  by (metis map_of_eq_Some_iff)

lemma mget_eq_None_iff: "mget m k = None \<longleftrightarrow> k \<notin> fst ` set m"
  by (metis map_of_eq_None_iff)

lemma keys_mput: "fst ` set (mput k v m) = insert k (fst ` set m)"
  by (auto simp: update_conv' dom_def simp flip: dom_map_of_conv_image_fst)

lemma keys_mdel: "fst ` set (mdel k m) = fst ` set m - {k}"
  by (auto simp: delete_conv' dom_def simp flip: dom_map_of_conv_image_fst)

end
