(* ===== verification/Model_Info.thy ===== *)
theory Model_Info
  imports Go_Prelude Complex_Main
begin

text \<open>
  The data types of the model registry that other components read: dynamically typed values
  (Go's \<open>any\<close>, as decoded from JSON or YAML), \<open>ThinkingSupport\<close>, \<open>ModelConfig\<close> and
  \<open>ModelInfo\<close> of \<^verbatim>\<open>internal/registry/model_registry.go\<close>. Pointers that may be nil
  are options. Copying a value (\<open>cloneModelInfo\<close> and its helpers) is the identity here,
  because a HOL value cannot be changed through a second reference.
\<close>

section \<open>Dynamically typed values\<close>

datatype int_kind =
  KInt | KInt8 | KInt16 | KInt32 | KInt64 | KUint | KUint8 | KUint16 | KUint32 | KUint64

text \<open>A \<open>float64\<close> is not-a-number, an infinity or a finite (rational) value.\<close>

datatype float64 = NaN | PosInf | NegInf | Finite rat

datatype any =
    AnyNil
  | AnyBool bool
  | AnyInt int_kind int
  | AnyFloat float64
  | AnyNumber string
  | AnyStr string
  | AnyBytes string
  | AnyStrs "string list"
  | AnySlice "any list"
  | AnyMap "(string \<times> any) list"

section \<open>Model metadata\<close>

record thinking_support =
  ts_Min :: int
  ts_Max :: int
  ts_ZeroAllowed :: bool
  ts_DynamicAllowed :: bool
  ts_Levels :: "string list"

record model_config =
  mc_OverrideHeader :: "(string, string) gomap"

record model_info =
  mi_ID :: string
  mi_Object :: string
  mi_Created :: int
  mi_OwnedBy :: string
  mi_Type :: string
  mi_DisplayName :: string
  mi_Name :: string
  mi_Version :: string
  mi_Description :: string
  mi_InputTokenLimit :: int
  mi_OutputTokenLimit :: int
  mi_SupportedGenerationMethods :: "string list"
  mi_ContextLength :: int
  mi_MaxContextLength :: int
  mi_MaxCompletionTokens :: int
  mi_SupportedParameters :: "string list"
  mi_SupportedInputModalities :: "string list"
  mi_SupportedOutputModalities :: "string list"
  mi_SupportsWebSearch :: bool
  mi_Thinking :: "thinking_support option"
  mi_Config :: "model_config option"
  mi_UserDefined :: bool
  mi_ThinkingAliasBase :: string
  mi_ThinkingPayloads :: "(string, (string, any) gomap) gomap"
  mi_IsCompat :: bool

text \<open>The zero value of the struct, from which concrete models are built by updates.\<close>

definition zero_model_info :: model_info where
  "zero_model_info =
     \<lparr> mi_ID = [], mi_Object = [], mi_Created = 0, mi_OwnedBy = [], mi_Type = [],
       mi_DisplayName = [], mi_Name = [], mi_Version = [], mi_Description = [],
       mi_InputTokenLimit = 0, mi_OutputTokenLimit = 0, mi_SupportedGenerationMethods = [],
       mi_ContextLength = 0, mi_MaxContextLength = 0, mi_MaxCompletionTokens = 0,
       mi_SupportedParameters = [], mi_SupportedInputModalities = [],
       mi_SupportedOutputModalities = [], mi_SupportsWebSearch = False, mi_Thinking = None,
       mi_Config = None, mi_UserDefined = False, mi_ThinkingAliasBase = [],
       mi_ThinkingPayloads = [], mi_IsCompat = False \<rparr>"

end
