(* ===== verification/Thinking.thy ===== *)
theory Thinking
  imports Model_Info
begin

text \<open>
  The thinking (reasoning effort) configuration of \<^verbatim>\<open>internal/thinking\<close>: levels and
  budgets and the conversions between them (\<^verbatim>\<open>convert.go\<close>) and the suffix syntax
  \<open>model(value)\<close> and \<open>model-level\<close> (\<^verbatim>\<open>suffix.go\<close>). The validation of a
  configuration against what a model supports is in \<^verbatim>\<open>Thinking_Validate.thy\<close>.

  Log messages and the text of errors are left out: an error is its code and the model it
  names. \<open>registry.LookupModelInfo\<close> is the argument \<open>lookup\<close> of the parsers that call it;
  \<^verbatim>\<open>Model_Registry.thy\<close> defines it.
\<close>

section \<open>Types (\<open>types.go\<close>)\<close>

datatype thinking_mode = ModeBudget | ModeLevel | ModeNone | ModeAuto

type_synonym thinking_level = string

definition LevelNone :: thinking_level where
  "LevelNone = ''none''"
definition LevelAuto :: thinking_level where
  "LevelAuto = ''auto''"
definition LevelMinimal :: thinking_level where
  "LevelMinimal = ''minimal''"
definition LevelLow :: thinking_level where
  "LevelLow = ''low''"
definition LevelMedium :: thinking_level where
  "LevelMedium = ''medium''"
definition LevelHigh :: thinking_level where
  "LevelHigh = ''high''"
definition LevelXHigh :: thinking_level where
  "LevelXHigh = ''xhigh''"
definition LevelMax :: thinking_level where
  "LevelMax = ''max''"

lemmas level_defs =
  LevelNone_def LevelAuto_def LevelMinimal_def LevelLow_def LevelMedium_def LevelHigh_def
  LevelXHigh_def LevelMax_def

record thinking_config =
  tc_Mode :: thinking_mode
  tc_Budget :: int
  tc_Level :: thinking_level

record suffix_result =
  sr_ModelName :: string
  sr_HasSuffix :: bool
  sr_RawSuffix :: string

datatype error_code =
    ErrInvalidSuffix
  | ErrUnknownLevel
  | ErrThinkingNotSupported
  | ErrLevelNotSupported
  | ErrBudgetOutOfRange
  | ErrProviderMismatch

record thinking_error =
  te_Code :: error_code
  te_Model :: string

definition standardLevelOrder :: "thinking_level list" where
  "standardLevelOrder = [LevelMinimal, LevelLow, LevelMedium, LevelHigh, LevelXHigh, LevelMax]"

section \<open>Conversions (\<open>convert.go\<close>)\<close>

definition levelToBudgetMap :: "(string, int) gomap" where
  "levelToBudgetMap =
     [(''none'', 0), (''auto'', -1), (''minimal'', 512), (''low'', 1024), (''medium'', 8192),
      (''high'', 24576), (''xhigh'', 32768), (''max'', 128000)]"

definition ConvertLevelToBudget :: "string \<Rightarrow> int option" where
  "ConvertLevelToBudget level = mget levelToBudgetMap (ToLower level)"

definition ThresholdMinimal :: int where
  "ThresholdMinimal = 512"
definition ThresholdLow :: int where
  "ThresholdLow = 1024"
definition ThresholdMedium :: int where
  "ThresholdMedium = 8192"
definition ThresholdHigh :: int where
  "ThresholdHigh = 24576"

lemmas threshold_defs = ThresholdMinimal_def ThresholdLow_def ThresholdMedium_def ThresholdHigh_def

definition ConvertBudgetToLevel :: "int \<Rightarrow> string option" where
  "ConvertBudgetToLevel budget =
     (if budget < -1 then None
      else if budget = -1 then Some LevelAuto
      else if budget = 0 then Some LevelNone
      else if budget \<le> ThresholdMinimal then Some LevelMinimal
      else if budget \<le> ThresholdLow then Some LevelLow
      else if budget \<le> ThresholdMedium then Some LevelMedium
      else if budget \<le> ThresholdHigh then Some LevelHigh
      else Some LevelXHigh)"

fun HasLevel :: "string list \<Rightarrow> string \<Rightarrow> bool" where
  "HasLevel [] target = False"
| "HasLevel (level # levels) target =
     (if EqualFold (TrimSpace level) target then True else HasLevel levels target)"

definition AliasLevels :: "thinking_support option \<Rightarrow> thinking_level list" where
  "AliasLevels support =
     (case support of
        None \<Rightarrow> []
      | Some s \<Rightarrow>
          if ts_Levels s = [] then []
          else filter (\<lambda>level. HasLevel (ts_Levels s) level) standardLevelOrder)"

definition MapToClaudeEffort :: "string \<Rightarrow> bool \<Rightarrow> string option" where
  "MapToClaudeEffort level supportsMax =
     (let level = ToLower (TrimSpace level) in
      if level = [] then None
      else if level = ''minimal'' then Some ''low''
      else if level \<in> {''low'', ''medium'', ''high''} then Some level
      else if level \<in> {''xhigh'', ''max''} then (if supportsMax then Some ''max'' else Some ''high'')
      else if level = ''auto'' then Some ''high''
      else None)"

datatype model_capability =
    CapabilityUnknown
  | CapabilityNone
  | CapabilityBudgetOnly
  | CapabilityLevelOnly
  | CapabilityHybrid

definition detectModelCapability :: "model_info option \<Rightarrow> model_capability" where
  "detectModelCapability modelInfo =
     (case modelInfo of
        None \<Rightarrow> CapabilityUnknown
      | Some mi \<Rightarrow>
          (case mi_Thinking mi of
             None \<Rightarrow> CapabilityNone
           | Some support \<Rightarrow>
               let hasBudget = (ts_Min support > 0 \<or> ts_Max support > 0);
                   hasLevels = (ts_Levels support \<noteq> [])
               in if hasBudget \<and> hasLevels then CapabilityHybrid
                  else if hasBudget then CapabilityBudgetOnly
                  else if hasLevels then CapabilityLevelOnly
                  else CapabilityNone))"

section \<open>Suffix syntax (\<open>suffix.go\<close>)\<close>

definition no_suffix :: "string \<Rightarrow> suffix_result" where
  "no_suffix model = \<lparr>sr_ModelName = model, sr_HasSuffix = False, sr_RawSuffix = []\<rparr>"

definition ParseSuffix :: "string \<Rightarrow> suffix_result" where
  "ParseSuffix model =
     (case LastIndexByte (CHR ''('') model of
        None \<Rightarrow> no_suffix model
      | Some lastOpen \<Rightarrow>
          if \<not> HasSuffix model '')'' then no_suffix model
          else \<lparr>sr_ModelName = take lastOpen model, sr_HasSuffix = True,
                sr_RawSuffix = drop (lastOpen + 1) (take (length model - 1) model)\<rparr>)"

definition hyphenLevelSuffixes :: "(string, thinking_level) gomap" where
  "hyphenLevelSuffixes = map (\<lambda>level. (level, level)) standardLevelOrder"

definition ParseHyphenLevelSuffix :: "string \<Rightarrow> suffix_result" where
  "ParseHyphenLevelSuffix model0 =
     (let model = TrimSpace model0 in
      case LastIndexByte (CHR ''-'') model of
        None \<Rightarrow> no_suffix model
      | Some lastDash \<Rightarrow>
          if lastDash = 0 \<or> lastDash = length model - 1 then no_suffix model
          else
            let base = TrimSpace (take lastDash model);
                raw = TrimSpace (drop (lastDash + 1) model)
            in if base = [] \<or> raw = [] then no_suffix model
               else if mget hyphenLevelSuffixes (ToLower raw) = None then no_suffix model
               else \<lparr>sr_ModelName = base, sr_HasSuffix = True, sr_RawSuffix = ToLower raw\<rparr>)"

definition ParseSuffixAllowHyphen :: "string \<Rightarrow> suffix_result" where
  "ParseSuffixAllowHyphen model =
     (let result = ParseSuffix model in
      if sr_HasSuffix result then result else ParseHyphenLevelSuffix model)"

definition firstProvider :: "string list \<Rightarrow> string" where
  "firstProvider provider =
     (case provider of [] \<Rightarrow> [] | p # _ \<Rightarrow> ToLower (TrimSpace p))"

definition modelSupportsLevel :: "model_info option \<Rightarrow> string \<Rightarrow> bool" where
  "modelSupportsLevel info rawLevel =
     (case info of
        None \<Rightarrow> False
      | Some mi \<Rightarrow>
          (case mi_Thinking mi of
             None \<Rightarrow> False
           | Some support \<Rightarrow>
               let raw = ToLower (TrimSpace rawLevel) in
               if raw = [] then False
               else list_ex (\<lambda>level. EqualFold (TrimSpace level) raw) (ts_Levels support)))"

definition ParseSuffixForModel ::
  "(string \<Rightarrow> string \<Rightarrow> model_info option) \<Rightarrow> string \<Rightarrow> string list \<Rightarrow> suffix_result" where
  "ParseSuffixForModel lookup model0 provider =
     (let model = TrimSpace model0 in
      if model = [] then no_suffix model
      else
        let result = ParseSuffix model in
        if sr_HasSuffix result then result
        else
          let hyphenResult = ParseHyphenLevelSuffix model in
          case lookup model (firstProvider provider) of
            Some exactInfo \<Rightarrow>
              if mi_ThinkingAliasBase exactInfo = [] \<or> \<not> sr_HasSuffix hyphenResult
              then no_suffix model
              else
                let aliasBase = TrimSpace (mi_ThinkingAliasBase exactInfo) in
                if aliasBase = [] \<or> \<not> EqualFold aliasBase (sr_ModelName hyphenResult)
                then no_suffix model
                else if modelSupportsLevel (Some exactInfo) (sr_RawSuffix hyphenResult)
                then hyphenResult
                else no_suffix model
          | None \<Rightarrow>
              if \<not> sr_HasSuffix hyphenResult then hyphenResult
              else
                let info = lookup (sr_ModelName hyphenResult) (firstProvider provider) in
                if \<not> modelSupportsLevel info (sr_RawSuffix hyphenResult) then no_suffix model
                else hyphenResult)"

definition FormatSuffix :: "string \<Rightarrow> suffix_result \<Rightarrow> string" where
  "FormatSuffix modelName0 sfx =
     (let modelName = TrimSpace modelName0 in
      if modelName = [] \<or> \<not> sr_HasSuffix sfx \<or> TrimSpace (sr_RawSuffix sfx) = []
      then modelName
      else modelName @ ''('' @ TrimSpace (sr_RawSuffix sfx) @ '')'')"

definition ParseNumericSuffix :: "string \<Rightarrow> int option" where
  "ParseNumericSuffix rawSuffix =
     (if rawSuffix = [] then None
      else case Atoi rawSuffix of
             None \<Rightarrow> None
           | Some v \<Rightarrow> if v < 0 then None else Some v)"

definition ParseSpecialSuffix :: "string \<Rightarrow> thinking_mode option" where
  "ParseSpecialSuffix rawSuffix =
     (if rawSuffix = [] then None
      else if ToLower rawSuffix = ''none'' then Some ModeNone
      else if ToLower rawSuffix \<in> {''auto'', ''-1''} then Some ModeAuto
      else None)"

definition ParseLevelSuffix :: "string \<Rightarrow> thinking_level option" where
  "ParseLevelSuffix rawSuffix =
     (if rawSuffix = [] then None
      else if ToLower rawSuffix = ''minimal'' then Some LevelMinimal
      else if ToLower rawSuffix = ''low'' then Some LevelLow
      else if ToLower rawSuffix = ''medium'' then Some LevelMedium
      else if ToLower rawSuffix = ''high'' then Some LevelHigh
      else if ToLower rawSuffix = ''xhigh'' then Some LevelXHigh
      else if ToLower rawSuffix = ''max'' then Some LevelMax
      else None)"

section \<open>Properties\<close>

lemma ParseSuffix_eq:
  "ParseSuffix s = \<lparr>sr_ModelName = n, sr_HasSuffix = True, sr_RawSuffix = r\<rparr> \<longleftrightarrow>
     s = n @ ''('' @ r @ '')'' \<and> CHR ''('' \<notin> set r"
proof
  assume *: "s = n @ ''('' @ r @ '')'' \<and> CHR ''('' \<notin> set r"
  then have "LastIndexByte (CHR ''('') s = Some (length n)"
    using LastIndexByte_append_notin [of "CHR ''(''" "r @ '')''" n] by simp
  moreover from * have "HasSuffix s '')''"
    using HasSuffix_snoc [of "n @ ''('' @ r" "CHR '')''" "CHR '')''"] by simp
  ultimately show "ParseSuffix s = \<lparr>sr_ModelName = n, sr_HasSuffix = True, sr_RawSuffix = r\<rparr>"
    using * by (simp add: ParseSuffix_def)
next
  assume *: "ParseSuffix s = \<lparr>sr_ModelName = n, sr_HasSuffix = True, sr_RawSuffix = r\<rparr>"
  then obtain i where i: "LastIndexByte (CHR ''('') s = Some i" and suf: "HasSuffix s '')''"
    and n: "n = take i s" and r: "r = drop (i + 1) (take (length s - 1) s)"
    by (auto simp: ParseSuffix_def no_suffix_def split: option.splits if_splits)
  from suf obtain t where t: "s = t @ '')''" by (auto simp: HasSuffix_iff_suffix suffix_def)
  from LastIndexByte_SomeD [OF i] have il: "i < length s" and si: "s ! i = CHR ''(''"
    and ni: "CHR ''('' \<notin> set (drop (Suc i) s)" by auto
  have it: "i < length t"
  proof (rule ccontr)
    assume "\<not> i < length t"
    with il t have "i = length t" by simp
    with si t show False by simp
  qed
  with si t have "t ! i = CHR ''(''" by (simp add: nth_append)
  with it have "t = take i t @ CHR ''('' # drop (Suc i) t"
    by (metis id_take_nth_drop)
  moreover from n t it have "n = take i t" by simp
  moreover from r t have "r = drop (Suc i) t" by simp
  moreover from ni t it have "CHR ''('' \<notin> set (drop (Suc i) t)" by simp
  ultimately show "s = n @ ''('' @ r @ '')'' \<and> CHR ''('' \<notin> set r"
    using t by (metis append.assoc append_Cons append_Nil)
qed

text \<open>C31: the parser of the parenthesised suffix is the inverse of writing it: it reports base name \<open>n\<close>
  and value \<open>r\<close> exactly for the text \<open>n(r)\<close>, the last opening parenthesis being the one that counts.\<close>

theorem ParseSuffix_iff:
  "ParseSuffix s = \<lparr>sr_ModelName = n, sr_HasSuffix = True, sr_RawSuffix = r\<rparr> \<longleftrightarrow>
     s = n @ ''('' @ r @ '')'' \<and> CHR ''('' \<notin> set r"
  by (rule ParseSuffix_eq)

lemma FormatSuffix_roundtrip:
  assumes "trimmed m" "m \<noteq> []" "trimmed r" "r \<noteq> []" "CHR ''('' \<notin> set r"
  shows "ParseSuffix (FormatSuffix m \<lparr>sr_ModelName = x, sr_HasSuffix = True, sr_RawSuffix = r\<rparr>) =
           \<lparr>sr_ModelName = m, sr_HasSuffix = True, sr_RawSuffix = r\<rparr>"
  using assms by (simp add: FormatSuffix_def ParseSuffix_eq)

lemma standard_level_facts:
  assumes "level \<in> set standardLevelOrder"
  shows "trimmed level" "level \<noteq> []" "CHR ''-'' \<notin> set level" "ToLower level = level"
    "mget hyphenLevelSuffixes level = Some level" "last level \<noteq> CHR '')''"
proof -
  have "list_all (\<lambda>level. trimmed level \<and> level \<noteq> [] \<and> CHR ''-'' \<notin> set level \<and> ToLower level = level \<and>
          mget hyphenLevelSuffixes level = Some level \<and> last level \<noteq> CHR '')'') standardLevelOrder"
    by code_simp
  with assms show "trimmed level" "level \<noteq> []" "CHR ''-'' \<notin> set level" "ToLower level = level"
    "mget hyphenLevelSuffixes level = Some level" "last level \<noteq> CHR '')''"
    by (auto simp: list_all_iff)
qed

declare standard_level_facts(1,2) [simp]

lemma trimmed_append_dash:
  "trimmed b \<Longrightarrow> trimmed l \<Longrightarrow> b \<noteq> [] \<Longrightarrow> l \<noteq> [] \<Longrightarrow> trimmed (b @ ''-'' @ l)"
  by (auto simp: trimmed_def)

lemma ParseHyphenLevelSuffix_alias:
  assumes b: "trimmed base" "base \<noteq> []" and l: "level \<in> set standardLevelOrder"
  shows "ParseHyphenLevelSuffix (base @ ''-'' @ level) =
           \<lparr>sr_ModelName = base, sr_HasSuffix = True, sr_RawSuffix = level\<rparr>"
proof -
  note lf = standard_level_facts [OF l]
  have tr: "TrimSpace (base @ ''-'' @ level) = base @ ''-'' @ level"
    using b lf trimmed_append_dash by (intro TrimSpace_trimmed) auto
  have "LastIndexByte (CHR ''-'') (base @ ''-'' @ level) = Some (length base)"
    using LastIndexByte_append_notin [of "CHR ''-''" level base] lf by simp
  with tr b lf show ?thesis
    by (simp add: ParseHyphenLevelSuffix_def)
qed

lemma ParseSuffix_no_paren: "s \<noteq> [] \<Longrightarrow> last s \<noteq> CHR '')'' \<Longrightarrow> ParseSuffix s = no_suffix s"
  using HasSuffix_snoc [of "butlast s" "last s" "CHR '')''"]
  by (simp add: ParseSuffix_def split: option.splits)

lemma no_suffix_HasSuffix [simp]: "sr_HasSuffix (no_suffix s) = False"
  by (simp add: no_suffix_def)

lemma AliasLevels_standard: "level \<in> set (AliasLevels s) \<Longrightarrow> level \<in> set standardLevelOrder"
  by (auto simp: AliasLevels_def split: option.splits if_splits)

lemma HasLevel_iff: "HasLevel levels target \<longleftrightarrow> (\<exists>l \<in> set levels. EqualFold (TrimSpace l) target)"
  by (induction levels) auto

lemma modelSupportsLevel_alias:
  assumes "level \<in> set (AliasLevels (mi_Thinking mi))"
  shows "modelSupportsLevel (Some mi) level"
proof -
  note lf = standard_level_facts [OF AliasLevels_standard [OF assms]]
  from assms obtain s where "mi_Thinking mi = Some s" and "HasLevel (ts_Levels s) level"
    by (cases "mi_Thinking mi") (auto simp: AliasLevels_def split: if_splits)
  with lf show ?thesis
    by (auto simp: modelSupportsLevel_def HasLevel_iff list_ex_iff)
qed

text \<open>Every alias name \<open>base-level\<close> that the registry publishes for a model resolves to the base model
  and that level, whether or not the alias itself is registered.\<close>

theorem alias_resolves:
  assumes "trimmed base" and "base \<noteq> []"
    and "level \<in> set (AliasLevels (mi_Thinking mi))"
    and "lookup base (firstProvider provider) = Some mi"
    and "case lookup (base @ ''-'' @ level) (firstProvider provider) of
           None \<Rightarrow> True
         | Some ai \<Rightarrow> mi_ThinkingAliasBase ai = base \<and> mi_Thinking ai = mi_Thinking mi"
  shows "ParseSuffixForModel lookup (base @ ''-'' @ level) provider =
           \<lparr>sr_ModelName = base, sr_HasSuffix = True, sr_RawSuffix = level\<rparr>"
proof -
  note std = AliasLevels_standard [OF assms(3)]
  note lf = standard_level_facts [OF std]
  let ?m = "base @ ''-'' @ level"
  have tr: "TrimSpace ?m = ?m"
    using assms(1,2) lf trimmed_append_dash by (intro TrimSpace_trimmed) auto
  have "ParseSuffix ?m = no_suffix ?m"
    using lf by (intro ParseSuffix_no_paren) auto
  moreover have "ParseHyphenLevelSuffix ?m = \<lparr>sr_ModelName = base, sr_HasSuffix = True, sr_RawSuffix = level\<rparr>"
    using ParseHyphenLevelSuffix_alias assms(1,2) std by blast
  moreover have "modelSupportsLevel (Some ai) level" if "mi_Thinking ai = mi_Thinking mi" for ai
    using modelSupportsLevel_alias [of level ai] assms(3) that by simp
  ultimately show ?thesis
    using tr assms by (auto simp: ParseSuffixForModel_def Let_def split: option.splits)
qed

theorem alias_resolves_witness:
  "ParseSuffixForModel
     (\<lambda>m p. if m = ''gpt-5'' then
        Some (zero_model_info\<lparr>mi_ID := ''gpt-5'', mi_Thinking := Some \<lparr>ts_Min = 0, ts_Max = 0,
          ts_ZeroAllowed = False, ts_DynamicAllowed = False, ts_Levels = [''low'', ''high'']\<rparr>\<rparr>) else None)
     ''gpt-5-high'' [''codex''] =
   \<lparr>sr_ModelName = ''gpt-5'', sr_HasSuffix = True, sr_RawSuffix = ''high''\<rparr>"
proof -
  let ?mi = "zero_model_info\<lparr>mi_ID := ''gpt-5'', mi_Thinking := Some \<lparr>ts_Min = 0, ts_Max = 0,
          ts_ZeroAllowed = False, ts_DynamicAllowed = False, ts_Levels = [''low'', ''high'']\<rparr>\<rparr>"
  have "trimmed ''gpt-5''" and "''high'' \<in> set (AliasLevels (mi_Thinking ?mi))"
    by code_simp+
  then show ?thesis
    using alias_resolves [of "''gpt-5''" "''high''" ?mi
        "\<lambda>m p. if m = ''gpt-5'' then Some ?mi else None" "[''codex'']"] by simp
qed

lemma exact_model_kept:
  assumes "lookup (TrimSpace model) (firstProvider provider) = Some mi"
    and "mi_ThinkingAliasBase mi = []" and "\<not> sr_HasSuffix (ParseSuffix (TrimSpace model))"
  shows "ParseSuffixForModel lookup model provider = no_suffix (TrimSpace model)"
  using assms by (simp add: ParseSuffixForModel_def Let_def)

lemma lower_char_letter:
  assumes "97 \<le> (of_char (lower_char d) :: nat)"
  shows "digit_value d = None" "d \<noteq> CHR ''-''" "d \<noteq> CHR ''+''"
  using assms by (auto simp: lower_char_def digit_value_def split: if_splits)

lemma lower_char_non_letter: "(of_char (lower_char d) :: nat) < 97 \<Longrightarrow> lower_char d = d"
  by (auto simp: lower_char_def split: if_splits)

lemma Atoi_letter:
  assumes "ToLower s = c # cs" and "97 \<le> (of_char c :: nat)"
  shows "Atoi s = None"
proof -
  from assms obtain d ds where "s = d # ds" "lower_char d = c"
    by (auto simp: ToLower_def)
  with assms(2) lower_char_letter [of d] show ?thesis
    by (simp add: Atoi_def)
qed

lemma Numeric_word: "ToLower s = c # cs \<Longrightarrow> 97 \<le> (of_char c :: nat) \<Longrightarrow> ParseNumericSuffix s = None"
  by (simp add: ParseNumericSuffix_def Atoi_letter)

lemma ToLower_minus_one: "ToLower s = ''-1'' \<Longrightarrow> s = ''-1''"
proof -
  assume "ToLower s = ''-1''"
  then obtain a b where s: "s = [a, b]" and ab: "lower_char a = CHR ''-''" "lower_char b = CHR ''1''"
    by (auto simp: ToLower_def)
  then have "lower_char a = a" "lower_char b = b"
    using lower_char_non_letter [of a] lower_char_non_letter [of b] by simp_all
  with s ab show ?thesis by simp
qed

lemma Numeric_minus_one: "ParseNumericSuffix ''-1'' = None"
  by code_simp

text \<open>A suffix value has at most one reading: a special value (none, auto, -1), a level or a budget.
  The order in which the callers try the three parsers cannot change the outcome.\<close>

theorem suffix_parsers_exclusive:
  "(ParseSpecialSuffix s \<noteq> None \<or> ParseLevelSuffix s \<noteq> None \<longrightarrow> ParseNumericSuffix s = None) \<and>
   (ParseSpecialSuffix s \<noteq> None \<longrightarrow> ParseLevelSuffix s = None)"
  by (auto simp: ParseSpecialSuffix_def ParseLevelSuffix_def Numeric_word Numeric_minus_one
      dest: ToLower_minus_one split: if_splits)

theorem suffix_parsers_exclusive_witness:
  "ParseSpecialSuffix ''AUTO'' = Some ModeAuto \<and> ParseLevelSuffix ''AUTO'' = None \<and>
   ParseNumericSuffix ''AUTO'' = None"
proof -
  have "ParseSpecialSuffix ''AUTO'' = Some ModeAuto" by code_simp
  with suffix_parsers_exclusive [of "''AUTO''"] show ?thesis by simp
qed

text \<open>A budget is rounded up: the level it is converted to is the cheapest standard level whose own
  budget covers it.\<close>

theorem ConvertBudgetToLevel_least:
  assumes "ConvertBudgetToLevel b = Some l" "0 < b" "b \<le> 32768"
  shows "\<exists>c. ConvertLevelToBudget l = Some c \<and> b \<le> c \<and>
    (\<forall>l' c'. l' \<in> set standardLevelOrder \<longrightarrow> ConvertLevelToBudget l' = Some c' \<longrightarrow> b \<le> c' \<longrightarrow> c \<le> c')"
proof -
  have vals: "map ConvertLevelToBudget standardLevelOrder =
     [Some 512, Some 1024, Some 8192, Some 24576, Some 32768, Some 128000]"
    by code_simp
  then have ex: "ConvertLevelToBudget LevelMinimal = Some 512" "ConvertLevelToBudget LevelLow = Some 1024"
      "ConvertLevelToBudget LevelMedium = Some 8192" "ConvertLevelToBudget LevelHigh = Some 24576"
      "ConvertLevelToBudget LevelXHigh = Some 32768" "ConvertLevelToBudget LevelMax = Some 128000"
    by (simp_all add: standardLevelOrder_def)
  show ?thesis
    using assms
    by (auto simp: ConvertBudgetToLevel_def threshold_defs standardLevelOrder_def ex split: if_splits)
qed

theorem ConvertBudgetToLevel_least_witness:
  "\<exists>c. ConvertLevelToBudget ''medium'' = Some c \<and> 5000 \<le> c \<and>
    (\<forall>l' c'. l' \<in> set standardLevelOrder \<longrightarrow> ConvertLevelToBudget l' = Some c' \<longrightarrow> 5000 \<le> c' \<longrightarrow> c \<le> c')"
proof -
  have "ConvertBudgetToLevel 5000 = Some ''medium''" by code_simp
  from ConvertBudgetToLevel_least [OF this] show ?thesis by simp
qed

lemma ConvertBudgetToLevel_fixpoint:
  "map (\<lambda>l. Option.bind (ConvertLevelToBudget l) ConvertBudgetToLevel) standardLevelOrder =
     [Some LevelMinimal, Some LevelLow, Some LevelMedium, Some LevelHigh, Some LevelXHigh, Some LevelXHigh]"
  by code_simp

end
