(* ===== verification/Thinking_Validate.thy ===== *)
theory Thinking_Validate
  imports Thinking
begin

text \<open>
  \<open>ValidateConfig\<close> of \<^verbatim>\<open>internal/thinking/validate.go\<close>: a requested configuration is
  converted to what the model understands (budgets or levels), special values are folded
  into their modes, unsupported levels are clamped or refused, budgets are checked or clamped
  to the model's range. The function is cut at the blocks of its body, one definition per
  block, and \<open>ValidateConfig\<close> composes them in the code's order.
\<close>

section \<open>Helpers\<close>

fun levelIndex_from :: "int \<Rightarrow> thinking_level list \<Rightarrow> string \<Rightarrow> int" where
  "levelIndex_from i [] level = -1"
| "levelIndex_from i (l # ls) level = (if EqualFold level l then i else levelIndex_from (i + 1) ls level)"

definition levelIndex :: "string \<Rightarrow> int" where
  "levelIndex level = levelIndex_from 0 standardLevelOrder level"

definition isLevelSupported :: "string \<Rightarrow> string list \<Rightarrow> bool" where
  "isLevelSupported level supported = list_ex (\<lambda>s. EqualFold level (TrimSpace s)) supported"

definition isGeminiFamily :: "string \<Rightarrow> bool" where
  "isGeminiFamily provider \<longleftrightarrow> provider \<in> {''gemini'', ''antigravity''}"

definition isOpenAIFamily :: "string \<Rightarrow> bool" where
  "isOpenAIFamily provider \<longleftrightarrow> provider \<in> {''openai'', ''openai-response'', ''codex''}"

definition isSameProviderFamily :: "string \<Rightarrow> string \<Rightarrow> bool" where
  "isSameProviderFamily from to =
     (if from = to then True
      else (isGeminiFamily from \<and> isGeminiFamily to) \<or> (isOpenAIFamily from \<and> isOpenAIFamily to))"

section \<open>Clamping\<close>

text \<open>The loop of \<open>clampLevel\<close> over the supported levels, with \<open>(bestIdx, bestDist)\<close>.\<close>

fun nearestLevel :: "int \<Rightarrow> int \<times> int \<Rightarrow> string list \<Rightarrow> int \<times> int" where
  "nearestLevel pos best [] = best"
| "nearestLevel pos (bestIdx, bestDist) (s # supported) =
     (let idx = levelIndex (TrimSpace s);
          dist = \<bar>pos - idx\<bar>
      in if idx \<noteq> -1 \<and> (dist < bestDist \<or> (dist = bestDist \<and> idx < bestIdx))
         then nearestLevel pos (idx, dist) supported
         else nearestLevel pos (bestIdx, bestDist) supported)"

definition supportedLevels :: "model_info option \<Rightarrow> string list" where
  "supportedLevels modelInfo =
     (case modelInfo of
        None \<Rightarrow> []
      | Some mi \<Rightarrow> (case mi_Thinking mi of None \<Rightarrow> [] | Some s \<Rightarrow> ts_Levels s))"

definition clampLevel :: "thinking_level \<Rightarrow> model_info option \<Rightarrow> thinking_level" where
  "clampLevel level modelInfo =
     (let supported = supportedLevels modelInfo in
      if supported = [] \<or> isLevelSupported level supported then level
      else
        let pos = levelIndex level in
        if pos = -1 then level
        else
          let best = nearestLevel pos (-1, int (length standardLevelOrder) + 1) supported in
          if fst best \<ge> 0 then standardLevelOrder ! nat (fst best) else level)"

definition clampBudget :: "int \<Rightarrow> model_info option \<Rightarrow> int" where
  "clampBudget v modelInfo =
     (case (case modelInfo of None \<Rightarrow> None | Some mi \<Rightarrow> mi_Thinking mi) of
        None \<Rightarrow> v
      | Some support \<Rightarrow>
          if v = -1 then v
          else if v = 0 \<and> \<not> ts_ZeroAllowed support then ts_Min support
          else if ts_Min support = 0 \<and> ts_Max support = 0 then v
          else if v < ts_Min support then
            (if v = 0 \<and> ts_ZeroAllowed support then 0 else ts_Min support)
          else if v > ts_Max support then ts_Max support
          else v)"

definition convertAutoToMidRange :: "thinking_config \<Rightarrow> thinking_support \<Rightarrow> thinking_config" where
  "convertAutoToMidRange config support =
     (if ts_Levels support \<noteq> [] \<and> ts_Min support = 0 \<and> ts_Max support = 0
      then config\<lparr>tc_Mode := ModeLevel, tc_Level := LevelMedium, tc_Budget := 0\<rparr>
      else
        let mid = quot64 (wrap64 (ts_Min support + ts_Max support)) 2 in
        if mid \<le> 0 \<and> ts_ZeroAllowed support then config\<lparr>tc_Mode := ModeNone, tc_Budget := 0\<rparr>
        else if mid \<le> 0 then config\<lparr>tc_Mode := ModeBudget, tc_Budget := ts_Min support\<rparr>
        else config\<lparr>tc_Mode := ModeBudget, tc_Budget := mid\<rparr>)"

section \<open>The blocks of \<open>ValidateConfig\<close>\<close>

definition modelFamilyMismatch :: "model_info option \<Rightarrow> string \<Rightarrow> string \<Rightarrow> bool" where
  "modelFamilyMismatch modelInfo fromFormat toFormat =
     (case modelInfo of
        None \<Rightarrow> False
      | Some mi \<Rightarrow>
          let modelType = ToLower (TrimSpace (mi_Type mi)) in
          modelType \<noteq> [] \<and>
          ((fromFormat \<noteq> [] \<and> \<not> isSameProviderFamily fromFormat modelType) \<or>
           (toFormat \<noteq> [] \<and> \<not> isSameProviderFamily toFormat modelType)))"

definition allowClampUnsupported :: "model_info option \<Rightarrow> string \<Rightarrow> string \<Rightarrow> bool" where
  "allowClampUnsupported modelInfo fromFormat toFormat =
     (let cap = detectModelCapability modelInfo in
      (cap = CapabilityLevelOnly \<or> cap = CapabilityHybrid) \<and>
      (\<not> isSameProviderFamily fromFormat toFormat \<or> modelFamilyMismatch modelInfo fromFormat toFormat))"

definition strictBudget :: "model_info option \<Rightarrow> string \<Rightarrow> string \<Rightarrow> bool \<Rightarrow> bool" where
  "strictBudget modelInfo fromFormat toFormat fromSuffix =
     (\<not> fromSuffix \<and> fromFormat \<noteq> [] \<and> isSameProviderFamily fromFormat toFormat \<and>
      \<not> modelFamilyMismatch modelInfo fromFormat toFormat)"

text \<open>Conversion to the model's own format; the flag is \<open>budgetDerivedFromLevel\<close>.\<close>

definition validate_convert ::
  "thinking_config \<Rightarrow> model_info option \<Rightarrow> thinking_error + (thinking_config \<times> bool)" where
  "validate_convert config modelInfo =
     (case detectModelCapability modelInfo of
        CapabilityBudgetOnly \<Rightarrow>
          if tc_Mode config = ModeLevel \<and> tc_Level config \<noteq> LevelAuto then
            (case ConvertLevelToBudget (tc_Level config) of
               None \<Rightarrow> Inl \<lparr>te_Code = ErrUnknownLevel, te_Model = []\<rparr>
             | Some budget \<Rightarrow>
                 Inr (config\<lparr>tc_Mode := ModeBudget, tc_Budget := budget, tc_Level := []\<rparr>, True))
          else Inr (config, False)
      | CapabilityLevelOnly \<Rightarrow>
          if tc_Mode config = ModeBudget then
            (case ConvertBudgetToLevel (tc_Budget config) of
               None \<Rightarrow> Inl \<lparr>te_Code = ErrUnknownLevel, te_Model = []\<rparr>
             | Some level \<Rightarrow>
                 Inr (config\<lparr>tc_Mode := ModeLevel, tc_Level := clampLevel level modelInfo,
                             tc_Budget := 0\<rparr>, False))
          else Inr (config, False)
      | _ \<Rightarrow> Inr (config, False))"

text \<open>\<open>none\<close>, \<open>auto\<close> and a zero budget become the modes they stand for.\<close>

definition validate_specials :: "thinking_config \<Rightarrow> thinking_config" where
  "validate_specials config =
     (let config1 =
            (if tc_Mode config = ModeLevel \<and> tc_Level config = LevelNone
             then config\<lparr>tc_Mode := ModeNone, tc_Budget := 0, tc_Level := []\<rparr> else config);
          config2 =
            (if tc_Mode config1 = ModeLevel \<and> tc_Level config1 = LevelAuto
             then config1\<lparr>tc_Mode := ModeAuto, tc_Budget := -1, tc_Level := []\<rparr> else config1)
      in if tc_Mode config2 = ModeBudget \<and> tc_Budget config2 = 0
         then config2\<lparr>tc_Mode := ModeNone, tc_Level := []\<rparr> else config2)"

definition validate_levels ::
  "thinking_config \<Rightarrow> thinking_support \<Rightarrow> model_info option \<Rightarrow> bool \<Rightarrow> thinking_error + thinking_config"
where
  "validate_levels config support modelInfo allowClamp =
     (if ts_Levels support \<noteq> [] \<and> tc_Mode config = ModeLevel \<and>
         \<not> isLevelSupported (tc_Level config) (ts_Levels support)
      then
        let config1 =
              (if allowClamp then config\<lparr>tc_Level := clampLevel (tc_Level config) modelInfo\<rparr>
               else config)
        in if \<not> isLevelSupported (tc_Level config1) (ts_Levels support)
           then Inl \<lparr>te_Code = ErrLevelNotSupported, te_Model = []\<rparr>
           else Inr config1
      else Inr config)"

definition validate_strict ::
  "thinking_config \<Rightarrow> thinking_support \<Rightarrow> bool \<Rightarrow> bool \<Rightarrow> thinking_error + thinking_config" where
  "validate_strict config support strict derived =
     (if strict \<and> tc_Mode config = ModeBudget \<and> \<not> derived \<and>
         (ts_Min support \<noteq> 0 \<or> ts_Max support \<noteq> 0) \<and>
         (tc_Budget config < ts_Min support \<or> tc_Budget config > ts_Max support \<or>
          (tc_Budget config = 0 \<and> \<not> ts_ZeroAllowed support))
      then Inl \<lparr>te_Code = ErrBudgetOutOfRange, te_Model = []\<rparr>
      else Inr config)"

definition validate_auto ::
  "thinking_config \<Rightarrow> thinking_support \<Rightarrow> model_info option \<Rightarrow> thinking_config" where
  "validate_auto config support modelInfo =
     (if tc_Mode config = ModeAuto \<and> \<not> ts_DynamicAllowed support
      then
        let config1 = convertAutoToMidRange config support in
        if tc_Mode config1 = ModeLevel \<and> ts_Levels support \<noteq> [] \<and>
           \<not> isLevelSupported (tc_Level config1) (ts_Levels support)
        then config1\<lparr>tc_Level := clampLevel (tc_Level config1) modelInfo\<rparr>
        else config1
      else config)"

definition validate_clamp ::
  "thinking_config \<Rightarrow> thinking_support \<Rightarrow> model_info option \<Rightarrow> string \<Rightarrow> thinking_config" where
  "validate_clamp config support modelInfo toFormat =
     (if tc_Mode config = ModeNone \<and> toFormat = ''claude''
      then config\<lparr>tc_Budget := 0, tc_Level := []\<rparr>
      else
        let config1 =
              (if tc_Mode config \<in> {ModeBudget, ModeAuto, ModeNone}
               then config\<lparr>tc_Budget := clampBudget (tc_Budget config) modelInfo\<rparr> else config);
            cannotDisableLevelModel =
              (\<not> ts_ZeroAllowed support \<and> \<not> isLevelSupported LevelNone (ts_Levels support))
        in if tc_Mode config1 = ModeNone \<and> ts_Levels support \<noteq> [] \<and>
              (tc_Budget config1 > 0 \<or> cannotDisableLevelModel)
           then config1\<lparr>tc_Level := hd (ts_Levels support)\<rparr>
           else config1)"

definition ValidateConfig ::
  "thinking_config \<Rightarrow> model_info option \<Rightarrow> string \<Rightarrow> string \<Rightarrow> bool \<Rightarrow>
   thinking_error + thinking_config" where
  "ValidateConfig config modelInfo fromFormat0 toFormat0 fromSuffix =
     (let fromFormat = ToLower (TrimSpace fromFormat0);
          toFormat = ToLower (TrimSpace toFormat0);
          model = (case modelInfo of
                     None \<Rightarrow> ''unknown''
                   | Some mi \<Rightarrow> if mi_ID mi \<noteq> [] then mi_ID mi else ''unknown'');
          support0 = (case modelInfo of None \<Rightarrow> None | Some mi \<Rightarrow> mi_Thinking mi)
      in case support0 of
           None \<Rightarrow>
             if tc_Mode config \<noteq> ModeNone
             then Inl \<lparr>te_Code = ErrThinkingNotSupported, te_Model = model\<rparr>
             else Inr config
         | Some support \<Rightarrow>
             case validate_convert config modelInfo of
               Inl e \<Rightarrow> Inl e
             | Inr (config1, derived) \<Rightarrow>
                 case validate_levels (validate_specials config1) support modelInfo
                        (allowClampUnsupported modelInfo fromFormat toFormat) of
                   Inl e \<Rightarrow> Inl e
                 | Inr config2 \<Rightarrow>
                     case validate_strict config2 support
                            (strictBudget modelInfo fromFormat toFormat fromSuffix) derived of
                       Inl e \<Rightarrow> Inl e
                     | Inr config3 \<Rightarrow>
                         Inr (validate_clamp (validate_auto config3 support modelInfo)
                                support modelInfo toFormat))"

section \<open>Properties\<close>

subsection \<open>Levels\<close>

lemma levelIndex_from_cases:
  "levelIndex_from k ls l = -1 \<and> (\<forall>x \<in> set ls. \<not> EqualFold l x) \<or>
   (k \<le> levelIndex_from k ls l \<and> levelIndex_from k ls l < k + int (length ls) \<and>
    EqualFold l (ls ! nat (levelIndex_from k ls l - k)))"
proof (induction ls arbitrary: k)
  case (Cons x xs)
  show ?case
  proof (cases "EqualFold l x")
    case False
    let ?L = "levelIndex_from (k + 1) xs l"
    have "nat (?L - k) = Suc (nat (?L - (k + 1)))" if "k + 1 \<le> ?L" using that by simp
    with False Cons [of "k + 1"] show ?thesis by auto
  qed simp
qed simp

lemma levelIndex_cases:
  obtains "levelIndex l = -1"
  | "0 \<le> levelIndex l" "levelIndex l < 6" "EqualFold l (standardLevelOrder ! nat (levelIndex l))"
  using levelIndex_from_cases [of 0 standardLevelOrder l]
  by (auto simp: levelIndex_def standardLevelOrder_def)

lemma levelIndex_standard:
  assumes "0 \<le> i" and "i < 6"
  shows "levelIndex (standardLevelOrder ! nat i) = i"
proof -
  have "map levelIndex standardLevelOrder = map int [0..<6]"
    by code_simp
  then have "map levelIndex standardLevelOrder ! nat i = map int [0..<6] ! nat i" by simp
  moreover from assms have "nat i < length standardLevelOrder" "nat i < length [0..<6]"
    by (auto simp: standardLevelOrder_def)
  ultimately show ?thesis using assms by (simp only: nth_map) simp
qed

lemma nearestLevel_spec:
  assumes "nearestLevel pos (bi, bd) ss = (i, d)"
  shows "((i, d) = (bi, bd) \<or>
            (\<exists>s \<in> set ss. levelIndex (TrimSpace s) = i \<and> i \<noteq> -1 \<and> d = \<bar>pos - i\<bar>)) \<and>
         (d < bd \<or> d = bd \<and> i \<le> bi) \<and>
         (\<forall>s \<in> set ss. levelIndex (TrimSpace s) \<noteq> -1 \<longrightarrow>
            d < \<bar>pos - levelIndex (TrimSpace s)\<bar> \<or>
            d = \<bar>pos - levelIndex (TrimSpace s)\<bar> \<and> i \<le> levelIndex (TrimSpace s))"
  using assms
proof (induction ss arbitrary: bi bd)
  case (Cons s ss)
  let ?x = "levelIndex (TrimSpace s)"
  show ?case
  proof (cases "?x \<noteq> -1 \<and> (\<bar>pos - ?x\<bar> < bd \<or> (\<bar>pos - ?x\<bar> = bd \<and> ?x < bi))")
    case True
    with Cons.prems have "nearestLevel pos (?x, \<bar>pos - ?x\<bar>) ss = (i, d)" by (simp add: Let_def)
    from Cons.IH [OF this] True show ?thesis by auto
  next
    case False
    with Cons.prems have "nearestLevel pos (bi, bd) ss = (i, d)" by (simp add: Let_def)
    from Cons.IH [OF this] False show ?thesis by auto
  qed
qed simp

lemma isLevelSupported_iff:
  "isLevelSupported level supported \<longleftrightarrow> (\<exists>s \<in> set supported. EqualFold level (TrimSpace s))"
  by (simp add: isLevelSupported_def list_ex_iff)

lemma clampLevel_unsupported:
  assumes "\<not> isLevelSupported level (supportedLevels mi)"
    and "levelIndex level \<noteq> -1"
    and "\<exists>s \<in> set (supportedLevels mi). levelIndex (TrimSpace s) \<noteq> -1"
  shows "isLevelSupported (clampLevel level mi) (supportedLevels mi) \<and>
         (\<forall>s \<in> set (supportedLevels mi). levelIndex (TrimSpace s) \<noteq> -1 \<longrightarrow>
            (let r = levelIndex (clampLevel level mi); p = levelIndex level;
                 x = levelIndex (TrimSpace s)
             in \<bar>p - r\<bar> < \<bar>p - x\<bar> \<or> (\<bar>p - r\<bar> = \<bar>p - x\<bar> \<and> r \<le> x)))"
proof -
  let ?S = "supportedLevels mi" and ?p = "levelIndex level"
  obtain i d where id: "nearestLevel ?p (-1, int (length standardLevelOrder) + 1) ?S = (i, d)"
    by fastforce
  note spec = nearestLevel_spec [OF id]
  from assms(3) obtain s0 where s0: "s0 \<in> set ?S" "levelIndex (TrimSpace s0) \<noteq> -1" by blast
  have "\<bar>?p - levelIndex (TrimSpace s0)\<bar> < 7"
    using levelIndex_cases [of level] levelIndex_cases [of "TrimSpace s0"] by (smt (verit))
  with spec s0 have "(i, d) \<noteq> (-1, 7)" by fastforce
  then obtain s where s: "s \<in> set ?S" "levelIndex (TrimSpace s) = i" "i \<noteq> -1" "d = \<bar>?p - i\<bar>"
    using spec by (auto simp: standardLevelOrder_def)
  then have rng: "0 \<le> i" "i < 6" and eq: "EqualFold (TrimSpace s) (standardLevelOrder ! nat i)"
    using levelIndex_cases [of "TrimSpace s"] by auto
  have clamp: "clampLevel level mi = standardLevelOrder ! nat i"
    using assms(1,2) s(1) id rng by (auto simp: clampLevel_def Let_def)
  have "isLevelSupported (clampLevel level mi) ?S"
    unfolding clamp isLevelSupported_iff using s(1) eq EqualFold_sym by blast
  moreover have "levelIndex (clampLevel level mi) = i"
    unfolding clamp using rng by (rule levelIndex_standard)
  ultimately show ?thesis using spec s(4) by (simp add: Let_def)
qed

text \<open>an unsupported level is clamped to a supported one, and to the nearest in the standard
  order; on a tie the lower level wins.\<close>

theorem clampLevel_nearest:
  assumes "\<not> isLevelSupported level (supportedLevels mi)"
    and "levelIndex level \<noteq> -1"
    and "\<exists>s \<in> set (supportedLevels mi). levelIndex (TrimSpace s) \<noteq> -1"
  shows "isLevelSupported (clampLevel level mi) (supportedLevels mi) \<and>
         (\<forall>s \<in> set (supportedLevels mi). levelIndex (TrimSpace s) \<noteq> -1 \<longrightarrow>
            (let r = levelIndex (clampLevel level mi); p = levelIndex level;
                 x = levelIndex (TrimSpace s)
             in \<bar>p - r\<bar> < \<bar>p - x\<bar> \<or> (\<bar>p - r\<bar> = \<bar>p - x\<bar> \<and> r \<le> x)))"
  using assms by (rule clampLevel_unsupported)

theorem clampLevel_nearest_witness:
  "isLevelSupported (clampLevel ''max'' (Some (zero_model_info\<lparr>mi_ID := ''m'', mi_Thinking := Some \<lparr>ts_Min = 1024, ts_Max = 32768,
       ts_ZeroAllowed = False, ts_DynamicAllowed = False, ts_Levels = [''low'', ''high'']\<rparr>\<rparr>))) [''low'', ''high'']"
proof -
  let ?mi = "Some (zero_model_info\<lparr>mi_ID := ''m'', mi_Thinking := Some \<lparr>ts_Min = 1024, ts_Max = 32768,
       ts_ZeroAllowed = False, ts_DynamicAllowed = False, ts_Levels = [''low'', ''high'']\<rparr>\<rparr>)"
  have "\<not> isLevelSupported ''max'' (supportedLevels ?mi)" and "levelIndex ''max'' \<noteq> -1"
    and "levelIndex (TrimSpace ''low'') \<noteq> -1" and s: "supportedLevels ?mi = [''low'', ''high'']"
    by code_simp+
  with clampLevel_nearest [of "''max''" ?mi] show ?thesis by simp
qed

lemma clampLevel_supported:
  assumes "levelIndex l \<noteq> -1" and "\<exists>x \<in> set (supportedLevels mi). levelIndex (TrimSpace x) \<noteq> -1"
  shows "isLevelSupported (clampLevel l mi) (supportedLevels mi)"
proof (cases "isLevelSupported l (supportedLevels mi)")
  case True
  then show ?thesis by (simp add: clampLevel_def)
next
  case False
  with assms clampLevel_unsupported show ?thesis by blast
qed

lemma levelIndex_medium: "levelIndex LevelMedium = 2"
  by code_simp

subsection \<open>Budgets\<close>

lemma clampBudget_range:
  assumes "mi_Thinking mi = Some s" and "ts_Min s \<le> ts_Max s" and "ts_Min s \<noteq> 0 \<or> ts_Max s \<noteq> 0"
  shows "(ts_Min s \<le> clampBudget v (Some mi) \<and> clampBudget v (Some mi) \<le> ts_Max s) \<or>
         (v = -1 \<and> clampBudget v (Some mi) = -1) \<or>
         (v = 0 \<and> ts_ZeroAllowed s \<and> clampBudget v (Some mi) = 0)"
  using assms by (auto simp: clampBudget_def)

lemma clampBudget_in_range:
  "mi_Thinking mi = Some s \<Longrightarrow> ts_Min s \<le> v \<Longrightarrow> v \<le> ts_Max s \<Longrightarrow> v \<noteq> 0 \<or> ts_ZeroAllowed s \<Longrightarrow>
   clampBudget v (Some mi) = v"
  by (auto simp: clampBudget_def)

subsection \<open>The blocks\<close>

lemma validate_specials_budget:
  "tc_Mode (validate_specials c) = ModeBudget \<Longrightarrow> tc_Budget (validate_specials c) \<noteq> 0"
  by (auto simp: validate_specials_def Let_def split: if_splits)

lemma validate_levels_ok:
  assumes "validate_levels c s mi a = Inr c'"
  shows "tc_Mode c' = tc_Mode c" and "tc_Budget c' = tc_Budget c"
    and "tc_Mode c' = ModeLevel \<Longrightarrow> ts_Levels s \<noteq> [] \<Longrightarrow> isLevelSupported (tc_Level c') (ts_Levels s)"
  using assms by (auto simp: validate_levels_def Let_def split: if_splits)

lemma validate_strict_ok: "validate_strict c s st d = Inr c' \<Longrightarrow> c' = c"
  by (auto simp: validate_strict_def split: if_splits)

lemma validate_auto_auto: "tc_Mode (validate_auto c s mi) = ModeAuto \<Longrightarrow> ts_DynamicAllowed s"
  by (auto simp: validate_auto_def convertAutoToMidRange_def Let_def split: if_splits)

lemma validate_auto_level:
  assumes "mi_Thinking mi = Some s" and "tc_Mode (validate_auto c s (Some mi)) = ModeLevel"
    and "tc_Mode c = ModeLevel \<Longrightarrow> isLevelSupported (tc_Level c) (ts_Levels s)"
    and "\<exists>x \<in> set (ts_Levels s). levelIndex (TrimSpace x) \<noteq> -1"
  shows "isLevelSupported (tc_Level (validate_auto c s (Some mi))) (ts_Levels s)"
proof -
  have "supportedLevels (Some mi) = ts_Levels s" using assms(1) by (simp add: supportedLevels_def)
  with assms(4) clampLevel_supported [of LevelMedium "Some mi"] levelIndex_medium
  have "isLevelSupported (clampLevel LevelMedium (Some mi)) (ts_Levels s)" by simp
  with assms(2,3) show ?thesis
    by (auto simp: validate_auto_def convertAutoToMidRange_def Let_def split: if_splits)
qed

lemma validate_auto_budget:
  assumes "tc_Mode (validate_auto c s mi) = ModeBudget" and "tc_Mode c = ModeBudget \<Longrightarrow> tc_Budget c \<noteq> 0"
  shows "tc_Budget (validate_auto c s mi) = 0 \<Longrightarrow> \<not> ts_ZeroAllowed s"
  using assms by (auto simp: validate_auto_def convertAutoToMidRange_def Let_def split: if_splits)

lemma validate_clamp_ok:
  "tc_Mode (validate_clamp c s mi t) = tc_Mode c"
  "tc_Mode c = ModeLevel \<Longrightarrow> tc_Level (validate_clamp c s mi t) = tc_Level c"
  "tc_Mode c = ModeBudget \<Longrightarrow> tc_Budget (validate_clamp c s mi t) = clampBudget (tc_Budget c) mi"
  by (auto simp: validate_clamp_def Let_def)

lemma validate_convert_error: "validate_convert c mi = Inl e \<Longrightarrow> te_Code e = ErrUnknownLevel"
  by (auto simp: validate_convert_def split: model_capability.splits if_splits option.splits)

lemma validate_levels_error: "validate_levels c s mi a = Inl e \<Longrightarrow> te_Code e = ErrLevelNotSupported"
  by (auto simp: validate_levels_def Let_def split: if_splits)

lemma validate_convert_budget:
  "validate_convert c mi = Inr (c1, False) \<Longrightarrow> tc_Mode c1 = ModeBudget \<Longrightarrow> c1 = c"
  by (auto simp: validate_convert_def split: model_capability.splits if_splits option.splits)

lemma ValidateConfig_blocks:
  assumes "ValidateConfig c (Some mi) f t fs = Inr c'" and "mi_Thinking mi = Some s"
  obtains c1 d c2 where "validate_convert c (Some mi) = Inr (c1, d)"
    and "validate_levels (validate_specials c1) s (Some mi)
           (allowClampUnsupported (Some mi) (ToLower (TrimSpace f)) (ToLower (TrimSpace t))) = Inr c2"
    and "validate_strict c2 s (strictBudget (Some mi) (ToLower (TrimSpace f)) (ToLower (TrimSpace t)) fs) d
           = Inr c2"
    and "c' = validate_clamp (validate_auto c2 s (Some mi)) s (Some mi) (ToLower (TrimSpace t))"
  using assms by (auto simp: ValidateConfig_def Let_def split: sum.splits prod.splits dest: validate_strict_ok)

subsection \<open>\<open>ValidateConfig\<close>\<close>

text \<open>Where a budget of -1 comes from.\<close>

lemma ConvertLevelToBudget_auto: "ConvertLevelToBudget l = Some (-1) \<Longrightarrow> ToLower l = LevelAuto"
  by (auto simp: ConvertLevelToBudget_def levelToBudgetMap_def LevelAuto_def split: if_splits)

lemma validate_convert_automatic:
  assumes "validate_convert c mi = Inr (c1, d)" "tc_Mode c1 = ModeBudget" "tc_Budget c1 = -1"
  shows "tc_Mode c = ModeBudget \<and> tc_Budget c = -1 \<or> tc_Mode c = ModeLevel \<and> ToLower (tc_Level c) = LevelAuto \<and> tc_Level c \<noteq> LevelAuto"
  using assms ConvertLevelToBudget_auto
  by (auto simp: validate_convert_def split: model_capability.splits if_splits option.splits)

lemma validate_specials_mode:
  "tc_Mode (validate_specials c) = ModeBudget \<Longrightarrow> tc_Mode c = ModeBudget \<and> tc_Budget (validate_specials c) = tc_Budget c"
  "tc_Mode (validate_specials c) = ModeLevel \<Longrightarrow> tc_Mode c = ModeLevel \<and> tc_Level c \<noteq> LevelAuto"
  by (auto simp: validate_specials_def Let_def split: if_splits)

lemma validate_auto_mode:
  "tc_Mode (validate_auto c s mi) = ModeBudget \<Longrightarrow>
   tc_Mode c = ModeBudget \<and> validate_auto c s mi = c \<or>
   (ts_Levels s = [] \<or> ts_Min s \<noteq> 0 \<or> ts_Max s \<noteq> 0) \<and> (0 < tc_Budget (validate_auto c s mi) \<or> tc_Budget (validate_auto c s mi) = ts_Min s)"
  by (auto simp: validate_auto_def convertAutoToMidRange_def Let_def split: if_splits)

lemma validate_auto_standard:
  assumes "mi_Thinking mi = Some s" "tc_Mode (validate_auto c s (Some mi)) = ModeLevel"
    "tc_Mode c = ModeLevel \<Longrightarrow> isLevelSupported (tc_Level c) (ts_Levels s)"
  shows "isLevelSupported (tc_Level (validate_auto c s (Some mi))) (ts_Levels s) \<or>
    (tc_Level (validate_auto c s (Some mi)) = LevelMedium \<and> \<not> ts_DynamicAllowed s \<and> (\<forall>x \<in> set (ts_Levels s). levelIndex (TrimSpace x) = -1))"
proof (cases "\<exists>x \<in> set (ts_Levels s). levelIndex (TrimSpace x) \<noteq> -1")
  case True
  then show ?thesis using validate_auto_level [OF assms(1,2) _ True] assms(3) by blast
next
  case False
  have "fst (nearestLevel pos (-1, b) ss) = -1" if "\<forall>x \<in> set ss. levelIndex (TrimSpace x) = -1" for pos b ss
    using that by (induction ss) (auto simp: Let_def)
  then have "clampLevel LevelMedium (Some mi) = LevelMedium" using False assms(1)
    by (simp add: clampLevel_def supportedLevels_def Let_def)
  then show ?thesis using assms(2,3) False
    by (auto simp: validate_auto_def convertAutoToMidRange_def Let_def split: if_splits)
qed



text \<open>A request is refused as unsupported exactly when it asks for thinking and the model has
  none.\<close>

theorem ValidateConfig_not_supported:
  "(\<exists>e. ValidateConfig c mi f t fs = Inl e \<and> te_Code e = ErrThinkingNotSupported) =
     (tc_Mode c \<noteq> ModeNone \<and> (mi = None \<or> mi_Thinking (the mi) = None))"
  by (auto simp: ValidateConfig_def validate_convert_def validate_levels_def validate_strict_def Let_def
      split: option.splits sum.splits if_splits prod.splits model_capability.splits)

text \<open>the budget range error is raised only for a budget that came from the request body,
  between formats of one family, and that really is outside the range of the model.\<close>

theorem out_of_range_only_strict:
  assumes "ValidateConfig c (Some mi) f t fs = Inl e" and "te_Code e = ErrBudgetOutOfRange"
  shows "\<not> fs \<and> isSameProviderFamily (ToLower (TrimSpace f)) (ToLower (TrimSpace t)) \<and> tc_Mode c = ModeBudget \<and>
    (\<exists>s. mi_Thinking mi = Some s \<and> (tc_Budget c < ts_Min s \<or> ts_Max s < tc_Budget c))"
proof -
  from assms obtain s where s: "mi_Thinking mi = Some s"
    by (auto simp: ValidateConfig_def Let_def split: option.splits if_splits)
  let ?f = "ToLower (TrimSpace f)" and ?t = "ToLower (TrimSpace t)"
  from assms s obtain c1 d c2 where
    cv: "validate_convert c (Some mi) = Inr (c1, d)" and
    lv: "validate_levels (validate_specials c1) s (Some mi) (allowClampUnsupported (Some mi) ?f ?t) = Inr c2"
    and st: "validate_strict c2 s (strictBudget (Some mi) ?f ?t fs) d = Inl e"
    by (auto simp: ValidateConfig_def Let_def split: sum.splits prod.splits
        dest: validate_convert_error validate_levels_error)
  from st have strict: "strictBudget (Some mi) ?f ?t fs" "\<not> d" "tc_Mode c2 = ModeBudget"
    "tc_Budget c2 < ts_Min s \<or> tc_Budget c2 > ts_Max s \<or> tc_Budget c2 = 0"
    by (auto simp: validate_strict_def split: if_splits)
  note l = validate_levels_ok(1,2) [OF lv]
  have c1: "tc_Mode c1 = ModeBudget" "tc_Budget c1 = tc_Budget c2"
    using l strict(3) by (auto simp: validate_specials_def Let_def split: if_splits)
  have "tc_Budget c2 \<noteq> 0" using l strict(3) validate_specials_budget by simp
  moreover from cv strict(2) c1 have "c1 = c" using validate_convert_budget by simp
  ultimately show ?thesis using strict c1 s by (auto simp: strictBudget_def)
qed

theorem out_of_range_only_strict_witness:
  "tc_Budget \<lparr>tc_Mode = ModeBudget, tc_Budget = 50000, tc_Level = []\<rparr> > 32768 \<and>
   isSameProviderFamily (ToLower (TrimSpace ''Gemini'')) (ToLower (TrimSpace ''antigravity''))"
proof -
  let ?mi = "(zero_model_info\<lparr>mi_ID := ''m'', mi_Thinking := Some \<lparr>ts_Min = 1024, ts_Max = 32768,
       ts_ZeroAllowed = False, ts_DynamicAllowed = False, ts_Levels = []\<rparr>\<rparr>)"
  have "ValidateConfig \<lparr>tc_Mode = ModeBudget, tc_Budget = 50000, tc_Level = []\<rparr> (Some ?mi)
      ''Gemini'' ''antigravity'' False = Inl \<lparr>te_Code = ErrBudgetOutOfRange, te_Model = []\<rparr>"
    by code_simp
  from out_of_range_only_strict [OF this] show ?thesis by simp
qed

text \<open>C32: the level \<open>auto\<close> is recognised by an exact comparison although levels are converted to
  budgets regardless of case. On a budget model without dynamic thinking \<open>auto\<close> becomes the middle
  of the range, while \<open>AUTO\<close> becomes the budget -1, which the clamping lets through. Levels reach the
  function in the spelling of the request body (\<open>fromSuffix\<close> false, from the \<open>reasoning_effort\<close> of OpenAI or the
  \<open>thinkingLevel\<close> of Gemini); for these the strict check of budgets does not help, since the budget was derived from a level.\<close>

theorem level_case_auto:
  assumes "mi_Thinking mi = Some s" and "ts_Levels s = []" and "0 < ts_Max s"
    and "\<not> ts_DynamicAllowed s" and "\<not> fs"
    and "tc_Mode c = ModeLevel" and "ToLower (tc_Level c) = LevelAuto"
  shows "ValidateConfig c (Some mi) f t fs =
           (if tc_Level c = LevelAuto
            then Inr (validate_clamp
                   (convertAutoToMidRange (c\<lparr>tc_Mode := ModeAuto, tc_Budget := -1, tc_Level := []\<rparr>) s)
                   s (Some mi) (ToLower (TrimSpace t)))
            else Inr (c\<lparr>tc_Mode := ModeBudget, tc_Budget := -1, tc_Level := []\<rparr>))"
proof -
  have "detectModelCapability (Some mi) = CapabilityBudgetOnly"
    using assms by (simp add: detectModelCapability_def Let_def)
  moreover have "ConvertLevelToBudget (tc_Level c) = Some (-1)"
    using assms by (simp add: ConvertLevelToBudget_def levelToBudgetMap_def LevelAuto_def)
  ultimately show ?thesis
    using assms
    by (auto simp: ValidateConfig_def Let_def validate_convert_def validate_specials_def validate_levels_def
        validate_strict_def validate_auto_def convertAutoToMidRange_def validate_clamp_def clampBudget_def
        LevelAuto_def LevelNone_def)
qed

theorem level_case_auto_witness:
  "ValidateConfig \<lparr>tc_Mode = ModeLevel, tc_Budget = 0, tc_Level = ''AUTO''\<rparr>
     (Some (zero_model_info\<lparr>mi_ID := ''m'', mi_Thinking := Some \<lparr>ts_Min = 1024, ts_Max = 32768,
       ts_ZeroAllowed = False, ts_DynamicAllowed = False, ts_Levels = []\<rparr>\<rparr>))
     ''gemini'' ''gemini'' False = Inr \<lparr>tc_Mode = ModeBudget, tc_Budget = -1, tc_Level = []\<rparr>"
proof -
  let ?mi = "(zero_model_info\<lparr>mi_ID := ''m'', mi_Thinking := Some \<lparr>ts_Min = 1024, ts_Max = 32768,
       ts_ZeroAllowed = False, ts_DynamicAllowed = False, ts_Levels = []\<rparr>\<rparr>)"
  have "ToLower ''AUTO'' = LevelAuto" and "''AUTO'' \<noteq> LevelAuto" by code_simp+
  then show ?thesis
    using level_case_auto [of ?mi _ False "\<lparr>tc_Mode = ModeLevel, tc_Budget = 0, tc_Level = ''AUTO''\<rparr>"]
    by simp
qed

end
