(* ===== verification/Bounded_LRU.thy ===== *)
theory Bounded_LRU
  imports Go_Prelude
begin

text \<open>
  The bounded least-recently-used cache of \<^verbatim>\<open>internal/cache/bounded_lru.go\<close>.

  As in the code, the cache is a map from keys to elements of a doubly linked list
  (\<open>container/list\<close>). An element is its identity, a number given when the element is pushed,
  with the entry it carries; the list is the sequence of its elements from front to back. The
  eviction callback is what \<open>GetOrAdd\<close> reports as evicted.

  \<open>recency_cache\<close> is the contract of such a cache over an abstract sequence of entries, most
  recently used first. It is interpreted on the code's operations, and the retention guarantee
  of the cache is proved from the contract alone.
\<close>

section \<open>Model\<close>

record ('k, 'v) bounded_lru =
  lru_capacity :: int
  lru_entries :: "('k, nat) gomap"
  lru_order :: "(nat \<times> 'k \<times> 'v) list"
  lru_next :: nat

text \<open>\<open>container/list\<close>: an element that is not in the list is left alone.\<close>

definition MoveToFront :: "nat \<Rightarrow> (nat \<times> 'e) list \<Rightarrow> (nat \<times> 'e) list" where
  "MoveToFront i xs = filter (\<lambda>e. fst e = i) xs @ filter (\<lambda>e. fst e \<noteq> i) xs"

definition list_Remove :: "nat \<Rightarrow> (nat \<times> 'e) list \<Rightarrow> (nat \<times> 'e) list" where
  "list_Remove i xs = filter (\<lambda>e. fst e \<noteq> i) xs"

definition NewBoundedLRU :: "int \<Rightarrow> ('k, 'v) bounded_lru" where
  "NewBoundedLRU capacity =
     \<lparr>lru_capacity = (if capacity < 1 then 1 else capacity), lru_entries = [], lru_order = [],
      lru_next = 0\<rparr>"

text \<open>The result is the value, the evicted entry if there is one, and the cache.\<close>

definition GetOrAdd ::
  "('k, 'v) bounded_lru \<Rightarrow> 'k \<Rightarrow> 'v \<Rightarrow> 'v \<times> ('k \<times> 'v) option \<times> ('k, 'v) bounded_lru" where
  "GetOrAdd cache key created =
     (case mget (lru_entries cache) key of
        Some element \<Rightarrow>
          (case map_of (lru_order cache) element of
             Some (_, value) \<Rightarrow> value
           | None \<Rightarrow> created, None,
           cache\<lparr>lru_order := MoveToFront element (lru_order cache)\<rparr>)
      | None \<Rightarrow>
          let element = lru_next cache;
              order1 = (element, key, created) # lru_order cache;
              entries1 = mput key element (lru_entries cache);
              cache1 = cache\<lparr>lru_next := element + 1\<rparr>
          in if int (length order1) > lru_capacity cache then
               let oldest = last order1;
                   evicted = snd oldest
               in (created, Some evicted,
                   cache1\<lparr>lru_entries := mdel (fst evicted) entries1,
                          lru_order := list_Remove (fst oldest) order1\<rparr>)
             else (created, None, cache1\<lparr>lru_entries := entries1, lru_order := order1\<rparr>))"

definition lru_Get :: "('k, 'v) bounded_lru \<Rightarrow> 'k \<Rightarrow> 'v option \<times> ('k, 'v) bounded_lru" where
  "lru_Get cache key =
     (case mget (lru_entries cache) key of
        Some element \<Rightarrow>
          (map_option snd (map_of (lru_order cache) element),
           cache\<lparr>lru_order := MoveToFront element (lru_order cache)\<rparr>)
      | None \<Rightarrow> (None, cache))"

definition lru_Len :: "('k, 'v) bounded_lru \<Rightarrow> nat" where
  "lru_Len cache = length (lru_entries cache)"

section \<open>Contract\<close>

text \<open>The abstract cache: entries with distinct keys, most recently used first.\<close>

definition spec_get :: "'k \<Rightarrow> ('k \<times> 'v) list \<Rightarrow> 'v option \<times> ('k \<times> 'v) list" where
  "spec_get k xs =
     (case map_of xs k of
        None \<Rightarrow> (None, xs)
      | Some v \<Rightarrow> (Some v, (k, v) # AList.delete k xs))"

definition spec_get_or_add ::
  "nat \<Rightarrow> 'k \<Rightarrow> 'v \<Rightarrow> ('k \<times> 'v) list \<Rightarrow> 'v \<times> ('k \<times> 'v) option \<times> ('k \<times> 'v) list" where
  "spec_get_or_add cap k v xs =
     (case map_of xs k of
        Some w \<Rightarrow> (w, None, (k, w) # AList.delete k xs)
      | None \<Rightarrow> if length xs < cap then (v, None, (k, v) # xs)
                else (v, Some (last ((k, v) # xs)), butlast ((k, v) # xs)))"

datatype ('k, 'v) lru_op = OpGet 'k | OpGetOrAdd 'k 'v

fun op_key :: "('k, 'v) lru_op \<Rightarrow> 'k" where
  "op_key (OpGet k) = k"
| "op_key (OpGetOrAdd k v) = k"

fun spec_op :: "nat \<Rightarrow> ('k \<times> 'v) list \<Rightarrow> ('k, 'v) lru_op \<Rightarrow> ('k \<times> 'v) list" where
  "spec_op cap xs (OpGet k) = snd (spec_get k xs)"
| "spec_op cap xs (OpGetOrAdd k v) = snd (snd (spec_get_or_add cap k v xs))"

text \<open>A key is within reach of \<open>S\<close> when it is cached and only keys of \<open>S\<close> are more recent.\<close>

definition reach :: "'k set \<Rightarrow> 'k \<Rightarrow> 'v \<Rightarrow> ('k \<times> 'v) list \<Rightarrow> bool" where
  "reach S k v xs \<longleftrightarrow> (\<exists>pre post. xs = pre @ (k, v) # post \<and> fst ` set pre \<subseteq> S \<and> distinct (map fst xs))"

lemma reach_front:
  assumes "reach S k v xs" and "q \<noteq> k" and "map_of xs q = Some w"
  shows "reach (insert q S) k v ((q, w) # AList.delete q xs)"
proof -
  from assms(1) obtain pre post where xs: "xs = pre @ (k, v) # post" "fst ` set pre \<subseteq> S"
    and d: "distinct (map fst xs)" by (auto simp: reach_def)
  let ?f = "filter (\<lambda>e. fst e \<noteq> q)"
  have "(q, w) # AList.delete q xs = ((q, w) # ?f pre) @ (k, v) # ?f post"
    using assms(2) by (simp add: mdel_filter xs(1))
  moreover have "fst ` set ((q, w) # ?f pre) \<subseteq> insert q S" using xs(2) by auto
  moreover have "distinct (map fst ((q, w) # AList.delete q xs))"
    using d distinct_delete [of xs q] by (auto simp: mdel_filter)
  ultimately show ?thesis unfolding reach_def by metis
qed

lemma reach_hit:
  assumes "reach S k v xs"
  shows "map_of xs k = Some v" and "reach T k v ((k, v) # AList.delete k xs)"
proof -
  from assms have d: "distinct (map fst xs)" and "(k, v) \<in> set xs" by (auto simp: reach_def)
  then show "map_of xs k = Some v" by simp
  have "distinct (map fst ((k, v) # AList.delete k xs))"
    using d distinct_delete [of xs k] by (auto simp: mdel_filter)
  then show "reach T k v ((k, v) # AList.delete k xs)"
    unfolding reach_def by (metis append_Nil image_empty empty_subsetI list.set(1))
qed

lemma reach_insert:
  assumes r: "reach S k v xs" and "q \<noteq> k" and n: "map_of xs q = None"
    and S: "finite S" "card (insert q S) < cap" "length xs \<le> cap"
  shows "reach (insert q S) k v (snd (snd (spec_get_or_add cap q w xs)))"
proof -
  from r obtain pre post where xs: "xs = pre @ (k, v) # post" "fst ` set pre \<subseteq> S"
    and d: "distinct (map fst xs)" by (auto simp: reach_def)
  have q: "q \<notin> fst ` set xs" using n by (simp add: map_of_eq_None_iff)
  have full: "reach (insert q S) k v ((q, w) # xs)"
  proof -
    have "(q, w) # xs = ((q, w) # pre) @ (k, v) # post" by (simp add: xs(1))
    moreover have "fst ` set ((q, w) # pre) \<subseteq> insert q S" using xs(2) by auto
    moreover have "distinct (map fst ((q, w) # xs))" using d q by auto
    ultimately show ?thesis unfolding reach_def by blast
  qed
  show ?thesis
  proof (cases "length xs < cap")
    case True
    then show ?thesis using full n by (simp add: spec_get_or_add_def)
  next
    case False
    have "distinct (map fst ((q, w) # pre))" using d q xs(1) by auto
    from distinct_card [OF this] have "length ((q, w) # pre) = card (fst ` set ((q, w) # pre))"
      by (simp only: set_map length_map)
    also have "\<dots> \<le> card (insert q S)"
      using S(1) xs(2) by (intro card_mono) auto
    finally have "Suc (length pre) < cap" using S(2) by simp
    with False xs(1) have "post \<noteq> []" by auto
    then have "butlast ((q, w) # xs) = ((q, w) # pre) @ (k, v) # butlast post"
      by (simp add: xs(1) butlast_append)
    moreover have "distinct (map fst (butlast ((q, w) # xs)))"
      using d q by (metis distinct_butlast distinct.simps(2) fst_conv list.set_map list.simps(9) map_butlast)
    moreover have "fst ` set ((q, w) # pre) \<subseteq> insert q S" using xs(2) by auto
    ultimately show ?thesis
      using False n unfolding reach_def spec_get_or_add_def by (smt (verit) option.simps(4) snd_conv)
  qed
qed

lemma reach_mono: "reach S k v xs \<Longrightarrow> S \<subseteq> T \<Longrightarrow> reach T k v xs"
  unfolding reach_def by blast

lemma reach_op:
  assumes "reach S k v xs" and "finite S" and "card (insert (op_key p) S - {k}) < cap"
    and "length xs \<le> cap" and "k \<notin> S"
  shows "reach (insert (op_key p) S - {k}) k v (spec_op cap xs p)"
proof (cases "op_key p = k")
  case True
  have k: "snd (spec_get k xs) = (k, v) # AList.delete k xs"
      "snd (snd (spec_get_or_add cap k w xs)) = (k, v) # AList.delete k xs" for w
    using reach_hit(1) [OF assms(1)] by (auto simp: spec_get_def spec_get_or_add_def)
  show ?thesis using True reach_hit(2) [OF assms(1)] by (cases p) (auto simp: k)
next
  case False
  then have S: "insert (op_key p) S - {k} = insert (op_key p) S" using assms(5) by auto
  with assms(3) have c: "card (insert (op_key p) S) < cap" by simp
  show ?thesis
  proof (cases "map_of xs (op_key p)")
    case None
    show ?thesis unfolding S
    proof (cases p)
      case (OpGet q)
      then show "reach (insert (op_key p) S) k v (spec_op cap xs p)"
        using None reach_mono [OF assms(1)] by (auto simp: spec_get_def)
    next
      case (OpGetOrAdd q w)
      then show "reach (insert (op_key p) S) k v (spec_op cap xs p)"
        using None False reach_insert [OF assms(1) _ _ assms(2) _ assms(4), of q w] c by simp
    qed
  next
    case (Some w)
    with reach_front [OF assms(1) False] show ?thesis
      unfolding S by (cases p) (auto simp: spec_get_def spec_get_or_add_def)
  qed
qed

definition run_op ::
  "('c \<Rightarrow> 'k \<Rightarrow> 'v option \<times> 'c) \<Rightarrow> ('c \<Rightarrow> 'k \<Rightarrow> 'v \<Rightarrow> 'v \<times> ('k \<times> 'v) option \<times> 'c) \<Rightarrow>
   ('k, 'v) lru_op \<Rightarrow> 'c \<Rightarrow> 'c" where
  "run_op get get_or_add p c =
     (case p of OpGet k \<Rightarrow> snd (get c k) | OpGetOrAdd k v \<Rightarrow> snd (snd (get_or_add c k v)))"

locale recency_cache =
  fixes inv :: "'c \<Rightarrow> bool" and recent :: "'c \<Rightarrow> ('k \<times> 'v) list" and cap :: "'c \<Rightarrow> nat"
    and get :: "'c \<Rightarrow> 'k \<Rightarrow> 'v option \<times> 'c"
    and get_or_add :: "'c \<Rightarrow> 'k \<Rightarrow> 'v \<Rightarrow> 'v \<times> ('k \<times> 'v) option \<times> 'c"
  assumes inv_bound: "inv c \<Longrightarrow> distinct (map fst (recent c)) \<and> length (recent c) \<le> cap c \<and> 1 \<le> cap c"
    and get_law: "inv c \<Longrightarrow> get c k = (r, c') \<Longrightarrow>
          inv c' \<and> cap c' = cap c \<and> (r, recent c') = spec_get k (recent c)"
    and get_or_add_law: "inv c \<Longrightarrow> get_or_add c k v = (x, e, c') \<Longrightarrow>
          inv c' \<and> cap c' = cap c \<and> (x, e, recent c') = spec_get_or_add (cap c) k v (recent c)"
begin

lemma run_op_law:
  assumes "inv c"
  shows "inv (run_op get get_or_add p c) \<and> cap (run_op get get_or_add p c) = cap c \<and>
         recent (run_op get get_or_add p c) = spec_op (cap c) (recent c) p"
proof (cases p)
  case (OpGet k)
  obtain r c' where g: "get c k = (r, c')" by fastforce
  from get_law [OF assms g] have "snd (spec_get k (recent c)) = recent c'" by (metis snd_conv)
  with get_law [OF assms g] OpGet g show ?thesis by (simp add: run_op_def)
next
  case (OpGetOrAdd k v)
  obtain x e c' where g: "get_or_add c k v = (x, e, c')" by (metis prod_cases3)
  from get_or_add_law [OF assms g] have "snd (snd (spec_get_or_add (cap c) k v (recent c))) = recent c'"
    by (metis snd_conv)
  with get_or_add_law [OF assms g] OpGetOrAdd g show ?thesis by (simp add: run_op_def)
qed

lemma added_in_reach:
  assumes "inv c" and "get_or_add c k v = (x, e, c')"
  shows "reach {} k x (recent c')"
proof -
  from get_or_add_law [OF assms] have eq: "(x, e, recent c') = spec_get_or_add (cap c) k v (recent c)" by simp
  from inv_bound [OF assms(1)] have d: "distinct (map fst (recent c))" and l: "length (recent c) \<le> cap c" "1 \<le> cap c"
    by auto
  have r: "reach {} k w ((k, w) # ys)" if "distinct (map fst ((k, w) # ys))" for w ys
    using that unfolding reach_def by (metis append_Nil image_empty empty_subsetI list.set(1))
  show ?thesis
  proof (cases "map_of (recent c) k")
    case None
    then have k: "k \<notin> fst ` set (recent c)" by (simp add: map_of_eq_None_iff)
    show ?thesis
    proof (cases "length (recent c) < cap c")
      case True
      with None eq d k r [of v "recent c"] show ?thesis by (simp add: spec_get_or_add_def)
    next
      case False
      with l have ne: "recent c \<noteq> []" by auto
      have "distinct (map fst ((k, v) # butlast (recent c)))"
        using d k by (auto simp: map_butlast distinct_butlast dest: in_set_butlastD)
      with False None eq ne r [of v "butlast (recent c)"] show ?thesis by (simp add: spec_get_or_add_def)
    qed
  next
    case (Some w)
    have "distinct (map fst ((k, w) # AList.delete k (recent c)))"
      using d distinct_delete [of "recent c" k] by (auto simp: mdel_filter)
    with Some eq r [of w "AList.delete k (recent c)"] show ?thesis by (simp add: spec_get_or_add_def)
  qed
qed

lemma reach_run:
  assumes "inv c" and "reach S k x (recent c)" and "finite S" and "k \<notin> S"
    and "card (S \<union> op_key ` set ps - {k}) < cap c"
  shows "inv (fold (run_op get get_or_add) ps c) \<and>
         map_of (recent (fold (run_op get get_or_add) ps c)) k = Some x"
  using assms
proof (induction ps arbitrary: c S)
  case Nil
  then show ?case using reach_hit(1) by simp
next
  case (Cons p ps)
  let ?c = "run_op get get_or_add p c" and ?S = "insert (op_key p) S - {k}"
  have "?S \<subseteq> S \<union> op_key ` set (p # ps) - {k}" using Cons.prems(4) by auto
  with Cons.prems(3,5) have "card ?S < cap c"
    by (meson card_mono finite_Diff finite_UnI finite_imageI List.finite_set order_le_less_trans)
  with reach_op [OF Cons.prems(2,3)] inv_bound [OF Cons.prems(1)] run_op_law [OF Cons.prems(1), of p] Cons.prems(4)
  have "reach ?S k x (recent ?c)" by simp
  moreover have "?S \<union> op_key ` set ps - {k} = S \<union> op_key ` set (p # ps) - {k}" using Cons.prems(4) by auto
  ultimately show ?case
    using Cons.IH [of ?c ?S] run_op_law [OF Cons.prems(1), of p] Cons.prems(3,5) by simp
qed

lemma retained:
  assumes "inv c" and "get_or_add c k v = (x, e, c')" and "card (op_key ` set ps - {k}) < cap c"
  shows "fst (get (fold (run_op get get_or_add) ps c') k) = Some x"
proof -
  let ?d = "fold (run_op get get_or_add) ps c'"
  from get_or_add_law [OF assms(1,2)] have "inv c'" "cap c' = cap c" by auto
  with reach_run [OF _ added_in_reach [OF assms(1,2)], of ps] assms(3)
  have d: "inv ?d" "map_of (recent ?d) k = Some x" by auto
  obtain r d' where g: "get ?d k = (r, d')" by fastforce
  from get_law [OF d(1) g] d(2) g show ?thesis by (simp add: spec_get_def)
qed

end

section \<open>The code implements the contract\<close>

definition lru_recent :: "('k, 'v) bounded_lru \<Rightarrow> ('k \<times> 'v) list" where
  "lru_recent c = map snd (lru_order c)"

definition lru_inv :: "('k, 'v) bounded_lru \<Rightarrow> bool" where
  "lru_inv c \<longleftrightarrow>
     1 \<le> lru_capacity c \<and> int (length (lru_order c)) \<le> lru_capacity c \<and>
     distinct (map fst (lru_order c)) \<and> distinct (map (fst \<circ> snd) (lru_order c)) \<and>
     (\<forall>i \<in> fst ` set (lru_order c). i < lru_next c) \<and>
     wf_map (lru_entries c) \<and>
     (\<forall>k i. mget (lru_entries c) k = Some i \<longleftrightarrow> (\<exists>v. (i, k, v) \<in> set (lru_order c)))"

abbreviation lru_cap :: "('k, 'v) bounded_lru \<Rightarrow> nat" where
  "lru_cap c \<equiv> nat (lru_capacity c)"

lemma lru_inv_New [simp]: "lru_inv (NewBoundedLRU n)"
  by (simp add: lru_inv_def NewBoundedLRU_def)

lemma order_unique:
  assumes "distinct (map fst (lru_order c))" and "distinct (map (fst \<circ> snd) (lru_order c))"
    and "(i, k, v) \<in> set (lru_order c)"
  shows "map_of (lru_order c) i = Some (k, v)"
    and "MoveToFront i (lru_order c) = (i, k, v) # filter (\<lambda>e. fst e \<noteq> i) (lru_order c)"
    and "map snd (filter (\<lambda>e. fst e \<noteq> i) (lru_order c)) = filter (\<lambda>e. fst e \<noteq> k) (lru_recent c)"
  using assms
proof -
  show "map_of (lru_order c) i = Some (k, v)" using assms by simp
  from assms(3) obtain pre post where o: "lru_order c = pre @ (i, k, v) # post" by (meson split_list)
  have ni: "\<forall>e \<in> set pre \<union> set post. fst e \<noteq> i" and nk: "\<forall>e \<in> set pre \<union> set post. fst (snd e) \<noteq> k"
    using assms(1,2) by (auto simp: o)
  have f: "filter (\<lambda>e. fst e = i) pre = []" "filter (\<lambda>e. fst e = i) post = []"
    "filter (\<lambda>e. fst e \<noteq> i) pre = pre" "filter (\<lambda>e. fst e \<noteq> i) post = post"
    "filter (\<lambda>e. fst e \<noteq> k) (map snd pre) = map snd pre" "filter (\<lambda>e. fst e \<noteq> k) (map snd post) = map snd post"
    using ni nk by (auto simp: filter_empty_conv filter_id_conv)
  show "MoveToFront i (lru_order c) = (i, k, v) # filter (\<lambda>e. fst e \<noteq> i) (lru_order c)"
    by (simp add: MoveToFront_def o f)
  show "map snd (filter (\<lambda>e. fst e \<noteq> i) (lru_order c)) = filter (\<lambda>e. fst e \<noteq> k) (lru_recent c)"
    by (simp add: lru_recent_def o f)
qed

lemma entries_None:
  "lru_inv c \<Longrightarrow> mget (lru_entries c) k = None \<longleftrightarrow> map_of (lru_recent c) k = None"
  unfolding lru_inv_def by (force simp: lru_recent_def map_of_eq_None_iff simp flip: not_Some_eq)

lemma distinct_recent: "lru_inv c \<Longrightarrow> distinct (map fst (lru_recent c))"
  by (simp add: lru_inv_def lru_recent_def)

lemma distinct_filter_key: "distinct (map f xs) \<Longrightarrow> distinct (map f (filter P xs))"
  by (rule distinct_map_filter)

lemma hit_law:
  assumes inv: "lru_inv c" and e: "mget (lru_entries c) k = Some i"
  obtains v where "map_of (lru_order c) i = Some (k, v)" "map_of (lru_recent c) k = Some v"
    "lru_inv (c\<lparr>lru_order := MoveToFront i (lru_order c)\<rparr>)"
    "lru_recent (c\<lparr>lru_order := MoveToFront i (lru_order c)\<rparr>) = (k, v) # AList.delete k (lru_recent c)"
proof -
  from e inv obtain v where m: "(i, k, v) \<in> set (lru_order c)" by (auto simp: lru_inv_def)
  have d: "distinct (map fst (lru_order c))" "distinct (map (fst \<circ> snd) (lru_order c))"
    using inv by (auto simp: lru_inv_def)
  note u = order_unique [OF d m]
  let ?c = "c\<lparr>lru_order := MoveToFront i (lru_order c)\<rparr>"
  have st: "set (MoveToFront i (lru_order c)) = set (lru_order c)" by (auto simp: MoveToFront_def)
  have ln: "length (MoveToFront i (lru_order c)) = length (lru_order c)"
    by (simp add: MoveToFront_def sum_length_filter_compl)
  have "fst (snd e) \<noteq> k" if "e \<in> set (lru_order c)" "fst e \<noteq> i" for e
    using d(2) m that by (metis comp_apply distinct_map fst_conv inj_onD snd_conv)
  then have "distinct (map (fst \<circ> snd) (MoveToFront i (lru_order c)))" "distinct (map fst (MoveToFront i (lru_order c)))"
    using d distinct_filter_key by (auto simp: u(2))
  then have "lru_inv ?c" using inv st ln by (simp add: lru_inv_def)
  moreover have "map_of (lru_recent c) k = Some v"
    using distinct_recent [OF inv] m by (intro map_of_is_SomeI) (force simp: lru_recent_def)+
  moreover have "lru_recent ?c = (k, v) # AList.delete k (lru_recent c)"
    using u by (simp add: lru_recent_def mdel_filter)
  ultimately show thesis using that u(1) by blast
qed

lemma lru_Get_law:
  assumes "lru_inv c" and "lru_Get c k = (r, c')"
  shows "lru_inv c' \<and> lru_cap c' = lru_cap c \<and> (r, lru_recent c') = spec_get k (lru_recent c)"
proof (cases "mget (lru_entries c) k")
  case None
  with assms entries_None [OF assms(1)] show ?thesis by (auto simp: lru_Get_def spec_get_def)
next
  case (Some i)
  from hit_law [OF assms(1) Some] obtain v where h:
    "map_of (lru_order c) i = Some (k, v)" "map_of (lru_recent c) k = Some v"
    "lru_inv (c\<lparr>lru_order := MoveToFront i (lru_order c)\<rparr>)"
    "lru_recent (c\<lparr>lru_order := MoveToFront i (lru_order c)\<rparr>) = (k, v) # AList.delete k (lru_recent c)" .
  have "r = Some v" "c' = c\<lparr>lru_order := MoveToFront i (lru_order c)\<rparr>"
    using assms(2) Some h(1) by (simp_all add: lru_Get_def)
  with h show ?thesis by (simp add: spec_get_def)
qed

lemma lru_inv_push:
  assumes inv: "lru_inv c" and n: "mget (lru_entries c) k = None"
    and o: "order = (lru_next c, k, v) # lru_order c"
  shows "distinct (map fst order)" "distinct (map (fst \<circ> snd) order)"
    "\<forall>i \<in> fst ` set order. i < Suc (lru_next c)"
    "mget (mput k (lru_next c) (lru_entries c)) q = Some i \<longleftrightarrow> (\<exists>w. (i, q, w) \<in> set order)"
proof -
  from inv have lt: "\<forall>i \<in> fst ` set (lru_order c). i < lru_next c" by (simp add: lru_inv_def)
  from inv n have nk: "(i, k, w) \<notin> set (lru_order c)" for i w
    unfolding lru_inv_def by (metis option.distinct(1))
  show "distinct (map fst order)" using inv lt by (fastforce simp: o lru_inv_def)
  show "distinct (map (fst \<circ> snd) order)" using inv nk by (fastforce simp: o lru_inv_def)
  show "\<forall>i \<in> fst ` set order. i < Suc (lru_next c)" using lt by (auto simp: o less_Suc_eq)
  show "mget (mput k (lru_next c) (lru_entries c)) q = Some i \<longleftrightarrow> (\<exists>w. (i, q, w) \<in> set order)"
    using inv nk by (auto simp: o lru_inv_def)
qed

lemma distinct_last_neq: "distinct (map f (xs @ [x])) \<Longrightarrow> \<forall>e \<in> set xs. f e \<noteq> f x"
  by (auto simp: image_iff)

lemma Remove_last:
  assumes "distinct (map fst xs)" and "xs \<noteq> []"
  shows "list_Remove (fst (last xs)) xs = butlast xs"
proof -
  from assms(2) have xs: "xs = butlast xs @ [last xs]" by simp
  with assms(1) have "distinct (map fst (butlast xs @ [last xs]))" by simp
  then have "\<forall>e \<in> set (butlast xs). fst e \<noteq> fst (last xs)" by (rule distinct_last_neq)
  then have "filter (\<lambda>e. fst e \<noteq> fst (last xs)) (butlast xs @ [last xs]) = butlast xs"
    by (simp add: filter_id_conv)
  with xs show ?thesis by (simp add: list_Remove_def)
qed

lemma lru_inv_evict:
  assumes inv: "lru_inv c" and n: "mget (lru_entries c) k = None"
    and o: "order = (lru_next c, k, v) # lru_order c"
  shows "mget (mdel (fst (snd (last order))) (mput k (lru_next c) (lru_entries c))) q = Some i \<longleftrightarrow>
         (\<exists>w. (i, q, w) \<in> set (butlast order))"
proof -
  note push = lru_inv_push [OF assms]
  have ne: "order \<noteq> []" by (simp add: o)
  have s: "set order = insert (last order) (set (butlast order))"
    using ne by (metis append_butlast_last_id list.simps(15) set_append Un_insert_right sup_bot_right set_simps(1))
  have "distinct (map (fst \<circ> snd) (butlast order @ [last order]))" using push(2) ne by simp
  then have d: "\<forall>e \<in> set (butlast order). fst (snd e) \<noteq> fst (snd (last order))"
    using distinct_last_neq [of "fst \<circ> snd"] by simp
  obtain a b w where l: "last order = (a, b, w)" by (metis prod_cases3)
  show ?thesis
  proof (cases "q = b")
    case True
    with d l show ?thesis by auto
  next
    case False
    with push(4) [of q i] s l show ?thesis by auto
  qed
qed

lemma lru_GetOrAdd_law:
  assumes inv: "lru_inv c" and g: "GetOrAdd c k v = (x, e, c')"
  shows "lru_inv c' \<and> lru_cap c' = lru_cap c \<and> (x, e, lru_recent c') = spec_get_or_add (lru_cap c) k v (lru_recent c)"
proof (cases "mget (lru_entries c) k")
  case (Some i)
  from hit_law [OF inv Some] obtain w where h:
    "map_of (lru_order c) i = Some (k, w)" "map_of (lru_recent c) k = Some w"
    "lru_inv (c\<lparr>lru_order := MoveToFront i (lru_order c)\<rparr>)"
    "lru_recent (c\<lparr>lru_order := MoveToFront i (lru_order c)\<rparr>) = (k, w) # AList.delete k (lru_recent c)" .
  have "x = w" "e = None" "c' = c\<lparr>lru_order := MoveToFront i (lru_order c)\<rparr>"
    using g Some h(1) by (simp_all add: GetOrAdd_def)
  with h show ?thesis by (simp add: spec_get_or_add_def)
next
  case None
  let ?o = "(lru_next c, k, v) # lru_order c"
  note push = lru_inv_push [OF inv None refl, where v = v]
  from None entries_None [OF inv] have n: "map_of (lru_recent c) k = None" by simp
  have b: "1 \<le> lru_capacity c" "int (length (lru_order c)) \<le> lru_capacity c" "wf_map (lru_entries c)"
    using inv by (auto simp: lru_inv_def)
  show ?thesis
  proof (cases "int (length ?o) > lru_capacity c")
    case False
    then have "length (lru_recent c) < lru_cap c" by (simp add: lru_recent_def)
    moreover have "c' = c\<lparr>lru_next := Suc (lru_next c), lru_entries := mput k (lru_next c) (lru_entries c),
        lru_order := ?o\<rparr>"
      using g None False by (auto simp: GetOrAdd_def Let_def)
    with push b False have "lru_inv c'" by (simp only: lru_inv_def) simp
    ultimately show ?thesis
      using g None False n \<open>lru_inv c'\<close> by (auto simp: GetOrAdd_def Let_def spec_get_or_add_def lru_recent_def)
  next
    case True
    let ?c = "c\<lparr>lru_next := Suc (lru_next c),
        lru_entries := mdel (fst (snd (last ?o))) (mput k (lru_next c) (lru_entries c)),
        lru_order := butlast ?o\<rparr>"
    have r: "list_Remove (fst (last ?o)) ?o = butlast ?o" using push(1) by (intro Remove_last) auto
    have eq: "GetOrAdd c k v = (v, Some (snd (last ?o)), ?c)"
      using None True by (simp only: GetOrAdd_def Let_def option.case if_True r Suc_eq_plus1)
    from trans [OF g [symmetric] eq] have c': "x = v" "e = Some (snd (last ?o))" "c' = ?c"
      by (simp_all only: prod.inject)
    have "\<not> length (lru_recent c) < lru_cap c" using True b by (simp add: lru_recent_def)
    moreover have "lru_recent ?c = butlast ((k, v) # lru_recent c)"
      by (simp add: lru_recent_def map_butlast)
    moreover have "snd (last ?o) = last ((k, v) # lru_recent c)"
      by (simp add: lru_recent_def last_map)
    moreover have "lru_inv ?c"
    proof -
      have "distinct (map fst (butlast ?o))" "distinct (map (fst \<circ> snd) (butlast ?o))"
        using push(1,2) by (simp_all only: map_butlast distinct_butlast)
      moreover have "\<forall>i \<in> fst ` set (butlast ?o). i < Suc (lru_next c)"
        using push(3) in_set_butlastD by fast
      moreover have "int (length (butlast ?o)) \<le> lru_capacity c" using b by simp
      ultimately show ?thesis
        using b lru_inv_evict [OF inv None refl, where v = v] by (simp only: lru_inv_def) simp
    qed
    ultimately show ?thesis using n by (simp add: c' spec_get_or_add_def)
  qed
qed

interpretation lru: recency_cache lru_inv lru_recent lru_cap lru_Get GetOrAdd
proof
  show "distinct (map fst (lru_recent c)) \<and> length (lru_recent c) \<le> lru_cap c \<and> 1 \<le> lru_cap c"
    if "lru_inv c" for c :: "('a, 'b) bounded_lru"
    using that by (auto simp: lru_inv_def lru_recent_def)
qed (rule lru_Get_law lru_GetOrAdd_law, assumption, assumption)+

section \<open>Properties\<close>

lemma lru_Len_recent: "lru_inv c \<Longrightarrow> lru_Len c = length (lru_recent c)"
proof -
  assume inv: "lru_inv c"
  have "fst ` set (lru_entries c) = (fst \<circ> snd) ` set (lru_order c)"
    using inv unfolding lru_inv_def dom_map_of_conv_image_fst [symmetric] by (force simp: dom_def image_iff)
  then have "card (set (map fst (lru_entries c))) = card (set (map (fst \<circ> snd) (lru_order c)))" by simp
  then show ?thesis
    using inv by (simp only: lru_inv_def distinct_card) (simp add: lru_Len_def lru_recent_def)
qed

text \<open>C40: from any sequence of operations the cache answers like the abstract recency list: the map
  and the linked list never disagree, at most \<open>capacity\<close> entries are held, and what is evicted is the
  least recently used entry.\<close>

theorem lru_refines:
  assumes "c = fold (run_op lru_Get GetOrAdd) ps (NewBoundedLRU n)"
  shows "fst (lru_Get c k) = fst (spec_get k (lru_recent c)) \<and>
         lru_recent (snd (lru_Get c k)) = snd (spec_get k (lru_recent c)) \<and>
         (case GetOrAdd c k v of (x, e, c') \<Rightarrow>
            (x, e, lru_recent c') = spec_get_or_add (nat (max 1 n)) k v (lru_recent c)) \<and>
         lru_Len c = length (lru_recent c) \<and> int (lru_Len c) \<le> max 1 n"
proof -
  have "lru_inv c \<and> lru_capacity c = max 1 n"
    unfolding assms
  proof (induction ps rule: rev_induct)
    case Nil
    show ?case by (simp add: lru_inv_New) (simp add: NewBoundedLRU_def max_def)
  next
    case (snoc p ps)
    let ?c = "fold (run_op lru_Get GetOrAdd) ps (NewBoundedLRU n)"
    from snoc lru.run_op_law [of ?c p]
    have "lru_inv (run_op lru_Get GetOrAdd p ?c)" "lru_cap (run_op lru_Get GetOrAdd p ?c) = lru_cap ?c" by auto
    moreover from this(1) have "0 \<le> lru_capacity (run_op lru_Get GetOrAdd p ?c)" by (simp add: lru_inv_def)
    ultimately show ?case using snoc by simp
  qed
  then have inv: "lru_inv c" and cap: "lru_capacity c = max 1 n" by auto
  obtain r c1 where g: "lru_Get c k = (r, c1)" by fastforce
  obtain x e c2 where a: "GetOrAdd c k v = (x, e, c2)" by (metis prod_cases3)
  from lru_Get_law [OF inv g] have "spec_get k (lru_recent c) = (r, lru_recent c1)" by simp
  moreover have "int (length (lru_recent c)) \<le> max 1 n"
    using lru.inv_bound [OF inv] cap by (simp add: nat_le_iff [symmetric]) linarith
  ultimately show ?thesis using g lru_GetOrAdd_law [OF inv a] a lru_Len_recent [OF inv] cap by simp
qed

theorem lru_refines_witness:
  "fst (lru_Get (snd (snd (GetOrAdd (NewBoundedLRU 2) (7::nat) ''a''))) 7) = Some ''a''"
  using lru_refines [of "snd (snd (GetOrAdd (NewBoundedLRU 2) 7 ''a''))" "[OpGetOrAdd (7::nat) ''a'']" 2 7 "''b''"]
  by (simp add: run_op_def GetOrAdd_def NewBoundedLRU_def lru_recent_def spec_get_def)

text \<open>A value stays cached until as many other keys as the capacity have been used: after
  \<open>GetOrAdd\<close> of a key, any sequence of operations on fewer other keys leaves a lookup of it a hit
  with the same value.\<close>

theorem lru_retains:
  assumes "lru_inv c" and "GetOrAdd c k v = (x, e, c')"
    and "card (op_key ` set ps - {k}) < nat (lru_capacity c)"
  shows "fst (lru_Get (fold (run_op lru_Get GetOrAdd) ps c') k) = Some x"
  using assms by (rule lru.retained)

theorem lru_retains_witness:
  "fst (lru_Get (fold (run_op lru_Get GetOrAdd) [OpGetOrAdd 2 ''b'', OpGet 9, OpGetOrAdd 2 ''c'']
     (snd (snd (GetOrAdd (NewBoundedLRU 3) (1::nat) ''a'')))) 1) = Some ''a''"
proof -
  let ?g = "GetOrAdd (NewBoundedLRU 3) (1::nat) ''a''"
  have "?g = (''a'', None, snd (snd ?g))" and "lru_capacity (NewBoundedLRU 3 :: (nat, string) bounded_lru) = 3"
    by (simp_all add: GetOrAdd_def NewBoundedLRU_def)
  moreover have "op_key ` set [OpGetOrAdd 2 ''b'', OpGet 9, OpGetOrAdd 2 ''c''] - {1} = {2, 9 :: nat}"
    by auto
  ultimately show ?thesis
    using lru_retains [of "NewBoundedLRU 3" "1::nat" "''a''" "''a''" None "snd (snd ?g)"
        "[OpGetOrAdd 2 ''b'', OpGet 9, OpGetOrAdd 2 ''c'']"] by simp
qed

end
