(* ===== verification/Redis_Queue.thy ===== *)
theory Redis_Queue
  imports Go_Prelude "HOL-Library.Multiset"
begin

text \<open>
  The in-memory usage queue of \<^verbatim>\<open>internal/redisqueue/queue.go\<close>: a queue of payloads with a
  retention window, kept as a slice with a moving head that is compacted from time to time, and
  the subscribers that receive payloads directly over buffered channels.

  Channels are shared between the queue and its subscribers, so they live in a store and the
  queue holds references. Sending on a closed channel and closing a channel twice panic in Go:
  an operation that panics has the value \<open>None\<close>. \<open>time.Now()\<close> is the argument \<open>now\<close>.

  \<open>expiring_queue\<close> is the contract of the queue over the sequence of its live items;
  the slice with its moving head is an interpretation of it. \<open>rq_step\<close> is the step relation of
  the package: one step is one critical section, and closing the channels that a critical section
  removed is a step of its own, since the code closes them after it releases the lock.
\<close>

section \<open>Channels\<close>

type_synonym payload = string

record chan =
  ch_cap :: nat
  ch_buf :: "payload list"
  ch_closed :: bool

type_synonym chan_store = "(nat, chan) gomap"

text \<open>\<open>select\<close> with a \<open>default\<close>: whether the value was sent; \<open>None\<close> is the panic.\<close>

definition trySend :: "nat \<Rightarrow> payload \<Rightarrow> chan_store \<Rightarrow> (bool \<times> chan_store) option" where
  "trySend ch p cs =
     (case mget cs ch of
        None \<Rightarrow> None
      | Some c \<Rightarrow>
          if ch_closed c then None
          else if length (ch_buf c) < ch_cap c
          then Some (True, mput ch (c\<lparr>ch_buf := ch_buf c @ [p]\<rparr>) cs)
          else Some (False, cs))"

definition closeChan :: "nat \<Rightarrow> chan_store \<Rightarrow> chan_store option" where
  "closeChan ch cs =
     (case mget cs ch of
        None \<Rightarrow> None
      | Some c \<Rightarrow> if ch_closed c then None else Some (mput ch (c\<lparr>ch_closed := True\<rparr>) cs))"

fun closeAll :: "nat list \<Rightarrow> chan_store \<Rightarrow> chan_store option" where
  "closeAll [] cs = Some cs"
| "closeAll (ch # chs) cs =
     (case closeChan ch cs of None \<Rightarrow> None | Some cs' \<Rightarrow> closeAll chs cs')"

text \<open>The subscriber takes the next payload.\<close>

definition receive :: "nat \<Rightarrow> chan_store \<Rightarrow> (payload option \<times> chan_store)" where
  "receive ch cs =
     (case mget cs ch of
        None \<Rightarrow> (None, cs)
      | Some c \<Rightarrow>
          (case ch_buf c of
             [] \<Rightarrow> (None, cs)
           | p # ps \<Rightarrow> (Some p, mput ch (c\<lparr>ch_buf := ps\<rparr>) cs)))"

section \<open>The queue\<close>

definition defaultRetentionSeconds :: int where
  "defaultRetentionSeconds = 60"

definition maxRetentionSeconds :: int where
  "maxRetentionSeconds = 3600"

definition usageSubscriberBuffer :: nat where
  "usageSubscriberBuffer = 256"

definition errorSubscriberBuffer :: nat where
  "errorSubscriberBuffer = 256"

definition usageSupportRefreshPayload :: payload where
  "usageSupportRefreshPayload = ''{\"support_refresh\":true}''"

definition usageRefreshPayload :: payload where
  "usageRefreshPayload = ''{\"refresh\":true}''"

record queue_item =
  enqueuedAt :: time
  qi_payload :: payload

record queue =
  items :: "queue_item list"
  head :: nat
  subscribers :: "(int, nat) gomap"
  nextSubscriberID :: int

definition empty_queue :: queue where
  "empty_queue = \<lparr>items = [], head = 0, subscribers = [], nextSubscriberID = 0\<rparr>"

text \<open>The retention window; \<open>rs\<close> is \<open>retentionSeconds.Load()\<close>.\<close>

definition retention_cutoff :: "int \<Rightarrow> time \<Rightarrow> time" where
  "retention_cutoff rs now =
     now - (if rs \<le> 0 then defaultRetentionSeconds else rs) * Second"

definition pruneLocked :: "int \<Rightarrow> time \<Rightarrow> queue \<Rightarrow> queue" where
  "pruneLocked rs now q =
     (if head q \<ge> length (items q) then q\<lparr>items := [], head := 0\<rparr>
      else q\<lparr>head := head q +
              length (takeWhile (\<lambda>it. enqueuedAt it < retention_cutoff rs now) (drop (head q) (items q)))\<rparr>)"

definition maybeCompactLocked :: "queue \<Rightarrow> queue" where
  "maybeCompactLocked q =
     (if head q = 0 then q
      else if head q \<ge> length (items q) then q\<lparr>items := [], head := 0\<rparr>
      else if head q < 1024 \<and> head q * 2 < length (items q) then q
      else q\<lparr>items := drop (head q) (items q), head := 0\<rparr>)"

definition enqueue :: "int \<Rightarrow> time \<Rightarrow> payload \<Rightarrow> queue \<Rightarrow> queue" where
  "enqueue rs now p q =
     (let q1 = pruneLocked rs now q
      in maybeCompactLocked (q1\<lparr>items := items q1 @ [\<lparr>enqueuedAt = now, qi_payload = p\<rparr>]\<rparr>))"

definition popOldest :: "int \<Rightarrow> time \<Rightarrow> int \<Rightarrow> queue \<Rightarrow> payload list \<times> queue" where
  "popOldest rs now cnt q =
     (let q1 = pruneLocked rs now q;
          available = length (items q1) - head q1
      in if length (items q1) \<le> head q1 then ([], q1\<lparr>items := [], head := 0\<rparr>)
         else
           let n = (if cnt > int available then available else nat cnt);
               out = map (\<lambda>i. qi_payload (items q1 ! (head q1 + i))) [0..<n]
           in (out, maybeCompactLocked (q1\<lparr>head := head q1 + n\<rparr>)))"

text \<open>\<open>clear\<close>: the critical section, and the channels it leaves to be closed.\<close>

definition clear_locked :: "queue \<Rightarrow> queue \<times> nat list" where
  "clear_locked q = (q\<lparr>items := [], head := 0, subscribers := []\<rparr>, map snd (subscribers q))"

definition clear :: "queue \<times> chan_store \<Rightarrow> (queue \<times> chan_store) option" where
  "clear qcs =
     (case qcs of (q, cs) \<Rightarrow>
        (case closeAll (snd (clear_locked q)) cs of
           None \<Rightarrow> None
         | Some cs' \<Rightarrow> Some (fst (clear_locked q), cs')))"

text \<open>The loop over the subscribers: a subscriber whose buffer is full is dropped and closed.\<close>

fun publish_loop ::
  "payload \<Rightarrow> (int \<times> nat) list \<Rightarrow> queue \<times> chan_store \<Rightarrow> (queue \<times> chan_store) option" where
  "publish_loop p [] (q, cs) = Some (q, cs)"
| "publish_loop p ((sid, ch) # rest) (q, cs) =
     (case trySend ch p cs of
        None \<Rightarrow> None
      | Some (True, cs') \<Rightarrow> publish_loop p rest (q, cs')
      | Some (False, cs') \<Rightarrow>
          (case closeChan ch cs' of
             None \<Rightarrow> None
           | Some cs'' \<Rightarrow> publish_loop p rest (q\<lparr>subscribers := mdel sid (subscribers q)\<rparr>, cs'')))"

definition publishToSubscribers ::
  "payload \<Rightarrow> queue \<times> chan_store \<Rightarrow> (bool \<times> queue \<times> chan_store) option" where
  "publishToSubscribers p qcs =
     (case qcs of (q, cs) \<Rightarrow>
        if subscribers q = [] then Some (False, q, cs)
        else map_option (Pair True) (publish_loop p (subscribers q) (q, cs)))"

text \<open>\<open>ch\<close> is the channel that \<open>make\<close> allocates.\<close>

definition subscribe ::
  "nat \<Rightarrow> nat \<Rightarrow> payload \<Rightarrow> queue \<times> chan_store \<Rightarrow> int \<times> queue \<times> chan_store" where
  "subscribe ch buffer initialPayload qcs =
     (case qcs of (q, cs) \<Rightarrow>
        let c = \<lparr>ch_cap = buffer, ch_buf = (if initialPayload \<noteq> [] then [initialPayload] else []),
                 ch_closed = False\<rparr>;
            sid = (nextSubscriberID q + 1) mod 2 ^ 64
        in (sid, q\<lparr>nextSubscriberID := sid, subscribers := mput sid ch (subscribers q)\<rparr>, mput ch c cs))"

definition unsubscribe_locked :: "int \<Rightarrow> queue \<Rightarrow> queue \<times> nat list" where
  "unsubscribe_locked sid q =
     (case mget (subscribers q) sid of
        Some ch \<Rightarrow> (q\<lparr>subscribers := mdel sid (subscribers q)\<rparr>, [ch])
      | None \<Rightarrow> (q, []))"

definition unsubscribe :: "int \<Rightarrow> queue \<times> chan_store \<Rightarrow> (queue \<times> chan_store) option" where
  "unsubscribe sid qcs =
     (case qcs of (q, cs) \<Rightarrow>
        (case closeAll (snd (unsubscribe_locked sid q)) cs of
           None \<Rightarrow> None
         | Some cs' \<Rightarrow> Some (fst (unsubscribe_locked sid q), cs')))"

section \<open>The package\<close>

record redisqueue =
  rq_enabled :: bool
  retentionSeconds :: int
  global :: queue
  errorGlobal :: queue
  chans :: chan_store

definition init_redisqueue :: redisqueue where
  "init_redisqueue =
     \<lparr>rq_enabled = False, retentionSeconds = defaultRetentionSeconds, global = empty_queue,
      errorGlobal = empty_queue, chans = []\<rparr>"

definition SetRetentionSeconds :: "int \<Rightarrow> redisqueue \<Rightarrow> redisqueue" where
  "SetRetentionSeconds v r =
     r\<lparr>retentionSeconds :=
         (if v \<le> 0 then defaultRetentionSeconds
          else if v > maxRetentionSeconds then maxRetentionSeconds else v)\<rparr>"

definition SetEnabled :: "bool \<Rightarrow> redisqueue \<Rightarrow> redisqueue option" where
  "SetEnabled v r =
     (let r1 = r\<lparr>rq_enabled := v\<rparr> in
      if v then Some r1
      else
        (case clear (global r1, chans r1) of
           None \<Rightarrow> None
         | Some (g, cs) \<Rightarrow>
             (case clear (errorGlobal r1, cs) of
                None \<Rightarrow> None
              | Some (e, cs') \<Rightarrow> Some (r1\<lparr>global := g, errorGlobal := e, chans := cs'\<rparr>))))"

definition SetUsageStatisticsEnabled :: "bool \<Rightarrow> redisqueue \<Rightarrow> redisqueue option" where
  "SetUsageStatisticsEnabled v r =
     (if v then Some r
      else map_option (\<lambda>(g, cs). r\<lparr>global := g, chans := cs\<rparr>) (clear (global r, chans r)))"

definition Enqueue :: "time \<Rightarrow> payload \<Rightarrow> redisqueue \<Rightarrow> redisqueue option" where
  "Enqueue now p r =
     (if \<not> rq_enabled r then Some r
      else if p = [] then Some r
      else
        (case publishToSubscribers p (global r, chans r) of
           None \<Rightarrow> None
         | Some (True, g, cs) \<Rightarrow> Some (r\<lparr>global := g, chans := cs\<rparr>)
         | Some (False, g, cs) \<Rightarrow>
             Some (r\<lparr>global := enqueue (retentionSeconds r) now p g, chans := cs\<rparr>)))"

definition EnqueueError :: "payload \<Rightarrow> redisqueue \<Rightarrow> redisqueue option" where
  "EnqueueError p r =
     (if \<not> rq_enabled r then Some r
      else if p = [] then Some r
      else map_option (\<lambda>(_, e, cs). r\<lparr>errorGlobal := e, chans := cs\<rparr>)
             (publishToSubscribers p (errorGlobal r, chans r)))"

definition PopOldest :: "time \<Rightarrow> int \<Rightarrow> redisqueue \<Rightarrow> payload list \<times> redisqueue" where
  "PopOldest now cnt r =
     (if \<not> rq_enabled r then ([], r)
      else if cnt \<le> 0 then ([], r)
      else (case popOldest (retentionSeconds r) now cnt (global r) of
              (out, g) \<Rightarrow> (out, r\<lparr>global := g\<rparr>)))"

definition SubscribeUsage :: "nat \<Rightarrow> redisqueue \<Rightarrow> int \<times> redisqueue" where
  "SubscribeUsage ch r =
     (case subscribe ch usageSubscriberBuffer usageSupportRefreshPayload (global r, chans r) of
        (sid, g, cs) \<Rightarrow> (sid, r\<lparr>global := g, chans := cs\<rparr>))"

definition SubscribeErrors :: "nat \<Rightarrow> redisqueue \<Rightarrow> int \<times> redisqueue" where
  "SubscribeErrors ch r =
     (case subscribe ch errorSubscriberBuffer [] (errorGlobal r, chans r) of
        (sid, e, cs) \<Rightarrow> (sid, r\<lparr>errorGlobal := e, chans := cs\<rparr>))"

definition NotifyUsageRefresh :: "redisqueue \<Rightarrow> redisqueue option" where
  "NotifyUsageRefresh r =
     map_option (\<lambda>(_, g, cs). r\<lparr>global := g, chans := cs\<rparr>)
       (publishToSubscribers usageRefreshPayload (global r, chans r))"

section \<open>Contract of the queue\<close>

text \<open>The abstract queue is the list of its items with their times. Every operation first drops
  what is older than the window.\<close>

datatype 'p queue_op = QEnq time 'p | QPop time int

fun op_time :: "'p queue_op \<Rightarrow> time" where
  "op_time (QEnq t p) = t"
| "op_time (QPop t n) = t"

fun op_enq :: "'p queue_op \<Rightarrow> 'p list" where
  "op_enq (QEnq t p) = [p]"
| "op_enq (QPop t n) = []"

definition fresh :: "duration \<Rightarrow> time \<Rightarrow> (time \<times> 'p) list \<Rightarrow> (time \<times> 'p) list" where
  "fresh w now l = filter (\<lambda>e. now - w \<le> fst e) l"

fun spec_queue_op :: "duration \<Rightarrow> 'p queue_op \<Rightarrow> (time \<times> 'p) list \<Rightarrow> 'p list \<times> (time \<times> 'p) list" where
  "spec_queue_op w (QEnq now p) l = ([], fresh w now l @ [(now, p)])"
| "spec_queue_op w (QPop now n) l = (map snd (take (nat n) (fresh w now l)), drop (nat n) (fresh w now l))"

fun run_queue :: "('o \<Rightarrow> 'q \<Rightarrow> 'p list \<times> 'q) \<Rightarrow> 'o list \<Rightarrow> 'q \<Rightarrow> 'p list \<times> 'q" where
  "run_queue step [] q = ([], q)"
| "run_queue step (x # xs) q =
     (case step x q of (out, q1) \<Rightarrow> case run_queue step xs q1 of (outs, q2) \<Rightarrow> (out @ outs, q2))"

lemma fresh_dropWhile:
  "sorted (map fst l) \<Longrightarrow> dropWhile (\<lambda>e. fst e < now - w) l = fresh w now l"
proof (induction l)
  case (Cons e l)
  show ?case
  proof (cases "fst e < now - w")
    case False
    with Cons.prems have "\<forall>x \<in> set l. now - w \<le> fst x" by fastforce
    with False show ?thesis by (simp add: fresh_def filter_id_conv)
  qed (use Cons in \<open>simp add: fresh_def\<close>)
qed (simp add: fresh_def)

lemma sorted_fresh: "sorted (map fst l) \<Longrightarrow> sorted (map fst (fresh w now l))"
  by (simp add: fresh_def sorted_filter)

lemma fresh_subset: "set (fresh w now l) \<subseteq> set l"
  by (auto simp: fresh_def)

locale expiring_queue =
  fixes live :: "'q \<Rightarrow> (time \<times> 'p) list" and w :: duration
    and enq :: "time \<Rightarrow> 'p \<Rightarrow> 'q \<Rightarrow> 'q" and pop :: "time \<Rightarrow> int \<Rightarrow> 'q \<Rightarrow> 'p list \<times> 'q"
  assumes enq_law: "live (enq now p q) = dropWhile (\<lambda>e. fst e < now - w) (live q) @ [(now, p)]"
    and pop_law: "0 < n \<Longrightarrow> pop now n q = (out, q') \<Longrightarrow>
          out = map snd (take (nat n) (dropWhile (\<lambda>e. fst e < now - w) (live q))) \<and>
          live q' = drop (nat n) (dropWhile (\<lambda>e. fst e < now - w) (live q))"
begin

lemma fifo_refines:
  assumes "sorted (map op_time ops)" and "sorted (map fst (live q))"
    and "\<forall>e \<in> set (live q). \<forall>x \<in> set ops. fst e \<le> op_time x"
    and "\<forall>t n. QPop t n \<in> set ops \<longrightarrow> 0 < n"
    and "run_queue (\<lambda>x q. case x of QEnq t p \<Rightarrow> ([], enq t p q) | QPop t n \<Rightarrow> pop t n q) ops q = (outs, q')"
  shows "run_queue (spec_queue_op w) ops (live q) = (outs, live q')"
  using assms
proof (induction ops arbitrary: q outs)
  case (Cons x ops)
  let ?step = "\<lambda>x q. case x of QEnq t p \<Rightarrow> ([], enq t p q) | QPop t n \<Rightarrow> pop t n q"
  obtain o1 q1 where s: "?step x q = (o1, q1)" by (metis surj_pair)
  obtain o2 where r: "run_queue ?step ops q1 = (o2, q')" "outs = o1 @ o2"
    using Cons.prems(5) s by (auto split: prod.splits)
  have step: "spec_queue_op w x (live q) = (o1, live q1)"
  proof (cases x)
    case (QPop t n)
    with s Cons.prems(4) pop_law [of n t q o1 q1] show ?thesis
      by (simp add: fresh_dropWhile [OF Cons.prems(2)])
  qed (use s enq_law fresh_dropWhile [OF Cons.prems(2)] in auto)
  have sub: "set (live q1) \<subseteq> set (live q) \<union> {(op_time x, p) | p. True}"
    and srt: "sorted (map fst (live q1))"
  proof -
    have l1: "live q1 = snd (spec_queue_op w x (live q))" using step by simp
    show "set (live q1) \<subseteq> set (live q) \<union> {(op_time x, p) | p. True}"
      using fresh_subset [of w "op_time x" "live q"] by (cases x) (auto simp: l1 dest: in_set_dropD)
    have "\<forall>e \<in> set (fresh w (op_time x) (live q)). fst e \<le> op_time x"
      using Cons.prems(3) fresh_subset [of w "op_time x" "live q"] by auto
    then show "sorted (map fst (live q1))"
      using sorted_fresh [OF Cons.prems(2), of w "op_time x"]
      by (cases x) (auto simp: l1 sorted_append sorted_wrt_drop drop_map [symmetric])
  qed
  have "\<forall>e \<in> set (live q1). \<forall>y \<in> set ops. fst e \<le> op_time y"
    using sub Cons.prems(1,3) by fastforce
  with Cons.IH [OF _ srt _ _ r(1)] Cons.prems(1,4) have "run_queue (spec_queue_op w) ops (live q1) = (o2, live q')"
    by simp
  with step r(2) show ?case by simp
qed simp

lemma delivered_subseq:
  assumes "\<forall>t n. QPop t n \<in> set ops \<longrightarrow> 0 < n"
    and "run_queue (\<lambda>x q. case x of QEnq t p \<Rightarrow> ([], enq t p q) | QPop t n \<Rightarrow> pop t n q) ops q = (outs, q')"
  shows "subseq (outs @ map snd (live q')) (map snd (live q) @ concat (map op_enq ops))"
  using assms
proof (induction ops arbitrary: q outs)
  case (Cons x ops)
  let ?step = "\<lambda>x q. case x of QEnq t p \<Rightarrow> ([], enq t p q) | QPop t n \<Rightarrow> pop t n q"
  obtain o1 q1 where s: "?step x q = (o1, q1)" by (metis surj_pair)
  obtain o2 where r: "run_queue ?step ops q1 = (o2, q')" "outs = o1 @ o2"
    using Cons.prems(2) s by (auto split: prod.splits)
  let ?d = "dropWhile (\<lambda>e. fst e < op_time x - w) (live q)"
  have "subseq (map snd ?d) (map snd (live q))" 
    by (metis subseq_map suffix_dropWhile suffix_imp_subseq)
  moreover have "o1 @ map snd (live q1) = map snd ?d @ op_enq x"
  proof (cases x)
    case (QPop t n)
    with s Cons.prems(1) pop_law [of n t q o1 q1] show ?thesis
      by (simp flip: map_append)
  qed (use s enq_law in auto)
  ultimately have "subseq (o1 @ map snd (live q1)) (map snd (live q) @ op_enq x)"
    by (simp add: list_emb_append_mono)
  then have a: "subseq ((o1 @ map snd (live q1)) @ concat (map op_enq ops))
                       ((map snd (live q) @ op_enq x) @ concat (map op_enq ops))"
    by (rule list_emb_append_mono) simp
  have "subseq (o2 @ map snd (live q')) (map snd (live q1) @ concat (map op_enq ops))"
    using Cons.IH [OF _ r(1)] Cons.prems(1) by simp
  then have "subseq (o1 @ o2 @ map snd (live q')) (o1 @ map snd (live q1) @ concat (map op_enq ops))"
    by (rule list_emb_append_mono [OF subseq_order.order_refl])
  from subseq_order.order_trans [OF this] a have "subseq (o1 @ o2 @ map snd (live q'))
                      ((map snd (live q) @ op_enq x) @ concat (map op_enq ops))"
    by simp
  then show ?case by (simp add: r(2))
qed simp

end

section \<open>The slice implements the contract\<close>

definition live_items :: "queue \<Rightarrow> (time \<times> payload) list" where
  "live_items q = map (\<lambda>it. (enqueuedAt it, qi_payload it)) (drop (head q) (items q))"

text \<open>The head is inside the slice and at most half of the slice is dead.\<close>

definition queue_inv :: "queue \<Rightarrow> bool" where
  "queue_inv q \<longleftrightarrow> head q \<le> length (items q) \<and> (head q = 0 \<or> 2 * head q < length (items q))"

lemma dropWhile_drop: "dropWhile P xs = drop (length (takeWhile P xs)) xs"
  by (metis dropWhile_eq_drop)

lemma live_prune:
  "live_items (pruneLocked rs now q) =
     dropWhile (\<lambda>e. fst e < now - (if rs \<le> 0 then defaultRetentionSeconds else rs) * Second) (live_items q)"
  by (auto simp: pruneLocked_def live_items_def dropWhile_map comp_def retention_cutoff_def
      dropWhile_drop [of _ "drop _ _"] add.commute)

lemma live_compact: "live_items (maybeCompactLocked q) = live_items q"
  by (auto simp: maybeCompactLocked_def live_items_def)

lemma prune_head: "head (pruneLocked rs now q) \<le> length (items (pruneLocked rs now q))"
  using length_takeWhile_le [of "\<lambda>it. enqueuedAt it < retention_cutoff rs now" "drop (head q) (items q)"]
  by (auto simp: pruneLocked_def)

lemma compact_inv: "queue_inv (maybeCompactLocked q)"
  by (auto simp: queue_inv_def maybeCompactLocked_def)

lemma live_enqueue:
  "live_items (enqueue rs now p q) = live_items (pruneLocked rs now q) @ [(now, p)]"
  using prune_head [of rs now q] by (simp add: enqueue_def Let_def live_compact) (simp add: live_items_def)

lemma popOldest_live:
  assumes "0 < n" and "popOldest rs now n q = (out, q')"
  shows "out = map snd (take (nat n) (live_items (pruneLocked rs now q)))"
    and "live_items q' = drop (nat n) (live_items (pruneLocked rs now q))" and "queue_inv q'"
proof -
  let ?q = "pruneLocked rs now q"
  let ?d = "drop (head ?q) (items ?q)"
  define m where "m = (if n > int (length ?d) then length ?d else nat n)"
  have "take (nat n) ?d = take m ?d" and dr: "drop (nat n) ?d = drop m ?d"
    by (auto simp: m_def)
  moreover have "map (\<lambda>i. qi_payload (items ?q ! (head ?q + i))) [0..<m] = map qi_payload (take m ?d)"
    by (rule nth_equalityI) (auto simp: m_def)
  ultimately have out: "map snd (take (nat n) (live_items ?q)) = map (\<lambda>i. qi_payload (items ?q ! (head ?q + i))) [0..<m]"
    by (simp add: live_items_def take_map comp_def)
  show "out = map snd (take (nat n) (live_items ?q))" "live_items q' = drop (nat n) (live_items ?q)" "queue_inv q'"
  proof (atomize (full), cases "length (items ?q) \<le> head ?q")
    case True
    with assms show "out = map snd (take (nat n) (live_items ?q)) \<and>
        live_items q' = drop (nat n) (live_items ?q) \<and> queue_inv q'"
      by (auto simp: popOldest_def Let_def live_items_def queue_inv_def)
  next
    case False
    have "out = map (\<lambda>i. qi_payload (items ?q ! (head ?q + i))) [0..<m]"
      and "q' = maybeCompactLocked (?q\<lparr>head := head ?q + m\<rparr>)"
      using assms(2) False by (auto simp: popOldest_def Let_def m_def)
    with out dr show "out = map snd (take (nat n) (live_items ?q)) \<and>
        live_items q' = drop (nat n) (live_items ?q) \<and> queue_inv q'"
      by (simp add: live_compact compact_inv) (simp add: live_items_def drop_map add.commute)
  qed
qed

interpretation rq: expiring_queue live_items "(if rs \<le> 0 then defaultRetentionSeconds else rs) * Second"
  "enqueue rs" "popOldest rs" for rs
proof
  show "live_items (enqueue rs now p q) =
      dropWhile (\<lambda>e. fst e < now - (if rs \<le> 0 then defaultRetentionSeconds else rs) * Second) (live_items q) @ [(now, p)]"
    for now p q
    by (simp only: live_enqueue live_prune)
qed (use popOldest_live in \<open>simp only: live_prune\<close>)

section \<open>Subscribers\<close>

definition open_chan :: "chan_store \<Rightarrow> nat \<Rightarrow> bool" where
  "open_chan cs ch \<longleftrightarrow> (case mget cs ch of None \<Rightarrow> False | Some c \<Rightarrow> \<not> ch_closed c)"

definition full_chan :: "chan_store \<Rightarrow> nat \<Rightarrow> bool" where
  "full_chan cs ch \<longleftrightarrow> (case mget cs ch of None \<Rightarrow> False | Some c \<Rightarrow> ch_cap c \<le> length (ch_buf c))"

text \<open>What one published payload does to the channel of a subscriber.\<close>

definition published :: "payload \<Rightarrow> chan \<Rightarrow> chan" where
  "published p c =
     (if ch_cap c \<le> length (ch_buf c) then c\<lparr>ch_closed := True\<rparr> else c\<lparr>ch_buf := ch_buf c @ [p]\<rparr>)"

lemma filter_mdel: "filter P (mdel k m) = filter (\<lambda>e. P e \<and> fst e \<noteq> k) m"
  by (simp add: mdel_filter conj_commute)

lemma publish_loop_ok:
  assumes "distinct (map snd L)" and "\<forall>ch \<in> snd ` set L. open_chan cs ch"
  shows "\<exists>cs'. publish_loop p L (q, cs) =
           Some (q\<lparr>subscribers := filter (\<lambda>e. \<forall>ch. (fst e, ch) \<in> set L \<longrightarrow> \<not> full_chan cs ch) (subscribers q)\<rparr>, cs') \<and>
         (\<forall>ch. mget cs' ch = (if ch \<in> snd ` set L then map_option (published p) (mget cs ch) else mget cs ch))"
  using assms
proof (induction L arbitrary: q cs)
  case Nil
  then show ?case by simp
next
  case (Cons e L)
  obtain sid ch where e: "e = (sid, ch)" by fastforce
  from Cons.prems(2) e obtain c where c: "mget cs ch = Some c" "\<not> ch_closed c"
    by (auto simp: open_chan_def split: option.splits)
  from Cons.prems(1) e have nch: "ch \<notin> snd ` set L" by auto
  let ?cs = "mput ch (published p c) cs"
  have oth: "mget ?cs x = mget cs x" if "x \<in> snd ` set L" for x using that nch by auto
  have feq: "full_chan ?cs x = full_chan cs x" if "(i, x) \<in> set L" for i x
  proof -
    from that have "x \<in> snd ` set L" by force
    from oth [OF this] show ?thesis by (simp add: full_chan_def)
  qed
  then have fl: "(\<forall>x. (i, x) \<in> set L \<longrightarrow> \<not> full_chan ?cs x) = (\<forall>x. (i, x) \<in> set L \<longrightarrow> \<not> full_chan cs x)" for i
    by blast
  have op: "\<forall>x \<in> snd ` set L. open_chan ?cs x"
    using Cons.prems(2) oth by (simp add: open_chan_def)
  have d: "distinct (map snd L)" using Cons.prems(1) by simp
  have cs': "mget cs' x = (if x \<in> snd ` set (e # L) then map_option (published p) (mget cs x) else mget cs x)"
    if "\<forall>x. mget cs' x = (if x \<in> snd ` set L then map_option (published p) (mget ?cs x) else mget ?cs x)" for cs' x
    using that nch c(1) by (auto simp: e)
  show ?case
  proof (cases "full_chan cs ch")
    case True
    then have "publish_loop p (e # L) (q, cs) = publish_loop p L (q\<lparr>subscribers := mdel sid (subscribers q)\<rparr>, ?cs)"
      using c by (simp add: e trySend_def closeChan_def full_chan_def published_def)
    moreover have "filter (\<lambda>e. \<forall>ch. (fst e, ch) \<in> set L \<longrightarrow> \<not> full_chan ?cs ch) (mdel sid (subscribers q)) =
        filter (\<lambda>x. \<forall>ch. (fst x, ch) \<in> set (e # L) \<longrightarrow> \<not> full_chan cs ch) (subscribers q)"
      unfolding filter_mdel fl using True by (intro filter_cong) (auto simp: e)
    moreover obtain cs' where "publish_loop p L (q\<lparr>subscribers := mdel sid (subscribers q)\<rparr>, ?cs) =
        Some (q\<lparr>subscribers := filter (\<lambda>e. \<forall>ch. (fst e, ch) \<in> set L \<longrightarrow> \<not> full_chan ?cs ch) (mdel sid (subscribers q))\<rparr>, cs')"
      and m: "\<forall>x. mget cs' x = (if x \<in> snd ` set L then map_option (published p) (mget ?cs x) else mget ?cs x)"
      using Cons.IH [OF d op, of "q\<lparr>subscribers := mdel sid (subscribers q)\<rparr>"] by (elim exE conjE) simp
    ultimately show ?thesis by (intro exI [of _ cs'] conjI allI cs' [OF m]) (simp only:)
  next
    case False
    then have "publish_loop p (e # L) (q, cs) = publish_loop p L (q, ?cs)"
      using c by (simp add: e trySend_def full_chan_def published_def)
    moreover have "filter (\<lambda>e. \<forall>ch. (fst e, ch) \<in> set L \<longrightarrow> \<not> full_chan ?cs ch) (subscribers q) =
        filter (\<lambda>x. \<forall>ch. (fst x, ch) \<in> set (e # L) \<longrightarrow> \<not> full_chan cs ch) (subscribers q)"
      unfolding fl using False by (intro filter_cong) (auto simp: e)
    moreover obtain cs' where "publish_loop p L (q, ?cs) =
        Some (q\<lparr>subscribers := filter (\<lambda>e. \<forall>ch. (fst e, ch) \<in> set L \<longrightarrow> \<not> full_chan ?cs ch) (subscribers q)\<rparr>, cs')"
      and m: "\<forall>x. mget cs' x = (if x \<in> snd ` set L then map_option (published p) (mget ?cs x) else mget ?cs x)"
      using Cons.IH [OF d op, of q] by blast
    ultimately show ?thesis by (intro exI [of _ cs'] conjI allI cs' [OF m]) (simp only:)
  qed
qed

lemma publish_ok:
  assumes "distinct (map snd (subscribers q))" and "wf_map (subscribers q)"
    and "\<forall>ch \<in> snd ` set (subscribers q). open_chan cs ch"
  obtains cs' where "publishToSubscribers p (q, cs) =
      Some (subscribers q \<noteq> [], q\<lparr>subscribers := filter (\<lambda>e. \<not> full_chan cs (snd e)) (subscribers q)\<rparr>, cs')"
    "\<And>ch. mget cs' ch =
       (if ch \<in> snd ` set (subscribers q) then map_option (published p) (mget cs ch) else mget cs ch)"
proof -
  have "filter (\<lambda>e. \<forall>ch. (fst e, ch) \<in> set (subscribers q) \<longrightarrow> \<not> full_chan cs ch) (subscribers q) =
      filter (\<lambda>e. \<not> full_chan cs (snd e)) (subscribers q)"
    using assms(2) by (intro filter_cong) (auto, metis eq_key_imp_eq_value)
  with publish_loop_ok [OF assms(1,3), of p q] that show thesis
    by (cases "subscribers q = []") (auto simp: publishToSubscribers_def)
qed

section \<open>Interleaved executions\<close>

text \<open>\<open>Running r cl\<close>: the package state, and the channels that critical sections removed from
  the queues and whose \<open>close\<close> is still to come. One step is one critical section, one atomic
  access or one \<open>close\<close>, so every interleaving of concurrent calls is a path.\<close>

datatype rq_state = Running redisqueue "nat list" | Panicked

inductive rq_step :: "rq_state \<Rightarrow> rq_state \<Rightarrow> bool" where
  enable: "rq_step (Running r cl) (Running (r\<lparr>rq_enabled := v\<rparr>) cl)"
| retention: "rq_step (Running r cl) (Running (SetRetentionSeconds n r) cl)"
| clear_usage: "clear_locked (global r) = (g, chs) \<Longrightarrow>
    rq_step (Running r cl) (Running (r\<lparr>global := g\<rparr>) (chs @ cl))"
| clear_errors: "clear_locked (errorGlobal r) = (e, chs) \<Longrightarrow>
    rq_step (Running r cl) (Running (r\<lparr>errorGlobal := e\<rparr>) (chs @ cl))"
| close: "ch \<in> set cl \<Longrightarrow> closeChan ch (chans r) = Some cs \<Longrightarrow>
    rq_step (Running r cl) (Running (r\<lparr>chans := cs\<rparr>) (remove1 ch cl))"
| close_panic: "ch \<in> set cl \<Longrightarrow> closeChan ch (chans r) = None \<Longrightarrow> rq_step (Running r cl) Panicked"
| publish_usage: "publishToSubscribers p (global r, chans r) = Some (b, g, cs) \<Longrightarrow>
    rq_step (Running r cl) (Running (r\<lparr>global := g, chans := cs\<rparr>) cl)"
| publish_usage_panic: "publishToSubscribers p (global r, chans r) = None \<Longrightarrow>
    rq_step (Running r cl) Panicked"
| publish_error: "publishToSubscribers p (errorGlobal r, chans r) = Some (b, e, cs) \<Longrightarrow>
    rq_step (Running r cl) (Running (r\<lparr>errorGlobal := e, chans := cs\<rparr>) cl)"
| publish_error_panic: "publishToSubscribers p (errorGlobal r, chans r) = None \<Longrightarrow>
    rq_step (Running r cl) Panicked"
| enqueue: "rq_step (Running r cl)
    (Running (r\<lparr>global := Redis_Queue.enqueue (retentionSeconds r) now p (global r)\<rparr>) cl)"
| pop: "rq_step (Running r cl) (Running (snd (PopOldest now n r)) cl)"
| subscribe_usage: "mget (chans r) ch = None \<Longrightarrow>
    rq_step (Running r cl) (Running (snd (SubscribeUsage ch r)) cl)"
| subscribe_errors: "mget (chans r) ch = None \<Longrightarrow>
    rq_step (Running r cl) (Running (snd (SubscribeErrors ch r)) cl)"
| unsubscribe_usage: "unsubscribe_locked sid (global r) = (g, chs) \<Longrightarrow>
    rq_step (Running r cl) (Running (r\<lparr>global := g\<rparr>) (chs @ cl))"
| unsubscribe_errors: "unsubscribe_locked sid (errorGlobal r) = (e, chs) \<Longrightarrow>
    rq_step (Running r cl) (Running (r\<lparr>errorGlobal := e\<rparr>) (chs @ cl))"
| receive: "rq_step (Running r cl) (Running (r\<lparr>chans := snd (Redis_Queue.receive ch (chans r))\<rparr>) cl)"

inductive_cases rq_step_cases: "rq_step s s'"

inductive rq_reachable :: "rq_state \<Rightarrow> bool" where
  start: "rq_reachable (Running init_redisqueue [])"
| step: "rq_reachable s \<Longrightarrow> rq_step s s' \<Longrightarrow> rq_reachable s'"

text \<open>Every channel that a queue or a pending \<open>close\<close> refers to is open and referred to once.\<close>

definition chan_refs :: "queue \<Rightarrow> nat list" where
  "chan_refs q = map snd (subscribers q)"

fun rq_inv :: "rq_state \<Rightarrow> bool" where
  "rq_inv Panicked = False"
| "rq_inv (Running r cl) =
     (distinct (chan_refs (global r) @ chan_refs (errorGlobal r) @ cl) \<and>
      (\<forall>ch \<in> set (chan_refs (global r) @ chan_refs (errorGlobal r) @ cl). open_chan (chans r) ch) \<and>
      wf_map (subscribers (global r)) \<and> wf_map (subscribers (errorGlobal r)))"

lemma set_chan_refs: "set (chan_refs q) = snd ` set (subscribers q)"
  by (simp add: chan_refs_def)

lemma mput_refs:
  assumes "wf_map m" and "distinct (map snd m @ xs)" and "ch \<notin> set (map snd m @ xs)"
  shows "distinct (map snd (mput k ch m) @ xs)" and "set (map snd (mput k ch m)) \<subseteq> insert ch (set (map snd m))"
  using assms by (induction m) (auto split: if_splits)

lemma subscribers_enqueue [simp]: "subscribers (enqueue rs now p q) = subscribers q"
  by (simp add: enqueue_def Let_def maybeCompactLocked_def pruneLocked_def)

lemma subscribers_popOldest: "popOldest rs now n q = (out, q') \<Longrightarrow> subscribers q' = subscribers q"
  by (auto simp: popOldest_def Let_def maybeCompactLocked_def pruneLocked_def split: if_splits)

lemma open_published: "open_chan cs ch \<Longrightarrow> \<not> full_chan cs ch \<Longrightarrow>
    mget cs' ch = map_option (published p) (mget cs ch) \<Longrightarrow> open_chan cs' ch"
  by (auto simp: open_chan_def full_chan_def published_def split: option.splits)

lemma open_receive: "open_chan (snd (receive c cs)) ch = open_chan cs ch"
  by (auto simp: receive_def open_chan_def split: option.splits list.splits)

text \<open>Publishing to one of the two queues; \<open>xs\<close> are the references held elsewhere.\<close>

lemma publish_refs:
  assumes "distinct (chan_refs q @ xs)" and "wf_map (subscribers q)"
    and "\<forall>ch \<in> set (chan_refs q @ xs). open_chan cs ch"
    and "publishToSubscribers p (q, cs) = Some (b, q', cs')"
  shows "distinct (chan_refs q' @ xs)" "wf_map (subscribers q')" "\<forall>ch \<in> set (chan_refs q' @ xs). open_chan cs' ch"
proof -
  have "distinct (map snd (subscribers q))" "\<forall>ch \<in> snd ` set (subscribers q). open_chan cs ch"
    using assms(1,3) by (auto simp: chan_refs_def)
  with assms(2) obtain cs1 where r: "publishToSubscribers p (q, cs) =
      Some (subscribers q \<noteq> [], q\<lparr>subscribers := filter (\<lambda>e. \<not> full_chan cs (snd e)) (subscribers q)\<rparr>, cs1)"
    and m: "mget cs1 ch = (if ch \<in> snd ` set (subscribers q) then map_option (published p) (mget cs ch) else mget cs ch)" for ch
    by (metis publish_ok)
  from r assms(4) have q': "subscribers q' = filter (\<lambda>e. \<not> full_chan cs (snd e)) (subscribers q)" and cs': "cs' = cs1"
    by auto
  have sub: "set (chan_refs q') = {ch \<in> set (chan_refs q). \<not> full_chan cs ch}"
    by (auto simp: chan_refs_def q')
  show "distinct (chan_refs q' @ xs)"
    using assms(1) sub by (auto simp: chan_refs_def q' distinct_map_filter)
  show "wf_map (subscribers q')" using assms(2) by (simp add: q' distinct_map_filter)
  show "\<forall>ch \<in> set (chan_refs q' @ xs). open_chan cs' ch"
  proof
    fix ch assume "ch \<in> set (chan_refs q' @ xs)"
    then consider "ch \<in> set (chan_refs q)" "\<not> full_chan cs ch" | "ch \<in> set xs" "ch \<notin> set (chan_refs q)"
      using assms(1) sub by auto
    then show "open_chan cs' ch"
    proof cases
      case 1
      with m [of ch] assms(3) open_published [of cs ch cs' p] show ?thesis
        by (simp add: cs' set_chan_refs)
    next
      case 2
      with m [of ch] assms(3) show ?thesis by (simp add: cs' set_chan_refs open_chan_def)
    qed
  qed
qed

lemma publish_not_None:
  assumes "distinct (chan_refs q @ xs)" and "wf_map (subscribers q)"
    and "\<forall>ch \<in> set (chan_refs q @ xs). open_chan cs ch"
  shows "publishToSubscribers p (q, cs) \<noteq> None"
proof -
  have "distinct (map snd (subscribers q))" "\<forall>ch \<in> snd ` set (subscribers q). open_chan cs ch"
    using assms(1,3) by (auto simp: chan_refs_def)
  with assms(2) show ?thesis by (metis publish_ok option.distinct(1))
qed

text \<open>The references of one queue and the rest, in this order; the invariant seen from one queue.\<close>

definition refs_ok :: "queue \<Rightarrow> nat list \<Rightarrow> chan_store \<Rightarrow> bool" where
  "refs_ok q xs cs \<longleftrightarrow> distinct (chan_refs q @ xs) \<and> (\<forall>ch \<in> set (chan_refs q @ xs). open_chan cs ch) \<and>
     wf_map (subscribers q)"

lemma rq_inv_global:
  "rq_inv (Running r cl) \<longleftrightarrow>
     refs_ok (global r) (chan_refs (errorGlobal r) @ cl) (chans r) \<and> wf_map (subscribers (errorGlobal r))"
  by (auto simp: refs_ok_def)

lemma rq_inv_error:
  "rq_inv (Running r cl) \<longleftrightarrow>
     refs_ok (errorGlobal r) (chan_refs (global r) @ cl) (chans r) \<and> wf_map (subscribers (global r))"
  by (auto simp: refs_ok_def)

lemma refs_publish:
  "refs_ok q xs cs \<Longrightarrow> publishToSubscribers p (q, cs) = Some (b, q', cs') \<Longrightarrow> refs_ok q' xs cs'"
  "refs_ok q xs cs \<Longrightarrow> publishToSubscribers p (q, cs) \<noteq> None"
  using publish_refs [of q xs cs p b q' cs'] publish_not_None [of q xs cs p] by (auto simp: refs_ok_def)

lemma refs_subscribe:
  assumes ok: "refs_ok q xs cs" and n: "mget cs ch = None" and s: "subscribe ch buf ini (q, cs) = (sid, q', cs')"
  shows "refs_ok q' xs cs'"
proof -
  have fresh: "ch \<notin> set (chan_refs q @ xs)"
    using ok n unfolding refs_ok_def by (metis open_chan_def option.simps(4))
  from s have q': "subscribers q' = mput sid ch (subscribers q)"
    and cs': "mget cs' x = (if x = ch then Some \<lparr>ch_cap = buf, ch_buf = (if ini \<noteq> [] then [ini] else []), ch_closed = False\<rparr>
        else mget cs x)" for x
    by (auto simp: subscribe_def Let_def)
  note m = mput_refs [of "subscribers q" xs ch sid]
  have "distinct (chan_refs q' @ xs)" "set (chan_refs q') \<subseteq> insert ch (set (chan_refs q))"
    using ok fresh m by (auto simp: refs_ok_def chan_refs_def q' simp del: distinct_append)
  moreover have "open_chan cs' x" if "x \<in> insert ch (set (chan_refs q @ xs))" for x
    using ok that cs' [of x] by (auto simp: refs_ok_def open_chan_def)
  ultimately show ?thesis using ok q' by (auto simp: refs_ok_def)
qed

lemma refs_unsubscribe:
  assumes ok: "refs_ok q xs cs" and u: "unsubscribe_locked sid q = (q', chs)"
  shows "refs_ok q' (chs @ xs) cs"
proof (cases "mget (subscribers q) sid")
  case None
  with u ok show ?thesis by (simp add: unsubscribe_locked_def)
next
  case (Some ch)
  with u have q': "subscribers q' = mdel sid (subscribers q)" and chs: "chs = [ch]"
    by (auto simp: unsubscribe_locked_def)
  from Some ok have in_m: "(sid, ch) \<in> set (subscribers q)" by (simp add: map_of_SomeD)
  have d: "distinct (map snd (subscribers q))" using ok by (auto simp: refs_ok_def chan_refs_def)
  have "snd e \<noteq> ch" if "e \<in> set (subscribers q)" "fst e \<noteq> sid" for e
    using d in_m that by (metis distinct_map fst_conv inj_onD snd_conv)
  then have "ch \<notin> set (chan_refs q')" by (auto simp: chan_refs_def q' mdel_filter)
  moreover have "set (chan_refs q') \<subseteq> set (chan_refs q)" by (auto simp: chan_refs_def q' mdel_filter)
  moreover have "ch \<in> set (chan_refs q)" using in_m by (force simp: chan_refs_def)
  moreover have "distinct (chan_refs q')" using d by (simp add: chan_refs_def q' mdel_filter distinct_map_filter)
  ultimately show ?thesis
    using ok q' by (auto simp: refs_ok_def chs)
qed

lemma refs_clear: "refs_ok q xs cs \<Longrightarrow> clear_locked q = (q', chs) \<Longrightarrow> refs_ok q' (chs @ xs) cs"
  by (auto simp: clear_locked_def refs_ok_def chan_refs_def)

lemma refs_perm: "refs_ok q xs cs \<Longrightarrow> mset xs = mset ys \<Longrightarrow> refs_ok q ys cs"
  by (metis distinct_append mset_eq_imp_distinct_iff mset_eq_setD refs_ok_def set_append)

lemma refs_same: "refs_ok q xs cs \<Longrightarrow> subscribers q' = subscribers q \<Longrightarrow> refs_ok q' xs cs"
  by (simp add: refs_ok_def chan_refs_def)

lemma close_refs:
  assumes "rq_inv (Running r cl)" and "ch \<in> set cl" and "closeChan ch (chans r) = Some cs"
  shows "rq_inv (Running (r\<lparr>chans := cs\<rparr>) (remove1 ch cl))"
proof -
  have same: "open_chan cs x = open_chan (chans r) x" if "x \<noteq> ch" for x
    using assms(3) that by (auto simp: closeChan_def open_chan_def split: option.splits if_splits)
  have "open_chan cs x" if x: "x \<in> set (chan_refs (global r) @ chan_refs (errorGlobal r) @ remove1 ch cl)" for x
  proof -
    have "x \<noteq> ch" using assms(1,2) x by auto
    moreover have "open_chan (chans r) x" using assms(1) x by (auto dest: notin_set_remove1)
    ultimately show ?thesis using same by simp
  qed
  moreover have "distinct (chan_refs (global r) @ chan_refs (errorGlobal r) @ remove1 ch cl)"
    using assms(1) by (auto simp: distinct_remove1)
  ultimately show ?thesis using assms(1) by (simp del: distinct_append set_append)
qed

lemma rq_step_inv: "rq_step s s' \<Longrightarrow> rq_inv s \<Longrightarrow> rq_inv s'"
proof (induction rule: rq_step.induct)
  case (close ch cl r cs)
  then show ?case by (blast intro: close_refs)
next
  case (close_panic ch cl r)
  then have "open_chan (chans r) ch" by auto
  with close_panic(2) show ?case by (auto simp: closeChan_def open_chan_def split: option.splits if_splits)
next
  case (publish_usage p r b g cs cl)
  then show ?case unfolding rq_inv_global by (auto intro: refs_publish(1))
next
  case (publish_error p r b e cs cl)
  then show ?case unfolding rq_inv_error by (auto intro: refs_publish(1))
next
  case (publish_usage_panic p r cl)
  then show ?case unfolding rq_inv_global using refs_publish(2) by blast
next
  case (publish_error_panic p r cl)
  then show ?case unfolding rq_inv_error using refs_publish(2) by blast
next
  case (pop r cl now n)
  then show ?case unfolding rq_inv_global PopOldest_def
    by (auto split: prod.splits intro: refs_same dest: subscribers_popOldest)
next
  case (subscribe_usage r ch cl)
  then show ?case unfolding rq_inv_global SubscribeUsage_def
    by (auto split: prod.splits intro: refs_subscribe)
next
  case (subscribe_errors r ch cl)
  then show ?case unfolding rq_inv_error SubscribeErrors_def
    by (auto split: prod.splits intro: refs_subscribe)
next
  case (unsubscribe_usage sid r g chs cl)
  then show ?case unfolding rq_inv_global
    by (auto intro: refs_perm [OF refs_unsubscribe])
next
  case (unsubscribe_errors sid r e chs cl)
  then show ?case unfolding rq_inv_error
    by (auto intro: refs_perm [OF refs_unsubscribe])
next
  case (clear_usage r g chs cl)
  then show ?case unfolding rq_inv_global
    by (auto intro: refs_perm [OF refs_clear])
next
  case (clear_errors r e chs cl)
  then show ?case unfolding rq_inv_error
    by (auto intro: refs_perm [OF refs_clear])
qed (auto simp: SetRetentionSeconds_def chan_refs_def open_receive)

lemma rq_reachable_inv: "rq_reachable s \<Longrightarrow> rq_inv s"
  by (induction rule: rq_reachable.induct)
     (auto simp: rq_step_inv init_redisqueue_def empty_queue_def chan_refs_def)

section \<open>Properties\<close>

definition queue_step :: "int \<Rightarrow> payload queue_op \<Rightarrow> queue \<Rightarrow> payload list \<times> queue" where
  "queue_step rs x q = (case x of QEnq t p \<Rightarrow> ([], enqueue rs t p q) | QPop t n \<Rightarrow> popOldest rs t n q)"

lemma queue_step_alt:
  "queue_step rs = (\<lambda>x q. case x of QEnq t p \<Rightarrow> ([], enqueue rs t p q) | QPop t n \<Rightarrow> popOldest rs t n q)"
  by (intro ext) (simp add: queue_step_def)

lemma run_queue_inv:
  "queue_inv q \<Longrightarrow> \<forall>t n. QPop t n \<in> set ops \<longrightarrow> 0 < n \<Longrightarrow> run_queue (queue_step rs) ops q = (outs, q') \<Longrightarrow> queue_inv q'"
proof (induction ops arbitrary: q outs)
  case (Cons x ops)
  obtain o1 q1 where s: "queue_step rs x q = (o1, q1)" by fastforce
  have "queue_inv q1"
  proof (cases x)
    case (QPop t n)
    with s Cons.prems(2) popOldest_live(3) [of n rs t q o1 q1] show ?thesis by (simp add: queue_step_def)
  qed (use s in \<open>auto simp: queue_step_def enqueue_def Let_def compact_inv\<close>)
  with Cons s show ?case by (auto split: prod.splits)
qed simp

text \<open>C39: the slice with its moving head, lazy pruning and compaction answers like a plain FIFO whose
  items expire after the retention window, for operations at non-decreasing times; at most half of
  the slice is ever dead space.\<close>

theorem usage_queue_refines_fifo:
  assumes "sorted (map op_time ops)" and "\<forall>t n. QPop t n \<in> set ops \<longrightarrow> 0 < n" and "0 < rs"
    and "run_queue (queue_step rs) ops empty_queue = (outs, q)"
  shows "run_queue (spec_queue_op (rs * Second)) ops [] = (outs, live_items q) \<and>
         (head q = 0 \<or> 2 * head q < length (items q))"
proof -
  have "live_items empty_queue = []" "queue_inv empty_queue"
    by (simp_all add: live_items_def empty_queue_def queue_inv_def)
  with rq.fifo_refines [of ops empty_queue rs outs q] run_queue_inv [of empty_queue ops rs outs q] assms
  show ?thesis by (simp add: queue_step_alt queue_inv_def)
qed

theorem usage_queue_refines_fifo_witness:
  "run_queue (spec_queue_op (60 * Second)) [QEnq 5 ''a'', QEnq (6 + 60 * Second) ''b'', QPop (7 + 60 * Second) 4] [] =
     ([''b''], live_items (snd (run_queue (queue_step 60)
        [QEnq 5 ''a'', QEnq (6 + 60 * Second) ''b'', QPop (7 + 60 * Second) 4] empty_queue)))"
proof -
  let ?ops = "[QEnq 5 ''a'', QEnq (6 + 60 * Second) ''b'', QPop (7 + 60 * Second) 4]"
  have "fst (run_queue (queue_step 60) ?ops empty_queue) = [''b'']" by code_simp
  then have "run_queue (queue_step 60) ?ops empty_queue = ([''b''], snd (run_queue (queue_step 60) ?ops empty_queue))"
    by (metis prod.collapse)
  from usage_queue_refines_fifo [OF _ _ _ this] show ?thesis by (auto simp: Second_def)
qed

text \<open>Whatever the clock does, the payloads that consumers pop, followed by those still queued,
  are the enqueued ones in order with some left out: nothing is delivered twice, reordered or
  invented.\<close>

theorem usage_queue_at_most_once:
  assumes "\<forall>t n. QPop t n \<in> set ops \<longrightarrow> 0 < n" and "run_queue (queue_step rs) ops empty_queue = (outs, q)"
  shows "subseq (outs @ map snd (live_items q)) (concat (map op_enq ops))"
proof -
  have "live_items empty_queue = []" by (simp add: live_items_def empty_queue_def)
  with rq.delivered_subseq [of ops rs empty_queue outs q] assms show ?thesis by (simp add: queue_step_alt)
qed

theorem usage_queue_at_most_once_witness:
  "subseq ([''a''] @ map snd (live_items (snd (run_queue (queue_step 60) [QEnq 5 ''a'', QEnq 6 ''b'', QPop 7 1] empty_queue))))
     [''a'', ''b'']"
proof -
  let ?ops = "[QEnq 5 ''a'', QEnq 6 ''b'', QPop 7 1]"
  have "fst (run_queue (queue_step 60) ?ops empty_queue) = [''a'']" by code_simp
  then have "run_queue (queue_step 60) ?ops empty_queue = ([''a''], snd (run_queue (queue_step 60) ?ops empty_queue))"
    by (metis prod.collapse)
  from usage_queue_at_most_once [OF _ this] show ?thesis by auto
qed

text \<open>in no interleaving of publishing, subscribing, unsubscribing and clearing does the package
  send on a closed channel or close a channel twice.\<close>

theorem redisqueue_never_panics:
  assumes "rq_reachable s"
  shows "s \<noteq> Panicked"
  using rq_reachable_inv [OF assms] by auto

theorem redisqueue_never_panics_witness:
  "Running (snd (SubscribeUsage 0 init_redisqueue)) [] \<noteq> Panicked"
proof (rule redisqueue_never_panics)
  have "mget (chans init_redisqueue) 0 = None" by (simp add: init_redisqueue_def)
  from rq_step.subscribe_usage [OF this] show "rq_reachable (Running (snd (SubscribeUsage 0 init_redisqueue)) [])"
    using rq_reachable.start rq_reachable.step by blast
qed

text \<open>An enabled queue without subscribers keeps the payload; with subscribers it hands the payload
  to each of them that has room, drops and closes those that have none, and keeps nothing.\<close>

theorem Enqueue_delivers:
  assumes "rq_reachable (Running r cl)" and "rq_enabled r" and "p \<noteq> []"
  shows "\<exists>r'. Enqueue now p r = Some r' \<and>
     (if subscribers (global r) = []
      then global r' = enqueue (retentionSeconds r) now p (global r)
      else global r' = (global r)\<lparr>subscribers := filter (\<lambda>e. \<not> full_chan (chans r) (snd e)) (subscribers (global r))\<rparr> \<and>
           (\<forall>sid ch. (sid, ch) \<in> set (subscribers (global r)) \<longrightarrow>
              mget (chans r') ch = map_option (published p) (mget (chans r) ch)))"
proof -
  have inv: "rq_inv (Running r cl)" using assms(1) by (rule rq_reachable_inv)
  then have "distinct (map snd (subscribers (global r)))" "wf_map (subscribers (global r))"
    "\<forall>ch \<in> snd ` set (subscribers (global r)). open_chan (chans r) ch"
    by (auto simp: chan_refs_def)
  then obtain cs' where pub: "publishToSubscribers p (global r, chans r) = Some (subscribers (global r) \<noteq> [],
      (global r)\<lparr>subscribers := filter (\<lambda>e. \<not> full_chan (chans r) (snd e)) (subscribers (global r))\<rparr>, cs')"
    and m: "\<And>ch. mget cs' ch = (if ch \<in> snd ` set (subscribers (global r))
        then map_option (published p) (mget (chans r) ch) else mget (chans r) ch)"
    using publish_ok by blast
  have "mget cs' ch = map_option (published p) (mget (chans r) ch)"
    if "(sid, ch) \<in> set (subscribers (global r))" for sid ch
  proof -
    from that have "ch \<in> snd ` set (subscribers (global r))" by force
    with m [of ch] show ?thesis by simp
  qed
  with assms(2,3) pub show ?thesis
    by (cases "subscribers (global r) = []") (simp_all add: Enqueue_def publishToSubscribers_def)
qed

theorem Enqueue_delivers_witness:
  "\<exists>r'. Enqueue 9 ''u'' (init_redisqueue\<lparr>rq_enabled := True\<rparr>) = Some r' \<and>
     global r' = enqueue 60 9 ''u'' empty_queue"
proof -
  have "rq_reachable (Running (init_redisqueue\<lparr>rq_enabled := True\<rparr>) [])"
    using rq_reachable.start rq_step.enable rq_reachable.step by blast
  from Enqueue_delivers [OF this, of "''u''" 9] show ?thesis
    by (simp add: init_redisqueue_def empty_queue_def defaultRetentionSeconds_def)
qed

end
