(* ===== verification/Session_Cache.thy ===== *)
theory Session_Cache
  imports Go_Prelude "HOL-Library.Multiset"
begin

text \<open>
  The session affinity cache of \<^verbatim>\<open>sdk/cliproxy/auth/session_cache.go\<close>: session identifiers bound
  to an auth with a time to live. Several identifiers of one logical session form an alias group;
  every identifier of the group has its own copy of the group's entry in the map.

  \<open>time.Now()\<close> is an argument, twice in \<open>Get\<close>, which reads the clock again after it has taken
  the write lock. The background goroutine that calls \<open>cleanup\<close> is the operation \<open>cleanup\<close> at
  any time; \<open>Stop\<close> sets a flag.

  The central fact is \<open>session_inv\<close>: the copies never disagree. What the code promises in its
  comments (refreshing one identifier refreshes all, an invalidated identifier is not recreated by
  its group) follows from it.
\<close>

section \<open>Model\<close>

definition maxStableSessionAliases :: nat where
  "maxStableSessionAliases = 64"

record session_entry =
  se_authID :: string
  se_expiresAt :: time
  se_aliases :: "string list"

record session_cache =
  sc_entries :: "(string, session_entry) gomap"
  sc_ttl :: duration
  sc_stopped :: bool

definition NewSessionCache :: "duration \<Rightarrow> session_cache" where
  "NewSessionCache ttl =
     \<lparr>sc_entries = [], sc_ttl = (if ttl \<le> 0 then 30 * Minute else ttl), sc_stopped = False\<rparr>"

subsection \<open>Alias lists\<close>

text \<open>The closure \<open>add\<close>; \<open>seen\<close> holds the elements of \<open>aliases\<close>.\<close>

definition addAlias :: "string \<Rightarrow> string list \<Rightarrow> string list" where
  "addAlias alias aliases = (if alias = [] \<or> alias \<in> set aliases then aliases else aliases @ [alias])"

definition mergeSessionAliases :: "string list \<Rightarrow> string list \<Rightarrow> string list" where
  "mergeSessionAliases existing candidates = fold addAlias candidates (fold addAlias existing [])"

fun compact_loop :: "(string \<Rightarrow> bool) \<Rightarrow> bool \<Rightarrow> nat \<Rightarrow> string list \<Rightarrow> string list" where
  "compact_loop isPromptCacheAlias hasPromptCacheKey stableAliases [] = []"
| "compact_loop isPromptCacheAlias hasPromptCacheKey stableAliases (alias # rest) =
     (if isPromptCacheAlias alias then
        (if hasPromptCacheKey then compact_loop isPromptCacheAlias hasPromptCacheKey stableAliases rest
         else alias # compact_loop isPromptCacheAlias True stableAliases rest)
      else if stableAliases \<ge> maxStableSessionAliases
      then compact_loop isPromptCacheAlias hasPromptCacheKey stableAliases rest
      else alias # compact_loop isPromptCacheAlias hasPromptCacheKey (stableAliases + 1) rest)"

definition compactSessionAliasesWith :: "string list \<Rightarrow> (string \<Rightarrow> bool) \<Rightarrow> string list" where
  "compactSessionAliasesWith aliases isPromptCacheAlias = compact_loop isPromptCacheAlias False 0 aliases"

definition isLocalPromptCacheSessionAlias :: "string \<Rightarrow> bool" where
  "isLocalPromptCacheSessionAlias alias =
     (if HasPrefix alias ''pck:'' then True
      else case Cut alias ''::'' of
             None \<Rightarrow> False
           | Some (_, sessionAndModel) \<Rightarrow> HasPrefix sessionAndModel ''pck:'')"

definition compactSessionAliases :: "string list \<Rightarrow> string list" where
  "compactSessionAliases aliases = compactSessionAliasesWith aliases isLocalPromptCacheSessionAlias"

definition compactHomeSessionAliases :: "string list \<Rightarrow> string list" where
  "compactHomeSessionAliases aliases = compactSessionAliasesWith aliases (\<lambda>alias. HasPrefix alias ''pck:'')"

definition equalSessionAliases :: "string list \<Rightarrow> string list \<Rightarrow> bool" where
  "equalSessionAliases left right \<longleftrightarrow>
     length left = length right \<and> list_all (\<lambda>i. left ! i = right ! i) [0..<length left]"

subsection \<open>Alias groups\<close>

definition removeAlias :: "session_entry \<Rightarrow> string \<Rightarrow> session_cache \<Rightarrow> session_cache" where
  "removeAlias entry alias c =
     (case mget (sc_entries c) alias of
        None \<Rightarrow> c
      | Some current \<Rightarrow>
          if se_authID current \<noteq> se_authID entry \<or> se_expiresAt current \<noteq> se_expiresAt entry \<or>
             \<not> equalSessionAliases (se_aliases current) (se_aliases entry)
          then c
          else c\<lparr>sc_entries := mdel alias (sc_entries c)\<rparr>)"

definition removeAliasGroupLocked :: "session_entry \<Rightarrow> session_cache \<Rightarrow> session_cache" where
  "removeAliasGroupLocked entry c = fold (removeAlias entry) (se_aliases entry) c"

definition replaceAliasGroupsLocked ::
  "string \<Rightarrow> time \<Rightarrow> string list \<Rightarrow> session_entry list \<Rightarrow> session_cache \<Rightarrow> session_cache" where
  "replaceAliasGroupsLocked authID expiresAt aliases previousGroups c =
     (let c1 = fold removeAliasGroupLocked previousGroups c;
          entry = \<lparr>se_authID = authID, se_expiresAt = expiresAt, se_aliases = aliases\<rparr>
      in fold (\<lambda>alias c. c\<lparr>sc_entries := mput alias entry (sc_entries c)\<rparr>) aliases c1)"

subsection \<open>Operations\<close>

definition session_Get ::
  "time \<Rightarrow> time \<Rightarrow> string \<Rightarrow> session_cache \<Rightarrow> string option \<times> session_cache" where
  "session_Get now1 now2 sessionID c =
     (if sessionID = [] then (None, c)
      else case mget (sc_entries c) sessionID of
             None \<Rightarrow> (None, c)
           | Some entry \<Rightarrow>
               if now1 < se_expiresAt entry then (Some (se_authID entry), c)
               else if now2 < se_expiresAt entry then (Some (se_authID entry), c)
               else (None, removeAliasGroupLocked entry c))"

definition GetAndRefresh :: "time \<Rightarrow> string \<Rightarrow> session_cache \<Rightarrow> string option \<times> session_cache" where
  "GetAndRefresh now sessionID c =
     (if sessionID = [] then (None, c)
      else case mget (sc_entries c) sessionID of
             None \<Rightarrow> (None, c)
           | Some entry \<Rightarrow>
               if \<not> now < se_expiresAt entry then (None, removeAliasGroupLocked entry c)
               else
                 let aliases = compactSessionAliases (mergeSessionAliases [sessionID] (se_aliases entry))
                 in (Some (se_authID entry),
                     replaceAliasGroupsLocked (se_authID entry) (now + sc_ttl c) aliases [entry] c))"

text \<open>The loop of \<open>SetAliases\<close> over the given identifiers.\<close>

fun setAliases_loop ::
  "time \<Rightarrow> string list \<Rightarrow> string list \<Rightarrow> session_entry list \<Rightarrow> session_cache \<Rightarrow>
   string list \<times> session_entry list \<times> session_cache" where
  "setAliases_loop now [] aliases previousGroups c = (aliases, previousGroups, c)"
| "setAliases_loop now (sessionID # rest) aliases previousGroups c =
     (case mget (sc_entries c) sessionID of
        None \<Rightarrow> setAliases_loop now rest aliases previousGroups c
      | Some entry \<Rightarrow>
          if \<not> now < se_expiresAt entry
          then setAliases_loop now rest aliases previousGroups (removeAliasGroupLocked entry c)
          else setAliases_loop now rest (mergeSessionAliases aliases (se_aliases entry))
                 (previousGroups @ [entry]) c)"

definition SetAliases :: "time \<Rightarrow> string \<Rightarrow> string list \<Rightarrow> session_cache \<Rightarrow> session_cache" where
  "SetAliases now authID sessionIDs c =
     (if authID = [] then c
      else case setAliases_loop now sessionIDs (mergeSessionAliases [] sessionIDs) [] c of
             (aliases0, previousGroups, c1) \<Rightarrow>
               let aliases = compactSessionAliases aliases0
               in if aliases = [] then c1
                  else replaceAliasGroupsLocked authID (now + sc_ttl c1) aliases previousGroups c1)"

definition session_Set :: "time \<Rightarrow> string \<Rightarrow> string \<Rightarrow> session_cache \<Rightarrow> session_cache" where
  "session_Set now sessionID authID c = SetAliases now authID [sessionID] c"

definition invalidateAlias :: "string \<Rightarrow> session_entry \<Rightarrow> string \<Rightarrow> session_cache \<Rightarrow> session_cache" where
  "invalidateAlias sessionID entry alias c =
     (if alias = sessionID then c
      else case mget (sc_entries c) alias of
             None \<Rightarrow> c
           | Some current \<Rightarrow>
               if se_authID current \<noteq> se_authID entry then c
               else c\<lparr>sc_entries :=
                        mput alias (current\<lparr>se_aliases := filter (\<lambda>a. a \<noteq> sessionID) (se_aliases current)\<rparr>)
                          (sc_entries c)\<rparr>)"

definition Invalidate :: "string \<Rightarrow> session_cache \<Rightarrow> session_cache" where
  "Invalidate sessionID c =
     (if sessionID = [] then c
      else
        let c1 = c\<lparr>sc_entries := mdel sessionID (sc_entries c)\<rparr> in
        case mget (sc_entries c) sessionID of
          None \<Rightarrow> c1
        | Some entry \<Rightarrow> fold (invalidateAlias sessionID entry) (se_aliases entry) c1)"

definition InvalidateAuth :: "string \<Rightarrow> session_cache \<Rightarrow> session_cache" where
  "InvalidateAuth authID c =
     (if authID = [] then c
      else c\<lparr>sc_entries := filter (\<lambda>(sid, entry). se_authID entry \<noteq> authID) (sc_entries c)\<rparr>)"

definition cleanup :: "time \<Rightarrow> session_cache \<Rightarrow> session_cache" where
  "cleanup now c = c\<lparr>sc_entries := filter (\<lambda>(sid, entry). now < se_expiresAt entry) (sc_entries c)\<rparr>"

definition session_Stop :: "session_cache \<Rightarrow> session_cache" where
  "session_Stop c = c\<lparr>sc_stopped := True\<rparr>"

text \<open>All operations, for statements about every sequence of calls.\<close>

datatype session_op =
    SGet time time string
  | SGetAndRefresh time string
  | SSetAliases time string "string list"
  | SInvalidate string
  | SInvalidateAuth string
  | SCleanup time
  | SStop

fun session_step :: "session_op \<Rightarrow> session_cache \<Rightarrow> session_cache" where
  "session_step (SGet t1 t2 s) c = snd (session_Get t1 t2 s c)"
| "session_step (SGetAndRefresh t s) c = snd (GetAndRefresh t s c)"
| "session_step (SSetAliases t a ss) c = SetAliases t a ss c"
| "session_step (SInvalidate s) c = Invalidate s c"
| "session_step (SInvalidateAuth a) c = InvalidateAuth a c"
| "session_step (SCleanup t) c = cleanup t c"
| "session_step SStop c = session_Stop c"

text \<open>The identifiers a call names as bindings to be made.\<close>

fun op_sessions :: "session_op \<Rightarrow> string set" where
  "op_sessions (SSetAliases t a ss) = set ss"
| "op_sessions _ = {}"

section \<open>Alias lists\<close>

lemma equalSessionAliases_iff [simp]: "equalSessionAliases l r \<longleftrightarrow> l = r"
  unfolding equalSessionAliases_def list_all_iff set_upt by (auto intro: nth_equalityI)

lemma set_fold_addAlias: "set (fold addAlias cs xs) = set xs \<union> (set cs - {[]})"
  by (induction cs arbitrary: xs) (auto simp: addAlias_def)

lemma distinct_fold_addAlias: "distinct xs \<Longrightarrow> distinct (fold addAlias cs xs)"
  by (induction cs arbitrary: xs) (simp_all add: addAlias_def)

lemma set_merge: "set (mergeSessionAliases es cs) = set es \<union> set cs - {[]}"
  by (auto simp: mergeSessionAliases_def set_fold_addAlias)

lemma distinct_merge: "distinct (mergeSessionAliases es cs)"
  by (simp add: mergeSessionAliases_def distinct_fold_addAlias)

text \<open>An alias list that compaction leaves alone: at most 64 stable identifiers and at most one
  prompt cache key.\<close>

definition compacted :: "string list \<Rightarrow> bool" where
  "compacted as \<longleftrightarrow>
     length (filter (\<lambda>a. \<not> isLocalPromptCacheSessionAlias a) as) \<le> maxStableSessionAliases \<and>
     length (filter isLocalPromptCacheSessionAlias as) \<le> 1"

lemma compact_loop_subset: "set (compact_loop P h n as) \<subseteq> set as"
proof (induction as arbitrary: h n)
  case (Cons a as)
  from Cons [of True n] Cons [of h n] Cons [of h "n + 1"] show ?case by auto
qed simp

lemma compact_loop_distinct: "distinct as \<Longrightarrow> distinct (compact_loop P h n as)"
proof (induction as arbitrary: h n)
  case (Cons a as)
  have "a \<notin> set (compact_loop P i m as)" for i m
    using Cons.prems compact_loop_subset [of P i m as] by auto
  with Cons show ?case by simp
qed simp

lemma compact_loop_bound:
  "length (filter (\<lambda>a. \<not> P a) (compact_loop P h n as)) \<le> maxStableSessionAliases - n"
  "length (filter P (compact_loop P h n as)) \<le> (if h then 0 else 1)"
  by (induction P h n as rule: compact_loop.induct) (auto split: if_splits)

lemma compact_loop_id:
  "length (filter (\<lambda>a. \<not> P a) as) + n \<le> maxStableSessionAliases \<Longrightarrow>
   length (filter P as) \<le> (if h then 0 else 1) \<Longrightarrow> compact_loop P h n as = as"
  by (induction P h n as rule: compact_loop.induct) (auto split: if_splits)

lemma compacted_compact: "compacted (compactSessionAliases as)"
  using compact_loop_bound [of isLocalPromptCacheSessionAlias False 0 as]
  by (simp add: compacted_def compactSessionAliases_def compactSessionAliasesWith_def)

lemma compact_id: "compacted as \<Longrightarrow> compactSessionAliases as = as"
  using compact_loop_id [of isLocalPromptCacheSessionAlias as 0 False]
  by (simp add: compacted_def compactSessionAliases_def compactSessionAliasesWith_def)

lemma set_compact: "set (compactSessionAliases as) \<subseteq> set as"
  by (simp add: compactSessionAliases_def compactSessionAliasesWith_def compact_loop_subset)

lemma distinct_compact: "distinct as \<Longrightarrow> distinct (compactSessionAliases as)"
  by (simp add: compactSessionAliases_def compactSessionAliasesWith_def compact_loop_distinct)

lemma compacted_mset: "mset as = mset bs \<Longrightarrow> compacted as = compacted bs"
  unfolding compacted_def by (metis mset_filter size_mset)

lemma compacted_same_set: "set as = set bs \<Longrightarrow> distinct as \<Longrightarrow> distinct bs \<Longrightarrow> compacted as = compacted bs"
  by (rule compacted_mset) (simp add: set_eq_iff_mset_eq_distinct [symmetric])

section \<open>The copies of a group agree\<close>

definition entry_ok :: "session_entry \<Rightarrow> bool" where
  "entry_ok e \<longleftrightarrow> distinct (se_aliases e) \<and> [] \<notin> set (se_aliases e) \<and> compacted (se_aliases e) \<and> se_authID e \<noteq> []"

definition session_inv :: "session_cache \<Rightarrow> bool" where
  "session_inv c \<longleftrightarrow> wf_map (sc_entries c) \<and>
     (\<forall>s e. mget (sc_entries c) s = Some e \<longrightarrow>
        entry_ok e \<and> s \<in> set (se_aliases e) \<and> (\<forall>a \<in> set (se_aliases e). mget (sc_entries c) a = Some e))"

lemma session_invD:
  assumes "session_inv c" and "mget (sc_entries c) s = Some e"
  shows "entry_ok e" "s \<in> set (se_aliases e)" "a \<in> set (se_aliases e) \<Longrightarrow> mget (sc_entries c) a = Some e"
    "s \<noteq> []"
  using assms unfolding session_inv_def entry_ok_def by blast+

lemma removeAlias_eq:
  "removeAlias e a c =
     (if mget (sc_entries c) a = Some e then c\<lparr>sc_entries := mdel a (sc_entries c)\<rparr> else c)"
  by (cases e) (auto simp: removeAlias_def split: option.splits)

lemma fold_removeAlias:
  "mget (sc_entries (fold (removeAlias e) as c)) x =
     (if x \<in> set as \<and> mget (sc_entries c) x = Some e then None else mget (sc_entries c) x)"
  "wf_map (sc_entries c) \<Longrightarrow> wf_map (sc_entries (fold (removeAlias e) as c))"
  "sc_ttl (fold (removeAlias e) as c) = sc_ttl c"
  by (induction as arbitrary: c) (auto simp: removeAlias_eq)

lemma removeAliasGroup_mget:
  assumes "session_inv c" and "mget (sc_entries c) s = Some e"
  shows "mget (sc_entries (removeAliasGroupLocked e c)) x = (if x \<in> set (se_aliases e) then None else mget (sc_entries c) x)"
  using session_invD(3) [OF assms] by (auto simp: removeAliasGroupLocked_def fold_removeAlias)

text \<open>Removing a union of whole groups keeps the invariant.\<close>

lemma session_inv_restrict:
  assumes "session_inv c" and "wf_map (sc_entries d)"
    and "\<And>x. mget (sc_entries d) x = (if x \<in> X then None else mget (sc_entries c) x)"
    and "\<And>x e. mget (sc_entries c) x = Some e \<Longrightarrow> x \<in> X \<longleftrightarrow> (\<exists>a \<in> set (se_aliases e). a \<in> X)"
  shows "session_inv d"
  unfolding session_inv_def
proof (intro conjI allI impI)
  show "wf_map (sc_entries d)" by fact
  fix s e assume "mget (sc_entries d) s = Some e"
  then have s: "s \<notin> X" "mget (sc_entries c) s = Some e" using assms(3) [of s] by (auto split: if_splits)
  with assms(4) [OF s(2)] session_invD [OF assms(1) s(2)] assms(3)
  show "entry_ok e" "s \<in> set (se_aliases e)" "\<forall>a \<in> set (se_aliases e). mget (sc_entries d) a = Some e" by auto
qed

lemma group_eq:
  assumes "session_inv c" and "mget (sc_entries c) s = Some e" and "mget (sc_entries c) x = Some f"
    and "a \<in> set (se_aliases e)" and "a \<in> set (se_aliases f)"
  shows "e = f"
  using session_invD(3) [OF assms(1,2,4)] session_invD(3) [OF assms(1,3,5)] by simp

lemma inv_removeAliasGroup:
  assumes "session_inv c" and "mget (sc_entries c) s = Some e"
  shows "session_inv (removeAliasGroupLocked e c)"
proof (rule session_inv_restrict [OF assms(1), where X = "set (se_aliases e)"])
  show "wf_map (sc_entries (removeAliasGroupLocked e c))"
    using assms(1) by (simp add: removeAliasGroupLocked_def fold_removeAlias session_inv_def)
  show "mget (sc_entries (removeAliasGroupLocked e c)) x = (if x \<in> set (se_aliases e) then None else mget (sc_entries c) x)" for x
    by (rule removeAliasGroup_mget [OF assms])
  show "x \<in> set (se_aliases e) \<longleftrightarrow> (\<exists>a \<in> set (se_aliases f). a \<in> set (se_aliases e))"
    if "mget (sc_entries c) x = Some f" for x f
    using group_eq [OF assms that] session_invD(2) [OF assms(1) that] by blast
qed

lemma fold_removeGroups:
  assumes "\<And>e a. e \<in> set gs \<Longrightarrow> a \<in> set (se_aliases e) \<Longrightarrow> mget (sc_entries c) a \<in> {Some e, None}"
  shows "mget (sc_entries (fold removeAliasGroupLocked gs c)) x =
           (if \<exists>e \<in> set gs. x \<in> set (se_aliases e) then None else mget (sc_entries c) x)"
  using assms
proof (induction gs arbitrary: c)
  case (Cons g gs)
  let ?c = "removeAliasGroupLocked g c"
  have g: "mget (sc_entries ?c) a = (if a \<in> set (se_aliases g) then None else mget (sc_entries c) a)" for a
    using Cons.prems [of g a] by (auto simp: removeAliasGroupLocked_def fold_removeAlias)
  with Cons.prems have "mget (sc_entries ?c) a \<in> {Some e, None}" if "e \<in> set gs" "a \<in> set (se_aliases e)" for e a
    using that by auto
  from Cons.IH [OF this] g show ?case by auto
qed simp

lemma fold_removeGroups_wf:
  "wf_map (sc_entries c) \<Longrightarrow> wf_map (sc_entries (fold removeAliasGroupLocked gs c))"
  "sc_ttl (fold removeAliasGroupLocked gs c) = sc_ttl c"
  by (induction gs arbitrary: c) (auto simp: removeAliasGroupLocked_def fold_removeAlias)

lemma fold_put:
  "mget (sc_entries (fold (\<lambda>a c. c\<lparr>sc_entries := mput a e (sc_entries c)\<rparr>) as c)) x =
     (if x \<in> set as then Some e else mget (sc_entries c) x)"
  "wf_map (sc_entries c) \<Longrightarrow> wf_map (sc_entries (fold (\<lambda>a c. c\<lparr>sc_entries := mput a e (sc_entries c)\<rparr>) as c))"
  "sc_ttl (fold (\<lambda>a c. c\<lparr>sc_entries := mput a e (sc_entries c)\<rparr>) as c) = sc_ttl c"
  by (induction as arbitrary: c) auto

lemma replace_mget:
  assumes "session_inv c" and "\<And>e. e \<in> set gs \<Longrightarrow> \<exists>s. mget (sc_entries c) s = Some e"
  shows "mget (sc_entries (replaceAliasGroupsLocked authID t as gs c)) x =
           (if x \<in> set as then Some \<lparr>se_authID = authID, se_expiresAt = t, se_aliases = as\<rparr>
            else if \<exists>e \<in> set gs. x \<in> set (se_aliases e) then None else mget (sc_entries c) x)"
proof -
  have "mget (sc_entries c) a \<in> {Some e, None}" if "e \<in> set gs" "a \<in> set (se_aliases e)" for e a
    using assms(2) [OF that(1)] session_invD(3) [OF assms(1) _ that(2)] by auto
  from fold_removeGroups [OF this] show ?thesis
    by (simp add: replaceAliasGroupsLocked_def Let_def fold_put)
qed

lemma inv_replace:
  assumes inv: "session_inv c" and gs: "\<And>e. e \<in> set gs \<Longrightarrow> \<exists>s. mget (sc_entries c) s = Some e"
    and ok: "distinct as" "[] \<notin> set as" "compacted as" "authID \<noteq> []"
    and cov: "\<And>a e. a \<in> set as \<Longrightarrow> mget (sc_entries c) a = Some e \<Longrightarrow> e \<in> set gs"
  shows "session_inv (replaceAliasGroupsLocked authID t as gs c)"
  unfolding session_inv_def
proof (intro conjI allI impI)
  let ?d = "replaceAliasGroupsLocked authID t as gs c"
  let ?e = "\<lparr>se_authID = authID, se_expiresAt = t, se_aliases = as\<rparr>"
  have m: "mget (sc_entries ?d) x = (if x \<in> set as then Some ?e
      else if \<exists>e \<in> set gs. x \<in> set (se_aliases e) then None else mget (sc_entries c) x)" for x
    by (rule replace_mget [OF inv gs])
  show "wf_map (sc_entries ?d)"
    using inv by (simp add: replaceAliasGroupsLocked_def Let_def fold_put fold_removeGroups_wf session_inv_def)
  fix s e assume s: "mget (sc_entries ?d) s = Some e"
  show "entry_ok e" "s \<in> set (se_aliases e)" "\<forall>a \<in> set (se_aliases e). mget (sc_entries ?d) a = Some e"
  proof (atomize (full), cases "s \<in> set as")
    case True
    with s m have "e = ?e" by simp
    with True ok m show "entry_ok e \<and> s \<in> set (se_aliases e) \<and> (\<forall>a \<in> set (se_aliases e). mget (sc_entries ?d) a = Some e)"
      by (simp add: entry_ok_def)
  next
    case False
    with s m have c: "mget (sc_entries c) s = Some e" and ng: "\<forall>g \<in> set gs. s \<notin> set (se_aliases g)"
      by (auto split: if_splits)
    note e = session_invD [OF inv c]
    have "e \<notin> set gs" using ng e(2) by blast
    have "mget (sc_entries ?d) a = Some e" if a: "a \<in> set (se_aliases e)" for a
    proof -
      have "a \<notin> set as" using cov e(3) [OF a] \<open>e \<notin> set gs\<close> by blast
      moreover have "a \<notin> set (se_aliases g)" if g: "g \<in> set gs" for g
        using gs [OF g] group_eq [OF inv c _ a] \<open>e \<notin> set gs\<close> g by blast
      ultimately show ?thesis using m [of a] e(3) [OF a] by simp
    qed
    with e show "entry_ok e \<and> s \<in> set (se_aliases e) \<and> (\<forall>a \<in> set (se_aliases e). mget (sc_entries ?d) a = Some e)"
      by simp
  qed
qed

text \<open>What the loop of \<open>SetAliases\<close> leaves: the live groups of the given identifiers are
  collected, the expired ones are gone, and nothing else has changed.\<close>

definition loop_pre :: "time \<Rightarrow> string list \<Rightarrow> session_entry list \<Rightarrow> session_cache \<Rightarrow> bool" where
  "loop_pre now as gs c \<longleftrightarrow>
     session_inv c \<and> distinct as \<and> [] \<notin> set as \<and>
     (\<forall>e \<in> set gs. now < se_expiresAt e \<and> (\<exists>s. mget (sc_entries c) s = Some e) \<and> set (se_aliases e) \<subseteq> set as)"

definition touched :: "time \<Rightarrow> string list \<Rightarrow> session_entry \<Rightarrow> bool" where
  "touched now ids e \<longleftrightarrow> \<not> now < se_expiresAt e \<and> (\<exists>a \<in> set (se_aliases e). a \<in> set ids)"

definition loop_post where
  "loop_post now ids as gs c as' gs' c' \<longleftrightarrow>
     loop_pre now as' gs' c' \<and> sc_ttl c' = sc_ttl c \<and> set gs \<subseteq> set gs' \<and> set as \<subseteq> set as' \<and>
     set as' \<subseteq> set as \<union> (\<Union>e \<in> set gs'. set (se_aliases e)) \<and>
     (\<forall>s \<in> set ids. \<forall>e. mget (sc_entries c') s = Some e \<longrightarrow> e \<in> set gs') \<and>
     (\<forall>x. mget (sc_entries c') x =
        (case mget (sc_entries c) x of
           None \<Rightarrow> None
         | Some e \<Rightarrow> if touched now ids e then None else Some e))"

lemma loop_pre_remove:
  assumes pre: "loop_pre now as gs c" and b: "mget (sc_entries c) s = Some e" and x: "\<not> now < se_expiresAt e"
  shows "loop_pre now as gs (removeAliasGroupLocked e c)"
proof -
  have inv: "session_inv c" using pre by (simp add: loop_pre_def)
  have "\<exists>y. mget (sc_entries (removeAliasGroupLocked e c)) y = Some g" if g: "g \<in> set gs" for g
  proof -
    from pre g obtain y where y: "mget (sc_entries c) y = Some g" and "now < se_expiresAt g"
      by (auto simp: loop_pre_def)
    with x have "y \<notin> set (se_aliases e)" using session_invD(3) [OF inv b, of y] by auto
    with y removeAliasGroup_mget [OF inv b] show ?thesis by auto
  qed
  with pre inv_removeAliasGroup [OF inv b] show ?thesis by (auto simp: loop_pre_def)
qed

lemma loop_pre_live:
  assumes pre: "loop_pre now as gs c" and b: "mget (sc_entries c) s = Some e" and x: "now < se_expiresAt e"
  shows "loop_pre now (mergeSessionAliases as (se_aliases e)) (gs @ [e]) c"
proof -
  have "[] \<notin> set (se_aliases e)" using session_invD(1) [OF _ b] pre by (simp add: loop_pre_def entry_ok_def)
  with pre b x show ?thesis
    by (auto simp: loop_pre_def set_merge distinct_merge)
qed

lemma setAliases_loop_spec:
  "loop_pre now as gs c \<Longrightarrow> setAliases_loop now ids as gs c = (as', gs', c') \<Longrightarrow>
   loop_post now ids as gs c as' gs' c'"
proof (induction ids arbitrary: as gs c)
  case Nil
  then show ?case by (auto simp: loop_post_def touched_def split: option.splits)
next
  case (Cons i ids)
  have inv: "session_inv c" using Cons.prems(1) by (simp add: loop_pre_def)
  show ?case
  proof (cases "mget (sc_entries c) i")
    case None
    have "touched now (i # ids) e = touched now ids e" if "mget (sc_entries c) x = Some e" for x e
      using None session_invD(3) [OF inv that, of i] by (auto simp: touched_def)
    moreover have "loop_post now ids as gs c as' gs' c'"
      using Cons.IH [OF Cons.prems(1)] Cons.prems(2) None by simp
    ultimately show ?thesis
      using None by (auto simp: loop_post_def split: option.splits)
  next
    case (Some e)
    note e = session_invD [OF inv Some]
    show ?thesis
    proof (cases "now < se_expiresAt e")
      case False
      let ?c = "removeAliasGroupLocked e c"
      have post: "loop_post now ids as gs ?c as' gs' c'"
        using Cons.IH [OF loop_pre_remove [OF Cons.prems(1) Some False]] Cons.prems(2) Some False by simp
      have m: "mget (sc_entries c') x =
          (case mget (sc_entries c) x of None \<Rightarrow> None | Some f \<Rightarrow> if touched now (i # ids) f then None else Some f)" for x
      proof (cases "x \<in> set (se_aliases e)")
        case True
        have "touched now (i # ids) e" using False e(2) by (auto simp: touched_def)
        with True post e(3) [OF True] removeAliasGroup_mget [OF inv Some, of x] show ?thesis
          by (simp add: loop_post_def)
      next
        case nx: False
        have "touched now (i # ids) f = touched now ids f" if f: "mget (sc_entries c) x = Some f" for f
          using group_eq [OF inv Some f, of i] e(2) session_invD(2) [OF inv f] nx by (auto simp: touched_def)
        with nx post removeAliasGroup_mget [OF inv Some, of x] show ?thesis
          by (auto simp: loop_post_def split: option.splits)
      qed
      moreover have "mget (sc_entries c') i = None"
        using m [of i] Some False e(2) by (auto simp: touched_def)
      moreover have "sc_ttl ?c = sc_ttl c" by (simp add: removeAliasGroupLocked_def fold_removeAlias)
      ultimately show ?thesis using post by (simp add: loop_post_def)
    next
      case True
      let ?as = "mergeSessionAliases as (se_aliases e)"
      have post: "loop_post now ids ?as (gs @ [e]) c as' gs' c'"
        using Cons.IH [OF loop_pre_live [OF Cons.prems(1) Some True]] Cons.prems(2) Some True by simp
      have t: "touched now (i # ids) f = touched now ids f" if f: "mget (sc_entries c) x = Some f" for x f
        using group_eq [OF inv Some f, of i] e(2) True by (auto simp: touched_def)
      have "e \<in> set gs'" "set gs \<subseteq> set gs'" using post by (auto simp: loop_post_def)
      moreover have "\<not> touched now ids e" using True by (simp add: touched_def)
      then have "mget (sc_entries c') i = Some e" using post Some by (simp add: loop_post_def)
      moreover have "set as \<subseteq> set ?as" "set ?as \<subseteq> set as \<union> set (se_aliases e)"
        using Cons.prems(1) by (auto simp: set_merge loop_pre_def)
      ultimately show ?thesis using post t unfolding loop_post_def
        by (auto split: option.splits)
    qed
  qed
qed

section \<open>Every operation keeps the invariant\<close>

lemma SetAliases_cases:
  assumes "session_inv c" and "authID \<noteq> []"
  obtains as0 gs c1 where "loop_post now ids (mergeSessionAliases [] ids) [] c as0 gs c1"
    and "SetAliases now authID ids c =
          (if compactSessionAliases as0 = [] then c1
           else replaceAliasGroupsLocked authID (now + sc_ttl c) (compactSessionAliases as0) gs c1)"
proof -
  obtain as0 gs c1 where l: "setAliases_loop now ids (mergeSessionAliases [] ids) [] c = (as0, gs, c1)"
    by (metis prod_cases3)
  have "loop_pre now (mergeSessionAliases [] ids) [] c"
    using assms(1) by (simp add: loop_pre_def distinct_merge set_merge)
  from setAliases_loop_spec [OF this l] l assms(2) that show thesis
    by (auto simp: SetAliases_def Let_def loop_post_def)
qed

lemma loop_post_cover:
  assumes "loop_post now ids (mergeSessionAliases [] ids) [] c as0 gs c1"
    and "a \<in> set as0" and "mget (sc_entries c1) a = Some e"
  shows "e \<in> set gs"
proof -
  from assms(1) have inv: "session_inv c1" by (simp add: loop_post_def loop_pre_def)
  from assms(1,2) consider "a \<in> set ids" | g where "g \<in> set gs" "a \<in> set (se_aliases g)"
    by (auto simp: loop_post_def set_merge)
  then show ?thesis
  proof cases
    case 1
    with assms(1,3) show ?thesis by (auto simp: loop_post_def)
  next
    case 2
    with assms(1) obtain s where "mget (sc_entries c1) s = Some g" by (auto simp: loop_post_def loop_pre_def)
    from session_invD(3) [OF inv this 2(2)] assms(3) 2(1) show ?thesis by simp
  qed
qed

lemma loop_post_replace:
  assumes "loop_post now ids (mergeSessionAliases [] ids) [] c as0 gs c1" and "authID \<noteq> []"
  shows "session_inv (replaceAliasGroupsLocked authID t (compactSessionAliases as0) gs c1)"
proof (rule inv_replace)
  from assms(1) have pre: "loop_pre now as0 gs c1" by (simp add: loop_post_def)
  then show "session_inv c1" "distinct (compactSessionAliases as0)" "[] \<notin> set (compactSessionAliases as0)"
    "\<And>e. e \<in> set gs \<Longrightarrow> \<exists>s. mget (sc_entries c1) s = Some e"
    using set_compact [of as0] by (auto simp: loop_pre_def distinct_compact)
  show "e \<in> set gs" if "a \<in> set (compactSessionAliases as0)" "mget (sc_entries c1) a = Some e" for a e
    using loop_post_cover [OF assms(1) _ that(2)] that(1) set_compact by blast
qed (use assms in \<open>simp_all add: compacted_compact\<close>)

lemma inv_SetAliases: "session_inv c \<Longrightarrow> session_inv (SetAliases now authID ids c)"
proof (cases "authID = []")
  case False
  assume "session_inv c"
  from SetAliases_cases [OF this False] obtain as0 gs c1 where
    l: "loop_post now ids (mergeSessionAliases [] ids) [] c as0 gs c1"
    and s: "SetAliases now authID ids c =
          (if compactSessionAliases as0 = [] then c1
           else replaceAliasGroupsLocked authID (now + sc_ttl c) (compactSessionAliases as0) gs c1)" .
  from l have "session_inv c1" by (simp add: loop_post_def loop_pre_def)
  with loop_post_replace [OF l False] s show ?thesis by simp
qed (simp add: SetAliases_def)

text \<open>Refreshing renews the expiry of the whole group and keeps its identifiers.\<close>

lemma refresh_aliases:
  assumes "session_inv c" and "mget (sc_entries c) s = Some e"
  defines "as \<equiv> compactSessionAliases (mergeSessionAliases [s] (se_aliases e))"
  shows "set as = set (se_aliases e)" "distinct as" "compacted as"
proof -
  note e = session_invD [OF assms(1,2)]
  have st: "set (mergeSessionAliases [s] (se_aliases e)) = set (se_aliases e)"
    using e by (auto simp: set_merge entry_ok_def)
  then have "compacted (mergeSessionAliases [s] (se_aliases e))"
    using e(1) compacted_same_set [OF st] by (simp add: distinct_merge entry_ok_def)
  then have "as = mergeSessionAliases [s] (se_aliases e)" by (simp add: as_def compact_id)
  with st \<open>compacted (mergeSessionAliases [s] (se_aliases e))\<close>
  show "set as = set (se_aliases e)" "distinct as" "compacted as" by (simp_all add: distinct_merge)
qed

lemma GetAndRefresh_mget:
  assumes "session_inv c" and "mget (sc_entries c) s = Some e" and "now < se_expiresAt e"
  defines "as \<equiv> compactSessionAliases (mergeSessionAliases [s] (se_aliases e))"
  shows "mget (sc_entries (snd (GetAndRefresh now s c))) x =
     (if x \<in> set (se_aliases e)
      then Some \<lparr>se_authID = se_authID e, se_expiresAt = now + sc_ttl c, se_aliases = as\<rparr>
      else mget (sc_entries c) x)"
    and "session_inv (snd (GetAndRefresh now s c))"
proof -
  note r = refresh_aliases [OF assms(1,2), folded as_def]
  note e = session_invD [OF assms(1,2)]
  have g: "snd (GetAndRefresh now s c) = replaceAliasGroupsLocked (se_authID e) (now + sc_ttl c) as [e] c"
    using assms(2,3) e(4) by (simp add: GetAndRefresh_def Let_def as_def)
  show "mget (sc_entries (snd (GetAndRefresh now s c))) x =
     (if x \<in> set (se_aliases e)
      then Some \<lparr>se_authID = se_authID e, se_expiresAt = now + sc_ttl c, se_aliases = as\<rparr>
      else mget (sc_entries c) x)"
    unfolding g by (subst replace_mget [OF assms(1)]) (use assms(2) r(1) in auto)
  show "session_inv (snd (GetAndRefresh now s c))"
    unfolding g
  proof (rule inv_replace [OF assms(1)])
    show "f \<in> set [e]" if "a \<in> set as" "mget (sc_entries c) a = Some f" for a f
      using that e(3) r(1) by simp
  qed (use r e assms(2) in \<open>auto simp: entry_ok_def\<close>)
qed

lemma fold_invalidateAlias:
  assumes "\<forall>a \<in> set as. a \<noteq> s \<longrightarrow> mget (sc_entries d) a = Some e" and "distinct as"
  shows "mget (sc_entries (fold (invalidateAlias s e) as d)) x =
     (if x \<in> set as \<and> x \<noteq> s then Some (e\<lparr>se_aliases := filter (\<lambda>a. a \<noteq> s) (se_aliases e)\<rparr>)
      else mget (sc_entries d) x)"
  using assms
proof (induction as arbitrary: d)
  case (Cons a as)
  let ?d = "invalidateAlias s e a d"
  have d: "mget (sc_entries ?d) x = (if x = a \<and> x \<noteq> s
      then Some (e\<lparr>se_aliases := filter (\<lambda>a. a \<noteq> s) (se_aliases e)\<rparr>) else mget (sc_entries d) x)" for x
    using Cons.prems(1) by (auto simp: invalidateAlias_def)
  then have "\<forall>b \<in> set as. b \<noteq> s \<longrightarrow> mget (sc_entries ?d) b = Some e"
    using Cons.prems by auto
  from Cons.IH [OF this] Cons.prems(2) d show ?case by auto
qed simp

lemma fold_invalidateAlias_wf:
  "wf_map (sc_entries d) \<Longrightarrow> wf_map (sc_entries (fold (invalidateAlias s e) as d))"
  by (induction as arbitrary: d) (auto simp: invalidateAlias_def split: option.splits)

lemma Invalidate_mget:
  assumes "session_inv c"
  shows "mget (sc_entries (Invalidate s c)) x =
     (if x = s then None
      else case mget (sc_entries c) x of
             None \<Rightarrow> None
           | Some e \<Rightarrow> if s \<in> set (se_aliases e) then Some (e\<lparr>se_aliases := filter (\<lambda>a. a \<noteq> s) (se_aliases e)\<rparr>)
                       else Some e)"
proof (cases "mget (sc_entries c) s")
  case None
  have "s \<notin> set (se_aliases e)" if "mget (sc_entries c) x = Some e" for e
    using session_invD(3) [OF assms that, of s] None by auto
  with None show ?thesis by (cases "mget (sc_entries c) x") (auto simp: Invalidate_def Let_def)
next
  case (Some e)
  note e = session_invD [OF assms Some]
  let ?e = "e\<lparr>se_aliases := filter (\<lambda>a. a \<noteq> s) (se_aliases e)\<rparr>"
  have m: "mget (sc_entries (Invalidate s c)) x =
     (if x \<in> set (se_aliases e) \<and> x \<noteq> s then Some ?e
      else if x = s then None else mget (sc_entries c) x)"
    using Some e fold_invalidateAlias [of "se_aliases e" s "c\<lparr>sc_entries := mdel s (sc_entries c)\<rparr>" e x]
    by (simp add: Invalidate_def Let_def entry_ok_def)
  show ?thesis
  proof (cases "x \<in> set (se_aliases e)")
    case True
    with m e(2) e(3) [OF True] show ?thesis by simp
  next
    case False
    have "s \<notin> set (se_aliases f)" if f: "mget (sc_entries c) x = Some f" for f
      using session_invD(2) [OF assms f] session_invD(3) [OF assms f, of s] Some False by auto
    with m False show ?thesis by (cases "mget (sc_entries c) x") auto
  qed
qed

lemma inv_Invalidate:
  assumes inv: "session_inv c"
  shows "session_inv (Invalidate s c)"
  unfolding session_inv_def
proof (intro conjI allI impI)
  have "wf_map (sc_entries c)" using inv by (simp add: session_inv_def)
  then show "wf_map (sc_entries (Invalidate s c))"
    by (auto simp: Invalidate_def Let_def fold_invalidateAlias_wf split: option.splits)
  fix x e assume x: "mget (sc_entries (Invalidate s c)) x = Some e"
  note m = Invalidate_mget [OF inv, of s]
  from x m [of x] obtain f where xs: "x \<noteq> s" and f: "mget (sc_entries c) x = Some f"
    and e: "e = (if s \<in> set (se_aliases f) then f\<lparr>se_aliases := filter (\<lambda>a. a \<noteq> s) (se_aliases f)\<rparr> else f)"
    by (auto split: if_splits option.splits)
  note fi = session_invD [OF inv f]
  have al: "set (se_aliases e) = set (se_aliases f) - {s}" and id: "se_authID e = se_authID f"
    by (auto simp: e)
  have "compacted (filter P as)" if "compacted as" for P as
  proof -
    have "filter Q (filter P as) = filter P (filter Q as)" for Q
      by (simp add: conj_commute)
    then have "length (filter Q (filter P as)) \<le> length (filter Q as)" for Q
      by (metis length_filter_le)
    with that show ?thesis unfolding compacted_def by (meson order_trans)
  qed
  with fi(1) show "entry_ok e" by (auto simp: entry_ok_def e)
  show "x \<in> set (se_aliases e)" using fi(2) xs al by simp
  show "\<forall>a \<in> set (se_aliases e). mget (sc_entries (Invalidate s c)) a = Some e"
    using al m fi(3) by (simp add: e)
qed

lemma inv_filter:
  assumes inv: "session_inv c" and P: "\<And>s t e. P (s, e) = P (t, e)"
  shows "session_inv (c\<lparr>sc_entries := filter P (sc_entries c)\<rparr>)"
proof -
  have wf: "wf_map (sc_entries c)" using inv by (simp add: session_inv_def)
  let ?d = "c\<lparr>sc_entries := filter P (sc_entries c)\<rparr>"
  have m: "mget (sc_entries ?d) x = Some e \<longleftrightarrow> mget (sc_entries c) x = Some e \<and> P (x, e)" for x e
    using mget_filter [OF wf, of P x] by simp
  show ?thesis
    unfolding session_inv_def
  proof (intro conjI allI impI)
    show "wf_map (sc_entries ?d)" using wf by (simp add: distinct_map_filter)
    fix s e assume "mget (sc_entries ?d) s = Some e"
    then have s: "mget (sc_entries c) s = Some e" "P (s, e)" by (simp_all only: m)
    note e = session_invD [OF inv s(1)]
    show "entry_ok e" "s \<in> set (se_aliases e)" by (rule e)+
    show "\<forall>a \<in> set (se_aliases e). mget (sc_entries ?d) a = Some e"
      unfolding m using e(3) s(2) P by blast
  qed
qed

lemma inv_session_Get: "session_inv c \<Longrightarrow> session_inv (snd (session_Get t1 t2 s c))"
  by (cases "mget (sc_entries c) s") (simp_all add: session_Get_def inv_removeAliasGroup)

lemma inv_GetAndRefresh:
  assumes inv: "session_inv c"
  shows "session_inv (snd (GetAndRefresh t s c))"
proof (cases "mget (sc_entries c) s")
  case None
  then show ?thesis using inv by (simp add: GetAndRefresh_def)
next
  case (Some e)
  show ?thesis
  proof (cases "t < se_expiresAt e")
    case True
    then show ?thesis by (rule GetAndRefresh_mget(2) [OF inv Some])
  next
    case False
    with Some inv inv_removeAliasGroup [OF inv Some] show ?thesis by (simp add: GetAndRefresh_def)
  qed
qed

lemma inv_InvalidateAuth: "session_inv c \<Longrightarrow> session_inv (InvalidateAuth a c)"
  unfolding InvalidateAuth_def by (simp add: inv_filter)

lemma inv_cleanup: "session_inv c \<Longrightarrow> session_inv (cleanup t c)"
  unfolding cleanup_def by (simp add: inv_filter)

lemma inv_Stop: "session_inv (session_Stop c) = session_inv c"
  by (simp add: session_inv_def session_Stop_def)

lemma inv_session_step: "session_inv c \<Longrightarrow> session_inv (session_step p c)"
  by (cases p)
     (simp_all add: inv_SetAliases inv_Invalidate inv_session_Get inv_GetAndRefresh inv_InvalidateAuth
       inv_cleanup inv_Stop)

lemma inv_run: "session_inv c \<Longrightarrow> session_inv (fold session_step ops c)"
  by (induction ops arbitrary: c) (simp_all add: inv_session_step)

lemma inv_New: "session_inv (NewSessionCache ttl)"
  by (simp add: session_inv_def NewSessionCache_def)

section \<open>Properties\<close>

text \<open>C38: after any sequence of calls every identifier of a session group carries the same binding:
  all of them answer with the same auth and expire together, and a group has at most 64 stable
  identifiers and one prompt cache key.\<close>

theorem session_groups_coherent:
  assumes "c = fold session_step ops (NewSessionCache ttl)" and "mget (sc_entries c) s = Some e"
  shows "s \<in> set (se_aliases e) \<and> (\<forall>a \<in> set (se_aliases e). mget (sc_entries c) a = Some e) \<and>
         length (filter (\<lambda>a. \<not> isLocalPromptCacheSessionAlias a) (se_aliases e)) \<le> maxStableSessionAliases \<and>
         length (filter isLocalPromptCacheSessionAlias (se_aliases e)) \<le> 1"
proof -
  have inv: "session_inv c" unfolding assms(1) by (rule inv_run [OF inv_New])
  from session_invD [OF inv assms(2)] show ?thesis
    by (simp add: entry_ok_def compacted_def)
qed

theorem session_groups_coherent_witness:
  "mget (sc_entries (SetAliases 5 ''auth1'' [''s1'', ''s2''] (NewSessionCache 100))) ''s2'' =
     Some \<lparr>se_authID = ''auth1'', se_expiresAt = 105, se_aliases = [''s1'', ''s2'']\<rparr>"
proof -
  let ?c = "fold session_step [SSetAliases 5 ''auth1'' [''s1'', ''s2'']] (NewSessionCache 100)"
  let ?e = "\<lparr>se_authID = ''auth1'', se_expiresAt = 105, se_aliases = [''s1'', ''s2'']\<rparr>"
  have "mget (sc_entries ?c) ''s1'' = Some ?e" by code_simp
  from session_groups_coherent [OF refl this] show ?thesis by simp
qed

lemma session_Get_fst:
  "t \<le> t' \<Longrightarrow> s \<noteq> [] \<Longrightarrow>
   fst (session_Get t t' s c) =
     (case mget (sc_entries c) s of None \<Rightarrow> None | Some e \<Rightarrow> if t < se_expiresAt e then Some (se_authID e) else None)"
  by (auto simp: session_Get_def split: option.splits)

text \<open>Refreshing a session through one identifier renews it for all: until the new time to live
  has passed every identifier of the group answers with the same auth, and no other session is
  affected.\<close>

theorem refresh_extends_group:
  assumes "session_inv c" and "mget (sc_entries c) s = Some e" and "now < se_expiresAt e"
    and "t \<le> t'"
  shows "fst (GetAndRefresh now s c) = Some (se_authID e) \<and>
         (a \<in> set (se_aliases e) \<longrightarrow> t < now + sc_ttl c \<longrightarrow>
            fst (session_Get t t' a (snd (GetAndRefresh now s c))) = Some (se_authID e)) \<and>
         (a \<notin> set (se_aliases e) \<longrightarrow>
            fst (session_Get t t' a (snd (GetAndRefresh now s c))) = fst (session_Get t t' a c))"
proof -
  note e = session_invD [OF assms(1,2)]
  note m = GetAndRefresh_mget(1) [OF assms(1-3), of a]
  have "fst (GetAndRefresh now s c) = Some (se_authID e)"
    using assms(2,3) e(4) by (simp add: GetAndRefresh_def)
  moreover have "a \<noteq> []" if "a \<in> set (se_aliases e)" using e(1) that by (auto simp: entry_ok_def)
  moreover have "fst (session_Get t t' [] d) = None" for d by (simp add: session_Get_def)
  ultimately show ?thesis using m assms(4)
    by (cases "a = []") (auto simp: session_Get_fst)
qed

theorem refresh_extends_group_witness:
  "fst (session_Get 140 140 ''s2''
     (snd (GetAndRefresh 50 ''s1'' (SetAliases 5 ''auth1'' [''s1'', ''s2''] (NewSessionCache 100))))) = Some ''auth1''"
proof -
  let ?c = "SetAliases 5 ''auth1'' [''s1'', ''s2''] (NewSessionCache 100)"
  let ?e = "\<lparr>se_authID = ''auth1'', se_expiresAt = 105, se_aliases = [''s1'', ''s2'']\<rparr>"
  have "mget (sc_entries ?c) ''s1'' = Some ?e" and ttl: "sc_ttl ?c = 100" by code_simp+
  with refresh_extends_group [of ?c "''s1''" ?e 50 140 140 "''s2''"] inv_SetAliases [OF inv_New] show ?thesis by simp
qed

lemma SetAliases_unbound:
  assumes inv: "session_inv c" and n: "mget (sc_entries c) s = None" and s: "s \<notin> set ids"
  shows "mget (sc_entries (SetAliases now authID ids c)) s = None"
proof (cases "authID = []")
  case False
  from SetAliases_cases [OF inv False] obtain as0 gs c1 where
    l: "loop_post now ids (mergeSessionAliases [] ids) [] c as0 gs c1"
    and r: "SetAliases now authID ids c =
          (if compactSessionAliases as0 = [] then c1
           else replaceAliasGroupsLocked authID (now + sc_ttl c) (compactSessionAliases as0) gs c1)" .
  have c1: "mget (sc_entries c1) s = None" using l n by (simp add: loop_post_def)
  have pre: "loop_pre now as0 gs c1" using l by (simp add: loop_post_def)
  then have inv1: "session_inv c1" and b: "\<And>g. g \<in> set gs \<Longrightarrow> \<exists>x. mget (sc_entries c1) x = Some g"
    by (auto simp: loop_pre_def)
  have "s \<notin> set (se_aliases g)" if "g \<in> set gs" for g
    using b [OF that] session_invD(3) [OF inv1, of _ g s] c1 by fastforce
  with l s have "s \<notin> set as0" by (auto simp: loop_post_def set_merge)
  then have "s \<notin> set (compactSessionAliases as0)" using set_compact by blast
  moreover have "mget (sc_entries (replaceAliasGroupsLocked authID t as gs c1)) s =
      (if s \<in> set as then Some \<lparr>se_authID = authID, se_expiresAt = t, se_aliases = as\<rparr>
       else if \<exists>e \<in> set gs. s \<in> set (se_aliases e) then None else mget (sc_entries c1) s)" for t as
    by (rule replace_mget [OF inv1 b])
  ultimately show ?thesis using r c1 by simp
qed (simp add: SetAliases_def n)

lemma step_unbound:
  assumes inv: "session_inv c" and n: "mget (sc_entries c) s = None" and s: "s \<notin> op_sessions p"
  shows "mget (sc_entries (session_step p c)) s = None"
proof -
  have rm: "mget (sc_entries (removeAliasGroupLocked e c)) s = None" for e
    using n by (simp add: removeAliasGroupLocked_def fold_removeAlias)
  have flt: "mget (filter P (sc_entries c)) s = None" for P
    using n by (auto simp: map_of_eq_None_iff)
  show ?thesis
  proof (cases p)
    case (SGetAndRefresh t x)
    show ?thesis
    proof (cases "mget (sc_entries c) x")
      case (Some e)
      then have "s \<notin> set (se_aliases e)" using n session_invD(3) [OF inv Some, of s] by auto
      with Some SGetAndRefresh n rm GetAndRefresh_mget(1) [OF inv Some, of t s] show ?thesis
        by (cases "t < se_expiresAt e") (simp_all add: GetAndRefresh_def)
    qed (use SGetAndRefresh n in \<open>simp add: GetAndRefresh_def\<close>)
  next
    case (SGet t1 t2 x)
    then show ?thesis using n rm by (cases "mget (sc_entries c) x") (simp_all add: session_Get_def)
  next
    case (SSetAliases t a ids)
    then show ?thesis using SetAliases_unbound [OF inv n] s by simp
  next
    case (SInvalidate x)
    then show ?thesis using Invalidate_mget [OF inv, of x s] n by simp
  next
    case (SInvalidateAuth a)
    then show ?thesis using n flt by (simp add: InvalidateAuth_def)
  next
    case (SCleanup t)
    then show ?thesis using flt by (simp add: cleanup_def)
  qed (use n in \<open>simp add: session_Stop_def\<close>)
qed

lemma run_unbound:
  "session_inv c \<Longrightarrow> mget (sc_entries c) s = None \<Longrightarrow> \<forall>p \<in> set ops. s \<notin> op_sessions p \<Longrightarrow>
   mget (sc_entries (fold session_step ops c)) s = None"
  by (induction ops arbitrary: c) (simp_all add: inv_session_step step_unbound)

text \<open>an invalidated identifier stays unbound until a call names it again; refreshing, extending
  or moving the rest of its group does not bring it back.\<close>

theorem invalidated_stays_unbound:
  assumes "c = fold session_step before (NewSessionCache ttl)" and "s \<noteq> []"
    and "\<forall>p \<in> set ops. s \<notin> op_sessions p"
  shows "fst (session_Get t t' s (fold session_step ops (Invalidate s c))) = None"
proof -
  have inv: "session_inv c" unfolding assms(1) by (rule inv_run [OF inv_New])
  have "mget (sc_entries (Invalidate s c)) s = None" by (simp add: Invalidate_mget [OF inv])
  from run_unbound [OF inv_Invalidate [OF inv] this assms(3)] show ?thesis
    by (simp add: session_Get_def)
qed

theorem invalidated_stays_unbound_witness:
  "fst (session_Get 30 30 ''s2'' (fold session_step [SGetAndRefresh 10 ''s1'']
     (Invalidate ''s2'' (SetAliases 5 ''auth1'' [''s1'', ''s2''] (NewSessionCache 100))))) = None"
  using invalidated_stays_unbound [of _ "[SSetAliases 5 ''auth1'' [''s1'', ''s2'']]" 100 "''s2''"
      "[SGetAndRefresh 10 ''s1'']"] by simp

lemma fold_addAlias_prefix: "\<exists>ys. fold addAlias cs xs = xs @ ys"
proof (induction cs arbitrary: xs)
  case (Cons a cs)
  from Cons [of "addAlias a xs"] show ?case by (auto simp: addAlias_def split: if_splits)
qed simp

lemma fold_addAlias_id: "distinct xs \<Longrightarrow> [] \<notin> set xs \<Longrightarrow> set ys \<inter> set xs = {} \<Longrightarrow> fold addAlias xs ys = ys @ xs"
  by (induction xs arbitrary: ys) (auto simp: addAlias_def)

lemma merge_prefix:
  assumes "distinct as" and "[] \<notin> set as"
  shows "\<exists>ys. mergeSessionAliases as bs = as @ ys"
  using fold_addAlias_prefix [of bs as] fold_addAlias_id [OF assms, of "[]"]
  by (simp add: mergeSessionAliases_def)

lemma compact_loop_append:
  "set (compact_loop P h n as) \<subseteq> set (compact_loop P h n (as @ bs))"
proof (induction as arbitrary: h n)
  case (Cons a as)
  from Cons [of True n] Cons [of h n] Cons [of h "n + 1"] show ?case by auto
qed simp

lemma loop_prefix:
  "distinct as \<Longrightarrow> [] \<notin> set as \<Longrightarrow> setAliases_loop now ids as gs c = (as', gs', c') \<Longrightarrow> \<exists>ys. as' = as @ ys"
proof (induction ids arbitrary: as gs c)
  case (Cons i ids)
  have m: "distinct (mergeSessionAliases as bs)" "[] \<notin> set (mergeSessionAliases as bs)" for bs
    by (simp_all add: distinct_merge set_merge)
  show ?case
  proof (cases "mget (sc_entries c) i")
    case None
    with Cons show ?thesis by simp
  next
    case (Some e)
    obtain zs where zs: "mergeSessionAliases as (se_aliases e) = as @ zs"
      using merge_prefix [OF Cons.prems(1,2)] by blast
    from Cons.IH [OF m] Cons.IH [OF Cons.prems(1,2)] Cons.prems(3) Some zs show ?thesis
      by (auto split: if_splits) (metis append.assoc)
  qed
qed simp

lemma SetAliases_mget:
  assumes "session_inv c" and "authID \<noteq> []"
    and "s \<in> set (compactSessionAliases (mergeSessionAliases [] ids))"
  obtains as where "s \<noteq> []"
    and "mget (sc_entries (SetAliases now authID ids c)) s =
      Some \<lparr>se_authID = authID, se_expiresAt = now + sc_ttl c, se_aliases = as\<rparr>"
proof -
  obtain as0 gs c1 where l: "setAliases_loop now ids (mergeSessionAliases [] ids) [] c = (as0, gs, c1)"
    by (metis prod_cases3)
  have pre: "loop_pre now (mergeSessionAliases [] ids) [] c"
    using assms(1) by (simp add: loop_pre_def distinct_merge set_merge)
  from loop_prefix [OF _ _ l] obtain ys where as0: "as0 = mergeSessionAliases [] ids @ ys"
    by (auto simp: distinct_merge set_merge)
  with assms(3) have s: "s \<in> set (compactSessionAliases as0)"
    using compact_loop_append [of isLocalPromptCacheSessionAlias False 0 "mergeSessionAliases [] ids" ys]
    by (auto simp: compactSessionAliases_def compactSessionAliasesWith_def)
  have post: "loop_pre now as0 gs c1" "sc_ttl c1 = sc_ttl c"
    using setAliases_loop_spec [OF pre l] by (simp_all add: loop_post_def)
  then have inv1: "session_inv c1" and b: "\<And>g. g \<in> set gs \<Longrightarrow> \<exists>x. mget (sc_entries c1) x = Some g"
    by (auto simp: loop_pre_def)
  have "SetAliases now authID ids c =
      replaceAliasGroupsLocked authID (now + sc_ttl c) (compactSessionAliases as0) gs c1"
    using l s assms(2) post(2) by (auto simp: SetAliases_def Let_def)
  moreover have "mget (sc_entries (replaceAliasGroupsLocked authID t as gs c1)) s =
      (if s \<in> set as then Some \<lparr>se_authID = authID, se_expiresAt = t, se_aliases = as\<rparr>
       else if \<exists>e \<in> set gs. s \<in> set (se_aliases e) then None else mget (sc_entries c1) s)" for t as
    by (rule replace_mget [OF inv1 b])
  moreover have "s \<noteq> []" using s set_compact [of as0] post(1) by (auto simp: loop_pre_def)
  ultimately show thesis using s that by simp
qed

text \<open>The first identifier of a call is always kept.\<close>

lemma first_alias_kept:
  assumes "s \<noteq> []"
  shows "s \<in> set (compactSessionAliases (mergeSessionAliases [] (s # ids)))"
proof -
  have "fold addAlias (s # ids) [] = fold addAlias ids [s]" using assms by (simp add: addAlias_def)
  then obtain ys where "mergeSessionAliases [] (s # ids) = s # ys"
    using fold_addAlias_prefix [of ids "[s]"] by (auto simp: mergeSessionAliases_def)
  then show ?thesis
    by (simp add: compactSessionAliases_def compactSessionAliasesWith_def maxStableSessionAliases_def)
qed

lemma ttl_removeGroup [simp]: "sc_ttl (removeAliasGroupLocked e c) = sc_ttl c"
  by (simp add: removeAliasGroupLocked_def fold_removeAlias)

lemma ttl_replace [simp]: "sc_ttl (replaceAliasGroupsLocked a t as gs c) = sc_ttl c"
proof -
  have "sc_ttl (fold removeAliasGroupLocked gs c) = sc_ttl c" for c by (induction gs arbitrary: c) auto
  moreover have "sc_ttl (fold (\<lambda>alias c. c\<lparr>sc_entries := mput alias e (sc_entries c)\<rparr>) as c) = sc_ttl c" for e and c :: session_cache
    by (induction as arbitrary: c) auto
  ultimately show ?thesis by (simp add: replaceAliasGroupsLocked_def Let_def)
qed

lemma ttl_loop: "sc_ttl (snd (snd (setAliases_loop now ids as gs c))) = sc_ttl c"
  by (induction now ids as gs c rule: setAliases_loop.induct) (auto split: option.splits)

lemma ttl_ops [simp]:
  "sc_ttl (SetAliases now a ids c) = sc_ttl c" "sc_ttl (snd (GetAndRefresh now s c)) = sc_ttl c"
  "sc_ttl (snd (session_Get t t' s c)) = sc_ttl c"
  using ttl_loop [of now ids "mergeSessionAliases [] ids" "[]" c]
  by (auto simp: SetAliases_def GetAndRefresh_def session_Get_def Let_def split: prod.splits option.splits)

text \<open>Binding a session is seen by the next lookup: an identifier that the call names, if it is
  within the 64 stable ones and the first prompt cache key of the call, answers with the auth it was
  given until the time to live has passed.\<close>

theorem SetAliases_then_Get:
  assumes "session_inv c" and "authID \<noteq> []"
    and "s \<in> set (compactSessionAliases (mergeSessionAliases [] ids))"
    and "t \<le> t'" and "t < now + sc_ttl c"
  shows "fst (session_Get t t' s (SetAliases now authID ids c)) = Some authID"
proof -
  obtain as where "s \<noteq> []" "mget (sc_entries (SetAliases now authID ids c)) s =
      Some \<lparr>se_authID = authID, se_expiresAt = now + sc_ttl c, se_aliases = as\<rparr>"
    using SetAliases_mget [OF assms(1-3)] by blast
  with assms(4,5) show ?thesis by (simp add: session_Get_fst)
qed

theorem SetAliases_then_Get_witness:
  "fst (session_Get 40 40 ''s2'' (SetAliases 5 ''auth1'' [''s1'', ''s2''] (NewSessionCache 100))) = Some ''auth1''"
proof -
  have "''s2'' \<in> set (compactSessionAliases (mergeSessionAliases [] [''s1'', ''s2'']))" by code_simp
  with SetAliases_then_Get [OF inv_New, of "''auth1''" "''s2''" "[''s1'', ''s2'']" 40 40 5 100] show ?thesis
    by (simp add: NewSessionCache_def)
qed

end
