(* ===== verification/Execution_Registry.thy ===== *)
theory Execution_Registry
  imports Go_Prelude
begin

text \<open>
  The registry of dispatched executions of \<^verbatim>\<open>sdk/cliproxy/executionregistry\<close>
  (\<^verbatim>\<open>registry.go\<close>, \<^verbatim>\<open>observation.go\<close>): a dispatch is reserved, installed as a scope, bound to a
  resource and ended; ends of accounted scopes advance a cumulative release sequence per group;
  a barrier is published once all dispatches that were pending when it was observed are resolved;
  draining rejects new work and waits until nothing is left.

  Every critical section of the code is one definition on the registry state, and \<open>er_step\<close> is the
  step relation whose steps are these critical sections and the effects between them (closing a
  resource, calling the release sink), so a path is an interleaving of concurrent calls. A
  \<open>PendingDispatch\<close> is its id, with its \<open>once\<close> in \<open>er_once\<close>. A \<open>Scope\<close> is an object of the store
  \<open>er_objs\<close>; \<open>so_end\<close> is how far its \<open>EndWithRelease\<close> has come. The channel \<open>changed\<close> only wakes
  waiters, which re-check their condition: a wait is the guard of the step after it.

  The counters (\<open>next\<close>, release sequences, revisions) are 64 bits wide and advance by one per
  call; they are natural numbers here, so a lifetime of fewer than \<open>2\<^sup>6\<^sup>3\<close> calls is covered.
\<close>

section \<open>Model\<close>

datatype registry_state = StateAccepting | StateDraining | StateClosed

datatype registry_error =
    ErrRegistryNotAccepting
  | ErrRegistryClosed
  | ErrInvalidPendingDispatch
  | ErrInvalidExecutionResource
  | ErrExecutionResourceAlreadyBound

record scope_spec =
  RequestID :: string
  CredentialID :: string
  Model :: string
  Kind :: string
  StartedAt :: time
  Accounted :: bool

record release_group =
  rg_CredentialID :: string
  rg_Model :: string

text \<open>The call of \<open>EndWithRelease\<close> that \<open>sync.Once\<close> lets through: not begun, waiting for the
  resource, resource closed, released with the sink and sequence it will report, reported, done.\<close>

datatype end_phase =
    NotEnded
  | EndWaiting
  | EndClosed
  | EndMarked "nat option" release_group nat
  | EndReported
  | EndDone

text \<open>The resource: \<open>closeFn\<close>, then \<open>closeDone\<close> open while the function runs, then closed.\<close>

datatype close_done = NoCloseDone | CloseRunning nat | CloseFinished nat

record scope_obj =
  so_spec :: scope_spec
  so_closeFn :: "nat option"
  so_closeDone :: close_done
  so_active :: bool
  so_end :: end_phase

record exec_registry =
  er_state :: registry_state
  er_next :: nat
  snapshotRevision :: nat
  observedBarrier :: int
  pendingBarrierSequence :: nat
  publishedBarrier :: int
  er_pending :: "nat list"
  er_once :: "nat list"
  er_scopes :: "nat list"
  er_objs :: "(nat, scope_obj) gomap"
  releaseSequences :: "(release_group, nat) gomap"
  releaseSink :: "nat option"
  sink_calls :: "(nat \<times> release_group \<times> nat) list"
  sink_log :: "(nat \<times> release_group \<times> nat) list"
  close_log :: "nat list"
  er_drained :: bool
  closeStarted :: bool

text \<open>\<open>sink_calls\<close> are the calls that \<open>SetReleaseSink\<close> still has to make; \<open>sink_log\<close>,
  \<open>close_log\<close> and \<open>er_drained\<close> record what the outside has seen: sink calls, executed close
  functions, and whether a \<open>Drain\<close> has returned without error.\<close>

definition New_registry :: exec_registry where
  "New_registry =
     \<lparr>er_state = StateAccepting, er_next = 0, snapshotRevision = 0, observedBarrier = 0,
      pendingBarrierSequence = 0, publishedBarrier = 0, er_pending = [], er_once = [],
      er_scopes = [], er_objs = [], releaseSequences = [], releaseSink = None, sink_calls = [],
      sink_log = [], close_log = [], er_drained = False,
      closeStarted = False\<rparr>"

subsection \<open>Dispatches\<close>

definition BeginDispatch :: "exec_registry \<Rightarrow> (registry_error + nat) \<times> exec_registry" where
  "BeginDispatch r =
     (if er_state r \<noteq> StateAccepting then (Inl ErrRegistryNotAccepting, r)
      else let i = er_next r + 1
           in (Inr i, r\<lparr>er_next := i, er_pending := er_pending r @ [i]\<rparr>))"

definition WaitPending_ready :: "exec_registry \<Rightarrow> bool" where
  "WaitPending_ready r \<longleftrightarrow> er_pending r = []"

definition PendingDispatch_End :: "nat \<Rightarrow> exec_registry \<Rightarrow> exec_registry" where
  "PendingDispatch_End i r =
     (if i \<in> set (er_once r) then r
      else r\<lparr>er_once := i # er_once r, er_pending := removeAll i (er_pending r)\<rparr>)"

definition Install :: "nat \<Rightarrow> scope_spec \<Rightarrow> exec_registry \<Rightarrow> (registry_error + nat) \<times> exec_registry" where
  "Install i spec r =
     (if er_state r \<noteq> StateAccepting
      then (Inl ErrRegistryNotAccepting,
            r\<lparr>er_once := i # er_once r, er_pending := removeAll i (er_pending r)\<rparr>)
      else if i \<notin> set (er_pending r) then (Inl ErrInvalidPendingDispatch, r)
      else
        let scope = \<lparr>so_spec = spec, so_closeFn = None, so_closeDone = NoCloseDone, so_active = True,
                     so_end = NotEnded\<rparr>
        in (Inr i,
            r\<lparr>er_once := i # er_once r, er_pending := removeAll i (er_pending r),
              er_scopes := er_scopes r @ [i], er_objs := mput i scope (er_objs r)\<rparr>))"

subsection \<open>Release sink\<close>

definition SetReleaseSink :: "nat option \<Rightarrow> exec_registry \<Rightarrow> exec_registry" where
  "SetReleaseSink sink r =
     r\<lparr>releaseSink := sink,
       sink_calls :=
         (case sink of
            None \<Rightarrow> sink_calls r
          | Some k \<Rightarrow>
              map (\<lambda>(g, n). (k, g, n)) (filter (\<lambda>(g, n). n > 0) (releaseSequences r)) @ sink_calls r)\<rparr>"

subsection \<open>Scopes\<close>

definition upd_scope :: "nat \<Rightarrow> (scope_obj \<Rightarrow> scope_obj) \<Rightarrow> exec_registry \<Rightarrow> exec_registry" where
  "upd_scope i f r =
     (case mget (er_objs r) i of
        None \<Rightarrow> r
      | Some s \<Rightarrow> r\<lparr>er_objs := mput i (f s) (er_objs r)\<rparr>)"

definition Bind :: "nat \<Rightarrow> nat option \<Rightarrow> exec_registry \<Rightarrow> registry_error option \<times> exec_registry" where
  "Bind i closeFn r =
     (case (mget (er_objs r) i, closeFn) of
        (Some s, Some fn) \<Rightarrow>
          if er_state r \<noteq> StateAccepting \<or> \<not> so_active s then (Some ErrRegistryNotAccepting, r)
          else if so_closeFn s \<noteq> None \<or> so_closeDone s \<noteq> NoCloseDone
          then (Some ErrExecutionResourceAlreadyBound, r)
          else (None, upd_scope i (\<lambda>s. s\<lparr>so_closeFn := Some fn\<rparr>) r)
      | _ \<Rightarrow> (Some ErrInvalidExecutionResource, r))"

definition startBoundResourceClose :: "nat \<Rightarrow> exec_registry \<Rightarrow> exec_registry" where
  "startBoundResourceClose i r =
     (case mget (er_objs r) i of
        None \<Rightarrow> r
      | Some s \<Rightarrow>
          if so_closeDone s \<noteq> NoCloseDone then r
          else case so_closeFn s of
                 None \<Rightarrow> r
               | Some fn \<Rightarrow> upd_scope i (\<lambda>s. s\<lparr>so_closeFn := None, so_closeDone := CloseRunning fn\<rparr>) r)"

text \<open>The goroutine of \<open>startBoundResourceClose\<close>: the function has run, \<open>closeDone\<close> is closed.\<close>

definition closeResource :: "nat \<Rightarrow> exec_registry \<Rightarrow> exec_registry" where
  "closeResource i r =
     (case mget (er_objs r) i of
        None \<Rightarrow> r
      | Some s \<Rightarrow>
          (case so_closeDone s of
             CloseRunning fn \<Rightarrow>
               (upd_scope i (\<lambda>s. s\<lparr>so_closeDone := CloseFinished fn\<rparr>) r)\<lparr>close_log := fn # close_log r\<rparr>
           | _ \<Rightarrow> r))"

definition close_finished :: "scope_obj \<Rightarrow> bool" where
  "close_finished s \<longleftrightarrow>
     (case so_closeDone s of NoCloseDone \<Rightarrow> so_closeFn s = None | CloseRunning _ \<Rightarrow> False | CloseFinished _ \<Rightarrow> True)"

definition markReleasedLocked ::
  "scope_spec \<Rightarrow> exec_registry \<Rightarrow> (nat option \<times> release_group \<times> nat) \<times> exec_registry" where
  "markReleasedLocked spec r =
     (if \<not> Accounted spec then ((None, \<lparr>rg_CredentialID = [], rg_Model = []\<rparr>, 0), r)
      else
        let g = \<lparr>rg_CredentialID = CredentialID spec, rg_Model = Model spec\<rparr>;
            n = (case mget (releaseSequences r) g of None \<Rightarrow> 0 | Some n \<Rightarrow> n) + 1
        in ((releaseSink r, g, n), r\<lparr>releaseSequences := mput g n (releaseSequences r)\<rparr>))"

text \<open>The blocks of \<open>EndWithRelease\<close>, in the code's order.\<close>

definition end_begin :: "nat \<Rightarrow> exec_registry \<Rightarrow> exec_registry" where
  "end_begin i r = upd_scope i (\<lambda>s. s\<lparr>so_active := False, so_end := EndWaiting\<rparr>) r"

definition end_closed :: "nat \<Rightarrow> exec_registry \<Rightarrow> exec_registry" where
  "end_closed i r = upd_scope i (\<lambda>s. s\<lparr>so_end := EndClosed\<rparr>) r"

definition end_mark :: "nat \<Rightarrow> exec_registry \<Rightarrow> exec_registry" where
  "end_mark i r =
     (case mget (er_objs r) i of
        None \<Rightarrow> r
      | Some s \<Rightarrow>
          (case markReleasedLocked (so_spec s) r of
             ((sink, g, n), r1) \<Rightarrow> upd_scope i (\<lambda>s. s\<lparr>so_end := EndMarked sink g n\<rparr>) r1))"

definition end_report :: "nat \<Rightarrow> exec_registry \<Rightarrow> exec_registry" where
  "end_report i r =
     (case mget (er_objs r) i of
        None \<Rightarrow> r
      | Some s \<Rightarrow>
          (case so_end s of
             EndMarked (Some k) g n \<Rightarrow>
               (upd_scope i (\<lambda>s. s\<lparr>so_end := EndReported\<rparr>) r)
                 \<lparr>sink_log := (if n > 0 then (k, g, n) # sink_log r else sink_log r)\<rparr>
           | EndMarked None g n \<Rightarrow> upd_scope i (\<lambda>s. s\<lparr>so_end := EndReported\<rparr>) r
           | _ \<Rightarrow> r))"

definition end_delete :: "nat \<Rightarrow> exec_registry \<Rightarrow> exec_registry" where
  "end_delete i r =
     (upd_scope i (\<lambda>s. s\<lparr>so_end := EndDone\<rparr>) r)\<lparr>er_scopes := removeAll i (er_scopes r)\<rparr>"

text \<open>One uninterrupted call; \<open>sync.Once\<close> makes every call but the first a no-op.\<close>

definition EndWithRelease :: "nat \<Rightarrow> exec_registry \<Rightarrow> exec_registry" where
  "EndWithRelease i r =
     (case mget (er_objs r) i of
        None \<Rightarrow> r
      | Some s \<Rightarrow>
          if so_end s \<noteq> NotEnded then r
          else end_delete i (end_report i (end_mark i (end_closed i
                 (closeResource i (startBoundResourceClose i (end_begin i r)))))))"

subsection \<open>Barriers and snapshots\<close>

record observation =
  ob_RequestID :: string
  ob_CredentialID :: string
  ob_Model :: string
  ob_RequestKind :: string
  ob_StartedAt :: time
  ob_Accounted :: bool

record freeze =
  Revision :: nat
  BarrierRevision :: int
  Executions :: "observation list"

definition ObserveBarrier :: "int \<Rightarrow> exec_registry \<Rightarrow> exec_registry" where
  "ObserveBarrier revision r =
     (if revision \<le> 0 then r
      else if revision > observedBarrier r
      then r\<lparr>observedBarrier := revision, pendingBarrierSequence := er_next r\<rparr>
      else r)"

definition observe_scope :: "scope_spec \<Rightarrow> observation" where
  "observe_scope spec =
     \<lparr>ob_RequestID = RequestID spec, ob_CredentialID = CredentialID spec, ob_Model = Model spec,
      ob_RequestKind = Kind spec, ob_StartedAt = StartedAt spec, ob_Accounted = Accounted spec\<rparr>"

definition FreezeInFlight :: "exec_registry \<Rightarrow> freeze \<times> exec_registry" where
  "FreezeInFlight r =
     (let blocked = list_ex (\<lambda>i. i \<le> pendingBarrierSequence r) (er_pending r);
          r1 = (if observedBarrier r > publishedBarrier r \<and> \<not> blocked
                then r\<lparr>publishedBarrier := observedBarrier r\<rparr> else r);
          r2 = r1\<lparr>snapshotRevision := snapshotRevision r1 + 1\<rparr>
      in (\<lparr>Revision = snapshotRevision r2, BarrierRevision = publishedBarrier r2,
           Executions =
             map observe_scope
               (map so_spec (List.map_filter (mget (er_objs r2)) (er_scopes r2)))\<rparr>, r2))"

subsection \<open>Draining and closing\<close>

definition Drain_begin :: "exec_registry \<Rightarrow> registry_error option \<times> exec_registry" where
  "Drain_begin r =
     (case er_state r of
        StateAccepting \<Rightarrow> (None, r\<lparr>er_state := StateDraining\<rparr>)
      | StateDraining \<Rightarrow> (None, r)
      | StateClosed \<Rightarrow> (Some ErrRegistryClosed, r))"

definition Drain_ready :: "exec_registry \<Rightarrow> bool" where
  "Drain_ready r \<longleftrightarrow> er_pending r = [] \<and> er_scopes r = []"

definition Drain_finish :: "exec_registry \<Rightarrow> exec_registry" where
  "Drain_finish r = r\<lparr>er_state := StateClosed, er_drained := True\<rparr>"

definition Close_begin :: "exec_registry \<Rightarrow> exec_registry" where
  "Close_begin r =
     (if closeStarted r \<or> er_state r = StateClosed then r
      else r\<lparr>closeStarted := True, er_state := StateClosed\<rparr>)"

section \<open>Interleavings\<close>

text \<open>A \<open>Drain\<close> is waiting from its first step on; only then can it finish. It and \<open>Close\<close> start
  the close functions of the scopes they saw (\<open>start_close\<close>).\<close>

inductive er_step :: "exec_registry \<Rightarrow> exec_registry \<Rightarrow> bool" where
  dispatch: "er_step r (snd (BeginDispatch r))"
| pending_end: "0 < i \<Longrightarrow> i \<le> er_next r \<Longrightarrow> er_step r (PendingDispatch_End i r)"
| install: "0 < i \<Longrightarrow> i \<le> er_next r \<Longrightarrow> er_step r (snd (Install i spec r))"
| set_sink: "er_step r (SetReleaseSink sink r)"
| sink_call: "c \<in> set (sink_calls r) \<Longrightarrow>
    er_step r (r\<lparr>sink_calls := remove1 c (sink_calls r), sink_log := c # sink_log r\<rparr>)"
| bind: "er_step r (snd (Bind i fn r))"
| start_close: "er_state r \<noteq> StateAccepting \<Longrightarrow> er_step r (startBoundResourceClose i r)"
| close_resource: "er_step r (closeResource i r)"
| end_begin: "mget (er_objs r) i = Some s \<Longrightarrow> so_end s = NotEnded \<Longrightarrow> er_step r (end_begin i r)"
| end_start_close: "mget (er_objs r) i = Some s \<Longrightarrow> so_end s = EndWaiting \<Longrightarrow>
    er_step r (startBoundResourceClose i r)"
| end_closed: "mget (er_objs r) i = Some s \<Longrightarrow> so_end s = EndWaiting \<Longrightarrow> close_finished s \<Longrightarrow>
    er_step r (end_closed i r)"
| end_mark: "mget (er_objs r) i = Some s \<Longrightarrow> so_end s = EndClosed \<Longrightarrow> er_step r (end_mark i r)"
| end_report: "mget (er_objs r) i = Some s \<Longrightarrow> so_end s = EndMarked k g n \<Longrightarrow> er_step r (end_report i r)"
| end_delete: "mget (er_objs r) i = Some s \<Longrightarrow> so_end s = EndReported \<Longrightarrow> er_step r (end_delete i r)"
| observe: "er_step r (ObserveBarrier b r)"
| freeze: "er_step r (snd (FreezeInFlight r))"
| drain_begin: "er_step r (snd (Drain_begin r))"
| drain_finish: "er_state r \<noteq> StateAccepting \<Longrightarrow> Drain_ready r \<Longrightarrow> er_step r (Drain_finish r)"
| close_begin: "er_step r (Close_begin r)"

inductive er_reachable :: "exec_registry \<Rightarrow> bool" where
  start: "er_reachable New_registry"
| step: "er_reachable r \<Longrightarrow> er_step r r' \<Longrightarrow> er_reachable r'"

section \<open>Invariants\<close>

declare map_of_eq_Some_iff [simp del]

text \<open>What updating a scope leaves alone.\<close>

lemma upd_scope_fields [simp]:
  "er_state (upd_scope i f r) = er_state r" "er_next (upd_scope i f r) = er_next r"
  "observedBarrier (upd_scope i f r) = observedBarrier r" "publishedBarrier (upd_scope i f r) = publishedBarrier r"
  "pendingBarrierSequence (upd_scope i f r) = pendingBarrierSequence r"
  "er_pending (upd_scope i f r) = er_pending r" "er_once (upd_scope i f r) = er_once r"
  "er_scopes (upd_scope i f r) = er_scopes r" "releaseSequences (upd_scope i f r) = releaseSequences r"
  "releaseSink (upd_scope i f r) = releaseSink r" "sink_calls (upd_scope i f r) = sink_calls r"
  "sink_log (upd_scope i f r) = sink_log r" "er_drained (upd_scope i f r) = er_drained r"
  "close_log (upd_scope i f r) = close_log r"
  by (simp_all add: upd_scope_def split: option.splits)

lemma upd_scope_objs [simp]:
  "mget (er_objs (upd_scope i f r)) j =
     (if j = i then map_option f (mget (er_objs r) i) else mget (er_objs r) j)"
  by (auto simp: upd_scope_def split: option.splits)

lemma upd_scope_wf [simp]: "wf_map (er_objs r) \<Longrightarrow> wf_map (er_objs (upd_scope i f r))"
  by (simp add: upd_scope_def split: option.splits)

lemmas er_ops =
  BeginDispatch_def PendingDispatch_End_def Install_def SetReleaseSink_def Bind_def
  startBoundResourceClose_def closeResource_def end_begin_def end_closed_def end_mark_def
  markReleasedLocked_def end_report_def end_delete_def ObserveBarrier_def FreezeInFlight_def
  Drain_begin_def Drain_ready_def Drain_finish_def Close_begin_def Let_def

subsection \<open>The life of a scope\<close>

text \<open>What one step may do to one scope: the abstract life cycle. A resource is bound only while the
  scope is active, its close function runs once, and release is marked only after it has run.\<close>

inductive scope_trans :: "scope_obj \<Rightarrow> scope_obj \<Rightarrow> bool" where
  t_bind: "so_active s \<Longrightarrow> so_closeFn s = None \<Longrightarrow> so_closeDone s = NoCloseDone \<Longrightarrow>
    scope_trans s (s\<lparr>so_closeFn := Some fn\<rparr>)"
| t_start: "so_closeFn s = Some fn \<Longrightarrow> so_closeDone s = NoCloseDone \<Longrightarrow>
    scope_trans s (s\<lparr>so_closeFn := None, so_closeDone := CloseRunning fn\<rparr>)"
| t_finish: "so_closeDone s = CloseRunning fn \<Longrightarrow> scope_trans s (s\<lparr>so_closeDone := CloseFinished fn\<rparr>)"
| t_begin: "so_end s = NotEnded \<Longrightarrow> scope_trans s (s\<lparr>so_active := False, so_end := EndWaiting\<rparr>)"
| t_closed: "so_end s = EndWaiting \<Longrightarrow> close_finished s \<Longrightarrow> scope_trans s (s\<lparr>so_end := EndClosed\<rparr>)"
| t_mark: "so_end s = EndClosed \<Longrightarrow> scope_trans s (s\<lparr>so_end := EndMarked k g n\<rparr>)"
| t_report: "so_end s = EndMarked k g n \<Longrightarrow> scope_trans s (s\<lparr>so_end := EndReported\<rparr>)"
| t_delete: "so_end s = EndReported \<Longrightarrow> scope_trans s (s\<lparr>so_end := EndDone\<rparr>)"

definition scope_ok :: "scope_obj \<Rightarrow> bool" where
  "scope_ok s \<longleftrightarrow>
     (so_active s \<longleftrightarrow> so_end s = NotEnded) \<and>
     (so_closeDone s \<noteq> NoCloseDone \<longrightarrow> so_closeFn s = None) \<and>
     (so_end s \<notin> {NotEnded, EndWaiting} \<longrightarrow> close_finished s)"

definition released :: "scope_obj \<Rightarrow> bool" where
  "released s \<longleftrightarrow> so_end s \<notin> {NotEnded, EndWaiting, EndClosed}"

lemma scope_trans_ok: "scope_trans s s' \<Longrightarrow> scope_ok s \<Longrightarrow> scope_ok s'"
  by (induction rule: scope_trans.induct) (auto simp: scope_ok_def close_finished_def split: close_done.splits)

lemma scope_trans_spec: "scope_trans s s' \<Longrightarrow> so_spec s' = so_spec s"
  by (induction rule: scope_trans.induct) auto

lemma scope_trans_done: "scope_trans s s' \<Longrightarrow> so_end s = EndDone \<Longrightarrow> so_end s' = EndDone"
  by (induction rule: scope_trans.induct) auto

subsection \<open>The steps, seen from dispatches and scopes\<close>

definition new_scope :: "scope_spec \<Rightarrow> scope_obj" where
  "new_scope spec = \<lparr>so_spec = spec, so_closeFn = None, so_closeDone = NoCloseDone, so_active = True,
     so_end = NotEnded\<rparr>"

inductive er_change :: "exec_registry \<Rightarrow> exec_registry \<Rightarrow> bool" where
  c_dispatch: "er_state r = StateAccepting \<Longrightarrow> er_next r' = er_next r + 1 \<Longrightarrow>
    er_pending r' = er_pending r @ [er_next r + 1] \<Longrightarrow> er_once r' = er_once r \<Longrightarrow>
    er_scopes r' = er_scopes r \<Longrightarrow> er_objs r' = er_objs r \<Longrightarrow> er_change r r'"
| c_resolve: "er_next r' = er_next r \<Longrightarrow> er_pending r' = filter P (er_pending r) \<Longrightarrow>
    set (er_once r) \<subseteq> set (er_once r') \<Longrightarrow> er_scopes r' = er_scopes r \<Longrightarrow>
    er_objs r' = er_objs r \<Longrightarrow> er_change r r'"
| c_install: "er_state r = StateAccepting \<Longrightarrow> i \<in> set (er_pending r) \<Longrightarrow> er_next r' = er_next r \<Longrightarrow>
    er_pending r' = removeAll i (er_pending r) \<Longrightarrow> er_once r' = i # er_once r \<Longrightarrow>
    er_scopes r' = er_scopes r @ [i] \<Longrightarrow> er_objs r' = mput i (new_scope spec) (er_objs r) \<Longrightarrow>
    er_change r r'"
| c_scope: "mget (er_objs r) i = Some s \<Longrightarrow> scope_trans s s' \<Longrightarrow> er_next r' = er_next r \<Longrightarrow>
    er_pending r' = er_pending r \<Longrightarrow> er_once r' = er_once r \<Longrightarrow>
    er_scopes r' = (if so_end s' = EndDone \<and> so_end s \<noteq> EndDone then removeAll i (er_scopes r) else er_scopes r) \<Longrightarrow>
    er_objs r' = mput i s' (er_objs r) \<Longrightarrow> er_change r r'"

lemma change_refl:
  "er_next r' = er_next r \<Longrightarrow> er_pending r' = er_pending r \<Longrightarrow> er_once r' = er_once r \<Longrightarrow>
   er_scopes r' = er_scopes r \<Longrightarrow> er_objs r' = er_objs r \<Longrightarrow> er_change r r'"
  by (rule c_resolve [where P = "\<lambda>_. True"]) auto

lemma upd_scope_Some: "mget (er_objs r) i = Some s \<Longrightarrow> er_objs (upd_scope i f r) = mput i (f s) (er_objs r)"
  by (simp add: upd_scope_def)

lemma change_start_close: "er_change r (startBoundResourceClose i r)"
proof (cases "\<exists>s fn. mget (er_objs r) i = Some s \<and> so_closeDone s = NoCloseDone \<and> so_closeFn s = Some fn")
  case True
  then obtain s fn where s: "mget (er_objs r) i = Some s" "so_closeDone s = NoCloseDone" "so_closeFn s = Some fn"
    by blast
  then have "startBoundResourceClose i r = upd_scope i (\<lambda>s. s\<lparr>so_closeFn := None, so_closeDone := CloseRunning fn\<rparr>) r"
    by (simp add: startBoundResourceClose_def)
  then show ?thesis using s by (intro c_scope [OF s(1) t_start [OF s(3,2)]]) (auto simp: upd_scope_Some)
next
  case False
  then have "startBoundResourceClose i r = r"
    by (auto simp: startBoundResourceClose_def split: option.splits)
  then show ?thesis by (simp add: change_refl)
qed

lemma change_close_resource: "er_change r (closeResource i r)"
proof (cases "\<exists>s fn. mget (er_objs r) i = Some s \<and> so_closeDone s = CloseRunning fn")
  case True
  then obtain s fn where s: "mget (er_objs r) i = Some s" "so_closeDone s = CloseRunning fn" by blast
  then have "closeResource i r =
      (upd_scope i (\<lambda>s. s\<lparr>so_closeDone := CloseFinished fn\<rparr>) r)\<lparr>close_log := fn # close_log r\<rparr>"
    by (simp add: closeResource_def)
  then show ?thesis using s by (intro c_scope [OF s(1) t_finish [OF s(2)]]) (auto simp: upd_scope_Some)
next
  case False
  then have "closeResource i r = r"
    by (auto simp: closeResource_def split: option.splits close_done.splits)
  then show ?thesis by (simp add: change_refl)
qed

lemma change_bind: "er_change r (snd (Bind i fn r))"
proof (cases "\<exists>s f. mget (er_objs r) i = Some s \<and> fn = Some f \<and> er_state r = StateAccepting \<and> so_active s \<and>
    so_closeFn s = None \<and> so_closeDone s = NoCloseDone")
  case True
  then obtain s f where s: "mget (er_objs r) i = Some s" "fn = Some f" "er_state r = StateAccepting" "so_active s"
    "so_closeFn s = None" "so_closeDone s = NoCloseDone" by blast
  then have "snd (Bind i fn r) = upd_scope i (\<lambda>s. s\<lparr>so_closeFn := Some f\<rparr>) r"
    by (simp add: Bind_def)
  then show ?thesis using s by (intro c_scope [OF s(1) t_bind [OF s(4-6)]]) (auto simp: upd_scope_Some)
next
  case False
  then have "snd (Bind i fn r) = r"
    by (auto simp: Bind_def split: option.splits)
  then show ?thesis by (simp add: change_refl)
qed

lemma end_mark_eq:
  assumes "mget (er_objs r) i = Some s"
  obtains k g n where "er_objs (end_mark i r) = er_objs (upd_scope i (\<lambda>s. s\<lparr>so_end := EndMarked k g n\<rparr>) r)"
    and "((k, g, n), end_mark i r\<lparr>er_objs := er_objs r\<rparr>) = markReleasedLocked (so_spec s) r"
proof -
  obtain k g n r1 where m: "markReleasedLocked (so_spec s) r = ((k, g, n), r1)" by (metis surj_pair)
  then have "er_objs r1 = er_objs r" by (auto simp: markReleasedLocked_def Let_def split: if_splits)
  with m assms that show thesis by (simp add: end_mark_def upd_scope_def)
qed

lemma change_end_begin:
  assumes "mget (er_objs r) i = Some s" and "so_end s = NotEnded"
  shows "er_change r (end_begin i r)"
  using assms by (intro c_scope [OF assms(1) t_begin]) (auto simp: end_begin_def upd_scope_Some)

lemma change_end_closed:
  assumes "mget (er_objs r) i = Some s" and "so_end s = EndWaiting" and "close_finished s"
  shows "er_change r (end_closed i r)"
  using assms by (intro c_scope [OF assms(1) t_closed]) (auto simp: end_closed_def upd_scope_Some)

lemma change_end_mark:
  assumes "mget (er_objs r) i = Some s" and "so_end s = EndClosed"
  shows "er_change r (end_mark i r)"
proof -
  obtain k g n where o: "er_objs (end_mark i r) = er_objs (upd_scope i (\<lambda>s. s\<lparr>so_end := EndMarked k g n\<rparr>) r)"
    using end_mark_eq [OF assms(1)] .
  show ?thesis
    using assms o by (intro c_scope [OF assms(1) t_mark [of _ k g n]])
      (auto simp: upd_scope_Some end_mark_def markReleasedLocked_def Let_def)
qed

lemma change_end_report:
  assumes "mget (er_objs r) i = Some s" and "so_end s = EndMarked k g n"
  shows "er_change r (end_report i r)"
  using assms by (intro c_scope [OF assms(1) t_report [OF assms(2)]])
    (auto simp: upd_scope_Some end_report_def split: option.splits)

lemma change_end_delete:
  assumes "mget (er_objs r) i = Some s" and "so_end s = EndReported"
  shows "er_change r (end_delete i r)"
  using assms by (intro c_scope [OF assms(1) t_delete]) (auto simp: upd_scope_Some end_delete_def)

lemma removeAll_filter: "removeAll i xs = filter (\<lambda>x. x \<noteq> i) xs"
  by (simp add: removeAll_filter_not_eq) (metis)

lemma change_install: "er_change r (snd (Install i spec r))"
proof -
  consider "er_state r \<noteq> StateAccepting" | "er_state r = StateAccepting" "i \<notin> set (er_pending r)"
    | "er_state r = StateAccepting" "i \<in> set (er_pending r)" by blast
  then show ?thesis
  proof cases
    case 1
    then show ?thesis
      by (intro c_resolve [where P = "\<lambda>x. x \<noteq> i"]) (auto simp: Install_def removeAll_filter)
  next
    case 2
    then show ?thesis by (simp add: Install_def change_refl)
  next
    case 3
    then show ?thesis
      by (intro c_install [of r i _ spec]) (auto simp: Install_def Let_def new_scope_def)
  qed
qed

lemma change_pending_end: "er_change r (PendingDispatch_End i r)"
proof (cases "i \<in> set (er_once r)")
  case True
  then show ?thesis by (simp add: PendingDispatch_End_def change_refl)
next
  case False
  then show ?thesis
    by (intro c_resolve [where P = "\<lambda>x. x \<noteq> i"]) (auto simp: PendingDispatch_End_def removeAll_filter)
qed

lemma change_dispatch: "er_change r (snd (BeginDispatch r))"
proof (cases "er_state r = StateAccepting")
  case True
  then show ?thesis by (intro c_dispatch) (auto simp: BeginDispatch_def Let_def)
next
  case False
  then show ?thesis by (simp add: BeginDispatch_def change_refl)
qed

lemma er_step_change: "er_step r r' \<Longrightarrow> er_change r r'"
proof (induction rule: er_step.induct)
  case (freeze r)
  then show ?case by (auto simp: FreezeInFlight_def Let_def intro!: change_refl)
next
  case (drain_begin r)
  then show ?case by (auto simp: Drain_begin_def split: registry_state.splits intro!: change_refl)
qed (auto simp: change_dispatch change_pending_end change_install change_bind change_start_close
      change_close_resource SetReleaseSink_def ObserveBarrier_def Drain_finish_def Close_begin_def
      intro: change_refl change_end_begin change_end_closed change_end_mark change_end_report change_end_delete)

subsection \<open>Identities\<close>

definition ids_inv :: "exec_registry \<Rightarrow> bool" where
  "ids_inv r \<longleftrightarrow>
     wf_map (er_objs r) \<and> distinct (er_pending r) \<and> distinct (er_scopes r) \<and>
     (\<forall>i \<in> set (er_pending r). 0 < i \<and> i \<le> er_next r \<and> mget (er_objs r) i = None) \<and>
     (\<forall>i s. mget (er_objs r) i = Some s \<longrightarrow> 0 < i \<and> i \<le> er_next r \<and> i \<in> set (er_once r) \<and> scope_ok s) \<and>
     (\<forall>i. i \<in> set (er_scopes r) \<longleftrightarrow> (\<exists>s. mget (er_objs r) i = Some s \<and> so_end s \<noteq> EndDone))"

lemma scope_ok_new [simp]: "scope_ok (new_scope spec)" "so_end (new_scope spec) = NotEnded"
  by (simp_all add: scope_ok_def new_scope_def)

lemma ids_inv_change: "er_change r r' \<Longrightarrow> ids_inv r \<Longrightarrow> ids_inv r'"
proof (induction rule: er_change.induct)
  case (c_dispatch r r')
  then have "mget (er_objs r) (er_next r + 1) = None" "er_next r + 1 \<notin> set (er_pending r)"
    unfolding ids_inv_def by (metis Suc_eq_plus1 Suc_n_not_le_n not_None_eq)+
  with c_dispatch show ?case by (auto simp: ids_inv_def le_SucI)
next
  case (c_resolve r' r P)
  then show ?case by (auto simp: ids_inv_def)
next
  case (c_install r i r' spec)
  then have "i \<notin> set (er_scopes r)" by (auto simp: ids_inv_def)
  with c_install show ?case by (auto simp: ids_inv_def distinct_removeAll)
next
  case (c_scope r i s s' r')
  then have "scope_ok s'" using scope_trans_ok by (auto simp: ids_inv_def)
  moreover have "so_end s' = EndDone" if "so_end s = EndDone" using scope_trans_done [OF c_scope(2) that] .
  ultimately show ?case using c_scope
    by (auto simp: ids_inv_def distinct_removeAll simp del: map_of_eq_Some_iff)
qed

lemma ids_inv_reachable: "er_reachable r \<Longrightarrow> ids_inv r"
proof (induction rule: er_reachable.induct)
  case start
  then show ?case by (simp add: ids_inv_def New_registry_def)
next
  case (step r r')
  then show ?case using er_step_change ids_inv_change by blast
qed

subsection \<open>Accounting\<close>

definition scope_group :: "scope_obj \<Rightarrow> release_group" where
  "scope_group s = \<lparr>rg_CredentialID = CredentialID (so_spec s), rg_Model = Model (so_spec s)\<rparr>"

text \<open>The accounted scopes of a group that have been marked released.\<close>

definition counted :: "release_group \<Rightarrow> scope_obj \<Rightarrow> bool" where
  "counted g s \<longleftrightarrow> released s \<and> Accounted (so_spec s) \<and> scope_group s = g"

definition released_count :: "release_group \<Rightarrow> (nat, scope_obj) gomap \<Rightarrow> nat" where
  "released_count g objs = length (filter (\<lambda>e. counted g (snd e)) objs)"

definition sequence_of :: "exec_registry \<Rightarrow> release_group \<Rightarrow> nat" where
  "sequence_of r g = (case mget (releaseSequences r) g of None \<Rightarrow> 0 | Some n \<Rightarrow> n)"

lemma count_mput:
  "wf_map m \<Longrightarrow> mget m i = Some s \<Longrightarrow>
   released_count g (mput i s' m) + (if counted g s then 1 else 0) =
     released_count g m + (if counted g s' then 1 else 0)"
  by (induction m) (auto simp: released_count_def)

lemma count_mput_new:
  "mget m i = None \<Longrightarrow> released_count g (mput i s' m) = released_count g m + (if counted g s' then 1 else 0)"
  by (induction m) (auto simp: released_count_def split: if_splits)

lemma released_trans:
  "scope_trans s s' \<Longrightarrow> so_end s \<noteq> EndClosed \<Longrightarrow> counted g s' = counted g s"
  by (induction rule: scope_trans.induct) (auto simp: counted_def released_def scope_group_def)

definition account_inv :: "exec_registry \<Rightarrow> bool" where
  "account_inv r \<longleftrightarrow> (\<forall>g. sequence_of r g = released_count g (er_objs r))"

text \<open>Only \<open>markReleasedLocked\<close> moves the sequences.\<close>

lemma sequences_same:
  "er_step r r' \<Longrightarrow> (\<exists>i s. mget (er_objs r) i = Some s \<and> so_end s = EndClosed \<and> r' = end_mark i r) \<or>
     releaseSequences r' = releaseSequences r"
proof (induction rule: er_step.induct)
  case (end_mark r i s)
  then show ?case by blast
qed (auto simp: er_ops split: option.splits close_done.splits end_phase.splits registry_state.splits)

text \<open>Releases are counted by the one step that leaves \<open>EndClosed\<close>.\<close>

lemma count_upd:
  assumes "wf_map (er_objs r)" and "\<And>s. mget (er_objs r) i = Some s \<Longrightarrow> counted g (f s) = counted g s"
  shows "released_count g (er_objs (upd_scope i f r)) = released_count g (er_objs r)"
proof (cases "mget (er_objs r) i")
  case (Some s)
  with count_mput [OF assms(1) Some, of g "f s"] assms(2) [OF Some] show ?thesis
    by (simp add: upd_scope_Some split: if_splits)
qed (simp add: upd_scope_def)

lemma counted_same:
  assumes "er_step r r'" and "ids_inv r"
    and "\<not> (\<exists>i s. mget (er_objs r) i = Some s \<and> so_end s = EndClosed \<and> r' = end_mark i r)"
  shows "released_count g (er_objs r') = released_count g (er_objs r)"
proof -
  have wf: "wf_map (er_objs r)" using assms(2) by (simp add: ids_inv_def)
  note cu = count_upd [OF wf]
  show ?thesis using assms
  proof (induction rule: er_step.induct)
    case (install i r spec)
    then have "mget (er_objs r) i = None" if "i \<in> set (er_pending r)" using that by (auto simp: ids_inv_def)
    then show ?case
      by (auto simp: Install_def Let_def count_mput_new counted_def released_def)
  next
    case (end_mark r i s)
    then show ?case by blast
  qed (auto simp: er_ops ids_inv_def counted_def released_def scope_group_def
        split: option.splits close_done.splits end_phase.splits registry_state.splits intro!: count_upd)
qed

lemma account_mark:
  assumes "ids_inv r" and "account_inv r" and "mget (er_objs r) i = Some s" and "so_end s = EndClosed"
  shows "account_inv (end_mark i r)"
proof -
  have wf: "wf_map (er_objs r)" using assms(1) by (simp add: ids_inv_def)
  obtain k g n where o: "er_objs (end_mark i r) = er_objs (upd_scope i (\<lambda>s. s\<lparr>so_end := EndMarked k g n\<rparr>) r)"
    using end_mark_eq [OF assms(3)] .
  let ?s = "s\<lparr>so_end := EndMarked k g n\<rparr>"
  have "\<not> counted h s" "counted h ?s \<longleftrightarrow> Accounted (so_spec s) \<and> scope_group s = h" for h
    using assms(4) by (auto simp: counted_def released_def scope_group_def)
  with count_mput [OF wf assms(3), of _ ?s] have
    "released_count h (er_objs (end_mark i r)) =
       released_count h (er_objs r) + (if Accounted (so_spec s) \<and> scope_group s = h then 1 else 0)" for h
    by (simp add: o upd_scope_Some [OF assms(3)])
  moreover have "sequence_of (end_mark i r) h =
      sequence_of r h + (if Accounted (so_spec s) \<and> scope_group s = h then 1 else 0)" for h
    using assms(3) by (auto simp: end_mark_def markReleasedLocked_def Let_def sequence_of_def scope_group_def)
  ultimately show ?thesis using assms(2) by (simp add: account_inv_def)
qed

lemma account_inv_reachable: "er_reachable r \<Longrightarrow> account_inv r"
proof (induction rule: er_reachable.induct)
  case start
  show ?case by (simp add: account_inv_def New_registry_def sequence_of_def released_count_def)
next
  case (step r r')
  note ids = ids_inv_reachable [OF step(1)]
  show ?case
  proof (cases "\<exists>i s. mget (er_objs r) i = Some s \<and> so_end s = EndClosed \<and> r' = end_mark i r")
    case True
    with account_mark [OF ids step.IH] show ?thesis by blast
  next
    case False
    with sequences_same [OF step(2)] counted_same [OF step(2) ids] step.IH show ?thesis
      by (simp add: account_inv_def sequence_of_def)
  qed
qed

subsection \<open>Barriers\<close>

definition barrier_inv :: "exec_registry \<Rightarrow> bool" where
  "barrier_inv r \<longleftrightarrow>
     0 \<le> publishedBarrier r \<and> publishedBarrier r \<le> observedBarrier r \<and> pendingBarrierSequence r \<le> er_next r \<and>
     (publishedBarrier r = observedBarrier r \<longrightarrow> (\<forall>i \<in> set (er_pending r). pendingBarrierSequence r < i))"

lemma barrier_inv_step: "er_step r r' \<Longrightarrow> ids_inv r \<Longrightarrow> barrier_inv r \<Longrightarrow> barrier_inv r'"
proof (induction rule: er_step.induct)
  case (freeze r)
  then show ?case by (auto simp: FreezeInFlight_def Let_def barrier_inv_def list_ex_iff)
next
  case (dispatch r)
  then show ?case by (auto simp: BeginDispatch_def Let_def barrier_inv_def)
qed (auto simp: er_ops barrier_inv_def split: option.splits close_done.splits end_phase.splits registry_state.splits)

lemma barrier_inv_reachable: "er_reachable r \<Longrightarrow> barrier_inv r"
proof (induction rule: er_reachable.induct)
  case start
  show ?case by (simp add: barrier_inv_def New_registry_def)
next
  case (step r r')
  then show ?case using barrier_inv_step ids_inv_reachable by blast
qed

subsection \<open>Draining\<close>

definition drain_inv :: "exec_registry \<Rightarrow> bool" where
  "drain_inv r \<longleftrightarrow> (er_drained r \<longrightarrow> er_state r = StateClosed \<and> er_pending r = [] \<and> er_scopes r = [])"

text \<open>After the registry has stopped accepting nothing is added and it never accepts again.\<close>

lemma not_accepting_step:
  assumes "er_step r r'" and "er_state r \<noteq> StateAccepting"
  shows "er_state r' \<noteq> StateAccepting \<and> (er_state r = StateClosed \<longrightarrow> er_state r' = StateClosed) \<and>
         set (er_pending r') \<subseteq> set (er_pending r) \<and> set (er_scopes r') \<subseteq> set (er_scopes r) \<and>
         fst ` set (er_objs r') = fst ` set (er_objs r)"
proof -
  have "er_state r' \<noteq> StateAccepting \<and> (er_state r = StateClosed \<longrightarrow> er_state r' = StateClosed)"
    using assms
    by (induction rule: er_step.induct)
       (auto simp: er_ops split: option.splits close_done.splits end_phase.splits registry_state.splits)
  moreover have "set (er_pending r') \<subseteq> set (er_pending r) \<and> set (er_scopes r') \<subseteq> set (er_scopes r) \<and>
      fst ` set (er_objs r') = fst ` set (er_objs r)"
    using er_step_change [OF assms(1)]
  proof cases
    case (c_scope i s s')
    then have "i \<in> fst ` set (er_objs r)" by (metis map_of_SomeD fst_conv image_eqI)
    with c_scope show ?thesis by (auto simp: keys_mput)
  qed (use assms(2) in auto)
  ultimately show ?thesis by blast
qed

lemma drain_inv_step: "er_step r r' \<Longrightarrow> drain_inv r \<Longrightarrow> drain_inv r'"
proof -
  assume s: "er_step r r'" and d: "drain_inv r"
  have "er_drained r' = er_drained r \<or> r' = Drain_finish r \<and> Drain_ready r"
    using s by (induction rule: er_step.induct)
       (auto simp: er_ops split: option.splits close_done.splits end_phase.splits registry_state.splits)
  then show ?thesis
  proof
    assume "er_drained r' = er_drained r"
    with d not_accepting_step [OF s] show ?thesis by (auto simp: drain_inv_def)
  qed (auto simp: drain_inv_def Drain_finish_def Drain_ready_def)
qed

lemma drain_inv_reachable: "er_reachable r \<Longrightarrow> drain_inv r"
  by (induction rule: er_reachable.induct) (auto simp: drain_inv_step, simp add: drain_inv_def New_registry_def)

subsection \<open>Reports to the release sink\<close>

text \<open>A sequence has reached the sink, or a call that will report it is under way.\<close>

definition reported :: "exec_registry \<Rightarrow> nat \<Rightarrow> release_group \<Rightarrow> nat \<Rightarrow> bool" where
  "reported r k g n \<longleftrightarrow>
     (k, g, n) \<in> set (sink_log r) \<or> (k, g, n) \<in> set (sink_calls r) \<or>
     (\<exists>i s. mget (er_objs r) i = Some s \<and> so_end s = EndMarked (Some k) g n)"

lemma reported_mono:
  assumes "reported r k g n" and "set (sink_log r) \<subseteq> set (sink_log r')"
    and "set (sink_calls r) \<subseteq> set (sink_calls r') \<union> set (sink_log r')"
    and "\<And>i s. mget (er_objs r) i = Some s \<Longrightarrow> so_end s = EndMarked (Some k) g n \<Longrightarrow>
           (k, g, n) \<in> set (sink_log r') \<or> map_option so_end (mget (er_objs r') i) = Some (EndMarked (Some k) g n)"
  shows "reported r' k g n"
proof -
  from assms(1) consider "(k, g, n) \<in> set (sink_log r)" | "(k, g, n) \<in> set (sink_calls r)"
    | i s where "mget (er_objs r) i = Some s" "so_end s = EndMarked (Some k) g n"
    by (auto simp: reported_def)
  then show ?thesis
  proof cases
    case (3 i s)
    from assms(4) [OF this] show ?thesis by (auto simp: reported_def)
  qed (use assms(2,3) in \<open>auto simp: reported_def\<close>)
qed

lemma reported_upd:
  assumes "reported r k g n" and "\<And>s. mget (er_objs r) i = Some s \<Longrightarrow> so_end s = EndMarked (Some k) g n \<Longrightarrow>
      so_end (f s) = EndMarked (Some k) g n"
  shows "reported (upd_scope i f r) k g n"
  by (rule reported_mono [OF assms(1)]) (use assms(2) in auto)

lemma reported_end_mark:
  assumes "reported r k g n" and "mget (er_objs r) i = Some s" and "so_end s = EndClosed"
  shows "reported (end_mark i r) k g n"
proof -
  obtain k' g' n' where o: "er_objs (end_mark i r) = er_objs (upd_scope i (\<lambda>s. s\<lparr>so_end := EndMarked k' g' n'\<rparr>) r)"
    using end_mark_eq [OF assms(2)] .
  have "sink_log (end_mark i r) = sink_log r" "sink_calls (end_mark i r) = sink_calls r"
    using assms(2) by (auto simp: end_mark_def markReleasedLocked_def Let_def)
  with o assms(2,3) show ?thesis by (intro reported_mono [OF assms(1)]) auto
qed

lemma reported_end_report:
  assumes "reported r k g n" and "0 < n" and "mget (er_objs r) i = Some s" and "so_end s = EndMarked k' g' n'"
  shows "reported (end_report i r) k g n"
  using assms(2-4) by (intro reported_mono [OF assms(1)]) (auto simp: end_report_def split: option.splits)

lemma reported_install:
  assumes "reported r k g n" and "ids_inv r"
  shows "reported (snd (Install i spec r)) k g n"
proof (rule reported_mono [OF assms(1)])
  fix j s assume "mget (er_objs r) j = Some s" "so_end s = EndMarked (Some k) g n"
  moreover have "mget (er_objs r) i = None" if "i \<in> set (er_pending r)" using that assms(2) by (auto simp: ids_inv_def)
  ultimately show "(k, g, n) \<in> set (sink_log (snd (Install i spec r))) \<or>
      map_option so_end (mget (er_objs (snd (Install i spec r))) j) = Some (EndMarked (Some k) g n)"
    by (auto simp: Install_def Let_def)
qed (auto simp: Install_def Let_def)

lemma reported_same:
  "reported r k g n \<Longrightarrow> set (sink_log r) \<subseteq> set (sink_log r') \<Longrightarrow>
   set (sink_calls r) \<subseteq> set (sink_calls r') \<union> set (sink_log r') \<Longrightarrow> er_objs r' = er_objs r \<Longrightarrow> reported r' k g n"
  by (rule reported_mono) auto

lemma reported_start_close: "reported r k g n \<Longrightarrow> reported (startBoundResourceClose i r) k g n"
  by (auto simp: startBoundResourceClose_def split: option.splits intro: reported_upd)

lemma reported_close_resource:
  assumes "reported r k g n"
  shows "reported (closeResource i r) k g n"
  by (rule reported_mono [OF assms]) (auto simp: closeResource_def split: option.splits close_done.splits)

lemma reported_step:
  assumes "er_step r r'" and "ids_inv r" and "reported r k g n" and "0 < n"
  shows "reported r' k g n"
  using assms
proof (induction rule: er_step.induct)
  case (sink_call c r)
  have "set (sink_calls r) \<subseteq> insert c (set (remove1 c (sink_calls r)))"
    using in_set_remove1 by fast
  then show ?case by (intro reported_same [OF sink_call.prems(2)]) auto
next
  case (set_sink r sink)
  then show ?case by (intro reported_same [OF set_sink.prems(2)]) (auto simp: SetReleaseSink_def split: option.splits)
next
  case (drain_begin r)
  then show ?case
    by (intro reported_same [OF drain_begin.prems(2)]) (auto simp: Drain_begin_def split: registry_state.splits)
next
  case (bind r i fn)
  then show ?case by (auto simp: Bind_def split: option.splits intro!: reported_upd)
next
  case (end_begin r i s)
  then show ?case by (auto simp: Execution_Registry.end_begin_def intro!: reported_upd)
next
  case (end_closed r i s)
  then show ?case by (auto simp: Execution_Registry.end_closed_def intro!: reported_upd)
next
  case (end_delete r i s)
  then show ?case by (intro reported_mono [OF end_delete.prems(2)]) (auto simp: Execution_Registry.end_delete_def)
next
  case (dispatch r)
  show ?case by (intro reported_same [OF dispatch.prems(2)]) (auto simp: BeginDispatch_def Let_def)
next
  case (pending_end i r)
  show ?case by (intro reported_same [OF pending_end.prems(2)]) (auto simp: PendingDispatch_End_def)
next
  case (observe r b)
  show ?case by (intro reported_same [OF observe.prems(2)]) (auto simp: ObserveBarrier_def)
next
  case (freeze r)
  show ?case by (intro reported_same [OF freeze.prems(2)]) (auto simp: FreezeInFlight_def Let_def)
next
  case (drain_finish r)
  show ?case by (intro reported_same [OF drain_finish.prems(2)]) (auto simp: Drain_finish_def)
next
  case (close_begin r)
  show ?case by (intro reported_same [OF close_begin.prems(2)]) (auto simp: Close_begin_def)
qed (simp_all add: reported_install reported_end_mark reported_end_report reported_start_close
      reported_close_resource)

definition sink_inv :: "exec_registry \<Rightarrow> bool" where
  "sink_inv r \<longleftrightarrow>
     (\<forall>k g n. releaseSink r = Some k \<longrightarrow> mget (releaseSequences r) g = Some n \<longrightarrow> 0 < n \<longrightarrow> reported r k g n)"

lemma sink_same:
  "er_step r r' \<Longrightarrow> (\<exists>i s. mget (er_objs r) i = Some s \<and> so_end s = EndClosed \<and> r' = end_mark i r) \<or>
     (\<exists>k. r' = SetReleaseSink k r) \<or> releaseSequences r' = releaseSequences r \<and> releaseSink r' = releaseSink r"
proof (induction rule: er_step.induct)
  case (end_mark r i s)
  then show ?case by blast
next
  case (set_sink r sink)
  then show ?case by blast
qed (auto simp: er_ops split: option.splits close_done.splits end_phase.splits registry_state.splits)

lemma sink_inv_mark:
  assumes "mget (er_objs r) i = Some s" and "sink_inv r"
    and mono: "\<And>k g n. reported r k g n \<Longrightarrow> 0 < n \<Longrightarrow> reported (end_mark i r) k g n"
  shows "sink_inv (end_mark i r)"
  unfolding sink_inv_def
proof (intro allI impI)
  fix k g n
  assume k: "releaseSink (end_mark i r) = Some k" and g: "mget (releaseSequences (end_mark i r)) g = Some n" and n: "0 < n"
  have k': "releaseSink r = Some k" using k assms(1) by (auto simp: end_mark_def markReleasedLocked_def Let_def split: if_splits)
  show "reported (end_mark i r) k g n"
  proof (cases "Accounted (so_spec s) \<and> g = scope_group s")
    case True
    then have "mget (er_objs (end_mark i r)) i = Some (s\<lparr>so_end := EndMarked (Some k) g n\<rparr>)"
      using assms(1) k' g by (auto simp: end_mark_def markReleasedLocked_def Let_def scope_group_def)
    then show ?thesis unfolding reported_def by (metis scope_obj.select_convs(5) scope_obj.surjective scope_obj.update_convs(5))
  next
    case False
    then have "mget (releaseSequences r) g = Some n"
      using assms(1) g by (auto simp: end_mark_def markReleasedLocked_def Let_def scope_group_def split: if_splits)
    with assms(2) k' n mono show ?thesis by (auto simp: sink_inv_def)
  qed
qed

lemma sink_inv_set: "sink_inv (SetReleaseSink sink r)"
  by (force simp: sink_inv_def SetReleaseSink_def reported_def dest: map_of_SomeD split: option.splits)

lemma sink_inv_reachable: "er_reachable r \<Longrightarrow> sink_inv r"
proof (induction rule: er_reachable.induct)
  case start
  show ?case by (simp add: sink_inv_def New_registry_def)
next
  case (step r r')
  note mono = reported_step [OF step(2) ids_inv_reachable [OF step(1)]]
  from sink_same [OF step(2)] show ?case
  proof (elim disjE exE conjE)
    fix i s assume "mget (er_objs r) i = Some s" and r': "r' = end_mark i r"
    with sink_inv_mark [OF _ step.IH] mono show ?thesis by blast
  next
    fix k assume "r' = SetReleaseSink k r"
    then show ?thesis by (simp add: sink_inv_set)
  next
    assume "releaseSequences r' = releaseSequences r" "releaseSink r' = releaseSink r"
    with step.IH mono show ?thesis by (simp add: sink_inv_def)
  qed
qed

subsection \<open>A small run\<close>

definition sample_spec :: scope_spec where
  "sample_spec = \<lparr>RequestID = ''r1'', CredentialID = ''c1'', Model = ''m1'', Kind = ''http'', StartedAt = 7,
     Accounted = True\<rparr>"

definition sample_pending :: exec_registry where
  "sample_pending = snd (BeginDispatch New_registry)"

definition sample_installed :: exec_registry where
  "sample_installed = snd (Install 1 sample_spec sample_pending)"

definition sample_ended :: exec_registry where
  "sample_ended = EndWithRelease 1 sample_installed"

lemma er_run: "er_step\<^sup>*\<^sup>* r r' \<Longrightarrow> er_reachable r \<Longrightarrow> er_reachable r'"
  by (induction rule: rtranclp_induct) (auto intro: er_reachable.step)

lemma sample_objs: "mget (er_objs sample_installed) 1 = Some (new_scope sample_spec)"
  by (simp add: sample_installed_def sample_pending_def Install_def BeginDispatch_def New_registry_def new_scope_def)

lemma sample_reachable: "er_reachable sample_pending" "er_reachable sample_installed"
proof -
  show p: "er_reachable sample_pending"
    unfolding sample_pending_def by (rule er_reachable.step [OF er_reachable.start er_step.dispatch])
  show "er_reachable sample_installed"
    unfolding sample_installed_def
    by (rule er_reachable.step [OF p er_step.install])
       (simp_all add: sample_pending_def BeginDispatch_def New_registry_def)
qed

text \<open>A scope ended without interruption, as a path of the step relation.\<close>

lemma close_now:
  assumes "mget (er_objs r) i = Some s" and "so_end s = EndWaiting"
  obtains s' where "mget (er_objs (closeResource i (startBoundResourceClose i r))) i = Some s'"
    and "so_end s' = EndWaiting" and "close_finished s'" and "so_spec s' = so_spec s"
proof -
  obtain s1 where s1: "mget (er_objs (startBoundResourceClose i r)) i = Some s1" "so_end s1 = EndWaiting"
    "so_spec s1 = so_spec s" "so_closeDone s1 = NoCloseDone \<longrightarrow> so_closeFn s1 = None"
  proof (cases "so_closeDone s = NoCloseDone")
    case True
    with assms that show thesis by (cases "so_closeFn s") (auto simp: startBoundResourceClose_def)
  next
    case False
    with assms that show thesis by (auto simp: startBoundResourceClose_def)
  qed
  then show thesis
    using that by (cases "so_closeDone s1") (auto simp: closeResource_def close_finished_def)
qed

lemma EndWithRelease_path:
  assumes "mget (er_objs r) i = Some s" and "so_end s = NotEnded"
  shows "er_step\<^sup>*\<^sup>* r (EndWithRelease i r) \<and>
         (\<exists>s'. mget (er_objs (EndWithRelease i r)) i = Some s' \<and> so_end s' = EndDone \<and> close_finished s') \<and>
         i \<notin> set (er_scopes (EndWithRelease i r))"
proof -
  define r1 where "r1 = end_begin i r"
  define r2 where "r2 = startBoundResourceClose i r1"
  define r3 where "r3 = closeResource i r2"
  define r4 where "r4 = end_closed i r3"
  define r5 where "r5 = end_mark i r4"
  define r6 where "r6 = end_report i r5"
  have E: "EndWithRelease i r = end_delete i r6"
    using assms by (simp add: EndWithRelease_def r1_def r2_def r3_def r4_def r5_def r6_def)
  have p1: "er_step r r1" unfolding r1_def using assms by (rule er_step.end_begin)
  have s1: "mget (er_objs r1) i = Some (s\<lparr>so_active := False, so_end := EndWaiting\<rparr>)"
    using assms by (simp add: r1_def end_begin_def)
  have p2: "er_step r1 r2" unfolding r2_def using s1 by (rule er_step.end_start_close) simp
  have p3: "er_step r2 r3" unfolding r3_def by (rule er_step.close_resource)
  obtain s3 where s3: "mget (er_objs r3) i = Some s3" "so_end s3 = EndWaiting" "close_finished s3"
    using close_now [OF s1] unfolding r3_def r2_def by auto
  have p4: "er_step r3 r4" unfolding r4_def using s3 by (rule er_step.end_closed)
  have s4: "mget (er_objs r4) i = Some (s3\<lparr>so_end := EndClosed\<rparr>)" using s3(1) by (simp add: r4_def end_closed_def)
  have p5: "er_step r4 r5" unfolding r5_def using s4 by (rule er_step.end_mark) simp
  obtain k g n where o5: "er_objs r5 = er_objs (upd_scope i (\<lambda>s. s\<lparr>so_end := EndMarked k g n\<rparr>) r4)"
    using end_mark_eq [OF s4] unfolding r5_def .
  have s5: "mget (er_objs r5) i = Some (s3\<lparr>so_end := EndMarked k g n\<rparr>)" using s4 by (simp add: o5)
  have p6: "er_step r5 r6" unfolding r6_def using s5 by (rule er_step.end_report) simp
  have s6: "mget (er_objs r6) i = Some (s3\<lparr>so_end := EndReported\<rparr>)"
    using s5 by (auto simp: r6_def end_report_def split: option.splits)
  have p7: "er_step r6 (end_delete i r6)" using s6 by (rule er_step.end_delete) simp
  have "er_step\<^sup>*\<^sup>* r (end_delete i r6)"
    using p1 p2 p3 p4 p5 p6 p7 by (meson rtranclp.rtrancl_into_rtrancl rtranclp.rtrancl_refl)
  moreover have "mget (er_objs (end_delete i r6)) i = Some (s3\<lparr>so_end := EndDone\<rparr>)"
    using s6 by (simp add: end_delete_def)
  moreover have "close_finished (s3\<lparr>so_end := EndDone\<rparr>)"
    using s3(3) by (simp add: close_finished_def split: close_done.splits)
  moreover have "i \<notin> set (er_scopes (end_delete i r6))" by (simp add: end_delete_def)
  moreover have "so_end (s3\<lparr>so_end := EndDone\<rparr>) = EndDone" by simp
  ultimately show ?thesis unfolding E by blast
qed

lemma EndWithRelease_reachable:
  "er_reachable r \<Longrightarrow> mget (er_objs r) i = Some s \<Longrightarrow> so_end s = NotEnded \<Longrightarrow> er_reachable (EndWithRelease i r)"
  using EndWithRelease_path er_run by blast

lemma sample_ended_reachable: "er_reachable sample_ended"
  unfolding sample_ended_def by (rule EndWithRelease_reachable [OF sample_reachable(2) sample_objs]) simp

section \<open>Properties\<close>

text \<open>C34: exactly-once accounting. In every interleaving the release sequence of a group is the number
  of its accounted scopes that have passed their release, each counted once however often its end is
  called, and none before its resource is closed.\<close>

theorem release_sequence_counts_ends:
  assumes "er_reachable r"
  shows "sequence_of r g =
           card {i. \<exists>s. mget (er_objs r) i = Some s \<and> so_end s \<notin> {NotEnded, EndWaiting, EndClosed} \<and>
                        Accounted (so_spec s) \<and> scope_group s = g} \<and>
         (\<forall>i s. mget (er_objs r) i = Some s \<longrightarrow> so_end s \<notin> {NotEnded, EndWaiting} \<longrightarrow> close_finished s)"
proof -
  have ids: "ids_inv r" using assms by (rule ids_inv_reachable)
  then have wf: "wf_map (er_objs r)" by (simp add: ids_inv_def)
  let ?l = "filter (\<lambda>e. counted g (snd e)) (er_objs r)"
  have "{i. \<exists>s. mget (er_objs r) i = Some s \<and> so_end s \<notin> {NotEnded, EndWaiting, EndClosed} \<and>
      Accounted (so_spec s) \<and> scope_group s = g} = set (map fst ?l)"
    using wf by (force simp: map_of_eq_Some_iff counted_def released_def)
  moreover have "distinct (map fst ?l)" using wf by (rule distinct_map_filter)
  then have "card (set (map fst ?l)) = released_count g (er_objs r)"
    by (simp add: distinct_card released_count_def del: set_map)
  ultimately have "sequence_of r g = card {i. \<exists>s. mget (er_objs r) i = Some s \<and>
      so_end s \<notin> {NotEnded, EndWaiting, EndClosed} \<and> Accounted (so_spec s) \<and> scope_group s = g}"
    using account_inv_reachable [OF assms] by (simp add: account_inv_def)
  moreover have "close_finished s" if "mget (er_objs r) i = Some s" "so_end s \<notin> {NotEnded, EndWaiting}" for i s
    using ids that by (auto simp: ids_inv_def scope_ok_def)
  ultimately show ?thesis by blast
qed

theorem release_sequence_counts_ends_witness:
  "card {i. \<exists>s. mget (er_objs sample_ended) i = Some s \<and> so_end s \<notin> {NotEnded, EndWaiting, EndClosed} \<and>
     Accounted (so_spec s) \<and> scope_group s = \<lparr>rg_CredentialID = ''c1'', rg_Model = ''m1''\<rparr>} = 1"
proof -
  have "sequence_of sample_ended \<lparr>rg_CredentialID = ''c1'', rg_Model = ''m1''\<rparr> = 1" by code_simp
  with release_sequence_counts_ends [OF sample_ended_reachable, of "\<lparr>rg_CredentialID = ''c1'', rg_Model = ''m1''\<rparr>"] show ?thesis
    by simp
qed

text \<open>a call of \<open>EndWithRelease\<close> that is not interrupted finishes: the resource has been closed, the
  scope is no longer registered, and ending it again changes nothing.\<close>

theorem EndWithRelease_finishes:
  assumes "mget (er_objs r) i = Some s" and "so_end s = NotEnded"
  shows "er_step\<^sup>*\<^sup>* r (EndWithRelease i r) \<and> i \<notin> set (er_scopes (EndWithRelease i r)) \<and>
         (\<exists>s'. mget (er_objs (EndWithRelease i r)) i = Some s' \<and> so_end s' = EndDone \<and> close_finished s') \<and>
         EndWithRelease i (EndWithRelease i r) = EndWithRelease i r"
proof -
  from EndWithRelease_path [OF assms] obtain s' where
    p: "er_step\<^sup>*\<^sup>* r (EndWithRelease i r)" "i \<notin> set (er_scopes (EndWithRelease i r))"
    and s': "mget (er_objs (EndWithRelease i r)) i = Some s'" "so_end s' = EndDone" "close_finished s'" by blast
  then have "EndWithRelease i (EndWithRelease i r) = EndWithRelease i r"
    by (simp add: EndWithRelease_def [of i "EndWithRelease i r"])
  with p s' show ?thesis by blast
qed

theorem EndWithRelease_finishes_witness:
  "1 \<notin> set (er_scopes sample_ended) \<and> EndWithRelease 1 sample_ended = sample_ended"
  using EndWithRelease_finishes [OF sample_objs] by (simp add: sample_ended_def)

lemma barrier_sequence:
  "er_step\<^sup>*\<^sup>* r r' \<Longrightarrow> observedBarrier r \<le> observedBarrier r' \<and>
     (observedBarrier r' = observedBarrier r \<longrightarrow> pendingBarrierSequence r' = pendingBarrierSequence r)"
proof (induction rule: rtranclp_induct)
  case (step y z)
  have "observedBarrier y \<le> observedBarrier z \<and>
      (observedBarrier z = observedBarrier y \<longrightarrow> pendingBarrierSequence z = pendingBarrierSequence y)"
    using step(2) by (induction rule: er_step.induct)
       (auto simp: er_ops split: option.splits close_done.splits end_phase.splits registry_state.splits)
  with step.IH show ?case by auto
qed simp

text \<open>C35: a barrier is published only when every dispatch that was pending when it was observed has
  been installed or ended; the snapshot that carries it lists every scope that has not ended.\<close>

theorem barrier_waits_for_dispatches:
  assumes "er_reachable r0" and "observedBarrier r0 < b" and "er_step\<^sup>*\<^sup>* (ObserveBarrier b r0) r"
    and "FreezeInFlight r = (f, r')" and "BarrierRevision f = b" and "observedBarrier r = b"
  shows "(\<forall>i \<in> set (er_pending r0). i \<notin> set (er_pending r')) \<and>
         Executions f = map (observe_scope \<circ> so_spec) (List.map_filter (mget (er_objs r)) (er_scopes r)) \<and>
         (\<forall>i s. mget (er_objs r) i = Some s \<longrightarrow> so_end s \<noteq> EndDone \<longrightarrow> i \<in> set (er_scopes r))"
proof -
  have b0: "0 \<le> observedBarrier r0" using barrier_inv_reachable [OF assms(1)] by (simp add: barrier_inv_def)
  let ?r1 = "ObserveBarrier b r0"
  have r1: "observedBarrier ?r1 = b" "pendingBarrierSequence ?r1 = er_next r0"
    using assms(2) b0 by (simp_all add: ObserveBarrier_def)
  have reach1: "er_reachable ?r1" using assms(1) er_step.observe er_reachable.step by blast
  have reach: "er_reachable r" using er_run [OF assms(3) reach1] .
  have reach': "er_reachable r'" using er_reachable.step [OF reach er_step.freeze] assms(4) by simp
  from barrier_sequence [OF assms(3)] r1 assms(6) have seq: "pendingBarrierSequence r = er_next r0" by simp
  have "publishedBarrier r' = b" "observedBarrier r' = b" "pendingBarrierSequence r' = er_next r0"
    using assms(4-6) seq by (auto simp: FreezeInFlight_def Let_def split: if_splits)
  with barrier_inv_reachable [OF reach'] have "\<forall>i \<in> set (er_pending r'). er_next r0 < i"
    by (simp add: barrier_inv_def)
  moreover have "\<forall>i \<in> set (er_pending r0). i \<le> er_next r0"
    using ids_inv_reachable [OF assms(1)] by (simp add: ids_inv_def)
  ultimately have "\<forall>i \<in> set (er_pending r0). i \<notin> set (er_pending r')" by fastforce
  moreover have "Executions f = map (observe_scope \<circ> so_spec) (List.map_filter (mget (er_objs r)) (er_scopes r))"
    using assms(4) by (auto simp: FreezeInFlight_def Let_def split: if_splits)
  ultimately show ?thesis using ids_inv_reachable [OF reach] by (simp add: ids_inv_def)
qed

theorem barrier_waits_for_dispatches_witness:
  "1 \<notin> set (er_pending (snd (FreezeInFlight (PendingDispatch_End 1 (ObserveBarrier 5 sample_pending)))))"
proof -
  let ?r = "PendingDispatch_End 1 (ObserveBarrier 5 sample_pending)"
  have n: "observedBarrier sample_pending < 5" "er_next (ObserveBarrier 5 sample_pending) = 1"
    "er_pending sample_pending = [1]" "observedBarrier ?r = 5" "BarrierRevision (fst (FreezeInFlight ?r)) = 5"
    by code_simp+
  then have "er_step\<^sup>*\<^sup>* (ObserveBarrier 5 sample_pending) ?r" using er_step.pending_end by auto
  from barrier_waits_for_dispatches [OF sample_reachable(1) n(1) this, of "fst (FreezeInFlight ?r)" "snd (FreezeInFlight ?r)"] n
  show ?thesis by simp
qed

text \<open>when a \<open>Drain\<close> returns, nothing is left and nothing can follow: the registry is closed, no
  dispatch is pending, every scope ever installed has ended with its resource closed, and no later
  step can add work or open the registry again.\<close>

theorem drained_is_final:
  assumes "er_reachable r" and "er_drained r" and "er_step\<^sup>*\<^sup>* r r'"
  shows "er_state r' = StateClosed \<and> er_pending r' = [] \<and> er_scopes r' = [] \<and>
         (\<forall>i s. mget (er_objs r') i = Some s \<longrightarrow> so_end s = EndDone \<and> close_finished s)"
proof -
  have "er_drained z" if "er_step y z" "er_drained y" for y z
    using that by (induction rule: er_step.induct)
      (auto simp: er_ops split: option.splits close_done.splits end_phase.splits registry_state.splits)
  with assms(3,2) have d: "er_drained r'" by (induction rule: rtranclp_induct) auto
  have reach: "er_reachable r'" using er_run [OF assms(3,1)] .
  have *: "er_state r' = StateClosed" "er_pending r' = []" "er_scopes r' = []"
    using drain_inv_reachable [OF reach] d by (simp_all add: drain_inv_def)
  have ids: "ids_inv r'" using reach by (rule ids_inv_reachable)
  have "so_end s = EndDone \<and> close_finished s" if s: "mget (er_objs r') i = Some s" for i s
  proof -
    have "i \<notin> set (er_scopes r')" using * by simp
    with ids s have "so_end s = EndDone" by (auto simp: ids_inv_def)
    moreover have "scope_ok s" using ids s by (auto simp: ids_inv_def)
    ultimately show ?thesis by (simp add: scope_ok_def)
  qed
  with * show ?thesis by blast
qed

theorem drained_is_final_witness:
  "er_scopes (Drain_finish (snd (Drain_begin sample_ended))) = []"
proof -
  let ?d = "snd (Drain_begin sample_ended)"
  have d: "er_reachable ?d" by (rule er_reachable.step [OF sample_ended_reachable er_step.drain_begin])
  have "er_state ?d \<noteq> StateAccepting" "Drain_ready ?d" by code_simp+
  from er_reachable.step [OF d er_step.drain_finish [OF this]]
  show ?thesis using drained_is_final [of "Drain_finish ?d" "Drain_finish ?d"] by (simp add: Drain_finish_def)
qed

text \<open>C36: no release is lost on its way to the sink. Once no call is under way, the current sink has
  received the latest cumulative sequence of every group, including those reached before it was
  set.\<close>

theorem sink_receives_latest:
  assumes "er_reachable r" and "releaseSink r = Some k" and "sink_calls r = []"
    and "\<forall>i s. mget (er_objs r) i = Some s \<longrightarrow> so_end s \<in> {NotEnded, EndWaiting, EndClosed, EndReported, EndDone}"
    and "mget (releaseSequences r) g = Some n" and "0 < n"
  shows "(k, g, n) \<in> set (sink_log r)"
proof -
  have "reported r k g n" using sink_inv_reachable [OF assms(1)] assms(2,5,6) by (simp add: sink_inv_def)
  with assms(3,4) show ?thesis by (fastforce simp: reported_def)
qed

theorem sink_receives_latest_witness:
  "(9, \<lparr>rg_CredentialID = ''c1'', rg_Model = ''m1''\<rparr>, 1) \<in> set (sink_log (EndWithRelease 1 (SetReleaseSink (Some 9) sample_installed)))"
proof -
  let ?r = "EndWithRelease 1 (SetReleaseSink (Some 9) sample_installed)"
  have o: "mget (er_objs (SetReleaseSink (Some 9) sample_installed)) 1 = Some (new_scope sample_spec)"
    using sample_objs by (simp add: SetReleaseSink_def)
  have "er_reachable (SetReleaseSink (Some 9) sample_installed)"
    by (rule er_reachable.step [OF sample_reachable(2) er_step.set_sink])
  from EndWithRelease_reachable [OF this o] have r: "er_reachable ?r" by simp
  have c: "releaseSink ?r = Some 9" "sink_calls ?r = []" "mget (releaseSequences ?r) \<lparr>rg_CredentialID = ''c1'', rg_Model = ''m1''\<rparr> = Some 1"
    "list_all (\<lambda>e. so_end (snd e) = EndDone) (er_objs ?r)"
    by code_simp+
  have "so_end s = EndDone" if "mget (er_objs ?r) i = Some s" for i s
    using c(4) map_of_SomeD [OF that] by (auto simp: list_all_iff)
  then show ?thesis by (intro sink_receives_latest [OF r c(1,2) _ c(3)]) auto
qed

text \<open>C37: every step takes every scope along its life cycle: a scope object is never lost, changes only
  by one transition of the cycle at a time, and keeps its specification; a registry that has stopped
  accepting gains neither dispatches nor scopes.\<close>

theorem scope_life_cycle:
  assumes "er_reachable r" and "er_step r r'" and "mget (er_objs r) i = Some s"
  shows "(\<exists>s'. mget (er_objs r') i = Some s' \<and> (s' = s \<or> scope_trans s s') \<and> so_spec s' = so_spec s) \<and>
         (er_state r \<noteq> StateAccepting \<longrightarrow>
            set (er_pending r') \<subseteq> set (er_pending r) \<and> fst ` set (er_objs r') = fst ` set (er_objs r))"
proof -
  have "\<exists>s'. mget (er_objs r') i = Some s' \<and> (s' = s \<or> scope_trans s s')"
    using er_step_change [OF assms(2)]
  proof cases
    case (c_install j spec)
    then have "mget (er_objs r) j = None" using ids_inv_reachable [OF assms(1)] by (auto simp: ids_inv_def)
    with c_install assms(3) show ?thesis by auto
  qed (use assms(3) in auto)
  then have "\<exists>s'. mget (er_objs r') i = Some s' \<and> (s' = s \<or> scope_trans s s') \<and> so_spec s' = so_spec s"
    using scope_trans_spec by blast
  with not_accepting_step [OF assms(2)] show ?thesis by blast
qed

theorem scope_life_cycle_witness:
  "\<exists>s'. mget (er_objs (end_begin 1 sample_installed)) 1 = Some s' \<and> so_spec s' = sample_spec"
proof -
  have "er_step sample_installed (end_begin 1 sample_installed)"
    using sample_objs by (rule er_step.end_begin) simp
  from scope_life_cycle [OF sample_reachable(2) this sample_objs] show ?thesis
    by (auto simp: new_scope_def)
qed

end
