(* ===== verification/Model_Registry.thy ===== *)
theory Model_Registry
  imports Model_Info "HOL-Library.Product_Lexorder"
begin

text \<open>
  The registry of available models, \<^verbatim>\<open>internal/registry/model_registry.go\<close>: clients register the
  models they serve under a provider; a model's registration counts its clients, in total and per
  provider, and remembers which of them are over quota or suspended; listings are cached per
  handler type until the next quota recovery.

  A nil map behaves like an empty one for every access the code makes, so both are the empty
  association list. \<open>time.Now()\<close> is the argument \<open>now\<close>. The asynchronous hook calls are the
  list \<open>hook_events\<close>. \<open>LookupStaticModelInfo\<close>, which reads the embedded model catalogue, is the
  argument \<open>static\<close> of \<open>LookupModelInfo\<close>.
\<close>

section \<open>State\<close>

definition modelQuotaExceededWindow :: duration where
  "modelQuotaExceededWindow = 5 * Minute"

definition DefaultClaudeMaxInputTokens :: int where
  "DefaultClaudeMaxInputTokens = 200000"

definition DefaultClaudeMaxOutputTokens :: int where
  "DefaultClaudeMaxOutputTokens = 64000"

record model_registration =
  reg_Info :: model_info
  reg_InfoByProvider :: "(string, model_info) gomap"
  reg_Count :: int
  reg_LastUpdated :: time
  reg_QuotaExceededClients :: "(string, time) gomap"
  reg_Providers :: "(string, int) gomap"
  reg_SuspendedClients :: "(string, string) gomap"

type_synonym model_map = "(string, any) gomap"

record available_models_cache_entry =
  ce_models :: "model_map list"
  ce_expiresAt :: time

datatype hook_event =
    OnModelsRegistered string string "model_info list"
  | OnModelsUnregistered string string

record model_registry =
  models :: "(string, model_registration) gomap"
  clientModels :: "(string, string list) gomap"
  clientModelInfos :: "(string, (string, model_info) gomap) gomap"
  clientProviders :: "(string, string) gomap"
  availableModelsCache :: "(string, available_models_cache_entry) gomap"
  hook_set :: bool
  hook_events :: "hook_event list"

definition empty_registry :: model_registry where
  "empty_registry =
     \<lparr>models = [], clientModels = [], clientModelInfos = [], clientProviders = [],
      availableModelsCache = [], hook_set = False, hook_events = []\<rparr>"

definition SetHook :: "bool \<Rightarrow> model_registry \<Rightarrow> model_registry" where
  "SetHook hook r = r\<lparr>hook_set := hook\<rparr>"

definition invalidateAvailableModelsCacheLocked :: "model_registry \<Rightarrow> model_registry" where
  "invalidateAvailableModelsCacheLocked r = r\<lparr>availableModelsCache := []\<rparr>"

fun cloneModelInfosUnique :: "string list \<Rightarrow> model_info option list \<Rightarrow> model_info list" where
  "cloneModelInfosUnique seen [] = []"
| "cloneModelInfosUnique seen (None # ms) = cloneModelInfosUnique seen ms"
| "cloneModelInfosUnique seen (Some m # ms) =
     (if mi_ID m = [] \<or> mi_ID m \<in> set seen then cloneModelInfosUnique seen ms
      else m # cloneModelInfosUnique (mi_ID m # seen) ms)"

definition triggerModelsRegistered ::
  "string \<Rightarrow> string \<Rightarrow> model_info option list \<Rightarrow> model_registry \<Rightarrow> model_registry" where
  "triggerModelsRegistered provider clientID ms r =
     (if hook_set r
      then r\<lparr>hook_events := hook_events r @ [OnModelsRegistered provider clientID (cloneModelInfosUnique [] ms)]\<rparr>
      else r)"

definition triggerModelsUnregistered :: "string \<Rightarrow> string \<Rightarrow> model_registry \<Rightarrow> model_registry" where
  "triggerModelsUnregistered provider clientID r =
     (if hook_set r then r\<lparr>hook_events := hook_events r @ [OnModelsUnregistered provider clientID]\<rparr> else r)"

section \<open>Registrations\<close>

text \<open>What an operation does to the registration of one model; \<open>None\<close> is an absent entry.\<close>

definition upd_model ::
  "string \<Rightarrow> (model_registration option \<Rightarrow> model_registration option) \<Rightarrow> model_registry \<Rightarrow> model_registry" where
  "upd_model modelID f r =
     r\<lparr>models := (case f (mget (models r) modelID) of
                   None \<Rightarrow> mdel modelID (models r)
                 | Some reg \<Rightarrow> mput modelID reg (models r))\<rparr>"

definition count_of :: "('k, int) gomap \<Rightarrow> 'k \<Rightarrow> int" where
  "count_of m k = (case mget m k of None \<Rightarrow> 0 | Some n \<Rightarrow> n)"

definition add_reg ::
  "string \<Rightarrow> model_info \<Rightarrow> time \<Rightarrow> model_registration option \<Rightarrow> model_registration option" where
  "add_reg provider model now existing0 =
     (case existing0 of
        Some existing \<Rightarrow>
          let e1 = existing\<lparr>reg_Count := reg_Count existing + 1, reg_LastUpdated := now, reg_Info := model\<rparr>
          in Some (if provider \<noteq> []
                   then e1\<lparr>reg_Providers := mput provider (count_of (reg_Providers e1) provider + 1) (reg_Providers e1),
                           reg_InfoByProvider := mput provider model (reg_InfoByProvider e1)\<rparr>
                   else e1)
      | None \<Rightarrow>
          Some \<lparr>reg_Info = model,
                reg_InfoByProvider = (if provider \<noteq> [] then [(provider, model)] else []),
                reg_Count = 1, reg_LastUpdated = now, reg_QuotaExceededClients = [],
                reg_Providers = (if provider \<noteq> [] then [(provider, 1)] else []),
                reg_SuspendedClients = []\<rparr>)"

definition addModelRegistration ::
  "string \<Rightarrow> string \<Rightarrow> model_info \<Rightarrow> time \<Rightarrow> model_registry \<Rightarrow> model_registry" where
  "addModelRegistration modelID provider model now r =
     (if modelID = [] then r else upd_model modelID (add_reg provider model now) r)"

text \<open>One client less for \<open>provider\<close>.\<close>

definition drop_provider :: "string \<Rightarrow> int \<Rightarrow> model_registration \<Rightarrow> model_registration" where
  "drop_provider provider n reg =
     (case mget (reg_Providers reg) provider of
        None \<Rightarrow> reg
      | Some c \<Rightarrow>
          if c \<le> n
          then reg\<lparr>reg_Providers := mdel provider (reg_Providers reg),
                   reg_InfoByProvider := mdel provider (reg_InfoByProvider reg)\<rparr>
          else reg\<lparr>reg_Providers := mput provider (c - n) (reg_Providers reg)\<rparr>)"

definition remove_reg ::
  "string \<Rightarrow> string \<Rightarrow> time \<Rightarrow> model_registration option \<Rightarrow> model_registration option" where
  "remove_reg clientID provider now registration0 =
     (case registration0 of
        None \<Rightarrow> None
      | Some registration \<Rightarrow>
          let r1 = registration
                \<lparr>reg_Count := reg_Count registration - 1, reg_LastUpdated := now,
                 reg_QuotaExceededClients := mdel clientID (reg_QuotaExceededClients registration),
                 reg_SuspendedClients := mdel clientID (reg_SuspendedClients registration)\<rparr>;
              r2 = (if reg_Count r1 < 0 then r1\<lparr>reg_Count := 0\<rparr> else r1);
              r3 = (if provider \<noteq> [] then drop_provider provider 1 r2 else r2)
          in if reg_Count r3 \<le> 0 then None else Some r3)"

definition removeModelRegistration ::
  "string \<Rightarrow> string \<Rightarrow> string \<Rightarrow> time \<Rightarrow> model_registry \<Rightarrow> model_registry" where
  "removeModelRegistration clientID modelID provider now r =
     upd_model modelID (remove_reg clientID provider now) r"

text \<open>The body of the loop of \<open>unregisterClientInternal\<close>.\<close>

definition unregister_reg ::
  "string \<Rightarrow> string option \<Rightarrow> time \<Rightarrow> model_registration option \<Rightarrow> model_registration option" where
  "unregister_reg clientID provider now registration0 =
     (case registration0 of
        None \<Rightarrow> None
      | Some registration \<Rightarrow>
          let r1 = registration
                \<lparr>reg_Count := reg_Count registration - 1, reg_LastUpdated := now,
                 reg_QuotaExceededClients := mdel clientID (reg_QuotaExceededClients registration),
                 reg_SuspendedClients := mdel clientID (reg_SuspendedClients registration)\<rparr>;
              r2 = (case provider of None \<Rightarrow> r1 | Some p \<Rightarrow> drop_provider p 1 r1)
          in if reg_Count r2 \<le> 0 then None else Some r2)"

definition unregisterClientInternal :: "string \<Rightarrow> time \<Rightarrow> model_registry \<Rightarrow> model_registry" where
  "unregisterClientInternal clientID now r =
     (let provider = mget (clientProviders r) clientID in
      case mget (clientModels r) clientID of
        None \<Rightarrow> r\<lparr>clientProviders := mdel clientID (clientProviders r)\<rparr>
      | Some ms \<Rightarrow>
          let r1 = fold (\<lambda>modelID. upd_model modelID (unregister_reg clientID provider now)) ms r;
              r2 = r1\<lparr>clientModels := mdel clientID (clientModels r1),
                      clientModelInfos := mdel clientID (clientModelInfos r1),
                      clientProviders := mdel clientID (clientProviders r1)\<rparr>
          in triggerModelsUnregistered (case provider of None \<Rightarrow> [] | Some p \<Rightarrow> p) clientID r2)"

definition UnregisterClient :: "string \<Rightarrow> time \<Rightarrow> model_registry \<Rightarrow> model_registry" where
  "UnregisterClient clientID now r =
     invalidateAvailableModelsCacheLocked (unregisterClientInternal clientID now r)"

subsection \<open>\<open>RegisterClient\<close>\<close>

text \<open>The models of the call with an id, in order; the first one of each id is the one kept.\<close>

definition named_models :: "model_info option list \<Rightarrow> model_info list" where
  "named_models ms = filter (\<lambda>m. mi_ID m \<noteq> []) (List.map_filter id ms)"

definition counts :: "string list \<Rightarrow> (string, int) gomap" where
  "counts ids = fold (\<lambda>i m. mput i (count_of m i + 1) m) ids []"

fun first_infos :: "(string, model_info) gomap \<Rightarrow> model_info list \<Rightarrow> (string, model_info) gomap" where
  "first_infos acc [] = acc"
| "first_infos acc (m # ms) =
     (if mget acc (mi_ID m) \<noteq> None then first_infos acc ms
      else first_infos (mput (mi_ID m) m acc) ms)"

text \<open>Reconciliation, one definition per loop. First the provider of models that stay.\<close>

definition move_provider_reg :: "string \<Rightarrow> int \<Rightarrow> model_registration option \<Rightarrow> model_registration option" where
  "move_provider_reg oldProvider toRemove reg =
     (case reg of None \<Rightarrow> None | Some g \<Rightarrow> Some (drop_provider oldProvider toRemove g))"

definition leave_old_provider ::
  "string \<Rightarrow> (string, int) gomap \<Rightarrow> (string, int) gomap \<Rightarrow> model_registry \<Rightarrow> model_registry" where
  "leave_old_provider oldProvider newCounts oldCounts r =
     fold (\<lambda>(modelID, newCount) r.
        let oldCount = count_of oldCounts modelID in
        if newCount = 0 \<or> oldCount = 0 then r
        else upd_model modelID
               (move_provider_reg oldProvider (if oldCount < newCount then oldCount else newCount)) r)
       newCounts r"

definition remove_times ::
  "string \<Rightarrow> string \<Rightarrow> time \<Rightarrow> string \<Rightarrow> int \<Rightarrow> model_registry \<Rightarrow> model_registry" where
  "remove_times clientID provider now modelID n r =
     (removeModelRegistration clientID modelID provider now ^^ nat n) r"

definition add_times ::
  "string \<Rightarrow> model_info \<Rightarrow> time \<Rightarrow> string \<Rightarrow> int \<Rightarrow> model_registry \<Rightarrow> model_registry" where
  "add_times provider model now modelID n r =
     (addModelRegistration modelID provider model now ^^ nat n) r"

definition remove_gone ::
  "string \<Rightarrow> string \<Rightarrow> time \<Rightarrow> (string, int) gomap \<Rightarrow> (string, int) gomap \<Rightarrow> model_registry \<Rightarrow> model_registry" where
  "remove_gone clientID oldProvider now newCounts oldCounts r =
     fold (\<lambda>modelID. remove_times clientID oldProvider now modelID (count_of oldCounts modelID))
       (filter (\<lambda>modelID. count_of newCounts modelID = 0) (map fst oldCounts)) r"

definition remove_overage ::
  "string \<Rightarrow> string \<Rightarrow> time \<Rightarrow> (string, int) gomap \<Rightarrow> (string, int) gomap \<Rightarrow> model_registry \<Rightarrow> model_registry" where
  "remove_overage clientID oldProvider now newCounts oldCounts r =
     fold (\<lambda>(modelID, oldCount) r.
        let newCount = count_of newCounts modelID in
        if newCount = 0 \<or> oldCount \<le> newCount then r
        else remove_times clientID oldProvider now modelID (oldCount - newCount) r)
       oldCounts r"

definition add_missing ::
  "string \<Rightarrow> time \<Rightarrow> (string, model_info) gomap \<Rightarrow> (string, int) gomap \<Rightarrow> (string, int) gomap \<Rightarrow>
   model_registry \<Rightarrow> model_registry" where
  "add_missing provider now newModels newCounts oldCounts r =
     fold (\<lambda>(modelID, newCount) r.
        let oldCount = count_of oldCounts modelID in
        if newCount \<le> oldCount then r
        else case mget newModels modelID of
               None \<Rightarrow> r
             | Some model \<Rightarrow> add_times provider model now modelID (newCount - oldCount) r)
       newCounts r"

definition refresh_reg ::
  "string \<Rightarrow> string \<Rightarrow> bool \<Rightarrow> time \<Rightarrow> model_info \<Rightarrow> int \<Rightarrow> int \<Rightarrow> model_registration option \<Rightarrow>
   model_registration option" where
  "refresh_reg clientID provider providerChanged now model newCount oldCount reg0 =
     (case reg0 of
        None \<Rightarrow> None
      | Some reg \<Rightarrow>
          let r1 = reg\<lparr>reg_Info := model,
                       reg_InfoByProvider :=
                         (if provider \<noteq> [] then mput provider model (reg_InfoByProvider reg)
                          else reg_InfoByProvider reg),
                       reg_LastUpdated := now,
                       reg_QuotaExceededClients := mdel clientID (reg_QuotaExceededClients reg),
                       reg_SuspendedClients := mdel clientID (reg_SuspendedClients reg)\<rparr>;
              overlapCount = (if oldCount < newCount then oldCount else newCount)
          in if providerChanged \<and> provider \<noteq> [] \<and> oldCount \<noteq> 0 \<and> overlapCount > 0
             then Some (r1\<lparr>reg_Providers :=
                             mput provider (count_of (reg_Providers r1) provider + overlapCount) (reg_Providers r1)\<rparr>)
             else Some r1)"

definition refresh_metadata ::
  "string \<Rightarrow> string \<Rightarrow> bool \<Rightarrow> time \<Rightarrow> (string, model_info) gomap \<Rightarrow> (string, int) gomap \<Rightarrow>
   (string, int) gomap \<Rightarrow> model_registry \<Rightarrow> model_registry" where
  "refresh_metadata clientID provider providerChanged now newModels newCounts oldCounts r =
     fold (\<lambda>(modelID, model).
        upd_model modelID
          (refresh_reg clientID provider providerChanged now model (count_of newCounts modelID)
             (count_of oldCounts modelID)))
       newModels r"

definition store_client ::
  "string \<Rightarrow> string \<Rightarrow> string list \<Rightarrow> (string, model_info) gomap \<Rightarrow> model_registry \<Rightarrow> model_registry" where
  "store_client clientID provider rawModelIDs newModels r =
     r\<lparr>clientModels := mput clientID rawModelIDs (clientModels r),
       clientModelInfos := mput clientID newModels (clientModelInfos r),
       clientProviders :=
         (if provider \<noteq> [] then mput clientID provider (clientProviders r)
          else mdel clientID (clientProviders r))\<rparr>"

definition RegisterClient ::
  "string \<Rightarrow> string \<Rightarrow> model_info option list \<Rightarrow> time \<Rightarrow> model_registry \<Rightarrow> model_registry" where
  "RegisterClient clientID clientProvider ms now r =
     (let provider = ToLower clientProvider;
          named = named_models ms;
          rawModelIDs = map mi_ID named;
          newModels = first_infos [] named;
          newCounts = counts rawModelIDs
      in if rawModelIDs = [] then
           let r1 = unregisterClientInternal clientID now r
           in invalidateAvailableModelsCacheLocked
                (r1\<lparr>clientModels := mdel clientID (clientModels r1),
                    clientModelInfos := mdel clientID (clientModelInfos r1),
                    clientProviders := mdel clientID (clientProviders r1)\<rparr>)
         else
           case mget (clientModels r) clientID of
             None \<Rightarrow>
               let r1 = fold (\<lambda>modelID r. case mget newModels modelID of
                                 None \<Rightarrow> r
                               | Some model \<Rightarrow> addModelRegistration modelID provider model now r)
                          rawModelIDs r
               in triggerModelsRegistered provider clientID ms
                    (invalidateAvailableModelsCacheLocked
                       (store_client clientID provider rawModelIDs newModels r1))
           | Some oldModels \<Rightarrow>
               let oldProvider = (case mget (clientProviders r) clientID of None \<Rightarrow> [] | Some p \<Rightarrow> p);
                   providerChanged = (oldProvider \<noteq> provider);
                   oldCounts = counts oldModels;
                   r1 = (if providerChanged \<and> oldProvider \<noteq> []
                         then leave_old_provider oldProvider newCounts oldCounts r else r);
                   r2 = remove_gone clientID oldProvider now newCounts oldCounts r1;
                   r3 = remove_overage clientID oldProvider now newCounts oldCounts r2;
                   r4 = add_missing provider now newModels newCounts oldCounts r3;
                   r5 = refresh_metadata clientID provider providerChanged now newModels newCounts oldCounts r4
               in triggerModelsRegistered provider clientID ms
                    (invalidateAvailableModelsCacheLocked
                       (store_client clientID provider rawModelIDs newModels r5)))"

section \<open>Quota and suspension\<close>

definition SetModelQuotaExceeded :: "string \<Rightarrow> string \<Rightarrow> time \<Rightarrow> model_registry \<Rightarrow> model_registry" where
  "SetModelQuotaExceeded clientID modelID now r =
     (case mget (models r) modelID of
        None \<Rightarrow> r
      | Some reg \<Rightarrow>
          invalidateAvailableModelsCacheLocked
            (r\<lparr>models := mput modelID
                 (reg\<lparr>reg_QuotaExceededClients := mput clientID now (reg_QuotaExceededClients reg)\<rparr>) (models r)\<rparr>))"

definition ClearModelQuotaExceeded :: "string \<Rightarrow> string \<Rightarrow> model_registry \<Rightarrow> model_registry" where
  "ClearModelQuotaExceeded clientID modelID r =
     (case mget (models r) modelID of
        None \<Rightarrow> r
      | Some reg \<Rightarrow>
          invalidateAvailableModelsCacheLocked
            (r\<lparr>models := mput modelID
                 (reg\<lparr>reg_QuotaExceededClients := mdel clientID (reg_QuotaExceededClients reg)\<rparr>) (models r)\<rparr>))"

definition SuspendClientModel ::
  "string \<Rightarrow> string \<Rightarrow> string \<Rightarrow> time \<Rightarrow> model_registry \<Rightarrow> model_registry" where
  "SuspendClientModel clientID modelID reason now r =
     (if clientID = [] \<or> modelID = [] then r
      else case mget (models r) modelID of
             None \<Rightarrow> r
           | Some reg \<Rightarrow>
               if mget (reg_SuspendedClients reg) clientID \<noteq> None then r
               else invalidateAvailableModelsCacheLocked
                      (r\<lparr>models := mput modelID
                           (reg\<lparr>reg_SuspendedClients := mput clientID reason (reg_SuspendedClients reg),
                                reg_LastUpdated := now\<rparr>) (models r)\<rparr>))"

definition ResumeClientModel :: "string \<Rightarrow> string \<Rightarrow> time \<Rightarrow> model_registry \<Rightarrow> model_registry" where
  "ResumeClientModel clientID modelID now r =
     (if clientID = [] \<or> modelID = [] then r
      else case mget (models r) modelID of
             None \<Rightarrow> r
           | Some reg \<Rightarrow>
               if mget (reg_SuspendedClients reg) clientID = None then r
               else invalidateAvailableModelsCacheLocked
                      (r\<lparr>models := mput modelID
                           (reg\<lparr>reg_SuspendedClients := mdel clientID (reg_SuspendedClients reg),
                                reg_LastUpdated := now\<rparr>) (models r)\<rparr>))"

definition cleanup_reg :: "time \<Rightarrow> model_registration \<Rightarrow> model_registration" where
  "cleanup_reg now reg =
     reg\<lparr>reg_QuotaExceededClients :=
           filter (\<lambda>(_, quotaTime). \<not> now - quotaTime \<ge> modelQuotaExceededWindow) (reg_QuotaExceededClients reg)\<rparr>"

definition CleanupExpiredQuotas :: "time \<Rightarrow> model_registry \<Rightarrow> model_registry" where
  "CleanupExpiredQuotas now r =
     (let r1 = r\<lparr>models := map (\<lambda>(modelID, reg). (modelID, cleanup_reg now reg)) (models r)\<rparr>;
          invalidated = list_ex (\<lambda>(_, reg). list_ex (\<lambda>(_, quotaTime). now - quotaTime \<ge> modelQuotaExceededWindow)
                                      (reg_QuotaExceededClients reg)) (models r)
      in if invalidated then invalidateAvailableModelsCacheLocked r1 else r1)"

section \<open>Queries\<close>

definition ClientSupportsModel :: "string \<Rightarrow> string \<Rightarrow> model_registry \<Rightarrow> bool" where
  "ClientSupportsModel clientID0 modelID0 r =
     (let clientID = TrimSpace clientID0; modelID = TrimSpace modelID0 in
      if clientID = [] \<or> modelID = [] then False
      else case mget (clientModels r) clientID of
             None \<Rightarrow> False
           | Some ids \<Rightarrow> list_ex (\<lambda>i. EqualFold (TrimSpace i) modelID) ids)"

text \<open>\<open>earlier a b\<close>: the earlier of two instants, where the zero time means none.\<close>

definition earlier :: "time \<Rightarrow> time \<Rightarrow> time" where
  "earlier t best = (if IsZero best \<or> t < best then t else best)"

text \<open>The quota loop: how many clients are still over quota, and the earliest recovery.\<close>

fun quota_loop :: "time \<Rightarrow> (string \<times> time) list \<Rightarrow> int \<times> time \<Rightarrow> int \<times> time" where
  "quota_loop now [] acc = acc"
| "quota_loop now ((_, quotaTime) # rest) (expiredClients, expiresAt) =
     (let recoveryAt = quotaTime + modelQuotaExceededWindow in
      if now < recoveryAt
      then quota_loop now rest (expiredClients + 1, earlier recoveryAt expiresAt)
      else quota_loop now rest (expiredClients, expiresAt))"

definition modelRegistrationAvailability :: "model_registration \<Rightarrow> time \<Rightarrow> bool \<times> time" where
  "modelRegistrationAvailability registration now =
     (let availableClients = reg_Count registration;
          quota = quota_loop now (reg_QuotaExceededClients registration) (0, zero_time);
          expiredClients = fst quota;
          cooldownSuspended =
            int (length (filter (\<lambda>(_, reason). EqualFold reason ''quota'') (reg_SuspendedClients registration)));
          otherSuspended =
            int (length (filter (\<lambda>(_, reason). \<not> EqualFold reason ''quota'') (reg_SuspendedClients registration)));
          effectiveClients = max 0 (availableClients - expiredClients - otherSuspended)
      in (effectiveClients > 0 \<or>
          (availableClients > 0 \<and> (expiredClients > 0 \<or> cooldownSuspended > 0) \<and> otherSuspended = 0),
          snd quota))"

definition GetAvailableModelInfos :: "time \<Rightarrow> model_registry \<Rightarrow> model_info list" where
  "GetAvailableModelInfos now r =
     sort_key (\<lambda>m. TrimSpace (mi_ID m))
       (map (\<lambda>(_, reg). reg_Info reg)
         (filter (\<lambda>(_, reg). fst (modelRegistrationAvailability reg now)) (models r)))"

subsection \<open>Presentation\<close>

text \<open>\<open>time.Unix(sec, 0).UTC().Format(time.RFC3339)\<close>.\<close>

definition pad_nat :: "nat \<Rightarrow> nat \<Rightarrow> string" where
  "pad_nat w n = replicate (w - length (show_nat n)) CHR ''0'' @ show_nat n"

definition civil_from_days :: "int \<Rightarrow> int \<times> int \<times> int" where
  "civil_from_days days =
     (let z = days + 719468;
          era = z div 146097;
          doe = z - era * 146097;
          yoe = (doe - doe div 1460 + doe div 36524 - doe div 146096) div 365;
          doy = doe - (365 * yoe + yoe div 4 - yoe div 100);
          mp = (5 * doy + 2) div 153;
          d = doy - (153 * mp + 2) div 5 + 1;
          m = (if mp < 10 then mp + 3 else mp - 9);
          y = yoe + era * 400 + (if m \<le> 2 then 1 else 0)
      in (y, m, d))"

definition format_RFC3339_unix :: "int \<Rightarrow> string" where
  "format_RFC3339_unix sec =
     (case civil_from_days (sec div 86400) of
        (y, m, d) \<Rightarrow>
          let s = sec mod 86400
          in pad_nat 4 (nat y) @ ''-'' @ pad_nat 2 (nat m) @ ''-'' @ pad_nat 2 (nat d) @ ''T'' @
             pad_nat 2 (nat (s div 3600)) @ '':'' @ pad_nat 2 (nat (s mod 3600 div 60)) @ '':'' @
             pad_nat 2 (nat (s mod 60)) @ ''Z'')"

definition opt_str :: "string \<Rightarrow> string \<Rightarrow> model_map" where
  "opt_str k v = (if v \<noteq> [] then [(k, AnyStr v)] else [])"

definition opt_pos :: "string \<Rightarrow> int_kind \<Rightarrow> int \<Rightarrow> model_map" where
  "opt_pos k kind v = (if v > 0 then [(k, AnyInt kind v)] else [])"

definition opt_strs :: "string \<Rightarrow> string list \<Rightarrow> model_map" where
  "opt_strs k vs = (if vs \<noteq> [] then [(k, AnyStrs vs)] else [])"

definition convertModelToMap :: "model_info \<Rightarrow> string \<Rightarrow> model_map" where
  "convertModelToMap model handlerType =
     (if handlerType = ''openai'' then
        [(''id'', AnyStr (mi_ID model)), (''object'', AnyStr ''model''), (''owned_by'', AnyStr (mi_OwnedBy model))] @
        opt_pos ''created'' KInt64 (mi_Created model) @
        opt_str ''type'' (mi_Type model) @
        opt_str ''display_name'' (mi_DisplayName model) @
        opt_str ''version'' (mi_Version model) @
        opt_str ''description'' (mi_Description model) @
        opt_pos ''context_length'' KInt (mi_ContextLength model) @
        opt_pos ''max_context_length'' KInt (mi_MaxContextLength model) @
        opt_pos ''max_completion_tokens'' KInt (mi_MaxCompletionTokens model) @
        opt_strs ''supported_parameters'' (mi_SupportedParameters model)
      else if handlerType = ''claude'' then
        [(''id'', AnyStr (mi_ID model)), (''object'', AnyStr ''model''), (''owned_by'', AnyStr (mi_OwnedBy model))] @
        (if mi_Created model > 0 then [(''created_at'', AnyStr (format_RFC3339_unix (mi_Created model)))] else []) @
        [(''type'', AnyStr ''model''),
         (''display_name'', AnyStr (if mi_DisplayName model \<noteq> [] then mi_DisplayName model else mi_ID model)),
         (''max_input_tokens'',
            AnyInt KInt (if mi_ContextLength model \<le> 0 then DefaultClaudeMaxInputTokens else mi_ContextLength model)),
         (''max_tokens'',
            AnyInt KInt (if mi_MaxCompletionTokens model \<le> 0 then DefaultClaudeMaxOutputTokens
                         else mi_MaxCompletionTokens model))]
      else if handlerType = ''gemini'' then
        [(''name'', AnyStr (if mi_Name model \<noteq> [] then mi_Name model else mi_ID model))] @
        opt_str ''version'' (mi_Version model) @
        opt_str ''displayName'' (mi_DisplayName model) @
        opt_str ''description'' (mi_Description model) @
        opt_pos ''inputTokenLimit'' KInt (mi_InputTokenLimit model) @
        opt_pos ''outputTokenLimit'' KInt (mi_OutputTokenLimit model) @
        opt_strs ''supportedGenerationMethods'' (mi_SupportedGenerationMethods model) @
        opt_strs ''supportedInputModalities'' (mi_SupportedInputModalities model) @
        opt_strs ''supportedOutputModalities'' (mi_SupportedOutputModalities model)
      else
        [(''id'', AnyStr (mi_ID model)), (''object'', AnyStr ''model'')] @
        opt_str ''owned_by'' (mi_OwnedBy model) @
        opt_str ''type'' (mi_Type model) @
        (if mi_Created model \<noteq> 0 then [(''created'', AnyInt KInt64 (mi_Created model))] else []))"

definition modelIDFromMap :: "model_map \<Rightarrow> string" where
  "modelIDFromMap model = (case mget model ''id'' of Some (AnyStr i) \<Rightarrow> i | _ \<Rightarrow> [])"

subsection \<open>Listings\<close>

fun build_loop :: "string \<Rightarrow> time \<Rightarrow> (string \<times> model_registration) list \<Rightarrow> model_map list \<times> time \<Rightarrow>
  model_map list \<times> time" where
  "build_loop handlerType now [] acc = acc"
| "build_loop handlerType now ((_, registration) # rest) (ms, expiresAt) =
     (case modelRegistrationAvailability registration now of
        (available, registrationExpiresAt) \<Rightarrow>
          let expiresAt1 = (if \<not> IsZero registrationExpiresAt then earlier registrationExpiresAt expiresAt
                            else expiresAt)
          in if \<not> available then build_loop handlerType now rest (ms, expiresAt1)
             else build_loop handlerType now rest
                    (ms @ [convertModelToMap (reg_Info registration) handlerType], expiresAt1))"

definition buildAvailableModelsLocked :: "string \<Rightarrow> time \<Rightarrow> model_registry \<Rightarrow> model_map list \<times> time" where
  "buildAvailableModelsLocked handlerType now r =
     (case build_loop handlerType now (models r) ([], zero_time) of
        (ms, expiresAt) \<Rightarrow> (sort_key modelIDFromMap ms, expiresAt))"

definition cache_valid :: "available_models_cache_entry \<Rightarrow> time \<Rightarrow> bool" where
  "cache_valid c now \<longleftrightarrow> IsZero (ce_expiresAt c) \<or> now < ce_expiresAt c"

definition GetAvailableModels :: "string \<Rightarrow> time \<Rightarrow> model_registry \<Rightarrow> model_map list \<times> model_registry" where
  "GetAvailableModels handlerType now r =
     (case mget (availableModelsCache r) handlerType of
        Some c \<Rightarrow>
          if cache_valid c now then (ce_models c, r)
          else (case buildAvailableModelsLocked handlerType now r of
                  (ms, expiresAt) \<Rightarrow>
                    (ms, r\<lparr>availableModelsCache :=
                             mput handlerType \<lparr>ce_models = ms, ce_expiresAt = expiresAt\<rparr> (availableModelsCache r)\<rparr>))
      | None \<Rightarrow>
          (case buildAvailableModelsLocked handlerType now r of
             (ms, expiresAt) \<Rightarrow>
               (ms, r\<lparr>availableModelsCache :=
                        mput handlerType \<lparr>ce_models = ms, ce_expiresAt = expiresAt\<rparr> (availableModelsCache r)\<rparr>)))"

subsection \<open>Models of a provider\<close>

text \<open>The accumulated \<open>providerModels\<close>: for each model the number of clients and the first info.\<close>

definition note_provider_model ::
  "model_registry \<Rightarrow> (string, model_info) gomap option \<Rightarrow> string \<Rightarrow> (string, int \<times> model_info option) gomap \<Rightarrow>
   (string, int \<times> model_info option) gomap" where
  "note_provider_model r clientInfos modelID0 pm =
     (let modelID = TrimSpace modelID0 in
      if modelID = [] then pm
      else
        let entry = (case mget pm modelID of None \<Rightarrow> (0, None) | Some e \<Rightarrow> e);
            own = (case clientInfos of None \<Rightarrow> None | Some infos \<Rightarrow> mget infos modelID);
            shared = map_option reg_Info (mget (models r) modelID);
            info = (case snd entry of
                      Some i \<Rightarrow> Some i
                    | None \<Rightarrow> (case own of Some i \<Rightarrow> Some i | None \<Rightarrow> shared))
        in mput modelID (fst entry + 1, info) pm)"

definition provider_models :: "string \<Rightarrow> model_registry \<Rightarrow> (string, int \<times> model_info option) gomap" where
  "provider_models provider r =
     fold (\<lambda>(clientID, clientProvider) pm.
        if clientProvider \<noteq> provider then pm
        else fold (note_provider_model r (mget (clientModelInfos r) clientID))
               (case mget (clientModels r) clientID of None \<Rightarrow> [] | Some ids \<Rightarrow> ids) pm)
       (clientProviders r) []"

definition provider_client :: "string \<Rightarrow> model_registry \<Rightarrow> string \<Rightarrow> bool" where
  "provider_client provider r clientID \<longleftrightarrow> clientID \<noteq> [] \<and> mget (clientProviders r) clientID = Some provider"

definition provider_available :: "string \<Rightarrow> time \<Rightarrow> model_registry \<Rightarrow> string \<Rightarrow> int \<Rightarrow> bool" where
  "provider_available provider now r modelID availableClients =
     (let (expiredClients, cooldownSuspended, otherSuspended) =
        (case mget (models r) modelID of
           None \<Rightarrow> (0, 0, 0)
         | Some reg \<Rightarrow>
             (int (length (filter (\<lambda>(c, quotaTime). provider_client provider r c \<and>
                             now - quotaTime < modelQuotaExceededWindow) (reg_QuotaExceededClients reg))),
              int (length (filter (\<lambda>(c, reason). provider_client provider r c \<and> EqualFold reason ''quota'')
                             (reg_SuspendedClients reg))),
              int (length (filter (\<lambda>(c, reason). provider_client provider r c \<and> \<not> EqualFold reason ''quota'')
                             (reg_SuspendedClients reg)))));
          effectiveClients = max 0 (availableClients - expiredClients - otherSuspended)
      in effectiveClients > 0 \<or>
         (availableClients > 0 \<and> (expiredClients > 0 \<or> cooldownSuspended > 0) \<and> otherSuspended = 0))"

definition GetAvailableModelsByProvider :: "string \<Rightarrow> time \<Rightarrow> model_registry \<Rightarrow> model_info list" where
  "GetAvailableModelsByProvider provider0 now r =
     (let provider = ToLower (TrimSpace provider0) in
      if provider = [] then []
      else List.map_filter
             (\<lambda>(modelID, n, info).
                if n \<le> 0 then None
                else if provider_available provider now r modelID n
                then (case info of
                        Some i \<Rightarrow> Some i
                      | None \<Rightarrow> map_option reg_Info (mget (models r) modelID))
                else None)
             (provider_models provider r))"

subsection \<open>Single models\<close>

definition GetModelCount :: "string \<Rightarrow> time \<Rightarrow> model_registry \<Rightarrow> int" where
  "GetModelCount modelID now r =
     (case mget (models r) modelID of
        None \<Rightarrow> 0
      | Some reg \<Rightarrow>
          let expiredClients =
                int (length (filter (\<lambda>(_, quotaTime). now - quotaTime < modelQuotaExceededWindow)
                       (reg_QuotaExceededClients reg)));
              result = reg_Count reg - expiredClients - int (length (reg_SuspendedClients reg))
          in if result < 0 then 0 else result)"

definition GetModelProviders :: "string \<Rightarrow> model_registry \<Rightarrow> string list" where
  "GetModelProviders modelID r =
     (case mget (models r) modelID of
        None \<Rightarrow> []
      | Some reg \<Rightarrow>
          map fst (sort_key (\<lambda>(name, n). (- n, name)) (filter (\<lambda>(_, n). \<not> n \<le> 0) (reg_Providers reg))))"

definition GetModelInfo :: "string \<Rightarrow> string \<Rightarrow> model_registry \<Rightarrow> model_info option" where
  "GetModelInfo modelID provider r =
     (case mget (models r) modelID of
        None \<Rightarrow> None
      | Some reg \<Rightarrow>
          if provider \<noteq> [] \<and> count_of (reg_Providers reg) provider > 0 \<and>
             mget (reg_InfoByProvider reg) provider \<noteq> None
          then mget (reg_InfoByProvider reg) provider
          else Some (reg_Info reg))"

definition LookupModelInfo ::
  "(string \<Rightarrow> model_info option) \<Rightarrow> string \<Rightarrow> string list \<Rightarrow> model_registry \<Rightarrow> model_info option" where
  "LookupModelInfo static modelID0 provider r =
     (let modelID = TrimSpace modelID0 in
      if modelID = [] then None
      else
        let p = (case provider of [] \<Rightarrow> [] | q # _ \<Rightarrow> ToLower (TrimSpace q))
        in case GetModelInfo modelID p r of
             Some info \<Rightarrow> Some info
           | None \<Rightarrow> static modelID)"

definition ModelOverrideHeaders ::
  "(string \<Rightarrow> model_info option) \<Rightarrow> string \<Rightarrow> string list \<Rightarrow> model_registry \<Rightarrow> (string, string) gomap" where
  "ModelOverrideHeaders static modelID provider r =
     (case LookupModelInfo static modelID provider r of
        None \<Rightarrow> []
      | Some info \<Rightarrow>
          (case mi_Config info of
             None \<Rightarrow> []
           | Some cfg \<Rightarrow>
               fold (\<lambda>(key, v) out. if TrimSpace key = [] then out else mput (TrimSpace key) v out)
                 (mc_OverrideHeader cfg) []))"

text \<open>\<open>order\<close> is the order in which \<open>sort.Slice\<close> leaves the listing; the comparison of the
  code is not an order when some models have no creation time.\<close>

definition GetFirstAvailableModel ::
  "(model_map list \<Rightarrow> model_map list) \<Rightarrow> string \<Rightarrow> time \<Rightarrow> time \<Rightarrow> model_registry \<Rightarrow>
   string option \<times> model_registry" where
  "GetFirstAvailableModel order handlerType now now' r =
     (case GetAvailableModels handlerType now r of
        (ms, r1) \<Rightarrow>
          (map_option (\<lambda>m. modelIDFromMap m)
             (List.find (\<lambda>m. (case mget m ''id'' of
                                Some (AnyStr modelID) \<Rightarrow> GetModelCount modelID now' r1 > 0
                              | _ \<Rightarrow> False)) (order ms)), r1))"

fun models_for_client ::
  "model_registry \<Rightarrow> (string, model_info) gomap option \<Rightarrow> string list \<Rightarrow> string list \<Rightarrow> model_info list" where
  "models_for_client r clientInfos seen [] = []"
| "models_for_client r clientInfos seen (modelID # ids) =
     (if modelID \<in> set seen then models_for_client r clientInfos seen ids
      else
        (case (case clientInfos of None \<Rightarrow> None | Some infos \<Rightarrow> mget infos modelID) of
           Some info \<Rightarrow> info # models_for_client r clientInfos (modelID # seen) ids
         | None \<Rightarrow>
             (case mget (models r) modelID of
                Some reg \<Rightarrow> reg_Info reg # models_for_client r clientInfos (modelID # seen) ids
              | None \<Rightarrow> models_for_client r clientInfos (modelID # seen) ids)))"

definition GetModelsForClient :: "string \<Rightarrow> model_registry \<Rightarrow> model_info list" where
  "GetModelsForClient clientID r =
     (case mget (clientModels r) clientID of
        None \<Rightarrow> []
      | Some ids \<Rightarrow> models_for_client r (mget (clientModelInfos r) clientID) [] ids)"

end
