(* ===== verification/Model_Registry_Counts.thy ===== *)
theory Model_Registry_Counts
  imports Model_Registry
begin

text \<open>
  The reference counts of the model registry are exact: a model is listed exactly while some client
  serves it, its count is the number of client registrations of it, and its count per provider is
  the number of those that come from clients of the provider. \<open>RegisterClient\<close> reaches the new
  counts by differences, through five loops that move a model from one provider to another, remove
  what is gone, trim, add and refresh; the proof follows one model through these loops with the
  predicate \<open>contrib\<close>, which separates the share of the client from that of all others.
\<close>

declare map_of_eq_Some_iff [simp del]

section \<open>One registration\<close>

definition rc :: "model_registration option \<Rightarrow> int" where
  "rc x = (case x of None \<Rightarrow> 0 | Some g \<Rightarrow> reg_Count g)"

definition rp :: "model_registration option \<Rightarrow> string \<Rightarrow> int" where
  "rp x q = (case x of None \<Rightarrow> 0 | Some g \<Rightarrow> count_of (reg_Providers g) q)"

definition ok_reg :: "model_registration option \<Rightarrow> bool" where
  "ok_reg x \<longleftrightarrow>
     (case x of
        None \<Rightarrow> True
      | Some g \<Rightarrow> 0 < reg_Count g \<and> wf_map (reg_Providers g) \<and> (\<forall>p n. mget (reg_Providers g) p = Some n \<longrightarrow> 0 < n))"

text \<open>The client contributes \<open>a\<close> to the count and \<open>b\<close> to the count of provider \<open>p\<close>; the others
  contribute \<open>others\<close> and \<open>othersp\<close>.\<close>

definition contrib ::
  "model_registration option \<Rightarrow> int \<Rightarrow> (string \<Rightarrow> int) \<Rightarrow> int \<Rightarrow> int \<Rightarrow> string \<Rightarrow> bool" where
  "contrib x others othersp a b p \<longleftrightarrow>
     ok_reg x \<and> rc x = others + a \<and> (\<forall>q. rp x q = othersp q + (if q = p \<and> p \<noteq> [] then b else 0)) \<and>
     0 \<le> a \<and> 0 \<le> b \<and> b \<le> a \<and> (\<forall>q. 0 \<le> othersp q \<and> othersp q \<le> others)"

lemma count_of_simps [simp]:
  "count_of (mput k v m) k' = (if k' = k then v else count_of m k')"
  "count_of (mdel k m) k' = (if k' = k then 0 else count_of m k')"
  by (simp_all add: count_of_def)

lemma contrib_add:
  assumes "contrib x o1 op a b p" and "n = 1"
  shows "contrib (add_reg p model now x) o1 op (a + n) (b + n) p"
proof -
  have "ok_reg (add_reg p model now x)"
  proof (cases x)
    case (Some g)
    with assms have ok: "0 < reg_Count g" "wf_map (reg_Providers g)"
      and pos: "\<And>q n. mget (reg_Providers g) q = Some n \<Longrightarrow> 0 < n" by (auto simp: contrib_def ok_reg_def)
    have "0 \<le> count_of (reg_Providers g) p" using pos by (auto simp: count_of_def less_imp_le split: option.splits)
    with ok pos Some show ?thesis by (auto simp: ok_reg_def add_reg_def Let_def split: if_splits)
  qed (simp add: ok_reg_def add_reg_def)
  moreover have "rc (add_reg p model now x) = rc x + 1"
    by (simp add: rc_def add_reg_def Let_def split: option.splits)
  moreover have "rp (add_reg p model now x) q = rp x q + (if q = p \<and> p \<noteq> [] then 1 else 0)" for q
    by (simp add: rp_def add_reg_def Let_def count_of_def split: option.splits)
  ultimately show ?thesis using assms by (simp add: contrib_def)
qed

lemma drop_provider_ok:
  assumes "ok_reg (Some g)" and "0 \<le> n" and "n \<le> count_of (reg_Providers g) p"
  shows "reg_Count (drop_provider p n g) = reg_Count g" "ok_reg (Some (drop_provider p n g))"
    "count_of (reg_Providers (drop_provider p n g)) q = count_of (reg_Providers g) q - (if q = p then n else 0)"
  using assms by (auto simp: drop_provider_def ok_reg_def count_of_def split: option.splits)

lemma contrib_drop:
  assumes "contrib x o1 op a b p" and "p \<noteq> []" and "0 \<le> n" and "n \<le> b"
  shows "contrib (move_provider_reg p n x) o1 op a (b - n) p"
proof (cases x)
  case None
  have "0 \<le> o1" using assms(1) by (auto simp: contrib_def dest: order_trans)
  with None assms have "a = 0" "b = 0" "n = 0" by (auto simp: contrib_def rc_def)
  with None assms show ?thesis by (simp add: move_provider_reg_def)
next
  case (Some g)
  have "rp x p = op p + b" "0 \<le> op p" using assms(1,2) by (auto simp: contrib_def)
  then have "n \<le> count_of (reg_Providers g) p" using assms(4) Some by (simp add: rp_def)
  with drop_provider_ok [of g n p] assms Some show ?thesis
    by (auto simp: move_provider_reg_def contrib_def rc_def rp_def)
qed

lemma remove_ok:
  assumes "ok_reg (Some g)" and "p = [] \<or> 1 \<le> count_of (reg_Providers g) p"
  shows "rc (remove_reg c p now (Some g)) = reg_Count g - 1"
    and "reg_Count g = 1 \<Longrightarrow> remove_reg c p now (Some g) = None"
    and "ok_reg (remove_reg c p now (Some g))"
    and "1 < reg_Count g \<Longrightarrow> rp (remove_reg c p now (Some g)) q =
           count_of (reg_Providers g) q - (if q = p \<and> p \<noteq> [] then 1 else 0)"
  using assms
  by (auto simp: remove_reg_def Let_def ok_reg_def rc_def rp_def drop_provider_def count_of_def split: option.splits)

lemma contrib_remove:
  assumes c: "contrib x o1 op a b p" and "0 < a" and b: "p = [] \<or> 0 < b"
  shows "contrib (remove_reg c p now x) o1 op (a - 1) (max 0 (b - 1)) p"
proof (cases x)
  case None
  have "0 \<le> o1" using c by (auto simp: contrib_def dest: order_trans)
  with None c \<open>0 < a\<close> show ?thesis by (simp add: contrib_def rc_def)
next
  case (Some g)
  have ok: "ok_reg (Some g)" using c Some by (simp add: contrib_def)
  have g: "reg_Count g = o1 + a" and op: "\<forall>q. 0 \<le> op q \<and> op q \<le> o1"
    and rp: "\<forall>q. count_of (reg_Providers g) q = op q + (if q = p \<and> p \<noteq> [] then b else 0)"
    using c Some by (auto simp: contrib_def rc_def rp_def)
  have p1: "p = [] \<or> 1 \<le> count_of (reg_Providers g) p"
    using rp op b by (auto simp: add_nonneg_pos int_one_le_iff_zero_less)
  note r = remove_ok [OF ok p1]
  show ?thesis
  proof (cases "reg_Count g = 1")
    case True
    have "0 \<le> o1" using op by (auto dest: order_trans)
    then have "o1 = 0" "a = 1" using True g \<open>0 < a\<close> by linarith+
    then show ?thesis using r(2) [OF True] op Some c
      by (auto simp: contrib_def ok_reg_def rc_def rp_def intro: antisym)
  next
    case False
    then have "1 < reg_Count g" using ok by (simp add: ok_reg_def)
    with r(1,3,4) rp Some c b \<open>0 < a\<close> g show ?thesis by (auto simp: contrib_def)
  qed
qed

lemma contrib_switch: "contrib x o1 op a 0 p \<Longrightarrow> contrib x o1 op a 0 p'"
  by (auto simp: contrib_def)

lemma contrib_no_provider: "contrib x o1 op a b [] \<Longrightarrow> 0 \<le> c \<Longrightarrow> c \<le> a \<Longrightarrow> contrib x o1 op a c []"
  by (simp add: contrib_def)

lemma contrib_remove_n:
  "contrib x o1 op a b p \<Longrightarrow> int n \<le> a \<Longrightarrow> p = [] \<or> int n \<le> b \<Longrightarrow>
   contrib ((remove_reg c p now ^^ n) x) o1 op (a - int n) (max 0 (b - int n)) p"
proof (induction n)
  case 0
  then show ?case by (simp add: contrib_def max_def)
next
  case (Suc n)
  let ?y = "(remove_reg c p now ^^ n) x"
  from Suc have "contrib ?y o1 op (a - int n) (max 0 (b - int n)) p" by auto
  with contrib_remove [OF this, of c now] Suc.prems show ?case
    by (auto simp: max_def algebra_simps split: if_splits)
qed

lemma contrib_add_n:
  "contrib x o1 op a b p \<Longrightarrow> contrib ((add_reg p model now ^^ n) x) o1 op (a + int n) (b + int n) p"
proof (induction n)
  case (Suc n)
  from contrib_add [OF Suc.IH [OF Suc.prems] refl, of model now] show ?case by (simp add: add.commute add.left_commute)
qed simp

lemma contrib_refresh:
  assumes c: "contrib x o1 op a b p" and "0 \<le> newC" "0 \<le> oldC"
    and "b + min newC oldC \<le> a \<or> \<not> changed \<or> p = []"
  shows "contrib (refresh_reg cid p changed now model newC oldC x) o1 op a
           (if changed \<and> p \<noteq> [] then b + min newC oldC else b) p"
proof (cases x)
  case None
  have "0 \<le> o1" using c by (auto simp: contrib_def dest: order_trans)
  with None c have "a = 0" "b = 0" by (auto simp: contrib_def rc_def)
  with assms None show ?thesis by (auto simp: refresh_reg_def min_def split: if_splits)
next
  case (Some g)
  let ?y = "refresh_reg cid p changed now model newC oldC x"
  let ?n = "if changed \<and> p \<noteq> [] then min newC oldC else 0"
  have r: "reg_Providers (the ?y) = (if 0 < ?n then mput p (count_of (reg_Providers g) p + ?n) (reg_Providers g) else reg_Providers g)"
    "reg_Count (the ?y) = reg_Count g" "?y \<noteq> None"
    using Some assms(2,3) by (auto simp: refresh_reg_def Let_def min_def)
  have pos: "0 \<le> count_of (reg_Providers g) p"
    using c Some by (auto simp: contrib_def ok_reg_def count_of_def less_imp_le split: option.splits)
  from r obtain h where h: "?y = Some h"
    "reg_Providers h = (if 0 < ?n then mput p (count_of (reg_Providers g) p + ?n) (reg_Providers g) else reg_Providers g)"
    "reg_Count h = reg_Count g" by force
  have "ok_reg (Some h)" using c Some h(2,3) pos by (auto simp: contrib_def ok_reg_def)
  moreover have "rp (Some h) q = rp x q + (if q = p then ?n else 0)" for q
    using Some h(2) assms(2,3) by (auto simp: rp_def min_def)
  moreover have "rc (Some h) = rc x" using Some h(3) by (simp add: rc_def)
  ultimately show ?thesis
    using c assms(2-4) h(1) by (auto simp: contrib_def)
qed

text \<open>One model through the five loops.\<close>

definition reconcile ::
  "string \<Rightarrow> string \<Rightarrow> string \<Rightarrow> time \<Rightarrow> model_info option \<Rightarrow> nat \<Rightarrow> nat \<Rightarrow> model_registration option \<Rightarrow>
   model_registration option" where
  "reconcile cid oldP p now model newC oldC x =
     (let x1 = (if oldP \<noteq> p \<and> oldP \<noteq> [] \<and> newC \<noteq> 0 \<and> oldC \<noteq> 0
                then move_provider_reg oldP (int (min oldC newC)) x else x);
          x2 = (if newC = 0 then (remove_reg cid oldP now ^^ oldC) x1 else x1);
          x3 = (if newC \<noteq> 0 \<and> newC < oldC then (remove_reg cid oldP now ^^ (oldC - newC)) x2 else x2);
          x4 = (if oldC < newC then (case model of None \<Rightarrow> x3 | Some m \<Rightarrow> (add_reg p m now ^^ (newC - oldC)) x3) else x3)
      in (case model of
            None \<Rightarrow> x4
          | Some m \<Rightarrow> refresh_reg cid p (oldP \<noteq> p) now m (int newC) (int oldC) x4))"

lemma contrib_reconcile:
  assumes c: "contrib x o1 op (int oldC) (int oldC) oldP" and m: "newC \<noteq> 0 \<longleftrightarrow> model \<noteq> None"
  shows "contrib (reconcile cid oldP p now model newC oldC x) o1 op (int newC) (int newC) p"
proof (cases "newC = 0")
  case True
  with m have "model = None" by simp
  moreover have "contrib ((remove_reg cid oldP now ^^ oldC) x) o1 op 0 0 oldP"
    using contrib_remove_n [OF c, of oldC] by simp
  ultimately show ?thesis using True contrib_switch by (simp add: reconcile_def)
next
  case False
  with m obtain mi where mi: "model = Some mi" by auto
  define x1 where "x1 = (if oldP \<noteq> p \<and> oldP \<noteq> [] \<and> oldC \<noteq> 0 then move_provider_reg oldP (int (min oldC newC)) x else x)"
  define b1 where "b1 = (if oldP \<noteq> p \<and> oldP \<noteq> [] then int oldC - int (min oldC newC) else int oldC)"
  have c1: "contrib x1 o1 op (int oldC) b1 oldP"
    using c contrib_drop [OF c, of "int (min oldC newC)"] by (auto simp: x1_def b1_def)
  define x3 where "x3 = (if newC < oldC then (remove_reg cid oldP now ^^ (oldC - newC)) x1 else x1)"
  define k where "k = min oldC newC"
  have c3: "contrib x3 o1 op (int k) (if oldP \<noteq> p then 0 else int k) oldP"
  proof (cases "newC < oldC")
    case True
    then have "oldP = [] \<or> int (oldC - newC) \<le> b1" by (auto simp: b1_def)
    with contrib_remove_n [OF c1, of "oldC - newC" cid now] True
    have "contrib x3 o1 op (int k) (max 0 (b1 - int (oldC - newC))) oldP" by (auto simp: x3_def k_def)
    with True show ?thesis
      by (cases "oldP = []") (auto simp: b1_def k_def contrib_no_provider)
  next
    case False
    with c1 show ?thesis
      by (cases "oldP = []") (auto simp: x3_def b1_def k_def min_def contrib_no_provider)
  qed
  then have c3': "contrib x3 o1 op (int k) (if oldP \<noteq> p then 0 else int k) p"
    using contrib_switch by (cases "oldP = p") auto
  define x4 where "x4 = (if oldC < newC then (add_reg p mi now ^^ (newC - oldC)) x3 else x3)"
  have c4: "contrib x4 o1 op (int newC) (if oldP \<noteq> p then int newC - int k else int newC) p"
    using c3' contrib_add_n [OF c3', where model = mi and now = now and n = "newC - oldC"] by (auto simp: x4_def k_def min_def)
  have r: "reconcile cid oldP p now model newC oldC x = refresh_reg cid p (oldP \<noteq> p) now mi (int newC) (int oldC) x4"
    using False mi by (simp add: reconcile_def Let_def x1_def x3_def x4_def)
  have "contrib (refresh_reg cid p (oldP \<noteq> p) now mi (int newC) (int oldC) x4) o1 op (int newC)
      (if oldP \<noteq> p \<and> p \<noteq> [] then (if oldP \<noteq> p then int newC - int k else int newC) + min (int newC) (int oldC)
       else (if oldP \<noteq> p then int newC - int k else int newC)) p"
    by (rule contrib_refresh [OF c4]) (auto simp: k_def min_def)
  then show ?thesis unfolding r
    by (cases "p = []") (auto simp: k_def min_def contrib_no_provider split: if_splits)
qed

section \<open>The loops\<close>

lemma upd_model_mget [simp]:
  "mget (models (upd_model i f r)) m = (if m = i then f (mget (models r) i) else mget (models r) m)"
  by (auto simp: upd_model_def split: option.splits)

lemma upd_model_wf [simp]: "wf_map (models r) \<Longrightarrow> wf_map (models (upd_model i f r))"
  by (auto simp: upd_model_def split: option.splits)

lemma upd_model_other [simp]:
  "clientModels (upd_model i f r) = clientModels r" "clientProviders (upd_model i f r) = clientProviders r"
  "clientModelInfos (upd_model i f r) = clientModelInfos r"
  "availableModelsCache (upd_model i f r) = availableModelsCache r"
  by (simp_all add: upd_model_def)

text \<open>Two registries that differ in \<open>models\<close> only.\<close>

definition same_clients :: "model_registry \<Rightarrow> model_registry \<Rightarrow> bool" where
  "same_clients r r' \<longleftrightarrow>
     clientModels r' = clientModels r \<and> clientProviders r' = clientProviders r \<and>
     (wf_map (models r) \<longrightarrow> wf_map (models r'))"

lemma same_clients_refl [simp]: "same_clients r r"
  by (simp add: same_clients_def)

lemma same_clients_trans: "same_clients r s \<Longrightarrow> same_clients s t \<Longrightarrow> same_clients r t"
  by (simp add: same_clients_def)

lemma same_clients_upd [simp]: "same_clients r (upd_model i f r)"
  by (simp add: same_clients_def)

lemma same_clients_fold: "(\<And>e r. same_clients r (F e r)) \<Longrightarrow> same_clients r (fold F L r)"
  by (induction L arbitrary: r) (auto intro: same_clients_trans)

lemma same_clients_funpow: "(\<And>r. same_clients r (F r)) \<Longrightarrow> same_clients r ((F ^^ n) r)"
  by (induction n arbitrary: r) (auto intro: same_clients_trans)

lemma fold_models_other:
  assumes "\<And>e r. e \<in> set L \<Longrightarrow> mget (models (F e r)) m = mget (models r) m"
  shows "mget (models (fold F L r)) m = mget (models r) m"
  using assms by (induction L arbitrary: r) auto

lemma fold_models:
  assumes "distinct (map k L)"
    and "\<And>e r m. e \<in> set L \<Longrightarrow>
      mget (models (F e r)) m = (if m = k e then G e (mget (models r) m) else mget (models r) m)"
  shows "mget (models (fold F L r)) m =
     (case List.find (\<lambda>e. k e = m) L of None \<Rightarrow> mget (models r) m | Some e \<Rightarrow> G e (mget (models r) m))"
  using assms
proof (induction L arbitrary: r)
  case (Cons d L)
  show ?case
  proof (cases "k d = m")
    case True
    have "mget (models (fold F L (F d r))) m = mget (models (F d r)) m"
      using Cons.prems True by (intro fold_models_other) (auto simp: image_iff)
    with True Cons.prems show ?thesis by simp
  next
    case False
    have "mget (models (fold F L (F d r))) m =
        (case List.find (\<lambda>e. k e = m) L of None \<Rightarrow> mget (models (F d r)) m | Some e \<Rightarrow> G e (mget (models (F d r)) m))"
      by (rule Cons.IH) (use Cons.prems in auto)
    moreover have "mget (models (F d r)) m = mget (models r) m" using Cons.prems(2) [of d r m] False by simp
    ultimately show ?thesis using False by (cases "List.find (\<lambda>e. k e = m) L") simp_all
  qed
qed simp

lemma find_key:
  assumes "distinct (map k L)"
  shows "e \<in> set L \<Longrightarrow> k e = m \<Longrightarrow> List.find (\<lambda>e. k e = m) L = Some e"
    and "m \<notin> k ` set L \<Longrightarrow> List.find (\<lambda>e. k e = m) L = None"
proof -
  show "e \<in> set L \<Longrightarrow> k e = m \<Longrightarrow> List.find (\<lambda>e. k e = m) L = Some e"
    using assms by (induction L) (auto simp: image_iff)
  show "m \<notin> k ` set L \<Longrightarrow> List.find (\<lambda>e. k e = m) L = None"
    by (auto simp: find_None_iff)
qed

lemma funpow_upd_model: "mget (models ((upd_model i f ^^ n) r)) m = (if m = i then (f ^^ n) (mget (models r) i) else mget (models r) m)"
  by (induction n) auto

subsection \<open>Counting\<close>

lemma fold_counts:
  "count_of (fold (\<lambda>i m. mput i (count_of m i + 1) m) ids acc) k = count_of acc k + int (count_list ids k)"
  "fst ` set (fold (\<lambda>i m. mput i (count_of m i + 1) m) ids acc) = fst ` set acc \<union> set ids"
  "wf_map acc \<Longrightarrow> wf_map (fold (\<lambda>i m. mput i (count_of m i + 1) m) ids acc)"
  by (induction ids arbitrary: acc) (auto simp: keys_mput)

lemma count_of_counts [simp]: "count_of (counts ids) k = int (count_list ids k)"
  using fold_counts(1) [where ids = ids and acc = "[]" and k = k] by (simp add: counts_def count_of_def)

lemma keys_counts: "fst ` set (counts ids) = set ids" "wf_map (counts ids)"
  using fold_counts(2) [where ids = ids and acc = "[]"] fold_counts(3) [where ids = ids and acc = "[]"] by (simp_all add: counts_def)

lemma counts_entry: "(k, n) \<in> set (counts ids) \<longleftrightarrow> k \<in> set ids \<and> n = int (count_list ids k)"
proof
  assume "(k, n) \<in> set (counts ids)"
  then have "mget (counts ids) k = Some n" using keys_counts(2) by simp
  moreover have "k \<in> set ids" using \<open>(k, n) \<in> set (counts ids)\<close> keys_counts(1) by force
  ultimately show "k \<in> set ids \<and> n = int (count_list ids k)"
    using count_of_counts [of ids k] by (simp add: count_of_def)
next
  assume "k \<in> set ids \<and> n = int (count_list ids k)"
  then obtain v where v: "(k, v) \<in> set (counts ids)" using keys_counts(1) by (metis fst_conv imageE prod.collapse)
  then have "mget (counts ids) k = Some v" using keys_counts(2) by simp
  with v show "(k, n) \<in> set (counts ids)"
    using count_of_counts [of ids k] \<open>k \<in> set ids \<and> n = int (count_list ids k)\<close> by (simp add: count_of_def)
qed

lemma count_list_0: "count_list xs x = 0 \<longleftrightarrow> x \<notin> set xs"
  by (simp add: count_list_0_iff)

lemma first_infos_keys:
  "fst ` set (first_infos acc ms) = fst ` set acc \<union> mi_ID ` set ms"
  "wf_map acc \<Longrightarrow> wf_map (first_infos acc ms)"
proof (induction ms arbitrary: acc)
  case (Cons m ms)
  {
    case 1
    have "mi_ID m \<in> fst ` set acc" if "mget acc (mi_ID m) \<noteq> None" using that by (auto simp: map_of_eq_None_iff)
    then show ?case using Cons.IH(1) by (auto simp: keys_mput)
  next
    case 2
    then show ?case using Cons.IH(2) by simp
  }
qed simp_all

subsection \<open>The five loops, model by model\<close>

lemma find_counts:
  "List.find (\<lambda>e. fst e = m) (counts ids) = (if m \<in> set ids then Some (m, int (count_list ids m)) else None)"
proof (cases "m \<in> set ids")
  case True
  then have "(m, int (count_list ids m)) \<in> set (counts ids)" by (simp add: counts_entry)
  with find_key(1) [OF keys_counts(2) this] True show ?thesis by simp
next
  case False
  with find_key(2) [OF keys_counts(2)] keys_counts(1) show ?thesis by auto
qed

lemma leave_old_provider_mget:
  "mget (models (leave_old_provider oldP (counts new) (counts old) r)) m =
     (if count_list new m \<noteq> 0 \<and> count_list old m \<noteq> 0
      then move_provider_reg oldP (int (min (count_list old m) (count_list new m))) (mget (models r) m)
      else mget (models r) m)"
proof -
  let ?G = "\<lambda>e x. if snd e = 0 \<or> count_of (counts old) (fst e) = 0 then x
      else move_provider_reg oldP (if count_of (counts old) (fst e) < snd e then count_of (counts old) (fst e) else snd e) x"
  have "mget (models (leave_old_provider oldP (counts new) (counts old) r)) m =
      (case List.find (\<lambda>e. fst e = m) (counts new) of None \<Rightarrow> mget (models r) m | Some e \<Rightarrow> ?G e (mget (models r) m))"
    unfolding leave_old_provider_def by (rule fold_models) (auto simp: keys_counts Let_def split: prod.splits)
  then show ?thesis by (auto simp: find_counts count_list_0 min_def)
qed

lemma remove_times_mget:
  "mget (models (remove_times c p now i n r)) m =
     (if m = i then (remove_reg c p now ^^ nat n) (mget (models r) m) else mget (models r) m)"
  using funpow_upd_model [where i = i and f = "remove_reg c p now" and n = "nat n" and r = r and m = m]
  by (simp add: remove_times_def removeModelRegistration_def [abs_def])

lemma add_times_mget:
  "i \<noteq> [] \<Longrightarrow> mget (models (add_times p model now i n r)) m =
     (if m = i then (add_reg p model now ^^ nat n) (mget (models r) m) else mget (models r) m)"
  using funpow_upd_model [where i = i and f = "add_reg p model now" and n = "nat n" and r = r and m = m]
  by (simp add: add_times_def addModelRegistration_def [abs_def])

lemma remove_gone_mget:
  "mget (models (remove_gone c oldP now (counts new) (counts old) r)) m =
     (if count_list new m = 0 then (remove_reg c oldP now ^^ count_list old m) (mget (models r) m)
      else mget (models r) m)"
proof -
  let ?L = "filter (\<lambda>i. count_of (counts new) i = 0) (map fst (counts old))"
  have d: "distinct (map id ?L)" using keys_counts(2) by simp
  have "mget (models (remove_gone c oldP now (counts new) (counts old) r)) m =
      (case List.find (\<lambda>e. id e = m) ?L of None \<Rightarrow> mget (models r) m
       | Some e \<Rightarrow> (remove_reg c oldP now ^^ nat (count_of (counts old) e)) (mget (models r) m))"
    unfolding remove_gone_def by (rule fold_models [OF d]) (simp add: remove_times_mget)
  moreover have "m \<in> set ?L \<longleftrightarrow> m \<in> set old \<and> m \<notin> set new"
    using keys_counts(1) [of old] by (auto simp: count_list_0)
  ultimately show ?thesis
    using find_key(1) [OF d, of m m] find_key(2) [OF d, of m]
    by (cases "m \<in> set ?L") (auto simp: count_list_0)
qed

lemma remove_overage_mget:
  "mget (models (remove_overage c oldP now (counts new) (counts old) r)) m =
     (if count_list new m \<noteq> 0 \<and> count_list new m < count_list old m
      then (remove_reg c oldP now ^^ (count_list old m - count_list new m)) (mget (models r) m)
      else mget (models r) m)"
proof -
  let ?G = "\<lambda>e x. if count_of (counts new) (fst e) = 0 \<or> snd e \<le> count_of (counts new) (fst e) then x
      else (remove_reg c oldP now ^^ nat (snd e - count_of (counts new) (fst e))) x"
  have "mget (models (remove_overage c oldP now (counts new) (counts old) r)) m =
      (case List.find (\<lambda>e. fst e = m) (counts old) of None \<Rightarrow> mget (models r) m | Some e \<Rightarrow> ?G e (mget (models r) m))"
    unfolding remove_overage_def
    by (rule fold_models) (auto simp: keys_counts Let_def remove_times_mget split: prod.splits)
  then show ?thesis by (auto simp: find_counts count_list_0 nat_diff_distrib) 
qed

lemma add_missing_mget:
  assumes "[] \<notin> set new" and "\<And>i. i \<in> set new \<Longrightarrow> mget newModels i \<noteq> None"
  shows "mget (models (add_missing p now newModels (counts new) (counts old) r)) m =
     (if count_list old m < count_list new m
      then (add_reg p (the (mget newModels m)) now ^^ (count_list new m - count_list old m)) (mget (models r) m)
      else mget (models r) m)"
proof -
  let ?G = "\<lambda>e x. if snd e \<le> count_of (counts old) (fst e) then x
      else (add_reg p (the (mget newModels (fst e))) now ^^ nat (snd e - count_of (counts old) (fst e))) x"
  have "mget (models (add_missing p now newModels (counts new) (counts old) r)) m =
      (case List.find (\<lambda>e. fst e = m) (counts new) of None \<Rightarrow> mget (models r) m | Some e \<Rightarrow> ?G e (mget (models r) m))"
    unfolding add_missing_def
  proof (rule fold_models)
    fix e r m assume "e \<in> set (counts new)"
    moreover obtain i n where e: "e = (i, n)" by fastforce
    ultimately have "i \<in> set new" by (simp add: counts_entry)
    with assms have "i \<noteq> []" "mget newModels i \<noteq> None" by auto
    then show "mget (models ((case e of (modelID, newCount) \<Rightarrow> \<lambda>r. let oldCount = count_of (counts old) modelID
          in if newCount \<le> oldCount then r
             else case mget newModels modelID of None \<Rightarrow> r
                  | Some model \<Rightarrow> add_times p model now modelID (newCount - oldCount) r) r)) m =
        (if m = fst e then ?G e (mget (models r) m) else mget (models r) m)"
      by (auto simp: e Let_def add_times_mget)
  qed (rule keys_counts)
  then show ?thesis by (auto simp: find_counts count_list_0 nat_diff_distrib)
qed

lemma refresh_metadata_mget:
  assumes "wf_map newModels"
  shows "mget (models (refresh_metadata cid p changed now newModels (counts new) (counts old) r)) m =
     (case mget newModels m of
        None \<Rightarrow> mget (models r) m
      | Some model \<Rightarrow> refresh_reg cid p changed now model (int (count_list new m)) (int (count_list old m)) (mget (models r) m))"
proof -
  let ?G = "\<lambda>e. refresh_reg cid p changed now (snd e) (int (count_list new (fst e))) (int (count_list old (fst e)))"
  have "mget (models (refresh_metadata cid p changed now newModels (counts new) (counts old) r)) m =
      (case List.find (\<lambda>e. fst e = m) newModels of None \<Rightarrow> mget (models r) m | Some e \<Rightarrow> ?G e (mget (models r) m))"
    unfolding refresh_metadata_def by (rule fold_models) (auto simp: assms split: prod.splits)
  moreover have "List.find (\<lambda>e. fst e = m) newModels = map_option (Pair m) (mget newModels m)"
    by (induction newModels) auto
  ultimately show ?thesis by (cases "mget newModels m") simp_all
qed

section \<open>The invariant\<close>

lemma sum_mdel:
  fixes f :: "'k \<times> 'v \<Rightarrow> int"
  shows "wf_map m \<Longrightarrow> sum_list (map f m) = sum_list (map f (mdel k m)) + (case mget m k of None \<Rightarrow> 0 | Some v \<Rightarrow> f (k, v))"
proof (induction m)
  case (Cons e m)
  have "mdel k m = m" if "fst e = k"
    using Cons.prems that by (auto simp: mdel_filter filter_id_conv image_iff)
  moreover have "mget m k = None" if "fst e = k" using Cons.prems that by (auto simp: map_of_eq_None_iff)
  ultimately show ?case using Cons by (cases e) (auto simp: mdel_filter)
qed simp

lemma sum_mput:
  fixes f :: "'k \<times> 'v \<Rightarrow> int"
  assumes "wf_map m"
  shows "sum_list (map f (mput k v m)) = sum_list (map f (mdel k m)) + f (k, v)"
  using sum_mdel [of "mput k v m" f k] assms by (simp add: delete_update_same)

definition refs :: "(string, string list) gomap \<Rightarrow> string \<Rightarrow> int" where
  "refs cm m = sum_list (map (\<lambda>e. int (count_list (snd e) m)) cm)"

definition prefs :: "(string, string list) gomap \<Rightarrow> (string, string) gomap \<Rightarrow> string \<Rightarrow> string \<Rightarrow> int" where
  "prefs cm cp m q = sum_list (map (\<lambda>e. if mget cp (fst e) = Some q then int (count_list (snd e) m) else 0) cm)"

definition reg_inv :: "model_registry \<Rightarrow> bool" where
  "reg_inv r \<longleftrightarrow>
     wf_map (models r) \<and> wf_map (clientModels r) \<and> wf_map (clientProviders r) \<and>
     (\<forall>c p. mget (clientProviders r) c = Some p \<longrightarrow> p \<noteq> []) \<and>
     (\<forall>c ids. mget (clientModels r) c = Some ids \<longrightarrow> [] \<notin> set ids) \<and>
     (\<forall>m. ok_reg (mget (models r) m) \<and> rc (mget (models r) m) = refs (clientModels r) m \<and>
          (\<forall>q. rp (mget (models r) m) q = prefs (clientModels r) (clientProviders r) m q))"

definition provider_of :: "model_registry \<Rightarrow> string \<Rightarrow> string" where
  "provider_of r c = (case mget (clientProviders r) c of None \<Rightarrow> [] | Some p \<Rightarrow> p)"

lemma prefs_other:
  "(\<And>d. d \<noteq> c \<Longrightarrow> mget cp' d = mget cp d) \<Longrightarrow> prefs (mdel c cm) cp' m q = prefs (mdel c cm) cp m q"
  unfolding prefs_def by (intro arg_cong [where f = sum_list] map_cong) (auto simp: mdel_filter)

lemma prefs_le: "0 \<le> prefs cm cp m q \<and> prefs cm cp m q \<le> refs cm m"
  by (induction cm) (auto simp: prefs_def refs_def)

lemma share_of_client:
  assumes inv: "reg_inv r"
    and n_def: "n = (case mget (clientModels r) c of None \<Rightarrow> 0 | Some ids \<Rightarrow> count_list ids m)"
  shows "contrib (mget (models r) m) (refs (mdel c (clientModels r)) m)
           (prefs (mdel c (clientModels r)) (clientProviders r) m) (int n) (int n) (provider_of r c)"
proof -
  have wf: "wf_map (clientModels r)" using inv by (simp add: reg_inv_def)
  have "refs (clientModels r) m = refs (mdel c (clientModels r)) m + int n"
    unfolding refs_def by (subst sum_mdel [OF wf, of _ c]) (auto simp: n_def split: option.splits)
  moreover have "prefs (clientModels r) (clientProviders r) m q =
      prefs (mdel c (clientModels r)) (clientProviders r) m q + (if mget (clientProviders r) c = Some q then int n else 0)" for q
    unfolding prefs_def by (subst sum_mdel [OF wf, of _ c]) (auto simp: n_def split: option.splits)
  moreover have "mget (clientProviders r) c = Some q \<longleftrightarrow> q = provider_of r c \<and> provider_of r c \<noteq> []" for q
    using inv by (auto simp: provider_of_def reg_inv_def split: option.splits)
  ultimately show ?thesis
    using inv prefs_le by (simp add: contrib_def reg_inv_def)
qed

text \<open>Storing the client again turns its new share into the invariant.\<close>

lemma inv_of_share:
  assumes wf: "wf_map (models r')" and inv: "reg_inv r" and p: "p = ToLower p'" and ids: "[] \<notin> set ids"
    and cm: "clientModels r' = mput c ids (clientModels r)"
    and cp: "clientProviders r' = (if p \<noteq> [] then mput c p (clientProviders r) else mdel c (clientProviders r))"
    and share: "\<And>m. contrib (mget (models r') m) (refs (mdel c (clientModels r)) m)
           (prefs (mdel c (clientModels r)) (clientProviders r) m) (int (count_list ids m)) (int (count_list ids m)) p"
  shows "reg_inv r'"
proof -
  have wfc: "wf_map (clientModels r)" "wf_map (clientProviders r)" using inv by (auto simp: reg_inv_def)
  have "refs (clientModels r') m = refs (mdel c (clientModels r)) m + int (count_list ids m)" for m
    unfolding refs_def cm by (simp add: sum_mput [OF wfc(1)])
  moreover have "prefs (clientModels r') (clientProviders r') m q =
      prefs (mdel c (clientModels r)) (clientProviders r) m q + (if q = p \<and> p \<noteq> [] then int (count_list ids m) else 0)" for m q
  proof -
    have "prefs (clientModels r') (clientProviders r') m q =
        prefs (mdel c (clientModels r)) (clientProviders r') m q +
        (if mget (clientProviders r') c = Some q then int (count_list ids m) else 0)"
      unfolding prefs_def cm by (simp add: sum_mput [OF wfc(1)])
    also have "prefs (mdel c (clientModels r)) (clientProviders r') m q = prefs (mdel c (clientModels r)) (clientProviders r) m q"
      by (rule prefs_other) (auto simp: cp)
    finally show ?thesis by (auto simp: cp)
  qed
  ultimately show ?thesis
    using inv share wf wfc ids by (auto simp: reg_inv_def contrib_def cm cp split: if_splits)
qed

lemma inv_of_leave:
  assumes wf: "wf_map (models r')" and inv: "reg_inv r"
    and cm: "clientModels r' = mdel c (clientModels r)" and cp: "clientProviders r' = mdel c (clientProviders r)"
    and share: "\<And>m. contrib (mget (models r') m) (refs (mdel c (clientModels r)) m)
           (prefs (mdel c (clientModels r)) (clientProviders r) m) 0 0 p"
  shows "reg_inv r'"
proof -
  have "prefs (clientModels r') (clientProviders r') m q = prefs (mdel c (clientModels r)) (clientProviders r) m q" for m q
    unfolding cm by (rule prefs_other) (auto simp: cp)
  then show ?thesis
    using inv share wf by (auto simp: reg_inv_def contrib_def cm cp split: if_splits)
qed

section \<open>Registration and removal\<close>

lemma unregister_is_remove:
  assumes "ok_reg x" and "\<And>p. prov = Some p \<Longrightarrow> p \<noteq> []"
  shows "unregister_reg c prov now x = remove_reg c (case prov of None \<Rightarrow> [] | Some p \<Rightarrow> p) now x"
  using assms by (cases x) (auto simp: unregister_reg_def remove_reg_def Let_def ok_reg_def split: option.splits)

lemma contrib_unregister_n:
  assumes "contrib x o1 op (int a) (int a) p" and "n \<le> a" and "p = (case prov of None \<Rightarrow> [] | Some q \<Rightarrow> q)"
    and "\<And>q. prov = Some q \<Longrightarrow> q \<noteq> []"
  shows "contrib ((unregister_reg c prov now ^^ n) x) o1 op (int (a - n)) (int (a - n)) p"
proof -
  have "(unregister_reg c prov now ^^ n) x = (remove_reg c p now ^^ n) x"
    using assms(2)
  proof (induction n)
    case (Suc n)
    have "contrib ((remove_reg c p now ^^ n) x) o1 op (int a - int n) (max 0 (int a - int n)) p"
      using contrib_remove_n [OF assms(1), of n] Suc.prems by simp
    then have "ok_reg ((remove_reg c p now ^^ n) x)" by (simp add: contrib_def)
    with Suc unregister_is_remove [OF _ assms(4)] assms(3) show ?case by simp
  qed simp
  with contrib_remove_n [OF assms(1), of n c now] assms(2) show ?thesis by (simp add: of_nat_diff)
qed

lemma fold_same_upd:
  "mget (models (fold (\<lambda>i. upd_model i f) ids r)) m = (f ^^ count_list ids m) (mget (models r) m)"
  by (induction ids arbitrary: r) (auto simp: funpow_swap1)

lemma reg_inv_other:
  "reg_inv r \<Longrightarrow> models r' = models r \<Longrightarrow> clientModels r' = clientModels r \<Longrightarrow>
   clientProviders r' = clientProviders r \<Longrightarrow> reg_inv r'"
  by (simp add: reg_inv_def)

lemma invalidate_fields [simp]:
  "models (invalidateAvailableModelsCacheLocked r) = models r"
  "clientModels (invalidateAvailableModelsCacheLocked r) = clientModels r"
  "clientProviders (invalidateAvailableModelsCacheLocked r) = clientProviders r"
  by (simp_all add: invalidateAvailableModelsCacheLocked_def)

lemma trigger_fields [simp]:
  "models (triggerModelsRegistered p c ms r) = models r" "models (triggerModelsUnregistered p c r) = models r"
  "clientModels (triggerModelsRegistered p c ms r) = clientModels r"
  "clientModels (triggerModelsUnregistered p c r) = clientModels r"
  "clientProviders (triggerModelsRegistered p c ms r) = clientProviders r"
  "clientProviders (triggerModelsUnregistered p c r) = clientProviders r"
  by (simp_all add: triggerModelsRegistered_def triggerModelsUnregistered_def)

lemma unregister_inv:
  assumes inv: "reg_inv r"
  shows "reg_inv (unregisterClientInternal c now r) \<and> mget (clientModels (unregisterClientInternal c now r)) c = None \<and>
         mget (clientProviders (unregisterClientInternal c now r)) c = None \<and>
         clientModels (unregisterClientInternal c now r) = mdel c (clientModels r)"
proof (cases "mget (clientModels r) c")
  case None
  then have d: "mdel c (clientModels r) = clientModels r"
    by (auto simp: mdel_filter filter_id_conv map_of_eq_None_iff)
  have share: "contrib (mget (models r) m) (refs (mdel c (clientModels r)) m)
      (prefs (mdel c (clientModels r)) (clientProviders r) m) 0 0 (provider_of r c)" for m
    using share_of_client [OF inv, where n = 0 and c = c and m = m] None by simp
  have wf: "wf_map (models r)" using inv by (simp add: reg_inv_def)
  have "reg_inv (r\<lparr>clientProviders := mdel c (clientProviders r)\<rparr>)"
    by (rule inv_of_leave [OF _ inv, where c = c and p = "provider_of r c"]) (use share wf d in simp_all)
  with None d show ?thesis by (simp add: unregisterClientInternal_def)
next
  case (Some ids)
  let ?f = "unregister_reg c (mget (clientProviders r) c) now"
  let ?r1 = "fold (\<lambda>i. upd_model i ?f) ids r"
  have sc: "same_clients r ?r1" by (rule same_clients_fold) simp
  have wf: "wf_map (models ?r1)" using sc inv by (simp add: same_clients_def reg_inv_def)
  have share: "contrib (mget (models ?r1) m) (refs (mdel c (clientModels r)) m)
      (prefs (mdel c (clientModels r)) (clientProviders r) m) 0 0 (provider_of r c)" for m
    using contrib_unregister_n [OF share_of_client [OF inv, where n = "count_list ids m" and c = c and m = m],
        where n = "count_list ids m" and prov = "mget (clientProviders r) c" and c = c and now = now] Some inv
    by (simp add: fold_same_upd provider_of_def reg_inv_def)
  let ?u = "unregisterClientInternal c now r"
  have u: "models ?u = models ?r1" "clientModels ?u = mdel c (clientModels r)" "clientProviders ?u = mdel c (clientProviders r)"
    using Some sc by (simp_all add: unregisterClientInternal_def Let_def same_clients_def)
  have "reg_inv ?u"
    by (rule inv_of_leave [OF _ inv u(2,3)]) (use wf share u(1) in simp_all)
  with u show ?thesis by simp
qed

lemma named_models_ids: "[] \<notin> set (map mi_ID (named_models ms))"
  by (auto simp: named_models_def)

lemma first_infos_named:
  "mget (first_infos [] ms) i \<noteq> None \<longleftrightarrow> i \<in> mi_ID ` set ms" "wf_map (first_infos [] ms)"
  using first_infos_keys(1) [of "[]" ms] first_infos_keys(2) [of "[]" ms] by (auto simp: map_of_eq_None_iff)

lemma fold_add_mget:
  assumes "\<And>i. i \<in> set ids \<Longrightarrow> mget infos i \<noteq> None" and "[] \<notin> set ids"
  shows "mget (models (fold (\<lambda>i r. case mget infos i of None \<Rightarrow> r | Some model \<Rightarrow> addModelRegistration i p model now r) ids r)) m =
           (add_reg p (the (mget infos m)) now ^^ count_list ids m) (mget (models r) m)"
  using assms
proof (induction ids arbitrary: r)
  case (Cons i ids)
  then obtain model where "mget infos i = Some model" by fastforce
  with Cons show ?case by (auto simp: addModelRegistration_def funpow_swap1)
qed simp

lemma same_clients_times [simp]:
  "same_clients r (remove_times c p now i n r)" "same_clients r (add_times p model now i n r)"
  unfolding remove_times_def add_times_def
  by (intro same_clients_funpow; simp add: removeModelRegistration_def addModelRegistration_def)+

lemma same_clients_loops [simp]:
  "same_clients r (leave_old_provider oldP newCounts oldCounts r)"
  "same_clients r (remove_gone c oldP now newCounts oldCounts r)"
  "same_clients r (remove_overage c oldP now newCounts oldCounts r)"
  "same_clients r (add_missing p now newModels newCounts oldCounts r)"
  "same_clients r (refresh_metadata c p changed now newModels newCounts oldCounts r)"
  unfolding leave_old_provider_def remove_gone_def remove_overage_def add_missing_def refresh_metadata_def
  by (rule same_clients_fold; auto simp: Let_def split: prod.splits option.splits)+

lemma store_client_fields [simp]:
  "models (store_client c p ids infos r) = models r"
  "clientModels (store_client c p ids infos r) = mput c ids (clientModels r)"
  "clientProviders (store_client c p ids infos r) =
     (if p \<noteq> [] then mput c p (clientProviders r) else mdel c (clientProviders r))"
  by (simp_all add: store_client_def)

text \<open>What the five loops of the reconciliation make of one model.\<close>

definition reconcile_models ::
  "string \<Rightarrow> string \<Rightarrow> string \<Rightarrow> time \<Rightarrow> (string, model_info) gomap \<Rightarrow> string list \<Rightarrow> string list \<Rightarrow>
   model_registry \<Rightarrow> model_registry" where
  "reconcile_models c oldP p now newModels new old r =
     refresh_metadata c p (oldP \<noteq> p) now newModels (counts new) (counts old)
      (add_missing p now newModels (counts new) (counts old)
       (remove_overage c oldP now (counts new) (counts old)
        (remove_gone c oldP now (counts new) (counts old)
         (if oldP \<noteq> p \<and> oldP \<noteq> [] then leave_old_provider oldP (counts new) (counts old) r else r))))"

lemma reconcile_models_mget:
  assumes "[] \<notin> set new" and "wf_map newModels" and nm: "\<And>i. mget newModels i \<noteq> None \<longleftrightarrow> i \<in> set new"
  shows "mget (models (reconcile_models c oldP p now newModels new old r)) m =
     reconcile c oldP p now (mget newModels m) (count_list new m) (count_list old m) (mget (models r) m)"
proof (cases "m \<in> set new")
  case True
  then obtain model where "mget newModels m = Some model" using nm by fastforce
  with True assms show ?thesis
    by (simp add: reconcile_models_def reconcile_def refresh_metadata_mget add_missing_mget remove_overage_mget
        remove_gone_mget leave_old_provider_mget Let_def count_list_0)
next
  case False
  then have "mget newModels m = None" using nm by fastforce
  with False assms show ?thesis
    by (simp add: reconcile_models_def reconcile_def refresh_metadata_mget add_missing_mget remove_overage_mget
        remove_gone_mget leave_old_provider_mget Let_def count_list_0)
qed

lemma same_clients_reconcile: "same_clients r (reconcile_models c oldP p now newModels new old r)"
  unfolding reconcile_models_def by (auto intro!: same_clients_trans [OF _ same_clients_loops(5)]
      same_clients_trans [OF _ same_clients_loops(4)] same_clients_trans [OF _ same_clients_loops(3)]
      same_clients_trans [OF _ same_clients_loops(2)])

lemma register_inv:
  assumes inv: "reg_inv r"
  shows "reg_inv (RegisterClient c cp ms now r)"
proof -
  define p where "p = ToLower cp"
  define named where "named = named_models ms"
  define ids where "ids = map mi_ID named"
  define infos where "infos = first_infos [] named"
  have ids: "[] \<notin> set ids" unfolding ids_def named_def by (rule named_models_ids)
  have infos: "mget infos i \<noteq> None \<longleftrightarrow> i \<in> set ids" "wf_map infos" for i
    using first_infos_named [of named] by (auto simp: infos_def ids_def)
  have wf: "wf_map (models r)" using inv by (simp add: reg_inv_def)
  let ?R = "RegisterClient c cp ms now r"
  consider (empty) "ids = []" | (new) "ids \<noteq> []" "mget (clientModels r) c = None"
    | (known) old where "ids \<noteq> []" "mget (clientModels r) c = Some old" by fastforce
  then show ?thesis
  proof cases
    case empty
    let ?u = "unregisterClientInternal c now r"
    have u: "reg_inv ?u" "mdel c (clientModels ?u) = clientModels ?u" "mdel c (clientProviders ?u) = clientProviders ?u"
      using unregister_inv [OF inv, of c now] by (auto simp: mdel_filter filter_id_conv map_of_eq_None_iff)
    show ?thesis
      by (rule reg_inv_other [OF u(1)])
        (use empty u in \<open>simp_all add: RegisterClient_def Let_def ids_def named_def\<close>)
  next
    case new
    let ?r1 = "fold (\<lambda>i r. case mget infos i of None \<Rightarrow> r | Some model \<Rightarrow> addModelRegistration i p model now r) ids r"
    have sc: "same_clients r ?r1"
      by (rule same_clients_fold) (auto simp: addModelRegistration_def split: option.splits)
    have R: "models ?R = models ?r1" "clientModels ?R = mput c ids (clientModels r)"
      "clientProviders ?R = (if p \<noteq> [] then mput c p (clientProviders r) else mdel c (clientProviders r))"
      using new sc unfolding ids_def named_def infos_def p_def
      by (simp_all add: RegisterClient_def Let_def same_clients_def)
    have "contrib (mget (models ?R) m) (refs (mdel c (clientModels r)) m)
        (prefs (mdel c (clientModels r)) (clientProviders r) m) (int (count_list ids m)) (int (count_list ids m)) p" for m
    proof -
      have "contrib (mget (models r) m) (refs (mdel c (clientModels r)) m)
         (prefs (mdel c (clientModels r)) (clientProviders r) m) 0 0 p"
        using share_of_client [OF inv, where n = 0 and c = c and m = m] new by (auto intro: contrib_switch)
      moreover have "mget (models ?R) m = (add_reg p (the (mget infos m)) now ^^ count_list ids m) (mget (models r) m)"
        unfolding R(1) by (rule fold_add_mget) (use infos(1) ids in blast)+
      ultimately show ?thesis
        using contrib_add_n [where n = "count_list ids m" and model = "the (mget infos m)" and now = now] by fastforce
    qed
    then show ?thesis
      using sc wf by (intro inv_of_share [OF _ inv p_def ids R(2,3)]) (simp_all add: R(1) same_clients_def)
  next
    case (known old)
    let ?r1 = "reconcile_models c (provider_of r c) p now infos ids old r"
    have sc: "same_clients r ?r1" by (rule same_clients_reconcile)
    have R0: "?R = triggerModelsRegistered p c ms
        (invalidateAvailableModelsCacheLocked (store_client c p ids infos ?r1))"
      using known unfolding RegisterClient_def Let_def ids_def named_def infos_def p_def reconcile_models_def provider_of_def
      by simp
    have R: "models ?R = models ?r1" "clientModels ?R = mput c ids (clientModels r)"
      "clientProviders ?R = (if p \<noteq> [] then mput c p (clientProviders r) else mdel c (clientProviders r))"
      using sc by (auto simp: R0 same_clients_def)
    have "contrib (mget (models ?R) m) (refs (mdel c (clientModels r)) m)
        (prefs (mdel c (clientModels r)) (clientProviders r) m) (int (count_list ids m)) (int (count_list ids m)) p" for m
    proof -
      have "contrib (mget (models r) m) (refs (mdel c (clientModels r)) m)
         (prefs (mdel c (clientModels r)) (clientProviders r) m) (int (count_list old m)) (int (count_list old m)) (provider_of r c)"
        by (rule share_of_client [OF inv]) (simp add: known)
      then show ?thesis unfolding R(1) reconcile_models_mget [OF ids infos(2) infos(1)]
        by (rule contrib_reconcile) (use infos(1) count_list_0 in metis)
    qed
    then show ?thesis
      using sc wf by (intro inv_of_share [OF _ inv p_def ids R(2,3)]) (simp_all add: R(1) same_clients_def)
  qed
qed

section \<open>Every operation\<close>

text \<open>The operations that change the registry, as steps.\<close>

inductive registry_step :: "model_registry \<Rightarrow> model_registry \<Rightarrow> bool" where
  hook: "registry_step r (SetHook b r)"
| register: "registry_step r (RegisterClient c p ms now r)"
| unregister: "registry_step r (UnregisterClient c now r)"
| quota: "registry_step r (SetModelQuotaExceeded c m now r)"
| clear: "registry_step r (ClearModelQuotaExceeded c m r)"
| suspend: "registry_step r (SuspendClientModel c m reason now r)"
| resume: "registry_step r (ResumeClientModel c m now r)"
| cleanup: "registry_step r (CleanupExpiredQuotas now r)"
| listing: "registry_step r (snd (GetAvailableModels handlerType now r))"
| first: "registry_step r (snd (GetFirstAvailableModel order handlerType now now' r))"

text \<open>Quota and suspension touch neither the counts nor the clients.\<close>

lemma reg_inv_update:
  assumes "reg_inv r" and "wf_map (models r')" and "clientModels r' = clientModels r"
    and "clientProviders r' = clientProviders r"
    and "\<And>m. rel_option (\<lambda>g g'. reg_Count g' = reg_Count g \<and> reg_Providers g' = reg_Providers g)
               (mget (models r) m) (mget (models r') m)"
  shows "reg_inv r'"
proof -
  have "ok_reg (mget (models r') m) = ok_reg (mget (models r) m) \<and> rc (mget (models r') m) = rc (mget (models r) m) \<and>
      rp (mget (models r') m) = rp (mget (models r) m)" for m
    using assms(5) [of m] by (cases rule: option.rel_cases) (auto simp: ok_reg_def rc_def rp_def fun_eq_iff)
  with assms show ?thesis by (simp add: reg_inv_def)
qed

lemma rel_option_same: "(\<And>g. R g g) \<Longrightarrow> rel_option R x x"
  by (cases x) auto

lemma quota_ops_inv:
  assumes "reg_inv r"
  shows "reg_inv (SetModelQuotaExceeded c m now r)" "reg_inv (ClearModelQuotaExceeded c m r)"
    "reg_inv (SuspendClientModel c m reason now r)" "reg_inv (ResumeClientModel c m now r)"
proof -
  have wf: "wf_map (models r)" using assms by (simp add: reg_inv_def)
  show "reg_inv (SetModelQuotaExceeded c m now r)" "reg_inv (ClearModelQuotaExceeded c m r)"
    "reg_inv (SuspendClientModel c m reason now r)" "reg_inv (ResumeClientModel c m now r)"
    using wf
    by (auto intro!: reg_inv_update [OF assms] rel_option_same
        simp: SetModelQuotaExceeded_def ClearModelQuotaExceeded_def SuspendClientModel_def ResumeClientModel_def assms
        split: option.splits)
qed

lemma mget_map_value: "mget (map (\<lambda>(k, v). (k, f v)) m) k = map_option f (mget m k)"
  by (induction m) auto

lemma cleanup_inv:
  assumes "reg_inv r"
  shows "reg_inv (CleanupExpiredQuotas now r)"
proof (rule reg_inv_update [OF assms])
  have "wf_map (models r)" using assms by (simp add: reg_inv_def)
  then show "wf_map (models (CleanupExpiredQuotas now r))"
    by (simp add: CleanupExpiredQuotas_def Let_def case_prod_beta comp_def)
next
  fix m
  show "rel_option (\<lambda>g g'. reg_Count g' = reg_Count g \<and> reg_Providers g' = reg_Providers g)
     (mget (models r) m) (mget (models (CleanupExpiredQuotas now r)) m)"
    by (cases "mget (models r) m") (simp_all add: CleanupExpiredQuotas_def Let_def mget_map_value cleanup_reg_def)
qed (simp_all add: CleanupExpiredQuotas_def Let_def)

lemma listing_fields:
  "models (snd (GetAvailableModels h now r)) = models r"
  "clientModels (snd (GetAvailableModels h now r)) = clientModels r"
  "clientProviders (snd (GetAvailableModels h now r)) = clientProviders r"
  by (simp_all add: GetAvailableModels_def split: option.splits prod.splits)

lemma first_registry: "snd (GetFirstAvailableModel order h now now' r) = snd (GetAvailableModels h now r)"
  by (simp add: GetFirstAvailableModel_def split: prod.splits)

lemma registry_step_inv: "registry_step r r' \<Longrightarrow> reg_inv r \<Longrightarrow> reg_inv r'"
proof (induction rule: registry_step.induct)
  case (register r c p ms now)
  then show ?case by (rule register_inv)
next
  case (unregister r c now)
  then show ?case using unregister_inv [of r c now] by (auto simp: UnregisterClient_def intro: reg_inv_other)
qed (auto simp: quota_ops_inv cleanup_inv first_registry SetHook_def listing_fields elim: reg_inv_other)

lemma reachable_inv: "registry_step\<^sup>*\<^sup>* empty_registry r \<Longrightarrow> reg_inv r"
proof (induction rule: rtranclp_induct)
  case base
  show ?case by (simp add: reg_inv_def empty_registry_def ok_reg_def rc_def rp_def refs_def prefs_def)
qed (rule registry_step_inv)

section \<open>Properties\<close>

lemma refs_pos: "refs cm m \<noteq> 0 \<longleftrightarrow> (\<exists>e \<in> set cm. m \<in> set (snd e))"
proof (induction cm)
  case (Cons e cm)
  have "0 \<le> refs cm m" using prefs_le [of cm "[]" m "[]"] by linarith
  with Cons show ?case by (auto simp: refs_def count_list_0)
qed (simp add: refs_def)

text \<open>C27: After any sequence of registrations, removals, quota and suspension reports, clean-ups and
  listings, every model's \<open>Count\<close> is the number of times the clients' current model lists name it,
  its count for a provider is the number of these that belong to clients of that provider, and a
  model has an entry exactly when some client serves it.\<close>

theorem reference_counts_exact:
  assumes "registry_step\<^sup>*\<^sup>* empty_registry r"
  shows "(\<forall>m. rc (mget (models r) m) = refs (clientModels r) m \<and>
              (\<forall>q. rp (mget (models r) m) q = prefs (clientModels r) (clientProviders r) m q) \<and>
              (mget (models r) m \<noteq> None \<longleftrightarrow> (\<exists>c ids. mget (clientModels r) c = Some ids \<and> m \<in> set ids)))"
proof (intro allI conjI)
  have inv: "reg_inv r" using assms by (rule reachable_inv)
  then have wf: "wf_map (clientModels r)" by (simp add: reg_inv_def)
  fix m q
  show "rc (mget (models r) m) = refs (clientModels r) m"
    "rp (mget (models r) m) q = prefs (clientModels r) (clientProviders r) m q"
    using inv by (simp_all add: reg_inv_def)
  have "mget (models r) m \<noteq> None \<longleftrightarrow> rc (mget (models r) m) \<noteq> 0"
    using inv by (auto simp: reg_inv_def ok_reg_def rc_def split: option.splits dest!: spec [where x = m])
  also have "\<dots> \<longleftrightarrow> refs (clientModels r) m \<noteq> 0" using inv by (simp add: reg_inv_def)
  also have "\<dots> \<longleftrightarrow> (\<exists>e \<in> set (clientModels r). m \<in> set (snd e))" by (rule refs_pos)
  also have "\<dots> \<longleftrightarrow> (\<exists>c ids. mget (clientModels r) c = Some ids \<and> m \<in> set ids)"
    using wf by (force simp: map_of_eq_Some_iff)
  finally show "mget (models r) m \<noteq> None \<longleftrightarrow> (\<exists>c ids. mget (clientModels r) c = Some ids \<and> m \<in> set ids)" .
qed

definition demo_info :: "string \<Rightarrow> model_info option" where
  "demo_info i = Some (zero_model_info\<lparr>mi_ID := i\<rparr>)"

definition demo_registry :: model_registry where
  "demo_registry =
     UnregisterClient ''b'' 9
       (RegisterClient ''a'' ''Gemini'' [demo_info ''m1'', demo_info ''m3'', demo_info ''m3''] 8
         (RegisterClient ''b'' ''claude'' [demo_info ''m1''] 7
           (RegisterClient ''a'' ''claude'' [demo_info ''m1'', demo_info ''m2''] 6 empty_registry)))"

lemma demo_registry_reachable: "registry_step\<^sup>*\<^sup>* empty_registry demo_registry"
  unfolding demo_registry_def
  by (rule rtranclp.rtrancl_into_rtrancl [rotated], rule registry_step.unregister,
      (rule rtranclp.rtrancl_into_rtrancl [rotated], rule registry_step.register)+, rule rtranclp.rtrancl_refl)

theorem reference_counts_exact_witness:
  "rc (mget (models demo_registry) ''m3'') = refs (clientModels demo_registry) ''m3'' \<and>
   refs (clientModels demo_registry) ''m3'' = 2 \<and>
   rp (mget (models demo_registry) ''m1'') ''gemini'' = 1 \<and> rp (mget (models demo_registry) ''m1'') ''claude'' = 0 \<and>
   mget (models demo_registry) ''m2'' = None"
proof -
  have "refs (clientModels demo_registry) ''m3'' = 2"
    "prefs (clientModels demo_registry) (clientProviders demo_registry) ''m1'' ''gemini'' = 1"
    "prefs (clientModels demo_registry) (clientProviders demo_registry) ''m1'' ''claude'' = 0"
    "mget (models demo_registry) ''m2'' = None"
    by code_simp+
  with reference_counts_exact [OF demo_registry_reachable] show ?thesis by simp
qed

end
