(* ===== verification/Model_Registry_Listing.thy ===== *)
theory Model_Registry_Listing
  imports Model_Registry_Counts
begin

text \<open>
  What the registry answers: the providers of a model, the number of clients that can serve it, and
  the cached listing, which is shown to be the listing a rebuild would give at every moment at which
  the cache is used.
\<close>

section \<open>The listing cache\<close>

text \<open>Between an instant and the earliest recovery after it, no quota entry changes sides.\<close>

lemma earlier_pos: "0 < t \<Longrightarrow> 0 \<le> best \<Longrightarrow> 0 < earlier t best"
  by (auto simp: earlier_def)

lemma earlier_le: "earlier t best \<le> t" "0 < best \<Longrightarrow> earlier t best \<le> best"
  by (auto simp: earlier_def)

lemma quota_loop_expiry:
  assumes "0 \<le> now" and "0 \<le> e"
  shows "0 \<le> snd (quota_loop now qs (n, e)) \<and>
     (0 < e \<longrightarrow> 0 < snd (quota_loop now qs (n, e)) \<and> snd (quota_loop now qs (n, e)) \<le> e)"
  using assms(2)
proof (induction qs arbitrary: n e)
  case (Cons q qs)
  obtain c t where q: "q = (c, t)" by fastforce
  let ?rec = "t + modelQuotaExceededWindow"
  let ?e1 = "if now < ?rec then earlier ?rec e else e" and ?n1 = "if now < ?rec then n + 1 else n"
  have l: "quota_loop now (q # qs) (n, e) = quota_loop now qs (?n1, ?e1)" by (simp add: q Let_def)
  have "0 \<le> ?e1" "0 < e \<longrightarrow> 0 < ?e1 \<and> ?e1 \<le> e"
    using earlier_pos [of ?rec e] earlier_le(2) [of e ?rec] Cons.prems assms(1) by auto
  with Cons.IH [of ?e1 ?n1] show ?case unfolding l by linarith
qed simp

lemma quota_loop_stable:
  assumes "0 \<le> now" "now \<le> t" "0 \<le> e"
    and "snd (quota_loop now qs (n, e)) = 0 \<or> t < snd (quota_loop now qs (n, e))"
  shows "fst (quota_loop t qs (n, e')) = fst (quota_loop now qs (n, e))"
  using assms
proof (induction qs arbitrary: n e e')
  case (Cons q qs)
  obtain c s where q: "q = (c, s)" by fastforce
  let ?rec = "s + modelQuotaExceededWindow"
  show ?case
  proof (cases "now < ?rec")
    case True
    then have e: "0 < earlier ?rec e" using Cons.prems by (intro earlier_pos) auto
    have "snd (quota_loop now qs (n + 1, earlier ?rec e)) \<le> earlier ?rec e"
      "0 < snd (quota_loop now qs (n + 1, earlier ?rec e))"
      using quota_loop_expiry [of now "earlier ?rec e" qs "n + 1"] e Cons.prems(1) by auto
    then have "t < ?rec" using Cons.prems(4) True q earlier_le(1) [of ?rec e] by (simp add: Let_def)
    with Cons.IH [of "earlier ?rec e" "n + 1"] Cons.prems True q e show ?thesis by (simp add: Let_def)
  next
    case False
    with Cons.IH [of e n] Cons.prems q show ?thesis by (simp add: Let_def)
  qed
qed simp

lemma availability_stable:
  assumes "0 \<le> now" "now \<le> t"
    and "snd (modelRegistrationAvailability g now) = 0 \<or> t < snd (modelRegistrationAvailability g now)"
  shows "fst (modelRegistrationAvailability g t) = fst (modelRegistrationAvailability g now)"
  using quota_loop_stable [OF assms(1,2), of 0 "reg_QuotaExceededClients g" 0 0] assms(3)
  by (simp add: modelRegistrationAvailability_def Let_def)

lemma availability_expiry: "0 \<le> now \<Longrightarrow> 0 \<le> snd (modelRegistrationAvailability g now)"
  using quota_loop_expiry [of now 0 "reg_QuotaExceededClients g" 0]
  by (simp add: modelRegistrationAvailability_def Let_def)

text \<open>The rebuild, as the listing of the available registrations and the earliest recovery.\<close>

lemma build_loop_models:
  "fst (build_loop h now L (ms, e)) =
     ms @ map (\<lambda>(_, g). convertModelToMap (reg_Info g) h)
            (filter (\<lambda>(_, g). fst (modelRegistrationAvailability g now)) L)"
  by (induction L arbitrary: ms e) (auto simp: Let_def split: prod.splits)

lemma build_loop_expiry:
  assumes now: "0 \<le> now" and "0 \<le> e"
  shows "0 \<le> snd (build_loop h now L (ms, e)) \<and>
     (0 < e \<longrightarrow> 0 < snd (build_loop h now L (ms, e)) \<and> snd (build_loop h now L (ms, e)) \<le> e) \<and>
     (\<forall>x \<in> set L. 0 < snd (modelRegistrationAvailability (snd x) now) \<longrightarrow>
         0 < snd (build_loop h now L (ms, e)) \<and>
         snd (build_loop h now L (ms, e)) \<le> snd (modelRegistrationAvailability (snd x) now))"
  using assms(2)
proof (induction L arbitrary: ms e)
  case (Cons y L)
  obtain m g where y: "y = (m, g)" by fastforce
  let ?a = "modelRegistrationAvailability g now"
  let ?e1 = "if snd ?a \<noteq> 0 then earlier (snd ?a) e else e"
  let ?ms = "if fst ?a then ms @ [convertModelToMap (reg_Info g) h] else ms"
  let ?b = "snd (build_loop h now L (?ms, ?e1))"
  have b: "snd (build_loop h now (y # L) (ms, e)) = ?b"
    by (simp add: y Let_def split: prod.splits)
  have e1: "0 \<le> ?e1" "0 < e \<longrightarrow> 0 < ?e1 \<and> ?e1 \<le> e" "0 < snd ?a \<longrightarrow> 0 < ?e1 \<and> ?e1 \<le> snd ?a"
    using availability_expiry [OF now, of g] earlier_pos [of "snd ?a" e] earlier_le(2) [of e "snd ?a"]
      earlier_le(1) [of "snd ?a" e] Cons.prems by auto
  note ih = Cons.IH [OF e1(1), of ?ms]
  have "0 \<le> ?b" "0 < e \<longrightarrow> 0 < ?b \<and> ?b \<le> e" "0 < snd ?a \<longrightarrow> 0 < ?b \<and> ?b \<le> snd ?a" using ih e1 by linarith+
  with ih show ?case unfolding b by (simp add: y)
qed simp

definition fresh_listing :: "string \<Rightarrow> time \<Rightarrow> model_registry \<Rightarrow> model_map list" where
  "fresh_listing h now r = fst (buildAvailableModelsLocked h now r)"

lemma fresh_listing_eq:
  "fresh_listing h now r =
     sort_key modelIDFromMap
       (map (\<lambda>(_, g). convertModelToMap (reg_Info g) h)
         (filter (\<lambda>(_, g). fst (modelRegistrationAvailability g now)) (models r)))"
  using build_loop_models [of h now "models r" "[]" zero_time]
  by (simp add: fresh_listing_def buildAvailableModelsLocked_def case_prod_beta)

lemma fresh_listing_stable:
  assumes "0 \<le> now" "now \<le> t"
    and "snd (buildAvailableModelsLocked h now r) = 0 \<or> t < snd (buildAvailableModelsLocked h now r)"
  shows "fresh_listing h t r = fresh_listing h now r"
proof -
  have s: "snd (buildAvailableModelsLocked h now r) = snd (build_loop h now (models r) ([], 0))"
    by (simp add: buildAvailableModelsLocked_def case_prod_beta)
  have "fst (modelRegistrationAvailability (snd x) t) = fst (modelRegistrationAvailability (snd x) now)"
    if "x \<in> set (models r)" for x
    using build_loop_expiry [OF assms(1) order_refl, of h "models r" "[]"] assms s that
      availability_expiry [OF assms(1), of "snd x"]
    by (intro availability_stable) fastforce+
  then have "filter (\<lambda>(_, g). fst (modelRegistrationAvailability g t)) (models r) =
      filter (\<lambda>(_, g). fst (modelRegistrationAvailability g now)) (models r)"
    by (intro filter_cong) (auto split: prod.splits)
  then show ?thesis by (simp add: fresh_listing_eq)
qed

text \<open>Runs of the registry under a clock that does not go back.\<close>

inductive clocked :: "time \<Rightarrow> model_registry \<Rightarrow> bool" where
  start: "0 \<le> t \<Longrightarrow> clocked t empty_registry"
| tick: "clocked t r \<Longrightarrow> t \<le> t' \<Longrightarrow> clocked t' r"
| hook: "clocked t r \<Longrightarrow> clocked t (SetHook b r)"
| register: "clocked t r \<Longrightarrow> clocked t (RegisterClient c p ms t r)"
| unregister: "clocked t r \<Longrightarrow> clocked t (UnregisterClient c t r)"
| quota: "clocked t r \<Longrightarrow> clocked t (SetModelQuotaExceeded c m t r)"
| clear: "clocked t r \<Longrightarrow> clocked t (ClearModelQuotaExceeded c m r)"
| suspend: "clocked t r \<Longrightarrow> clocked t (SuspendClientModel c m reason t r)"
| resume: "clocked t r \<Longrightarrow> clocked t (ResumeClientModel c m t r)"
| cleanup: "clocked t r \<Longrightarrow> clocked t (CleanupExpiredQuotas t r)"
| listing: "clocked t r \<Longrightarrow> clocked t (snd (GetAvailableModels h t r))"
| first: "clocked t r \<Longrightarrow> clocked t (snd (GetFirstAvailableModel order h t t' r))"

definition cache_inv :: "time \<Rightarrow> model_registry \<Rightarrow> bool" where
  "cache_inv t r \<longleftrightarrow> 0 \<le> t \<and>
     (\<forall>h e t'. mget (availableModelsCache r) h = Some e \<longrightarrow> t \<le> t' \<longrightarrow> cache_valid e t' \<longrightarrow>
        fresh_listing h t' r = ce_models e)"

lemma cache_inv_same:
  "cache_inv t r \<Longrightarrow> models r' = models r \<Longrightarrow> availableModelsCache r' = availableModelsCache r \<Longrightarrow> cache_inv t r'"
  by (simp add: cache_inv_def fresh_listing_eq)

lemma cache_inv_cleared: "cache_inv t r \<Longrightarrow> availableModelsCache r' = [] \<Longrightarrow> cache_inv t r'"
  by (simp add: cache_inv_def)

lemma invalidate_cache [simp]: "availableModelsCache (invalidateAvailableModelsCacheLocked r) = []"
  by (simp add: invalidateAvailableModelsCacheLocked_def)

lemma register_cache: "availableModelsCache (RegisterClient c p ms now r) = []"
  by (auto simp: RegisterClient_def triggerModelsRegistered_def Let_def split: option.splits)

lemma cleanup_cache:
  "availableModelsCache (CleanupExpiredQuotas now r) = [] \<or> CleanupExpiredQuotas now r = r"
proof (cases "list_ex (\<lambda>(_, reg). list_ex (\<lambda>(_, quotaTime). now - quotaTime \<ge> modelQuotaExceededWindow)
                        (reg_QuotaExceededClients reg)) (models r)")
  case False
  then have "(case x of (m, reg) \<Rightarrow> (m, cleanup_reg now reg)) = x" if "x \<in> set (models r)" for x
    using that by (auto simp: list_ex_iff cleanup_reg_def filter_id_conv split: prod.splits)
  then have "map (\<lambda>(m, reg). (m, cleanup_reg now reg)) (models r) = models r" by (simp add: map_idI)
  with False show ?thesis by (simp add: CleanupExpiredQuotas_def Let_def)
qed (simp add: CleanupExpiredQuotas_def)

lemma listing_cache_inv:
  assumes "cache_inv t r"
  shows "cache_inv t (snd (GetAvailableModels h t r))" and "fst (GetAvailableModels h t r) = fresh_listing h t r"
proof -
  let ?b = "buildAvailableModelsLocked h t r"
  let ?r1 = "r\<lparr>availableModelsCache := mput h \<lparr>ce_models = fst ?b, ce_expiresAt = snd ?b\<rparr> (availableModelsCache r)\<rparr>"
  have t: "0 \<le> t" using assms by (simp add: cache_inv_def)
  have "fresh_listing h t' r = fst ?b" if "t \<le> t'" "snd ?b = 0 \<or> t' < snd ?b" for t'
    using fresh_listing_stable [OF t that] by (simp add: fresh_listing_def)
  then have r1: "cache_inv t ?r1"
    using assms by (auto simp: cache_inv_def cache_valid_def fresh_listing_eq)
  show "cache_inv t (snd (GetAvailableModels h t r))"
    using assms r1 by (simp add: GetAvailableModels_def case_prod_beta split: option.splits)
  show "fst (GetAvailableModels h t r) = fresh_listing h t r"
    using assms by (auto simp: GetAvailableModels_def cache_inv_def case_prod_beta fresh_listing_def split: option.splits)
qed

lemma clocked_cache_inv: "clocked t r \<Longrightarrow> cache_inv t r"
proof (induction rule: clocked.induct)
  case (start t)
  then show ?case by (simp add: cache_inv_def empty_registry_def)
next
  case (tick t r t')
  then show ?case by (auto simp: cache_inv_def)
next
  case (register t r c p ms)
  then show ?case by (auto intro: cache_inv_cleared simp: register_cache)
next
  case (unregister t r c)
  then show ?case by (auto intro: cache_inv_cleared simp: UnregisterClient_def)
next
  case (cleanup t r)
  then show ?case using cleanup_cache [of t r] by (auto intro: cache_inv_cleared)
qed (auto simp: listing_cache_inv first_registry SetHook_def SetModelQuotaExceeded_def ClearModelQuotaExceeded_def
    SuspendClientModel_def ResumeClientModel_def elim: cache_inv_same cache_inv_cleared split: option.splits)

text \<open>C28: The listing cache is never stale: in every run under a clock that does not go back,
  \<open>GetAvailableModels\<close> answers what a rebuild at that moment would answer, although it
  rebuilds only after a change or when the earliest quota recovery seen at the last build has passed.\<close>

theorem listing_cache_coherent:
  assumes "clocked t r"
  shows "fst (GetAvailableModels h t r) = fst (buildAvailableModelsLocked h t r)"
  using listing_cache_inv(2) [OF clocked_cache_inv [OF assms]] by (simp add: fresh_listing_def)

text \<open>A client over quota at time 10, a listing cached at time 20, asked again when it is still valid.\<close>

definition demo_cached :: model_registry where
  "demo_cached =
     snd (GetAvailableModels ''openai'' 20
       (SetModelQuotaExceeded ''a'' ''m1'' 20
         (RegisterClient ''a'' ''gemini'' [demo_info ''m1'', demo_info ''m0''] 20 empty_registry)))"

lemma demo_cached_clocked: "clocked 30 demo_cached"
  unfolding demo_cached_def
  by (rule clocked.tick [where t = 20], rule clocked.listing, rule clocked.quota, rule clocked.register, rule clocked.start) simp_all

theorem listing_cache_coherent_witness:
  "map modelIDFromMap (fst (GetAvailableModels ''openai'' 30 demo_cached)) = [''m0'', ''m1''] \<and>
   mget (availableModelsCache demo_cached) ''openai'' \<noteq> None"
proof -
  have "map modelIDFromMap (fst (buildAvailableModelsLocked ''openai'' 30 demo_cached)) = [''m0'', ''m1'']" by code_simp
  moreover have "mget (availableModelsCache demo_cached) ''openai'' \<noteq> None" by code_simp
  ultimately show ?thesis by (simp add: listing_cache_coherent [OF demo_cached_clocked])
qed

section \<open>Providers of a model\<close>

lemma prefs_pos:
  "0 < prefs cm cp m q \<longleftrightarrow> (\<exists>e \<in> set cm. m \<in> set (snd e) \<and> mget cp (fst e) = Some q)"
proof (induction cm)
  case (Cons e cm)
  have "0 \<le> prefs cm cp m q" using prefs_le by blast
  moreover have "0 < int (count_list (snd e) m) \<longleftrightarrow> m \<in> set (snd e)" by (metis count_list_0 gr0I less_irrefl of_nat_0_less_iff)
  ultimately show ?case using Cons by (auto simp: prefs_def)
qed (simp add: prefs_def)

lemma sorted_wrt_sort_key: "sorted_wrt (\<lambda>x y. f x \<le> f y) (sort_key f xs)"
  by (metis sorted_map sorted_sort_key)

text \<open>\<open>GetModelProviders\<close> returns exactly the providers that have a client serving the
  model, each once, those with more registrations first and equal ones by name.\<close>

theorem GetModelProviders_exact:
  assumes "registry_step\<^sup>*\<^sup>* empty_registry r"
  shows "set (GetModelProviders m r) =
           {q. \<exists>c ids. mget (clientModels r) c = Some ids \<and> m \<in> set ids \<and> mget (clientProviders r) c = Some q} \<and>
         distinct (GetModelProviders m r) \<and>
         sorted_wrt (\<lambda>p q. prefs (clientModels r) (clientProviders r) m q < prefs (clientModels r) (clientProviders r) m p \<or>
                            prefs (clientModels r) (clientProviders r) m q = prefs (clientModels r) (clientProviders r) m p \<and> p \<le> q)
           (GetModelProviders m r)"
proof -
  let ?n = "prefs (clientModels r) (clientProviders r) m"
  have inv: "reg_inv r" using assms by (rule reachable_inv)
  then have wf: "wf_map (clientModels r)" and n: "\<And>q. rp (mget (models r) m) q = ?n q" by (simp_all add: reg_inv_def)
  have S: "{q. \<exists>c ids. mget (clientModels r) c = Some ids \<and> m \<in> set ids \<and> mget (clientProviders r) c = Some q} = {q. 0 < ?n q}"
    using wf by (force simp: prefs_pos map_of_eq_Some_iff)
  show ?thesis
  proof (cases "mget (models r) m")
    case None
    with n show ?thesis by (simp add: S GetModelProviders_def rp_def)
  next
    case (Some g)
    let ?L = "sort_key (\<lambda>(name, n). (- n, name)) (filter (\<lambda>(_, n). \<not> n \<le> 0) (reg_Providers g))"
    have wfg: "wf_map (reg_Providers g)" using inv Some by (auto simp: reg_inv_def ok_reg_def dest!: spec [where x = m])
    have e: "(q, k) \<in> set (reg_Providers g) \<Longrightarrow> ?n q = k" for q k
      using n [of q] Some wfg by (simp add: rp_def count_of_def map_of_eq_Some_iff split: option.splits)
    have "q \<in> fst ` set ?L \<longleftrightarrow> 0 < ?n q" for q
    proof
      assume "0 < ?n q"
      then obtain k where "mget (reg_Providers g) q = Some k" "0 < k"
        using n [of q] Some by (auto simp: rp_def count_of_def split: option.splits)
      then show "q \<in> fst ` set ?L" by (force dest: map_of_SomeD)
    qed (use e in force)
    moreover have "distinct (map fst ?L)"
    proof -
      have "distinct (map fst (filter (\<lambda>(_, n). \<not> n \<le> 0) (reg_Providers g)))" using wfg by (rule distinct_map_filter)
      then show ?thesis by (auto simp: distinct_map)
    qed
    moreover have "sorted_wrt (\<lambda>p q. ?n q < ?n p \<or> ?n q = ?n p \<and> p \<le> q) (map fst ?L)"
      unfolding sorted_wrt_map
      by (rule sorted_wrt_mono_rel [OF _ sorted_wrt_sort_key]) (auto simp: less_eq_prod_def dest!: e)
    ultimately show ?thesis using Some by (auto simp: S GetModelProviders_def)
  qed
qed

theorem GetModelProviders_exact_witness:
  "GetModelProviders ''m1'' demo_registry = [''gemini''] \<and>
   {q. \<exists>c ids. mget (clientModels demo_registry) c = Some ids \<and> ''m1'' \<in> set ids \<and>
               mget (clientProviders demo_registry) c = Some q} = {''gemini''}"
proof -
  have "GetModelProviders ''m1'' demo_registry = [''gemini'']" by code_simp
  with GetModelProviders_exact [OF demo_registry_reachable, of "''m1''"] show ?thesis by simp
qed

section \<open>Clients over quota\<close>

definition quota_ok :: "model_registration option \<Rightarrow> bool" where
  "quota_ok x \<longleftrightarrow>
     (case x of None \<Rightarrow> True | Some g \<Rightarrow> wf_map (reg_QuotaExceededClients g) \<and> wf_map (reg_SuspendedClients g))"

lemma quota_ok_regs [simp]:
  "quota_ok x \<Longrightarrow> quota_ok (add_reg p model now x)"
  "quota_ok x \<Longrightarrow> quota_ok (remove_reg c p now x)"
  "quota_ok x \<Longrightarrow> quota_ok (unregister_reg c prov now x)"
  "quota_ok x \<Longrightarrow> quota_ok (move_provider_reg p n x)"
  "quota_ok x \<Longrightarrow> quota_ok (refresh_reg c p b now model i j x)"
  by (auto simp: quota_ok_def add_reg_def remove_reg_def unregister_reg_def move_provider_reg_def refresh_reg_def
      drop_provider_def Let_def split: option.splits)

definition keeps_quota :: "model_registry \<Rightarrow> model_registry \<Rightarrow> bool" where
  "keeps_quota r r' \<longleftrightarrow> ((\<forall>m. quota_ok (mget (models r) m)) \<longrightarrow> (\<forall>m. quota_ok (mget (models r') m)))"

lemma keeps_quota_refl [simp]: "keeps_quota r r"
  by (simp add: keeps_quota_def)

lemma keeps_quota_trans: "keeps_quota r s \<Longrightarrow> keeps_quota s t \<Longrightarrow> keeps_quota r t"
  by (simp add: keeps_quota_def)

lemma keeps_quota_upd: "(\<And>x. quota_ok x \<Longrightarrow> quota_ok (f x)) \<Longrightarrow> keeps_quota r (upd_model i f r)"
  by (simp add: keeps_quota_def)

lemma keeps_quota_fold: "(\<And>e r. keeps_quota r (F e r)) \<Longrightarrow> keeps_quota r (fold F L r)"
  by (induction L arbitrary: r) (auto intro: keeps_quota_trans)

lemma keeps_quota_funpow: "(\<And>r. keeps_quota r (F r)) \<Longrightarrow> keeps_quota r ((F ^^ n) r)"
  by (induction n arbitrary: r) (auto intro: keeps_quota_trans)

lemma keeps_quota_same: "models r' = models s \<Longrightarrow> keeps_quota r s \<Longrightarrow> keeps_quota r r'"
  by (simp add: keeps_quota_def)

lemma keeps_quota_times [simp]:
  "keeps_quota r (remove_times c p now i n r)" "keeps_quota r (add_times p model now i n r)"
  unfolding remove_times_def add_times_def
  by (intro keeps_quota_funpow; simp add: removeModelRegistration_def addModelRegistration_def keeps_quota_upd)+

lemma keeps_quota_loops [simp]:
  "keeps_quota r (leave_old_provider oldP newCounts oldCounts r)"
  "keeps_quota r (remove_gone c oldP now newCounts oldCounts r)"
  "keeps_quota r (remove_overage c oldP now newCounts oldCounts r)"
  "keeps_quota r (add_missing p now newModels newCounts oldCounts r)"
  "keeps_quota r (refresh_metadata c p changed now newModels newCounts oldCounts r)"
  unfolding leave_old_provider_def remove_gone_def remove_overage_def add_missing_def refresh_metadata_def
  by (rule keeps_quota_fold; auto simp: Let_def keeps_quota_upd split: prod.splits option.splits)+

lemma keeps_quota_unregister: "keeps_quota r (unregisterClientInternal c now r)"
proof -
  have "keeps_quota r (fold (\<lambda>i. upd_model i (unregister_reg c prov now)) ids r)" for prov ids
    by (rule keeps_quota_fold) (simp add: keeps_quota_upd)
  then show ?thesis by (auto simp: unregisterClientInternal_def Let_def keeps_quota_def split: option.splits)
qed

lemma keeps_quota_register: "keeps_quota r (RegisterClient c cp ms now r)"
proof -
  have a: "keeps_quota r (fold (\<lambda>i r. case mget infos i of None \<Rightarrow> r | Some model \<Rightarrow> addModelRegistration i p model now r) ids r)"
    for infos p ids
    by (rule keeps_quota_fold) (auto simp: addModelRegistration_def keeps_quota_upd split: option.splits)
  have b: "keeps_quota r (refresh_metadata c p ch now infos new old (add_missing p now infos new old
      (remove_overage c oldP now new old (remove_gone c oldP now new old
        (if q then leave_old_provider oldP new old r else r)))))" for p ch infos new old oldP q
    by (auto intro!: keeps_quota_trans [OF _ keeps_quota_loops(5)] keeps_quota_trans [OF _ keeps_quota_loops(4)]
        keeps_quota_trans [OF _ keeps_quota_loops(3)] keeps_quota_trans [OF _ keeps_quota_loops(2)])
  show ?thesis
    unfolding RegisterClient_def Let_def
    using keeps_quota_unregister [of r c now] keeps_quota_same [OF _ a] keeps_quota_same [OF _ b]
    by (auto simp: keeps_quota_def split: option.splits)
qed

lemma registry_step_quota: "registry_step r r' \<Longrightarrow> keeps_quota r r'"
proof (induction rule: registry_step.induct)
  case (register r c p ms now)
  show ?case by (rule keeps_quota_register)
next
  case (unregister r c now)
  show ?case using keeps_quota_unregister by (rule keeps_quota_same [rotated]) (simp add: UnregisterClient_def)
next
  case (cleanup now r)
  show ?case
    by (auto simp: keeps_quota_def CleanupExpiredQuotas_def Let_def mget_map_value cleanup_reg_def quota_ok_def
        distinct_map_filter split: option.splits)
qed (auto simp: keeps_quota_def quota_ok_def listing_fields first_registry SetHook_def SetModelQuotaExceeded_def
    ClearModelQuotaExceeded_def SuspendClientModel_def ResumeClientModel_def split: option.splits)

lemma reachable_quota: "registry_step\<^sup>*\<^sup>* empty_registry r \<Longrightarrow> quota_ok (mget (models r) m)"
proof -
  assume "registry_step\<^sup>*\<^sup>* empty_registry r"
  then have "keeps_quota empty_registry r"
    by (induction rule: rtranclp_induct) (auto intro: keeps_quota_trans registry_step_quota)
  then show ?thesis by (simp add: keeps_quota_def empty_registry_def quota_ok_def)
qed

lemma length_filter_mput:
  "wf_map m \<Longrightarrow> length (filter P (mput k v m)) = length (filter P (mdel k m)) + (if P (k, v) then 1 else 0)"
proof -
  assume wf: "wf_map m"
  have "int (length (filter P xs)) = sum_list (map (\<lambda>e. if P e then 1 else 0) xs)" for xs
    by (induction xs) auto
  then have "int (length (filter P (mput k v m))) = int (length (filter P (mdel k m)) + (if P (k, v) then 1 else 0))"
    by (simp add: sum_mput [OF wf])
  then show ?thesis by (simp only: of_nat_eq_iff)
qed

text \<open>A quota report takes the client out of the model's count for five minutes and no longer;
  it never takes out more than that one client, and a later report restarts the window.\<close>

theorem quota_report_window:
  assumes "registry_step\<^sup>*\<^sup>* empty_registry r" and "mget (models r) m \<noteq> None"
  shows "GetModelCount m t (SetModelQuotaExceeded c m now r) =
           (if t < now + 5 * Minute then max 0 (GetModelCount m t (ClearModelQuotaExceeded c m r) - 1)
            else GetModelCount m t (ClearModelQuotaExceeded c m r))"
proof -
  obtain g where g: "mget (models r) m = Some g" using assms(2) by blast
  have wf: "wf_map (reg_QuotaExceededClients g)" using reachable_quota [OF assms(1), of m] g by (simp add: quota_ok_def)
  show ?thesis
    using length_filter_mput [OF wf, of "\<lambda>(_, q). t - q < modelQuotaExceededWindow" c now] g
    by (auto simp: GetModelCount_def SetModelQuotaExceeded_def ClearModelQuotaExceeded_def Let_def
        modelQuotaExceededWindow_def)
qed

theorem quota_report_window_witness:
  "GetModelCount ''m1'' 20 (SetModelQuotaExceeded ''a'' ''m1'' 10 demo_registry) = 0 \<and>
   GetModelCount ''m1'' (10 + 5 * Minute) (SetModelQuotaExceeded ''a'' ''m1'' 10 demo_registry) = 1"
proof -
  have "mget (models demo_registry) ''m1'' \<noteq> None"
    "GetModelCount ''m1'' 20 (ClearModelQuotaExceeded ''a'' ''m1'' demo_registry) = 1"
    "GetModelCount ''m1'' (10 + 5 * Minute) (ClearModelQuotaExceeded ''a'' ''m1'' demo_registry) = 1"
    "20 < 10 + 5 * Minute"
    by code_simp+
  then show ?thesis by (simp add: quota_report_window [OF demo_registry_reachable])
qed

text \<open>C29: A rate-limited request reports the client twice, as over quota and as suspended with the
  reason \<open>quota\<close>, and \<open>GetModelCount\<close> subtracts both: one rate-limited client takes two
  clients out of the count.\<close>

theorem rate_limited_counted_twice:
  assumes "registry_step\<^sup>*\<^sup>* empty_registry r" and "mget (models r) m = Some g" and "c \<noteq> []" and "m \<noteq> []"
    and "mget (reg_SuspendedClients g) c = None" and "t < now + 5 * Minute"
  shows "GetModelCount m t (SuspendClientModel c m ''quota'' now (SetModelQuotaExceeded c m now r)) =
           max 0 (GetModelCount m t (ClearModelQuotaExceeded c m r) - 2)"
proof -
  have wf: "wf_map (reg_QuotaExceededClients g)" "wf_map (reg_SuspendedClients g)"
    using reachable_quota [OF assms(1), of m] assms(2) by (simp_all add: quota_ok_def)
  have "mdel c (reg_SuspendedClients g) = reg_SuspendedClients g"
    using assms(5) by (auto simp: mdel_filter filter_id_conv map_of_eq_None_iff)
  with length_filter_mput [OF wf(1), of "\<lambda>(_, q). t - q < modelQuotaExceededWindow" c now]
    length_filter_mput [OF wf(2), of "\<lambda>_. True" c "''quota''"] assms(2-6)
  show ?thesis
    by (auto simp: GetModelCount_def SetModelQuotaExceeded_def SuspendClientModel_def ClearModelQuotaExceeded_def Let_def
        modelQuotaExceededWindow_def)
qed

text \<open>Two clients serve the model, one is rate limited: the registry counts none.\<close>

definition demo_pair :: model_registry where
  "demo_pair = RegisterClient ''b'' ''claude'' [demo_info ''m1''] 7
     (RegisterClient ''a'' ''claude'' [demo_info ''m1''] 6 empty_registry)"

lemma demo_pair_reachable: "registry_step\<^sup>*\<^sup>* empty_registry demo_pair"
  unfolding demo_pair_def
  by ((rule rtranclp.rtrancl_into_rtrancl [rotated], rule registry_step.register)+, rule rtranclp.rtrancl_refl)

theorem rate_limited_counted_twice_witness:
  "GetModelCount ''m1'' 10 demo_pair = 2 \<and>
   GetModelCount ''m1'' 10 (SuspendClientModel ''a'' ''m1'' ''quota'' 10 (SetModelQuotaExceeded ''a'' ''m1'' 10 demo_pair)) = 0"
proof -
  obtain g where g: "mget (models demo_pair) ''m1'' = Some g"
    and s: "mget (reg_SuspendedClients g) ''a'' = None"
  proof -
    have "mget (reg_SuspendedClients (the (mget (models demo_pair) ''m1''))) ''a'' = None" "mget (models demo_pair) ''m1'' \<noteq> None"
      by code_simp+
    then show thesis by (intro that [of "the (mget (models demo_pair) ''m1'')"]) auto
  qed
  have "GetModelCount ''m1'' 10 demo_pair = 2" "GetModelCount ''m1'' 10 (ClearModelQuotaExceeded ''a'' ''m1'' demo_pair) = 2"
    "10 < 10 + 5 * Minute"
    by code_simp+
  with rate_limited_counted_twice [OF demo_pair_reachable g _ _ s, of 10 10] show ?thesis by simp
qed

end
