(* ===== verification/Auth_State.thy ===== *)
theory Auth_State
  imports Thinking
begin

text \<open>
  The credential record and what is read from it: \<^verbatim>\<open>sdk/cliproxy/auth/types.go\<close>,
  \<^verbatim>\<open>status.go\<close>, \<^verbatim>\<open>errors.go\<close>, \<^verbatim>\<open>weight.go\<close>, the
  attribute readers of \<^verbatim>\<open>selector.go\<close> and
  \<^verbatim>\<open>internal/credentialweight/weight.go\<close>.

  Pointers that may be nil (\<open>*Error\<close>, the entries of \<open>ModelStates\<close>, the candidates of a
  selection) are options. Nil and empty maps agree in every access the code makes. Fields that only
  other parts of the program use (token storage, proxies, refresh times, the runtime value)
  are left out. \<open>lookup\<close> is the model registry, as in \<open>ParseSuffixForModel\<close>.
\<close>

section \<open>Data\<close>

definition StatusUnknown :: string where "StatusUnknown = ''unknown''"
definition StatusActive :: string where "StatusActive = ''active''"
definition StatusPending :: string where "StatusPending = ''pending''"
definition StatusRefreshing :: string where "StatusRefreshing = ''refreshing''"
definition StatusError :: string where "StatusError = ''error''"
definition StatusDisabled :: string where "StatusDisabled = ''disabled''"

lemmas status_defs =
  StatusUnknown_def StatusActive_def StatusPending_def StatusRefreshing_def StatusError_def StatusDisabled_def

record auth_error =
  ae_Code :: string
  ae_Message :: string
  ae_Retryable :: bool
  ae_HTTPStatus :: int

definition requestScopedErrorCode :: string where
  "requestScopedErrorCode = ''request_scoped''"

definition connectionLifecycleErrorCode :: string where
  "connectionLifecycleErrorCode = ''connection_lifecycle''"

definition Error_text :: "auth_error option \<Rightarrow> string" where
  "Error_text e0 =
     (case e0 of
        None \<Rightarrow> []
      | Some e \<Rightarrow> if ae_Code e = [] then ae_Message e else ae_Code e @ '': '' @ ae_Message e)"

definition Error_StatusCode :: "auth_error option \<Rightarrow> int" where
  "Error_StatusCode e0 = (case e0 of None \<Rightarrow> 0 | Some e \<Rightarrow> ae_HTTPStatus e)"

definition IsRequestScoped :: "auth_error option \<Rightarrow> bool" where
  "IsRequestScoped e0 = (case e0 of None \<Rightarrow> False | Some e \<Rightarrow> ae_Code e = requestScopedErrorCode)"

record quota_state =
  q_Exceeded :: bool
  q_Reason :: string
  q_NextRecoverAt :: time
  q_BackoffLevel :: int

definition zero_quota :: quota_state where
  "zero_quota = \<lparr>q_Exceeded = False, q_Reason = [], q_NextRecoverAt = zero_time, q_BackoffLevel = 0\<rparr>"

record model_state =
  ms_Status :: string
  ms_StatusMessage :: string
  ms_Unavailable :: bool
  ms_NextRetryAfter :: time
  ms_LastError :: "auth_error option"
  ms_Quota :: quota_state
  ms_UpdatedAt :: time

definition recentRequestBucketSeconds :: int where
  "recentRequestBucketSeconds = 10 * 60"

definition recentRequestBucketCount :: nat where
  "recentRequestBucketCount = 20"

record recent_bucket =
  rb_bucketID :: int
  rb_success :: int
  rb_failed :: int

definition zero_ring :: "recent_bucket list" where
  "zero_ring = replicate recentRequestBucketCount \<lparr>rb_bucketID = 0, rb_success = 0, rb_failed = 0\<rparr>"

record auth =
  auth_ID :: string
  auth_Provider :: string
  auth_Prefix :: string
  auth_FileName :: string
  auth_Label :: string
  auth_Status :: string
  auth_StatusMessage :: string
  auth_Disabled :: bool
  auth_Unavailable :: bool
  auth_ProxyURL :: string
  auth_Attributes :: "(string, string) gomap"
  auth_Metadata :: "(string, any) gomap"
  auth_Quota :: quota_state
  auth_LastError :: "auth_error option"
  auth_UpdatedAt :: time
  auth_NextRetryAfter :: time
  auth_ModelStates :: "(string, model_state option) gomap"
  auth_Success :: int
  auth_Failed :: int
  auth_recentRequests :: "recent_bucket list"

definition zero_auth :: auth where
  "zero_auth =
     \<lparr>auth_ID = [], auth_Provider = [], auth_Prefix = [], auth_FileName = [], auth_Label = [], auth_Status = [],
      auth_StatusMessage = [], auth_Disabled = False, auth_Unavailable = False, auth_ProxyURL = [], auth_Attributes = [],
      auth_Metadata = [], auth_Quota = zero_quota, auth_LastError = None, auth_UpdatedAt = zero_time,
      auth_NextRetryAfter = zero_time, auth_ModelStates = [], auth_Success = 0, auth_Failed = 0,
      auth_recentRequests = zero_ring\<rparr>"

section \<open>Recent requests\<close>

text \<open>\<open>Unix()\<close> of a time counted from year 1, and its ten-minute bucket.\<close>

definition Unix :: "time \<Rightarrow> int" where
  "Unix t = t div Second - 62135596800"

definition recentRequestBucketID :: "time \<Rightarrow> int" where
  "recentRequestBucketID now = (if IsZero now then 0 else quot64 (Unix now) recentRequestBucketSeconds)"

definition rem64 :: "int \<Rightarrow> int \<Rightarrow> int" where
  "rem64 a b = a - b * quot64 a b"

definition recentRequestBucketIndex :: "int \<Rightarrow> nat" where
  "recentRequestBucketIndex bucketID =
     (let m = rem64 bucketID (int recentRequestBucketCount)
      in nat (if m < 0 then m + int recentRequestBucketCount else m))"

definition recordRecentRequest :: "time \<Rightarrow> bool \<Rightarrow> auth \<Rightarrow> auth" where
  "recordRecentRequest now success a =
     (let bucketID = recentRequestBucketID now;
          idx = recentRequestBucketIndex bucketID;
          b0 = auth_recentRequests a ! idx;
          b1 = (if rb_bucketID b0 \<noteq> bucketID then \<lparr>rb_bucketID = bucketID, rb_success = 0, rb_failed = 0\<rparr> else b0);
          b2 = (if success then b1\<lparr>rb_success := rb_success b1 + 1\<rparr> else b1\<lparr>rb_failed := rb_failed b1 + 1\<rparr>)
      in a\<lparr>auth_recentRequests := (auth_recentRequests a)[idx := b2]\<rparr>)"

text \<open>\<open>label\<close> formats a bucket in the local time zone.\<close>

definition RecentRequestsSnapshot :: "(int \<Rightarrow> string) \<Rightarrow> time \<Rightarrow> auth \<Rightarrow> (string \<times> int \<times> int) list" where
  "RecentRequestsSnapshot label now a =
     map (\<lambda>i. let bucketID = recentRequestBucketID now - int i;
                  b = auth_recentRequests a ! recentRequestBucketIndex bucketID
              in if rb_bucketID b = bucketID then (label bucketID, rb_success b, rb_failed b)
                 else (label bucketID, 0, 0))
       (rev [0..<recentRequestBucketCount])"

section \<open>Weights\<close>

definition weight_Default :: int where "weight_Default = 1"
definition weight_Max :: int where "weight_Max = 1000000"

text \<open>Each returns None where the code returns an error.\<close>

definition Normalize :: "int \<Rightarrow> int option" where
  "Normalize weight = (if weight \<le> 0 then Some 0 else if weight > weight_Max then None else Some weight)"

definition ParseString :: "string \<Rightarrow> int option" where
  "ParseString raw0 =
     (let raw = TrimSpace raw0 in
      if raw = [] then Some weight_Default
      else case Atoi raw of None \<Rightarrow> None | Some weight \<Rightarrow> Normalize weight)"

definition bounded_uint :: "int \<Rightarrow> int option" where
  "bounded_uint n = (if n > weight_Max then None else Some n)"

text \<open>A value of the type \<open>float32\<close> is one of \<open>float64\<close>.\<close>

definition ParseValue :: "any \<Rightarrow> int option" where
  "ParseValue value =
     (case value of
        AnyInt kind n \<Rightarrow>
          (case kind of
             KUint \<Rightarrow> bounded_uint n
           | KUint8 \<Rightarrow> Some n
           | KUint16 \<Rightarrow> Some n
           | KUint32 \<Rightarrow> bounded_uint n
           | KUint64 \<Rightarrow> bounded_uint n
           | _ \<Rightarrow> Normalize n)
      | AnyFloat (Finite q) \<Rightarrow>
          if q \<noteq> of_int \<lfloor>q\<rfloor> then None
          else if q \<le> 0 then Some 0
          else if q > of_int weight_Max then None
          else Some \<lfloor>q\<rfloor>
      | AnyFloat _ \<Rightarrow> None
      | AnyNumber s \<Rightarrow> (case Atoi s of None \<Rightarrow> None | Some weight \<Rightarrow> Normalize weight)
      | AnyStr s \<Rightarrow> ParseString s
      | _ \<Rightarrow> None)"

definition AttributeWeight :: string where
  "AttributeWeight = ''weight''"

definition authWeight :: "auth option \<Rightarrow> int" where
  "authWeight auth0 =
     (case auth0 of
        None \<Rightarrow> weight_Default
      | Some a \<Rightarrow>
          (case mget (auth_Attributes a) AttributeWeight of
             Some rawWeight \<Rightarrow>
               if TrimSpace rawWeight \<noteq> []
               then (case ParseString rawWeight of None \<Rightarrow> 0 | Some w \<Rightarrow> w)
               else (case mget (auth_Metadata a) AttributeWeight of
                       None \<Rightarrow> weight_Default
                     | Some v \<Rightarrow> (case ParseValue v of None \<Rightarrow> 0 | Some w \<Rightarrow> w))
           | None \<Rightarrow>
               (case mget (auth_Metadata a) AttributeWeight of
                  None \<Rightarrow> weight_Default
                | Some v \<Rightarrow> (case ParseValue v of None \<Rightarrow> 0 | Some w \<Rightarrow> w))))"

datatype weight_error = InvalidAttributesWeight | InvalidMetadataWeight

definition ValidateAuthWeight :: "auth option \<Rightarrow> weight_error option" where
  "ValidateAuthWeight auth0 =
     (case auth0 of
        None \<Rightarrow> None
      | Some a \<Rightarrow>
          if (case mget (auth_Attributes a) AttributeWeight of
                None \<Rightarrow> False | Some rawWeight \<Rightarrow> ParseString rawWeight = None)
          then Some InvalidAttributesWeight
          else if (case mget (auth_Metadata a) AttributeWeight of
                     None \<Rightarrow> False | Some rawWeight \<Rightarrow> ParseValue rawWeight = None)
          then Some InvalidMetadataWeight
          else None)"

text \<open>The metadata may be nil, the first None.\<close>

definition ApplyAuthWeightMetadata ::
  "auth option \<Rightarrow> (string, any) gomap option \<Rightarrow> weight_error + auth option" where
  "ApplyAuthWeightMetadata auth0 metadata0 =
     (case ValidateAuthWeight auth0 of
        Some errWeight \<Rightarrow> Inl errWeight
      | None \<Rightarrow>
          (case (auth0, metadata0) of
             (Some a, Some metadata) \<Rightarrow>
               (case mget metadata AttributeWeight of
                  None \<Rightarrow> Inr (Some a)
                | Some rawWeight \<Rightarrow>
                    (case ParseValue rawWeight of
                       None \<Rightarrow> Inl InvalidMetadataWeight
                     | Some weight \<Rightarrow>
                         Inr (Some (a\<lparr>auth_Attributes := mput AttributeWeight (show_nat (nat weight)) (auth_Attributes a)\<rparr>))))
           | _ \<Rightarrow> Inr auth0))"

section \<open>Attributes\<close>

definition authPriority :: "auth option \<Rightarrow> int" where
  "authPriority auth0 =
     (case auth0 of
        None \<Rightarrow> 0
      | Some a \<Rightarrow>
          let raw = TrimSpace (case mget (auth_Attributes a) ''priority'' of None \<Rightarrow> [] | Some s \<Rightarrow> s)
          in if raw = [] then 0 else (case Atoi raw of None \<Rightarrow> 0 | Some parsed \<Rightarrow> parsed))"

definition canonicalModelKey :: "(string \<Rightarrow> string \<Rightarrow> model_info option) \<Rightarrow> string \<Rightarrow> string" where
  "canonicalModelKey lookup model0 =
     (let model = TrimSpace model0 in
      if model = [] then []
      else
        let modelName = TrimSpace (sr_ModelName (ParseSuffixForModel lookup model []))
        in if modelName = [] then model else modelName)"

text \<open>\<open>strconv.ParseBool\<close>.\<close>

definition ParseBool :: "string \<Rightarrow> bool option" where
  "ParseBool s =
     (if s \<in> {''1'', ''t'', ''T'', ''true'', ''TRUE'', ''True''} then Some True
      else if s \<in> {''0'', ''f'', ''F'', ''false'', ''FALSE'', ''False''} then Some False
      else None)"

definition authWebsocketsEnabled :: "auth option \<Rightarrow> bool" where
  "authWebsocketsEnabled auth0 =
     (case auth0 of
        None \<Rightarrow> False
      | Some a \<Rightarrow>
          let raw = TrimSpace (case mget (auth_Attributes a) ''websockets'' of None \<Rightarrow> [] | Some s \<Rightarrow> s)
          in (case (if raw \<noteq> [] then ParseBool raw else None) of
                Some parsed \<Rightarrow> parsed
              | None \<Rightarrow>
                  (case mget (auth_Metadata a) ''websockets'' of
                     Some (AnyBool v) \<Rightarrow> v
                   | Some (AnyStr v) \<Rightarrow> (case ParseBool (TrimSpace v) of None \<Rightarrow> False | Some parsed \<Rightarrow> parsed)
                   | _ \<Rightarrow> False)))"

definition parseBoolAny :: "any \<Rightarrow> bool option" where
  "parseBoolAny val =
     (case val of
        AnyBool b \<Rightarrow> Some b
      | AnyStr s \<Rightarrow> if TrimSpace s = [] then None else ParseBool (TrimSpace s)
      | AnyFloat f \<Rightarrow> Some (f \<noteq> Finite 0)
      | AnyNumber s \<Rightarrow> map_option (\<lambda>n. n \<noteq> 0) (Atoi s)
      | _ \<Rightarrow> None)"

text \<open>None: not set; a false value counts as not set.\<close>

definition DisableCoolingOverride :: "auth option \<Rightarrow> bool option" where
  "DisableCoolingOverride auth0 =
     (case auth0 of
        None \<Rightarrow> None
      | Some a \<Rightarrow>
          let parsed = (\<lambda>key. case mget (auth_Metadata a) key of None \<Rightarrow> None | Some val \<Rightarrow> parseBoolAny val)
          in (case parsed ''disable_cooling'' of
                Some b \<Rightarrow> if b then Some True else None
              | None \<Rightarrow>
                  (case parsed ''disable-cooling'' of
                     Some b \<Rightarrow> if b then Some True else None
                   | None \<Rightarrow> None)))"

section \<open>Lemmas\<close>

subsection \<open>Weights\<close>

text \<open>The values of the Go integer types.\<close>

definition kind_range :: "int_kind \<Rightarrow> int \<times> int" where
  "kind_range k =
     (case k of
        KInt \<Rightarrow> (MinInt64, MaxInt64) | KInt8 \<Rightarrow> (-128, 127) | KInt16 \<Rightarrow> (-32768, 32767)
      | KInt32 \<Rightarrow> (-2147483648, 2147483647) | KInt64 \<Rightarrow> (MinInt64, MaxInt64)
      | KUint \<Rightarrow> (0, 18446744073709551615) | KUint8 \<Rightarrow> (0, 255) | KUint16 \<Rightarrow> (0, 65535)
      | KUint32 \<Rightarrow> (0, 4294967295) | KUint64 \<Rightarrow> (0, 18446744073709551615))"

definition typed_any :: "any \<Rightarrow> bool" where
  "typed_any v \<longleftrightarrow> (case v of AnyInt k n \<Rightarrow> fst (kind_range k) \<le> n \<and> n \<le> snd (kind_range k) | _ \<Rightarrow> True)"

lemma Normalize_bounds: "Normalize n = Some w \<Longrightarrow> 0 \<le> w \<and> w \<le> weight_Max"
  by (auto simp: Normalize_def weight_Max_def split: if_splits)

lemma ParseString_bounds: "ParseString s = Some w \<Longrightarrow> 0 \<le> w \<and> w \<le> weight_Max"
  by (auto simp: ParseString_def Let_def weight_Default_def weight_Max_def dest!: Normalize_bounds
      split: if_splits option.splits)

lemma ParseValue_bounds: "typed_any v \<Longrightarrow> ParseValue v = Some w \<Longrightarrow> 0 \<le> w \<and> w \<le> weight_Max"
proof (cases v)
  case (AnyInt k n)
  assume "typed_any v" "ParseValue v = Some w"
  then show ?thesis using AnyInt
    by (cases k) (auto simp: ParseValue_def typed_any_def kind_range_def bounded_uint_def weight_Max_def
        dest!: Normalize_bounds split: if_splits)
next
  case (AnyFloat f)
  assume "ParseValue v = Some w"
  then show ?thesis using AnyFloat
    by (cases f) (auto simp: ParseValue_def weight_Max_def zero_le_floor floor_le_iff split: if_splits)
qed (auto simp: ParseValue_def dest: Normalize_bounds ParseString_bounds split: option.splits)

definition typed_auth :: "auth \<Rightarrow> bool" where
  "typed_auth a \<longleftrightarrow> list_all (\<lambda>e. typed_any (snd e)) (auth_Metadata a)"

lemma typed_authD: "typed_auth a \<Longrightarrow> mget (auth_Metadata a) k = Some v \<Longrightarrow> typed_any v"
  by (fastforce simp: typed_auth_def list_all_iff dest: map_of_SomeD)

lemma authWeight_bounds:
  assumes "typed_auth a"
  shows "0 \<le> authWeight (Some a) \<and> authWeight (Some a) \<le> weight_Max"
proof -
  have "0 \<le> w \<and> w \<le> weight_Max" if "mget (auth_Metadata a) AttributeWeight = Some v" "ParseValue v = Some w" for v w
    using ParseValue_bounds typed_authD assms that by blast
  then show ?thesis
    by (auto simp: authWeight_def weight_Default_def weight_Max_def dest: ParseString_bounds split: option.splits)
qed

text \<open>A weight taken from the metadata of an auth file and applied to the credential is the
  weight the scheduler reads back, and it is between zero and the maximum.\<close>

theorem applied_weight_read_back:
  assumes "ApplyAuthWeightMetadata (Some a) (Some metadata) = Inr (Some a')"
    and "mget metadata AttributeWeight = Some raw" and "typed_any raw"
  shows "ParseValue raw = Some (authWeight (Some a')) \<and> 0 \<le> authWeight (Some a') \<and> authWeight (Some a') \<le> weight_Max"
proof -
  obtain w where w: "ParseValue raw = Some w"
    and a': "a' = a\<lparr>auth_Attributes := mput AttributeWeight (show_nat (nat w)) (auth_Attributes a)\<rparr>"
    using assms(1,2) by (auto simp: ApplyAuthWeightMetadata_def split: option.splits)
  have b: "0 \<le> w" "w \<le> weight_Max" using ParseValue_bounds [OF assms(3) w] by auto
  then have "Atoi (show_nat (nat w)) = Some w" using Atoi_show_nat [of "nat w"] by (simp add: MaxInt64_def weight_Max_def)
  with b have "ParseString (show_nat (nat w)) = Some w" by (auto simp: ParseString_def Normalize_def)
  with w b show ?thesis by (simp add: a' authWeight_def)
qed

theorem applied_weight_read_back_witness:
  "authWeight (Some (zero_auth\<lparr>auth_Attributes := [(''weight'', ''250'')]\<rparr>)) = 250"
proof -
  have "ApplyAuthWeightMetadata (Some zero_auth) (Some [(''weight'', AnyInt KUint16 250)]) =
      Inr (Some (zero_auth\<lparr>auth_Attributes := [(''weight'', ''250'')]\<rparr>))"
    "mget [(''weight'', AnyInt KUint16 250)] AttributeWeight = Some (AnyInt KUint16 250)"
    "typed_any (AnyInt KUint16 250)" "ParseValue (AnyInt KUint16 250) = Some 250"
    by code_simp+
  then show ?thesis using applied_weight_read_back by fastforce
qed

subsection \<open>Recent requests\<close>

lemma bucket_index_mod: "recentRequestBucketIndex b = nat (b mod 20)"
proof (cases "0 \<le> b")
  case True
  then have "rem64 b 20 = b mod 20" by (simp add: rem64_def minus_mult_div_eq_mod)
  then show ?thesis by (simp add: recentRequestBucketIndex_def recentRequestBucketCount_def Let_def)
next
  case False
  define k where "k = (- b) div 20"
  have q: "quot64 b 20 = - k" using False by (simp add: quot64_def k_def sgn_if)
  have r: "- b = 20 * k + (- b) mod 20" "0 \<le> (- b) mod 20" "(- b) mod 20 < 20" by (simp_all add: k_def)
  have "b mod 20 = (if (- b) mod 20 = 0 then 0 else 20 - (- b) mod 20)"
    using zmod_zminus1_eq_if [of "- b" 20] by simp
  with q r show ?thesis
    by (auto simp: recentRequestBucketIndex_def recentRequestBucketCount_def rem64_def Let_def)
qed

lemma bucket_index_less: "recentRequestBucketIndex b < recentRequestBucketCount"
  by (simp add: bucket_index_mod recentRequestBucketCount_def nat_less_iff)

lemma bucket_index_inj:
  assumes "recentRequestBucketIndex b = recentRequestBucketIndex c" "c - 20 < b" "b \<le> c"
  shows "b = c"
proof -
  have "b mod 20 = c mod 20" using assms(1) by (simp add: bucket_index_mod)
  then have "(c - b) mod 20 = 0" by (metis mod_diff_cong mod_0 cancel_comm_monoid_add_class.diff_cancel)
  moreover have "(c - b) mod 20 = c - b" using assms(2,3) by (intro mod_pos_pos_trivial) auto
  ultimately show ?thesis by simp
qed

text \<open>The number of requests of a history that fell into a bucket with a given outcome.\<close>

definition in_bucket :: "(time \<times> bool) list \<Rightarrow> int \<Rightarrow> bool \<Rightarrow> int" where
  "in_bucket h b ok = int (length (filter (\<lambda>(t, s). recentRequestBucketID t = b \<and> s = ok) h))"

definition ring_inv :: "(time \<times> bool) list \<Rightarrow> int \<Rightarrow> recent_bucket list \<Rightarrow> bool" where
  "ring_inv h c ring \<longleftrightarrow> length ring = recentRequestBucketCount \<and>
     (\<forall>x \<in> set ring. c < rb_bucketID x \<longrightarrow> rb_success x = 0 \<and> rb_failed x = 0) \<and>
     (\<forall>(t, s) \<in> set h. recentRequestBucketID t \<le> c) \<and>
     (\<forall>b. c - 20 < b \<and> b \<le> c \<longrightarrow>
        (let x = ring ! recentRequestBucketIndex b
         in if rb_bucketID x = b then rb_success x = in_bucket h b True \<and> rb_failed x = in_bucket h b False
            else in_bucket h b True = 0 \<and> in_bucket h b False = 0))"

lemma ring_invD:
  "ring_inv h c ring \<Longrightarrow> c - 20 < b \<Longrightarrow> b \<le> c \<Longrightarrow>
   (let x = ring ! recentRequestBucketIndex b
    in if rb_bucketID x = b then rb_success x = in_bucket h b True \<and> rb_failed x = in_bucket h b False
       else in_bucket h b True = 0 \<and> in_bucket h b False = 0)"
  unfolding ring_inv_def by blast

lemma in_bucket_later: "\<forall>(t, s) \<in> set h. recentRequestBucketID t \<le> c \<Longrightarrow> c < b \<Longrightarrow> in_bucket h b ok = 0"
  by (auto simp: in_bucket_def filter_empty_conv)

lemma in_bucket_snoc:
  "in_bucket (h @ [(t, s)]) b ok = in_bucket h b ok + (if recentRequestBucketID t = b \<and> s = ok then 1 else 0)"
  by (simp add: in_bucket_def)

lemma ring_inv_mono:
  assumes "ring_inv h c ring" and "c \<le> d"
  shows "ring_inv h d ring"
proof -
  have "let x = ring ! recentRequestBucketIndex b
        in if rb_bucketID x = b then rb_success x = in_bucket h b True \<and> rb_failed x = in_bucket h b False
           else in_bucket h b True = 0 \<and> in_bucket h b False = 0" if "d - 20 < b" "b \<le> d" for b
  proof (cases "b \<le> c")
    case False
    have "ring ! recentRequestBucketIndex b \<in> set ring"
      using assms(1) bucket_index_less by (simp add: ring_inv_def)
    with False assms(1) show ?thesis by (auto simp: ring_inv_def Let_def in_bucket_later)
  qed (use assms that in \<open>auto simp: ring_inv_def\<close>)
  with assms show ?thesis by (auto simp: ring_inv_def)
qed

lemma ring_inv_record:
  assumes inv: "ring_inv h (recentRequestBucketID now) (auth_recentRequests a)"
  shows "ring_inv (h @ [(now, ok)]) (recentRequestBucketID now) (auth_recentRequests (recordRecentRequest now ok a))"
proof -
  let ?c = "recentRequestBucketID now" and ?ring = "auth_recentRequests a"
  let ?i = "recentRequestBucketIndex ?c"
  define new where "new = (auth_recentRequests (recordRecentRequest now ok a)) ! ?i"
  have len: "?i < length ?ring" using inv bucket_index_less by (simp add: ring_inv_def)
  have r: "auth_recentRequests (recordRecentRequest now ok a) = ?ring[?i := new]"
    using len by (simp add: new_def recordRecentRequest_def Let_def)
  have old: "if rb_bucketID (?ring ! ?i) = ?c then rb_success (?ring ! ?i) = in_bucket h ?c True \<and> rb_failed (?ring ! ?i) = in_bucket h ?c False
      else in_bucket h ?c True = 0 \<and> in_bucket h ?c False = 0"
    using inv by (auto simp: ring_inv_def Let_def dest!: spec [where x = ?c])
  have new: "rb_bucketID new = ?c" "rb_success new = in_bucket (h @ [(now, ok)]) ?c True"
    "rb_failed new = in_bucket (h @ [(now, ok)]) ?c False"
    using len old by (auto simp: new_def recordRecentRequest_def Let_def in_bucket_snoc split: if_splits)
  have other: "?i \<noteq> recentRequestBucketIndex b" if "?c - 20 < b" "b \<le> ?c" "b \<noteq> ?c" for b
    using bucket_index_inj [of b ?c] that by metis
  show ?thesis
    unfolding r using inv new len other set_update_subset_insert [of ?ring ?i new]
    by (auto simp: ring_inv_def Let_def in_bucket_snoc nth_list_update)
qed

lemma ring_inv_start: "ring_inv [] c zero_ring"
  using bucket_index_less by (auto simp: ring_inv_def zero_ring_def in_bucket_def Let_def recentRequestBucketCount_def)

lemma ring_inv_history:
  "sorted (map (\<lambda>e. recentRequestBucketID (fst e)) h) \<Longrightarrow> auth_recentRequests a = zero_ring \<Longrightarrow>
   \<forall>e \<in> set h. recentRequestBucketID (fst e) \<le> c \<Longrightarrow>
   ring_inv h c (auth_recentRequests (fold (\<lambda>(t, ok). recordRecentRequest t ok) h a))"
proof (induction h arbitrary: c rule: rev_induct)
  case (snoc e h)
  obtain t ok where e: "e = (t, ok)" by fastforce
  have "ring_inv h (recentRequestBucketID t) (auth_recentRequests (fold (\<lambda>(t, ok). recordRecentRequest t ok) h a))"
    using snoc.prems e by (intro snoc.IH) (auto simp: sorted_append)
  from ring_inv_mono [OF ring_inv_record [OF this]] snoc.prems(3) e show ?case by simp
qed (simp add: ring_inv_start)

text \<open>C26: The ring of twenty ten-minute buckets reports exactly: when requests are recorded in
  the order of their buckets, the snapshot shows for each of the last twenty buckets how many
  requests of that bucket succeeded and how many failed.\<close>

theorem recent_requests_exact:
  assumes "sorted (map (\<lambda>e. recentRequestBucketID (fst e)) h)" and "auth_recentRequests a = zero_ring"
    and "\<forall>e \<in> set h. recentRequestBucketID (fst e) \<le> recentRequestBucketID now"
  shows "RecentRequestsSnapshot label now (fold (\<lambda>(t, ok). recordRecentRequest t ok) h a) =
           map (\<lambda>i. let b = recentRequestBucketID now - int i in (label b, in_bucket h b True, in_bucket h b False))
             (rev [0..<20])"
proof -
  let ?ring = "auth_recentRequests (fold (\<lambda>(t, ok). recordRecentRequest t ok) h a)"
  have inv: "ring_inv h (recentRequestBucketID now) ?ring" using ring_inv_history assms by blast
  have "(let x = ?ring ! recentRequestBucketIndex b
         in if rb_bucketID x = b then rb_success x = in_bucket h b True \<and> rb_failed x = in_bucket h b False
            else in_bucket h b True = 0 \<and> in_bucket h b False = 0)"
    if "b = recentRequestBucketID now - int i" "i < 20" for b i
    by (rule ring_invD [OF inv]) (use that in auto)
  then show ?thesis
    unfolding RecentRequestsSnapshot_def recentRequestBucketCount_def
    by (intro map_cong) (auto simp: Let_def)
qed

theorem recent_requests_exact_witness:
  "RecentRequestsSnapshot (\<lambda>_. ''w'') (62135596800 * Second + 1300 * Second)
     (fold (\<lambda>(t, ok). recordRecentRequest t ok)
        [(62135596800 * Second + 10 * Second, True), (62135596800 * Second + 1210 * Second, False)] zero_auth) =
   replicate 17 (''w'', 0, 0) @ [(''w'', 1, 0), (''w'', 0, 0), (''w'', 0, 1)]"
  (is "_ = ?R")
proof -
  let ?h = "[(62135596800 * Second + 10 * Second, True), (62135596800 * Second + 1210 * Second, False)]"
  let ?now = "62135596800 * Second + 1300 * Second"
  have "map (\<lambda>i. let b = recentRequestBucketID ?now - int i in (''w'', in_bucket ?h b True, in_bucket ?h b False))
      (rev [0..<20]) = ?R" by code_simp
  moreover have "sorted (map (\<lambda>e. recentRequestBucketID (fst e)) ?h)" "auth_recentRequests zero_auth = zero_ring"
    "\<forall>e \<in> set ?h. recentRequestBucketID (fst e) \<le> recentRequestBucketID ?now"
    by code_simp+
  ultimately show ?thesis using recent_requests_exact [of ?h zero_auth ?now "\<lambda>_. ''w''"] by simp
qed

end
