(* ===== verification/Selector.thy ===== *)
theory Selector
  imports Auth_State
begin

text \<open>
  Choosing a credential: \<^verbatim>\<open>sdk/cliproxy/auth/selector.go\<close>. Which candidates are
  blocked for a model, which of the others form the highest priority tier, and the round-robin,
  fill-first and smooth weighted round-robin selectors. The session-affinity selector is in
  \<open>Session_Affinity\<close>.

  \<open>time.Now()\<close> is the argument \<open>now\<close>; what a selector reads of the request context is the
  record \<open>pick_ctx\<close>. Candidate lists may hold nil pointers (\<open>None\<close>); lists of available
  credentials cannot. Credentials are sorted by id with a stable sort; ids are unique in the
  program, so that this is the order of \<open>sort.Slice\<close>.
\<close>

type_synonym model_lookup = "string \<Rightarrow> string \<Rightarrow> model_info option"

section \<open>Availability\<close>

datatype block_reason = blockReasonNone | blockReasonCooldown | blockReasonDisabled | blockReasonOther

type_synonym block = "bool \<times> block_reason \<times> time"

abbreviation (input) not_blocked :: block where
  "not_blocked \<equiv> (False, blockReasonNone, zero_time)"

definition availabilityBlock :: "bool \<Rightarrow> bool \<Rightarrow> time \<Rightarrow> time \<Rightarrow> time \<Rightarrow> block" where
  "availabilityBlock unavailable quotaExceeded nextRetryAfter nextRecoverAt now =
     (if \<not> unavailable \<and> \<not> quotaExceeded then not_blocked
      else
        let hasRecoveryTime = (\<not> IsZero nextRetryAfter \<or> \<not> IsZero nextRecoverAt);
            next = fold (\<lambda>candidate next. if candidate > now \<and> (IsZero next \<or> candidate > next) then candidate else next)
                     [nextRetryAfter, nextRecoverAt] zero_time
        in if \<not> IsZero next then (True, if quotaExceeded then blockReasonCooldown else blockReasonOther, next)
           else if hasRecoveryTime then not_blocked
           else (True, blockReasonOther, zero_time))"

definition state_availability :: "model_state \<Rightarrow> time \<Rightarrow> block" where
  "state_availability state now =
     availabilityBlock (ms_Unavailable state) (q_Exceeded (ms_Quota state)) (ms_NextRetryAfter state)
       (q_NextRecoverAt (ms_Quota state)) now"

text \<open>The loop over \<open>ModelStates\<close>; the last argument is \<open>(blocked, blockedReason, nextRetry)\<close>.\<close>

fun state_block ::
  "model_lookup \<Rightarrow> string \<Rightarrow> time \<Rightarrow> (string \<times> model_state option) list \<Rightarrow> bool \<Rightarrow> block \<Rightarrow> block" where
  "state_block lookup modelKey now [] matched acc = (if matched then acc else not_blocked)"
| "state_block lookup modelKey now ((stateModel, None) # rest) matched acc =
     state_block lookup modelKey now rest matched acc"
| "state_block lookup modelKey now ((stateModel, Some state) # rest) matched acc =
     (if canonicalModelKey lookup stateModel \<noteq> modelKey then state_block lookup modelKey now rest matched acc
      else if ms_Status state = StatusDisabled then (True, blockReasonDisabled, zero_time)
      else
        (case state_availability state now of
           (stateBlocked, reason, next) \<Rightarrow>
             if \<not> stateBlocked then state_block lookup modelKey now rest True acc
             else if IsZero next then (True, reason, zero_time)
             else if \<not> fst acc \<or> next > snd (snd acc) \<or> (next = snd (snd acc) \<and> reason = blockReasonCooldown)
             then state_block lookup modelKey now rest True (True, reason, next)
             else state_block lookup modelKey now rest True acc))"

definition isAuthBlockedForModel :: "model_lookup \<Rightarrow> auth option \<Rightarrow> string \<Rightarrow> time \<Rightarrow> block" where
  "isAuthBlockedForModel lookup auth0 model now =
     (case auth0 of
        None \<Rightarrow> (True, blockReasonOther, zero_time)
      | Some a \<Rightarrow>
          if auth_Disabled a \<or> auth_Status a = StatusDisabled then (True, blockReasonDisabled, zero_time)
          else if model \<noteq> [] \<and> auth_ModelStates a \<noteq> []
          then state_block lookup (canonicalModelKey lookup model) now (auth_ModelStates a) False not_blocked
          else availabilityBlock (auth_Unavailable a) (q_Exceeded (auth_Quota a)) (auth_NextRetryAfter a)
                 (q_NextRecoverAt (auth_Quota a)) now)"

section \<open>Priority tiers\<close>

type_synonym buckets = "(int, auth list) gomap"

definition bucket_append :: "int \<Rightarrow> auth \<Rightarrow> buckets \<Rightarrow> buckets" where
  "bucket_append priority candidate available =
     mput priority ((case mget available priority of None \<Rightarrow> [] | Some b \<Rightarrow> b) @ [candidate]) available"

definition collect_candidate ::
  "model_lookup \<Rightarrow> string \<Rightarrow> time \<Rightarrow> auth option \<Rightarrow> buckets \<times> int \<times> time \<Rightarrow> buckets \<times> int \<times> time" where
  "collect_candidate lookup model now candidate acc =
     (case acc of (available, cooldownCount, earliest) \<Rightarrow>
        (case isAuthBlockedForModel lookup candidate model now of
           (blocked, reason, next) \<Rightarrow>
             if \<not> blocked
             then (bucket_append (authPriority candidate) (the candidate) available, cooldownCount, earliest)
             else if reason = blockReasonCooldown
             then (available, cooldownCount + 1,
                   if \<not> IsZero next \<and> (IsZero earliest \<or> next < earliest) then next else earliest)
             else (available, cooldownCount, earliest)))"

definition collectAvailableByPriority ::
  "model_lookup \<Rightarrow> auth option list \<Rightarrow> string \<Rightarrow> time \<Rightarrow> buckets \<times> int \<times> time" where
  "collectAvailableByPriority lookup auths model now =
     fold (collect_candidate lookup model now) auths ([], 0, zero_time)"

text \<open>The largest key, as the loop finds it.\<close>

definition best_priority :: "int list \<Rightarrow> int" where
  "best_priority ks =
     fst (fold (\<lambda>priority (bestPriority, found).
                  if \<not> found \<or> priority > bestPriority then (priority, True) else (bestPriority, found))
            ks (0, False))"

definition availableAuthsFromPriorityBuckets :: "buckets \<Rightarrow> bool \<Rightarrow> auth list" where
  "availableAuthsFromPriorityBuckets availableByPriority allPriorities =
     sort_key auth_ID
       (if allPriorities then concat (map snd availableByPriority)
        else (case mget availableByPriority (best_priority (map fst availableByPriority)) of
                None \<Rightarrow> [] | Some bucket \<Rightarrow> bucket))"

datatype pick_error =
    PickError auth_error
  | ModelCooldownError string string duration

definition pick_failure :: "string \<Rightarrow> string \<Rightarrow> pick_error" where
  "pick_failure code message =
     PickError \<lparr>ae_Code = code, ae_Message = message, ae_Retryable = False, ae_HTTPStatus = 0\<rparr>"

definition newModelCooldownError :: "string \<Rightarrow> string \<Rightarrow> duration \<Rightarrow> pick_error" where
  "newModelCooldownError model provider resetIn =
     ModelCooldownError model provider (if resetIn < 0 then 0 else resetIn)"

definition getAvailableAuthsWithPriorityMode ::
  "model_lookup \<Rightarrow> auth option list \<Rightarrow> string \<Rightarrow> string \<Rightarrow> time \<Rightarrow> bool \<Rightarrow> pick_error + auth list" where
  "getAvailableAuthsWithPriorityMode lookup auths provider model now allPriorities =
     (if auths = [] then Inl (pick_failure ''auth_not_found'' ''no auth candidates'')
      else
        (case collectAvailableByPriority lookup auths model now of
           (availableByPriority, cooldownCount, earliest) \<Rightarrow>
             if availableByPriority = [] then
               if cooldownCount = int (length auths) \<and> \<not> IsZero earliest then
                 let providerForError = (if provider = ''mixed'' then [] else provider);
                     resetIn = (if earliest - now < 0 then 0 else earliest - now)
                 in Inl (newModelCooldownError model providerForError resetIn)
               else Inl (pick_failure ''auth_unavailable'' ''no auth available'')
             else Inr (availableAuthsFromPriorityBuckets availableByPriority allPriorities)))"

definition getAvailableAuths ::
  "model_lookup \<Rightarrow> auth option list \<Rightarrow> string \<Rightarrow> string \<Rightarrow> time \<Rightarrow> pick_error + auth list" where
  "getAvailableAuths lookup auths provider model now =
     getAvailableAuthsWithPriorityMode lookup auths provider model now False"

definition getAvailableAuthsAcrossPriorities ::
  "model_lookup \<Rightarrow> auth option list \<Rightarrow> string \<Rightarrow> string \<Rightarrow> time \<Rightarrow> pick_error + auth list" where
  "getAvailableAuthsAcrossPriorities lookup auths provider model now =
     getAvailableAuthsWithPriorityMode lookup auths provider model now True"

definition highest_step :: "auth \<Rightarrow> int \<times> nat \<Rightarrow> int \<times> nat" where
  "highest_step a acc =
     (case acc of (bestPriority, bestCount) \<Rightarrow>
        let priority = authPriority (Some a) in
        if bestCount = 0 \<or> priority > bestPriority then (priority, 1)
        else if priority = bestPriority then (bestPriority, bestCount + 1)
        else (bestPriority, bestCount))"

definition highestPriorityAuths :: "auth list \<Rightarrow> auth list" where
  "highestPriorityAuths auths =
     (if length auths \<le> 1 then auths
      else
        (case fold highest_step auths (0, 0) of
           (bestPriority, bestCount) \<Rightarrow>
             if bestCount = length auths then auths
             else filter (\<lambda>a. authPriority (Some a) = bestPriority) auths))"

section \<open>Selectors\<close>

record pick_ctx =
  ctx_DownstreamWebsocket :: bool
  ctx_weightedSelectorStateModel :: "string option"

definition preferCodexWebsocketAuths :: "pick_ctx \<Rightarrow> string \<Rightarrow> auth list \<Rightarrow> auth list" where
  "preferCodexWebsocketAuths ctx provider available =
     (if available = [] then available
      else if \<not> ctx_DownstreamWebsocket ctx then available
      else if \<not> EqualFold (TrimSpace provider) ''codex'' then available
      else
        let wsEnabled = filter (\<lambda>a. authWebsocketsEnabled (Some a)) available
        in if wsEnabled \<noteq> [] then wsEnabled else available)"

definition selector_limit :: "int \<Rightarrow> int" where
  "selector_limit maxKeys = (if maxKeys \<le> 0 then 4096 else maxKeys)"

subsection \<open>Round robin\<close>

record rr_selector =
  rr_cursors :: "(string, int) gomap"
  rr_maxKeys :: int

definition ensureCursorKey :: "string \<Rightarrow> int \<Rightarrow> rr_selector \<Rightarrow> rr_selector" where
  "ensureCursorKey key limit s =
     (if mget (rr_cursors s) key = None \<and> int (length (rr_cursors s)) \<ge> limit
      then s\<lparr>rr_cursors := []\<rparr> else s)"

definition RoundRobin_Pick ::
  "model_lookup \<Rightarrow> pick_ctx \<Rightarrow> string \<Rightarrow> string \<Rightarrow> time \<Rightarrow> auth option list \<Rightarrow> rr_selector \<Rightarrow>
   (pick_error + auth) \<times> rr_selector" where
  "RoundRobin_Pick lookup ctx provider model now auths s =
     (case getAvailableAuths lookup auths provider model now of
        Inl err \<Rightarrow> (Inl err, s)
      | Inr available0 \<Rightarrow>
          let available = preferCodexWebsocketAuths ctx provider available0;
              key = provider @ '':'' @ canonicalModelKey lookup model;
              s1 = ensureCursorKey key (selector_limit (rr_maxKeys s)) s;
              index0 = (case mget (rr_cursors s1) key of None \<Rightarrow> 0 | Some i \<Rightarrow> i);
              index = (if index0 \<ge> 2147483640 then 0 else index0)
          in (Inr (available ! nat (index mod int (length available))),
              s1\<lparr>rr_cursors := mput key (index + 1) (rr_cursors s1)\<rparr>))"

subsection \<open>Fill first\<close>

definition FillFirst_Pick ::
  "model_lookup \<Rightarrow> pick_ctx \<Rightarrow> string \<Rightarrow> string \<Rightarrow> time \<Rightarrow> auth option list \<Rightarrow> pick_error + auth" where
  "FillFirst_Pick lookup ctx provider model now auths =
     (case getAvailableAuths lookup auths provider model now of
        Inl err \<Rightarrow> Inl err
      | Inr available0 \<Rightarrow> Inr (preferCodexWebsocketAuths ctx provider available0 ! 0))"

subsection \<open>Smooth weighted round robin\<close>

record smooth_weighted_state =
  sw_current :: "(string, int) gomap"
  sw_weights :: "(string, int) gomap"

record wrr_selector =
  wrr_states :: "(string, smooth_weighted_state) gomap"
  wrr_maxKeys :: int

definition map_get0 :: "('k, int) gomap \<Rightarrow> 'k \<Rightarrow> int" where
  "map_get0 m k = (case mget m k of None \<Rightarrow> 0 | Some v \<Rightarrow> v)"

definition weightedSelectorStateModel :: "pick_ctx \<Rightarrow> string \<Rightarrow> string" where
  "weightedSelectorStateModel ctx availabilityModel =
     (case ctx_weightedSelectorStateModel ctx of
        Some routeModel \<Rightarrow> if TrimSpace routeModel \<noteq> [] then routeModel else availabilityModel
      | None \<Rightarrow> availabilityModel)"

definition positiveWeightAuths :: "auth option list \<Rightarrow> auth option list" where
  "positiveWeightAuths auths = filter (\<lambda>a. authWeight a > 0) auths"

definition weightVectorsEqual :: "(string, int) gomap \<Rightarrow> (string, int) gomap \<Rightarrow> bool" where
  "weightVectorsEqual left right \<longleftrightarrow>
     length left = length right \<and> list_all (\<lambda>(authID, weight). map_get0 right authID = weight) left"

definition authWeightVector :: "auth list \<Rightarrow> (string, int) gomap" where
  "authWeightVector auths =
     fold (\<lambda>a weights. if authWeight (Some a) > 0 then mput (auth_ID a) (authWeight (Some a)) weights else weights)
       auths []"

definition prepare :: "(string, int) gomap \<Rightarrow> smooth_weighted_state \<Rightarrow> smooth_weighted_state" where
  "prepare weights s =
     (if \<not> weightVectorsEqual (sw_weights s) weights
      then s\<lparr>sw_current := [], sw_weights := weights\<rparr>
      else s\<lparr>sw_weights := weights\<rparr>)"

definition saturatingAddInt64 :: "int \<Rightarrow> int \<Rightarrow> int" where
  "saturatingAddInt64 value delta =
     (if delta > 0 \<and> value > MaxInt64 - delta then MaxInt64
      else if delta < 0 \<and> value < MinInt64 - delta then MinInt64
      else value + delta)"

text \<open>The first loop; the state is \<open>current\<close>, \<open>totalWeight\<close> and \<open>picked\<close> with \<open>pickedCurrent\<close>.\<close>

definition smooth_visit ::
  "auth \<Rightarrow> (string, int) gomap \<times> int \<times> (auth \<times> int) option \<Rightarrow> (string, int) gomap \<times> int \<times> (auth \<times> int) option" where
  "smooth_visit a acc =
     (case acc of (current, totalWeight, picked) \<Rightarrow>
        let weight = authWeight (Some a) in
        if weight \<le> 0 then acc
        else
          let c = saturatingAddInt64 (map_get0 current (auth_ID a)) weight
          in (mput (auth_ID a) c current, saturatingAddInt64 totalWeight weight,
              (case picked of
                 None \<Rightarrow> Some (a, c)
               | Some (p, pickedCurrent) \<Rightarrow> if c > pickedCurrent then Some (a, c) else picked)))"

definition pickSmoothWeightedAuth :: "auth list \<Rightarrow> (string, int) gomap \<Rightarrow> auth option \<times> (string, int) gomap" where
  "pickSmoothWeightedAuth auths current0 =
     (case fold smooth_visit auths (current0, 0, None) of
        (current1, totalWeight, picked) \<Rightarrow>
          let active = map auth_ID (filter (\<lambda>a. authWeight (Some a) > 0) auths);
              current2 = filter (\<lambda>(authID, _). authID \<in> set active) current1
          in (case picked of
                None \<Rightarrow> (None, current2)
              | Some (p, _) \<Rightarrow>
                  (Some p, mput (auth_ID p) (saturatingAddInt64 (map_get0 current2 (auth_ID p)) (- totalWeight)) current2)))"

definition Weighted_Pick ::
  "model_lookup \<Rightarrow> pick_ctx \<Rightarrow> string \<Rightarrow> string \<Rightarrow> time \<Rightarrow> auth option list \<Rightarrow> wrr_selector \<Rightarrow>
   (pick_error + auth) \<times> wrr_selector" where
  "Weighted_Pick lookup ctx provider model now auths s =
     (case getAvailableAuths lookup (positiveWeightAuths auths) provider model now of
        Inl err \<Rightarrow> (Inl err, s)
      | Inr available0 \<Rightarrow>
          let available = preferCodexWebsocketAuths ctx provider available0;
              key = provider @ '':'' @ canonicalModelKey lookup (weightedSelectorStateModel ctx model);
              limit = selector_limit (wrr_maxKeys s);
              states1 = (if mget (wrr_states s) key = None \<and> int (length (wrr_states s)) \<ge> limit then []
                         else wrr_states s);
              state0 = (case mget states1 key of None \<Rightarrow> \<lparr>sw_current = [], sw_weights = []\<rparr> | Some st \<Rightarrow> st);
              state1 = prepare (authWeightVector available) state0
          in (case pickSmoothWeightedAuth available (sw_current state1) of
                (picked, current) \<Rightarrow>
                  ((case picked of
                      None \<Rightarrow> Inl (pick_failure ''auth_unavailable'' ''no auth available with positive weight'')
                    | Some p \<Rightarrow> Inr p),
                   s\<lparr>wrr_states := mput key (state1\<lparr>sw_current := current\<rparr>) states1\<rparr>)))"

end
