(* ===== verification/Selector_Availability.thy ===== *)
theory Selector_Availability
  imports Selector "HOL-Library.Multiset"
begin

text \<open>
  Which credentials a selector may choose from: the unblocked candidates of the highest priority,
  sorted by id; otherwise an error, with a retry hint that is exact when every candidate is cooling
  down.
\<close>

section \<open>Blocks over time\<close>

text \<open>The recovery time of a block that ends by itself; 0 when there is none after \<open>now\<close>.\<close>

definition block_until :: "bool \<Rightarrow> time \<Rightarrow> time \<Rightarrow> time \<Rightarrow> time" where
  "block_until active r c now = (if active \<and> max r c > now then max r c else 0)"

lemma availabilityBlock_eq:
  "0 \<le> now \<Longrightarrow> availabilityBlock u q r c now =
     (if block_until (u \<or> q) r c now > 0
      then (True, if q then blockReasonCooldown else blockReasonOther, block_until (u \<or> q) r c now)
      else if (u \<or> q) \<and> r = 0 \<and> c = 0 then (True, blockReasonOther, 0)
      else not_blocked)"
  by (auto simp: availabilityBlock_def block_until_def Let_def max_def)

lemma block_until_nonneg: "0 \<le> now \<Longrightarrow> 0 \<le> block_until a r c now"
  by (auto simp: block_until_def)

definition state_until :: "time \<Rightarrow> model_state \<Rightarrow> time" where
  "state_until now st =
     block_until (ms_Unavailable st \<or> q_Exceeded (ms_Quota st)) (ms_NextRetryAfter st) (q_NextRecoverAt (ms_Quota st)) now"

text \<open>A state whose block, if any, ends by itself.\<close>

definition timed_state :: "model_state \<Rightarrow> bool" where
  "timed_state st \<longleftrightarrow> ms_Status st \<noteq> StatusDisabled \<and>
     \<not> ((ms_Unavailable st \<or> q_Exceeded (ms_Quota st)) \<and> ms_NextRetryAfter st = 0 \<and> q_NextRecoverAt (ms_Quota st) = 0)"

definition matching :: "model_lookup \<Rightarrow> string \<Rightarrow> (string \<times> model_state option) list \<Rightarrow> model_state list" where
  "matching lookup key L = map (\<lambda>e. the (snd e)) (filter (\<lambda>e. snd e \<noteq> None \<and> canonicalModelKey lookup (fst e) = key) L)"

lemma state_availability_eq:
  "0 \<le> now \<Longrightarrow> state_availability st now =
     (if state_until now st > 0
      then (True, if q_Exceeded (ms_Quota st) then blockReasonCooldown else blockReasonOther, state_until now st)
      else if (ms_Unavailable st \<or> q_Exceeded (ms_Quota st)) \<and> ms_NextRetryAfter st = 0 \<and> q_NextRecoverAt (ms_Quota st) = 0
      then (True, blockReasonOther, 0) else not_blocked)"
  unfolding state_availability_def state_until_def by (rule availabilityBlock_eq)

lemma state_until_nonneg: "0 \<le> now \<Longrightarrow> 0 \<le> state_until now st"
  unfolding state_until_def by (rule block_until_nonneg)

definition latest :: "time \<Rightarrow> model_state list \<Rightarrow> time \<Rightarrow> time" where
  "latest now sts t0 = fold (\<lambda>st t. max t (state_until now st)) sts t0"

lemma latest_simps [simp]:
  "latest now [] t0 = t0" "latest now (st # sts) t0 = latest now sts (max t0 (state_until now st))"
  by (simp_all add: latest_def)

lemma latest_pos: "0 \<le> t0 \<Longrightarrow> t < latest now sts t0 \<longleftrightarrow> t < t0 \<or> (\<exists>st \<in> set sts. t < state_until now st)"
  by (induction sts arbitrary: t0) auto

lemma state_block_timed:
  assumes now: "0 \<le> now" and "\<forall>st \<in> set (matching lookup key L). timed_state st"
    and "fst acc \<longleftrightarrow> 0 < snd (snd acc)" and "0 \<le> snd (snd acc)" and "\<not> matched \<longrightarrow> acc = not_blocked"
  shows "snd (snd (state_block lookup key now L matched acc)) = latest now (matching lookup key L) (snd (snd acc)) \<and>
         (fst (state_block lookup key now L matched acc) \<longleftrightarrow> 0 < snd (snd (state_block lookup key now L matched acc)))"
  using assms(2-)
proof (induction L arbitrary: matched acc)
  case Nil
  then show ?case by (auto simp: matching_def)
next
  case (Cons e L)
  obtain m x where e: "e = (m, x)" by fastforce
  show ?case
  proof (cases "x \<noteq> None \<and> canonicalModelKey lookup m = key")
    case False
    then have "matching lookup key (e # L) = matching lookup key L" by (auto simp: matching_def e)
    moreover have "state_block lookup key now (e # L) matched acc = state_block lookup key now L matched acc"
      using False by (cases x) (auto simp: e)
    ultimately show ?thesis using Cons.IH [of acc matched] Cons.prems by simp
  next
    case True
    then obtain st where x: "x = Some st" by blast
    have m: "matching lookup key (e # L) = st # matching lookup key L" using True by (simp add: matching_def e x)
    let ?u = "state_until now st"
    let ?acc = "if 0 < ?u \<and> (\<not> fst acc \<or> ?u > snd (snd acc) \<or> (?u = snd (snd acc) \<and> q_Exceeded (ms_Quota st)))
      then (True, if q_Exceeded (ms_Quota st) then blockReasonCooldown else blockReasonOther, ?u) else acc"
    have u: "0 \<le> ?u" by (rule state_until_nonneg [OF now])
    have t: "timed_state st" using Cons.prems(1) m by simp
    have step: "state_block lookup key now (e # L) matched acc = state_block lookup key now L True ?acc"
      using True t u by (simp add: e x state_availability_eq [OF now] timed_state_def) blast
    have "snd (snd ?acc) = max (snd (snd acc)) ?u" using u Cons.prems(2,3) by (auto simp: max_def)
    moreover have "fst ?acc \<longleftrightarrow> 0 < snd (snd ?acc)" "0 \<le> snd (snd ?acc)" using u Cons.prems(2,3) by auto
    ultimately show ?thesis unfolding step m latest_simps using Cons.IH [of ?acc True] Cons.prems(1) m by simp
  qed
qed

lemma state_block_until_timed:
  assumes "0 \<le> now" and "0 < snd (snd (state_block lookup key now L matched acc))"
  shows "\<forall>st \<in> set (matching lookup key L). timed_state st"
  using assms(2)
proof (induction L arbitrary: matched acc)
  case (Cons e L)
  obtain m x where e: "e = (m, x)" by fastforce
  show ?case
  proof (cases "x \<noteq> None \<and> canonicalModelKey lookup m = key")
    case False
    then have "matching lookup key (e # L) = matching lookup key L" by (auto simp: matching_def e)
    moreover have "state_block lookup key now (e # L) matched acc = state_block lookup key now L matched acc"
      using False by (cases x) (auto simp: e)
    ultimately show ?thesis using Cons.IH [of matched acc] Cons.prems by simp
  next
    case True
    then obtain st where x: "x = Some st" by blast
    have m: "matching lookup key (e # L) = st # matching lookup key L" using True by (simp add: matching_def e x)
    have d: "ms_Status st \<noteq> StatusDisabled" using Cons.prems True by (auto simp: e x)
    have "timed_state st"
      using Cons.prems True d by (auto simp: e x state_availability_eq [OF assms(1)] timed_state_def state_until_def
          block_until_def split: if_splits)
    moreover have "\<exists>acc'. 0 < snd (snd (state_block lookup key now L True acc'))"
      using Cons.prems True d by (auto simp: e x simp del: split_paired_Ex split: prod.splits if_splits)
    ultimately show ?thesis using Cons.IH m by auto
  qed
qed (simp add: matching_def)

lemma state_block_cooldown:
  assumes "0 \<le> now" and "fst (snd (state_block lookup key now L matched acc)) = blockReasonCooldown"
    and "fst (snd acc) = blockReasonCooldown \<longrightarrow> 0 < snd (snd acc)"
  shows "0 < snd (snd (state_block lookup key now L matched acc))"
  using assms(2,3)
proof (induction L arbitrary: matched acc)
  case (Cons e L)
  obtain m x where e: "e = (m, x)" by fastforce
  show ?case
  proof (cases x)
    case None
    with Cons e show ?thesis by simp
  next
    case (Some st)
    with Cons e state_until_nonneg [OF assms(1), of st] show ?thesis
      by (auto simp: state_availability_eq [OF assms(1)] split: if_splits)
  qed
qed (auto split: if_splits)

text \<open>A cooling credential is blocked until its recovery time and not longer.\<close>

definition cooling :: "model_lookup \<Rightarrow> string \<Rightarrow> time \<Rightarrow> auth option \<Rightarrow> bool" where
  "cooling lookup model now c \<longleftrightarrow>
     fst (isAuthBlockedForModel lookup c model now) \<and>
     fst (snd (isAuthBlockedForModel lookup c model now)) = blockReasonCooldown"

abbreviation recovery :: "model_lookup \<Rightarrow> string \<Rightarrow> time \<Rightarrow> auth option \<Rightarrow> time" where
  "recovery lookup model now c \<equiv> snd (snd (isAuthBlockedForModel lookup c model now))"

lemma block_until_later: "0 \<le> now \<Longrightarrow> now \<le> t \<Longrightarrow> 0 < block_until a r c now \<Longrightarrow>
   0 < block_until a r c t \<longleftrightarrow> t < block_until a r c now"
  by (auto simp: block_until_def split: if_splits)

lemma cooling_until:
  assumes now: "0 \<le> now" "now \<le> t" and c: "cooling lookup model now c"
  shows "now < recovery lookup model now c"
    and "fst (isAuthBlockedForModel lookup c model t) \<longleftrightarrow> t < recovery lookup model now c"
proof -
  obtain a where a: "c = Some a" "\<not> auth_Disabled a" "auth_Status a \<noteq> StatusDisabled"
    using c by (auto simp: cooling_def isAuthBlockedForModel_def split: option.splits if_splits)
  have t: "0 \<le> t" using now by simp
  show "now < recovery lookup model now c"
    "fst (isAuthBlockedForModel lookup c model t) \<longleftrightarrow> t < recovery lookup model now c"
  proof (atomize (full), cases "model \<noteq> [] \<and> auth_ModelStates a \<noteq> []")
    case False
    have "isAuthBlockedForModel lookup c model t' = availabilityBlock (auth_Unavailable a) (q_Exceeded (auth_Quota a))
        (auth_NextRetryAfter a) (q_NextRecoverAt (auth_Quota a)) t'" for t'
      using False a by (auto simp: isAuthBlockedForModel_def)
    with c block_until_later [OF now] show "now < recovery lookup model now c \<and>
        (fst (isAuthBlockedForModel lookup c model t) \<longleftrightarrow> t < recovery lookup model now c)"
      by (auto simp: cooling_def availabilityBlock_eq [OF now(1)] availabilityBlock_eq [OF t] block_until_def split: if_splits)
  next
    case True
    let ?key = "canonicalModelKey lookup model"
    let ?b = "\<lambda>t'. state_block lookup ?key t' (auth_ModelStates a) False not_blocked"
    let ?m = "matching lookup ?key (auth_ModelStates a)"
    have e: "isAuthBlockedForModel lookup c model t' = ?b t'" for t' using True a by (simp add: isAuthBlockedForModel_def)
    have pos: "0 < snd (snd (?b now))" using c e by (intro state_block_cooldown [OF now(1)]) (auto simp: cooling_def)
    have timed: "\<forall>st \<in> set ?m. timed_state st" by (rule state_block_until_timed [OF now(1) pos])
    have b: "snd (snd (?b t')) = latest t' ?m 0" "fst (?b t') \<longleftrightarrow> 0 < latest t' ?m 0" if "0 \<le> t'" for t'
      using state_block_timed [OF that timed, of not_blocked False] by simp_all
    from pos obtain st where "st \<in> set ?m" "0 < state_until now st" by (auto simp: b [OF now(1)] latest_pos)
    then have 1: "now < latest now ?m 0"
      using now by (auto simp: latest_pos state_until_def block_until_def split: if_splits)
    have "0 < state_until t st \<longleftrightarrow> t < state_until now st" for st
      using now by (auto simp: state_until_def block_until_def)
    then have "0 < latest t ?m 0 \<longleftrightarrow> t < latest now ?m 0" using t now by (simp add: latest_pos)
    with 1 show "now < recovery lookup model now c \<and>
        (fst (isAuthBlockedForModel lookup c model t) \<longleftrightarrow> t < recovery lookup model now c)"
      by (simp add: e b now t)
  qed
qed

section \<open>The candidates a selection may use\<close>

definition unblocked :: "model_lookup \<Rightarrow> string \<Rightarrow> time \<Rightarrow> auth option list \<Rightarrow> auth list" where
  "unblocked lookup model now auths =
     map the (filter (\<lambda>c. \<not> fst (isAuthBlockedForModel lookup c model now)) auths)"

abbreviation prio :: "auth \<Rightarrow> int" where
  "prio a \<equiv> authPriority (Some a)"

definition top_tier :: "auth list \<Rightarrow> auth list" where
  "top_tier as = filter (\<lambda>a. \<forall>b \<in> set as. prio b \<le> prio a) as"

definition bucket_of :: "buckets \<Rightarrow> int \<Rightarrow> auth list" where
  "bucket_of B p = (case mget B p of None \<Rightarrow> [] | Some b \<Rightarrow> b)"

lemma bucket_append_simps [simp]:
  "bucket_of (bucket_append p a B) q = (if q = p then bucket_of B p @ [a] else bucket_of B q)"
  "fst ` set (bucket_append p a B) = insert p (fst ` set B)"
  "wf_map B \<Longrightarrow> wf_map (bucket_append p a B)"
  by (auto simp: bucket_of_def bucket_append_def keys_mput)

lemma nil_is_blocked: "\<not> fst (isAuthBlockedForModel lookup c model now) \<Longrightarrow> c = Some (the c)"
  by (cases c) (auto simp: isAuthBlockedForModel_def)

text \<open>The least element, 0 for none.\<close>

definition earliest_of :: "time set \<Rightarrow> time \<Rightarrow> bool" where
  "earliest_of S e \<longleftrightarrow> (if S = {} then e = 0 else e \<in> S \<and> (\<forall>t \<in> S. e \<le> t))"

lemma earliest_insert:
  "earliest_of S e \<Longrightarrow> \<forall>t \<in> S. 0 < t \<Longrightarrow> 0 < t \<Longrightarrow>
   earliest_of (insert t S) (if t \<noteq> 0 \<and> (e = 0 \<or> t < e) then t else e)"
  by (auto simp: earliest_of_def split: if_splits)

lemma unblocked_mem:
  "a \<in> set (unblocked lookup model now auths) \<longleftrightarrow>
     Some a \<in> set auths \<and> \<not> fst (isAuthBlockedForModel lookup (Some a) model now)"
proof
  assume "a \<in> set (unblocked lookup model now auths)"
  then obtain c where c: "c \<in> set auths" "\<not> fst (isAuthBlockedForModel lookup c model now)" "a = the c"
    by (auto simp: unblocked_def)
  with nil_is_blocked [OF c(2)] show "Some a \<in> set auths \<and> \<not> fst (isAuthBlockedForModel lookup (Some a) model now)" by simp
qed (auto simp: unblocked_def intro!: image_eqI [where x = "Some a"])

definition collect_inv ::
  "model_lookup \<Rightarrow> string \<Rightarrow> time \<Rightarrow> auth option list \<Rightarrow> buckets \<times> int \<times> time \<Rightarrow> bool" where
  "collect_inv lookup model now auths acc \<longleftrightarrow>
     (case acc of (B, n, e) \<Rightarrow>
        wf_map B \<and> fst ` set B = prio ` set (unblocked lookup model now auths) \<and>
        (\<forall>p. bucket_of B p = filter (\<lambda>a. prio a = p) (unblocked lookup model now auths)) \<and>
        n = int (length (filter (cooling lookup model now) auths)) \<and>
        earliest_of (recovery lookup model now ` {c \<in> set auths. cooling lookup model now c}) e)"

lemma collect_ok:
  assumes "0 \<le> now"
  shows "collect_inv lookup model now auths (collectAvailableByPriority lookup auths model now)"
proof (induction auths rule: rev_induct)
  case Nil
  then show ?case by (simp add: collect_inv_def collectAvailableByPriority_def unblocked_def bucket_of_def earliest_of_def)
next
  case (snoc c auths)
  obtain B n e where acc: "collectAvailableByPriority lookup auths model now = (B, n, e)" by (metis prod_cases3)
  let ?b = "isAuthBlockedForModel lookup c model now"
  have step: "collectAvailableByPriority lookup (auths @ [c]) model now =
      (if \<not> fst ?b then (bucket_append (authPriority c) (the c) B, n, e)
       else if cooling lookup model now c
       then (B, n + 1, if recovery lookup model now c \<noteq> 0 \<and> (e = 0 \<or> recovery lookup model now c < e)
                       then recovery lookup model now c else e)
       else (B, n, e))"
    using acc by (auto simp: collectAvailableByPriority_def collect_candidate_def cooling_def split: prod.splits)
  let ?S = "\<lambda>auths. recovery lookup model now ` {c \<in> set auths. cooling lookup model now c}"
  have pos: "0 < recovery lookup model now d" if "cooling lookup model now d" for d
    using cooling_until(1) [OF assms order_refl that] assms by simp
  have S: "?S (auths @ [c]) = (if cooling lookup model now c then insert (recovery lookup model now c) (?S auths) else ?S auths)"
    by auto
  have u: "unblocked lookup model now (auths @ [c]) = unblocked lookup model now auths @ (if fst ?b then [] else [the c])"
    by (simp add: unblocked_def)
  consider (free) "\<not> fst ?b" "\<not> cooling lookup model now c" | (cool) "fst ?b" "cooling lookup model now c"
    | (other) "fst ?b" "\<not> cooling lookup model now c" by (auto simp: cooling_def)
  then show ?case
  proof cases
    case free
    have c: "authPriority c = prio (the c)" using nil_is_blocked [OF free(1)] by simp
    from snoc free show ?thesis unfolding step collect_inv_def S u by (simp add: acc c collect_inv_def)
  next
    case cool
    have "\<forall>t \<in> ?S auths. 0 < t" using pos by auto
    with snoc cool pos [OF cool(2)] show ?thesis unfolding step collect_inv_def S u
      using earliest_insert [of "?S auths" e "recovery lookup model now c"] by (simp add: acc collect_inv_def)
  next
    case other
    from snoc other show ?thesis unfolding step collect_inv_def S u by (simp add: acc collect_inv_def)
  qed
qed

lemma best_priority_fold:
  "fst (fold (\<lambda>priority (bestPriority, found).
      if \<not> found \<or> priority > bestPriority then (priority, True) else (bestPriority, found)) ks (b :: int, True)) = fold max ks b"
  by (induction ks arbitrary: b) (auto simp: max_def)

lemma best_priority_Max: "ks \<noteq> [] \<Longrightarrow> best_priority ks = Max (set ks)"
proof (cases ks)
  case (Cons k ks')
  assume "ks \<noteq> []"
  with Cons best_priority_fold [of ks' k] Max.set_eq_fold [of k ks'] show ?thesis by (simp add: best_priority_def)
qed simp

lemma bucket_best:
  assumes "as \<noteq> []"
  shows "filter (\<lambda>a. prio a = Max (prio ` set as)) as = top_tier as"
  unfolding top_tier_def
proof (rule filter_cong [OF refl])
  fix a assume "a \<in> set as"
  then have "prio a \<le> Max (prio ` set as)" by simp
  then have "prio a = Max (prio ` set as) \<longleftrightarrow> Max (prio ` set as) \<le> prio a" by auto
  also have "\<dots> \<longleftrightarrow> (\<forall>b \<in> set as. prio b \<le> prio a)" using assms by simp
  finally show "prio a = Max (prio ` set as) \<longleftrightarrow> (\<forall>b \<in> set as. prio b \<le> prio a)" .
qed

text \<open>What the candidates come to, without the buckets.\<close>

definition available_spec ::
  "model_lookup \<Rightarrow> auth option list \<Rightarrow> string \<Rightarrow> string \<Rightarrow> time \<Rightarrow> pick_error + auth list" where
  "available_spec lookup auths provider model now =
     (if auths = [] then Inl (pick_failure ''auth_not_found'' ''no auth candidates'')
      else if unblocked lookup model now auths \<noteq> []
      then Inr (sort_key auth_ID (top_tier (unblocked lookup model now auths)))
      else if \<forall>c \<in> set auths. cooling lookup model now c
      then Inl (ModelCooldownError model (if provider = ''mixed'' then [] else provider)
                  (Min (recovery lookup model now ` set auths) - now))
      else Inl (pick_failure ''auth_unavailable'' ''no auth available''))"

lemma earliest_Min: "finite S \<Longrightarrow> S \<noteq> {} \<Longrightarrow> earliest_of S e \<Longrightarrow> e = Min S"
  by (auto simp: earliest_of_def intro!: Min_eqI [symmetric])

lemma available_eq_spec:
  assumes "0 \<le> now"
  shows "getAvailableAuths lookup auths provider model now = available_spec lookup auths provider model now"
proof -
  obtain B n e where acc: "collectAvailableByPriority lookup auths model now = (B, n, e)" by (metis prod_cases3)
  let ?u = "unblocked lookup model now auths"
  from collect_ok [OF assms, of lookup model auths] have
    B: "fst ` set B = prio ` set ?u" "\<And>p. bucket_of B p = filter (\<lambda>a. prio a = p) ?u"
    and n: "n = int (length (filter (cooling lookup model now) auths))"
    and e: "earliest_of (recovery lookup model now ` {c \<in> set auths. cooling lookup model now c}) e"
    by (simp_all add: acc collect_inv_def)
  have B0: "B = [] \<longleftrightarrow> ?u = []" using B(1) by (metis image_is_empty set_empty)
  have all: "n = int (length auths) \<longleftrightarrow> (\<forall>c \<in> set auths. cooling lookup model now c)"
    by (metis n of_nat_eq_iff filter_id_conv filter_True length_filter_less order_less_irrefl)
  show ?thesis
  proof (cases "?u = []")
    case False
    have "best_priority (map fst B) = Max (prio ` set ?u)" using False B0 B(1) by (simp add: best_priority_Max)
    then have "availableAuthsFromPriorityBuckets B False = sort_key auth_ID (top_tier ?u)"
      using B(2) bucket_best [OF False] by (simp add: availableAuthsFromPriorityBuckets_def bucket_of_def)
    moreover have "auths \<noteq> []" using False by (auto simp: unblocked_def)
    ultimately show ?thesis using False B0
      by (simp add: getAvailableAuths_def getAvailableAuthsWithPriorityMode_def acc available_spec_def)
  next
    case True
    show ?thesis
    proof (cases "auths \<noteq> [] \<and> (\<forall>c \<in> set auths. cooling lookup model now c)")
      case cool: True
      then have S: "{c \<in> set auths. cooling lookup model now c} = set auths" by auto
      have em: "e = Min (recovery lookup model now ` set auths)"
        using e cool earliest_Min [of "recovery lookup model now ` set auths" e] by (simp add: S)
      have "now < e" unfolding em using cool cooling_until(1) [OF assms order_refl] by (simp add: Min_gr_iff)
      with True B0 all cool assms show ?thesis
        by (auto simp: getAvailableAuths_def getAvailableAuthsWithPriorityMode_def acc available_spec_def
            newModelCooldownError_def Let_def em [symmetric])
    next
      case False
      with True B0 all show ?thesis
        by (auto simp: getAvailableAuths_def getAvailableAuthsWithPriorityMode_def acc available_spec_def)
    qed
  qed
qed

text \<open>C8: \<open>getAvailableAuths\<close> returns the unblocked candidates of the highest priority among the
  unblocked ones, sorted by id. With no unblocked candidate it fails: with a cool-down error that
  names the time to the first recovery when every candidate is cooling down, and with
  \<open>auth_unavailable\<close> otherwise.\<close>

theorem getAvailableAuths_exact:
  assumes "0 \<le> now"
  shows "getAvailableAuths lookup auths provider model now = available_spec lookup auths provider model now"
  by (rule available_eq_spec [OF assms])

text \<open>Three credentials: the best one rate limited until 50, two of equal lower priority.\<close>

definition demo_auth :: "string \<Rightarrow> string \<Rightarrow> auth" where
  "demo_auth i p = zero_auth\<lparr>auth_ID := i, auth_Status := StatusActive, auth_Attributes := [(''priority'', p)]\<rparr>"

definition demo_limited :: "string \<Rightarrow> string \<Rightarrow> time \<Rightarrow> auth" where
  "demo_limited i p t = (demo_auth i p)
     \<lparr>auth_ModelStates := [(''m'', Some \<lparr>ms_Status = StatusError, ms_StatusMessage = [], ms_Unavailable = True,
        ms_NextRetryAfter = t, ms_LastError = None,
        ms_Quota = \<lparr>q_Exceeded = True, q_Reason = ''quota'', q_NextRecoverAt = t, q_BackoffLevel = 1\<rparr>,
        ms_UpdatedAt = 1\<rparr>)]\<rparr>"

definition demo_candidates :: "auth option list" where
  "demo_candidates = [Some (demo_auth ''c'' ''1''), None, Some (demo_limited ''a'' ''9'' 50), Some (demo_auth ''b'' ''1'')]"

theorem getAvailableAuths_exact_witness:
  "map_sum id (map auth_ID) (available_spec (\<lambda>_ _. None) demo_candidates ''p'' ''m'' 10) = Inr [''b'', ''c'']"
proof -
  have "map_sum id (map auth_ID) (getAvailableAuths (\<lambda>_ _. None) demo_candidates ''p'' ''m'' 10) = Inr [''b'', ''c'']"
    by code_simp
  then show ?thesis using getAvailableAuths_exact [of 10] by simp
qed

lemma unblocked_Nil: "unblocked lookup model now auths = [] \<longleftrightarrow> (\<forall>c \<in> set auths. fst (isAuthBlockedForModel lookup c model now))"
  by (auto simp: unblocked_def filter_empty_conv)

lemma available_isl:
  "0 \<le> now \<Longrightarrow> isl (getAvailableAuths lookup auths provider model now) \<longleftrightarrow>
     (\<forall>c \<in> set auths. fst (isAuthBlockedForModel lookup c model now))"
  by (auto simp: available_eq_spec available_spec_def simp flip: unblocked_Nil) (simp add: unblocked_def)

text \<open>C9: The retry hint of a cool-down error is exact: as long as the credentials do not change,
  every selection before the hinted time fails, and from that time on one is possible.\<close>

theorem retry_hint_exact:
  assumes "0 \<le> now" and "getAvailableAuths lookup auths provider model now = Inl (ModelCooldownError m p resetIn)" and "now \<le> t"
  shows "isl (getAvailableAuths lookup auths provider model t) \<longleftrightarrow> t < now + resetIn"
proof -
  have cool: "auths \<noteq> []" "\<forall>c \<in> set auths. cooling lookup model now c"
    and d: "now + resetIn = Min (recovery lookup model now ` set auths)"
    using assms(2) by (auto simp: available_eq_spec [OF assms(1)] available_spec_def pick_failure_def split: if_splits)
  have "isl (getAvailableAuths lookup auths provider model t) \<longleftrightarrow> (\<forall>c \<in> set auths. t < recovery lookup model now c)"
    using available_isl [of t] cooling_until(2) [OF assms(1,3)] cool(2) assms(1,3) by simp
  also have "\<dots> \<longleftrightarrow> t < now + resetIn" unfolding d using cool(1) by simp
  finally show ?thesis .
qed

theorem retry_hint_exact_witness:
  "isl (getAvailableAuths (\<lambda>_ _. None) [Some (demo_limited ''a'' ''9'' 50), Some (demo_limited ''b'' ''1'' 40)] ''p'' ''m'' 39) \<and>
   \<not> isl (getAvailableAuths (\<lambda>_ _. None) [Some (demo_limited ''a'' ''9'' 50), Some (demo_limited ''b'' ''1'' 40)] ''p'' ''m'' 40)"
proof -
  let ?as = "[Some (demo_limited ''a'' ''9'' 50), Some (demo_limited ''b'' ''1'' 40)]"
  have "(case getAvailableAuths (\<lambda>_ _. None) ?as ''p'' ''m'' 10 of Inl (ModelCooldownError m p d) \<Rightarrow> d = 30 | _ \<Rightarrow> False)"
    by code_simp
  then obtain m p where "getAvailableAuths (\<lambda>_ _. None) ?as ''p'' ''m'' 10 = Inl (ModelCooldownError m p 30)"
    by (auto split: sum.splits pick_error.splits)
  from retry_hint_exact [OF _ this, of 39] retry_hint_exact [OF _ this, of 40] show ?thesis by simp
qed

end
