(* ===== verification/Selector_Contract.thy ===== *)
theory Selector_Contract
  imports Selector_Availability
begin

text \<open>
  The contract every selector keeps, as a locale: it chooses only among the unblocked candidates of
  the highest priority that it considers, it succeeds whenever there is one, and it fails with the
  error of \<open>getAvailableAuths\<close> otherwise. The round-robin, fill-first and weighted selectors are
  its instances; the session-affinity selector relies on it for its fallback.
\<close>

section \<open>The contract\<close>

type_synonym 's picker =
  "pick_ctx \<Rightarrow> string \<Rightarrow> string \<Rightarrow> time \<Rightarrow> auth option list \<Rightarrow> 's \<Rightarrow> (pick_error + auth) \<times> 's"

locale selector =
  fixes pick :: "'s picker" and lookup :: model_lookup and considers :: "auth option \<Rightarrow> bool"
  assumes pick_top: "0 \<le> now \<Longrightarrow> fst (pick ctx provider model now auths s) = Inr a \<Longrightarrow>
      a \<in> set (top_tier (unblocked lookup model now (filter considers auths)))"
    and pick_some: "0 \<le> now \<Longrightarrow> unblocked lookup model now (filter considers auths) \<noteq> [] \<Longrightarrow>
      \<exists>a. fst (pick ctx provider model now auths s) = Inr a"
    and pick_none: "0 \<le> now \<Longrightarrow> unblocked lookup model now (filter considers auths) = [] \<Longrightarrow>
      \<exists>e. available_spec lookup (filter considers auths) provider model now = Inl e \<and>
          pick ctx provider model now auths s = (Inl e, s)"
begin

lemma pick_candidate:
  "0 \<le> now \<Longrightarrow> fst (pick ctx provider model now auths s) = Inr a \<Longrightarrow>
   Some a \<in> set auths \<and> considers (Some a) \<and> \<not> fst (isAuthBlockedForModel lookup (Some a) model now) \<and>
   (\<forall>b. Some b \<in> set auths \<and> considers (Some b) \<and> \<not> fst (isAuthBlockedForModel lookup (Some b) model now) \<longrightarrow> prio b \<le> prio a)"
  using pick_top [of now ctx provider model auths s a] by (simp add: top_tier_def unblocked_mem)

lemma pick_fails_iff:
  "0 \<le> now \<Longrightarrow> isl (fst (pick ctx provider model now auths s)) \<longleftrightarrow>
     (\<forall>c \<in> set auths. considers c \<longrightarrow> fst (isAuthBlockedForModel lookup c model now))"
  using pick_some [of now model auths ctx provider s] pick_none [of now model auths provider ctx s]
  by (cases "unblocked lookup model now (filter considers auths) = []") (auto simp: unblocked_Nil)

end

section \<open>The selectors\<close>

lemma top_tier_ne: "as \<noteq> [] \<Longrightarrow> top_tier as \<noteq> []"
proof -
  assume as: "as \<noteq> []"
  have "Max (prio ` set as) \<in> prio ` set as" using as by (intro Max_in) auto
  then show ?thesis by (auto simp: bucket_best [OF as, symmetric] filter_empty_conv)
qed

lemma available_Inr:
  "0 \<le> now \<Longrightarrow> getAvailableAuths lookup auths provider model now = Inr as \<Longrightarrow>
   as \<noteq> [] \<and> set as = set (top_tier (unblocked lookup model now auths)) \<and> unblocked lookup model now auths \<noteq> []"
proof -
  assume now: "0 \<le> now" and r: "getAvailableAuths lookup auths provider model now = Inr as"
  then have u: "unblocked lookup model now auths \<noteq> []"
    and as: "as = sort_key auth_ID (top_tier (unblocked lookup model now auths))"
    by (simp_all add: available_eq_spec available_spec_def split: if_splits)
  have "as \<noteq> []" unfolding as using top_tier_ne [OF u] by (metis set_empty set_sort)
  with u show ?thesis by (simp add: as)
qed

lemma available_Inl:
  "0 \<le> now \<Longrightarrow> getAvailableAuths lookup auths provider model now = Inl e \<Longrightarrow>
   unblocked lookup model now auths = [] \<and> available_spec lookup auths provider model now = Inl e"
  by (auto simp: available_eq_spec available_spec_def unblocked_def split: if_splits)

lemma prefer_subset: "set (preferCodexWebsocketAuths ctx provider as) \<subseteq> set as"
  "preferCodexWebsocketAuths ctx provider as = [] \<longleftrightarrow> as = []"
  by (auto simp: preferCodexWebsocketAuths_def Let_def filter_empty_conv)

text \<open>What the three selectors share.\<close>

lemma selector_by_available:
  assumes fails: "\<And>ctx provider model now auths s e.
      getAvailableAuths lookup (filter considers auths) provider model now = Inl e \<Longrightarrow>
      pick ctx provider model now auths s = (Inl e, s)"
    and picks: "\<And>ctx provider model now auths s as. as \<noteq> [] \<Longrightarrow>
      getAvailableAuths lookup (filter considers auths) provider model now = Inr as \<Longrightarrow> (\<forall>a \<in> set as. considers (Some a)) \<Longrightarrow>
      \<exists>a \<in> set (preferCodexWebsocketAuths ctx provider as). fst (pick ctx provider model now auths s) = Inr a"
  shows "selector pick lookup considers"
proof
  fix ctx provider model now auths s
  let ?as = "filter considers auths"
  assume now: "0 \<le> (now :: int)"
  have c: "\<forall>a \<in> set as. considers (Some a)" if "getAvailableAuths lookup ?as provider model now = Inr as" for as
    using available_Inr [OF now that] by (auto simp: top_tier_def unblocked_mem)
  {
    fix a assume "fst (pick ctx provider model now auths s) = Inr a"
    then obtain as where as: "getAvailableAuths lookup ?as provider model now = Inr as"
      using fails [of auths provider model now _ ctx s] by (cases "getAvailableAuths lookup ?as provider model now") auto
    with available_Inr [OF now as] picks [OF _ as c [OF as], of ctx s] \<open>fst _ = Inr a\<close> prefer_subset(1)
    show "a \<in> set (top_tier (unblocked lookup model now ?as))" by fastforce
  }
  {
    assume "unblocked lookup model now ?as \<noteq> []"
    then obtain as where as: "getAvailableAuths lookup ?as provider model now = Inr as"
      using available_Inl [OF now, of lookup ?as provider model]
      by (cases "getAvailableAuths lookup ?as provider model now") auto
    with available_Inr [OF now as] picks [OF _ as c [OF as], of ctx s] show "\<exists>a. fst (pick ctx provider model now auths s) = Inr a"
      by blast
  }
  {
    assume "unblocked lookup model now ?as = []"
    then obtain e where e: "getAvailableAuths lookup ?as provider model now = Inl e"
      using available_Inr [OF now, of lookup ?as provider model]
      by (cases "getAvailableAuths lookup ?as provider model now") auto
    with available_Inl [OF now e] fails [OF e] show "\<exists>e. available_spec lookup ?as provider model now = Inl e \<and>
        pick ctx provider model now auths s = (Inl e, s)" by blast
  }
qed

interpretation rr: selector "RoundRobin_Pick lookup" lookup "\<lambda>_. True"
proof (rule selector_by_available, goal_cases)
  case (2 ctx provider model now auths s as)
  let ?p = "preferCodexWebsocketAuths ctx provider as"
  have "0 < length ?p" using 2 prefer_subset(2) by simp
  moreover have "nat (i mod int n) < n" if "0 < n" for i n using that by (simp add: nat_less_iff)
  ultimately show ?case using 2 by (auto simp: RoundRobin_Pick_def Let_def)
qed (simp add: RoundRobin_Pick_def)

text \<open>The fill-first selector has no state.\<close>

interpretation ff: selector "\<lambda>ctx provider model now auths (s :: unit). (FillFirst_Pick lookup ctx provider model now auths, s)"
  lookup "\<lambda>_. True"
proof (rule selector_by_available, goal_cases)
  case (2 ctx provider model now auths s as)
  then show ?case using prefer_subset(2) by (auto simp: FillFirst_Pick_def)
qed (simp add: FillFirst_Pick_def)

text \<open>The smooth choice is one of the credentials of positive weight.\<close>

lemma fold_smooth_picked:
  assumes "\<forall>a \<in> set as. 0 < authWeight (Some a)" and "as \<noteq> [] \<or> picked \<noteq> None"
    and "\<And>p c. picked = Some (p, c) \<Longrightarrow> p \<in> S" and "set as \<subseteq> S"
  shows "\<exists>p c. snd (snd (fold smooth_visit as (cur, tot, picked))) = Some (p, c) \<and> p \<in> S"
  using assms
proof (induction as arbitrary: cur tot picked)
  case (Cons a as)
  obtain cur' tot' picked' where v: "smooth_visit a (cur, tot, picked) = (cur', tot', picked')" by (metis prod_cases3)
  have "picked' \<noteq> None" "\<And>p c. picked' = Some (p, c) \<Longrightarrow> p \<in> S"
    using v Cons.prems by (auto simp: smooth_visit_def Let_def split: if_splits option.splits)
  with Cons v show ?case by simp
qed auto

lemma pickSmooth_some:
  assumes "\<forall>a \<in> set as. 0 < authWeight (Some a)" and "as \<noteq> []"
  shows "\<exists>p \<in> set as. fst (pickSmoothWeightedAuth as cur) = Some p"
  using fold_smooth_picked [OF assms(1), of None "set as" cur 0] assms(2)
  by (auto simp: pickSmoothWeightedAuth_def split: prod.splits option.splits)

lemma Weighted_Pick_Inr:
  assumes "getAvailableAuths lookup (positiveWeightAuths auths) provider model now = Inr as"
  shows "\<exists>cur. fst (Weighted_Pick lookup ctx provider model now auths s) =
     (case fst (pickSmoothWeightedAuth (preferCodexWebsocketAuths ctx provider as) cur) of
        None \<Rightarrow> Inl (pick_failure ''auth_unavailable'' ''no auth available with positive weight'') | Some p \<Rightarrow> Inr p)"
  unfolding Weighted_Pick_def assms sum.case Let_def case_prod_beta fst_conv by (rule exI, rule refl)

interpretation wrr: selector "Weighted_Pick lookup" lookup "\<lambda>a. 0 < authWeight a"
proof (rule selector_by_available, goal_cases)
  case (2 ctx provider model now auths s as)
  have "\<forall>a \<in> set (preferCodexWebsocketAuths ctx provider as). 0 < authWeight (Some a)"
    using 2 prefer_subset(1) by blast
  then have "\<exists>p \<in> set (preferCodexWebsocketAuths ctx provider as).
      fst (pickSmoothWeightedAuth (preferCodexWebsocketAuths ctx provider as) cur) = Some p" for cur
    by (rule pickSmooth_some) (simp add: prefer_subset(2) 2)
  moreover obtain cur where "fst (Weighted_Pick lookup ctx provider model now auths s) =
      (case fst (pickSmoothWeightedAuth (preferCodexWebsocketAuths ctx provider as) cur) of
         None \<Rightarrow> Inl (pick_failure ''auth_unavailable'' ''no auth available with positive weight'') | Some p \<Rightarrow> Inr p)"
    using Weighted_Pick_Inr [of lookup auths provider model now as ctx s] 2(2) unfolding positiveWeightAuths_def by blast
  ultimately show ?case by (metis option.simps(5))
qed (simp add: Weighted_Pick_def positiveWeightAuths_def)

end
