(* ===== verification/Selector_Fairness.thy ===== *)
theory Selector_Fairness
  imports Selector_Contract
begin

text \<open>
  How the selectors share the load. Round robin visits every available credential once per round.
  Smooth weighted round robin, started afresh, gives every credential in a cycle of as many
  selections as the weights add up to exactly its weight: the credit \<open>current\<close> of a credential
  after \<open>k\<close> selections, of which it got \<open>c\<close>, is \<open>k\<close> times its weight minus \<open>c\<close> times the
  total, and no credit ever falls to minus the total.
\<close>

section \<open>Repeated selections\<close>

primrec run_picks :: "('s \<Rightarrow> 'r \<times> 's) \<Rightarrow> nat \<Rightarrow> 's \<Rightarrow> 'r list \<times> 's" where
  "run_picks f 0 s = ([], s)"
| "run_picks f (Suc n) s = (case run_picks f n s of (rs, s') \<Rightarrow> (case f s' of (r, s'') \<Rightarrow> (rs @ [r], s'')))"

lemma length_run_picks [simp]: "length (fst (run_picks f n s)) = n"
  by (induction n) (auto split: prod.splits)

section \<open>Smooth weights\<close>

abbreviation aw :: "auth \<Rightarrow> int" where
  "aw a \<equiv> authWeight (Some a)"

definition total_weight :: "auth list \<Rightarrow> int" where
  "total_weight as = sum_list (map aw as)"

text \<open>The credentials of a selection: distinct ids, positive weights within the limit, and not so
  many that the sums leave 64 bits.\<close>

definition pool :: "auth list \<Rightarrow> bool" where
  "pool as \<longleftrightarrow> distinct (map auth_ID as) \<and> (\<forall>a \<in> set as. 0 < aw a \<and> aw a \<le> weight_Max) \<and>
     as \<noteq> [] \<and> length as \<le> 1000000"

abbreviation credit :: "(string, int) gomap \<Rightarrow> auth \<Rightarrow> int" where
  "credit cur a \<equiv> map_get0 cur (auth_ID a)"

definition balanced :: "auth list \<Rightarrow> (string, int) gomap \<Rightarrow> bool" where
  "balanced as cur \<longleftrightarrow> wf_map cur \<and> sum_list (map (credit cur) as) = 0 \<and> (\<forall>a \<in> set as. - total_weight as < credit cur a)"

lemma map_get0_mput [simp]: "map_get0 (mput k v m) k' = (if k' = k then v else map_get0 m k')"
  by (simp add: map_get0_def)

lemma total_bounds:
  assumes "pool as"
  shows "0 < total_weight as" "total_weight as \<le> 1000000 * int (length as)"
proof -
  have "sum_list (map aw xs) \<le> 1000000 * int (length xs) \<and> (xs \<noteq> [] \<longrightarrow> 0 < sum_list (map aw xs)) \<and> 0 \<le> sum_list (map aw xs)"
    if "\<forall>a \<in> set xs. 0 < aw a \<and> aw a \<le> weight_Max" for xs
    using that by (induction xs) (auto simp: weight_Max_def)
  then show "0 < total_weight as" "total_weight as \<le> 1000000 * int (length as)" using assms by (auto simp: total_weight_def pool_def)
qed

lemma sat_add: "in_int64 (v + d) \<Longrightarrow> saturatingAddInt64 v d = v + d"
  by (auto simp: saturatingAddInt64_def in_int64_def)

lemma in_int64_mid: "in_int64 x \<Longrightarrow> in_int64 z \<Longrightarrow> x \<le> y \<Longrightarrow> y \<le> z \<Longrightarrow> in_int64 y"
  by (simp add: in_int64_def)

text \<open>The loop adds each weight to the credit, sums the weights and keeps the first largest credit.\<close>

lemma fold_smooth_visit:
  assumes "distinct (map auth_ID as)" and "\<forall>a \<in> set as. 0 < aw a \<and> in_int64 (credit cur a + aw a)"
    and "0 \<le> tot" and "tot + total_weight as \<le> MaxInt64" and "wf_map cur"
  shows "\<exists>cur' picked'. fold smooth_visit as (cur, tot, picked) = (cur', tot + total_weight as, picked') \<and> wf_map cur' \<and>
     (\<forall>k. map_get0 cur' k = map_get0 cur k + sum_list (map (\<lambda>a. if auth_ID a = k then aw a else 0) as)) \<and>
     (\<forall>p c. picked' = Some (p, c) \<longrightarrow> picked = Some (p, c) \<or> p \<in> set as \<and> c = credit cur p + aw p) \<and>
     (\<forall>p c. picked = Some (p, c) \<longrightarrow> (\<exists>p' c'. picked' = Some (p', c') \<and> c \<le> c')) \<and>
     (\<forall>a \<in> set as. \<exists>p' c'. picked' = Some (p', c') \<and> credit cur a + aw a \<le> c')"
  using assms
proof (induction as arbitrary: cur tot picked)
  case (Cons a as)
  have w: "0 < aw a" and sat: "saturatingAddInt64 (credit cur a) (aw a) = credit cur a + aw a"
    using Cons.prems(2) by (auto intro: sat_add)
  have t0: "0 \<le> total_weight as" unfolding total_weight_def by (rule sum_list_nonneg) (use Cons.prems(2) in \<open>auto intro: less_imp_le\<close>)
  have t: "total_weight (a # as) = aw a + total_weight as" by (simp add: total_weight_def)
  have sat2: "saturatingAddInt64 tot (aw a) = tot + aw a"
    using w t0 t Cons.prems(3,4) by (intro sat_add) (simp add: in_int64_def MinInt64_def)
  define p0 where "p0 = (case picked of None \<Rightarrow> Some (a, credit cur a + aw a)
               | Some (p, c) \<Rightarrow> if credit cur a + aw a > c then Some (a, credit cur a + aw a) else picked)"
  have v: "smooth_visit a (cur, tot, picked) = (mput (auth_ID a) (credit cur a + aw a) cur, tot + aw a, p0)"
    using w by (auto simp: smooth_visit_def Let_def sat sat2 p0_def split: option.splits)
  let ?cur = "mput (auth_ID a) (credit cur a + aw a) cur"
  have d: "auth_ID a \<notin> auth_ID ` set as" "distinct (map auth_ID as)" using Cons.prems(1) by auto
  have ne: "auth_ID b \<noteq> auth_ID a" if "b \<in> set as" for b using d(1) that by (metis imageI)
  then have cr: "credit ?cur b = credit cur b" if "b \<in> set as" for b using that by simp
  have prems: "\<forall>b \<in> set as. 0 < aw b \<and> in_int64 (credit ?cur b + aw b)" using Cons.prems(2) cr by simp
  from Cons.IH [OF d(2) prems, of "tot + aw a" p0] Cons.prems(3-5) w t obtain cur' picked' where
    ih: "fold smooth_visit as (?cur, tot + aw a, p0) = (cur', tot + aw a + total_weight as, picked')" "wf_map cur'"
      "\<And>k. map_get0 cur' k = map_get0 ?cur k + sum_list (map (\<lambda>a. if auth_ID a = k then aw a else 0) as)"
      "\<And>p c. picked' = Some (p, c) \<Longrightarrow> p0 = Some (p, c) \<or> p \<in> set as \<and> c = credit ?cur p + aw p"
      "\<And>p c. p0 = Some (p, c) \<Longrightarrow> \<exists>p' c'. picked' = Some (p', c') \<and> c \<le> c'"
      "\<And>b. b \<in> set as \<Longrightarrow> \<exists>p' c'. picked' = Some (p', c') \<and> credit ?cur b + aw b \<le> c'"
    by auto
  have p0': "\<exists>p c. p0 = Some (p, c) \<and> credit cur a + aw a \<le> c"
    "\<And>p c. picked = Some (p, c) \<Longrightarrow> \<exists>p' c'. p0 = Some (p', c') \<and> c \<le> c'"
    "\<And>p c. p0 = Some (p, c) \<Longrightarrow> picked = Some (p, c) \<or> p = a \<and> c = credit cur a + aw a"
    by (auto simp: p0_def split: option.splits if_splits)
  have z: "(\<Sum>b\<leftarrow>as. if auth_ID b = auth_ID a then aw b else 0) = 0"
    using ne by (induction as) auto
  have "\<exists>p' c'. picked' = Some (p', c') \<and> credit cur b + aw b \<le> c'" if "b \<in> set (a # as)" for b
  proof (cases "b = a")
    case True
    obtain p c where pc: "p0 = Some (p, c)" "credit cur a + aw a \<le> c" using p0'(1) by blast
    then obtain p' c' where "picked' = Some (p', c')" "c \<le> c'" using ih(5) [OF pc(1)] by blast
    with pc(2) True show ?thesis by auto
  qed (use ih(6) [of b] cr [of b] that in auto)
  moreover have "\<exists>p' c'. picked' = Some (p', c') \<and> c \<le> c'" if pk: "picked = Some (p, c)" for p c
  proof -
    obtain p1 c1 where pc: "p0 = Some (p1, c1)" "c \<le> c1" using p0'(2) [OF pk] by blast
    then obtain p' c' where "picked' = Some (p', c')" "c1 \<le> c'" using ih(5) [OF pc(1)] by blast
    with pc(2) show ?thesis by auto
  qed
  moreover have "picked = Some (p, c) \<or> p \<in> set (a # as) \<and> c = credit cur p + aw p" if "picked' = Some (p, c)" for p c
    using ih(4) [OF that] p0'(3) cr by auto
  moreover have "map_get0 cur' k = map_get0 cur k + (\<Sum>b\<leftarrow>a # as. if auth_ID b = k then aw b else 0)" for k
    using ih(3) [of k] z by auto
  ultimately show ?case using ih(1,2) v t by (intro exI [of _ cur'] exI [of _ picked']) (simp add: add.assoc)
qed (auto simp: total_weight_def)

lemma sum_own:
  "distinct (map auth_ID as) \<Longrightarrow> a \<in> set as \<Longrightarrow> (\<Sum>b\<leftarrow>as. if auth_ID b = auth_ID a then aw b else 0) = aw a"
proof (induction as)
  case (Cons b as)
  have "(\<Sum>c\<leftarrow>as. if auth_ID c = auth_ID a then aw c else 0) = 0" if "auth_ID a \<notin> auth_ID ` set as"
    using that by (induction as) auto
  with Cons show ?case by (auto simp: image_iff)
qed simp

lemma sum_list_bound:
  assumes "\<And>x. x \<in> set xs \<Longrightarrow> - c < f x" and "sum_list (map f xs) = 0" and "x \<in> set xs" and "0 < (c :: int)"
  shows "f x \<le> c * int (length xs)"
proof -
  obtain ys zs where xs: "xs = ys @ x # zs" using assms(3) by (auto dest: split_list)
  have "- c * int (length us) \<le> sum_list (map f us)" if "\<And>x. x \<in> set us \<Longrightarrow> - c < f x" for us
    using that by (induction us) (force simp: algebra_simps)+
  from this [of ys] this [of zs] assms xs show ?thesis by (auto simp: algebra_simps)
qed

lemma balanced_range:
  assumes "pool as" "balanced as cur" "a \<in> set as"
  shows "in_int64 (credit cur a + aw a)" "in_int64 (credit cur a + aw a - total_weight as)"
proof -
  have n: "int (length as) \<le> 1000000" using assms(1) by (simp add: pool_def)
  have w: "0 < aw a" "aw a \<le> 1000000" using assms(1,3) by (auto simp: pool_def weight_Max_def)
  note t = total_bounds [OF assms(1)]
  have t2: "total_weight as \<le> 1000000000000" using t(2) n by linarith
  have "credit cur a \<le> total_weight as * int (length as)"
    by (rule sum_list_bound [where c = "total_weight as"]) (use assms t(1) in \<open>auto simp: balanced_def\<close>)
  also have "\<dots> \<le> 1000000000000 * 1000000" using t(1) t2 n by (intro mult_mono) auto
  finally have "credit cur a \<le> 1000000000000000000" by simp
  moreover have "- total_weight as < credit cur a" using assms(2,3) by (simp add: balanced_def)
  ultimately show "in_int64 (credit cur a + aw a)" "in_int64 (credit cur a + aw a - total_weight as)"
    using w t2 t(1) by (simp_all add: in_int64_def MinInt64_def MaxInt64_def)
qed

lemma sum_update:
  "distinct as \<Longrightarrow> p \<in> set as \<Longrightarrow> sum_list (map (\<lambda>a. f a - (if a = p then t else 0)) as) = sum_list (map f as) - (t :: int)"
proof (induction as)
  case (Cons a as)
  have "sum_list (map (\<lambda>a. f a - (if a = p then t else 0)) as) = sum_list (map f as)" if "p \<notin> set as"
    using that by (intro arg_cong [where f = sum_list] map_cong) auto
  with Cons show ?case by auto
qed simp

lemma max_credit_pos:
  assumes "sum_list (map f as) = (t :: int)" "0 < t" "\<forall>a \<in> set as. f a \<le> f p"
  shows "0 < f p"
proof (rule ccontr)
  assume "\<not> 0 < f p"
  with assms(3) have "\<forall>a \<in> set as. f a \<le> 0" by auto
  then have "sum_list (map f as) \<le> 0" by (induction as) auto
  with assms show False by simp
qed

text \<open>One selection.\<close>

lemma smooth_step:
  assumes pool: "pool as" and bal: "balanced as cur"
  obtains p where "p \<in> set as" "fst (pickSmoothWeightedAuth as cur) = Some p"
    "\<And>a. a \<in> set as \<Longrightarrow> credit (snd (pickSmoothWeightedAuth as cur)) a = credit cur a + aw a - (if a = p then total_weight as else 0)"
    "balanced as (snd (pickSmoothWeightedAuth as cur))"
proof -
  have d: "distinct (map auth_ID as)" and w: "\<forall>a \<in> set as. 0 < aw a" and ne: "as \<noteq> []" using pool by (auto simp: pool_def)
  have inj: "auth_ID a = auth_ID b \<longleftrightarrow> a = b" if "a \<in> set as" "b \<in> set as" for a b
    using d that by (auto simp: distinct_map inj_on_def)
  have tb: "0 < total_weight as" "total_weight as \<le> MaxInt64"
    using total_bounds [OF pool] pool by (auto simp: pool_def MaxInt64_def)
  obtain cur1 picked where f: "fold smooth_visit as (cur, 0, None) = (cur1, total_weight as, picked)" "wf_map cur1"
    "\<And>k. map_get0 cur1 k = map_get0 cur k + (\<Sum>a\<leftarrow>as. if auth_ID a = k then aw a else 0)"
    "\<And>p c. picked = Some (p, c) \<Longrightarrow> p \<in> set as \<and> c = credit cur p + aw p"
    "\<And>a. a \<in> set as \<Longrightarrow> \<exists>p c. picked = Some (p, c) \<and> credit cur a + aw a \<le> c"
    using fold_smooth_visit [OF d, of cur 0 None] balanced_range(1) [OF pool bal] w tb bal by (auto simp: balanced_def)
  obtain p c where p: "picked = Some (p, c)" using f(5) ne by (metis list.set_sel(1))
  have pin: "p \<in> set as" and c: "c = credit cur p + aw p" using f(4) [OF p] by auto
  have best: "credit cur a + aw a \<le> credit cur p + aw p" if "a \<in> set as" for a using f(5) [OF that] p c by auto
  define cur2 where "cur2 = filter (\<lambda>(authID, _). authID \<in> set (map auth_ID (filter (\<lambda>a. authWeight (Some a) > 0) as))) cur1"
  have act: "set (map auth_ID (filter (\<lambda>a. authWeight (Some a) > 0) as)) = auth_ID ` set as" using w by auto
  have wf2: "wf_map cur2" unfolding cur2_def using f(2) by (rule distinct_map_filter)
  have cr2: "credit cur2 a = credit cur a + aw a" if "a \<in> set as" for a
  proof -
    have "mget cur2 (auth_ID a) = mget cur1 (auth_ID a)"
    proof (cases "mget cur1 (auth_ID a)")
      case None
      then have "auth_ID a \<notin> fst ` set cur1" by (simp only: mget_eq_None_iff not_False_eq_True)
      then have "auth_ID a \<notin> fst ` set cur2" unfolding cur2_def by auto
      then have "mget cur2 (auth_ID a) = None" by (simp only: mget_eq_None_iff not_False_eq_True)
      with None show ?thesis by simp
    next
      case (Some v)
      have "mget cur2 (auth_ID a) = Some v"
        unfolding cur2_def act using Some that by (simp only: mget_filter [OF f(2)]) auto
      with Some show ?thesis by simp
    qed
    then show ?thesis using f(3) [of "auth_ID a"] sum_own [OF d that] by (simp add: map_get0_def)
  qed
  let ?r = "pickSmoothWeightedAuth as cur"
  have sub: "saturatingAddInt64 (credit cur2 p) (- total_weight as) = credit cur p + aw p - total_weight as"
    using sat_add [of "credit cur2 p" "- total_weight as"] balanced_range(2) [OF pool bal pin] cr2 [OF pin] by simp
  have r: "fst ?r = Some p" "snd ?r = mput (auth_ID p) (credit cur p + aw p - total_weight as) cur2"
    using sub by (simp_all add: pickSmoothWeightedAuth_def f(1) p Let_def cur2_def)
  have cr: "credit (snd ?r) a = credit cur a + aw a - (if a = p then total_weight as else 0)" if "a \<in> set as" for a
    using cr2 [OF that] inj [OF that pin] by (simp add: r)
  have dd: "distinct as" using d by (simp add: distinct_map)
  have "sum_list (map (credit (snd ?r)) as) = sum_list (map (\<lambda>a. (credit cur a + aw a) - (if a = p then total_weight as else 0)) as)"
    by (intro arg_cong [where f = sum_list] map_cong) (simp_all add: cr)
  also have "\<dots> = sum_list (map (\<lambda>a. credit cur a + aw a) as) - total_weight as" by (rule sum_update [OF dd pin])
  also have s: "sum_list (map (\<lambda>a. credit cur a + aw a) as) = total_weight as"
    using bal by (simp add: sum_list_addf total_weight_def balanced_def)
  finally have sum0: "sum_list (map (credit (snd ?r)) as) = 0" by simp
  have "0 < credit cur p + aw p" by (rule max_credit_pos [OF s tb(1)]) (use best in auto)
  moreover have "- total_weight as < credit cur a" if "a \<in> set as" for a using bal that by (simp add: balanced_def)
  ultimately have "- total_weight as < credit (snd ?r) a" if "a \<in> set as" for a using cr [OF that] w that by fastforce
  with sum0 wf2 have "balanced as (snd ?r)" by (simp add: balanced_def r)
  with that pin r(1) cr show thesis by blast
qed

text \<open>The credits after \<open>k\<close> selections.\<close>

abbreviation smooth_run :: "auth list \<Rightarrow> nat \<Rightarrow> (string, int) gomap \<Rightarrow> auth option list \<times> (string, int) gomap" where
  "smooth_run as k cur \<equiv> run_picks (pickSmoothWeightedAuth as) k cur"

lemma smooth_run_credit:
  assumes "pool as" and "balanced as cur"
  shows "balanced as (snd (smooth_run as k cur)) \<and> set (fst (smooth_run as k cur)) \<subseteq> Some ` set as \<and>
     (\<forall>a \<in> set as. credit (snd (smooth_run as k cur)) a =
        credit cur a + int k * aw a - int (count_list (fst (smooth_run as k cur)) (Some a)) * total_weight as)"
proof (induction k)
  case (Suc k)
  obtain rs cur' where r: "smooth_run as k cur = (rs, cur')" by fastforce
  with Suc have bal: "balanced as cur'" by simp
  obtain p where p: "p \<in> set as" "fst (pickSmoothWeightedAuth as cur') = Some p"
    "\<And>a. a \<in> set as \<Longrightarrow> credit (snd (pickSmoothWeightedAuth as cur')) a = credit cur' a + aw a - (if a = p then total_weight as else 0)"
    "balanced as (snd (pickSmoothWeightedAuth as cur'))"
    using smooth_step [OF assms(1) bal] by blast
  have e: "smooth_run as (Suc k) cur = (rs @ [Some p], snd (pickSmoothWeightedAuth as cur'))"
    using p(2) by (simp add: r case_prod_beta)
  have "credit (snd (pickSmoothWeightedAuth as cur')) a =
      credit cur a + int (Suc k) * aw a - int (count_list (rs @ [Some p]) (Some a)) * total_weight as" if "a \<in> set as" for a
    using p(3) [OF that] Suc that by (auto simp: r distrib_right)
  with Suc p(1,4) r show ?case unfolding e by auto
qed (use assms in simp)

lemma sum_count_list:
  "distinct as \<Longrightarrow> set rs \<subseteq> Some ` set as \<Longrightarrow> sum_list (map (\<lambda>a. int (count_list rs (Some a))) as) = int (length rs)"
proof (induction rs)
  case (Cons r rs)
  obtain p where p: "r = Some p" "p \<in> set as" using Cons.prems by auto
  have "sum_list (map (\<lambda>a. int (count_list (r # rs) (Some a))) as) =
      sum_list (map (\<lambda>a. int (count_list rs (Some a)) - (if a = p then - 1 else 0)) as)"
    by (intro arg_cong [where f = sum_list] map_cong) (auto simp: p)
  with sum_update [OF Cons.prems(1) p(2), of "\<lambda>a. int (count_list rs (Some a))" "- 1"] Cons show ?case by simp
qed simp

lemma sum_list_le_eq:
  assumes "\<forall>a \<in> set as. f a \<le> g a" and "sum_list (map f as) = (sum_list (map g as) :: int)" and "a \<in> set as"
  shows "f a = g a"
  using assms
proof (induction as)
  case (Cons b as)
  have "sum_list (map f as) \<le> sum_list (map g as)" using Cons.prems(1) by (intro sum_list_mono) auto
  with Cons.prems have "f b = g b" "sum_list (map f as) = sum_list (map g as)" by auto
  with Cons show ?case by auto
qed simp

text \<open>A cycle of selections from equal credits.\<close>

lemma smooth_cycle:
  assumes pool: "pool as" and zero: "\<forall>a \<in> set as. credit cur a = 0" and wf: "wf_map cur" and a: "a \<in> set as"
  shows "int (count_list (fst (smooth_run as (nat (total_weight as)) cur)) (Some a)) = aw a"
    and "credit (snd (smooth_run as (nat (total_weight as)) cur)) a = 0"
proof -
  let ?rs = "fst (smooth_run as (nat (total_weight as)) cur)"
  have t: "0 < total_weight as" using total_bounds [OF pool] by simp
  have "sum_list (map (credit cur) as) = 0" using zero by (induction as) auto
  then have bal: "balanced as cur" using zero wf t by (simp add: balanced_def)
  note run = smooth_run_credit [OF pool bal, of "nat (total_weight as)"]
  have low: "- total_weight as < credit (snd (smooth_run as (nat (total_weight as)) cur)) b"
    and eq: "credit (snd (smooth_run as (nat (total_weight as)) cur)) b =
      total_weight as * aw b - int (count_list ?rs (Some b)) * total_weight as" if "b \<in> set as" for b
  proof -
    show "- total_weight as < credit (snd (smooth_run as (nat (total_weight as)) cur)) b"
      using run that unfolding balanced_def by blast
    show "credit (snd (smooth_run as (nat (total_weight as)) cur)) b =
        total_weight as * aw b - int (count_list ?rs (Some b)) * total_weight as"
      using run that zero t by simp
  qed
  have le: "\<forall>b \<in> set as. int (count_list ?rs (Some b)) \<le> aw b"
  proof
    fix b assume b: "b \<in> set as"
    have "- total_weight as < total_weight as * aw b - int (count_list ?rs (Some b)) * total_weight as"
      using low [OF b] eq [OF b] by simp
    then have "int (count_list ?rs (Some b)) * total_weight as < (aw b + 1) * total_weight as" by (simp add: algebra_simps)
    then have "int (count_list ?rs (Some b)) < aw b + 1" by (simp only: mult_less_cancel_right_pos [OF t])
    then show "int (count_list ?rs (Some b)) \<le> aw b" by simp
  qed
  have sum: "sum_list (map (\<lambda>b. int (count_list ?rs (Some b))) as) = sum_list (map aw as)"
  proof -
    have "distinct as" using pool by (simp add: pool_def distinct_map)
    moreover have "set ?rs \<subseteq> Some ` set as" using run by blast
    ultimately have "sum_list (map (\<lambda>b. int (count_list ?rs (Some b))) as) = int (length ?rs)" by (rule sum_count_list)
    then show ?thesis using t by (simp add: total_weight_def)
  qed
  show c: "int (count_list ?rs (Some a)) = aw a" by (rule sum_list_le_eq [OF le sum a])
  show "credit (snd (smooth_run as (nat (total_weight as)) cur)) a = 0" using eq [OF a] c by simp
qed

section \<open>The weighted selector\<close>

text \<open>Selections at given times.\<close>

primrec run_at :: "(time \<Rightarrow> 's \<Rightarrow> 'r \<times> 's) \<Rightarrow> time list \<Rightarrow> 's \<Rightarrow> 'r list \<times> 's" where
  "run_at f [] s = ([], s)"
| "run_at f (t # ts) s = (case f t s of (r, s') \<Rightarrow> (case run_at f ts s' of (rs, s'') \<Rightarrow> (r # rs, s'')))"

lemma run_at_snoc:
  "run_at f (ts @ [t]) s = (case run_at f ts s of (rs, s') \<Rightarrow> (case f t s' of (r, s'') \<Rightarrow> (rs @ [r], s'')))"
  by (induction ts arbitrary: s) (auto split: prod.splits)

lemma weight_vector_wf: "wf_map (authWeightVector as)"
proof -
  have "wf_map (fold (\<lambda>a weights. if authWeight (Some a) > 0 then mput (auth_ID a) (authWeight (Some a)) weights else weights) as m)"
    if "wf_map m" for m
    using that by (induction as arbitrary: m) auto
  then show ?thesis by (simp add: authWeightVector_def)
qed

lemma weight_vector_same: "wf_map v \<Longrightarrow> weightVectorsEqual v v"
  by (auto simp: weightVectorsEqual_def list_all_iff map_get0_def mget_in_set split: option.splits)

abbreviation weighted_key :: "model_lookup \<Rightarrow> pick_ctx \<Rightarrow> string \<Rightarrow> string \<Rightarrow> string" where
  "weighted_key lookup ctx provider model \<equiv>
     provider @ '':'' @ canonicalModelKey lookup (weightedSelectorStateModel ctx model)"

definition pick_result :: "auth option \<Rightarrow> pick_error + auth" where
  "pick_result picked = (case picked of
     None \<Rightarrow> Inl (pick_failure ''auth_unavailable'' ''no auth available with positive weight'') | Some p \<Rightarrow> Inr p)"

text \<open>The credits a selector has for the available credentials \<open>as\<close>.\<close>

definition credits_for :: "string \<Rightarrow> auth list \<Rightarrow> wrr_selector \<Rightarrow> (string, int) gomap \<Rightarrow> bool" where
  "credits_for key as s cur \<longleftrightarrow>
     (case mget (wrr_states s) key of
        None \<Rightarrow> cur = []
      | Some st \<Rightarrow> cur = (if weightVectorsEqual (sw_weights st) (authWeightVector as) then sw_current st else []))"

lemma weighted_step:
  assumes avail: "getAvailableAuths lookup (positiveWeightAuths auths) provider model now = Inr avail"
    and as: "as = preferCodexWebsocketAuths ctx provider avail"
    and key: "key = weighted_key lookup ctx provider model" and cur: "credits_for key as s cur"
  shows "fst (Weighted_Pick lookup ctx provider model now auths s) = pick_result (fst (pickSmoothWeightedAuth as cur))"
    and "credits_for key as (snd (Weighted_Pick lookup ctx provider model now auths s)) (snd (pickSmoothWeightedAuth as cur))"
proof -
  define states where "states = (if mget (wrr_states s) key = None \<and> int (length (wrr_states s)) \<ge> selector_limit (wrr_maxKeys s)
    then [] else wrr_states s)"
  define st where "st = prepare (authWeightVector as)
    (case mget states key of None \<Rightarrow> \<lparr>sw_current = [], sw_weights = []\<rparr> | Some st \<Rightarrow> st)"
  have c: "sw_current st = cur" "sw_weights st = authWeightVector as"
    using cur by (auto simp: st_def states_def prepare_def credits_for_def split: option.splits if_splits)
  have w: "Weighted_Pick lookup ctx provider model now auths s =
      (pick_result (fst (pickSmoothWeightedAuth as cur)),
       s\<lparr>wrr_states := mput key (st\<lparr>sw_current := snd (pickSmoothWeightedAuth as cur)\<rparr>) states\<rparr>)"
    unfolding Weighted_Pick_def avail sum.case Let_def as [symmetric] key [symmetric] states_def [symmetric]
      st_def [symmetric] c(1) case_prod_beta pick_result_def ..
  show "fst (Weighted_Pick lookup ctx provider model now auths s) = pick_result (fst (pickSmoothWeightedAuth as cur))"
    by (simp add: w)
  show "credits_for key as (snd (Weighted_Pick lookup ctx provider model now auths s)) (snd (pickSmoothWeightedAuth as cur))"
    using c(2) weight_vector_same [OF weight_vector_wf] by (simp add: w credits_for_def)
qed

lemma weighted_run:
  assumes as: "as = preferCodexWebsocketAuths ctx provider avail"
    and key: "key = weighted_key lookup ctx provider model" and cur: "credits_for key as s cur"
    and avail: "\<forall>t \<in> set ts. getAvailableAuths lookup (positiveWeightAuths auths) provider model t = Inr avail"
  shows "fst (run_at (\<lambda>t. Weighted_Pick lookup ctx provider model t auths) ts s) =
           map pick_result (fst (smooth_run as (length ts) cur)) \<and>
         credits_for key as (snd (run_at (\<lambda>t. Weighted_Pick lookup ctx provider model t auths) ts s))
           (snd (smooth_run as (length ts) cur))"
  using avail
proof (induction ts rule: rev_induct)
  case (snoc t ts)
  let ?r = "run_at (\<lambda>t. Weighted_Pick lookup ctx provider model t auths) ts s"
  from snoc have ih: "fst ?r = map pick_result (fst (smooth_run as (length ts) cur))"
    "credits_for key as (snd ?r) (snd (smooth_run as (length ts) cur))" by auto
  have "getAvailableAuths lookup (positiveWeightAuths auths) provider model t = Inr avail" using snoc.prems by simp
  from weighted_step [OF this as key ih(2)] ih(1) show ?case
    by (simp add: run_at_snoc case_prod_beta)
qed (use cur in simp)

text \<open>C5: Smooth weighted round robin is exactly proportional: while the same credentials are
  available, as many selections as their weights add up to, starting with no credits for them, give
  every credential exactly its weight, and leave all credits at zero, so that the next cycle does
  the same. No sum overflows on the way.\<close>

theorem weighted_shares_exact:
  assumes "pool as" and "as = preferCodexWebsocketAuths ctx provider avail"
    and "\<forall>t \<in> set ts. getAvailableAuths lookup (positiveWeightAuths auths) provider model t = Inr avail"
    and "int (length ts) = total_weight as" and "credits_for (weighted_key lookup ctx provider model) as s cur"
    and "wf_map cur" and "\<forall>a \<in> set as. credit cur a = 0" and "a \<in> set as"
  shows "int (count_list (fst (run_at (\<lambda>t. Weighted_Pick lookup ctx provider model t auths) ts s)) (Inr a)) = authWeight (Some a) \<and>
    (\<exists>cur'. credits_for (weighted_key lookup ctx provider model) as
              (snd (run_at (\<lambda>t. Weighted_Pick lookup ctx provider model t auths) ts s)) cur' \<and> credit cur' a = 0)"
proof -
  have n: "length ts = nat (total_weight as)" using assms(4) by simp
  have inj: "count_list (map pick_result rs) (Inr a) = count_list rs (Some a)" for rs
    by (induction rs) (auto simp: pick_result_def split: option.splits)
  from weighted_run [OF assms(2) refl assms(5,3)] smooth_cycle [OF assms(1,7,6,8)] show ?thesis
    by (auto simp: n inj)
qed

definition demo_weighted :: "string \<Rightarrow> string \<Rightarrow> auth" where
  "demo_weighted i w = zero_auth\<lparr>auth_ID := i, auth_Status := StatusActive, auth_Attributes := [(''weight'', w)]\<rparr>"

definition demo_ctx :: pick_ctx where
  "demo_ctx = \<lparr>ctx_DownstreamWebsocket = False, ctx_weightedSelectorStateModel = None\<rparr>"

theorem weighted_shares_exact_witness:
  "int (count_list (fst (run_at (\<lambda>t. Weighted_Pick (\<lambda>_ _. None) demo_ctx ''p'' ''m'' t
        [Some (demo_weighted ''a'' ''3''), Some (demo_weighted ''b'' ''1'')]) [5, 6, 7, 8] \<lparr>wrr_states = [], wrr_maxKeys = 0\<rparr>))
     (Inr (demo_weighted ''a'' ''3''))) = 3"
proof -
  let ?as = "[demo_weighted ''a'' ''3'', demo_weighted ''b'' ''1'']"
  let ?c = "[Some (demo_weighted ''a'' ''3''), Some (demo_weighted ''b'' ''1'')]"
  have w: "authWeight (Some (demo_weighted ''a'' ''3'')) = 3" "authWeight (Some (demo_weighted ''b'' ''1'')) = 1" by code_simp+
  then have 1: "pool ?as" by (simp add: pool_def weight_Max_def) (simp add: demo_weighted_def)
  have 2: "?as = preferCodexWebsocketAuths demo_ctx ''p'' ?as" by (simp add: preferCodexWebsocketAuths_def demo_ctx_def)
  have "list_all (\<lambda>t. case getAvailableAuths (\<lambda>_ _. None) (positiveWeightAuths ?c) ''p'' ''m'' t of
      Inl _ \<Rightarrow> False | Inr x \<Rightarrow> x = ?as) [5, 6, 7, 8]" by code_simp
  then have 3: "\<forall>t \<in> set [5, 6, 7, 8]. getAvailableAuths (\<lambda>_ _. None) (positiveWeightAuths ?c) ''p'' ''m'' t = Inr ?as"
    by (auto split: sum.splits)
  have 4: "int (length [5, 6, 7, 8 :: time]) = total_weight ?as" by (simp add: total_weight_def w)
  have 5: "credits_for (weighted_key (\<lambda>_ _. None) demo_ctx ''p'' ''m'') ?as \<lparr>wrr_states = [], wrr_maxKeys = 0\<rparr> []"
    by (simp add: credits_for_def)
  have 6: "wf_map []" "\<forall>a \<in> set ?as. credit [] a = 0" "demo_weighted ''a'' ''3'' \<in> set ?as" by (simp_all add: map_get0_def)
  show ?thesis unfolding w(1) [symmetric] by (rule weighted_shares_exact [OF 1 2 3 4 5 6, THEN conjunct1])
qed

section \<open>The round-robin selector\<close>

abbreviation rr_key :: "model_lookup \<Rightarrow> string \<Rightarrow> string \<Rightarrow> string" where
  "rr_key lookup provider model \<equiv> provider @ '':'' @ canonicalModelKey lookup model"

lemma rr_step:
  assumes avail: "getAvailableAuths lookup auths provider model now = Inr avail"
    and as: "as = preferCodexWebsocketAuths ctx provider avail" and key: "key = rr_key lookup provider model"
    and c: "map_get0 (rr_cursors s) key = int c" "c < 2147483640"
  shows "fst (RoundRobin_Pick lookup ctx provider model now auths s) = Inr (as ! (c mod length as))"
    and "map_get0 (rr_cursors (snd (RoundRobin_Pick lookup ctx provider model now auths s))) key = int (Suc c)"
proof -
  define s1 where "s1 = ensureCursorKey key (selector_limit (rr_maxKeys s)) s"
  have k: "(case mget (rr_cursors s1) key of None \<Rightarrow> 0 | Some i \<Rightarrow> i) = int c"
    using c(1) by (auto simp: s1_def ensureCursorKey_def map_get0_def split: option.splits if_splits)
  have "RoundRobin_Pick lookup ctx provider model now auths s =
      (Inr (as ! nat (int c mod int (length as))), s1\<lparr>rr_cursors := mput key (int c + 1) (rr_cursors s1)\<rparr>)"
    unfolding RoundRobin_Pick_def avail sum.case Let_def as [symmetric] key [symmetric] s1_def [symmetric] k
    using c(2) by simp
  then show "fst (RoundRobin_Pick lookup ctx provider model now auths s) = Inr (as ! (c mod length as))"
    "map_get0 (rr_cursors (snd (RoundRobin_Pick lookup ctx provider model now auths s))) key = int (Suc c)"
    by (simp_all add: nat_mod_as_int [symmetric] of_nat_mod [symmetric])
qed

lemma rr_run:
  assumes as: "as = preferCodexWebsocketAuths ctx provider avail" and key: "key = rr_key lookup provider model"
    and c: "map_get0 (rr_cursors s) key = int c"
    and ts: "\<forall>t \<in> set ts. getAvailableAuths lookup auths provider model t = Inr avail" "c + length ts \<le> 2147483640"
  shows "fst (run_at (\<lambda>t. RoundRobin_Pick lookup ctx provider model t auths) ts s) =
           map (\<lambda>i. Inr (as ! ((c + i) mod length as))) [0..<length ts] \<and>
         map_get0 (rr_cursors (snd (run_at (\<lambda>t. RoundRobin_Pick lookup ctx provider model t auths) ts s))) key = int (c + length ts)"
  using ts
proof (induction ts rule: rev_induct)
  case (snoc t ts)
  let ?r = "run_at (\<lambda>t. RoundRobin_Pick lookup ctx provider model t auths) ts s"
  from snoc have ih: "fst ?r = map (\<lambda>i. Inr (as ! ((c + i) mod length as))) [0..<length ts]"
    "map_get0 (rr_cursors (snd ?r)) key = int (c + length ts)" by auto
  have "getAvailableAuths lookup auths provider model t = Inr avail" "c + length ts < 2147483640" using snoc.prems by auto
  from rr_step [OF this(1) as key ih(2) this(2)] ih(1) show ?case by (simp add: run_at_snoc case_prod_beta)
qed (use c in simp)

text \<open>C25: Round robin goes round: while the same credentials are available, as many selections as
  there are credentials return each of them once, in the order of their ids from where the cursor
  stands.\<close>

theorem round_robin_visits_all:
  assumes "as = preferCodexWebsocketAuths ctx provider avail" and "map_get0 (rr_cursors s) (rr_key lookup provider model) = int c"
    and "\<forall>t \<in> set ts. getAvailableAuths lookup auths provider model t = Inr avail"
    and "length ts = length as" and "c + length as \<le> 2147483640"
  shows "fst (run_at (\<lambda>t. RoundRobin_Pick lookup ctx provider model t auths) ts s) = map Inr (rotate c as)"
  using rr_run [OF assms(1) refl assms(2,3)] assms(4,5)
  by (auto intro!: nth_equalityI simp: nth_rotate add.commute)

theorem round_robin_visits_all_witness:
  "map (map_sum id auth_ID) (fst (run_at (\<lambda>t. RoundRobin_Pick (\<lambda>_ _. None) demo_ctx ''p'' ''m'' t demo_candidates) [10, 11]
      \<lparr>rr_cursors = [(''p:m'', 7)], rr_maxKeys = 0\<rparr>)) = [Inr ''c'', Inr ''b'']"
proof -
  let ?as = "[demo_auth ''b'' ''1'', demo_auth ''c'' ''1'']"
  have 1: "?as = preferCodexWebsocketAuths demo_ctx ''p'' ?as" by (simp add: preferCodexWebsocketAuths_def demo_ctx_def)
  have 2: "map_get0 (rr_cursors \<lparr>rr_cursors = [(''p:m'', 7)], rr_maxKeys = 0\<rparr>) (rr_key (\<lambda>_ _. None) ''p'' ''m'') = int 7"
    by code_simp
  have "list_all (\<lambda>t. case getAvailableAuths (\<lambda>_ _. None) demo_candidates ''p'' ''m'' t of
      Inl _ \<Rightarrow> False | Inr x \<Rightarrow> x = ?as) [10, 11]" by code_simp
  then have 3: "\<forall>t \<in> set [10, 11]. getAvailableAuths (\<lambda>_ _. None) demo_candidates ''p'' ''m'' t = Inr ?as"
    by (auto split: sum.splits)
  have "rotate 7 ?as = [demo_auth ''c'' ''1'', demo_auth ''b'' ''1'']" by code_simp
  then have 4: "fst (run_at (\<lambda>t. RoundRobin_Pick (\<lambda>_ _. None) demo_ctx ''p'' ''m'' t demo_candidates) [10, 11]
      \<lparr>rr_cursors = [(''p:m'', 7)], rr_maxKeys = 0\<rparr>) = map Inr [demo_auth ''c'' ''1'', demo_auth ''b'' ''1'']"
    using round_robin_visits_all [OF 1 2 3] by (simp del: run_at.simps)
  show ?thesis unfolding 4 by (simp add: demo_auth_def)
qed

end
