(* ===== verification/Session_Affinity.thy ===== *)
theory Session_Affinity
  imports Selector_Contract Session_Cache
begin

text \<open>
  The session-affinity selector of \<^verbatim>\<open>sdk/cliproxy/auth/selector.go\<close>: it binds a session to
  the credential that served it, over a fallback selector and the session cache.

  The fallback is the argument \<open>fallback\<close>, any selector; \<open>weighted\<close> says whether it is the
  weighted one. The session identifiers that \<open>extractSessionIDs\<close> reads from the request are the
  arguments \<open>primaryID\<close> and \<open>fallbackID\<close>. \<open>clk i\<close> is the \<open>i\<close>-th reading of the clock
  during the call.
\<close>

section \<open>Model\<close>

definition NewSessionAffinitySelectorWithConfig :: "duration \<Rightarrow> session_cache" where
  "NewSessionAffinitySelectorWithConfig ttl = NewSessionCache (if ttl \<le> 0 then Hour else ttl)"

definition session_key :: "string \<Rightarrow> string \<Rightarrow> string \<Rightarrow> string" where
  "session_key provider sid model = provider @ ''::'' @ sid @ ''::'' @ model"

text \<open>The closure \<open>bind\<close>; an empty \<open>fallbackKey\<close> means none.\<close>

definition bind_session :: "time \<Rightarrow> string \<Rightarrow> string \<Rightarrow> string \<Rightarrow> session_cache \<Rightarrow> session_cache" where
  "bind_session now cacheKey fallbackKey authID cache =
     (if fallbackKey \<noteq> [] then SetAliases now authID [cacheKey, fallbackKey] cache
      else session_Set now cacheKey authID cache)"

text \<open>Selecting through the fallback, and binding the session to the result.\<close>

definition reselect ::
  "'s picker \<Rightarrow> (nat \<Rightarrow> time) \<Rightarrow> pick_ctx \<Rightarrow> string \<Rightarrow> string \<Rightarrow> string \<Rightarrow> string \<Rightarrow> auth list \<Rightarrow>
   session_cache \<times> 's \<Rightarrow> (pick_error + auth) \<times> session_cache \<times> 's" where
  "reselect fallback clk ctx provider model cacheKey fallbackKey fallbackAuths st =
     (case fallback ctx provider model (clk 4) (map Some fallbackAuths) (snd st) of
        (Inl err, s') \<Rightarrow> (Inl err, (fst st, s'))
      | (Inr a, s') \<Rightarrow> (Inr a, (bind_session (clk 5) cacheKey fallbackKey (auth_ID a) (fst st), s')))"

definition SessionAffinity_Pick ::
  "'s picker \<Rightarrow> bool \<Rightarrow> model_lookup \<Rightarrow> (nat \<Rightarrow> time) \<Rightarrow> pick_ctx \<Rightarrow> string \<Rightarrow> string \<Rightarrow> string \<Rightarrow> string \<Rightarrow>
   auth option list \<Rightarrow> session_cache \<times> 's \<Rightarrow> (pick_error + auth) \<times> session_cache \<times> 's" where
  "SessionAffinity_Pick fallback weighted lookup clk ctx primaryID fallbackID provider model auths st =
     (let now = clk 0;
          availabilityCandidates = (if weighted then positiveWeightAuths auths else auths)
      in if primaryID = [] then
           (case getAvailableAuths lookup availabilityCandidates provider model now of
              Inl err \<Rightarrow> (Inl err, st)
            | Inr fallbackAuths \<Rightarrow>
                (case fallback ctx provider model (clk 4) (map Some fallbackAuths) (snd st) of
                   (r, s') \<Rightarrow> (r, (fst st, s'))))
         else
           (case getAvailableAuthsAcrossPriorities lookup availabilityCandidates provider model now of
              Inl err \<Rightarrow> (Inl err, st)
            | Inr available \<Rightarrow>
                let fallbackAuths = highestPriorityAuths available;
                    cacheKey = session_key provider primaryID model;
                    fallbackKey = (if fallbackID \<noteq> [] \<and> fallbackID \<noteq> primaryID
                                   then session_key provider fallbackID model else [])
                in (case GetAndRefresh (clk 1) cacheKey (fst st) of
                      (Some cachedAuthID, cache1) \<Rightarrow>
                        (case List.find (\<lambda>a. auth_ID a = cachedAuthID) available of
                           Some a \<Rightarrow> (Inr a, (bind_session (clk 5) cacheKey fallbackKey (auth_ID a) cache1, snd st))
                         | None \<Rightarrow> reselect fallback clk ctx provider model cacheKey fallbackKey fallbackAuths (cache1, snd st))
                    | (None, cache1) \<Rightarrow>
                        if fallbackKey \<noteq> [] then
                          (case session_Get (clk 2) (clk 3) fallbackKey cache1 of
                             (Some cachedAuthID, cache2) \<Rightarrow>
                               (case List.find (\<lambda>a. auth_ID a = cachedAuthID) available of
                                  Some a \<Rightarrow> (Inr a, (bind_session (clk 5) cacheKey fallbackKey (auth_ID a) cache2, snd st))
                                | None \<Rightarrow> reselect fallback clk ctx provider model cacheKey fallbackKey fallbackAuths (cache2, snd st))
                           | (None, cache2) \<Rightarrow>
                               reselect fallback clk ctx provider model cacheKey fallbackKey fallbackAuths (cache2, snd st))
                        else reselect fallback clk ctx provider model cacheKey fallbackKey fallbackAuths (cache1, snd st))))"

section \<open>All tiers, and the highest\<close>

lemma concat_buckets:
  assumes "wf_map B"
  shows "a \<in> set (concat (map snd B)) \<longleftrightarrow> (\<exists>p. a \<in> set (bucket_of B p))"
proof
  assume "a \<in> set (concat (map snd B))"
  then obtain p b where "(p, b) \<in> set B" "a \<in> set b" by auto
  then have "a \<in> set (bucket_of B p)" using mget_in_set [OF assms, of p b] by (simp add: bucket_of_def)
  then show "\<exists>p. a \<in> set (bucket_of B p)" ..
next
  assume "\<exists>p. a \<in> set (bucket_of B p)"
  then obtain p where "a \<in> set (bucket_of B p)" ..
  then obtain b where "mget B p = Some b" "a \<in> set b" by (cases "mget B p") (auto simp: bucket_of_def)
  then show "a \<in> set (concat (map snd B))" by (force dest: map_of_SomeD)
qed

lemma across_Inr:
  assumes "0 \<le> now" and "getAvailableAuthsAcrossPriorities lookup auths provider model now = Inr as"
  shows "set as = set (unblocked lookup model now auths)"
proof -
  obtain B n e where acc: "collectAvailableByPriority lookup auths model now = (B, n, e)" by (metis prod_cases3)
  from collect_ok [OF assms(1), of lookup model auths] have
    B: "wf_map B" "\<And>p. bucket_of B p = filter (\<lambda>a. prio a = p) (unblocked lookup model now auths)"
    by (simp_all add: acc collect_inv_def)
  have "as = sort_key auth_ID (concat (map snd B))"
    using assms(2) by (auto simp: getAvailableAuthsAcrossPriorities_def getAvailableAuthsWithPriorityMode_def acc
        availableAuthsFromPriorityBuckets_def Let_def split: if_splits)
  then show ?thesis using concat_buckets [OF B(1)] by (auto simp: B(2))
qed

lemma highest_fold:
  assumes "fold highest_step as (0, 0) = (b, n)"
  shows "(n = 0 \<longleftrightarrow> as = []) \<and> (\<forall>a \<in> set as. prio a \<le> b) \<and> (as \<noteq> [] \<longrightarrow> n = length (filter (\<lambda>a. prio a = b) as))"
  using assms
proof (induction as arbitrary: b n rule: rev_induct)
  case (snoc a as)
  obtain b0 n0 where f: "fold highest_step as (0, 0) = (b0, n0)" by fastforce
  have old: "filter (\<lambda>x. prio x = prio a) as = []" if "b0 < prio a"
    using snoc.IH [OF f] that by (force simp: filter_empty_conv)
  have "(b, n) = highest_step a (b0, n0)" using snoc.prems f by simp
  with snoc.IH [OF f] old show ?case
    by (auto simp: highest_step_def Let_def split: if_splits)
qed simp

lemma highestPriorityAuths_top: "highestPriorityAuths as = top_tier as"
proof -
  consider "as = []" | a where "as = [a]" | "length as > 1" by (cases as rule: remdups_adj.cases) auto
  then show ?thesis
  proof cases
    case 3
    obtain b n where f: "fold highest_step as (0, 0) = (b, n)" by fastforce
    note h = highest_fold [OF f]
    have n: "n = length (filter (\<lambda>a. prio a = b) as)" "n \<noteq> 0" using h 3 by auto
    then obtain x where x: "x \<in> set as" "prio x = b" by (auto simp: filter_empty_conv)
    have top: "filter (\<lambda>a. prio a = b) as = top_tier as"
      unfolding top_tier_def using h x by (intro filter_cong) (auto intro: antisym)
    have "filter (\<lambda>a. prio a = b) as = as" if "n = length as"
      using that n(1) by (metis length_filter_less filter_True less_irrefl)
    with 3 f top show ?thesis by (auto simp: highestPriorityAuths_def)
  qed (simp_all add: highestPriorityAuths_def top_tier_def)
qed

lemma across_isl:
  assumes "0 \<le> now"
  shows "isl (getAvailableAuthsAcrossPriorities lookup auths provider model now) \<longleftrightarrow> unblocked lookup model now auths = []"
proof -
  have "isl (getAvailableAuthsAcrossPriorities lookup auths provider model now) \<longleftrightarrow>
      isl (getAvailableAuths lookup auths provider model now)"
    by (auto simp: getAvailableAuthsAcrossPriorities_def getAvailableAuths_def getAvailableAuthsWithPriorityMode_def Let_def
        split: prod.splits)
  then show ?thesis by (simp add: available_isl [OF assms] unblocked_Nil)
qed

text \<open>Without a change a credential does not become blocked as time passes.\<close>

lemma state_block_acc: "fst acc \<Longrightarrow> matched \<Longrightarrow> fst (state_block lookup key now L matched acc)"
proof (induction lookup key now L matched acc rule: state_block.induct)
  case (3 lookup key now m st rest matched acc)
  then show ?case by (auto split: prod.splits)
qed auto

lemma availability_mono: "0 \<le> now \<Longrightarrow> now \<le> t \<Longrightarrow> \<not> fst (availabilityBlock u q r c now) \<Longrightarrow> availabilityBlock u q r c t = not_blocked"
  by (auto simp: availabilityBlock_eq block_until_def split: if_splits)

lemma state_block_mono:
  assumes "0 \<le> now" "now \<le> t"
  shows "\<not> fst (state_block lookup key now L matched acc) \<Longrightarrow> \<not> fst acc \<Longrightarrow> \<not> fst (state_block lookup key t L matched acc)"
proof (induction L arbitrary: matched)
  case (Cons e L)
  obtain m x where e: "e = (m, x)" by fastforce
  show ?case
  proof (cases "x \<noteq> None \<and> canonicalModelKey lookup m = key")
    case False
    then show ?thesis using Cons by (cases x) (auto simp: e)
  next
    case True
    then obtain st where x: "x = Some st" by blast
    have "\<not> fst (state_availability st now)"
      using Cons.prems True state_block_acc [of "(True, _, _)" True] by (auto simp: e x split: prod.splits if_splits)
    then have "state_availability st t = not_blocked" "\<not> fst (state_block lookup key now L True acc)" "ms_Status st \<noteq> StatusDisabled"
      using availability_mono [OF assms] Cons.prems True
      by (auto simp: state_availability_def e x split: prod.splits if_splits)
    with Cons.IH [of True] Cons.prems(2) True show ?thesis by (auto simp: e x)
  qed
qed simp

lemma unblocked_later:
  "0 \<le> now \<Longrightarrow> now \<le> t \<Longrightarrow> a \<in> set (unblocked lookup model now auths) \<Longrightarrow> a \<in> set (unblocked lookup model t auths)"
  using state_block_mono [of now t] availability_mono [of now t]
  by (auto simp: unblocked_mem isAuthBlockedForModel_def split: if_splits)

lemma top_tier_set: "set as = set bs \<Longrightarrow> set (top_tier as) = set (top_tier bs)"
  by (auto simp: top_tier_def)

section \<open>What the session-affinity selector chooses\<close>

context selector
begin

text \<open>The fallback on credentials that were available at an earlier moment of the call.\<close>

lemma pick_from:
  assumes "0 \<le> now" "now \<le> t" and "as \<noteq> []" and "\<forall>a \<in> set as. considers (Some a)"
    and "set as \<subseteq> set (unblocked lookup model now auths)"
  shows "\<exists>a \<in> set as. fst (pick ctx provider model t (map Some as) s) = Inr a"
proof -
  have t: "0 \<le> t" using assms by simp
  have f: "filter considers (map Some as) = map Some as" using assms(4) by (auto simp: filter_id_conv)
  have "\<forall>a \<in> set as. a \<in> set (unblocked lookup model t (map Some as))"
  proof
    fix a assume a: "a \<in> set as"
    then have "a \<in> set (unblocked lookup model t auths)" using assms(5) unblocked_later [OF assms(1,2)] by blast
    with a show "a \<in> set (unblocked lookup model t (map Some as))" by (simp add: unblocked_mem)
  qed
  then have "unblocked lookup model t (filter considers (map Some as)) \<noteq> []" using assms(3) unfolding f by force
  then obtain a where "fst (pick ctx provider model t (map Some as) s) = Inr a" using pick_some [OF t] by blast
  with pick_candidate [OF t this] show ?thesis by auto
qed

lemma reselect_from:
  assumes "0 \<le> clk 0" "clk 0 \<le> clk 4" and "as \<noteq> []" and "\<forall>a \<in> set as. considers (Some a)"
    and "set as \<subseteq> set (unblocked lookup model (clk 0) auths)"
  shows "\<exists>a \<in> set as. fst (reselect pick clk ctx provider model k fk as st) = Inr a \<and>
     fst (snd (reselect pick clk ctx provider model k fk as st)) = bind_session (clk 5) k fk (auth_ID a) (fst st)"
  using pick_from [OF assms, of ctx provider "snd st"] by (auto simp: reselect_def split: prod.splits sum.splits)

end

declare One_nat_def [simp del]

text \<open>The credential a session is bound to, as the call finds it.\<close>

definition bound_to :: "(nat \<Rightarrow> time) \<Rightarrow> string \<Rightarrow> string \<Rightarrow> session_cache \<Rightarrow> string option" where
  "bound_to clk cacheKey fallbackKey cache =
     (case GetAndRefresh (clk 1) cacheKey cache of
        (Some i, _) \<Rightarrow> Some i
      | (None, cache1) \<Rightarrow> if fallbackKey = [] then None else fst (session_Get (clk 2) (clk 3) fallbackKey cache1))"

definition affinity_fallback_key :: "string \<Rightarrow> string \<Rightarrow> string \<Rightarrow> string \<Rightarrow> string" where
  "affinity_fallback_key provider primaryID fallbackID model =
     (if fallbackID \<noteq> [] \<and> fallbackID \<noteq> primaryID then session_key provider fallbackID model else [])"

lemma affinity_cases:
  assumes "primaryID \<noteq> []"
    and "getAvailableAuthsAcrossPriorities lookup (if weighted then positiveWeightAuths auths else auths) provider model (clk 0) = Inr available"
    and k_def: "k = session_key provider primaryID model"
    and fk_def: "fk = affinity_fallback_key provider primaryID fallbackID model"
  obtains cache a where "bound_to clk k fk (fst st) = Some (auth_ID a)" "a \<in> set available"
    "sc_ttl cache = sc_ttl (fst st)" "session_inv (fst st) \<Longrightarrow> session_inv cache"
    "SessionAffinity_Pick fallback weighted lookup clk ctx primaryID fallbackID provider model auths st =
       (Inr a, (bind_session (clk 5) k fk (auth_ID a) cache, snd st))"
  | cache where "\<And>a. a \<in> set available \<Longrightarrow> bound_to clk k fk (fst st) \<noteq> Some (auth_ID a)"
    "sc_ttl cache = sc_ttl (fst st)" "session_inv (fst st) \<Longrightarrow> session_inv cache"
    "SessionAffinity_Pick fallback weighted lookup clk ctx primaryID fallbackID provider model auths st =
       reselect fallback clk ctx provider model k fk (highestPriorityAuths available) (cache, snd st)"
proof -
  obtain r1 cache1 where g: "GetAndRefresh (clk 1) k (fst st) = (r1, cache1)" by fastforce
  obtain r2 cache2 where g2: "session_Get (clk 2) (clk 3) fk cache1 = (r2, cache2)" by fastforce
  have c1: "sc_ttl cache1 = sc_ttl (fst st)" "session_inv (fst st) \<Longrightarrow> session_inv cache1"
    using ttl_ops(2) [of "clk 1" k "fst st"] inv_GetAndRefresh [of "fst st" "clk 1" k] by (auto simp: g)
  have c2: "sc_ttl cache2 = sc_ttl (fst st)" "session_inv (fst st) \<Longrightarrow> session_inv cache2"
    using ttl_ops(3) [of "clk 2" "clk 3" fk cache1] inv_session_Get [of cache1 "clk 2" "clk 3" fk] c1 by (auto simp: g2)
  define cache where "cache = (if r1 \<noteq> None \<or> fk = [] then cache1 else cache2)"
  have b: "bound_to clk k fk (fst st) = (if r1 \<noteq> None then r1 else if fk = [] then None else r2)"
    by (auto simp: bound_to_def g g2 split: option.splits)
  have c: "sc_ttl cache = sc_ttl (fst st)" "session_inv (fst st) \<Longrightarrow> session_inv cache"
    using c1 c2 by (auto simp: cache_def)
  let ?find = "case bound_to clk k fk (fst st) of None \<Rightarrow> None | Some i \<Rightarrow> List.find (\<lambda>a. auth_ID a = i) available"
  have P: "SessionAffinity_Pick fallback weighted lookup clk ctx primaryID fallbackID provider model auths st =
      (case ?find of
         Some a \<Rightarrow> (Inr a, (bind_session (clk 5) k fk (auth_ID a) cache, snd st))
       | None \<Rightarrow> reselect fallback clk ctx provider model k fk (highestPriorityAuths available) (cache, snd st))"
    unfolding SessionAffinity_Pick_def Let_def assms(2) k_def [symmetric] affinity_fallback_key_def [symmetric] fk_def [symmetric]
    using assms(1) by (auto simp: g g2 b cache_def split: option.splits)
  show thesis
  proof (cases ?find)
    case None
    then have "bound_to clk k fk (fst st) \<noteq> Some (auth_ID a)" if "a \<in> set available" for a
      using that by (auto simp: find_None_iff split: option.splits)
    from that(2) [OF this c] P None show thesis by simp
  next
    case (Some a)
    then have "bound_to clk k fk (fst st) = Some (auth_ID a)" "a \<in> set available"
      by (auto simp: find_Some_iff split: option.splits)
    from that(1) [OF this c] P Some show thesis by simp
  qed
qed

lemma considers_candidates:
  "\<forall>c. considers c \<longleftrightarrow> (weighted \<longrightarrow> 0 < authWeight c) \<Longrightarrow>
   (if weighted then positiveWeightAuths auths else auths) = filter considers auths"
  by (auto simp: positiveWeightAuths_def filter_id_conv intro!: filter_cong)

text \<open>C11: Over any fallback that keeps the selector contract, the session-affinity selector returns
  a credential whenever an eligible one is unblocked, and what it returns is eligible and unblocked.
  It is the credential the session is bound to, if that one is available, whatever its priority;
  otherwise it is one of the highest available priority.\<close>

theorem affinity_choice:
  assumes "selector fallback lookup considers" and "\<forall>c. considers c \<longleftrightarrow> (weighted \<longrightarrow> 0 < authWeight c)"
    and "primaryID \<noteq> []" and "0 \<le> clk 0" and "clk 0 \<le> clk 4"
    and "unblocked lookup model (clk 0) (filter considers auths) \<noteq> []"
  shows "\<exists>a \<in> set (unblocked lookup model (clk 0) (filter considers auths)).
     fst (SessionAffinity_Pick fallback weighted lookup clk ctx primaryID fallbackID provider model auths st) = Inr a \<and>
     (let bound = bound_to clk (session_key provider primaryID model)
                    (affinity_fallback_key provider primaryID fallbackID model) (fst st);
          free = unblocked lookup model (clk 0) (filter considers auths)
      in if \<exists>b \<in> set free. bound = Some (auth_ID b) then bound = Some (auth_ID a) else a \<in> set (top_tier free))"
proof -
  let ?free = "unblocked lookup model (clk 0) (filter considers auths)"
  note cand = considers_candidates [OF assms(2), of auths]
  obtain available where av: "getAvailableAuthsAcrossPriorities lookup (filter considers auths) provider model (clk 0) = Inr available"
    using across_isl [OF assms(4), of lookup "filter considers auths" provider model] assms(6)
    by (cases "getAvailableAuthsAcrossPriorities lookup (filter considers auths) provider model (clk 0)") auto
  have set: "set available = set ?free" by (rule across_Inr [OF assms(4) av])
  have cons: "\<forall>a \<in> set ?free. considers (Some a)" by (simp add: unblocked_mem)
  have top: "set (highestPriorityAuths available) = set (top_tier ?free)"
    unfolding highestPriorityAuths_top by (rule top_tier_set [OF set])
  have sub: "set (top_tier ?free) \<subseteq> set ?free" by (auto simp: top_tier_def)
  have ne: "highestPriorityAuths available \<noteq> []" using top top_tier_ne [OF assms(6)] by (metis set_empty)
  show ?thesis
  proof (rule affinity_cases [where clk = clk and st = st and fallback = fallback and ctx = ctx and fallbackID = fallbackID,
        OF assms(3) av [folded cand] refl refl], goal_cases)
    case (1 cache a)
    then show ?thesis using set by (intro bexI [of _ a]) (auto simp: Let_def)
  next
    case (2 cache)
    have "\<exists>a \<in> set (highestPriorityAuths available).
        fst (reselect fallback clk ctx provider model (session_key provider primaryID model)
          (affinity_fallback_key provider primaryID fallbackID model) (highestPriorityAuths available) (cache, snd st)) = Inr a"
      using selector.reselect_from [OF assms(1,4,5) ne, of model "filter considers auths" ctx provider
          "session_key provider primaryID model" "affinity_fallback_key provider primaryID fallbackID model" "(cache, snd st)"]
        cons top sub by blast
    with 2 set top sub show ?thesis by (auto simp: Let_def)
  qed
qed

theorem affinity_choice_witness:
  "\<exists>a. fst (SessionAffinity_Pick (RoundRobin_Pick (\<lambda>_ _. None)) False (\<lambda>_ _. None) (\<lambda>i. 10 + int i)
     \<lparr>ctx_DownstreamWebsocket = False, ctx_weightedSelectorStateModel = None\<rparr> ''s1'' [] ''p'' ''m'' demo_candidates
     (NewSessionCache 100, \<lparr>rr_cursors = [], rr_maxKeys = 0\<rparr>)) = Inr a"
proof -
  have "unblocked (\<lambda>_ _. None) ''m'' 10 (filter (\<lambda>_. True) demo_candidates) \<noteq> []" by code_simp
  then show ?thesis
    using affinity_choice [OF rr.selector_axioms, of False "''s1''" "\<lambda>i. 10 + int i" "\<lambda>_ _. None" "''m''" demo_candidates]
    by fastforce
qed

lemma session_key_ne [simp]: "session_key provider sid model \<noteq> []"
  by (simp add: session_key_def)

lemma bind_session_mget:
  assumes "session_inv c" and "authID \<noteq> []" and "k \<noteq> []"
  obtains as where "mget (sc_entries (bind_session now k fk authID c)) k =
      Some \<lparr>se_authID = authID, se_expiresAt = now + sc_ttl c, se_aliases = as\<rparr>"
proof -
  have "\<exists>ids. bind_session now k fk authID c = SetAliases now authID (k # ids) c"
    by (auto simp: bind_session_def session_Set_def)
  then obtain ids where b: "bind_session now k fk authID c = SetAliases now authID (k # ids) c" ..
  show thesis unfolding b using SetAliases_mget [OF assms(1,2) first_alias_kept [OF assms(3)]] that b by metis
qed

lemma bind_session_inv: "session_inv c \<Longrightarrow> session_inv (bind_session now k fk authID c)"
  by (simp add: bind_session_def session_Set_def inv_SetAliases)

lemma bind_session_ttl [simp]: "sc_ttl (bind_session now k fk authID c) = sc_ttl c"
  by (simp add: bind_session_def session_Set_def)

text \<open>What a successful call leaves behind: the session is bound to the credential it returned.\<close>

lemma affinity_binds:
  assumes "primaryID \<noteq> []" and "session_inv (fst st)"
    and "fst (SessionAffinity_Pick fallback weighted lookup clk ctx primaryID fallbackID provider model auths st) = Inr a"
    and "auth_ID a \<noteq> []"
  obtains as c' where "fst (snd (SessionAffinity_Pick fallback weighted lookup clk ctx primaryID fallbackID provider model auths st)) = c'"
    "session_inv c'"
    "mget (sc_entries c') (session_key provider primaryID model) =
       Some \<lparr>se_authID = auth_ID a, se_expiresAt = clk 5 + sc_ttl (fst st), se_aliases = as\<rparr>"
proof -
  let ?P = "SessionAffinity_Pick fallback weighted lookup clk ctx primaryID fallbackID provider model auths st"
  let ?k = "session_key provider primaryID model" and ?fk = "affinity_fallback_key provider primaryID fallbackID model"
  obtain available where av: "getAvailableAuthsAcrossPriorities lookup (if weighted then positiveWeightAuths auths else auths)
      provider model (clk 0) = Inr available"
    using assms(1,3) by (auto simp: SessionAffinity_Pick_def Let_def split: sum.splits)
  have "\<exists>c. session_inv c \<and> sc_ttl c = sc_ttl (fst st) \<and> fst (snd ?P) = bind_session (clk 5) ?k ?fk (auth_ID a) c"
  proof (rule affinity_cases [where clk = clk and st = st and fallback = fallback and ctx = ctx and fallbackID = fallbackID,
        OF assms(1) av refl refl], goal_cases)
    case (1 cache b)
    then show ?case using assms(2,3) by auto
  next
    case (2 cache)
    then show ?case using assms(2,3) by (auto simp: reselect_def split: prod.splits sum.splits)
  qed
  then obtain c where c: "session_inv c" "sc_ttl c = sc_ttl (fst st)" "fst (snd ?P) = bind_session (clk 5) ?k ?fk (auth_ID a) c" by blast
  obtain as where "mget (sc_entries (fst (snd ?P))) ?k =
      Some \<lparr>se_authID = auth_ID a, se_expiresAt = clk 5 + sc_ttl (fst st), se_aliases = as\<rparr>"
    using bind_session_mget [OF c(1) assms(4) session_key_ne, of "clk 5" provider primaryID model ?fk] unfolding c(2,3) by blast
  with that [OF refl] bind_session_inv [OF c(1)] c(3) show thesis by simp
qed

text \<open>C10: A session stays with its credential: if a request of a session was served by a credential
  and the next request of the session comes before the time to live has passed and finds that
  credential available, then it gets the same credential, also when one of higher priority has
  become available in between.\<close>

theorem affinity_sticky:
  assumes "primaryID \<noteq> []" and "session_inv (fst st)" and "auth_ID a \<noteq> []"
    and "SessionAffinity_Pick fallback weighted lookup clk ctx primaryID fallbackID provider model auths st = (Inr a, st1)"
    and "0 \<le> clk' 0" and "clk' 1 < clk 5 + sc_ttl (fst st)"
    and "a' \<in> set (unblocked lookup model (clk' 0) (if weighted then positiveWeightAuths auths' else auths'))"
    and "auth_ID a' = auth_ID a"
  shows "\<exists>b. fst (SessionAffinity_Pick fallback' weighted lookup clk' ctx' primaryID fallbackID' provider model auths' (fst st1, s')) = Inr b \<and>
     auth_ID b = auth_ID a"
proof -
  let ?c = "if weighted then positiveWeightAuths auths' else auths'"
  obtain as where inv: "session_inv (fst st1)"
    and m: "mget (sc_entries (fst st1)) (session_key provider primaryID model) =
       Some \<lparr>se_authID = auth_ID a, se_expiresAt = clk 5 + sc_ttl (fst st), se_aliases = as\<rparr>"
    using affinity_binds [OF assms(1,2) _ assms(3), of fallback weighted lookup clk ctx fallbackID provider model auths]
    by (auto simp: assms(4))
  obtain available where av: "getAvailableAuthsAcrossPriorities lookup ?c provider model (clk' 0) = Inr available"
    using across_isl [OF assms(5), of lookup ?c provider model] assms(7)
    by (cases "getAvailableAuthsAcrossPriorities lookup ?c provider model (clk' 0)") auto
  have in_av: "a' \<in> set available" using across_Inr [OF assms(5) av] assms(7) by simp
  have "fst (GetAndRefresh (clk' 1) (session_key provider primaryID model) (fst st1)) = Some (auth_ID a)"
    using m assms(6) by (simp add: GetAndRefresh_def)
  then have bound: "bound_to clk' (session_key provider primaryID model) fk (fst (fst st1, s')) = Some (auth_ID a)" for fk
    by (auto simp: bound_to_def split: prod.splits option.splits)
  show ?thesis
  proof (rule affinity_cases [where clk = clk' and st = "(fst st1, s')" and fallback = fallback' and ctx = ctx'
        and fallbackID = fallbackID', OF assms(1) av refl refl], goal_cases)
    case (1 cache b)
    then show ?case using bound by auto
  next
    case (2 cache)
    from 2(1) [OF in_av] bound assms(8) show ?case by simp
  qed
qed

text \<open>At 10 the credential of the highest priority is rate limited and the session gets \<open>b\<close>; at 60 it
  has recovered, and the session keeps \<open>b\<close>.\<close>

definition demo_request :: "(nat \<Rightarrow> time) \<Rightarrow> session_cache \<times> unit \<Rightarrow> (pick_error + auth) \<times> session_cache \<times> unit" where
  "demo_request clk st =
     SessionAffinity_Pick (\<lambda>ctx provider model now auths s. (FillFirst_Pick (\<lambda>_ _. None) ctx provider model now auths, s))
       False (\<lambda>_ _. None) clk \<lparr>ctx_DownstreamWebsocket = False, ctx_weightedSelectorStateModel = None\<rparr> ''s1'' [] ''p'' ''m''
       demo_candidates st"

theorem affinity_sticky_witness:
  "\<exists>b. fst (demo_request (\<lambda>i. 60 + int i) (fst (snd (demo_request (\<lambda>i. 10 + int i) (NewSessionCache 100, ()))), ())) = Inr b \<and>
     auth_ID b = ''b''"
proof -
  let ?st = "(NewSessionCache 100, ())"
  have r: "fst (demo_request (\<lambda>i. 10 + int i) ?st) = Inr (demo_auth ''b'' ''1'')" by code_simp
  then obtain st1 where st1: "demo_request (\<lambda>i. 10 + int i) ?st = (Inr (demo_auth ''b'' ''1''), st1)"
    by (metis fst_conv surj_pair)
  have u: "list_ex (\<lambda>a. a = demo_auth ''b'' ''1'') (unblocked (\<lambda>_ _. None) ''m'' 60 demo_candidates)" by code_simp
  have i: "auth_ID (demo_auth ''b'' ''1'') = ''b''" by code_simp
  have ttl: "sc_ttl (NewSessionCache 100) = 100" by (simp add: NewSessionCache_def)
  from affinity_sticky [OF _ _ _ st1 [unfolded demo_request_def], of "\<lambda>i. 60 + int i" "demo_auth ''b'' ''1''" demo_candidates
      "\<lambda>ctx provider model now auths s. (FillFirst_Pick (\<lambda>_ _. None) ctx provider model now auths, s)"
      "\<lparr>ctx_DownstreamWebsocket = False, ctx_weightedSelectorStateModel = None\<rparr>" "[]" "()"]
    u inv_New [of 100] ttl i
  have "\<exists>b. fst (demo_request (\<lambda>i. 60 + int i) (fst st1, ())) = Inr b \<and> auth_ID b = ''b''"
    by (auto simp: demo_request_def list_ex_iff)
  then show ?thesis by (simp add: st1)
qed

end
