(* ===== verification/Auth_Classify.thy ===== *)
theory Auth_Classify
  imports Auth_State
begin

text \<open>
  What a credential is and which requests may use it: \<^verbatim>\<open>sdk/cliproxy/auth/classification.go\<close>,
  \<^verbatim>\<open>credential_policy.go\<close>, the eligibility of \<^verbatim>\<open>conductor_selection.go\<close>, the
  metadata readers and the executor key of \<^verbatim>\<open>conductor_execution.go\<close>, with the provider key of
  \<^verbatim>\<open>internal/util/provider.go\<close>.
\<close>

section \<open>Kinds and sources\<close>

definition AuthKindAPIKey :: string where "AuthKindAPIKey = ''apikey''"
definition AuthKindOAuth :: string where "AuthKindOAuth = ''oauth''"
definition AuthSourceConfig :: string where "AuthSourceConfig = ''config''"
definition AuthSourceFile :: string where "AuthSourceFile = ''file''"
definition AuthSourceGit :: string where "AuthSourceGit = ''git''"
definition AuthSourceMemory :: string where "AuthSourceMemory = ''memory''"
definition AuthSourceObjectStore :: string where "AuthSourceObjectStore = ''objectstore''"
definition AuthSourcePostgres :: string where "AuthSourcePostgres = ''postgres''"
definition AttributeAPIKey :: string where "AttributeAPIKey = ''api_key''"
definition AttributeAuthKind :: string where "AttributeAuthKind = ''auth_kind''"
definition AttributeCodexAlphaSearch :: string where "AttributeCodexAlphaSearch = ''codex_alpha_search''"
definition AttributePath :: string where "AttributePath = ''path''"
definition AttributeRuntimeOnly :: string where "AttributeRuntimeOnly = ''runtime_only''"
definition AttributeSource :: string where "AttributeSource = ''source''"
definition AttributeSourceBackend :: string where "AttributeSourceBackend = ''source_backend''"

definition attribute_value :: "(string, string) gomap \<Rightarrow> string \<Rightarrow> string" where
  "attribute_value attributes key = (case mget attributes key of None \<Rightarrow> [] | Some s \<Rightarrow> s)"

definition authAttribute :: "auth option \<Rightarrow> string \<Rightarrow> string" where
  "authAttribute auth0 key =
     (case auth0 of None \<Rightarrow> [] | Some a \<Rightarrow> TrimSpace (attribute_value (auth_Attributes a) key))"

definition authMetadataString :: "auth option \<Rightarrow> string \<Rightarrow> string" where
  "authMetadataString auth0 key =
     (case auth0 of
        None \<Rightarrow> []
      | Some a \<Rightarrow> (case mget (auth_Metadata a) key of Some (AnyStr value) \<Rightarrow> TrimSpace value | _ \<Rightarrow> []))"

definition normalizeAuthKind :: "string \<Rightarrow> string" where
  "normalizeAuthKind kind0 =
     (let kind = ToLower (TrimSpace kind0) in
      if kind = AuthKindAPIKey \<or> kind = ''api_key'' \<or> kind = ''api-key'' then AuthKindAPIKey
      else if kind = AuthKindOAuth \<or> kind = ''oauth2'' then AuthKindOAuth
      else [])"

definition normalizeAuthSourceKind :: "string \<Rightarrow> string" where
  "normalizeAuthSourceKind source0 =
     (let source = ToLower (TrimSpace source0) in
      if source = AuthSourceConfig then AuthSourceConfig
      else if source = AuthSourceFile \<or> source = ''filesystem'' then AuthSourceFile
      else if source = AuthSourceGit then AuthSourceGit
      else if source = AuthSourceMemory \<or> source = ''runtime'' \<or> source = ''runtime_only'' then AuthSourceMemory
      else if source = AuthSourceObjectStore \<or> source = ''object-store'' then AuthSourceObjectStore
      else if source = AuthSourcePostgres \<or> source = ''postgresql'' \<or> source = ''database'' \<or> source = ''db''
      then AuthSourcePostgres
      else [])"

definition authHasOAuthMetadata :: "auth option \<Rightarrow> bool" where
  "authHasOAuthMetadata auth0 =
     (case auth0 of
        None \<Rightarrow> False
      | Some a \<Rightarrow>
          if auth_Metadata a = [] then False
          else if list_ex (\<lambda>key. authMetadataString auth0 key \<noteq> [])
                    [''access_token'', ''refresh_token'', ''id_token'', ''email'', ''token_type'', ''expires_at'', ''expired'']
          then True
          else (case mget (auth_Metadata a) ''token'' of Some (AnyMap token) \<Rightarrow> token \<noteq> [] | _ \<Rightarrow> False))"

definition AuthKind :: "auth option \<Rightarrow> string" where
  "AuthKind auth0 =
     (if auth0 = None then []
      else if normalizeAuthKind (authAttribute auth0 AttributeAuthKind) \<noteq> []
      then normalizeAuthKind (authAttribute auth0 AttributeAuthKind)
      else if normalizeAuthKind (authMetadataString auth0 AttributeAuthKind) \<noteq> []
      then normalizeAuthKind (authMetadataString auth0 AttributeAuthKind)
      else if authAttribute auth0 AttributeAPIKey \<noteq> [] then AuthKindAPIKey
      else if authHasOAuthMetadata auth0 then AuthKindOAuth
      else [])"

definition AuthSourceKind :: "auth option \<Rightarrow> string" where
  "AuthSourceKind auth0 =
     (case auth0 of
        None \<Rightarrow> []
      | Some a \<Rightarrow>
          if EqualFold (authAttribute auth0 AttributeRuntimeOnly) ''true'' then AuthSourceMemory
          else if normalizeAuthSourceKind (authAttribute auth0 AttributeSourceBackend) \<noteq> []
          then normalizeAuthSourceKind (authAttribute auth0 AttributeSourceBackend)
          else
            let source = authAttribute auth0 AttributeSource in
            if source \<noteq> [] then
              if HasPrefix (ToLower source) (AuthSourceConfig @ '':'') then AuthSourceConfig
              else if normalizeAuthSourceKind source \<noteq> [] then normalizeAuthSourceKind source
              else AuthSourceFile
            else if authAttribute auth0 AttributePath \<noteq> [] then AuthSourceFile
            else if TrimSpace (auth_FileName a) \<noteq> [] then AuthSourceFile
            else [])"

section \<open>Eligibility of a request\<close>

definition CredentialPolicyCodexAlphaSearchV1 :: string where
  "CredentialPolicyCodexAlphaSearchV1 = ''codex_alpha_search_v1''"

definition normalizeCredentialPolicy :: "string \<Rightarrow> string" where
  "normalizeCredentialPolicy policy =
     (if ToLower (TrimSpace policy) = CredentialPolicyCodexAlphaSearchV1 then CredentialPolicyCodexAlphaSearchV1 else [])"

definition credentialPolicyAllows :: "string \<Rightarrow> auth option \<Rightarrow> bool" where
  "credentialPolicyAllows policy auth0 =
     (case auth0 of
        None \<Rightarrow> False
      | Some a \<Rightarrow>
          if policy = CredentialPolicyCodexAlphaSearchV1 then
            if \<not> EqualFold (TrimSpace (auth_Provider a)) ''codex'' then False
            else if AuthKind auth0 = AuthKindOAuth then True
            else if AuthKind auth0 = AuthKindAPIKey then EqualFold (authAttribute auth0 AttributeCodexAlphaSearch) ''true''
            else False
          else False)"

definition isFreeCodexAuth :: "auth option \<Rightarrow> bool" where
  "isFreeCodexAuth auth0 =
     (case auth0 of
        None \<Rightarrow> False
      | Some a \<Rightarrow>
          if \<not> EqualFold (TrimSpace (auth_Provider a)) ''codex'' then False
          else EqualFold (TrimSpace (attribute_value (auth_Attributes a) ''plan_type'')) ''free'')"

definition pinnedAuthIDFromMetadata :: "(string, any) gomap \<Rightarrow> string" where
  "pinnedAuthIDFromMetadata meta =
     (case mget meta ''pinned_auth_id'' of
        Some (AnyStr val) \<Rightarrow> TrimSpace val
      | Some (AnyBytes val) \<Rightarrow> TrimSpace val
      | _ \<Rightarrow> [])"

definition disallowFreeAuthFromMetadata :: "(string, any) gomap \<Rightarrow> bool" where
  "disallowFreeAuthFromMetadata meta =
     (case mget meta ''disallow_free_auth'' of
        Some (AnyBool val) \<Rightarrow> val
      | Some (AnyStr val) \<Rightarrow> ParseBool (TrimSpace val) = Some True
      | Some (AnyBytes val) \<Rightarrow> ParseBool (TrimSpace val) = Some True
      | _ \<Rightarrow> False)"

record auth_selection_eligibility =
  el_requiredKind :: string
  el_credentialPolicy :: string
  el_disallowFreeAuth :: bool

text \<open>What a request carries: the values of its context and the metadata of its options.\<close>

record pick_request =
  rq_DownstreamWebsocket :: bool
  rq_requiredKind :: string
  rq_credentialPolicy :: string
  rq_Metadata :: "(string, any) gomap"

definition authSelectionEligibilityForRequest :: "pick_request \<Rightarrow> auth_selection_eligibility" where
  "authSelectionEligibilityForRequest rq =
     \<lparr>el_requiredKind = rq_requiredKind rq, el_credentialPolicy = rq_credentialPolicy rq,
      el_disallowFreeAuth = disallowFreeAuthFromMetadata (rq_Metadata rq)\<rparr>"

definition allows :: "auth_selection_eligibility \<Rightarrow> auth option \<Rightarrow> bool" where
  "allows e auth0 =
     (if auth0 = None then False
      else if el_requiredKind e \<noteq> [] \<and> AuthKind auth0 \<noteq> el_requiredKind e then False
      else if el_credentialPolicy e \<noteq> [] \<and> \<not> credentialPolicyAllows (el_credentialPolicy e) auth0 then False
      else \<not> el_disallowFreeAuth e \<or> \<not> isFreeCodexAuth auth0)"

section \<open>Provider keys\<close>

definition openAICompatibleProviderPrefix :: string where
  "openAICompatibleProviderPrefix = ''openai-compatible-''"

definition OpenAICompatibleProviderKey :: "string \<Rightarrow> string" where
  "OpenAICompatibleProviderKey name0 =
     (let name = Join (Fields (ToLower (TrimSpace name0))) ''-'' in
      if name = [] \<or> name = ''openai-compatibility'' \<or> HasPrefix name openAICompatibleProviderPrefix
      then (if name = [] then ''openai-compatibility'' else name)
      else openAICompatibleProviderPrefix @ name)"

definition executorKeyFromAuth :: "auth option \<Rightarrow> string" where
  "executorKeyFromAuth auth0 =
     (case auth0 of
        None \<Rightarrow> []
      | Some a \<Rightarrow>
          let providerKey = TrimSpace (attribute_value (auth_Attributes a) ''provider_key'');
              compatName = TrimSpace (attribute_value (auth_Attributes a) ''compat_name'')
          in if compatName \<noteq> []
             then OpenAICompatibleProviderKey (if providerKey = [] then compatName else providerKey)
             else if EqualFold (TrimSpace (auth_Provider a)) ''openai-compatibility''
             then OpenAICompatibleProviderKey
                    (if TrimSpace (auth_Label a) = [] then ''openai-compatibility'' else TrimSpace (auth_Label a))
             else ToLower (TrimSpace (auth_Provider a)))"

section \<open>Lemmas\<close>

lemma Fields_no_space: "w \<in> set (Fields s) \<Longrightarrow> w \<noteq> [] \<and> (\<forall>c \<in> set w. \<not> is_space c)"
proof (induction s rule: Fields.induct)
  case (1 s)
  define t where "t = dropWhile is_space s"
  show ?case
  proof (cases "t = []")
    case True
    with 1 show ?thesis by (simp add: Fields.simps [of s] t_def)
  next
    case False
    then have "\<not> is_space (hd t)" unfolding t_def by (rule hd_dropWhile)
    with False have "takeWhile (\<lambda>c. \<not> is_space c) t \<noteq> []" by (cases t) auto
    moreover have "w = takeWhile (\<lambda>c. \<not> is_space c) t \<or> w \<in> set (Fields (dropWhile (\<lambda>c. \<not> is_space c) t))"
      using 1(2) False by (simp add: Fields.simps [of s] t_def [symmetric])
    ultimately show ?thesis using 1(1) [OF t_def False] set_takeWhileD by fastforce
  qed
qed

lemma Fields_spaceless: "\<forall>c \<in> set s. \<not> is_space c \<Longrightarrow> Fields s = (if s = [] then [] else [s])"
proof -
  assume s: "\<forall>c \<in> set s. \<not> is_space c"
  then have "dropWhile is_space s = s" by (cases s) auto
  moreover have "takeWhile (\<lambda>c. \<not> is_space c) s = s" and "Fields (dropWhile (\<lambda>c. \<not> is_space c) s) = []"
    using s by (auto simp: takeWhile_eq_all_conv dropWhile_eq_Nil_conv [THEN iffD2] Fields.simps [of "[]"])
  ultimately show ?thesis by (simp add: Fields.simps [of s])
qed

lemma Join_spaceless:
  "\<forall>w \<in> set ws. \<forall>c \<in> set w. \<not> is_space c \<Longrightarrow> \<forall>c \<in> set sep. \<not> is_space c \<Longrightarrow> \<forall>c \<in> set (Join ws sep). \<not> is_space c"
  by (induction ws sep rule: Join.induct) auto

lemma Join_lower: "\<forall>w \<in> set ws. ToLower w = w \<Longrightarrow> ToLower sep = sep \<Longrightarrow> ToLower (Join ws sep) = Join ws sep"
  by (induction ws sep rule: Join.induct) (auto simp: ToLower_append)

lemma spaceless_trimmed: "\<forall>c \<in> set s. \<not> is_space c \<Longrightarrow> trimmed s"
  by (cases s) (auto simp: trimmed_def)

lemma ToLower_char: "c \<in> set (ToLower s) \<Longrightarrow> lower_char c = c"
  by (auto simp: ToLower_def)

lemma Fields_sub: "w \<in> set (Fields s) \<Longrightarrow> set w \<subseteq> set s"
proof (induction s rule: Fields.induct)
  case (1 s)
  then show ?case
    by (fastforce simp: Fields.simps [of s] Let_def split: if_splits dest: set_takeWhileD set_dropWhileD)
qed

text \<open>A normalized name: lower case and without spaces.\<close>

definition plain_name :: "string \<Rightarrow> bool" where
  "plain_name s \<longleftrightarrow> ToLower s = s \<and> (\<forall>c \<in> set s. \<not> is_space c)"

lemma name_plain: "plain_name (Join (Fields (ToLower (TrimSpace s))) ''-'')"
proof -
  let ?ws = "Fields (ToLower (TrimSpace s))"
  have "\<forall>w \<in> set ?ws. \<forall>c \<in> set w. \<not> is_space c" using Fields_no_space by blast
  moreover have "ToLower w = w" if "w \<in> set ?ws" for w
    using Fields_sub [OF that] ToLower_char unfolding ToLower_def by (intro map_idI) blast
  moreover have "\<forall>c \<in> set ''-''. \<not> is_space c" "ToLower ''-'' = ''-''" by code_simp+
  ultimately show ?thesis unfolding plain_name_def using Join_lower Join_spaceless by blast
qed

lemma name_of_plain: "plain_name s \<Longrightarrow> Join (Fields (ToLower (TrimSpace s))) ''-'' = s"
  by (simp add: plain_name_def spaceless_trimmed Fields_spaceless)

lemma plain_prefix: "plain_name s \<Longrightarrow> plain_name (openAICompatibleProviderPrefix @ s)"
  by (auto simp: plain_name_def openAICompatibleProviderPrefix_def is_space_def ToLower_def lower_char_def)

lemma OpenAICompatibleProviderKey_plain: "plain_name (OpenAICompatibleProviderKey s)"
proof -
  have "plain_name ''openai-compatibility''" by (auto simp: plain_name_def is_space_def ToLower_def lower_char_def)
  with name_plain [of s] plain_prefix [OF name_plain [of s]] show ?thesis
    by (auto simp: OpenAICompatibleProviderKey_def Let_def)
qed

lemma OpenAICompatibleProviderKey_idem:
  "OpenAICompatibleProviderKey (OpenAICompatibleProviderKey s) = OpenAICompatibleProviderKey s"
proof -
  let ?k = "OpenAICompatibleProviderKey s"
  have n: "Join (Fields (ToLower (TrimSpace ?k))) ''-'' = ?k" by (rule name_of_plain [OF OpenAICompatibleProviderKey_plain])
  have k: "?k \<noteq> [] \<and> (?k = ''openai-compatibility'' \<or> HasPrefix ?k openAICompatibleProviderPrefix)"
    by (auto simp: OpenAICompatibleProviderKey_def Let_def HasPrefix_def openAICompatibleProviderPrefix_def)
  show ?thesis by (subst OpenAICompatibleProviderKey_def) (use n k in simp)
qed

text \<open>The key of a credential is a normal form: it is what a request's provider key becomes.\<close>

lemma executorKey_normal: "ToLower (TrimSpace (executorKeyFromAuth a)) = executorKeyFromAuth a"
proof -
  have "ToLower (TrimSpace k) = k" if "plain_name k" for k
    using that by (simp add: plain_name_def spaceless_trimmed)
  with OpenAICompatibleProviderKey_plain show ?thesis
    by (cases a) (auto simp: executorKeyFromAuth_def Let_def TrimSpace_ToLower)
qed

end
