(* ===== verification/Scheduler.thy ===== *)
theory Scheduler
  imports Selector Auth_Classify Model_Registry
begin

text \<open>
  The incremental scheduler of the credential manager: \<^verbatim>\<open>sdk/cliproxy/auth/scheduler.go\<close>.
  Per provider it keeps the credentials it was given and, per model asked for, a shard: the entries
  with their scheduling state, the ready ones per priority with a cursor, and the blocked ones by
  retry time. Picks use the indexes and never re-evaluate a ready credential.

  An entry is a shared object: the map \<open>entries\<close>, the views and the blocked queue point to it. It
  is stored once, in \<open>entries\<close>, under the credential's id, and the views hold that id; an entry
  leaves \<open>entries\<close> only together with a rebuild of the views. Entries and their metadata are
  created filled, so that the nil checks on them have no counterpart. Every reading of the clock in
  an operation is an argument of its own. The operations run under the scheduler's mutex, one at a
  time.
\<close>

section \<open>State\<close>

datatype scheduler_strategy =
    schedulerStrategyCurrent
  | schedulerStrategyCustom
  | schedulerStrategyRoundRobin
  | schedulerStrategyFillFirst
  | schedulerStrategyWeightedRoundRobin

datatype scheduled_state =
    scheduledStateReady | scheduledStateCooldown | scheduledStateBlocked | scheduledStateDisabled

record scheduled_auth_meta =
  sm_auth :: auth
  sm_providerKey :: string
  sm_priority :: int
  sm_weight :: int
  sm_websocketEnabled :: bool
  sm_supportedModelSet :: "string list"

record scheduled_auth =
  sa_meta :: scheduled_auth_meta
  sa_auth :: auth
  sa_state :: scheduled_state
  sa_nextRetryAt :: time

type_synonym entry_map = "(string, scheduled_auth) gomap"
type_synonym entry_predicate = "scheduled_auth \<Rightarrow> bool"

record ready_view =
  rv_flat :: "string list"
  rv_cursor :: int
  rv_weightedState :: smooth_weighted_state

record ready_bucket =
  rb_all :: ready_view
  rb_ws :: ready_view

record model_scheduler =
  sh_modelKey :: string
  sh_entries :: entry_map
  sh_priorityOrder :: "int list"
  sh_readyByPriority :: "(int, ready_bucket) gomap"
  sh_blocked :: "string list"

record provider_scheduler =
  ps_providerKey :: string
  ps_auths :: "(string, scheduled_auth_meta) gomap"
  ps_modelShards :: "(string, model_scheduler) gomap"

record auth_scheduler =
  as_strategy :: scheduler_strategy
  as_providers :: "(string, provider_scheduler) gomap"
  as_authProviders :: "(string, string) gomap"
  as_mixedCursors :: "(string, int) gomap"
  as_mixedWeightedStates :: "(string, smooth_weighted_state) gomap"

text \<open>The dynamic type of a selector.\<close>

datatype selector_type = NilSelector | RoundRobinSelector | FillFirstSelector | WeightedRoundRobinSelector | OtherSelector

definition selectorStrategy :: "selector_type \<Rightarrow> scheduler_strategy" where
  "selectorStrategy selector =
     (case selector of
        FillFirstSelector \<Rightarrow> schedulerStrategyFillFirst
      | WeightedRoundRobinSelector \<Rightarrow> schedulerStrategyWeightedRoundRobin
      | NilSelector \<Rightarrow> schedulerStrategyRoundRobin
      | RoundRobinSelector \<Rightarrow> schedulerStrategyRoundRobin
      | OtherSelector \<Rightarrow> schedulerStrategyCustom)"

definition newAuthScheduler :: "selector_type \<Rightarrow> auth_scheduler" where
  "newAuthScheduler selector =
     \<lparr>as_strategy = selectorStrategy selector, as_providers = [], as_authProviders = [], as_mixedCursors = [],
      as_mixedWeightedStates = []\<rparr>"

definition setSelector :: "selector_type \<Rightarrow> auth_scheduler \<Rightarrow> auth_scheduler" where
  "setSelector selector s =
     s\<lparr>as_strategy := selectorStrategy selector, as_mixedCursors := [], as_mixedWeightedStates := []\<rparr>"

section \<open>Ready views\<close>

text \<open>The predicate on the entry an id points to.\<close>

definition entry_passes :: "entry_map \<Rightarrow> entry_predicate \<Rightarrow> string \<Rightarrow> bool" where
  "entry_passes entries predicate i = (case mget entries i of None \<Rightarrow> False | Some entry \<Rightarrow> predicate entry)"

definition buildReadyView :: "string list \<Rightarrow> ready_view" where
  "buildReadyView entries =
     \<lparr>rv_flat = entries, rv_cursor = 0, rv_weightedState = \<lparr>sw_current = [], sw_weights = []\<rparr>\<rparr>"

definition buildReadyBucket :: "entry_map \<Rightarrow> string list \<Rightarrow> ready_bucket" where
  "buildReadyBucket entries ids =
     \<lparr>rb_all = buildReadyView ids,
      rb_ws = buildReadyView (filter (entry_passes entries (\<lambda>entry. sm_websocketEnabled (sa_meta entry))) ids)\<rparr>"

definition normalizeCursor :: "int \<Rightarrow> int \<Rightarrow> int" where
  "normalizeCursor cursor n =
     (if n \<le> 0 \<or> cursor \<le> 0 then 0
      else let c = rem64 cursor n in if c < 0 then c + n else c)"

definition pickFirst :: "entry_map \<Rightarrow> entry_predicate \<Rightarrow> ready_view \<Rightarrow> string option" where
  "pickFirst entries predicate v = find (entry_passes entries predicate) (rv_flat v)"

definition pickRoundRobin :: "entry_map \<Rightarrow> entry_predicate \<Rightarrow> ready_view \<Rightarrow> string option \<times> ready_view" where
  "pickRoundRobin entries predicate v =
     (let n = length (rv_flat v) in
      if n = 0 then (None, v)
      else
        let start = nat (rem64 (rv_cursor v) (int n))
        in (case find (\<lambda>offset. entry_passes entries predicate (rv_flat v ! ((start + offset) mod n))) [0..<n] of
              None \<Rightarrow> (None, v)
            | Some offset \<Rightarrow>
                let index = (start + offset) mod n
                in (Some (rv_flat v ! index), v\<lparr>rv_cursor := int index + 1\<rparr>)))"

definition weighs :: "entry_predicate \<Rightarrow> entry_predicate" where
  "weighs predicate entry \<longleftrightarrow> \<not> sm_weight (sa_meta entry) \<le> 0 \<and> predicate entry"

definition scheduledWeightVectorMatching :: "entry_map \<Rightarrow> entry_predicate \<Rightarrow> string list \<Rightarrow> (string, int) gomap" where
  "scheduledWeightVectorMatching entries predicate ids =
     fold (\<lambda>i weights. case mget entries i of
             None \<Rightarrow> weights
           | Some entry \<Rightarrow>
               if weighs predicate entry then mput (auth_ID (sa_auth entry)) (sm_weight (sa_meta entry)) weights
               else weights) ids []"

definition scheduledWeightVector :: "entry_map \<Rightarrow> string list \<Rightarrow> (string, int) gomap" where
  "scheduledWeightVector entries ids = scheduledWeightVectorMatching entries (\<lambda>_. True) ids"

definition scheduled_visit ::
  "entry_map \<Rightarrow> entry_predicate \<Rightarrow> string \<Rightarrow> (string, int) gomap \<times> int \<times> (string \<times> int) option \<Rightarrow>
   (string, int) gomap \<times> int \<times> (string \<times> int) option" where
  "scheduled_visit entries predicate i acc =
     (case mget entries i of
        None \<Rightarrow> acc
      | Some entry \<Rightarrow>
          (case acc of (current, totalWeight, picked) \<Rightarrow>
             if \<not> weighs predicate entry then acc
             else
               let weight = sm_weight (sa_meta entry);
                   authID = auth_ID (sa_auth entry);
                   c = saturatingAddInt64 (map_get0 current authID) weight
               in (mput authID c current, saturatingAddInt64 totalWeight weight,
                   (case picked of
                      None \<Rightarrow> Some (i, c)
                    | Some (p, pickedCurrent) \<Rightarrow> if c > pickedCurrent then Some (i, c) else picked))))"

definition active_ids :: "entry_map \<Rightarrow> entry_predicate \<Rightarrow> string list \<Rightarrow> string list" where
  "active_ids entries predicate ids =
     map (\<lambda>i. auth_ID (sa_auth (the (mget entries i)))) (filter (entry_passes entries (weighs predicate)) ids)"

definition pickSmoothWeightedScheduled ::
  "entry_map \<Rightarrow> entry_predicate \<Rightarrow> string list \<Rightarrow> (string, int) gomap \<Rightarrow> string option \<times> (string, int) gomap" where
  "pickSmoothWeightedScheduled entries predicate ids current0 =
     (let current1 = filter (\<lambda>(authID, _). authID \<in> set (active_ids entries predicate ids)) current0
      in (case fold (scheduled_visit entries predicate) ids (current1, 0, None) of
            (current2, totalWeight, picked) \<Rightarrow>
              (case picked of
                 None \<Rightarrow> (None, current2)
               | Some (p, _) \<Rightarrow>
                   let authID = auth_ID (sa_auth (the (mget entries p)))
                   in (Some p, mput authID (saturatingAddInt64 (map_get0 current2 authID) (- totalWeight)) current2))))"

definition pickWeighted :: "entry_map \<Rightarrow> entry_predicate \<Rightarrow> ready_view \<Rightarrow> string option \<times> ready_view" where
  "pickWeighted entries predicate v =
     (if rv_flat v = [] then (None, v)
      else
        let st = prepare (scheduledWeightVectorMatching entries predicate (rv_flat v)) (rv_weightedState v)
        in (case pickSmoothWeightedScheduled entries predicate (rv_flat v) (sw_current st) of
              (picked, current) \<Rightarrow> (picked, v\<lparr>rv_weightedState := st\<lparr>sw_current := current\<rparr>\<rparr>)))"

subsection \<open>Cursors across a rebuild\<close>

record view_cursor_state =
  vc_cursor :: int
  vc_weightedState :: smooth_weighted_state

definition snapshotReadyViewCursors :: "ready_view \<Rightarrow> view_cursor_state" where
  "snapshotReadyViewCursors view = \<lparr>vc_cursor = rv_cursor view, vc_weightedState = rv_weightedState view\<rparr>"

definition restoreReadyViewCursors :: "entry_map \<Rightarrow> view_cursor_state \<Rightarrow> ready_view \<Rightarrow> ready_view" where
  "restoreReadyViewCursors entries state view =
     (let view1 = (if rv_flat view \<noteq> []
                   then view\<lparr>rv_cursor := normalizeCursor (vc_cursor state) (int (length (rv_flat view)))\<rparr> else view);
          weights = scheduledWeightVector entries (rv_flat view)
      in if sw_current (vc_weightedState state) = [] \<or> \<not> weightVectorsEqual (sw_weights (vc_weightedState state)) weights
         then view1
         else view1\<lparr>rv_weightedState := \<lparr>sw_current = sw_current (vc_weightedState state), sw_weights = weights\<rparr>\<rparr>)"

section \<open>Model shards\<close>

text \<open>The loop over the entries: ready ids per priority, and the blocked ids.\<close>

definition index_entry ::
  "string \<times> scheduled_auth \<Rightarrow> (int, string list) gomap \<times> string list \<Rightarrow> (int, string list) gomap \<times> string list" where
  "index_entry ie acc =
     (case (ie, acc) of ((i, entry), (priorityBuckets, blocked)) \<Rightarrow>
        (case sa_state entry of
           scheduledStateReady \<Rightarrow>
             let priority = sm_priority (sa_meta entry)
             in (mput priority ((case mget priorityBuckets priority of None \<Rightarrow> [] | Some b \<Rightarrow> b) @ [i]) priorityBuckets, blocked)
         | scheduledStateCooldown \<Rightarrow> (priorityBuckets, blocked @ [i])
         | scheduledStateBlocked \<Rightarrow> (priorityBuckets, blocked @ [i])
         | scheduledStateDisabled \<Rightarrow> acc))"

definition blocked_key :: "entry_map \<Rightarrow> string \<Rightarrow> bool \<times> time \<times> string" where
  "blocked_key entries i =
     (case mget entries i of
        None \<Rightarrow> (True, zero_time, i)
      | Some entry \<Rightarrow> (IsZero (sa_nextRetryAt entry), sa_nextRetryAt entry, auth_ID (sa_auth entry)))"

definition rebuild_bucket ::
  "entry_map \<Rightarrow> (int, ready_bucket) gomap \<Rightarrow> int \<times> string list \<Rightarrow> int \<times> ready_bucket" where
  "rebuild_bucket entries old pe =
     (case pe of (priority, ids) \<Rightarrow>
        let bucket = buildReadyBucket entries (sort_key (\<lambda>i. auth_ID (sa_auth (the (mget entries i)))) ids)
        in (priority,
            case mget old priority of
              None \<Rightarrow> bucket
            | Some previous \<Rightarrow>
                \<lparr>rb_all = restoreReadyViewCursors entries (snapshotReadyViewCursors (rb_all previous)) (rb_all bucket),
                 rb_ws = restoreReadyViewCursors entries (snapshotReadyViewCursors (rb_ws previous)) (rb_ws bucket)\<rparr>))"

definition rebuildIndexesLocked :: "model_scheduler \<Rightarrow> model_scheduler" where
  "rebuildIndexesLocked m =
     (case fold index_entry (sh_entries m) ([], []) of
        (priorityBuckets, blocked) \<Rightarrow>
          m\<lparr>sh_readyByPriority := map (rebuild_bucket (sh_entries m) (sh_readyByPriority m)) priorityBuckets,
            sh_priorityOrder := rev (sort (map fst priorityBuckets)),
            sh_blocked := sort_key (blocked_key (sh_entries m)) blocked\<rparr>)"

text \<open>The state and the retry time of an entry, from what \<open>isAuthBlockedForModel\<close> returns.\<close>

definition scheduled_as :: "block \<Rightarrow> scheduled_state \<times> time" where
  "scheduled_as b =
     (case b of (blocked, reason, next) \<Rightarrow>
        if \<not> blocked then (scheduledStateReady, zero_time)
        else if reason = blockReasonCooldown then (scheduledStateCooldown, next)
        else if reason = blockReasonDisabled then (scheduledStateDisabled, zero_time)
        else (scheduledStateBlocked, next))"

definition upsertEntryLocked :: "model_lookup \<Rightarrow> scheduled_auth_meta \<Rightarrow> time \<Rightarrow> model_scheduler \<Rightarrow> model_scheduler" where
  "upsertEntryLocked lookup meta now m =
     (let i = auth_ID (sm_auth meta);
          previous = mget (sh_entries m) i
      in (case scheduled_as (isAuthBlockedForModel lookup (Some (sm_auth meta)) (sh_modelKey m) now) of
            (state, next) \<Rightarrow>
              let entry = \<lparr>sa_meta = meta, sa_auth = sm_auth meta, sa_state = state, sa_nextRetryAt = next\<rparr>;
                  m1 = m\<lparr>sh_entries := mput i entry (sh_entries m)\<rparr>
              in (case previous of
                    Some p \<Rightarrow>
                      if sa_state p = state \<and> sa_nextRetryAt p = next \<and> sm_priority (sa_meta p) = sm_priority meta \<and>
                         sm_websocketEnabled (sa_meta p) = sm_websocketEnabled meta
                      then m1 else rebuildIndexesLocked m1
                  | None \<Rightarrow> rebuildIndexesLocked m1)))"

definition removeEntryLocked :: "string \<Rightarrow> model_scheduler \<Rightarrow> model_scheduler" where
  "removeEntryLocked authID m =
     (if authID = [] then m
      else if mget (sh_entries m) authID = None then m
      else rebuildIndexesLocked (m\<lparr>sh_entries := mdel authID (sh_entries m)\<rparr>))"

definition promote_entry ::
  "model_lookup \<Rightarrow> string \<Rightarrow> time \<Rightarrow> string \<Rightarrow> entry_map \<times> bool \<Rightarrow> entry_map \<times> bool" where
  "promote_entry lookup modelKey now i acc =
     (case acc of (entries, changed) \<Rightarrow>
        (case mget entries i of
           None \<Rightarrow> acc
         | Some entry \<Rightarrow>
             if IsZero (sa_nextRetryAt entry) \<or> sa_nextRetryAt entry > now then acc
             else
               (case scheduled_as (isAuthBlockedForModel lookup (Some (sa_auth entry)) modelKey now) of
                  (state, next) \<Rightarrow> (mput i (entry\<lparr>sa_state := state, sa_nextRetryAt := next\<rparr>) entries, True))))"

definition promoteExpiredLocked :: "model_lookup \<Rightarrow> time \<Rightarrow> model_scheduler \<Rightarrow> model_scheduler" where
  "promoteExpiredLocked lookup now m =
     (case fold (promote_entry lookup (sh_modelKey m) now) (sh_blocked m) (sh_entries m, False) of
        (entries, changed) \<Rightarrow>
          if changed then rebuildIndexesLocked (m\<lparr>sh_entries := entries\<rparr>) else m)"

subsection \<open>Picking from a shard\<close>

fun first_priority :: "(ready_bucket \<Rightarrow> bool) \<Rightarrow> (int, ready_bucket) gomap \<Rightarrow> int list \<Rightarrow> int option" where
  "first_priority P buckets [] = None"
| "first_priority P buckets (priority # order) =
     (case mget buckets priority of
        None \<Rightarrow> first_priority P buckets order
      | Some bucket \<Rightarrow> if P bucket then Some priority else first_priority P buckets order)"

definition highestReadyPriorityLocked :: "bool \<Rightarrow> entry_predicate \<Rightarrow> model_scheduler \<Rightarrow> int option" where
  "highestReadyPriorityLocked preferWebsocket predicate m =
     (let preferred =
        (if preferWebsocket
         then first_priority (\<lambda>bucket. pickFirst (sh_entries m) predicate (rb_ws bucket) \<noteq> None)
                (sh_readyByPriority m) (sh_priorityOrder m)
         else None)
      in (case preferred of
            Some priority \<Rightarrow> Some priority
          | None \<Rightarrow>
              first_priority (\<lambda>bucket. pickFirst (sh_entries m) predicate (rb_all bucket) \<noteq> None)
                (sh_readyByPriority m) (sh_priorityOrder m)))"

definition view_pick ::
  "scheduler_strategy \<Rightarrow> entry_map \<Rightarrow> entry_predicate \<Rightarrow> ready_view \<Rightarrow> string option \<times> ready_view" where
  "view_pick strategy entries predicate view =
     (case strategy of
        schedulerStrategyFillFirst \<Rightarrow> (pickFirst entries predicate view, view)
      | schedulerStrategyWeightedRoundRobin \<Rightarrow> pickWeighted entries predicate view
      | _ \<Rightarrow> pickRoundRobin entries predicate view)"

definition picked_auth :: "entry_map \<Rightarrow> string option \<Rightarrow> auth option" where
  "picked_auth entries picked =
     (case picked of None \<Rightarrow> None | Some i \<Rightarrow> map_option sa_auth (mget entries i))"

definition pickReadyAtPriorityLocked ::
  "bool \<Rightarrow> int \<Rightarrow> scheduler_strategy \<Rightarrow> entry_predicate \<Rightarrow> model_scheduler \<Rightarrow> auth option \<times> model_scheduler" where
  "pickReadyAtPriorityLocked preferWebsocket priority strategy predicate m =
     (case mget (sh_readyByPriority m) priority of
        None \<Rightarrow> (None, m)
      | Some bucket \<Rightarrow>
          if preferWebsocket \<and> pickFirst (sh_entries m) predicate (rb_ws bucket) \<noteq> None
          then (case view_pick strategy (sh_entries m) predicate (rb_ws bucket) of
                  (picked, view) \<Rightarrow>
                    (picked_auth (sh_entries m) picked,
                     m\<lparr>sh_readyByPriority := mput priority (bucket\<lparr>rb_ws := view\<rparr>) (sh_readyByPriority m)\<rparr>))
          else (case view_pick strategy (sh_entries m) predicate (rb_all bucket) of
                  (picked, view) \<Rightarrow>
                    (picked_auth (sh_entries m) picked,
                     m\<lparr>sh_readyByPriority := mput priority (bucket\<lparr>rb_all := view\<rparr>) (sh_readyByPriority m)\<rparr>)))"

definition pickReadyLocked ::
  "model_lookup \<Rightarrow> time \<Rightarrow> bool \<Rightarrow> scheduler_strategy \<Rightarrow> entry_predicate \<Rightarrow> model_scheduler \<Rightarrow>
   auth option \<times> model_scheduler" where
  "pickReadyLocked lookup now preferWebsocket strategy predicate m0 =
     (let m = promoteExpiredLocked lookup now m0
      in (case highestReadyPriorityLocked preferWebsocket predicate m of
            None \<Rightarrow> (None, m)
          | Some priorityReady \<Rightarrow> pickReadyAtPriorityLocked preferWebsocket priorityReady strategy predicate m))"

definition readyCountAtPriorityLocked :: "bool \<Rightarrow> int \<Rightarrow> entry_predicate \<Rightarrow> model_scheduler \<Rightarrow> nat" where
  "readyCountAtPriorityLocked preferWebsocket priority predicate m =
     (case mget (sh_readyByPriority m) priority of
        None \<Rightarrow> 0
      | Some bucket \<Rightarrow>
          let view = (if preferWebsocket \<and> pickFirst (sh_entries m) predicate (rb_ws bucket) \<noteq> None
                      then rb_ws bucket else rb_all bucket)
          in length (filter (entry_passes (sh_entries m) predicate) (rv_flat view)))"

definition summary_entry :: "entry_predicate \<Rightarrow> scheduled_auth \<Rightarrow> int \<times> int \<times> time \<Rightarrow> int \<times> int \<times> time" where
  "summary_entry predicate entry acc =
     (case acc of (candidates, cooldownCount, earliest) \<Rightarrow>
        if \<not> predicate entry then acc
        else if sa_state entry \<noteq> scheduledStateCooldown then (candidates + 1, cooldownCount, earliest)
        else (candidates + 1, cooldownCount + 1,
              if \<not> IsZero (sa_nextRetryAt entry) \<and> (IsZero earliest \<or> sa_nextRetryAt entry < earliest)
              then sa_nextRetryAt entry else earliest))"

definition availabilitySummaryLocked :: "entry_predicate \<Rightarrow> model_scheduler \<Rightarrow> int \<times> int \<times> time" where
  "availabilitySummaryLocked predicate m =
     fold (summary_entry predicate) (map snd (sh_entries m)) (0, 0, zero_time)"

definition unavailable_error :: "time \<Rightarrow> string \<Rightarrow> string \<Rightarrow> int \<times> int \<times> time \<Rightarrow> pick_error" where
  "unavailable_error now provider model summary =
     (case summary of (candidates, cooldownCount, earliest) \<Rightarrow>
        if candidates = 0 then pick_failure ''auth_not_found'' ''no auth available''
        else if cooldownCount = candidates \<and> \<not> IsZero earliest
        then newModelCooldownError model (if provider = ''mixed'' then [] else provider)
               (if earliest - now < 0 then 0 else earliest - now)
        else pick_failure ''auth_unavailable'' ''no auth available'')"

definition unavailableErrorLocked :: "time \<Rightarrow> string \<Rightarrow> string \<Rightarrow> entry_predicate \<Rightarrow> model_scheduler \<Rightarrow> pick_error" where
  "unavailableErrorLocked now provider model predicate m =
     unavailable_error now provider model (availabilitySummaryLocked predicate m)"

section \<open>Providers\<close>

definition supportedModelSetForAuth :: "model_lookup \<Rightarrow> model_registry \<Rightarrow> string \<Rightarrow> string list" where
  "supportedModelSetForAuth lookup reg authID0 =
     (let authID = TrimSpace authID0 in
      if authID = [] then []
      else remdups (filter (\<lambda>modelKey. modelKey \<noteq> [])
             (map (\<lambda>model. canonicalModelKey lookup (mi_ID model)) (GetModelsForClient authID reg))))"

definition buildScheduledAuthMeta :: "model_lookup \<Rightarrow> model_registry \<Rightarrow> auth \<Rightarrow> scheduled_auth_meta" where
  "buildScheduledAuthMeta lookup reg a =
     \<lparr>sm_auth = a, sm_providerKey = executorKeyFromAuth (Some a), sm_priority = authPriority (Some a),
      sm_weight = authWeight (Some a), sm_websocketEnabled = authWebsocketsEnabled (Some a),
      sm_supportedModelSet = supportedModelSetForAuth lookup reg (auth_ID a)\<rparr>"

definition supportsModel :: "model_lookup \<Rightarrow> scheduled_auth_meta \<Rightarrow> string \<Rightarrow> bool" where
  "supportsModel lookup meta modelKey0 =
     (let modelKey = canonicalModelKey lookup modelKey0 in
      if modelKey = [] then True
      else modelKey \<in> set (sm_supportedModelSet meta))"

definition upsert_shard ::
  "model_lookup \<Rightarrow> scheduled_auth_meta \<Rightarrow> time \<Rightarrow> string \<times> model_scheduler \<Rightarrow> string \<times> model_scheduler" where
  "upsert_shard lookup meta now ks =
     (case ks of (modelKey, shard) \<Rightarrow>
        (modelKey,
         if \<not> supportsModel lookup meta modelKey then removeEntryLocked (auth_ID (sm_auth meta)) shard
         else upsertEntryLocked lookup meta now shard))"

definition provider_upsertAuthLocked ::
  "model_lookup \<Rightarrow> scheduled_auth_meta \<Rightarrow> time \<Rightarrow> provider_scheduler \<Rightarrow> provider_scheduler" where
  "provider_upsertAuthLocked lookup meta now p =
     p\<lparr>ps_auths := mput (auth_ID (sm_auth meta)) meta (ps_auths p),
       ps_modelShards := map (upsert_shard lookup meta now) (ps_modelShards p)\<rparr>"

definition provider_removeAuthLocked :: "string \<Rightarrow> provider_scheduler \<Rightarrow> provider_scheduler" where
  "provider_removeAuthLocked authID p =
     (if authID = [] then p
      else p\<lparr>ps_auths := mdel authID (ps_auths p),
             ps_modelShards := map (\<lambda>(k, shard). (k, removeEntryLocked authID shard)) (ps_modelShards p)\<rparr>)"

definition empty_shard :: "string \<Rightarrow> model_scheduler" where
  "empty_shard modelKey =
     \<lparr>sh_modelKey = modelKey, sh_entries = [], sh_priorityOrder = [], sh_readyByPriority = [], sh_blocked = []\<rparr>"

definition ensureModelLocked ::
  "model_lookup \<Rightarrow> string \<Rightarrow> time \<Rightarrow> provider_scheduler \<Rightarrow> model_scheduler \<times> provider_scheduler" where
  "ensureModelLocked lookup modelKey0 now p =
     (let modelKey = canonicalModelKey lookup modelKey0;
          shard = (case mget (ps_modelShards p) modelKey of
                     Some shard \<Rightarrow> promoteExpiredLocked lookup now shard
                   | None \<Rightarrow>
                       fold (\<lambda>meta shard. if supportsModel lookup meta modelKey then upsertEntryLocked lookup meta now shard else shard)
                         (map snd (ps_auths p)) (empty_shard modelKey))
      in (shard, p\<lparr>ps_modelShards := mput modelKey shard (ps_modelShards p)\<rparr>))"

section \<open>The scheduler\<close>

definition empty_provider :: "string \<Rightarrow> provider_scheduler" where
  "empty_provider providerKey = \<lparr>ps_providerKey = providerKey, ps_auths = [], ps_modelShards = []\<rparr>"

definition ensureProviderLocked :: "string \<Rightarrow> auth_scheduler \<Rightarrow> provider_scheduler" where
  "ensureProviderLocked providerKey s =
     (case mget (as_providers s) providerKey of Some p \<Rightarrow> p | None \<Rightarrow> empty_provider providerKey)"

definition put_provider :: "string \<Rightarrow> provider_scheduler \<Rightarrow> auth_scheduler \<Rightarrow> auth_scheduler" where
  "put_provider providerKey p s = s\<lparr>as_providers := mput providerKey p (as_providers s)\<rparr>"

text \<open>A provider's own removal, when the provider is known.\<close>

definition remove_from_provider :: "string \<Rightarrow> string \<Rightarrow> auth_scheduler \<Rightarrow> auth_scheduler" where
  "remove_from_provider providerKey authID s =
     (case mget (as_providers s) providerKey of
        None \<Rightarrow> s
      | Some p \<Rightarrow> put_provider providerKey (provider_removeAuthLocked authID p) s)"

definition auth_provider_of :: "auth_scheduler \<Rightarrow> string \<Rightarrow> string" where
  "auth_provider_of s authID = (case mget (as_authProviders s) authID of None \<Rightarrow> [] | Some p \<Rightarrow> p)"

definition removeAuthLocked :: "string \<Rightarrow> auth_scheduler \<Rightarrow> auth_scheduler" where
  "removeAuthLocked authID s =
     (if authID = [] then s
      else if auth_provider_of s authID \<noteq> []
      then let s1 = remove_from_provider (auth_provider_of s authID) authID s
           in s1\<lparr>as_authProviders := mdel authID (as_authProviders s1)\<rparr>
      else s)"

definition upsertAuthLocked ::
  "model_lookup \<Rightarrow> model_registry \<Rightarrow> auth option \<Rightarrow> time \<Rightarrow> auth_scheduler \<Rightarrow> auth_scheduler" where
  "upsertAuthLocked lookup reg auth0 now s =
     (case auth0 of
        None \<Rightarrow> s
      | Some a \<Rightarrow>
          let authID = TrimSpace (auth_ID a);
              providerKey = executorKeyFromAuth (Some a)
          in if authID = [] \<or> providerKey = [] \<or> auth_Disabled a then removeAuthLocked authID s
             else
               let s1 = (if auth_provider_of s authID \<noteq> [] \<and> auth_provider_of s authID \<noteq> providerKey
                         then remove_from_provider (auth_provider_of s authID) authID s else s);
                   meta = buildScheduledAuthMeta lookup reg a;
                   s2 = s1\<lparr>as_authProviders := mput authID providerKey (as_authProviders s1)\<rparr>
               in put_provider providerKey
                    (provider_upsertAuthLocked lookup meta now (ensureProviderLocked providerKey s2)) s2)"

definition upsertAuth :: "model_lookup \<Rightarrow> model_registry \<Rightarrow> auth option \<Rightarrow> time \<Rightarrow> auth_scheduler \<Rightarrow> auth_scheduler" where
  "upsertAuth lookup reg auth0 now s = upsertAuthLocked lookup reg auth0 now s"

definition removeAuth :: "string \<Rightarrow> auth_scheduler \<Rightarrow> auth_scheduler" where
  "removeAuth authID0 s =
     (let authID = TrimSpace authID0 in if authID = [] then s else removeAuthLocked authID s)"

definition rebuild :: "model_lookup \<Rightarrow> model_registry \<Rightarrow> auth option list \<Rightarrow> time \<Rightarrow> auth_scheduler \<Rightarrow> auth_scheduler" where
  "rebuild lookup reg auths now s =
     fold (\<lambda>a. upsertAuthLocked lookup reg a now) auths
       (s\<lparr>as_providers := [], as_authProviders := [], as_mixedCursors := [], as_mixedWeightedStates := []\<rparr>)"

subsection \<open>Requests for one provider\<close>

definition scheduledAuthPredicate ::
  "auth_selection_eligibility \<Rightarrow> string list \<Rightarrow> string \<Rightarrow> bool \<Rightarrow> entry_predicate" where
  "scheduledAuthPredicate eligibility tried pinnedAuthID requirePositiveWeight entry =
     (if \<not> allows eligibility (Some (sa_auth entry)) then False
      else if requirePositiveWeight \<and> sm_weight (sa_meta entry) \<le> 0 then False
      else if pinnedAuthID \<noteq> [] \<and> auth_ID (sa_auth entry) \<noteq> pinnedAuthID then False
      else auth_ID (sa_auth entry) \<notin> set tried)"

definition providerPrefersWebsocketTransport :: "string \<Rightarrow> bool" where
  "providerPrefersWebsocketTransport providerKey \<longleftrightarrow> ToLower (TrimSpace providerKey) \<in> {''codex'', ''xai''}"

text \<open>The shard a pick changed goes back to its place.\<close>

definition put_shard :: "string \<Rightarrow> model_scheduler \<Rightarrow> auth_scheduler \<Rightarrow> auth_scheduler" where
  "put_shard providerKey shard s =
     (case mget (as_providers s) providerKey of
        None \<Rightarrow> s
      | Some p \<Rightarrow>
          put_provider providerKey (p\<lparr>ps_modelShards := mput (sh_modelKey shard) shard (ps_modelShards p)\<rparr>) s)"

definition effective_strategy :: "scheduler_strategy \<Rightarrow> auth_scheduler \<Rightarrow> scheduler_strategy" where
  "effective_strategy strategy s = (if strategy = schedulerStrategyCurrent then as_strategy s else strategy)"

definition no_auth :: pick_error where
  "no_auth = pick_failure ''auth_not_found'' ''no auth available''"

definition pickSingleWithStrategy ::
  "model_lookup \<Rightarrow> pick_request \<Rightarrow> string \<Rightarrow> string \<Rightarrow> string list \<Rightarrow> scheduler_strategy \<Rightarrow> time \<Rightarrow> time \<Rightarrow> time \<Rightarrow>
   auth_scheduler \<Rightarrow> (pick_error + auth) \<times> auth_scheduler" where
  "pickSingleWithStrategy lookup rq provider model tried strategy0 now1 now2 now3 s =
     (let providerKey = ToLower (TrimSpace provider);
          modelKey = canonicalModelKey lookup model;
          pinnedAuthID = pinnedAuthIDFromMetadata (rq_Metadata rq);
          eligibility = authSelectionEligibilityForRequest rq;
          preferWebsocket = (rq_DownstreamWebsocket rq \<and> providerPrefersWebsocketTransport providerKey \<and> pinnedAuthID = []);
          strategy = effective_strategy strategy0 s
      in (case mget (as_providers s) providerKey of
            None \<Rightarrow> (Inl no_auth, s)
          | Some providerState \<Rightarrow>
              (case ensureModelLocked lookup modelKey now1 providerState of
                 (shard, providerState1) \<Rightarrow>
                   let s1 = put_provider providerKey providerState1 s;
                       predicate = scheduledAuthPredicate eligibility tried pinnedAuthID (strategy = schedulerStrategyWeightedRoundRobin)
                   in (case pickReadyLocked lookup now2 preferWebsocket strategy predicate shard of
                         (Some picked, shard1) \<Rightarrow> (Inr picked, put_shard providerKey shard1 s1)
                       | (None, shard1) \<Rightarrow>
                           (Inl (unavailableErrorLocked now3 provider model predicate shard1), put_shard providerKey shard1 s1)))))"

definition pickSingle ::
  "model_lookup \<Rightarrow> pick_request \<Rightarrow> string \<Rightarrow> string \<Rightarrow> string list \<Rightarrow> time \<Rightarrow> time \<Rightarrow> time \<Rightarrow>
   auth_scheduler \<Rightarrow> (pick_error + auth) \<times> auth_scheduler" where
  "pickSingle lookup rq provider model tried now1 now2 now3 s =
     pickSingleWithStrategy lookup rq provider model tried schedulerStrategyCurrent now1 now2 now3 s"

subsection \<open>Requests for several providers\<close>

fun dedup_keys :: "string list \<Rightarrow> string list \<Rightarrow> string list" where
  "dedup_keys seen [] = []"
| "dedup_keys seen (provider # providers) =
     (let providerKey = ToLower (TrimSpace provider) in
      if providerKey = [] then dedup_keys seen providers
      else if providerKey \<in> set seen then dedup_keys seen providers
      else providerKey # dedup_keys (providerKey # seen) providers)"

definition normalizeProviderKeys :: "string list \<Rightarrow> string list" where
  "normalizeProviderKeys providers = dedup_keys [] providers"

definition containsProvider :: "string list \<Rightarrow> string \<Rightarrow> bool" where
  "containsProvider providers provider = list_ex (\<lambda>candidate. candidate = provider) providers"

text \<open>The shard of a provider, promoted or built; None when the provider is unknown.\<close>

definition ensure_shard ::
  "model_lookup \<Rightarrow> string \<Rightarrow> time \<Rightarrow> string \<Rightarrow> auth_scheduler \<Rightarrow> model_scheduler option \<times> auth_scheduler" where
  "ensure_shard lookup modelKey now providerKey s =
     (case mget (as_providers s) providerKey of
        None \<Rightarrow> (None, s)
      | Some p \<Rightarrow>
          (case ensureModelLocked lookup modelKey now p of (shard, p1) \<Rightarrow> (Some shard, put_provider providerKey p1 s)))"

fun ensure_shards ::
  "model_lookup \<Rightarrow> string \<Rightarrow> time \<Rightarrow> string list \<Rightarrow> auth_scheduler \<Rightarrow> model_scheduler option list \<times> auth_scheduler" where
  "ensure_shards lookup modelKey now [] s = ([], s)"
| "ensure_shards lookup modelKey now (providerKey # keys) s =
     (case ensure_shard lookup modelKey now providerKey s of
        (shard, s1) \<Rightarrow>
          (case ensure_shards lookup modelKey now keys s1 of (shards, s2) \<Rightarrow> (shard # shards, s2)))"

definition mixed_summary :: "entry_predicate \<Rightarrow> model_scheduler option \<Rightarrow> int \<times> int \<times> time \<Rightarrow> int \<times> int \<times> time" where
  "mixed_summary predicate shard0 acc =
     (case shard0 of
        None \<Rightarrow> acc
      | Some shard \<Rightarrow>
          (case (availabilitySummaryLocked predicate shard, acc) of
             ((localTotal, localCooldownCount, localEarliest), (candidates, cooldownCount, earliest)) \<Rightarrow>
               (candidates + localTotal, cooldownCount + localCooldownCount,
                if \<not> IsZero localEarliest \<and> (IsZero earliest \<or> localEarliest < earliest) then localEarliest else earliest)))"

definition mixedUnavailableErrorLocked ::
  "model_lookup \<Rightarrow> string list \<Rightarrow> string \<Rightarrow> entry_predicate \<Rightarrow> time \<Rightarrow> auth_scheduler \<Rightarrow> pick_error \<times> auth_scheduler" where
  "mixedUnavailableErrorLocked lookup providers model predicate now s =
     (case ensure_shards lookup (canonicalModelKey lookup model) now providers s of
        (shards, s1) \<Rightarrow>
          (unavailable_error now [] model (fold (mixed_summary predicate) shards (0, 0, zero_time)), s1))"

definition best_ready :: "entry_predicate \<Rightarrow> model_scheduler option \<Rightarrow> int option \<Rightarrow> int option" where
  "best_ready predicate shard0 best =
     (case shard0 of
        None \<Rightarrow> best
      | Some shard \<Rightarrow>
          (case highestReadyPriorityLocked False predicate shard of
             None \<Rightarrow> best
           | Some priorityReady \<Rightarrow>
               (case best of
                  None \<Rightarrow> Some priorityReady
                | Some bestPriority \<Rightarrow> if priorityReady > bestPriority then Some priorityReady else best)))"

text \<open>The first provider, in the given order, whose shard has a pick at the priority.\<close>

fun pick_in_order ::
  "int \<Rightarrow> scheduler_strategy \<Rightarrow> entry_predicate \<Rightarrow> (string \<times> model_scheduler option) list \<Rightarrow>
   (auth \<times> string \<times> model_scheduler) option" where
  "pick_in_order bestPriority strategy predicate [] = None"
| "pick_in_order bestPriority strategy predicate ((providerKey, None) # rest) =
     pick_in_order bestPriority strategy predicate rest"
| "pick_in_order bestPriority strategy predicate ((providerKey, Some shard) # rest) =
     (case pickReadyAtPriorityLocked False bestPriority strategy predicate shard of
        (Some picked, shard1) \<Rightarrow> Some (picked, providerKey, shard1)
      | (None, _) \<Rightarrow> pick_in_order bestPriority strategy predicate rest)"

definition ready_ids_at :: "int \<Rightarrow> model_scheduler option \<Rightarrow> string list" where
  "ready_ids_at priority shard0 =
     (case shard0 of
        None \<Rightarrow> []
      | Some shard \<Rightarrow>
          (case mget (sh_readyByPriority shard) priority of None \<Rightarrow> [] | Some bucket \<Rightarrow> rv_flat (rb_all bucket)))"

text \<open>
  The weighted choice over all providers. The entries of the shards lie in one map, which the ids
  address: a credential is in the shards of one provider only.
\<close>

definition mixed_entries :: "model_scheduler option list \<Rightarrow> entry_map" where
  "mixed_entries shards = concat (map (\<lambda>shard0. case shard0 of None \<Rightarrow> [] | Some shard \<Rightarrow> sh_entries shard) shards)"

definition mixed_weighted ::
  "string \<Rightarrow> int \<Rightarrow> entry_predicate \<Rightarrow> model_scheduler option list \<Rightarrow> auth_scheduler \<Rightarrow>
   (auth \<times> string) option \<times> auth_scheduler" where
  "mixed_weighted cursorKey bestPriority predicate shards s =
     (let ids = sort (concat (map (ready_ids_at bestPriority) shards));
          entries = mixed_entries shards;
          state0 = (case mget (as_mixedWeightedStates s) cursorKey of None \<Rightarrow> \<lparr>sw_current = [], sw_weights = []\<rparr> | Some st \<Rightarrow> st);
          state1 = prepare (scheduledWeightVectorMatching entries predicate ids) state0
      in (case pickSmoothWeightedScheduled entries predicate ids (sw_current state1) of
            (picked, current) \<Rightarrow>
              ((case picked of
                  None \<Rightarrow> None
                | Some i \<Rightarrow> map_option (\<lambda>entry. (sa_auth entry, sm_providerKey (sa_meta entry))) (mget entries i)),
               s\<lparr>as_mixedWeightedStates := mput cursorKey (state1\<lparr>sw_current := current\<rparr>) (as_mixedWeightedStates s)\<rparr>)))"

definition mixed_weights :: "int \<Rightarrow> entry_predicate \<Rightarrow> model_scheduler option list \<Rightarrow> nat list" where
  "mixed_weights bestPriority predicate shards =
     map (\<lambda>shard0. case shard0 of None \<Rightarrow> 0 | Some shard \<Rightarrow> readyCountAtPriorityLocked False bestPriority predicate shard) shards"

definition segment_start :: "nat list \<Rightarrow> nat \<Rightarrow> nat" where
  "segment_start weights i = sum_list (take i weights)"

text \<open>The loop over the offsets; the result is the choice and the slot after which to go on.\<close>

fun mixed_rotate ::
  "string list \<Rightarrow> model_scheduler option list \<Rightarrow> nat list \<Rightarrow> int \<Rightarrow> entry_predicate \<Rightarrow> nat \<Rightarrow> nat \<Rightarrow> nat list \<Rightarrow>
   (auth \<times> string \<times> model_scheduler \<times> nat) option" where
  "mixed_rotate normalized shards weights bestPriority predicate startProviderIndex slot [] = None"
| "mixed_rotate normalized shards weights bestPriority predicate startProviderIndex slot (offset # offsets) =
     (let providerIndex = (startProviderIndex + offset) mod length normalized in
      if weights ! providerIndex = 0
      then mixed_rotate normalized shards weights bestPriority predicate startProviderIndex slot offsets
      else
        let slot1 = (if providerIndex \<noteq> startProviderIndex then segment_start weights providerIndex else slot)
        in (case shards ! providerIndex of
              None \<Rightarrow> mixed_rotate normalized shards weights bestPriority predicate startProviderIndex slot1 offsets
            | Some shard \<Rightarrow>
                (case pickReadyAtPriorityLocked False bestPriority schedulerStrategyRoundRobin predicate shard of
                   (Some picked, shard1) \<Rightarrow> Some (picked, normalized ! providerIndex, shard1, slot1)
                 | (None, _) \<Rightarrow> mixed_rotate normalized shards weights bestPriority predicate startProviderIndex slot1 offsets)))"

definition fail_mixed ::
  "model_lookup \<Rightarrow> string list \<Rightarrow> string \<Rightarrow> entry_predicate \<Rightarrow> time \<Rightarrow> auth_scheduler \<Rightarrow>
   (pick_error + auth \<times> string) \<times> auth_scheduler" where
  "fail_mixed lookup normalized model predicate now s =
     (case mixedUnavailableErrorLocked lookup normalized model predicate now s of (err, s1) \<Rightarrow> (Inl err, s1))"

definition mixed_round_robin ::
  "model_lookup \<Rightarrow> string list \<Rightarrow> string \<Rightarrow> string \<Rightarrow> int \<Rightarrow> entry_predicate \<Rightarrow> time \<Rightarrow> model_scheduler option list \<Rightarrow>
   auth_scheduler \<Rightarrow> (pick_error + auth \<times> string) \<times> auth_scheduler" where
  "mixed_round_robin lookup normalized model cursorKey bestPriority predicate now shards s =
     (let weights = mixed_weights bestPriority predicate shards;
          totalWeight = sum_list weights
      in if totalWeight = 0 then fail_mixed lookup normalized model predicate now s
         else
           let startSlot = nat (rem64 (map_get0 (as_mixedCursors s) cursorKey) (int totalWeight))
           in (case find (\<lambda>i. weights ! i \<noteq> 0 \<and> startSlot < segment_start weights (Suc i)) [0..<length normalized] of
                 None \<Rightarrow> fail_mixed lookup normalized model predicate now s
               | Some startProviderIndex \<Rightarrow>
                   (case mixed_rotate normalized shards weights bestPriority predicate startProviderIndex startSlot
                           [0..<length normalized] of
                      None \<Rightarrow> fail_mixed lookup normalized model predicate now s
                    | Some (picked, providerKey, shard, slot) \<Rightarrow>
                        (Inr (picked, providerKey),
                         put_shard providerKey shard
                           (s\<lparr>as_mixedCursors := mput cursorKey (int slot + 1) (as_mixedCursors s)\<rparr>)))))"

definition pick_pinned ::
  "model_lookup \<Rightarrow> string list \<Rightarrow> string \<Rightarrow> string \<Rightarrow> scheduler_strategy \<Rightarrow> entry_predicate \<Rightarrow> time \<Rightarrow> time \<Rightarrow> time \<Rightarrow>
   auth_scheduler \<Rightarrow> (pick_error + auth \<times> string) \<times> auth_scheduler" where
  "pick_pinned lookup normalized model pinnedAuthID strategy predicate now1 now2 now3 s =
     (let providerKey = auth_provider_of s pinnedAuthID in
      if providerKey = [] \<or> \<not> containsProvider normalized providerKey then (Inl no_auth, s)
      else
        (case ensure_shard lookup (canonicalModelKey lookup model) now1 providerKey s of
           (None, s1) \<Rightarrow> (Inl no_auth, s1)
         | (Some shard, s1) \<Rightarrow>
             (case pickReadyLocked lookup now2 False strategy predicate shard of
                (Some picked, shard1) \<Rightarrow> (Inr (picked, providerKey), put_shard providerKey shard1 s1)
              | (None, shard1) \<Rightarrow>
                  (Inl (unavailableErrorLocked now3 ''mixed'' model predicate shard1), put_shard providerKey shard1 s1))))"

text \<open>The part of \<open>pickMixedWithStrategy\<close> for several providers and no pinned credential.\<close>

definition pick_across ::
  "model_lookup \<Rightarrow> string list \<Rightarrow> string \<Rightarrow> scheduler_strategy \<Rightarrow> entry_predicate \<Rightarrow> time \<Rightarrow> time \<Rightarrow>
   auth_scheduler \<Rightarrow> (pick_error + auth \<times> string) \<times> auth_scheduler" where
  "pick_across lookup normalized model strategy predicate now1 now3 s =
     (case ensure_shards lookup (canonicalModelKey lookup model) now1 normalized s of
        (shards, s1) \<Rightarrow>
          (case fold (best_ready predicate) shards None of
             None \<Rightarrow> fail_mixed lookup normalized model predicate now3 s1
           | Some bestPriority \<Rightarrow>
               let cursorKey = Join normalized '','' @ '':'' @ canonicalModelKey lookup model in
               if strategy = schedulerStrategyFillFirst then
                 (case pick_in_order bestPriority strategy predicate (zip normalized shards) of
                    Some (picked, providerKey, shard) \<Rightarrow> (Inr (picked, providerKey), put_shard providerKey shard s1)
                  | None \<Rightarrow> fail_mixed lookup normalized model predicate now3 s1)
               else if strategy = schedulerStrategyWeightedRoundRobin then
                 (case mixed_weighted cursorKey bestPriority predicate shards s1 of
                    (Some r, s2) \<Rightarrow> (Inr r, s2)
                  | (None, s2) \<Rightarrow> fail_mixed lookup normalized model predicate now3 s2)
               else mixed_round_robin lookup normalized model cursorKey bestPriority predicate now3 shards s1))"

definition pickMixedWithStrategy ::
  "model_lookup \<Rightarrow> pick_request \<Rightarrow> string list \<Rightarrow> string \<Rightarrow> string list \<Rightarrow> scheduler_strategy \<Rightarrow> time \<Rightarrow> time \<Rightarrow> time \<Rightarrow>
   auth_scheduler \<Rightarrow> (pick_error + auth \<times> string) \<times> auth_scheduler" where
  "pickMixedWithStrategy lookup rq providers model tried strategy0 now1 now2 now3 s =
     (let normalized = normalizeProviderKeys providers in
      case normalized of
        [] \<Rightarrow> (Inl (pick_failure ''provider_not_found'' ''no provider supplied''), s)
      | [providerKey] \<Rightarrow>
          (case pickSingleWithStrategy lookup rq providerKey model tried strategy0 now1 now2 now3 s of
             (Inl errPick, s1) \<Rightarrow> (Inl errPick, s1)
           | (Inr picked, s1) \<Rightarrow> (Inr (picked, providerKey), s1))
      | _ \<Rightarrow>
          let pinnedAuthID = pinnedAuthIDFromMetadata (rq_Metadata rq);
              strategy = effective_strategy strategy0 s;
              predicate = scheduledAuthPredicate (authSelectionEligibilityForRequest rq) tried pinnedAuthID
                            (strategy = schedulerStrategyWeightedRoundRobin)
          in if pinnedAuthID \<noteq> [] then pick_pinned lookup normalized model pinnedAuthID strategy predicate now1 now2 now3 s
             else pick_across lookup normalized model strategy predicate now1 now3 s)"

definition pickMixed ::
  "model_lookup \<Rightarrow> pick_request \<Rightarrow> string list \<Rightarrow> string \<Rightarrow> string list \<Rightarrow> time \<Rightarrow> time \<Rightarrow> time \<Rightarrow>
   auth_scheduler \<Rightarrow> (pick_error + auth \<times> string) \<times> auth_scheduler" where
  "pickMixed lookup rq providers model tried now1 now2 now3 s =
     pickMixedWithStrategy lookup rq providers model tried schedulerStrategyCurrent now1 now2 now3 s"

end
