(* ===== verification/Scheduler_Time.thy ===== *)
theory Scheduler_Time
  imports Selector_Contract Scheduler
begin

text \<open>
  Why the scheduler may keep what it computed: a credential that is not blocked stays so, and a
  blocked one keeps its block, reason and retry time until that time, as long as its snapshot does not
  change.
\<close>

section \<open>The block of a list of model states\<close>

definition untimed_block :: "model_state \<Rightarrow> block" where
  "untimed_block st = (True, if ms_Status st = StatusDisabled then blockReasonDisabled else blockReasonOther, zero_time)"

lemma matching_Cons:
  "matching lookup key ((m, x) # L) =
     (case x of Some st \<Rightarrow> if canonicalModelKey lookup m = key then st # matching lookup key L else matching lookup key L
      | None \<Rightarrow> matching lookup key L)"
  by (cases x) (auto simp: matching_def)

lemma timed_until: "0 \<le> now \<Longrightarrow> timed_state st \<Longrightarrow> state_availability st now =
     (if state_until now st > 0
      then (True, if q_Exceeded (ms_Quota st) then blockReasonCooldown else blockReasonOther, state_until now st)
      else not_blocked)"
  by (auto simp: state_availability_eq timed_state_def)

lemma untimed_availability: "0 \<le> now \<Longrightarrow> \<not> timed_state st \<Longrightarrow> ms_Status st \<noteq> StatusDisabled \<Longrightarrow>
   state_availability st now = (True, blockReasonOther, 0)"
  by (auto simp: state_availability_eq timed_state_def state_until_def block_until_def)

text \<open>A state without an end decides alone.\<close>

lemma state_block_untimed:
  assumes "0 \<le> now" and "find (\<lambda>st. \<not> timed_state st) (matching lookup key L) = Some st"
  shows "state_block lookup key now L matched acc = untimed_block st"
  using assms(2)
proof (induction L arbitrary: matched acc)
  case (Cons e L)
  obtain m x where e: "e = (m, x)" by fastforce
  show ?case
  proof (cases "x \<noteq> None \<and> canonicalModelKey lookup m = key")
    case False
    then show ?thesis using Cons by (cases x) (auto simp: e matching_Cons)
  next
    case True
    then obtain st' where x: "x = Some st'" by blast
    show ?thesis
    proof (cases "timed_state st'")
      case True
      then have "find (\<lambda>st. \<not> timed_state st) (matching lookup key L) = Some st"
        using Cons.prems \<open>x \<noteq> None \<and> _\<close> by (simp add: e x matching_Cons)
      from Cons.IH [OF this] True \<open>x \<noteq> None \<and> _\<close> state_until_nonneg [OF assms(1), of st'] show ?thesis
        by (auto simp: e x timed_until [OF assms(1)] timed_state_def)
    next
      case False
      then have "st = st'" using Cons.prems \<open>x \<noteq> None \<and> _\<close> by (simp add: e x matching_Cons)
      with False True show ?thesis
        by (simp add: e x untimed_block_def untimed_availability [OF assms(1)])
    qed
  qed
qed (simp add: matching_def)

text \<open>Otherwise the latest end decides, a quota block before others on a tie.\<close>

definition latest_block :: "time \<Rightarrow> model_state list \<Rightarrow> block" where
  "latest_block now sts =
     (let u = latest now sts 0 in
      if u = 0 then not_blocked
      else (True, if \<exists>st \<in> set sts. state_until now st = u \<and> q_Exceeded (ms_Quota st) then blockReasonCooldown else blockReasonOther, u))"

lemma latest_snoc: "latest now (sts @ [st]) t0 = max (latest now sts t0) (state_until now st)"
  by (simp add: latest_def)

lemma latest_ge: "state_until now st \<le> latest now sts t0" if "st \<in> set sts" "0 \<le> t0"
  using latest_pos [OF that(2), of "state_until now st - 1" now sts] that(1) by fastforce

lemma latest_nonneg: "0 \<le> t0 \<Longrightarrow> 0 \<le> latest now sts t0"
  using latest_pos [of t0 "t0 - 1" now sts] by simp

lemma state_block_latest:
  assumes now: "0 \<le> now" and "\<forall>st \<in> set (seen @ matching lookup key L). timed_state st"
    and "\<not> matched \<longrightarrow> seen = []"
  shows "state_block lookup key now L matched (latest_block now seen) = latest_block now (seen @ matching lookup key L)"
  using assms(2-)
proof (induction L arbitrary: matched "seen")
  case Nil
  then show ?case by (auto simp: matching_def latest_block_def)
next
  case (Cons e L)
  obtain m x where e: "e = (m, x)" by fastforce
  show ?case
  proof (cases "x \<noteq> None \<and> canonicalModelKey lookup m = key")
    case False
    then show ?thesis using Cons by (cases x) (auto simp: e matching_Cons)
  next
    case True
    then obtain st where x: "x = Some st" by blast
    have m: "matching lookup key (e # L) = st # matching lookup key L" using True by (simp add: matching_Cons e x)
    let ?u = "state_until now st" and ?v = "latest now seen 0"
    have u: "0 \<le> ?u" "0 \<le> ?v" by (auto intro: state_until_nonneg [OF now] latest_nonneg)
    have t: "timed_state st" "ms_Status st \<noteq> StatusDisabled" using Cons.prems(1) by (auto simp: m timed_state_def)
    have below: "state_until now s \<le> ?v" if "s \<in> set seen" for s using latest_ge [OF that, of 0] by simp
    have "state_block lookup key now (e # L) matched (latest_block now seen) =
        state_block lookup key now L True (latest_block now (seen @ [st]))"
    proof (cases "?u > ?v")
      case True
      then have "\<not> (\<exists>s \<in> set seen. state_until now s = ?u)" using below by force
      with True u \<open>x \<noteq> None \<and> _\<close> t show ?thesis
        by (auto simp: e x timed_until [OF now] latest_block_def latest_snoc Let_def max_def)
    next
      case False
      with u \<open>x \<noteq> None \<and> _\<close> t show ?thesis
        by (auto simp: e x timed_until [OF now] latest_block_def latest_snoc Let_def max_def)
    qed
    also have "\<dots> = latest_block now ((seen @ [st]) @ matching lookup key L)"
      using Cons.prems(1) by (intro Cons.IH) (auto simp: m)
    finally show ?thesis by (simp add: m)
  qed
qed

lemma state_block_eq:
  assumes "0 \<le> now"
  shows "state_block lookup key now L False not_blocked =
     (case find (\<lambda>st. \<not> timed_state st) (matching lookup key L) of
        Some st \<Rightarrow> untimed_block st | None \<Rightarrow> latest_block now (matching lookup key L))"
proof (cases "find (\<lambda>st. \<not> timed_state st) (matching lookup key L)")
  case None
  then have "\<forall>st \<in> set ([] @ matching lookup key L). timed_state st" by (simp add: find_None_iff)
  from state_block_latest [OF assms this, of False] None show ?thesis by (simp add: latest_block_def)
qed (simp add: state_block_untimed [OF assms])

section \<open>Stability\<close>

lemma block_until_mono: "0 \<le> t0 \<Longrightarrow> t0 \<le> t \<Longrightarrow>
   block_until a r c t = (if t < block_until a r c t0 then block_until a r c t0 else 0)"
  by (auto simp: block_until_def)

lemma state_until_mono: "0 \<le> t0 \<Longrightarrow> t0 \<le> t \<Longrightarrow>
   state_until t st = (if t < state_until t0 st then state_until t0 st else 0)"
  unfolding state_until_def by (rule block_until_mono)

lemma latest_mono: "0 \<le> t0 \<Longrightarrow> t0 \<le> t \<Longrightarrow>
   latest t sts 0 = (if t < latest t0 sts 0 then latest t0 sts 0 else 0)"
proof (induction sts rule: rev_induct)
  case (snoc st sts)
  then show ?case
    using latest_nonneg [of 0 t0 sts] state_until_nonneg [of t0 st]
    by (auto simp: latest_snoc state_until_mono [of t0 t] max_def)
qed simp

lemma latest_block_stable:
  assumes "0 \<le> t0" "t0 \<le> t" and "t < latest t0 sts 0 \<or> latest t0 sts 0 = 0"
  shows "latest_block t sts = latest_block t0 sts"
proof (cases "latest t0 sts 0 = 0")
  case True
  then show ?thesis using assms latest_mono [of t0 t sts] by (simp add: latest_block_def)
next
  case False
  then have "t < latest t0 sts 0" using assms by simp
  then have "latest t sts 0 = latest t0 sts 0"
    and "state_until t st = latest t0 sts 0 \<longleftrightarrow> state_until t0 st = latest t0 sts 0" for st
    using assms latest_mono [of t0 t sts] state_until_mono [of t0 t st] by auto
  then show ?thesis using False by (simp add: latest_block_def)
qed

lemma latest_block_parts:
  "fst (latest_block t sts) \<longleftrightarrow> latest t sts 0 \<noteq> 0" "snd (snd (latest_block t sts)) = latest t sts 0"
  "fst (snd (latest_block t sts)) \<noteq> blockReasonDisabled"
  by (auto simp: latest_block_def Let_def)

lemma scheduled_as_next:
  "snd (scheduled_as b) = (if fst b \<and> fst (snd b) \<noteq> blockReasonDisabled then snd (snd b) else 0)"
  by (auto simp: scheduled_as_def split: prod.splits)

text \<open>The scheduling state of a snapshot does not change before its retry time.\<close>

abbreviation sched_of :: "model_lookup \<Rightarrow> auth \<Rightarrow> string \<Rightarrow> time \<Rightarrow> scheduled_state \<times> time" where
  "sched_of lookup a model t \<equiv> scheduled_as (isAuthBlockedForModel lookup (Some a) model t)"

lemma sched_of_stable:
  assumes t: "0 \<le> t0" "t0 \<le> t" and next_: "snd (sched_of lookup a model t0) = 0 \<or> t < snd (sched_of lookup a model t0)"
  shows "sched_of lookup a model t = sched_of lookup a model t0"
proof (cases "auth_Disabled a \<or> auth_Status a = StatusDisabled")
  case True
  then show ?thesis by (simp add: isAuthBlockedForModel_def)
next
  case False
  have t': "0 \<le> t" using t by simp
  show ?thesis
  proof (cases "model \<noteq> [] \<and> auth_ModelStates a \<noteq> []")
    case True
    let ?m = "matching lookup (canonicalModelKey lookup model) (auth_ModelStates a)"
    have e: "isAuthBlockedForModel lookup (Some a) model u =
        (case find (\<lambda>st. \<not> timed_state st) ?m of Some st \<Rightarrow> untimed_block st | None \<Rightarrow> latest_block u ?m)" if "0 \<le> u" for u
      using True False state_block_eq [OF that] by (simp add: isAuthBlockedForModel_def)
    show ?thesis
    proof (cases "find (\<lambda>st. \<not> timed_state st) ?m")
      case None
      have "latest_block t ?m = latest_block t0 ?m"
        using next_ by (intro latest_block_stable [OF t]) (auto simp: e [OF t(1)] None scheduled_as_next latest_block_parts)
      then show ?thesis by (simp add: e [OF t(1)] e [OF t'] None)
    qed (simp add: e [OF t(1)] e [OF t'])
  next
    case no_model: False
    have e: "isAuthBlockedForModel lookup (Some a) model u = availabilityBlock (auth_Unavailable a) (q_Exceeded (auth_Quota a))
        (auth_NextRetryAfter a) (q_NextRecoverAt (auth_Quota a)) u" for u
      using no_model False by (auto simp: isAuthBlockedForModel_def)
    show ?thesis
      using next_ block_until_mono [OF t] block_until_nonneg [OF t(1)]
      by (auto simp: e availabilityBlock_eq [OF t(1)] availabilityBlock_eq [OF t'] scheduled_as_def split: if_splits)
  qed
qed

lemma sched_of_ready: "fst (sched_of lookup a model t) = scheduledStateReady \<longleftrightarrow>
   \<not> fst (isAuthBlockedForModel lookup (Some a) model t)"
  by (auto simp: scheduled_as_def split: prod.splits)

lemma sched_of_cooldown: "fst (sched_of lookup a model t) = scheduledStateCooldown \<longleftrightarrow> cooling lookup model t (Some a)"
  by (auto simp: scheduled_as_def cooling_def split: prod.splits)

lemma sched_of_recovery: "cooling lookup model t (Some a) \<Longrightarrow> snd (sched_of lookup a model t) = recovery lookup model t (Some a)"
  by (auto simp: scheduled_as_def cooling_def split: prod.splits)

lemma sched_of_zero:
  "fst (sched_of lookup a model t) \<in> {scheduledStateReady, scheduledStateDisabled} \<Longrightarrow> snd (sched_of lookup a model t) = 0"
  by (auto simp: scheduled_as_def split: prod.splits if_splits)

end
