(* ===== verification/Scheduler_Shards.thy ===== *)
theory Scheduler_Shards
  imports Scheduler_Time
begin

text \<open>
  The invariant of a model shard: its indexes are those a rebuild from the entries would give, also
  where the code skips the rebuild, and the state of every entry is what the availability check says of
  its snapshot at some earlier_retry time. After a promotion it is what the check says now.
\<close>

declare map_of_eq_Some_iff [simp del]

section \<open>Invariant\<close>

definition meta_ok :: "scheduled_auth_meta \<Rightarrow> bool" where
  "meta_ok meta \<longleftrightarrow>
     sm_priority meta = authPriority (Some (sm_auth meta)) \<and> sm_weight meta = authWeight (Some (sm_auth meta)) \<and>
     sm_websocketEnabled meta = authWebsocketsEnabled (Some (sm_auth meta)) \<and> auth_ID (sm_auth meta) \<noteq> []"

definition entry_wf :: "string \<Rightarrow> scheduled_auth \<Rightarrow> bool" where
  "entry_wf i e \<longleftrightarrow> sa_auth e = sm_auth (sa_meta e) \<and> auth_ID (sm_auth (sa_meta e)) = i \<and> meta_ok (sa_meta e)"

definition entries_ok :: "entry_map \<Rightarrow> bool" where
  "entries_ok E \<longleftrightarrow> wf_map E \<and> (\<forall>i e. mget E i = Some e \<longrightarrow> entry_wf i e)"

lemma entry_wf_simps [simp]:
  "entry_wf i (e\<lparr>sa_state := s, sa_nextRetryAt := n\<rparr>) = entry_wf i e"
  "entry_wf i \<lparr>sa_meta = meta, sa_auth = sm_auth meta, sa_state = s, sa_nextRetryAt = n\<rparr> \<longleftrightarrow>
     auth_ID (sm_auth meta) = i \<and> meta_ok meta"
  by (auto simp: entry_wf_def)

abbreviation prio_of :: "scheduled_auth \<Rightarrow> int" where
  "prio_of e \<equiv> sm_priority (sa_meta e)"

abbreviation ws_entry :: entry_predicate where
  "ws_entry e \<equiv> sm_websocketEnabled (sa_meta e)"

definition waiting :: entry_predicate where
  "waiting e \<longleftrightarrow> sa_state e = scheduledStateCooldown \<or> sa_state e = scheduledStateBlocked"

definition ready_at :: "entry_map \<Rightarrow> int \<Rightarrow> string list" where
  "ready_at E p = sort (map fst (filter (\<lambda>(i, e). sa_state e = scheduledStateReady \<and> prio_of e = p) E))"

definition bucket_ok :: "entry_map \<Rightarrow> int \<Rightarrow> ready_bucket \<Rightarrow> bool" where
  "bucket_ok E p b \<longleftrightarrow>
     rv_flat (rb_all b) = ready_at E p \<and> 0 \<le> rv_cursor (rb_all b) \<and>
     rv_flat (rb_ws b) = filter (entry_passes E ws_entry) (ready_at E p) \<and> 0 \<le> rv_cursor (rb_ws b)"

definition index_ok :: "model_scheduler \<Rightarrow> bool" where
  "index_ok m \<longleftrightarrow>
     wf_map (sh_readyByPriority m) \<and> sh_priorityOrder m = rev (sort (map fst (sh_readyByPriority m))) \<and>
     (\<forall>p. mget (sh_readyByPriority m) p = None \<longleftrightarrow> ready_at (sh_entries m) p = []) \<and>
     (\<forall>p b. mget (sh_readyByPriority m) p = Some b \<longrightarrow> bucket_ok (sh_entries m) p b) \<and>
     distinct (sh_blocked m) \<and> set (sh_blocked m) = {i. entry_passes (sh_entries m) waiting i}"

text \<open>As of time \<open>t\<close>: every entry was evaluated at some time up to \<open>t\<close>.\<close>

definition evaluated :: "model_lookup \<Rightarrow> string \<Rightarrow> time \<Rightarrow> scheduled_auth \<Rightarrow> bool" where
  "evaluated lookup key t e \<longleftrightarrow> (sa_state e, sa_nextRetryAt e) = sched_of lookup (sa_auth e) key t"

definition shard_ok :: "model_lookup \<Rightarrow> time \<Rightarrow> model_scheduler \<Rightarrow> bool" where
  "shard_ok lookup t m \<longleftrightarrow> entries_ok (sh_entries m) \<and> index_ok m \<and>
     (\<forall>i e. mget (sh_entries m) i = Some e \<longrightarrow> (\<exists>t0. 0 \<le> t0 \<and> t0 \<le> t \<and> evaluated lookup (sh_modelKey m) t0 e))"

definition shard_fresh :: "model_lookup \<Rightarrow> time \<Rightarrow> model_scheduler \<Rightarrow> bool" where
  "shard_fresh lookup t m \<longleftrightarrow> entries_ok (sh_entries m) \<and> index_ok m \<and>
     (\<forall>i e. mget (sh_entries m) i = Some e \<longrightarrow> evaluated lookup (sh_modelKey m) t e)"

definition metas_of :: "model_scheduler \<Rightarrow> string \<Rightarrow> scheduled_auth_meta option" where
  "metas_of m i = map_option sa_meta (mget (sh_entries m) i)"

lemma fresh_ok: "0 \<le> t \<Longrightarrow> t \<le> t' \<Longrightarrow> shard_fresh lookup t m \<Longrightarrow> shard_ok lookup t' m"
  unfolding shard_fresh_def shard_ok_def by blast

lemma shard_ok_later: "t \<le> t' \<Longrightarrow> shard_ok lookup t m \<Longrightarrow> shard_ok lookup t' m"
  unfolding shard_ok_def by (meson order_trans)

section \<open>Rebuilding the indexes\<close>

lemma insort_key_cong: "f x = g x \<Longrightarrow> \<forall>y \<in> set xs. f y = g y \<Longrightarrow> insort_key f x xs = insort_key g x xs"
  by (induction xs) auto

lemma sort_key_cong': "\<forall>y \<in> set xs. f y = g y \<Longrightarrow> sort_key f xs = sort_key g xs"
  by (induction xs) (auto intro!: insort_key_cong)

abbreviation ready_in :: "int \<Rightarrow> string \<times> scheduled_auth \<Rightarrow> bool" where
  "ready_in p \<equiv> \<lambda>(i, e). sa_state e = scheduledStateReady \<and> prio_of e = p"

lemma fold_index:
  assumes "fold index_entry E ([], []) = (B, bl)"
  shows "wf_map B" and "bl = map fst (filter (\<lambda>(i, e). waiting e) E)"
    and "mget B p = (if filter (ready_in p) E = [] then None else Some (map fst (filter (ready_in p) E)))"
proof -
  have "wf_map B \<and> bl = map fst (filter (\<lambda>(i, e). waiting e) E) \<and>
     (\<forall>p. mget B p = (if filter (ready_in p) E = [] then None else Some (map fst (filter (ready_in p) E))))"
    using assms
  proof (induction E arbitrary: B bl rule: rev_induct)
    case (snoc ie E)
    obtain i e where ie: "ie = (i, e)" by fastforce
    obtain B0 bl0 where f: "fold index_entry E ([], []) = (B0, bl0)" by fastforce
    have s: "index_entry (i, e) (B0, bl0) = (B, bl)" using snoc.prems by (simp add: ie f)
    from snoc.IH [OF f] have "wf_map B0" "bl0 = map fst (filter (\<lambda>(i, e). waiting e) E)"
      and "mget B0 p = (if filter (ready_in p) E = [] then None else Some (map fst (filter (ready_in p) E)))" for p by auto
    then show ?case
      using s by (cases "sa_state e") (auto simp: ie index_entry_def [of "(i, e)"] waiting_def Let_def split: if_splits)
  qed simp
  then show "wf_map B" "bl = map fst (filter (\<lambda>(i, e). waiting e) E)"
    "mget B p = (if filter (ready_in p) E = [] then None else Some (map fst (filter (ready_in p) E)))" by auto
qed

lemma filtered_key: "wf_map E \<Longrightarrow> i \<in> set (map fst (filter P E)) \<longleftrightarrow> entry_passes E (\<lambda>e. P (i, e)) i"
proof
  assume wf: "wf_map E" and "i \<in> set (map fst (filter P E))"
  then obtain e where "(i, e) \<in> set E" "P (i, e)" by auto
  then have "mget E i = Some e" using mget_in_set [OF wf] by blast
  then show "entry_passes E (\<lambda>e. P (i, e)) i" using \<open>P (i, e)\<close> by (simp add: entry_passes_def)
next
  assume wf: "wf_map E" and "entry_passes E (\<lambda>e. P (i, e)) i"
  then obtain e where "mget E i = Some e" "P (i, e)" by (auto simp: entry_passes_def split: option.splits)
  then have "(i, e) \<in> set E" by (simp add: map_of_SomeD)
  then show "i \<in> set (map fst (filter P E))" using \<open>P (i, e)\<close> by force
qed

lemma ready_at_mem:
  "wf_map E \<Longrightarrow> i \<in> set (ready_at E p) \<longleftrightarrow> entry_passes E (\<lambda>e. sa_state e = scheduledStateReady \<and> prio_of e = p) i"
  unfolding ready_at_def set_sort filtered_key by simp

lemma ready_at_Nil: "ready_at E p = [] \<longleftrightarrow> filter (ready_in p) E = []"
proof -
  have "ready_at E p = [] \<longleftrightarrow> set (ready_at E p) = {}" by simp
  also have "\<dots> \<longleftrightarrow> filter (ready_in p) E = []" unfolding ready_at_def by (auto simp: filter_empty_conv)
  finally show ?thesis .
qed

lemma rem64_nonneg: "0 \<le> a \<Longrightarrow> 0 < b \<Longrightarrow> rem64 a b = a mod b"
  by (simp add: rem64_def minus_mult_div_eq_mod)

lemma normalizeCursor_nonneg: "0 \<le> normalizeCursor c n"
  by (simp add: normalizeCursor_def Let_def rem64_nonneg)

lemma restore_view [simp]:
  "rv_flat (restoreReadyViewCursors E st v) = rv_flat v"
  "0 \<le> rv_cursor v \<Longrightarrow> 0 \<le> rv_cursor (restoreReadyViewCursors E st v)"
  by (auto simp: restoreReadyViewCursors_def Let_def normalizeCursor_nonneg)

lemma distinct_map_fst_filter: "wf_map E \<Longrightarrow> distinct (map fst (filter P E))"
  by (induction E) auto

lemma rebuild_index_ok:
  assumes "entries_ok (sh_entries m)"
  shows "index_ok (rebuildIndexesLocked m)"
proof -
  let ?E = "sh_entries m"
  obtain B bl where f: "fold index_entry ?E ([], []) = (B, bl)" by fastforce
  define R where "R = map (rebuild_bucket ?E (sh_readyByPriority m)) B"
  have wf: "wf_map ?E" and ids: "\<And>i e. mget ?E i = Some e \<Longrightarrow> auth_ID (sa_auth e) = i"
    using assms by (auto simp: entries_ok_def entry_wf_def)
  have r: "rebuildIndexesLocked m = m\<lparr>sh_readyByPriority := R, sh_priorityOrder := rev (sort (map fst B)),
      sh_blocked := sort_key (blocked_key ?E) bl\<rparr>"
    by (simp add: rebuildIndexesLocked_def f R_def)
  have keys: "map fst R = map fst B" by (auto simp: R_def rebuild_bucket_def Let_def)
  have get: "mget R p = map_option (\<lambda>l. snd (rebuild_bucket ?E (sh_readyByPriority m) (p, l))) (mget B p)" for p
    unfolding R_def by (induction B) (auto simp: rebuild_bucket_def Let_def split: option.splits)
  have sorted: "sort_key (\<lambda>i. auth_ID (sa_auth (the (mget ?E i)))) (map fst (filter (ready_in p) ?E)) = ready_at ?E p" for p
    unfolding ready_at_def
  proof (rule sort_key_cong', rule ballI)
    fix i assume "i \<in> set (map fst (filter (ready_in p) ?E))"
    then show "auth_ID (sa_auth (the (mget ?E i))) = i"
      using ids unfolding filtered_key [OF wf] by (auto simp: entry_passes_def split: option.splits)
  qed
  have bucket: "bucket_ok ?E p b" if "mget R p = Some b" for p b
    using that fold_index(3) [OF f, of p]
    by (auto simp: get rebuild_bucket_def Let_def sorted bucket_ok_def buildReadyBucket_def buildReadyView_def
        split: if_splits option.splits)
  have blocked: "distinct bl" "set bl = {i. entry_passes ?E waiting i}"
    unfolding fold_index(2) [OF f] using filtered_key [OF wf, of _ "\<lambda>(i, e). waiting e"] distinct_map_fst_filter [OF wf] by auto
  show ?thesis
    unfolding index_ok_def r using bucket blocked fold_index(1,3) [OF f] get
    by (simp add: ready_at_Nil keys)
qed

text \<open>What the indexes depend on.\<close>

definition entry_tag :: "string \<times> scheduled_auth \<Rightarrow> string \<times> scheduled_state \<times> int \<times> bool" where
  "entry_tag ie = (case ie of (i, e) \<Rightarrow> (i, sa_state e, prio_of e, ws_entry e))"

lemma mput_tag:
  "mget E i = Some e \<Longrightarrow> entry_tag (i, e') = entry_tag (i, e) \<Longrightarrow> map entry_tag (mput i e' E) = map entry_tag E"
  by (induction E) (auto simp: entry_tag_def split: if_splits)

lemma tags_ready_at: "map entry_tag E' = map entry_tag E \<Longrightarrow> ready_at E' p = ready_at E p"
proof -
  assume tags: "map entry_tag E' = map entry_tag E"
  have "map fst (filter (ready_in p) X) =
      map fst (filter (\<lambda>(i, s, q, w). s = scheduledStateReady \<and> q = p) (map entry_tag X))" for X
    by (induction X) (auto simp: entry_tag_def)
  then show ?thesis unfolding ready_at_def tags by (simp add: tags)
qed

lemma tags_entry_ok:
  assumes "map entry_tag E' = map entry_tag E"
    and "\<And>e e'. sa_state e' = sa_state e \<Longrightarrow> prio_of e' = prio_of e \<Longrightarrow> ws_entry e' = ws_entry e \<Longrightarrow> P e' = P e"
  shows "entry_passes E' P i = entry_passes E P i"
  using assms(1)
proof (induction E arbitrary: E')
  case Nil
  then show ?case by (simp add: entry_passes_def)
next
  case (Cons ie E)
  then obtain ie' E'' where E': "E' = ie' # E''" "entry_tag ie' = entry_tag ie" "map entry_tag E'' = map entry_tag E"
    by (cases E') auto
  with Cons.IH [of E''] assms(2) [of "snd ie'" "snd ie"] show ?case
    by (cases ie; cases ie') (simp add: entry_passes_def entry_tag_def [of "(_, _)"])
qed

lemma index_ok_tags:
  assumes "index_ok m" and tags: "map entry_tag E' = map entry_tag (sh_entries m)"
  shows "index_ok (m\<lparr>sh_entries := E'\<rparr>)"
proof -
  have "entry_passes E' ws_entry = entry_passes (sh_entries m) ws_entry" "entry_passes E' waiting = entry_passes (sh_entries m) waiting"
    by (rule ext, rule tags_entry_ok [OF tags], simp add: waiting_def)+
  then show ?thesis using assms(1) by (simp add: index_ok_def bucket_ok_def tags_ready_at [OF tags])
qed

section \<open>Operations on the entries\<close>

lemma rebuild_parts [simp]:
  "sh_entries (rebuildIndexesLocked m) = sh_entries m" "sh_modelKey (rebuildIndexesLocked m) = sh_modelKey m"
  by (simp_all add: rebuildIndexesLocked_def split: prod.splits)

lemma shard_ok_rebuild:
  "entries_ok (sh_entries m) \<Longrightarrow>
   (\<And>i e. mget (sh_entries m) i = Some e \<Longrightarrow> \<exists>t0. 0 \<le> t0 \<and> t0 \<le> t \<and> evaluated lookup (sh_modelKey m) t0 e) \<Longrightarrow>
   shard_ok lookup t (rebuildIndexesLocked m)"
  by (simp add: shard_ok_def rebuild_index_ok)

lemma upsertEntry_entries:
  "sh_entries (upsertEntryLocked lookup meta now m) =
     mput (auth_ID (sm_auth meta))
       \<lparr>sa_meta = meta, sa_auth = sm_auth meta, sa_state = fst (sched_of lookup (sm_auth meta) (sh_modelKey m) now),
        sa_nextRetryAt = snd (sched_of lookup (sm_auth meta) (sh_modelKey m) now)\<rparr> (sh_entries m)"
  "sh_modelKey (upsertEntryLocked lookup meta now m) = sh_modelKey m"
  by (auto simp: upsertEntryLocked_def Let_def split: prod.splits option.splits)

lemma upsertEntry_ok:
  assumes ok: "shard_ok lookup t m" and "meta_ok meta" and t: "0 \<le> now" "t \<le> now"
  shows "shard_ok lookup now (upsertEntryLocked lookup meta now m)"
proof -
  let ?i = "auth_ID (sm_auth meta)" and ?b = "sched_of lookup (sm_auth meta) (sh_modelKey m) now"
  let ?e = "\<lparr>sa_meta = meta, sa_auth = sm_auth meta, sa_state = fst ?b, sa_nextRetryAt = snd ?b\<rparr>"
  let ?m = "m\<lparr>sh_entries := mput ?i ?e (sh_entries m)\<rparr>"
  have e: "entries_ok (sh_entries ?m)" using ok assms(2) by (auto simp: shard_ok_def entries_ok_def)
  have ev: "\<exists>t0. 0 \<le> t0 \<and> t0 \<le> now \<and> evaluated lookup (sh_modelKey ?m) t0 x" if "mget (sh_entries ?m) j = Some x" for j x
    using that ok t by (force simp: shard_ok_def evaluated_def split: if_splits)
  show ?thesis
  proof (cases "upsertEntryLocked lookup meta now m = rebuildIndexesLocked ?m")
    case True
    then show ?thesis using shard_ok_rebuild [OF e ev] by simp
  next
    case False
    then obtain p where p: "mget (sh_entries m) ?i = Some p" "sa_state p = fst ?b" "prio_of p = sm_priority meta"
        "ws_entry p = sm_websocketEnabled meta" and u: "upsertEntryLocked lookup meta now m = ?m"
      by (auto simp: upsertEntryLocked_def Let_def split: prod.splits option.splits if_splits)
    have "index_ok ?m"
      using ok p by (intro index_ok_tags mput_tag [OF p(1)]) (simp_all add: shard_ok_def entry_tag_def)
    then show ?thesis unfolding u shard_ok_def using e ev by blast
  qed
qed

lemma upsertEntry_metas:
  "metas_of (upsertEntryLocked lookup meta now m) = (metas_of m)(auth_ID (sm_auth meta) \<mapsto> meta)"
  by (auto simp: metas_of_def upsertEntry_entries)

lemma removeEntry_ok: "shard_ok lookup t m \<Longrightarrow> shard_ok lookup t (removeEntryLocked i m)"
proof (cases "i = [] \<or> mget (sh_entries m) i = None")
  case False
  assume ok: "shard_ok lookup t m"
  then have "shard_ok lookup t (rebuildIndexesLocked (m\<lparr>sh_entries := mdel i (sh_entries m)\<rparr>))"
    by (intro shard_ok_rebuild) (auto simp: shard_ok_def entries_ok_def split: if_splits)
  with False show ?thesis by (auto simp: removeEntryLocked_def)
qed (auto simp: removeEntryLocked_def)

lemma removeEntry_parts:
  "i \<noteq> [] \<Longrightarrow> metas_of (removeEntryLocked i m) = (metas_of m)(i := None)"
  "sh_modelKey (removeEntryLocked i m) = sh_modelKey m"
  by (auto simp: metas_of_def removeEntryLocked_def)

section \<open>Promotion\<close>

definition expired :: "time \<Rightarrow> scheduled_auth \<Rightarrow> bool" where
  "expired now e \<longleftrightarrow> \<not> (IsZero (sa_nextRetryAt e) \<or> sa_nextRetryAt e > now)"

definition reevaluate :: "model_lookup \<Rightarrow> string \<Rightarrow> time \<Rightarrow> scheduled_auth \<Rightarrow> scheduled_auth" where
  "reevaluate lookup key now e =
     e\<lparr>sa_state := fst (sched_of lookup (sa_auth e) key now), sa_nextRetryAt := snd (sched_of lookup (sa_auth e) key now)\<rparr>"

lemma promote_entry_eq:
  "promote_entry lookup key now i (E, c) =
     (case mget E i of
        None \<Rightarrow> (E, c)
      | Some e \<Rightarrow> if expired now e then (mput i (reevaluate lookup key now e) E, True) else (E, c))"
  by (auto simp: promote_entry_def expired_def reevaluate_def split: option.splits prod.splits)

lemma fold_promote:
  assumes "distinct ids"
  shows "mget (fst (fold (promote_entry lookup key now) ids (E, c))) j =
      map_option (\<lambda>e. if j \<in> set ids \<and> expired now e then reevaluate lookup key now e else e) (mget E j) \<and>
    (wf_map E \<longrightarrow> wf_map (fst (fold (promote_entry lookup key now) ids (E, c)))) \<and>
    snd (fold (promote_entry lookup key now) ids (E, c)) = (c \<or> (\<exists>i \<in> set ids. entry_passes E (expired now) i))"
  using assms
proof (induction ids arbitrary: E c)
  case (Cons i ids)
  obtain E1 c1 where p: "promote_entry lookup key now i (E, c) = (E1, c1)" by fastforce
  have other: "entry_passes E1 Q k = entry_passes E Q k" if "k \<in> set ids" for k Q
    using p that Cons.prems by (auto simp: promote_entry_eq entry_passes_def split: option.splits if_splits)
  have c1: "c1 \<longleftrightarrow> c \<or> entry_passes E (expired now) i"
    using p by (auto simp: promote_entry_eq entry_passes_def split: option.splits if_splits)
  have E1: "mget E1 k = map_option (\<lambda>e. if k = i \<and> expired now e then reevaluate lookup key now e else e) (mget E k)" for k
    using p by (cases "mget E k") (auto simp: promote_entry_eq split: option.splits if_splits)
  have wf: "wf_map E \<longrightarrow> wf_map E1" using p by (auto simp: promote_entry_eq split: option.splits if_splits)
  from Cons.IH [of E1 c1] Cons.prems other c1 E1 wf p show ?case
    by (cases "mget E j") auto
qed (simp add: option.map_ident)

lemma fold_promote_unchanged:
  "\<not> snd (fold (promote_entry lookup key now) ids (E, c)) \<Longrightarrow> fst (fold (promote_entry lookup key now) ids (E, c)) = E"
proof (induction ids arbitrary: E c)
  case (Cons i ids)
  have true: "snd (fold (promote_entry lookup key now) ids (E', True))" for E' ids
    by (induction ids arbitrary: E') (auto simp: promote_entry_eq split: option.splits)
  from Cons true show ?case by (auto simp: promote_entry_eq split: option.splits if_splits)
qed simp

lemma promote_entries:
  assumes "shard_ok lookup t m"
  shows "mget (sh_entries (promoteExpiredLocked lookup now m)) j =
      map_option (\<lambda>e. if waiting e \<and> expired now e then reevaluate lookup (sh_modelKey m) now e else e) (mget (sh_entries m) j)"
    and "sh_modelKey (promoteExpiredLocked lookup now m) = sh_modelKey m"
    and "wf_map (sh_entries (promoteExpiredLocked lookup now m))"
proof -
  let ?f = "fold (promote_entry lookup (sh_modelKey m) now) (sh_blocked m) (sh_entries m, False)"
  have d: "distinct (sh_blocked m)" and b: "set (sh_blocked m) = {i. entry_passes (sh_entries m) waiting i}"
    and wf: "wf_map (sh_entries m)" using assms by (auto simp: shard_ok_def index_ok_def entries_ok_def)
  have e: "sh_entries (promoteExpiredLocked lookup now m) = fst ?f"
    using fold_promote_unchanged [of lookup "sh_modelKey m" now "sh_blocked m" "sh_entries m" False]
    by (auto simp: promoteExpiredLocked_def split: prod.splits)
  show "mget (sh_entries (promoteExpiredLocked lookup now m)) j =
      map_option (\<lambda>e. if waiting e \<and> expired now e then reevaluate lookup (sh_modelKey m) now e else e) (mget (sh_entries m) j)"
    unfolding e using fold_promote [OF d, of lookup "sh_modelKey m" now "sh_entries m" False j]
    by (cases "mget (sh_entries m) j") (auto simp: b entry_passes_def)
  show "wf_map (sh_entries (promoteExpiredLocked lookup now m))"
    unfolding e using fold_promote [OF d, of lookup "sh_modelKey m" now "sh_entries m" False j] wf by blast
  show "sh_modelKey (promoteExpiredLocked lookup now m) = sh_modelKey m"
    by (simp add: promoteExpiredLocked_def split: prod.splits)
qed

lemma promote_fresh:
  assumes ok: "shard_ok lookup t m" and t: "0 \<le> now" "t \<le> now"
  shows "shard_fresh lookup now (promoteExpiredLocked lookup now m)"
proof -
  let ?m = "promoteExpiredLocked lookup now m"
  note E = promote_entries [OF ok, of now]
  have e: "entries_ok (sh_entries ?m)"
    using ok E by (auto simp: shard_ok_def entries_ok_def reevaluate_def split: if_splits)
  have "index_ok ?m"
  proof (cases "snd (fold (promote_entry lookup (sh_modelKey m) now) (sh_blocked m) (sh_entries m, False))")
    case True
    then obtain E' where "?m = rebuildIndexesLocked (m\<lparr>sh_entries := E'\<rparr>)"
      unfolding promoteExpiredLocked_def by (simp add: case_prod_beta)
    then show ?thesis using rebuild_index_ok [of "m\<lparr>sh_entries := E'\<rparr>"] e by simp
  next
    case False
    then have "?m = m" by (auto simp: promoteExpiredLocked_def split: prod.splits)
    then show ?thesis using ok by (simp add: shard_ok_def)
  qed
  moreover have "evaluated lookup (sh_modelKey ?m) now x" if x: "mget (sh_entries ?m) i = Some x" for i x
  proof -
    obtain y where y: "mget (sh_entries m) i = Some y"
      and xy: "x = (if waiting y \<and> expired now y then reevaluate lookup (sh_modelKey m) now y else y)"
      using x E(1) [of i] by (cases "mget (sh_entries m) i") auto
    obtain t0 where t0: "0 \<le> t0" "t0 \<le> t" and ev: "(sa_state y, sa_nextRetryAt y) = sched_of lookup (sa_auth y) (sh_modelKey m) t0"
      using ok y by (auto simp: shard_ok_def evaluated_def)
    show ?thesis
    proof (cases "waiting y \<and> expired now y")
      case True
      then show ?thesis using xy E(2) by (simp add: evaluated_def reevaluate_def)
    next
      case False
      have st: "sa_state y = fst (sched_of lookup (sa_auth y) (sh_modelKey m) t0)"
        and nx: "sa_nextRetryAt y = snd (sched_of lookup (sa_auth y) (sh_modelKey m) t0)" using ev by (metis fst_conv snd_conv)+
      have "sa_nextRetryAt y = 0 \<or> now < sa_nextRetryAt y"
      proof (cases "waiting y")
        case True
        then show ?thesis using False by (auto simp: expired_def)
      next
        case False
        then have "sa_state y \<in> {scheduledStateReady, scheduledStateDisabled}"
          by (cases "sa_state y") (auto simp: waiting_def)
        then show ?thesis unfolding nx st using sched_of_zero by blast
      qed
      then have "sched_of lookup (sa_auth y) (sh_modelKey m) now = sched_of lookup (sa_auth y) (sh_modelKey m) t0"
        using t0 t nx by (intro sched_of_stable) auto
      then show ?thesis using xy False ev E(2) by (auto simp: evaluated_def)
    qed
  qed
  ultimately show ?thesis using e by (simp add: shard_fresh_def)
qed

lemma promote_metas: "shard_ok lookup t m \<Longrightarrow> metas_of (promoteExpiredLocked lookup now m) = metas_of m"
  by (rule ext) (auto simp: metas_of_def promote_entries option.map_comp comp_def reevaluate_def intro!: option.map_cong)

end
