(* ===== verification/Scheduler_Picks.thy ===== *)
theory Scheduler_Picks
  imports Scheduler_Shards
begin

text \<open>
  A pick from a shard: among the ready entries that the request may use, those with websocket transport
  when the request prefers it and there is one, it chooses one of the highest priority, and it chooses
  one whenever there is one.
\<close>

section \<open>Views\<close>

definition usable :: "entry_map \<Rightarrow> entry_predicate \<Rightarrow> string list \<Rightarrow> string list" where
  "usable E P ids = filter (entry_passes E P) ids"

definition picks_from :: "string option \<Rightarrow> string list \<Rightarrow> bool" where
  "picks_from picked ids \<longleftrightarrow> (case picked of None \<Rightarrow> ids = [] | Some i \<Rightarrow> i \<in> set ids)"

lemma find_picks: "picks_from (find Q xs) (filter Q xs)"
  by (induction xs) (auto simp: picks_from_def split: option.splits)

lemma pickFirst_picks: "picks_from (pickFirst E P v) (usable E P (rv_flat v))"
  unfolding usable_def pickFirst_def by (rule find_picks)

lemma pickFirst_None [simp]: "pickFirst E P v = None \<longleftrightarrow> usable E P (rv_flat v) = []"
  by (auto simp: usable_def pickFirst_def find_None_iff filter_empty_conv)

lemma pickRoundRobin_picks:
  assumes "0 \<le> rv_cursor v"
  shows "picks_from (fst (pickRoundRobin E P v)) (usable E P (rv_flat v))"
    and "rv_flat (snd (pickRoundRobin E P v)) = rv_flat v" and "0 \<le> rv_cursor (snd (pickRoundRobin E P v))"
proof -
  let ?n = "length (rv_flat v)" and ?s = "nat (rem64 (rv_cursor v) (int (length (rv_flat v))))"
  have all: "usable E P (rv_flat v) = []" if none: "\<forall>offset < ?n. \<not> entry_passes E P (rv_flat v ! ((?s + offset) mod ?n))"
  proof (rule ccontr)
    assume "usable E P (rv_flat v) \<noteq> []"
    then obtain k where k: "k < ?n" "entry_passes E P (rv_flat v ! k)"
      by (auto simp: usable_def filter_empty_conv in_set_conv_nth)
    let ?off = "(k + ?n - ?s mod ?n) mod ?n"
    have "(?s + ?off) mod ?n = (?s mod ?n + (k + ?n - ?s mod ?n)) mod ?n" by (simp add: mod_simps)
    also have "?s mod ?n + (k + ?n - ?s mod ?n) = k + ?n"
      using mod_less_divisor [of ?n ?s] k(1) by linarith
    finally have "(?s + ?off) mod ?n = k" using k(1) by simp
    with none k show False by (metis mod_less_divisor not_less_zero gr_zeroI)
  qed
  show "picks_from (fst (pickRoundRobin E P v)) (usable E P (rv_flat v))"
  proof (cases "find (\<lambda>offset. entry_passes E P (rv_flat v ! ((?s + offset) mod ?n))) [0..<?n]")
    case None
    then have "usable E P (rv_flat v) = []" by (intro all) (auto simp: find_None_iff)
    then show ?thesis using None by (auto simp: pickRoundRobin_def Let_def picks_from_def)
  next
    case (Some offset)
    then have "entry_passes E P (rv_flat v ! ((?s + offset) mod ?n))" "0 < ?n" by (auto simp: find_Some_iff)
    then show ?thesis using Some by (simp add: pickRoundRobin_def Let_def picks_from_def usable_def)
  qed
  show "rv_flat (snd (pickRoundRobin E P v)) = rv_flat v" "0 \<le> rv_cursor (snd (pickRoundRobin E P v))"
    using assms by (auto simp: pickRoundRobin_def Let_def split: option.splits)
qed

lemma fold_scheduled_picked:
  assumes "\<And>p c. picked = Some (p, c) \<Longrightarrow> p \<in> S" and "set (usable E (weighs P) ids) \<subseteq> S"
    and "usable E (weighs P) ids \<noteq> [] \<or> picked \<noteq> None"
  shows "\<exists>p c. snd (snd (fold (scheduled_visit E P) ids (cur, tot, picked))) = Some (p, c) \<and> p \<in> S"
  using assms
proof (induction ids arbitrary: cur tot picked)
  case (Cons i ids)
  obtain cur' tot' picked' where v: "scheduled_visit E P i (cur, tot, picked) = (cur', tot', picked')" by (metis prod_cases3)
  have "p \<in> S" if "picked' = Some (p, c)" for p c
    using v that Cons.prems by (auto simp: scheduled_visit_def usable_def entry_passes_def Let_def split: if_splits option.splits)
  moreover have "usable E (weighs P) ids \<noteq> [] \<or> picked' \<noteq> None"
    using v Cons.prems by (auto simp: scheduled_visit_def usable_def entry_passes_def Let_def split: if_splits option.splits)
  moreover have "set (usable E (weighs P) ids) \<subseteq> S" using Cons.prems by (auto simp: usable_def split: if_splits)
  ultimately show ?case using Cons.IH [of picked' cur' tot'] v by simp
qed (auto simp: usable_def)

lemma fold_scheduled_none:
  "usable E (weighs P) ids = [] \<Longrightarrow> fold (scheduled_visit E P) ids acc = acc"
  by (induction ids arbitrary: acc)
    (auto simp: scheduled_visit_def usable_def entry_passes_def split: if_splits option.splits prod.splits)

lemma pickSmooth_picks:
  "picks_from (fst (pickSmoothWeightedScheduled E P ids cur)) (usable E (weighs P) ids)"
proof (cases "usable E (weighs P) ids = []")
  case True
  then show ?thesis by (simp add: pickSmoothWeightedScheduled_def Let_def fold_scheduled_none picks_from_def)
next
  case False
  let ?c = "filter (\<lambda>(authID, _). authID \<in> set (active_ids E P ids)) cur"
  obtain p c where "snd (snd (fold (scheduled_visit E P) ids (?c, 0, None))) = Some (p, c)" "p \<in> set (usable E (weighs P) ids)"
    using fold_scheduled_picked [of None "set (usable E (weighs P) ids)" E P ids ?c 0] False by auto
  then show ?thesis
    by (auto simp: pickSmoothWeightedScheduled_def Let_def picks_from_def split: prod.splits)
qed

lemma view_pick_picks:
  assumes "0 \<le> rv_cursor v"
    and "strategy = schedulerStrategyWeightedRoundRobin \<Longrightarrow> (\<forall>e. P e \<longrightarrow> 0 < sm_weight (sa_meta e))"
  shows "picks_from (fst (view_pick strategy E P v)) (usable E P (rv_flat v))"
    and "rv_flat (snd (view_pick strategy E P v)) = rv_flat v" and "0 \<le> rv_cursor (snd (view_pick strategy E P v))"
proof -
  have w: "usable E (weighs P) ids = usable E P ids" if "strategy = schedulerStrategyWeightedRoundRobin" for ids
    unfolding usable_def using assms(2) [OF that]
    by (intro filter_cong) (auto simp: entry_passes_def weighs_def not_le split: option.splits)
  have nil: "picks_from None (usable E P [])" by (simp add: picks_from_def usable_def)
  show "picks_from (fst (view_pick strategy E P v)) (usable E P (rv_flat v))"
  proof (cases "strategy = schedulerStrategyWeightedRoundRobin")
    case True
    then show ?thesis
      using pickSmooth_picks [of E P "rv_flat v"] nil
      by (auto simp: view_pick_def pickWeighted_def Let_def w case_prod_beta)
  next
    case False
    then show ?thesis
      using pickFirst_picks pickRoundRobin_picks(1) [OF assms(1)] by (cases strategy) (auto simp: view_pick_def)
  qed
  show "rv_flat (snd (view_pick strategy E P v)) = rv_flat v" "0 \<le> rv_cursor (snd (view_pick strategy E P v))"
    using pickRoundRobin_picks(2,3) [OF assms(1)] assms(1)
    by (cases strategy; auto simp: view_pick_def pickWeighted_def Let_def split: prod.splits)+
qed

section \<open>Priorities\<close>

lemma first_priority_None:
  "first_priority Q B order = None \<longleftrightarrow> (\<forall>p \<in> set order. \<forall>b. mget B p = Some b \<longrightarrow> \<not> Q b)"
  by (induction order) (auto split: option.splits)

lemma first_priority_Some:
  "sorted_wrt (\<lambda>x y. y \<le> x) order \<Longrightarrow> first_priority Q B order = Some p \<Longrightarrow>
   (\<exists>b. mget B p = Some b \<and> Q b) \<and> (\<forall>q \<in> set order. \<forall>b. mget B q = Some b \<and> Q b \<longrightarrow> q \<le> p)"
  by (induction order) (auto split: option.splits if_splits)

lemma order_sorted: "index_ok m \<Longrightarrow> sorted_wrt (\<lambda>x y. y \<le> x) (sh_priorityOrder m)"
  by (simp add: index_ok_def sorted_wrt_rev)

lemma order_keys: "index_ok m \<Longrightarrow> p \<in> set (sh_priorityOrder m) \<longleftrightarrow> mget (sh_readyByPriority m) p \<noteq> None"
  by (auto simp: index_ok_def mget_eq_None_iff)

definition eligible :: "entry_predicate \<Rightarrow> model_scheduler \<Rightarrow> scheduled_auth set" where
  "eligible P m = {e. (\<exists>i. mget (sh_entries m) i = Some e) \<and> sa_state e = scheduledStateReady \<and> P e}"

definition preferred :: "bool \<Rightarrow> scheduled_auth set \<Rightarrow> scheduled_auth set" where
  "preferred pref S = (if pref \<and> (\<exists>e \<in> S. ws_entry e) then {e \<in> S. ws_entry e} else S)"

lemma preferred_False [simp]: "preferred False S = S"
  by (simp add: preferred_def)

definition top_entries :: "scheduled_auth set \<Rightarrow> scheduled_auth set" where
  "top_entries S = {e \<in> S. \<forall>e' \<in> S. prio_of e' \<le> prio_of e}"

text \<open>The entries behind the two views of a priority.\<close>

lemma usable_all:
  "entries_ok (sh_entries m) \<Longrightarrow> i \<in> set (usable (sh_entries m) P (ready_at (sh_entries m) p)) \<longleftrightarrow>
     (\<exists>e \<in> eligible P m. mget (sh_entries m) i = Some e \<and> prio_of e = p)"
  by (auto simp: usable_def eligible_def ready_at_mem entries_ok_def entry_passes_def split: option.splits)

lemma usable_ws:
  "entries_ok (sh_entries m) \<Longrightarrow>
   i \<in> set (usable (sh_entries m) P (filter (entry_passes (sh_entries m) ws_entry) (ready_at (sh_entries m) p))) \<longleftrightarrow>
     (\<exists>e \<in> eligible P m. mget (sh_entries m) i = Some e \<and> prio_of e = p \<and> ws_entry e)"
  by (auto simp: usable_def eligible_def ready_at_mem entries_ok_def entry_passes_def split: option.splits)

lemma set_empty_iff_all: "(\<forall>i. i \<notin> set xs) \<longleftrightarrow> xs = []"
  by (cases xs) auto

lemma usable_all_Nil:
  "entries_ok (sh_entries m) \<Longrightarrow> usable (sh_entries m) P (ready_at (sh_entries m) p) = [] \<longleftrightarrow>
     \<not> (\<exists>e \<in> eligible P m. prio_of e = p)"
proof -
  assume "entries_ok (sh_entries m)"
  note u = usable_all [OF this, of _ P p]
  have "(\<forall>i. i \<notin> set (usable (sh_entries m) P (ready_at (sh_entries m) p))) \<longleftrightarrow> \<not> (\<exists>e \<in> eligible P m. prio_of e = p)"
    unfolding u by (auto simp: eligible_def)
  then show ?thesis by (simp add: set_empty_iff_all)
qed

lemma usable_ws_Nil:
  "entries_ok (sh_entries m) \<Longrightarrow>
   usable (sh_entries m) P (filter (entry_passes (sh_entries m) ws_entry) (ready_at (sh_entries m) p)) = [] \<longleftrightarrow>
     \<not> (\<exists>e \<in> eligible P m. prio_of e = p \<and> ws_entry e)"
proof -
  let ?ids = "usable (sh_entries m) P (filter (entry_passes (sh_entries m) ws_entry) (ready_at (sh_entries m) p))"
  assume "entries_ok (sh_entries m)"
  note u = usable_ws [OF this, of _ P p]
  have "(\<forall>i. i \<notin> set ?ids) \<longleftrightarrow> \<not> (\<exists>e \<in> eligible P m. prio_of e = p \<and> ws_entry e)"
    unfolding u by (auto simp: eligible_def)
  then show ?thesis by (simp add: set_empty_iff_all)
qed

lemma eligible_bucket:
  assumes "index_ok m" "entries_ok (sh_entries m)" and e: "e \<in> eligible P m"
  shows "\<exists>b. mget (sh_readyByPriority m) (prio_of e) = Some b"
proof -
  have "ready_at (sh_entries m) (prio_of e) \<noteq> []"
    using usable_all_Nil [OF assms(2), of P "prio_of e"] e by (auto simp: usable_def)
  then show ?thesis using assms(1) by (auto simp: index_ok_def)
qed

lemma first_priority_view:
  assumes ok: "index_ok m" "entries_ok (sh_entries m)"
    and Q: "\<And>p b. mget (sh_readyByPriority m) p = Some b \<Longrightarrow> Q b \<longleftrightarrow> (\<exists>e \<in> S. prio_of e = p)" and S: "S \<subseteq> eligible P m"
  shows "case first_priority Q (sh_readyByPriority m) (sh_priorityOrder m) of
      None \<Rightarrow> S = {} | Some p \<Rightarrow> \<exists>e \<in> top_entries S. prio_of e = p"
proof -
  let ?f = "first_priority Q (sh_readyByPriority m) (sh_priorityOrder m)"
  have b: "\<exists>b. mget (sh_readyByPriority m) (prio_of e) = Some b \<and> Q b" if "e \<in> S" for e
    using eligible_bucket [OF ok, of e P] S that Q by blast
  show ?thesis
  proof (cases ?f)
    case None
    have "e \<notin> S" for e
      using None b [of e] order_keys [OF ok(1), of "prio_of e"] by (auto simp: first_priority_None)
    then show ?thesis using None by auto
  next
    case (Some p)
    from first_priority_Some [OF order_sorted [OF ok(1)] Some] obtain e where e: "e \<in> S" "prio_of e = p"
      and max: "\<forall>q \<in> set (sh_priorityOrder m). \<forall>b. mget (sh_readyByPriority m) q = Some b \<and> Q b \<longrightarrow> q \<le> p" using Q by blast
    have "prio_of e' \<le> p" if "e' \<in> S" for e'
      using max b [OF that] order_keys [OF ok(1), of "prio_of e'"] by auto
    with e Some show ?thesis by (auto simp: top_entries_def)
  qed
qed

lemma highest_priority:
  assumes ok: "index_ok m" "entries_ok (sh_entries m)"
  shows "case highestReadyPriorityLocked pref P m of
      None \<Rightarrow> eligible P m = {} | Some p \<Rightarrow> \<exists>e \<in> top_entries (preferred pref (eligible P m)). prio_of e = p"
proof -
  let ?S = "eligible P m" and ?W = "{e \<in> eligible P m. ws_entry e}"
  have bucket: "bucket_ok (sh_entries m) p b" if "mget (sh_readyByPriority m) p = Some b" for p b
    using ok(1) that by (simp add: index_ok_def)
  have all: "case first_priority (\<lambda>b. pickFirst (sh_entries m) P (rb_all b) \<noteq> None) (sh_readyByPriority m) (sh_priorityOrder m) of
      None \<Rightarrow> ?S = {} | Some p \<Rightarrow> \<exists>e \<in> top_entries ?S. prio_of e = p"
    using bucket usable_all_Nil [OF ok(2)] by (intro first_priority_view [OF ok, of _ _ P]) (auto simp: bucket_ok_def)
  have ws: "case first_priority (\<lambda>b. pickFirst (sh_entries m) P (rb_ws b) \<noteq> None) (sh_readyByPriority m) (sh_priorityOrder m) of
      None \<Rightarrow> ?W = {} | Some p \<Rightarrow> \<exists>e \<in> top_entries ?W. prio_of e = p"
    using bucket usable_ws_Nil [OF ok(2)] by (intro first_priority_view [OF ok, of _ _ P]) (auto simp: bucket_ok_def)
  show ?thesis
  proof (cases "pref \<and> ?W \<noteq> {}")
    case True
    then show ?thesis using ws
      by (auto simp: highestReadyPriorityLocked_def preferred_def simp del: pickFirst_None split: option.splits)
  next
    case False
    then show ?thesis using ws all
      by (auto simp: highestReadyPriorityLocked_def preferred_def top_entries_def simp del: pickFirst_None split: option.splits)
  qed
qed

section \<open>Picking\<close>

lemma put_bucket_index_ok:
  assumes "index_ok m" "mget (sh_readyByPriority m) p = Some b" "bucket_ok (sh_entries m) p b'"
  shows "index_ok (m\<lparr>sh_readyByPriority := mput p b' (sh_readyByPriority m)\<rparr>)"
proof -
  have "map fst (mput p b' B) = map fst B" if "mget B p \<noteq> None" for B
    using that by (simp add: update_keys mget_eq_None_iff)
  moreover have "ready_at (sh_entries m) p \<noteq> []" using assms(1,2) unfolding index_ok_def by (metis option.distinct(1))
  ultimately show ?thesis using assms by (auto simp: index_ok_def)
qed

lemma pickAtPriority:
  assumes ok: "index_ok m" "entries_ok (sh_entries m)"
    and w: "strategy = schedulerStrategyWeightedRoundRobin \<Longrightarrow> (\<forall>e. P e \<longrightarrow> 0 < sm_weight (sa_meta e))"
  shows "index_ok (snd (pickReadyAtPriorityLocked pref p strategy P m))"
    and "\<exists>R. snd (pickReadyAtPriorityLocked pref p strategy P m) = m\<lparr>sh_readyByPriority := R\<rparr>"
    and "case fst (pickReadyAtPriorityLocked pref p strategy P m) of
        None \<Rightarrow> \<not> (\<exists>e \<in> eligible P m. prio_of e = p)
      | Some a \<Rightarrow> \<exists>e \<in> preferred pref {e \<in> eligible P m. prio_of e = p}. a = sa_auth e"
proof -
  let ?r = "pickReadyAtPriorityLocked pref p strategy P m" and ?E = "sh_entries m"
  have "index_ok (snd ?r) \<and> (\<exists>R. snd ?r = m\<lparr>sh_readyByPriority := R\<rparr>) \<and>
    (case fst ?r of None \<Rightarrow> \<not> (\<exists>e \<in> eligible P m. prio_of e = p)
      | Some a \<Rightarrow> \<exists>e \<in> preferred pref {e \<in> eligible P m. prio_of e = p}. a = sa_auth e)"
  proof (cases "mget (sh_readyByPriority m) p")
    case None
    then have "\<not> (\<exists>e \<in> eligible P m. prio_of e = p)" using eligible_bucket [OF ok] by fastforce
    moreover have "\<exists>R. m = m\<lparr>sh_readyByPriority := R\<rparr>" by (rule exI [of _ "sh_readyByPriority m"]) simp
    ultimately show ?thesis using None ok by (simp add: pickReadyAtPriorityLocked_def)
  next
    case (Some b)
    then have b: "bucket_ok ?E p b" using ok(1) by (simp add: index_ok_def)
    note v = view_pick_picks [where strategy = strategy and E = ?E and P = P, OF _ w]
    have c: "0 \<le> rv_cursor (rb_all b)" "0 \<le> rv_cursor (rb_ws b)" using b by (auto simp: bucket_ok_def)
    show ?thesis
    proof (cases "pref \<and> pickFirst ?E P (rb_ws b) \<noteq> None")
      case True
      obtain x view where vp: "view_pick strategy ?E P (rb_ws b) = (x, view)" by fastforce
      have r: "?r = (picked_auth ?E x, m\<lparr>sh_readyByPriority := mput p (b\<lparr>rb_ws := view\<rparr>) (sh_readyByPriority m)\<rparr>)"
        using True Some vp unfolding pickReadyAtPriorityLocked_def by simp
      have "bucket_ok ?E p (b\<lparr>rb_ws := view\<rparr>)" using b v(2,3) [OF c(2)] vp by (simp add: bucket_ok_def)
      then have "index_ok (snd ?r)" unfolding r snd_conv by (rule put_bucket_index_ok [OF ok(1) Some])
      moreover obtain i where i: "x = Some i" "i \<in> set (usable ?E P (rv_flat (rb_ws b)))"
        using v(1) [OF c(2)] vp True by (auto simp: picks_from_def split: option.splits)
      moreover from i(2) obtain e where "e \<in> eligible P m" "mget ?E i = Some e" "prio_of e = p" "ws_entry e"
        using b usable_ws [OF ok(2)] by (auto simp: bucket_ok_def)
      ultimately show ?thesis using True unfolding r by (auto simp: picked_auth_def preferred_def)
    next
      case False
      obtain x view where vp: "view_pick strategy ?E P (rb_all b) = (x, view)" by fastforce
      have r: "?r = (picked_auth ?E x, m\<lparr>sh_readyByPriority := mput p (b\<lparr>rb_all := view\<rparr>) (sh_readyByPriority m)\<rparr>)"
        using False Some vp unfolding pickReadyAtPriorityLocked_def by auto
      have "bucket_ok ?E p (b\<lparr>rb_all := view\<rparr>)" using b v(2,3) [OF c(1)] vp by (simp add: bucket_ok_def)
      then have ix: "index_ok (snd ?r)" unfolding r snd_conv by (rule put_bucket_index_ok [OF ok(1) Some])
      have nows: "\<not> (pref \<and> (\<exists>e \<in> eligible P m. prio_of e = p \<and> ws_entry e))"
        using False b usable_ws_Nil [OF ok(2)] by (auto simp: bucket_ok_def)
      have p: "picks_from x (usable ?E P (ready_at ?E p))" using v(1) [OF c(1)] vp b by (simp add: bucket_ok_def)
      show ?thesis
      proof (cases x)
        case None
        with p ix r show ?thesis by (auto simp: picks_from_def picked_auth_def usable_all_Nil [OF ok(2)])
      next
        case (Some i)
        then obtain e where "e \<in> eligible P m" "mget ?E i = Some e" "prio_of e = p"
          using p usable_all [OF ok(2)] by (auto simp: picks_from_def)
        with Some ix r nows show ?thesis by (auto simp: picked_auth_def preferred_def)
      qed
    qed
  qed
  then show "index_ok (snd ?r)" "\<exists>R. snd ?r = m\<lparr>sh_readyByPriority := R\<rparr>"
    "case fst ?r of None \<Rightarrow> \<not> (\<exists>e \<in> eligible P m. prio_of e = p)
      | Some a \<Rightarrow> \<exists>e \<in> preferred pref {e \<in> eligible P m. prio_of e = p}. a = sa_auth e" by auto
qed

text \<open>The pick of a shard.\<close>

lemma pickReady_ok:
  assumes ok: "shard_ok lookup t m" and t: "0 \<le> now" "t \<le> now"
    and w: "strategy = schedulerStrategyWeightedRoundRobin \<Longrightarrow> (\<forall>e. P e \<longrightarrow> 0 < sm_weight (sa_meta e))"
  shows "shard_fresh lookup now (snd (pickReadyLocked lookup now pref strategy P m))"
    and "sh_entries (snd (pickReadyLocked lookup now pref strategy P m)) = sh_entries (promoteExpiredLocked lookup now m)"
    and "case fst (pickReadyLocked lookup now pref strategy P m) of
        None \<Rightarrow> eligible P (promoteExpiredLocked lookup now m) = {}
      | Some a \<Rightarrow> \<exists>e \<in> top_entries (preferred pref (eligible P (promoteExpiredLocked lookup now m))). a = sa_auth e"
    and "sh_modelKey (snd (pickReadyLocked lookup now pref strategy P m)) = sh_modelKey m"
proof -
  let ?m = "promoteExpiredLocked lookup now m" and ?r = "pickReadyLocked lookup now pref strategy P m"
  have fr: "shard_fresh lookup now ?m" by (rule promote_fresh [OF ok t])
  then have i: "index_ok ?m" "entries_ok (sh_entries ?m)" by (auto simp: shard_fresh_def)
  have key: "sh_modelKey ?m = sh_modelKey m" by (rule promote_entries(2) [OF ok])
  have "shard_fresh lookup now (snd ?r) \<and> sh_entries (snd ?r) = sh_entries ?m \<and>
      (case fst ?r of None \<Rightarrow> eligible P ?m = {}
       | Some a \<Rightarrow> \<exists>e \<in> top_entries (preferred pref (eligible P ?m)). a = sa_auth e) \<and> sh_modelKey (snd ?r) = sh_modelKey m"
  proof (cases "highestReadyPriorityLocked pref P ?m")
    case None
    then have "?r = (None, ?m)" by (simp add: pickReadyLocked_def)
    with fr key highest_priority [where pref = pref and P = P, OF i] None show ?thesis by simp
  next
    case (Some p)
    then have r: "?r = pickReadyAtPriorityLocked pref p strategy P ?m" by (simp add: pickReadyLocked_def)
    note a = pickAtPriority [where p = p and pref = pref and strategy = strategy and P = P, OF i w, folded r]
    obtain R where R: "snd ?r = ?m\<lparr>sh_readyByPriority := R\<rparr>" using a(2) by blast
    have f: "shard_fresh lookup now (snd ?r)" using fr a(1) by (simp add: shard_fresh_def R)
    obtain e where e: "e \<in> top_entries (preferred pref (eligible P ?m))" "prio_of e = p"
      using highest_priority [where pref = pref and P = P, OF i] Some by auto
    have "e \<in> eligible P ?m" using e(1) by (auto simp: top_entries_def preferred_def split: if_splits)
    then obtain x y where x: "fst ?r = Some x" "y \<in> preferred pref {e \<in> eligible P ?m. prio_of e = p}" "x = sa_auth y"
      using a(3) e(2) by (cases "fst ?r") auto
    have "y \<in> preferred pref (eligible P ?m)" "prio_of y = p"
      using x(2) e by (auto simp: preferred_def top_entries_def split: if_splits)
    then have "y \<in> top_entries (preferred pref (eligible P ?m))" using e by (auto simp: top_entries_def)
    with x f key show ?thesis by (auto simp: R)
  qed
  then show "shard_fresh lookup now (snd ?r)" "sh_entries (snd ?r) = sh_entries ?m"
    "case fst ?r of None \<Rightarrow> eligible P ?m = {}
       | Some a \<Rightarrow> \<exists>e \<in> top_entries (preferred pref (eligible P ?m)). a = sa_auth e" "sh_modelKey (snd ?r) = sh_modelKey m" by auto
qed

text \<open>Fill first takes the least id of the highest priority.\<close>

lemma find_hd_filter: "find Q xs = (if filter Q xs = [] then None else Some (hd (filter Q xs)))"
  by (induction xs) auto

lemma hd_sorted_le: "sorted xs \<Longrightarrow> y \<in> set xs \<Longrightarrow> hd xs \<le> y"
  by (cases xs) auto

lemma pickReady_first:
  assumes ok: "shard_ok lookup t m" and t: "0 \<le> now" "t \<le> now"
    and a: "fst (pickReadyLocked lookup now False schedulerStrategyFillFirst P m) = Some a"
    and e: "e \<in> top_entries (eligible P (promoteExpiredLocked lookup now m))"
  shows "auth_ID a \<le> auth_ID (sa_auth e)"
proof -
  let ?m = "promoteExpiredLocked lookup now m"
  have i: "index_ok ?m" "entries_ok (sh_entries ?m)" using promote_fresh [OF ok t] by (auto simp: shard_fresh_def)
  obtain p where p: "highestReadyPriorityLocked False P ?m = Some p"
    using a by (cases "highestReadyPriorityLocked False P ?m") (auto simp: pickReadyLocked_def Let_def)
  have pe: "prio_of e = p"
    using highest_priority [where pref = False and P = P, OF i] p e by (auto simp: preferred_def top_entries_def intro: order_antisym)
  have el: "e \<in> eligible P ?m" using e by (simp add: top_entries_def)
  then obtain j where j: "mget (sh_entries ?m) j = Some e" by (auto simp: eligible_def)
  obtain b where b: "mget (sh_readyByPriority ?m) p = Some b" using eligible_bucket [OF i el] pe by auto
  let ?u = "usable (sh_entries ?m) P (ready_at (sh_entries ?m) p)"
  have flat: "rv_flat (rb_all b) = ready_at (sh_entries ?m) p" using i(1) b by (auto simp: index_ok_def bucket_ok_def)
  have "fst (pickReadyLocked lookup now False schedulerStrategyFillFirst P m) = picked_auth (sh_entries ?m) (find (entry_passes (sh_entries ?m) P) (ready_at (sh_entries ?m) p))"
    by (simp add: pickReadyLocked_def Let_def p pickReadyAtPriorityLocked_def b view_pick_def pickFirst_def flat)
  then have u: "?u \<noteq> []" "picked_auth (sh_entries ?m) (Some (hd ?u)) = Some a"
    using a by (auto simp: find_hd_filter usable_def picked_auth_def split: if_splits)
  then obtain e' where e': "mget (sh_entries ?m) (hd ?u) = Some e'" "sa_auth e' = a" by (auto simp: picked_auth_def split: option.splits)
  have ids: "auth_ID (sa_auth x) = k" if "mget (sh_entries ?m) k = Some x" for k x
    using i(2) that by (auto simp: entries_ok_def entry_wf_def)
  have "j \<in> set ?u" using usable_all [OF i(2)] el j pe by blast
  moreover have "sorted ?u" unfolding usable_def ready_at_def by (intro sorted_wrt_filter) simp
  ultimately have "hd ?u \<le> j" by (intro hd_sorted_le)
  then show ?thesis using ids [OF e'(1)] ids [OF j] e'(2) by simp
qed

end
