(* ===== verification/Scheduler_Refine.thy ===== *)
theory Scheduler_Refine
  imports Scheduler_Picks
begin

text \<open>
  The scheduler as a whole refines a map from ids to the metadata last given to it. The invariant
  says that every shard holds exactly the known credentials of its provider that support its model.
\<close>

section \<open>Providers\<close>

definition supporting :: "model_lookup \<Rightarrow> string \<Rightarrow> scheduled_auth_meta option \<Rightarrow> scheduled_auth_meta option" where
  "supporting lookup key meta0 =
     (case meta0 of None \<Rightarrow> None | Some meta \<Rightarrow> if supportsModel lookup meta key then Some meta else None)"

definition shard_of :: "model_lookup \<Rightarrow> time \<Rightarrow> (string, scheduled_auth_meta) gomap \<Rightarrow> string \<Rightarrow> model_scheduler \<Rightarrow> bool" where
  "shard_of lookup t auths key m \<longleftrightarrow> sh_modelKey m = key \<and> shard_ok lookup t m \<and>
     (\<forall>i. metas_of m i = supporting lookup key (mget auths i))"

definition prov_ok :: "model_lookup \<Rightarrow> time \<Rightarrow> provider_scheduler \<Rightarrow> bool" where
  "prov_ok lookup t p \<longleftrightarrow>
     wf_map (ps_auths p) \<and> (\<forall>i meta. mget (ps_auths p) i = Some meta \<longrightarrow> auth_ID (sm_auth meta) = i \<and> meta_ok meta) \<and>
     (\<forall>key m. mget (ps_modelShards p) key = Some m \<longrightarrow> shard_of lookup t (ps_auths p) key m)"

lemma supporting_simps [simp]:
  "supporting lookup key None = None"
  "supporting lookup key (Some meta) = (if supportsModel lookup meta key then Some meta else None)"
  by (simp_all add: supporting_def)

lemma mget_map_val: "mget (map (\<lambda>(k, v). (k, f k v)) L) k = map_option (f k) (mget L k)"
  by (induction L) auto

lemma shard_of_later: "t \<le> t' \<Longrightarrow> shard_of lookup t auths key m \<Longrightarrow> shard_of lookup t' auths key m"
  using shard_ok_later by (auto simp: shard_of_def)

lemma prov_ok_later: "t \<le> t' \<Longrightarrow> prov_ok lookup t p \<Longrightarrow> prov_ok lookup t' p"
  using shard_of_later by (auto simp: prov_ok_def)

lemma shard_of_upsert:
  assumes "shard_of lookup t auths key m" "meta_ok meta" "0 \<le> now" "t \<le> now"
  shows "shard_of lookup now (mput (auth_ID (sm_auth meta)) meta auths) key
     (if \<not> supportsModel lookup meta key then removeEntryLocked (auth_ID (sm_auth meta)) m else upsertEntryLocked lookup meta now m)"
proof -
  have ne: "auth_ID (sm_auth meta) \<noteq> []" using assms(2) by (simp add: meta_ok_def)
  show ?thesis
  proof (cases "supportsModel lookup meta key")
    case True
    then show ?thesis using assms upsertEntry_ok
      by (auto simp: shard_of_def upsertEntry_metas upsertEntry_entries(2))
  next
    case False
    then show ?thesis using assms removeEntry_ok shard_ok_later [of t now] ne
      by (auto simp: shard_of_def removeEntry_parts)
  qed
qed

lemma shard_of_remove:
  "i \<noteq> [] \<Longrightarrow> shard_of lookup t auths key m \<Longrightarrow> shard_of lookup t (mdel i auths) key (removeEntryLocked i m)"
  using removeEntry_ok by (auto simp: shard_of_def removeEntry_parts)

lemma provider_upsert_ok:
  assumes "prov_ok lookup t p" "meta_ok meta" "0 \<le> now" "t \<le> now"
  shows "prov_ok lookup now (provider_upsertAuthLocked lookup meta now p)"
proof -
  define f where "f = (\<lambda>key m. if \<not> supportsModel lookup meta key
      then removeEntryLocked (auth_ID (sm_auth meta)) m else upsertEntryLocked lookup meta now m)"
  have s: "map (upsert_shard lookup meta now) L = map (\<lambda>(key, m). (key, f key m)) L" for L
    by (auto simp: upsert_shard_def f_def)
  have "shard_of lookup now (mput (auth_ID (sm_auth meta)) meta (ps_auths p)) key (f key m)"
    if "mget (ps_modelShards p) key = Some m" for key m
    unfolding f_def using assms that by (intro shard_of_upsert [where t = t]) (auto simp: prov_ok_def)
  then show ?thesis using assms(1,2) unfolding provider_upsertAuthLocked_def prov_ok_def
    by (auto simp: s mget_map_val split: if_splits)
qed

lemma provider_remove_ok: "prov_ok lookup t p \<Longrightarrow> prov_ok lookup t (provider_removeAuthLocked i p)"
  unfolding provider_removeAuthLocked_def prov_ok_def
  by (auto simp: mget_map_val intro: shard_of_remove split: if_splits)

lemma provider_auths [simp]:
  "ps_auths (provider_upsertAuthLocked lookup meta now p) = mput (auth_ID (sm_auth meta)) meta (ps_auths p)"
  "i \<noteq> [] \<Longrightarrow> ps_auths (provider_removeAuthLocked i p) = mdel i (ps_auths p)"
  "ps_auths (snd (ensureModelLocked lookup key now p)) = ps_auths p"
  by (simp_all add: provider_upsertAuthLocked_def provider_removeAuthLocked_def ensureModelLocked_def Let_def)

subsection \<open>Building and promoting a shard\<close>

lemma upsertEntry_fresh:
  assumes "shard_fresh lookup now m" "meta_ok meta" "0 \<le> now"
  shows "shard_fresh lookup now (upsertEntryLocked lookup meta now m)"
proof -
  have "shard_ok lookup now (upsertEntryLocked lookup meta now m)"
    using upsertEntry_ok [OF fresh_ok [OF assms(3) order_refl assms(1)] assms(2,3)] by simp
  then show ?thesis using assms(1)
    by (auto simp: shard_fresh_def shard_ok_def upsertEntry_entries evaluated_def split: if_splits)
qed

lemma build_shard:
  assumes "0 \<le> now" and "shard_fresh lookup now m" and "wf_map auths"
    and "\<forall>i meta. mget auths i = Some meta \<longrightarrow> auth_ID (sm_auth meta) = i \<and> meta_ok meta"
  shows "let m' = fold (\<lambda>meta m. if supportsModel lookup meta key then upsertEntryLocked lookup meta now m else m) (map snd auths) m
     in shard_fresh lookup now m' \<and> sh_modelKey m' = sh_modelKey m \<and>
        (\<forall>i. metas_of m' i = (case supporting lookup key (mget auths i) of None \<Rightarrow> metas_of m i | Some meta \<Rightarrow> Some meta))"
  using assms(2-)
proof (induction auths arbitrary: m)
  case (Cons im auths)
  obtain i meta where im: "im = (i, meta)" by fastforce
  let ?m = "if supportsModel lookup meta key then upsertEntryLocked lookup meta now m else m"
  have i: "auth_ID (sm_auth meta) = i" "meta_ok meta" using Cons.prems(3) [rule_format, of i meta] im by auto
  have "shard_fresh lookup now ?m" using upsertEntry_fresh [OF Cons.prems(1) i(2) assms(1)] Cons.prems(1) by simp
  moreover have "mget auths i = None" using Cons.prems(2) im by (simp add: mget_eq_None_iff)
  moreover have "\<forall>j meta. mget auths j = Some meta \<longrightarrow> auth_ID (sm_auth meta) = j \<and> meta_ok meta"
    using Cons.prems(3) calculation(2) im by (metis map_of_Cons_code(2) option.distinct(1))
  ultimately show ?case using Cons.IH [of ?m] Cons.prems(2) i
    by (auto simp: im Let_def upsertEntry_metas upsertEntry_entries(2) split: option.splits)
qed simp

lemma empty_shard_fresh: "shard_fresh lookup now (empty_shard key)" "metas_of (empty_shard key) i = None"
  "sh_modelKey (empty_shard key) = key"
  by (simp_all add: shard_fresh_def empty_shard_def entries_ok_def index_ok_def ready_at_def metas_of_def entry_passes_def)

lemma ensureModel_ok:
  assumes ok: "prov_ok lookup t p" and t: "0 \<le> now" "t \<le> now"
  shows "shard_fresh lookup now (fst (ensureModelLocked lookup key0 now p))"
    and "shard_of lookup now (ps_auths p) (canonicalModelKey lookup key0) (fst (ensureModelLocked lookup key0 now p))"
    and "prov_ok lookup now (snd (ensureModelLocked lookup key0 now p))"
proof -
  let ?key = "canonicalModelKey lookup key0" and ?m = "fst (ensureModelLocked lookup key0 now p)"
  have "shard_fresh lookup now ?m \<and> sh_modelKey ?m = ?key \<and> (\<forall>i. metas_of ?m i = supporting lookup ?key (mget (ps_auths p) i))"
  proof (cases "mget (ps_modelShards p) ?key")
    case (Some sh)
    then have sh: "shard_of lookup t (ps_auths p) ?key sh" using ok by (simp add: prov_ok_def)
    have "?m = promoteExpiredLocked lookup now sh" by (simp add: ensureModelLocked_def Let_def Some)
    then show ?thesis
      using sh promote_fresh [OF _ t] promote_metas [of lookup t sh now] promote_entries(2) [of lookup t sh now]
      by (auto simp: shard_of_def)
  next
    case None
    then show ?thesis
      using build_shard [OF t(1) empty_shard_fresh(1), of "ps_auths p" lookup ?key ?key] ok empty_shard_fresh(2,3)
      by (auto simp: ensureModelLocked_def Let_def prov_ok_def split: option.splits)
  qed
  then show 1: "shard_fresh lookup now ?m" and 2: "shard_of lookup now (ps_auths p) ?key ?m"
    using fresh_ok [OF t(1)] by (auto simp: shard_of_def)
  have "ps_modelShards (snd (ensureModelLocked lookup key0 now p)) = mput ?key ?m (ps_modelShards p)"
    by (simp add: ensureModelLocked_def Let_def)
  with 2 prov_ok_later [OF t(2) ok] show "prov_ok lookup now (snd (ensureModelLocked lookup key0 now p))"
    by (auto simp: prov_ok_def split: if_splits)
qed

section \<open>The scheduler\<close>

definition sched_ok :: "model_lookup \<Rightarrow> time \<Rightarrow> auth_scheduler \<Rightarrow> bool" where
  "sched_ok lookup t s \<longleftrightarrow>
     (\<forall>pk p. mget (as_providers s) pk = Some p \<longrightarrow> prov_ok lookup t p \<and>
        (\<forall>i meta. mget (ps_auths p) i = Some meta \<longrightarrow> sm_providerKey meta = pk \<and> mget (as_authProviders s) i = Some pk)) \<and>
     (\<forall>i pk. mget (as_authProviders s) i = Some pk \<longrightarrow> pk \<noteq> [] \<and>
        (\<exists>p. mget (as_providers s) pk = Some p \<and> mget (ps_auths p) i \<noteq> None))"

definition known :: "auth_scheduler \<Rightarrow> string \<Rightarrow> scheduled_auth_meta option" where
  "known s i =
     (case mget (as_authProviders s) i of
        None \<Rightarrow> None
      | Some pk \<Rightarrow> (case mget (as_providers s) pk of None \<Rightarrow> None | Some p \<Rightarrow> mget (ps_auths p) i))"

lemma sched_ok_later: "t \<le> t' \<Longrightarrow> sched_ok lookup t s \<Longrightarrow> sched_ok lookup t' s"
  using prov_ok_later by (fastforce simp: sched_ok_def)

lemma known_provider:
  assumes "sched_ok lookup t s" "mget (as_providers s) pk = Some p"
  shows "mget (ps_auths p) i = Some meta \<longleftrightarrow> known s i = Some meta \<and> sm_providerKey meta = pk"
  using assms by (fastforce simp: known_def sched_ok_def split: option.splits)

lemma known_no_provider:
  "sched_ok lookup t s \<Longrightarrow> mget (as_providers s) pk = None \<Longrightarrow> known s i = Some meta \<Longrightarrow> sm_providerKey meta \<noteq> pk"
  by (fastforce simp: known_def sched_ok_def split: option.splits)

subsection \<open>Registration\<close>

lemma provider_of_known: "sched_ok lookup t s \<Longrightarrow> auth_provider_of s i \<noteq> [] \<longleftrightarrow> mget (as_authProviders s) i \<noteq> None"
  by (auto simp: auth_provider_of_def sched_ok_def split: option.splits)

lemma remove_auth_ok:
  assumes ok: "sched_ok lookup t s"
  shows "sched_ok lookup t (removeAuthLocked i s)" and "i \<noteq> [] \<Longrightarrow> known (removeAuthLocked i s) = (known s)(i := None)"
proof -
  have "sched_ok lookup t (removeAuthLocked i s) \<and> (i \<noteq> [] \<longrightarrow> known (removeAuthLocked i s) = (known s)(i := None))"
  proof (cases "i \<noteq> [] \<and> mget (as_authProviders s) i \<noteq> None")
    case False
    then have "removeAuthLocked i s = s" using provider_of_known [OF ok] by (auto simp: removeAuthLocked_def)
    then show ?thesis using False ok by (auto simp: known_def fun_eq_iff)
  next
    case True
    then obtain pk p where pk: "mget (as_authProviders s) i = Some pk" "pk \<noteq> []" "mget (as_providers s) pk = Some p"
      using ok by (fastforce simp: sched_ok_def)
    let ?s = "removeAuthLocked i s"
    have s: "as_providers ?s = mput pk (provider_removeAuthLocked i p) (as_providers s)"
      "as_authProviders ?s = mdel i (as_authProviders s)"
      using True pk by (auto simp: removeAuthLocked_def auth_provider_of_def remove_from_provider_def put_provider_def Let_def)
    have only: "mget (ps_auths p') i = None" if "mget (as_providers s) pk' = Some p'" "pk' \<noteq> pk" for pk' p'
      using ok that pk(1) unfolding sched_ok_def by (metis option.exhaust option.inject)
    have "sched_ok lookup t ?s"
      unfolding sched_ok_def s using ok only True pk provider_remove_ok
      by (auto simp: sched_ok_def split: if_splits) (metis option.inject)+
    moreover have "known ?s = (known s)(i := None)"
      using True pk by (auto simp: known_def s fun_eq_iff split: option.splits)
    ultimately show ?thesis by blast
  qed
  then show "sched_ok lookup t (removeAuthLocked i s)" "i \<noteq> [] \<Longrightarrow> known (removeAuthLocked i s) = (known s)(i := None)" by auto
qed

text \<open>What an upsert leaves under the id of the credential.\<close>

definition schedulable :: "model_lookup \<Rightarrow> model_registry \<Rightarrow> auth \<Rightarrow> scheduled_auth_meta option" where
  "schedulable lookup reg a =
     (if executorKeyFromAuth (Some a) = [] \<or> auth_Disabled a then None else Some (buildScheduledAuthMeta lookup reg a))"

definition upsert_known ::
  "model_lookup \<Rightarrow> model_registry \<Rightarrow> auth \<Rightarrow> (string \<Rightarrow> scheduled_auth_meta option) \<Rightarrow> string \<Rightarrow> scheduled_auth_meta option" where
  "upsert_known lookup reg a K = (if auth_ID a = [] then K else K(auth_ID a := schedulable lookup reg a))"

lemma meta_ok_build: "auth_ID a \<noteq> [] \<Longrightarrow> meta_ok (buildScheduledAuthMeta lookup reg a)"
  by (simp add: meta_ok_def buildScheduledAuthMeta_def)

lemma empty_provider_ok: "prov_ok lookup t (empty_provider pk)"
  by (simp add: prov_ok_def empty_provider_def)

text \<open>The removal from a provider that the credential has left.\<close>

lemma leave_provider:
  assumes ok: "sched_ok lookup t s" and i: "i \<noteq> []" and pk: "mget (as_authProviders s) i = Some pk'" "pk' \<noteq> pk"
  defines "s1 \<equiv> remove_from_provider pk' i s"
  shows "as_authProviders s1 = as_authProviders s"
    and "\<And>q p. mget (as_providers s1) q = Some p \<Longrightarrow> prov_ok lookup t p \<and> mget (ps_auths p) i = None \<and>
       (\<exists>p0. mget (as_providers s) q = Some p0 \<and> (\<forall>j. j \<noteq> i \<longrightarrow> mget (ps_auths p) j = mget (ps_auths p0) j))"
    and "\<And>q. mget (as_providers s1) q = None \<longleftrightarrow> mget (as_providers s) q = None"
proof -
  obtain p' where p': "mget (as_providers s) pk' = Some p'" using ok pk(1) by (fastforce simp: sched_ok_def)
  have s1: "s1 = put_provider pk' (provider_removeAuthLocked i p') s" by (simp add: s1_def remove_from_provider_def p')
  show "as_authProviders s1 = as_authProviders s" by (simp add: s1 put_provider_def)
  show "mget (as_providers s1) q = None \<longleftrightarrow> mget (as_providers s) q = None" for q by (auto simp: s1 put_provider_def p')
  fix q p assume q: "mget (as_providers s1) q = Some p"
  show "prov_ok lookup t p \<and> mget (ps_auths p) i = None \<and>
      (\<exists>p0. mget (as_providers s) q = Some p0 \<and> (\<forall>j. j \<noteq> i \<longrightarrow> mget (ps_auths p) j = mget (ps_auths p0) j))"
  proof (cases "q = pk'")
    case True
    then have "p = provider_removeAuthLocked i p'" using q by (simp add: s1 put_provider_def)
    then show ?thesis using True p' i ok provider_remove_ok by (auto simp: sched_ok_def)
  next
    case False
    then have q': "mget (as_providers s) q = Some p" using q by (simp add: s1 put_provider_def)
    then have "mget (ps_auths p) i = None" using False ok pk(1) unfolding sched_ok_def by (metis option.exhaust option.inject)
    then show ?thesis using q' ok by (auto simp: sched_ok_def)
  qed
qed

lemma upsert_provider:
  fixes reg :: model_registry
  assumes ok: "sched_ok lookup t s" and t: "0 \<le> now" "t \<le> now" and i: "auth_ID a \<noteq> []" and pk: "executorKeyFromAuth (Some a) \<noteq> []"
    and parts: "\<And>q p. mget (as_providers s1) q = Some p \<Longrightarrow> prov_ok lookup t p \<and>
        (q \<noteq> executorKeyFromAuth (Some a) \<longrightarrow> mget (ps_auths p) (auth_ID a) = None) \<and>
        (\<exists>p0. mget (as_providers s) q = Some p0 \<and> (\<forall>j. j \<noteq> auth_ID a \<longrightarrow> mget (ps_auths p) j = mget (ps_auths p0) j))"
    and same: "as_authProviders s1 = as_authProviders s" "\<And>q. mget (as_providers s1) q = None \<longleftrightarrow> mget (as_providers s) q = None"
  defines "s' \<equiv> put_provider (executorKeyFromAuth (Some a))
      (provider_upsertAuthLocked lookup (buildScheduledAuthMeta lookup reg a) now (ensureProviderLocked (executorKeyFromAuth (Some a)) s1))
      (s1\<lparr>as_authProviders := mput (auth_ID a) (executorKeyFromAuth (Some a)) (as_authProviders s1)\<rparr>)"
  shows "sched_ok lookup now s' \<and> known s' = (known s)(auth_ID a := Some (buildScheduledAuthMeta lookup reg a))"
proof -
  let ?k = "executorKeyFromAuth (Some a)" and ?meta = "buildScheduledAuthMeta lookup reg a"
  let ?p = "ensureProviderLocked (executorKeyFromAuth (Some a)) s1"
  have id: "auth_ID (sm_auth ?meta) = auth_ID a" "sm_providerKey ?meta = ?k" by (simp_all add: buildScheduledAuthMeta_def)
  have p: "prov_ok lookup t ?p" using parts empty_provider_ok by (auto simp: ensureProviderLocked_def split: option.splits)
  have pj: "mget (ps_auths ?p) j = (case mget (as_providers s) ?k of None \<Rightarrow> None | Some p0 \<Rightarrow> mget (ps_auths p0) j)"
    if "j \<noteq> auth_ID a" for j
    using parts [of ?k] same(2) [of ?k] that
    by (cases "mget (as_providers s1) ?k") (auto simp: ensureProviderLocked_def empty_provider_def split: option.splits)
  have new: "prov_ok lookup now (provider_upsertAuthLocked lookup ?meta now ?p)"
    by (rule provider_upsert_ok [OF p meta_ok_build [OF i] t])
  have get: "mget (as_providers s') q = (if q = ?k then Some (provider_upsertAuthLocked lookup ?meta now ?p) else mget (as_providers s1) q)"
    "mget (as_authProviders s') j = (if j = auth_ID a then Some ?k else mget (as_authProviders s) j)" for q j
    by (simp_all add: s'_def put_provider_def same(1))
  have old: "sm_providerKey meta = q \<and> mget (as_authProviders s) j = Some q"
    if "mget (as_providers s) q = Some p0" "mget (ps_auths p0) j = Some meta" for q p0 j meta
    using ok that unfolding sched_ok_def by blast
  have "sm_providerKey meta = q \<and> mget (as_authProviders s') j = Some q"
    if r: "mget (as_providers s') q = Some r" and m: "mget (ps_auths r) j = Some meta" for q r j meta
  proof (cases "j = auth_ID a")
    case True
    have "q = ?k"
    proof (rule ccontr)
      assume "q \<noteq> ?k"
      then have "mget (as_providers s1) q = Some r" using r by (simp add: get)
      from parts [OF this] \<open>q \<noteq> ?k\<close> m True show False by simp
    qed
    moreover from this r have "r = provider_upsertAuthLocked lookup ?meta now ?p" by (simp add: get)
    ultimately show ?thesis using True m id by (auto simp: get)
  next
    case False
    have "\<exists>p0. mget (as_providers s) q = Some p0 \<and> mget (ps_auths p0) j = Some meta"
    proof (cases "q = ?k")
      case True
      then have "r = provider_upsertAuthLocked lookup ?meta now ?p" using r by (simp add: get)
      then have "mget (ps_auths ?p) j = Some meta" using m False by (simp add: id)
      then show ?thesis using pj [OF False] True by (auto split: option.splits)
    next
      case False
      then have "mget (as_providers s1) q = Some r" using r by (simp add: get)
      from parts [OF this] m \<open>j \<noteq> auth_ID a\<close> show ?thesis by auto
    qed
    then show ?thesis using old False by (auto simp: get)
  qed
  moreover have "q \<noteq> [] \<and> (\<exists>r. mget (as_providers s') q = Some r \<and> mget (ps_auths r) j \<noteq> None)"
    if "mget (as_authProviders s') j = Some q" for q j
  proof (cases "j = auth_ID a")
    case True
    then show ?thesis using that pk by (simp add: get id)
  next
    case False
    then have "mget (as_authProviders s) j = Some q" using that by (simp add: get)
    then obtain p0 where q: "q \<noteq> []" "mget (as_providers s) q = Some p0" "mget (ps_auths p0) j \<noteq> None"
      using ok unfolding sched_ok_def by blast
    show ?thesis
    proof (cases "q = ?k")
      case True
      then show ?thesis using q pj [OF False] False by (simp add: get id)
    next
      case False
      then obtain r where "mget (as_providers s1) q = Some r" using same(2) [of q] q(2) by auto
      moreover from parts [OF this] q(2) \<open>j \<noteq> auth_ID a\<close> have "mget (ps_auths r) j = mget (ps_auths p0) j" by auto
      ultimately show ?thesis using False q by (simp add: get)
    qed
  qed
  moreover have "prov_ok lookup now r" if "mget (as_providers s') q = Some r" for q r
    using that new parts prov_ok_later [OF t(2)] by (auto simp: get split: if_splits)
  ultimately have "sched_ok lookup now s'" unfolding sched_ok_def by blast
  moreover have "known s' j = ((known s)(auth_ID a := Some ?meta)) j" for j
  proof (cases "j = auth_ID a")
    case True
    then show ?thesis using id by (simp add: known_def get)
  next
    case False
    have s1: "(case mget (as_providers s1) q of None \<Rightarrow> None | Some r \<Rightarrow> mget (ps_auths r) j) =
        (case mget (as_providers s) q of None \<Rightarrow> None | Some r \<Rightarrow> mget (ps_auths r) j)" for q
    proof (cases "mget (as_providers s1) q")
      case (Some r)
      from parts [OF Some] False obtain p0 where "mget (as_providers s) q = Some p0" "mget (ps_auths r) j = mget (ps_auths p0) j" by auto
      with Some show ?thesis by simp
    qed (use same(2) [of q] in simp)
    show ?thesis
    proof (cases "mget (as_authProviders s) j")
      case (Some q)
      then show ?thesis using False pj [OF False] s1 [of q] by (cases "q = ?k") (simp_all add: known_def get id)
    qed (use False in \<open>simp add: known_def get\<close>)
  qed
  ultimately show ?thesis by blast
qed

lemma upsert_ok:
  assumes ok: "sched_ok lookup t s" and t: "0 \<le> now" "t \<le> now" and trim: "trimmed (auth_ID a)"
  shows "sched_ok lookup now (upsertAuthLocked lookup reg (Some a) now s) \<and>
     known (upsertAuthLocked lookup reg (Some a) now s) = upsert_known lookup reg a (known s)"
proof (cases "auth_ID a = [] \<or> executorKeyFromAuth (Some a) = [] \<or> auth_Disabled a")
  case True
  then have "upsertAuthLocked lookup reg (Some a) now s = removeAuthLocked (auth_ID a) s"
    using trim by (simp add: upsertAuthLocked_def Let_def)
  moreover have "removeAuthLocked [] s = s" by (simp add: removeAuthLocked_def)
  ultimately show ?thesis using True remove_auth_ok [OF ok, of "auth_ID a"] sched_ok_later [OF t(2)]
    by (cases "auth_ID a = []") (auto simp: upsert_known_def schedulable_def)
next
  case False
  let ?i = "auth_ID a" and ?k = "executorKeyFromAuth (Some a)"
  define s1 where "s1 = (if auth_provider_of s ?i \<noteq> [] \<and> auth_provider_of s ?i \<noteq> ?k then remove_from_provider (auth_provider_of s ?i) ?i s else s)"
  have u: "upsertAuthLocked lookup reg (Some a) now s = put_provider ?k
      (provider_upsertAuthLocked lookup (buildScheduledAuthMeta lookup reg a) now (ensureProviderLocked ?k s1))
      (s1\<lparr>as_authProviders := mput ?i ?k (as_authProviders s1)\<rparr>)"
    using False trim by (simp add: upsertAuthLocked_def Let_def ensureProviderLocked_def s1_def)
  have ik: "?i \<noteq> []" "?k \<noteq> []" using False by auto
  have K: "upsert_known lookup reg a (known s) = (known s)(?i := Some (buildScheduledAuthMeta lookup reg a))"
    using False by (simp add: upsert_known_def schedulable_def)
  note up = upsert_provider [OF ok t ik, where ?s1.0 = s1 and reg = reg]
  show ?thesis
  proof (cases "auth_provider_of s ?i \<noteq> [] \<and> auth_provider_of s ?i \<noteq> ?k")
    case True
    then obtain pk' where pk': "mget (as_authProviders s) ?i = Some pk'" "pk' \<noteq> ?k" "auth_provider_of s ?i = pk'"
      by (auto simp: auth_provider_of_def split: option.splits)
    have s1: "s1 = remove_from_provider pk' ?i s" using True pk'(3) by (simp add: s1_def)
    note l = leave_provider [OF ok ik(1) pk'(1,2), folded s1]
    show ?thesis unfolding u K
    proof (rule up, goal_cases)
      case (1 q p)
      from l(2) [OF 1] show ?case by blast
    qed (use l in simp_all)
  next
    case False
    then have s1: "s1 = s" by (auto simp: s1_def)
    have none: "mget (ps_auths p) ?i = None" if "mget (as_providers s) q = Some p" "q \<noteq> ?k" for q p
    proof (rule ccontr)
      assume "mget (ps_auths p) ?i \<noteq> None"
      then have "mget (as_authProviders s) ?i = Some q" using ok that(1) unfolding sched_ok_def by blast
      moreover from this have "q \<noteq> []" using ok unfolding sched_ok_def by blast
      ultimately show False using False that(2) by (simp add: auth_provider_of_def)
    qed
    show ?thesis unfolding u K
    proof (rule up, goal_cases)
      case (1 q p)
      then show ?case using none ok unfolding s1 sched_ok_def by blast
    qed (simp_all add: s1)
  qed
qed

end
