(* ===== verification/Scheduler_Exact.thy ===== *)
theory Scheduler_Exact
  imports Scheduler_Refine
begin

text \<open>
  The scheduler is exact: after any sequence of its operations under a clock that does not go back, a
  pick chooses from the same credentials, with the same errors, as the selectors would from a fresh
  evaluation of every known credential.
\<close>

section \<open>Credentials of a request\<close>

definition serving ::
  "model_lookup \<Rightarrow> (string \<Rightarrow> scheduled_auth_meta option) \<Rightarrow> string \<Rightarrow> string \<Rightarrow> auth set" where
  "serving lookup K pk key =
     {sm_auth meta | i meta. K i = Some meta \<and> sm_providerKey meta = pk \<and> supportsModel lookup meta key}"

definition may_use :: "pick_request \<Rightarrow> string list \<Rightarrow> bool \<Rightarrow> auth \<Rightarrow> bool" where
  "may_use rq tried weighted a \<longleftrightarrow>
     allows (authSelectionEligibilityForRequest rq) (Some a) \<and> (weighted \<longrightarrow> 0 < authWeight (Some a)) \<and>
     (pinnedAuthIDFromMetadata (rq_Metadata rq) \<noteq> [] \<longrightarrow> auth_ID a = pinnedAuthIDFromMetadata (rq_Metadata rq)) \<and>
     auth_ID a \<notin> set tried"

abbreviation request_pred :: "pick_request \<Rightarrow> string list \<Rightarrow> bool \<Rightarrow> entry_predicate" where
  "request_pred rq tried weighted \<equiv>
     scheduledAuthPredicate (authSelectionEligibilityForRequest rq) tried (pinnedAuthIDFromMetadata (rq_Metadata rq)) weighted"

lemma request_pred_eq: "entry_wf i e \<Longrightarrow> request_pred rq tried w e \<longleftrightarrow> may_use rq tried w (sa_auth e)"
  by (auto simp: scheduledAuthPredicate_def may_use_def entry_wf_def meta_ok_def)

lemma request_pred_weight: "request_pred rq tried True e \<Longrightarrow> 0 < sm_weight (sa_meta e)"
  by (auto simp: scheduledAuthPredicate_def split: if_splits)

section \<open>A fresh shard\<close>

definition shard_entries :: "model_scheduler \<Rightarrow> scheduled_auth set" where
  "shard_entries m = {e. \<exists>i. mget (sh_entries m) i = Some e}"

definition shard_for :: "model_lookup \<Rightarrow> time \<Rightarrow> (string \<Rightarrow> scheduled_auth_meta option) \<Rightarrow> string \<Rightarrow> string \<Rightarrow> model_scheduler \<Rightarrow> bool" where
  "shard_for lookup t K pk key m \<longleftrightarrow> shard_fresh lookup t m \<and> sh_modelKey m = key \<and>
     (\<forall>i meta. metas_of m i = Some meta \<longleftrightarrow> K i = Some meta \<and> sm_providerKey meta = pk \<and> supportsModel lookup meta key)"

lemma shard_for_serving:
  assumes "shard_for lookup t K pk key m"
  shows "sa_auth ` shard_entries m = serving lookup K pk key"
proof -
  have wf: "sa_auth e = sm_auth (sa_meta e)" if "mget (sh_entries m) i = Some e" for i e
    using assms that by (auto simp: shard_for_def shard_fresh_def entries_ok_def entry_wf_def)
  have K: "K i = Some meta \<and> sm_providerKey meta = pk \<and> supportsModel lookup meta key \<longleftrightarrow>
      (\<exists>e. mget (sh_entries m) i = Some e \<and> sa_meta e = meta)" for i meta
    using assms by (auto simp: shard_for_def metas_of_def)
  have "serving lookup K pk key = {sm_auth (sa_meta e) | i e. mget (sh_entries m) i = Some e}"
    unfolding serving_def K by blast
  also have "\<dots> = {sa_auth e | i e. mget (sh_entries m) i = Some e}" using wf by metis
  also have "\<dots> = sa_auth ` shard_entries m" by (auto simp: shard_entries_def)
  finally show ?thesis by simp
qed

lemma entry_facts:
  assumes "shard_for lookup t K pk key m" "e \<in> shard_entries m"
  shows "prio_of e = prio (sa_auth e)" "ws_entry e = authWebsocketsEnabled (Some (sa_auth e))"
    "request_pred rq tried w e \<longleftrightarrow> may_use rq tried w (sa_auth e)"
    "(sa_state e, sa_nextRetryAt e) = sched_of lookup (sa_auth e) key t" "mget (sh_entries m) (auth_ID (sa_auth e)) = Some e"
proof -
  obtain i where i: "mget (sh_entries m) i = Some e" using assms(2) by (auto simp: shard_entries_def)
  then have wf: "entry_wf i e" and ev: "evaluated lookup key t e"
    using assms(1) by (auto simp: shard_for_def shard_fresh_def entries_ok_def)
  from wf show "prio_of e = prio (sa_auth e)" "ws_entry e = authWebsocketsEnabled (Some (sa_auth e))"
    "mget (sh_entries m) (auth_ID (sa_auth e)) = Some e" using i by (auto simp: entry_wf_def meta_ok_def)
  show "request_pred rq tried w e \<longleftrightarrow> may_use rq tried w (sa_auth e)" by (rule request_pred_eq [OF wf])
  show "(sa_state e, sa_nextRetryAt e) = sched_of lookup (sa_auth e) key t" using ev by (simp add: evaluated_def)
qed

definition free :: "model_lookup \<Rightarrow> string \<Rightarrow> time \<Rightarrow> auth set \<Rightarrow> auth set" where
  "free lookup key t A = {a \<in> A. \<not> fst (isAuthBlockedForModel lookup (Some a) key t)}"

definition best :: "auth set \<Rightarrow> auth set" where
  "best A = {a \<in> A. \<forall>b \<in> A. prio b \<le> prio a}"

definition transport :: "bool \<Rightarrow> auth set \<Rightarrow> auth set" where
  "transport pref A = (if pref \<and> (\<exists>a \<in> A. authWebsocketsEnabled (Some a)) then {a \<in> A. authWebsocketsEnabled (Some a)} else A)"

lemma eligible_free:
  assumes "shard_for lookup t K pk key m"
  shows "sa_auth ` eligible (request_pred rq tried w) m = free lookup key t {a \<in> serving lookup K pk key. may_use rq tried w a}"
proof -
  have ready: "sa_state e = scheduledStateReady \<longleftrightarrow> \<not> fst (isAuthBlockedForModel lookup (Some (sa_auth e)) key t)" if "e \<in> shard_entries m" for e
    using entry_facts(4) [OF assms that] sched_of_ready [of lookup "sa_auth e" key t] by (metis fst_conv)
  have "eligible (request_pred rq tried w) m = {e \<in> shard_entries m. sa_state e = scheduledStateReady \<and> request_pred rq tried w e}"
    by (simp add: eligible_def shard_entries_def)
  also have "\<dots> = {e \<in> shard_entries m. \<not> fst (isAuthBlockedForModel lookup (Some (sa_auth e)) key t) \<and> may_use rq tried w (sa_auth e)}"
    using entry_facts(3) [OF assms] ready by blast
  finally have "eligible (request_pred rq tried w) m =
      {e \<in> shard_entries m. \<not> fst (isAuthBlockedForModel lookup (Some (sa_auth e)) key t) \<and> may_use rq tried w (sa_auth e)}" .
  then show ?thesis using shard_for_serving [OF assms] by (auto simp: free_def image_iff)
qed

lemma top_best:
  assumes m: "shard_for lookup t K pk key m" and "S \<subseteq> shard_entries m"
  shows "sa_auth ` top_entries (preferred pref S) = best (transport pref (sa_auth ` S))"
proof -
  note f = entry_facts(1,2) [OF m]
  have p: "sa_auth ` preferred pref S = transport pref (sa_auth ` S)"
    using assms(2) f(2) by (auto simp: preferred_def transport_def image_iff subset_iff)
  have "preferred pref S \<subseteq> shard_entries m" using assms(2) by (auto simp: preferred_def)
  then have "sa_auth ` top_entries (preferred pref S) = best (sa_auth ` preferred pref S)"
    using f(1) by (fastforce simp: top_entries_def best_def subset_iff image_iff)
  then show ?thesis by (simp add: p)
qed

subsection \<open>The error\<close>

lemma fold_summary:
  assumes "\<forall>e \<in> set L. P e \<and> sa_state e = scheduledStateCooldown \<longrightarrow> 0 < sa_nextRetryAt e"
    and "fold (summary_entry P) L (0, 0, 0) = (n, c, u)"
  shows "n = int (length (filter P L)) \<and> c = int (length (filter (\<lambda>e. sa_state e = scheduledStateCooldown) (filter P L))) \<and>
     earliest_of (sa_nextRetryAt ` {e \<in> set L. P e \<and> sa_state e = scheduledStateCooldown}) u"
  using assms
proof (induction L arbitrary: n c u rule: rev_induct)
  case Nil
  then show ?case by (simp add: earliest_of_def)
next
  case (snoc e L)
  obtain n0 c0 u0 where f: "fold (summary_entry P) L (0, 0, 0) = (n0, c0, u0)" by (metis prod_cases3)
  have s: "summary_entry P e (n0, c0, u0) = (n, c, u)" using snoc.prems(2) f by simp
  have ih: "n0 = int (length (filter P L))" "c0 = int (length (filter (\<lambda>e. sa_state e = scheduledStateCooldown) (filter P L)))"
    "earliest_of (sa_nextRetryAt ` {e \<in> set L. P e \<and> sa_state e = scheduledStateCooldown}) u0"
    using snoc.IH [OF _ f] snoc.prems(1) by auto
  show ?case
  proof (cases "P e \<and> sa_state e = scheduledStateCooldown")
    case True
    have "{x \<in> set (L @ [e]). P x \<and> sa_state x = scheduledStateCooldown} =
        insert e {x \<in> set L. P x \<and> sa_state x = scheduledStateCooldown}" using True by auto
    moreover have "earliest_of (insert (sa_nextRetryAt e) (sa_nextRetryAt ` {e \<in> set L. P e \<and> sa_state e = scheduledStateCooldown})) u"
      using earliest_insert [OF ih(3), of "sa_nextRetryAt e"] snoc.prems(1) True s by (auto simp: summary_entry_def)
    ultimately show ?thesis using True s ih by (auto simp: summary_entry_def)
  next
    case False
    have "{x \<in> set (L @ [e]). P x \<and> sa_state x = scheduledStateCooldown} =
        {x \<in> set L. P x \<and> sa_state x = scheduledStateCooldown}" using False by auto
    then show ?thesis using False s ih by (auto simp: summary_entry_def split: if_splits)
  qed
qed

definition failure :: "model_lookup \<Rightarrow> string \<Rightarrow> time \<Rightarrow> time \<Rightarrow> string \<Rightarrow> string \<Rightarrow> auth set \<Rightarrow> pick_error" where
  "failure lookup key t now provider model A =
     (if A = {} then no_auth
      else if \<forall>a \<in> A. cooling lookup key t (Some a)
      then ModelCooldownError model (if provider = ''mixed'' then [] else provider)
             (max 0 (Min ((\<lambda>a. recovery lookup key t (Some a)) ` A) - now))
      else pick_failure ''auth_unavailable'' ''no auth available'')"

lemma length_filter_all: "length (filter Q xs) = length xs \<longleftrightarrow> (\<forall>x \<in> set xs. Q x)"
  by (metis filter_id_conv length_filter_less less_irrefl filter_True)

text \<open>What a summary of the entries \<open>L\<close> that satisfy \<open>P\<close> holds.\<close>

definition summary_of :: "entry_predicate \<Rightarrow> scheduled_auth list \<Rightarrow> int \<times> int \<times> time \<Rightarrow> bool" where
  "summary_of P L s \<longleftrightarrow> (case s of (n, c, u) \<Rightarrow>
     n = int (length (filter P L)) \<and> c = int (length (filter (\<lambda>e. sa_state e = scheduledStateCooldown) (filter P L))) \<and>
     earliest_of (sa_nextRetryAt ` {e \<in> set L. P e \<and> sa_state e = scheduledStateCooldown}) u)"

lemma cooldown_positive:
  assumes "0 \<le> t" and "(sa_state e, sa_nextRetryAt e) = sched_of lookup (sa_auth e) key t" and "sa_state e = scheduledStateCooldown"
  shows "0 < sa_nextRetryAt e" and "sa_nextRetryAt e = recovery lookup key t (Some (sa_auth e))"
proof -
  have c: "cooling lookup key t (Some (sa_auth e))" using assms(2,3) sched_of_cooldown [of lookup "sa_auth e" key t] by (metis fst_conv)
  then show "sa_nextRetryAt e = recovery lookup key t (Some (sa_auth e))" using assms(2) sched_of_recovery by (metis snd_conv)
  with cooling_until(1) [OF assms(1) order_refl c] assms(1) show "0 < sa_nextRetryAt e" by simp
qed

lemma summary_failure:
  assumes t: "0 \<le> t" and ev: "\<And>e. e \<in> set L \<Longrightarrow> (sa_state e, sa_nextRetryAt e) = sched_of lookup (sa_auth e) key t"
    and s: "summary_of P L s" and A: "A = sa_auth ` {e \<in> set L. P e}"
  shows "unavailable_error now provider model s = failure lookup key t now provider model A"
proof -
  obtain n c u where ncu: "s = (n, c, u)" by (metis prod_cases3)
  note s = s [unfolded summary_of_def ncu prod.case]
  have cd: "sa_state e = scheduledStateCooldown \<longleftrightarrow> cooling lookup key t (Some (sa_auth e))" if "e \<in> set L" for e
    using ev [OF that] sched_of_cooldown [of lookup "sa_auth e" key t] by (metis fst_conv)
  note pos = cooldown_positive [OF t ev]
  have "n = 0 \<longleftrightarrow> (\<forall>e \<in> set L. \<not> P e)" using s by (simp add: filter_empty_conv)
  then have n0: "n = 0 \<longleftrightarrow> A = {}" unfolding A by blast
  have "c = n \<longleftrightarrow> (\<forall>e \<in> set L. P e \<longrightarrow> sa_state e = scheduledStateCooldown)"
    using s by (auto simp: length_filter_all simp del: filter_filter)
  then have all: "c = n \<longleftrightarrow> (\<forall>a \<in> A. cooling lookup key t (Some a))" unfolding A using cd by blast
  have e: "u = Min ((\<lambda>a. recovery lookup key t (Some a)) ` A) \<and> u \<noteq> 0" if "c = n" "n \<noteq> 0"
  proof -
    let ?S = "sa_nextRetryAt ` {e \<in> set L. P e \<and> sa_state e = scheduledStateCooldown}"
    have c: "\<forall>e \<in> set L. P e \<longrightarrow> sa_state e = scheduledStateCooldown" using that(1) all cd unfolding A by blast
    then have "{e \<in> set L. P e \<and> sa_state e = scheduledStateCooldown} = {e \<in> set L. P e}" by auto
    then have S: "?S = (\<lambda>a. recovery lookup key t (Some a)) ` A"
      unfolding A image_image using c pos(2) by (intro image_cong) auto
    have ne: "?S \<noteq> {}" using that(2) n0 S by auto
    have u: "u = Min ?S" using s by (intro earliest_Min [OF _ ne]) auto
    have "u \<in> ?S" using s ne by (auto simp: earliest_of_def)
    moreover have "x \<noteq> 0" if "x \<in> ?S" for x using that pos(1) by fastforce
    ultimately have "u \<noteq> 0" by blast
    then show ?thesis using u unfolding S by simp
  qed
  show ?thesis
  proof (cases "n = 0 \<or> c \<noteq> n")
    case True
    then show ?thesis unfolding failure_def ncu by (auto simp: unavailable_error_def no_auth_def n0 all)
  next
    case False
    then have "A \<noteq> {}" "\<forall>a \<in> A. cooling lookup key t (Some a)" using n0 all by simp_all
    then show ?thesis using False e unfolding failure_def ncu
      by (simp add: unavailable_error_def newModelCooldownError_def max_def)
  qed
qed

text \<open>The entries of a shard, as its map holds them.\<close>

lemma shard_summary:
  assumes m: "shard_for lookup t K pk key m" and t: "0 \<le> t"
  shows "set (map snd (sh_entries m)) = shard_entries m"
    and "summary_of P (map snd (sh_entries m)) (availabilitySummaryLocked P m)"
    and "e \<in> shard_entries m \<Longrightarrow> (sa_state e, sa_nextRetryAt e) = sched_of lookup (sa_auth e) key t"
proof -
  have wf: "wf_map (sh_entries m)" using m by (auto simp: shard_for_def shard_fresh_def entries_ok_def)
  show L: "set (map snd (sh_entries m)) = shard_entries m" by (force simp: shard_entries_def mget_in_set [OF wf])
  show "e \<in> shard_entries m \<Longrightarrow> (sa_state e, sa_nextRetryAt e) = sched_of lookup (sa_auth e) key t"
    by (rule entry_facts(4) [OF m])
  have "\<forall>e \<in> set (map snd (sh_entries m)). P e \<and> sa_state e = scheduledStateCooldown \<longrightarrow> 0 < sa_nextRetryAt e"
    unfolding L using cooldown_positive(1) [OF t entry_facts(4) [OF m]] by blast
  from fold_summary [OF this] show "summary_of P (map snd (sh_entries m)) (availabilitySummaryLocked P m)"
    by (auto simp: summary_of_def availabilitySummaryLocked_def simp del: filter_filter split: prod.splits)
qed

lemma unavailable_exact:
  assumes m: "shard_for lookup t K pk key m" and t: "0 \<le> t"
  shows "unavailableErrorLocked now provider model (request_pred rq tried w) m =
     failure lookup key t now provider model {a \<in> serving lookup K pk key. may_use rq tried w a}"
proof -
  have "{a \<in> serving lookup K pk key. may_use rq tried w a} = sa_auth ` {e \<in> shard_entries m. request_pred rq tried w e}"
    using entry_facts(3) [OF m] unfolding shard_for_serving [OF m, symmetric] by auto
  then show ?thesis unfolding unavailableErrorLocked_def
    using shard_summary(1,3) [OF m t] by (intro summary_failure [OF t _ shard_summary(2) [OF m t]]) auto
qed

section \<open>Picks for one provider\<close>

lemma put_provider_ok:
  assumes ok: "sched_ok lookup t s" and p: "mget (as_providers s) pk = Some p" and t: "t \<le> t'"
    and p': "prov_ok lookup t' p'" "ps_auths p' = ps_auths p"
  shows "sched_ok lookup t' (put_provider pk p' s)" and "known (put_provider pk p' s) = known s"
proof -
  have ok': "sched_ok lookup t' s" by (rule sched_ok_later [OF t ok])
  show "sched_ok lookup t' (put_provider pk p' s)"
    unfolding sched_ok_def
  proof (intro conjI allI impI, goal_cases)
    case (1 q r)
    then show ?case using ok' p' by (auto simp: put_provider_def sched_ok_def split: if_splits)
  next
    case (2 q r i meta)
    then show ?case using ok' p p'(2) by (auto simp: put_provider_def sched_ok_def split: if_splits)
  next
    case (3 q r i meta)
    then show ?case using ok' p p'(2) by (auto simp: put_provider_def sched_ok_def split: if_splits)
  next
    case (4 i q)
    then show ?case using ok' by (auto simp: put_provider_def sched_ok_def)
  next
    case (5 i q)
    then obtain r where "mget (as_providers s) q = Some r" "mget (ps_auths r) i \<noteq> None"
      using ok' unfolding sched_ok_def by (auto simp: put_provider_def) blast
    then show ?case using p p'(2) by (auto simp: put_provider_def)
  qed
  show "known (put_provider pk p' s) = known s" using p p'(2) by (auto simp: known_def put_provider_def fun_eq_iff split: option.splits)
qed

lemma put_shard_ok:
  assumes ok: "sched_ok lookup t s" and p: "mget (as_providers s) pk = Some p" and t: "t \<le> t'"
    and m: "shard_of lookup t' (ps_auths p) (sh_modelKey m) m"
  shows "sched_ok lookup t' (put_shard pk m s)" and "known (put_shard pk m s) = known s"
proof -
  have pok: "prov_ok lookup t' p" using ok p t prov_ok_later by (auto simp: sched_ok_def)
  have "prov_ok lookup t' (p\<lparr>ps_modelShards := mput (sh_modelKey m) m (ps_modelShards p)\<rparr>)"
    using pok m by (auto simp: prov_ok_def split: if_splits)
  from put_provider_ok [OF ok p t this] show "sched_ok lookup t' (put_shard pk m s)" "known (put_shard pk m s) = known s"
    by (simp_all add: put_shard_def p)
qed

lemma shard_for_of:
  assumes "sched_ok lookup t s" "mget (as_providers s) pk = Some p" "shard_fresh lookup now m" "shard_of lookup t' (ps_auths p) key m"
  shows "shard_for lookup now (known s) pk key m"
proof -
  have "metas_of m i = Some meta \<longleftrightarrow> known s i = Some meta \<and> sm_providerKey meta = pk \<and> supportsModel lookup meta key" for i meta
  proof -
    have "metas_of m i = supporting lookup key (mget (ps_auths p) i)" using assms(4) by (simp add: shard_of_def)
    then have "metas_of m i = Some meta \<longleftrightarrow> mget (ps_auths p) i = Some meta \<and> supportsModel lookup meta key"
      by (cases "mget (ps_auths p) i") auto
    then show ?thesis using known_provider [OF assms(1,2), of i meta] by simp
  qed
  then show ?thesis using assms(3,4) by (simp add: shard_for_def shard_of_def)
qed

lemma shard_of_same_entries:
  "shard_of lookup t auths key m \<Longrightarrow> shard_ok lookup t' m' \<Longrightarrow> sh_modelKey m' = sh_modelKey m \<Longrightarrow> metas_of m' = metas_of m \<Longrightarrow>
   shard_of lookup t' auths key m'"
  by (simp add: shard_of_def)

lemma pickSingle_spec:
  fixes provider model :: string and strategy :: scheduler_strategy and rq :: pick_request and tried :: "string list"
  assumes ok: "sched_ok lookup t s" and t: "0 \<le> t" "t \<le> now1" "now1 \<le> now2" "now2 \<le> now3"
  defines "pk \<equiv> ToLower (TrimSpace provider)" and "key \<equiv> canonicalModelKey lookup (canonicalModelKey lookup model)"
    and "strat \<equiv> effective_strategy strategy s"
  defines "A \<equiv> {a \<in> serving lookup (known s) pk key. may_use rq tried (strat = schedulerStrategyWeightedRoundRobin) a}"
    and "pref \<equiv> rq_DownstreamWebsocket rq \<and> providerPrefersWebsocketTransport pk \<and> pinnedAuthIDFromMetadata (rq_Metadata rq) = []"
    and "r \<equiv> pickSingleWithStrategy lookup rq provider model tried strategy now1 now2 now3 s"
  shows "sched_ok lookup now3 (snd r) \<and> known (snd r) = known s \<and>
     (case fst r of
        Inl err \<Rightarrow> free lookup key now2 A = {} \<and> err = failure lookup key now2 now3 provider model A
      | Inr a \<Rightarrow> a \<in> best (transport pref (free lookup key now2 A)) \<and>
          (strat = schedulerStrategyFillFirst \<and> \<not> pref \<longrightarrow> (\<forall>b \<in> best (free lookup key now2 A). auth_ID a \<le> auth_ID b)))"
proof (cases "mget (as_providers s) pk")
  case None
  then have "r = (Inl no_auth, s)" by (simp add: r_def pickSingleWithStrategy_def Let_def pk_def)
  moreover have "A = {}" using known_no_provider [OF ok None] by (auto simp: A_def serving_def)
  ultimately show ?thesis using sched_ok_later [OF _ ok, of now3] t by (auto simp: failure_def free_def)
next
  case (Some p)
  let ?w = "strat = schedulerStrategyWeightedRoundRobin"
  let ?P = "request_pred rq tried ?w"
  let ?e = "ensureModelLocked lookup (canonicalModelKey lookup model) now1 p"
  let ?q = "pickReadyLocked lookup now2 pref strat ?P (fst ?e)"
  let ?m = "promoteExpiredLocked lookup now2 (fst ?e)"
  have n: "0 \<le> now1" "0 \<le> now2" using t by auto
  have pok: "prov_ok lookup t p" using ok Some by (auto simp: sched_ok_def)
  note en = ensureModel_ok [OF pok n(1) t(2), of "canonicalModelKey lookup model", folded key_def]
  have sok: "shard_ok lookup now1 (fst ?e)" using en(2) by (simp add: shard_of_def)
  have w: "strat = schedulerStrategyWeightedRoundRobin \<Longrightarrow> (\<forall>e. ?P e \<longrightarrow> 0 < sm_weight (sa_meta e))"
    using request_pred_weight by auto
  note pr = pickReady_ok [where strategy = strat and pref = pref and P = ?P, OF sok n(2) t(3) w]
  have r: "r = ((case fst ?q of Some a \<Rightarrow> Inr a | None \<Rightarrow> Inl (unavailableErrorLocked now3 provider model ?P (snd ?q))),
      put_shard pk (snd ?q) (put_provider pk (snd ?e) s))"
    using Some unfolding r_def pickSingleWithStrategy_def Let_def pref_def strat_def pk_def
    by (auto simp: case_prod_beta split: option.splits prod.splits)
  have same: "metas_of (snd ?q) = metas_of (fst ?e)"
    using pr(2) promote_metas [OF sok, of now2] by (simp add: metas_of_def fun_eq_iff)
  have of_q: "shard_of lookup now2 (ps_auths p) key (snd ?q)"
    using pr(1,4) fresh_ok [OF n(2) order_refl] same by (intro shard_of_same_entries [OF en(2)]) auto
  have of_m: "shard_of lookup now2 (ps_auths p) key ?m"
    using promote_fresh [OF sok n(2) t(3)] fresh_ok [OF n(2) order_refl] promote_metas [OF sok] promote_entries(2) [OF sok]
    by (intro shard_of_same_entries [OF en(2)]) auto
  note s1 = put_provider_ok [OF ok Some t(2) en(3), simplified]
  have "mget (as_providers (put_provider pk (snd ?e) s)) pk = Some (snd ?e)" by (simp add: put_provider_def)
  moreover have "sh_modelKey (snd ?q) = key" using of_q by (simp add: shard_of_def)
  ultimately have s2: "sched_ok lookup now2 (snd r)" "known (snd r) = known s"
    using put_shard_ok [OF s1(1), of pk "snd ?e" now2 "snd ?q"] of_q t(3) s1(2) by (simp_all add: r)
  have fq: "shard_for lookup now2 (known s) pk key (snd ?q)" by (rule shard_for_of [OF ok Some pr(1) of_q])
  have fm: "shard_for lookup now2 (known s) pk key ?m"
    by (rule shard_for_of [OF ok Some promote_fresh [OF sok n(2) t(3)] of_m])
  have el: "sa_auth ` eligible ?P ?m = free lookup key now2 A" unfolding A_def by (rule eligible_free [OF fm])
  have sub: "eligible ?P ?m \<subseteq> shard_entries ?m" by (auto simp: eligible_def shard_entries_def)
  have err: "unavailableErrorLocked now3 provider model ?P (snd ?q) = failure lookup key now2 now3 provider model A"
    unfolding A_def by (rule unavailable_exact [OF fq n(2)])
  show ?thesis
  proof (cases "fst ?q")
    case None
    then have "free lookup key now2 A = {}" using pr(3) el by simp
    then show ?thesis using None err s2 sched_ok_later [OF t(4) s2(1)] by (simp add: r)
  next
    case (Some a)
    have "a \<in> sa_auth ` top_entries (preferred pref (eligible ?P ?m))" using pr(3) Some by auto
    then have "a \<in> best (transport pref (free lookup key now2 A))" using top_best [OF fm sub, of pref] el by simp
    moreover have "auth_ID a \<le> auth_ID b"
      if ff: "strat = schedulerStrategyFillFirst \<and> \<not> pref" and b: "b \<in> best (free lookup key now2 A)" for b
    proof -
      obtain e where e: "e \<in> top_entries (eligible ?P ?m)" "b = sa_auth e"
        using b top_best [OF fm sub, of False, symmetric] unfolding el by (auto simp: preferred_def transport_def)
      have "fst (pickReadyLocked lookup now2 False schedulerStrategyFillFirst ?P (fst ?e)) = Some a" using Some ff by simp
      from pickReady_first [OF sok n(2) t(3) this e(1)] show ?thesis by (simp add: e(2))
    qed
    ultimately show ?thesis using Some s2 sched_ok_later [OF t(4) s2(1)] by (simp add: r)
  qed
qed

end
