(* ===== verification/Scheduler_Mixed.thy ===== *)
theory Scheduler_Mixed
  imports Scheduler_Exact
begin

text \<open>
  Picks over several providers: the choice has the highest priority among the credentials of all of
  them, for every strategy.
\<close>

section \<open>The shards of a request\<close>

definition ready_shard ::
  "model_lookup \<Rightarrow> time \<Rightarrow> (string \<Rightarrow> scheduled_auth_meta option) \<Rightarrow> string \<Rightarrow> string \<Rightarrow> model_scheduler option \<Rightarrow> bool" where
  "ready_shard lookup t K key pk x =
     (case x of None \<Rightarrow> \<forall>i meta. K i = Some meta \<longrightarrow> sm_providerKey meta \<noteq> pk | Some m \<Rightarrow> shard_for lookup t K pk key m)"

lemma ensure_shard_ok:
  assumes ok: "sched_ok lookup t s" and t: "0 \<le> now" "t \<le> now"
  shows "sched_ok lookup now (snd (ensure_shard lookup key0 now pk s)) \<and>
     known (snd (ensure_shard lookup key0 now pk s)) = known s \<and>
     ready_shard lookup now (known s) (canonicalModelKey lookup key0) pk (fst (ensure_shard lookup key0 now pk s))"
proof (cases "mget (as_providers s) pk")
  case None
  then show ?thesis using known_no_provider [OF ok None] sched_ok_later [OF t(2) ok] by (auto simp: ensure_shard_def ready_shard_def)
next
  case (Some p)
  then have pok: "prov_ok lookup t p" using ok by (auto simp: sched_ok_def)
  note en = ensureModel_ok [OF pok t, of key0]
  show ?thesis
    using put_provider_ok [OF ok Some t(2) en(3)] shard_for_of [OF ok Some en(1,2)]
    by (simp add: ensure_shard_def Some ready_shard_def case_prod_beta)
qed

lemma ensure_shards_ok:
  assumes "sched_ok lookup t s" and t: "0 \<le> now" "t \<le> now"
  shows "sched_ok lookup now (snd (ensure_shards lookup key0 now keys s)) \<and>
     known (snd (ensure_shards lookup key0 now keys s)) = known s \<and>
     list_all2 (ready_shard lookup now (known s) (canonicalModelKey lookup key0)) keys (fst (ensure_shards lookup key0 now keys s))"
  using assms(1) t(2)
proof (induction keys arbitrary: s t)
  case Nil
  then show ?case using sched_ok_later by simp
next
  case (Cons pk keys)
  obtain x s1 where e: "ensure_shard lookup key0 now pk s = (x, s1)" by fastforce
  have s1: "sched_ok lookup now s1" "known s1 = known s" "ready_shard lookup now (known s) (canonicalModelKey lookup key0) pk x"
    using ensure_shard_ok [OF Cons.prems(1) t(1) Cons.prems(2), of key0 pk] by (simp_all add: e)
  from Cons.IH [OF s1(1) order_refl] s1 show ?case by (simp add: e case_prod_beta)
qed

lemma put_shard_ok':
  assumes ok: "sched_ok lookup t s" and t: "0 \<le> t" and m: "shard_for lookup t (known s) pk key m"
  shows "sched_ok lookup t (put_shard pk m s)" and "known (put_shard pk m s) = known s"
proof -
  have "sched_ok lookup t (put_shard pk m s) \<and> known (put_shard pk m s) = known s"
  proof (cases "mget (as_providers s) pk")
    case None
    then show ?thesis using ok by (simp add: put_shard_def)
  next
    case (Some p)
    have "metas_of m i = supporting lookup key (mget (ps_auths p) i)" for i
    proof (cases "mget (ps_auths p) i")
      case None
      then have "metas_of m i \<noteq> Some meta" for meta using m known_provider [OF ok Some, of i meta] by (auto simp: shard_for_def)
      then show ?thesis using None by (cases "metas_of m i") auto
    next
      case (Some meta)
      then have k: "known s i = Some meta" "sm_providerKey meta = pk" using known_provider [OF ok \<open>mget (as_providers s) pk = Some p\<close>] by auto
      show ?thesis
      proof (cases "supportsModel lookup meta key")
        case True
        then have "metas_of m i = Some meta" using m k by (auto simp: shard_for_def)
        then show ?thesis using Some True by simp
      next
        case False
        then have "metas_of m i \<noteq> Some x" for x using m k by (auto simp: shard_for_def)
        then show ?thesis using Some False by (cases "metas_of m i") auto
      qed
    qed
    then have "shard_of lookup t (ps_auths p) (sh_modelKey m) m"
      using m fresh_ok [OF t order_refl] by (auto simp: shard_of_def shard_for_def)
    from put_shard_ok [OF ok Some order_refl this] show ?thesis by blast
  qed
  then show "sched_ok lookup t (put_shard pk m s)" "known (put_shard pk m s) = known s" by auto
qed

section \<open>The best priority\<close>

definition all_eligible :: "entry_predicate \<Rightarrow> model_scheduler option list \<Rightarrow> scheduled_auth set" where
  "all_eligible P xs = (\<Union>x \<in> set xs. case x of None \<Rightarrow> {} | Some m \<Rightarrow> eligible P m)"

lemma all_eligible_simps [simp]:
  "all_eligible P [] = {}" "all_eligible P (None # xs) = all_eligible P xs"
  "all_eligible P (Some m # xs) = eligible P m \<union> all_eligible P xs"
  by (auto simp: all_eligible_def)

lemma fold_best_ready:
  assumes "\<forall>m. Some m \<in> set xs \<longrightarrow> index_ok m \<and> entries_ok (sh_entries m)"
  shows "let S = (case b of None \<Rightarrow> {} | Some q \<Rightarrow> {q}) \<union> prio_of ` all_eligible P xs
     in case fold (best_ready P) xs b of None \<Rightarrow> S = {} | Some p \<Rightarrow> p \<in> S \<and> (\<forall>q \<in> S. q \<le> p)"
  using assms
proof (induction xs arbitrary: b)
  case Nil
  then show ?case by (auto split: option.splits)
next
  case (Cons x xs)
  show ?case
  proof (cases x)
    case None
    then show ?thesis using Cons.IH [of b] Cons.prems by (simp add: best_ready_def)
  next
    case (Some m)
    then have h: "case highestReadyPriorityLocked False P m of None \<Rightarrow> eligible P m = {}
        | Some p \<Rightarrow> \<exists>e \<in> top_entries (eligible P m). prio_of e = p"
      using Cons.prems highest_priority [where pref = False and P = P and m = m, unfolded preferred_False] by simp
    let ?b = "best_ready P x b"
    have "(case ?b of None \<Rightarrow> (case b of None \<Rightarrow> {} | Some q \<Rightarrow> {q}) \<union> prio_of ` eligible P m = {}
      | Some p \<Rightarrow> p \<in> (case b of None \<Rightarrow> {} | Some q \<Rightarrow> {q}) \<union> prio_of ` eligible P m \<and>
          (\<forall>q \<in> (case b of None \<Rightarrow> {} | Some q \<Rightarrow> {q}) \<union> prio_of ` eligible P m. q \<le> p))"
      using h by (cases b) (auto simp: best_ready_def Some top_entries_def split: option.splits)
    then show ?thesis using Cons.IH [of ?b] Cons.prems
      by (fastforce simp: Some Let_def image_Un split: option.splits)
  qed
qed

section \<open>Choosing at the best priority\<close>

lemma pick_in_order_ok:
  assumes "\<forall>pk m. (pk, Some m) \<in> set zs \<longrightarrow> index_ok m \<and> entries_ok (sh_entries m)"
    and w: "strategy = schedulerStrategyWeightedRoundRobin \<Longrightarrow> (\<forall>e. P e \<longrightarrow> 0 < sm_weight (sa_meta e))"
  shows "case pick_in_order p strategy P zs of
      None \<Rightarrow> \<forall>pk m. (pk, Some m) \<in> set zs \<longrightarrow> \<not> (\<exists>e \<in> eligible P m. prio_of e = p)
    | Some (a, pk, m') \<Rightarrow> \<exists>m. (pk, Some m) \<in> set zs \<and> pickReadyAtPriorityLocked False p strategy P m = (Some a, m')"
  using assms(1)
proof (induction zs)
  case (Cons z zs)
  obtain pk x where z: "z = (pk, x)" by fastforce
  show ?case
  proof (cases x)
    case None
    with Cons z show ?thesis by (auto split: option.splits)
  next
    case (Some m)
    have ok: "index_ok m" "entries_ok (sh_entries m)" using Cons.prems z Some by auto
    obtain y m' where r: "pickReadyAtPriorityLocked False p strategy P m = (y, m')" by fastforce
    from pickAtPriority(3) [where pref = False and p = p and strategy = strategy and P = P, OF ok w] r Cons show ?thesis
      by (cases y) (auto simp: z Some split: option.splits)
  qed
qed simp

lemma pick_at_entry:
  assumes "index_ok m" "entries_ok (sh_entries m)"
    and w: "strategy = schedulerStrategyWeightedRoundRobin \<Longrightarrow> (\<forall>e. P e \<longrightarrow> 0 < sm_weight (sa_meta e))"
    and r: "pickReadyAtPriorityLocked False p strategy P m = (Some a, m')"
  shows "\<exists>e \<in> eligible P m. a = sa_auth e \<and> prio_of e = p" and "index_ok m'" and "\<exists>R. m' = m\<lparr>sh_readyByPriority := R\<rparr>"
  using pickAtPriority [where pref = False and p = p and strategy = strategy and P = P, OF assms(1,2) w] r by auto

lemma shard_for_views:
  assumes "shard_for lookup t K pk key m" "index_ok (m\<lparr>sh_readyByPriority := R\<rparr>)"
  shows "shard_for lookup t K pk key (m\<lparr>sh_readyByPriority := R\<rparr>)"
  using assms by (auto simp: shard_for_def shard_fresh_def metas_of_def)

lemma ready_count_zero:
  assumes ok: "index_ok m" "entries_ok (sh_entries m)"
  shows "readyCountAtPriorityLocked False p P m = 0 \<longleftrightarrow> \<not> (\<exists>e \<in> eligible P m. prio_of e = p)"
proof (cases "mget (sh_readyByPriority m) p")
  case None
  then show ?thesis using eligible_bucket [OF ok] by (fastforce simp: readyCountAtPriorityLocked_def)
next
  case (Some b)
  then have "rv_flat (rb_all b) = ready_at (sh_entries m) p" using ok(1) by (auto simp: index_ok_def bucket_ok_def)
  then show ?thesis using usable_all_Nil [OF ok(2), of P p] by (simp add: readyCountAtPriorityLocked_def Some usable_def)
qed

text \<open>The start of the rotation: the segment that holds the slot.\<close>

lemma find_segment:
  assumes "slot < sum_list ws"
  shows "\<exists>i. find (\<lambda>i. ws ! i \<noteq> 0 \<and> slot < segment_start ws (Suc i)) [0..<length ws] = Some i \<and> i < length ws \<and> ws ! i \<noteq> 0"
proof -
  let ?Q = "\<lambda>i. slot < segment_start ws (Suc i)"
  have "\<exists>i. ?Q i" using assms by (intro exI [of _ "length ws"]) (simp add: segment_start_def)
  then have Q: "?Q (LEAST i. ?Q i)" by (rule LeastI_ex)
  define i where "i = (LEAST i. ?Q i)"
  have Q: "?Q i" using Q by (simp add: i_def)
  have "ws \<noteq> []" using assms by auto
  then have "?Q (length ws - 1)" using assms by (simp add: segment_start_def)
  then have "i \<le> length ws - 1" unfolding i_def by (rule Least_le)
  then have len: "i < length ws" using \<open>ws \<noteq> []\<close> by (cases ws) auto
  have "\<not> slot < segment_start ws i"
  proof (cases i)
    case (Suc k)
    then show ?thesis using not_less_Least [of k ?Q] by (simp add: i_def)
  qed (simp add: segment_start_def)
  then have "ws ! i \<noteq> 0" using Q len by (auto simp: segment_start_def take_Suc_conv_app_nth)
  then have "find (\<lambda>i. ws ! i \<noteq> 0 \<and> ?Q i) [0..<length ws] \<noteq> None"
    using Q len by (auto simp: find_None_iff)
  then show ?thesis by (auto simp: find_Some_iff)
qed

lemma mixed_rotate_starts:
  assumes "start < length normalized" and "weights ! start \<noteq> 0" and "shards ! start = Some m"
    and "pickReadyAtPriorityLocked False p schedulerStrategyRoundRobin P m = (Some a, m')"
  shows "mixed_rotate normalized shards weights p P start slot [0..<length normalized] = Some (a, normalized ! start, m', slot)"
proof -
  have "[0..<length normalized] = 0 # [Suc 0..<length normalized]" using assms(1) by (intro upt_conv_Cons) linarith
  then show ?thesis using assms by simp
qed

text \<open>The weighted choice looks entries up in the union of the shards.\<close>

lemma mixed_entries_get:
  assumes "list_all2 (ready_shard lookup t K key) keys xs" and "distinct keys"
  shows "mget (mixed_entries xs) i = Some e \<longleftrightarrow> (\<exists>m. Some m \<in> set xs \<and> mget (sh_entries m) i = Some e)"
  using assms
proof (induction keys xs rule: list_all2_induct)
  case Nil
  then show ?case by (simp add: mixed_entries_def)
next
  case (Cons pk keys x xs)
  show ?case
  proof (cases x)
    case None
    with Cons show ?thesis by (auto simp: mixed_entries_def)
  next
    case (Some m)
    have m: "shard_for lookup t K pk key m" using Cons.hyps(1) Some by (simp add: ready_shard_def)
    have key_of: "sm_providerKey (sa_meta e') = pk" "K i = Some (sa_meta e')"
      if "mget (sh_entries m) i = Some e'" "shard_for lookup t K pk key m" for m e' pk
    proof -
      have "metas_of m i = Some (sa_meta e')" using that(1) by (simp add: metas_of_def)
      then have "K i = Some (sa_meta e') \<and> sm_providerKey (sa_meta e') = pk \<and> supportsModel lookup (sa_meta e') key"
        using that(2) unfolding shard_for_def by blast
      then show "sm_providerKey (sa_meta e') = pk" "K i = Some (sa_meta e')" by auto
    qed
    have other: "mget (sh_entries m') i = None" if in_xs: "Some m' \<in> set xs" and e': "mget (sh_entries m) i = Some e'" for m' e'
    proof (rule ccontr)
      assume "mget (sh_entries m') i \<noteq> None"
      then obtain e'' where e'': "mget (sh_entries m') i = Some e''" by blast
      obtain k where k: "k < length xs" "xs ! k = Some m'" using in_xs by (auto simp: in_set_conv_nth)
      have l: "length keys = length xs" and r: "ready_shard lookup t K key (keys ! k) (xs ! k)"
        using Cons.hyps(2) k(1) by (auto simp: list_all2_conv_all_nth)
      have "shard_for lookup t K (keys ! k) key m'" using r k(2) by (simp add: ready_shard_def)
      from key_of [OF e'' this] key_of [OF e' m] have "pk = keys ! k" by simp
      moreover have "keys ! k \<in> set keys" using k(1) l by simp
      ultimately show False using Cons.prems by simp
    qed
    have ih: "mget (mixed_entries xs) i = Some e \<longleftrightarrow> (\<exists>m. Some m \<in> set xs \<and> mget (sh_entries m) i = Some e)"
      using Cons.IH Cons.prems by simp
    have "mget (mixed_entries (Some m # xs)) i = (case mget (sh_entries m) i of None \<Rightarrow> mget (mixed_entries xs) i | Some e \<Rightarrow> Some e)"
      by (simp add: mixed_entries_def map_add_def split: option.splits)
    then show ?thesis using ih other by (auto simp: Some split: option.splits)
  qed
qed

section \<open>The request_pool of a request\<close>

definition request_pool :: "model_lookup \<Rightarrow> (string \<Rightarrow> scheduled_auth_meta option) \<Rightarrow> string list \<Rightarrow> string \<Rightarrow>
    pick_request \<Rightarrow> string list \<Rightarrow> bool \<Rightarrow> auth set" where
  "request_pool lookup K keys key rq tried w = (\<Union>pk \<in> set keys. {a \<in> serving lookup K pk key. may_use rq tried w a})"

lemma ready_shard_at:
  "list_all2 (ready_shard lookup t K key) keys xs \<Longrightarrow> Some m \<in> set xs \<Longrightarrow> \<exists>pk \<in> set keys. shard_for lookup t K pk key m"
  by (induction keys xs rule: list_all2_induct) (auto simp: ready_shard_def)

lemma shards_indexed:
  "list_all2 (ready_shard lookup t K key) keys xs \<Longrightarrow> \<forall>m. Some m \<in> set xs \<longrightarrow> index_ok m \<and> entries_ok (sh_entries m)"
  using ready_shard_at by (fastforce simp: shard_for_def shard_fresh_def)

lemma all_eligible_free:
  "list_all2 (ready_shard lookup t K key) keys xs \<Longrightarrow>
   sa_auth ` all_eligible (request_pred rq tried w) xs = free lookup key t (request_pool lookup K keys key rq tried w)"
proof (induction keys xs rule: list_all2_induct)
  case Nil
  then show ?case by (simp add: free_def request_pool_def)
next
  case (Cons pk keys x xs)
  have "free lookup key t (request_pool lookup K (pk # keys) key rq tried w) =
      free lookup key t {a \<in> serving lookup K pk key. may_use rq tried w a} \<union> free lookup key t (request_pool lookup K keys key rq tried w)"
    by (auto simp: free_def request_pool_def)
  moreover have "serving lookup K pk key = {}" if "x = None" using Cons.hyps(1) that by (auto simp: ready_shard_def serving_def)
  ultimately show ?case
    using Cons.hyps(1) Cons.IH eligible_free [of lookup t K pk key _ rq tried w]
    by (cases x) (auto simp: ready_shard_def image_Un free_def)
qed

definition earlier_retry :: "time \<Rightarrow> time \<Rightarrow> time" where
  "earlier_retry e f = (if f \<noteq> 0 \<and> (e = 0 \<or> f < e) then f else e)"

lemma earliest_union:
  assumes "earliest_of S e" "earliest_of T f" "\<forall>x \<in> S \<union> T. 0 < x"
  shows "earliest_of (S \<union> T) (earlier_retry e f)"
  using assms by (cases "S = {}"; cases "T = {}") (auto simp: earliest_of_def earlier_retry_def)

definition shards_list :: "model_scheduler option list \<Rightarrow> scheduled_auth list" where
  "shards_list xs = concat (map (\<lambda>x. case x of None \<Rightarrow> [] | Some m \<Rightarrow> map snd (sh_entries m)) xs)"

lemma summary_append:
  assumes "summary_of P L (n, c, u)" "summary_of P L' (n', c', u')"
    and pos: "\<forall>e \<in> set (L @ L'). sa_state e = scheduledStateCooldown \<longrightarrow> 0 < sa_nextRetryAt e"
  shows "summary_of P (L @ L') (n + n', c + c', earlier_retry u u')"
proof -
  let ?S = "\<lambda>L. sa_nextRetryAt ` {e \<in> set L. P e \<and> sa_state e = scheduledStateCooldown}"
  have "?S (L @ L') = ?S L \<union> ?S L'" by auto
  moreover have "\<forall>x \<in> ?S L \<union> ?S L'. 0 < x" using pos by auto
  ultimately have "earliest_of (?S (L @ L')) (earlier_retry u u')"
    using assms(1,2) earliest_union [of "?S L" u "?S L'" u'] unfolding summary_of_def by simp
  then show ?thesis using assms(1,2) by (simp add: summary_of_def)
qed

lemma mixed_summary_ok:
  assumes "list_all2 (ready_shard lookup t K key) keys xs" and t: "0 \<le> t"
    and "summary_of P L s" and "\<forall>e \<in> set L. sa_state e = scheduledStateCooldown \<longrightarrow> 0 < sa_nextRetryAt e"
  shows "summary_of P (L @ shards_list xs) (fold (mixed_summary P) xs s)"
  using assms(1,3,4)
proof (induction keys xs arbitrary: L s rule: list_all2_induct)
  case Nil
  then show ?case by (simp add: shards_list_def)
next
  case (Cons pk keys x xs)
  show ?case
  proof (cases x)
    case None
    with Cons show ?thesis by (simp add: mixed_summary_def shards_list_def)
  next
    case (Some m)
    then have m: "shard_for lookup t K pk key m" using Cons.hyps(1) by (simp add: ready_shard_def)
    note sm = shard_summary [OF m t]
    have pos: "\<forall>e \<in> set (L @ map snd (sh_entries m)). sa_state e = scheduledStateCooldown \<longrightarrow> 0 < sa_nextRetryAt e"
      using Cons.prems(2) cooldown_positive(1) [OF t sm(3)] sm(1) by auto
    obtain n c u n' c' u' where s: "s = (n, c, u)" "availabilitySummaryLocked P m = (n', c', u')" by (metis prod_cases3)
    have "summary_of P (L @ map snd (sh_entries m)) (n + n', c + c', earlier_retry u u')"
      using summary_append [OF _ _ pos] Cons.prems(1) sm(2) [of P] s by simp
    then have "summary_of P (L @ map snd (sh_entries m)) (mixed_summary P (Some m) s)"
      by (simp add: mixed_summary_def s earlier_retry_def)
    from Cons.IH [OF this pos] show ?thesis by (simp add: Some shards_list_def)
  qed
qed

lemma shards_list_mem:
  assumes "list_all2 (ready_shard lookup t K key) keys xs" "0 \<le> t"
  shows "sa_auth ` {e \<in> set (shards_list xs). request_pred rq tried w e} = request_pool lookup K keys key rq tried w"
    and "e \<in> set (shards_list xs) \<Longrightarrow> (sa_state e, sa_nextRetryAt e) = sched_of lookup (sa_auth e) key t"
proof -
  have "sa_auth ` {e \<in> set (shards_list xs). request_pred rq tried w e} = request_pool lookup K keys key rq tried w \<and>
     (\<forall>e \<in> set (shards_list xs). (sa_state e, sa_nextRetryAt e) = sched_of lookup (sa_auth e) key t)"
    using assms(1)
  proof (induction keys xs rule: list_all2_induct)
    case Nil
    then show ?case by (simp add: shards_list_def request_pool_def)
  next
    case (Cons pk keys x xs)
    have p: "request_pool lookup K (pk # keys) key rq tried w = {a \<in> serving lookup K pk key. may_use rq tried w a} \<union> request_pool lookup K keys key rq tried w"
      by (auto simp: request_pool_def)
    show ?case
    proof (cases x)
      case None
      then have "serving lookup K pk key = {}" using Cons.hyps(1) by (auto simp: ready_shard_def serving_def)
      with None Cons.IH p show ?thesis by (simp add: shards_list_def)
    next
      case (Some m)
      then have m: "shard_for lookup t K pk key m" using Cons.hyps(1) by (simp add: ready_shard_def)
      have a: "{a \<in> serving lookup K pk key. may_use rq tried w a} = sa_auth ` {e \<in> shard_entries m. request_pred rq tried w e}"
        using entry_facts(3) [OF m] unfolding shard_for_serving [OF m, symmetric] by auto
      have l: "set (shards_list (x # xs)) = shard_entries m \<union> set (shards_list xs)"
        using shard_summary(1) [OF m assms(2)] by (simp add: shards_list_def Some)
      have "sa_auth ` {e \<in> set (shards_list (x # xs)). request_pred rq tried w e} =
          sa_auth ` {e \<in> shard_entries m. request_pred rq tried w e} \<union> sa_auth ` {e \<in> set (shards_list xs). request_pred rq tried w e}"
        unfolding l by auto
      moreover have "\<forall>e \<in> set (shards_list (x # xs)). (sa_state e, sa_nextRetryAt e) = sched_of lookup (sa_auth e) key t"
        unfolding l using Cons.IH entry_facts(4) [OF m] by blast
      ultimately show ?thesis using Cons.IH p a by simp
    qed
  qed
  then show "sa_auth ` {e \<in> set (shards_list xs). request_pred rq tried w e} = request_pool lookup K keys key rq tried w"
    "e \<in> set (shards_list xs) \<Longrightarrow> (sa_state e, sa_nextRetryAt e) = sched_of lookup (sa_auth e) key t" by auto
qed

lemma fail_mixed_ok:
  fixes keys tried :: "string list" and model :: string and rq :: pick_request and w :: bool
  assumes ok: "sched_ok lookup t s" and t: "0 \<le> now" "t \<le> now"
  defines "r \<equiv> fail_mixed lookup keys model (request_pred rq tried w) now s" and "key \<equiv> canonicalModelKey lookup (canonicalModelKey lookup model)"
  shows "sched_ok lookup now (snd r) \<and> known (snd r) = known s \<and>
     fst r = Inl (failure lookup key now now [] model (request_pool lookup (known s) keys key rq tried w))"
proof -
  let ?e = "ensure_shards lookup (canonicalModelKey lookup model) now keys s"
  have e: "sched_ok lookup now (snd ?e)" "known (snd ?e) = known s" "list_all2 (ready_shard lookup now (known s) key) keys (fst ?e)"
    using ensure_shards_ok [OF ok t] unfolding key_def by blast+
  have r: "r = (Inl (unavailable_error now [] model (fold (mixed_summary (request_pred rq tried w)) (fst ?e) (0, 0, 0))), snd ?e)"
    by (simp add: r_def fail_mixed_def mixedUnavailableErrorLocked_def case_prod_beta)
  have s0: "summary_of P [] (0, 0, 0)" for P by (simp add: summary_of_def earliest_of_def)
  have s: "summary_of (request_pred rq tried w) (shards_list (fst ?e)) (fold (mixed_summary (request_pred rq tried w)) (fst ?e) (0, 0, 0))"
    using mixed_summary_ok [OF e(3) t(1) s0] by simp
  show ?thesis using e(1,2) summary_failure [OF t(1) shards_list_mem(2) [OF e(3) t(1)] s shards_list_mem(1) [OF e(3) t(1), symmetric]]
    by (simp add: r)
qed

end
