(* ===== verification/Scheduler_Runs.thy ===== *)
theory Scheduler_Runs
  imports Scheduler_Mixed
begin

text \<open>
  Runs of the scheduler: any sequence of its operations, with a clock that does not go back. The
  theorems of the component.
\<close>

section \<open>Picks over several providers\<close>

lemma known_facts:
  assumes "sched_ok lookup t s" "known s i = Some meta"
  shows "mget (as_authProviders s) i = Some (sm_providerKey meta)" "auth_ID (sm_auth meta) = i" "sm_providerKey meta \<noteq> []"
proof -
  obtain pk p where p: "mget (as_authProviders s) i = Some pk" "mget (as_providers s) pk = Some p" "mget (ps_auths p) i = Some meta"
    using assms(2) by (auto simp: known_def split: option.splits)
  have k: "sm_providerKey meta = pk" "pk \<noteq> []" using assms(1) p unfolding sched_ok_def by blast+
  show "mget (as_authProviders s) i = Some (sm_providerKey meta)" "sm_providerKey meta \<noteq> []" using p(1) k by simp_all
  show "auth_ID (sm_auth meta) = i" using assms(1) p by (auto simp: sched_ok_def prov_ok_def)
qed

definition mixed_result ::
  "model_lookup \<Rightarrow> (string \<Rightarrow> scheduled_auth_meta option) \<Rightarrow> string list \<Rightarrow> string \<Rightarrow> time \<Rightarrow> auth set \<Rightarrow> pick_error \<Rightarrow>
   pick_error + auth \<times> string \<Rightarrow> bool" where
  "mixed_result lookup K keys key u A err r \<longleftrightarrow>
     (case r of
        Inl e \<Rightarrow> free lookup key u A = {} \<and> e = err
      | Inr (a, pk) \<Rightarrow> a \<in> best (free lookup key u A) \<and> pk \<in> set keys \<and> a \<in> serving lookup K pk key)"

lemma pinned_ok:
  fixes keys tried :: "string list" and model :: string and w :: bool
  assumes ok: "sched_ok lookup t s" and t: "0 \<le> t" "t \<le> now1" "now1 \<le> now2" "now2 \<le> now3"
    and pin: "pinnedAuthIDFromMetadata (rq_Metadata rq) \<noteq> []"
    and w: "strat = schedulerStrategyWeightedRoundRobin \<longrightarrow> w"
  defines "key \<equiv> canonicalModelKey lookup (canonicalModelKey lookup model)"
    and "A \<equiv> request_pool lookup (known s) keys (canonicalModelKey lookup (canonicalModelKey lookup model)) rq tried w"
    and "r \<equiv> pick_pinned lookup keys model (pinnedAuthIDFromMetadata (rq_Metadata rq)) strat (request_pred rq tried w) now1 now2 now3 s"
  shows "sched_ok lookup now3 (snd r) \<and> known (snd r) = known s \<and>
     mixed_result lookup (known s) keys key now2 A (failure lookup key now2 now3 ''mixed'' model A) (fst r)"
proof -
  let ?pin = "pinnedAuthIDFromMetadata (rq_Metadata rq)" and ?P = "request_pred rq tried w"
  define pk where "pk = auth_provider_of s ?pin"
  have sv: "pk' = pk \<and> pk \<noteq> []" if a: "a \<in> serving lookup (known s) pk' key" and use: "may_use rq tried w a" for a pk'
  proof -
    obtain i meta where m: "known s i = Some meta" "sm_providerKey meta = pk'" "a = sm_auth meta" using a by (auto simp: serving_def)
    have "i = ?pin" using known_facts(2) [OF ok m(1)] use pin m(3) by (simp add: may_use_def)
    then show ?thesis using known_facts(1,3) [OF ok m(1)] m(2) by (auto simp: pk_def auth_provider_of_def)
  qed
  have late: "sched_ok lookup now3 s" using sched_ok_later [OF _ ok, of now3] t by simp
  have n: "0 \<le> now1" "0 \<le> now2" using t by auto
  show ?thesis
  proof (cases "pk = [] \<or> pk \<notin> set keys")
    case True
    then have "r = (Inl no_auth, s)"
      by (auto simp: r_def pick_pinned_def Let_def pk_def [symmetric] containsProvider_def list_ex_iff)
    moreover have "A = {}" using True sv unfolding A_def request_pool_def key_def [symmetric] by blast
    ultimately show ?thesis using late by (simp add: mixed_result_def free_def failure_def)
  next
    case False
    have A: "A = {a \<in> serving lookup (known s) pk key. may_use rq tried w a}"
      using False sv unfolding A_def request_pool_def key_def [symmetric] by blast
    let ?e = "ensure_shard lookup (canonicalModelKey lookup model) now1 pk s"
    have e: "sched_ok lookup now1 (snd ?e)" "known (snd ?e) = known s" "ready_shard lookup now1 (known s) key pk (fst ?e)"
      using ensure_shard_ok [OF ok n(1) t(2)] unfolding key_def by blast+
    show ?thesis
    proof (cases "fst ?e")
      case None
      then have "A = {}" using e(3) by (auto simp: A ready_shard_def serving_def)
      moreover have "r = (Inl no_auth, snd ?e)"
        using None False by (auto simp: r_def pick_pinned_def Let_def pk_def [symmetric] containsProvider_def list_ex_iff split: prod.splits)
      ultimately show ?thesis using e sched_ok_later [OF _ e(1), of now3] t by (simp add: mixed_result_def free_def failure_def)
    next
      case (Some m)
      let ?q = "pickReadyLocked lookup now2 False strat ?P m" and ?m = "promoteExpiredLocked lookup now2 m"
      have m: "shard_for lookup now1 (known s) pk key m" using e(3) Some by (simp add: ready_shard_def)
      then have sok: "shard_ok lookup now1 m" using fresh_ok [OF n(1) order_refl] by (simp add: shard_for_def)
      have w': "strat = schedulerStrategyWeightedRoundRobin \<Longrightarrow> (\<forall>e. ?P e \<longrightarrow> 0 < sm_weight (sa_meta e))"
        using w request_pred_weight by auto
      note pr = pickReady_ok [where strategy = strat and pref = False and P = ?P, OF sok n(2) t(3) w']
      have metas: "metas_of (snd ?q) = metas_of m" "metas_of ?m = metas_of m"
        using pr(2) promote_metas [OF sok, of now2] by (simp_all add: metas_of_def fun_eq_iff)
      have fq: "shard_for lookup now2 (known s) pk key (snd ?q)" using m pr(1,4) metas by (simp add: shard_for_def)
      have fm: "shard_for lookup now2 (known s) pk key ?m"
        using m promote_fresh [OF sok n(2) t(3)] promote_entries(2) [OF sok] metas by (simp add: shard_for_def)
      have r: "r = ((case fst ?q of Some a \<Rightarrow> Inr (a, pk) | None \<Rightarrow> Inl (unavailableErrorLocked now3 ''mixed'' model ?P (snd ?q))),
          put_shard pk (snd ?q) (snd ?e))"
        using Some False by (auto simp: r_def pick_pinned_def Let_def pk_def [symmetric] containsProvider_def list_ex_iff
            case_prod_beta split: option.splits prod.splits)
      have s2: "sched_ok lookup now2 (snd r)" "known (snd r) = known s"
        using put_shard_ok' [OF sched_ok_later [OF t(3) e(1)] n(2), of pk key "snd ?q"] fq e(2) by (simp_all add: r)
      have el: "sa_auth ` eligible ?P ?m = free lookup key now2 A" unfolding A by (rule eligible_free [OF fm])
      have sub: "eligible ?P ?m \<subseteq> shard_entries ?m" by (auto simp: eligible_def shard_entries_def)
      have "mixed_result lookup (known s) keys key now2 A (failure lookup key now2 now3 ''mixed'' model A) (fst r)"
      proof (cases "fst ?q")
        case None
        then show ?thesis using pr(3) el unavailable_exact [OF fq n(2)] by (simp add: r mixed_result_def A)
      next
        case (Some a)
        have "a \<in> sa_auth ` top_entries (preferred False (eligible ?P ?m))" using pr(3) Some by auto
        then have b: "a \<in> best (free lookup key now2 A)" using top_best [OF fm sub, of False] el by (simp add: transport_def)
        then have "a \<in> serving lookup (known s) pk key" by (auto simp: best_def free_def A)
        then show ?thesis using Some b False by (simp add: r mixed_result_def)
      qed
      then show ?thesis using s2 sched_ok_later [OF t(4) s2(1)] by simp
    qed
  qed
qed

text \<open>A choice at the best priority of all shards.\<close>

lemma chosen_best:
  assumes l: "list_all2 (ready_shard lookup t K key) keys xs" and z: "(pk, Some m) \<in> set (zip keys xs)"
    and e: "e \<in> eligible (request_pred rq tried w) m"
    and max: "\<forall>q \<in> prio_of ` all_eligible (request_pred rq tried w) xs. q \<le> prio_of e"
  shows "sa_auth e \<in> best (free lookup key t (request_pool lookup K keys key rq tried w)) \<and> pk \<in> set keys \<and> sa_auth e \<in> serving lookup K pk key"
    and "shard_for lookup t K pk key m" "index_ok m" "entries_ok (sh_entries m)"
proof -
  let ?P = "request_pred rq tried w"
  show m: "shard_for lookup t K pk key m"
    using l z by (auto simp: list_all2_iff ready_shard_def)
  then show "index_ok m" "entries_ok (sh_entries m)" by (auto simp: shard_for_def shard_fresh_def)
  have in_x: "Some m \<in> set xs" "pk \<in> set keys" using z by (auto dest: set_zip_rightD set_zip_leftD)
  then have ea: "e \<in> all_eligible ?P xs" using e by (force simp: all_eligible_def)
  have p: "prio_of x = prio (sa_auth x)" if x: "x \<in> all_eligible ?P xs" for x
  proof -
    obtain m' where m': "Some m' \<in> set xs" "x \<in> eligible ?P m'" using x by (auto simp: all_eligible_def split: option.splits)
    obtain pk' where "shard_for lookup t K pk' key m'" using ready_shard_at [OF l m'(1)] by blast
    moreover have "x \<in> shard_entries m'" using m'(2) by (auto simp: eligible_def shard_entries_def)
    ultimately show ?thesis using entry_facts(1) by blast
  qed
  have "sa_auth e \<in> serving lookup K pk key"
    using shard_for_serving [OF m] e by (auto simp: eligible_def shard_entries_def)
  moreover have "sa_auth e \<in> best (free lookup key t (request_pool lookup K keys key rq tried w))"
    unfolding all_eligible_free [OF l, symmetric] best_def using ea p max by auto
  ultimately show "sa_auth e \<in> best (free lookup key t (request_pool lookup K keys key rq tried w)) \<and> pk \<in> set keys \<and> sa_auth e \<in> serving lookup K pk key"
    using in_x(2) by blast
qed

lemma mixed_round_robin_picks:
  assumes l: "list_all2 (ready_shard lookup t K key) keys xs" and P: "P = request_pred rq tried w"
    and p: "p \<in> prio_of ` all_eligible P xs"
  shows "\<exists>pk m a m' slot. mixed_round_robin lookup keys model ck p P now xs s =
      (Inr (a, pk), put_shard pk m' (s\<lparr>as_mixedCursors := mput ck (int slot + 1) (as_mixedCursors s)\<rparr>)) \<and>
      (pk, Some m) \<in> set (zip keys xs) \<and> pickReadyAtPriorityLocked False p schedulerStrategyRoundRobin P m = (Some a, m')"
proof -
  let ?ws = "mixed_weights p P xs"
  have len: "length keys = length xs" "length ?ws = length xs" using l by (auto simp: list_all2_lengthD mixed_weights_def)
  note ix = shards_indexed [OF l]
  have wz: "?ws ! i = 0 \<longleftrightarrow> (case xs ! i of None \<Rightarrow> True | Some m \<Rightarrow> \<not> (\<exists>e \<in> eligible P m. prio_of e = p))" if "i < length xs" for i
  proof (cases "xs ! i")
    case (Some m)
    then have "index_ok m" "entries_ok (sh_entries m)" using ix nth_mem [OF that] by auto
    from ready_count_zero [OF this, of p P] Some that show ?thesis by (simp add: mixed_weights_def)
  qed (use that in \<open>simp add: mixed_weights_def\<close>)
  obtain e m where em: "Some m \<in> set xs" "e \<in> eligible P m" "prio_of e = p" using p by (auto simp: all_eligible_def split: option.splits)
  then obtain j where "j < length xs" "xs ! j = Some m" by (auto simp: in_set_conv_nth)
  then have "?ws ! j \<noteq> 0" "j < length ?ws" using wz [of j] em len by auto
  then have tot: "sum_list ?ws \<noteq> 0" by (metis elem_le_sum_list le_zero_eq)
  define slot where "slot = nat (rem64 (map_get0 (as_mixedCursors s) ck) (int (sum_list ?ws)))"
  have rem: "nat (rem64 a b) < nat b" if "0 < b" for a b :: int
  proof -
    have "\<bar>rem64 a b\<bar> < b"
      using that pos_mod_bound [of b "\<bar>a\<bar>"] pos_mod_sign [of b "\<bar>a\<bar>"]
      by (auto simp: rem64_def quot64_def sgn_if abs_if minus_mult_div_eq_mod [symmetric] split: if_splits)
    then show ?thesis by linarith
  qed
  have "slot < sum_list ?ws" unfolding slot_def using rem [of "int (sum_list ?ws)"] tot by simp
  then obtain i where i: "find (\<lambda>i. ?ws ! i \<noteq> 0 \<and> slot < segment_start ?ws (Suc i)) [0..<length keys] = Some i" "i < length xs" "?ws ! i \<noteq> 0"
    using find_segment [of slot ?ws] len by auto
  then obtain m' where m': "xs ! i = Some m'" "\<exists>e \<in> eligible P m'. prio_of e = p" using wz [of i] by (auto split: option.splits)
  have ok: "index_ok m'" "entries_ok (sh_entries m')" using ix m'(1) i(2) nth_mem by metis+
  obtain a m'' where pk: "pickReadyAtPriorityLocked False p schedulerStrategyRoundRobin P m' = (Some a, m'')"
    using pickAtPriority(3) [where pref = False and p = p and strategy = schedulerStrategyRoundRobin and P = P, OF ok] m'(2)
    by (cases "pickReadyAtPriorityLocked False p schedulerStrategyRoundRobin P m'") (auto split: option.splits)
  have "mixed_rotate keys xs ?ws p P i slot [0..<length keys] = Some (a, keys ! i, m'', slot)"
    using i m' pk len by (intro mixed_rotate_starts) auto
  then have "mixed_round_robin lookup keys model ck p P now xs s =
      (Inr (a, keys ! i), put_shard (keys ! i) m'' (s\<lparr>as_mixedCursors := mput ck (int slot + 1) (as_mixedCursors s)\<rparr>))"
    unfolding mixed_round_robin_def Let_def slot_def [symmetric] if_not_P [OF tot] i(1) by simp
  moreover have "(keys ! i, Some m') \<in> set (zip keys xs)" using i(2) len(1) m'(1) by (force simp: set_zip)
  ultimately show ?thesis using pk by blast
qed

lemma mixed_weighted_picks:
  assumes l: "list_all2 (ready_shard lookup t K key) keys xs" and d: "distinct keys" and P: "P = request_pred rq tried True"
    and p: "p \<in> prio_of ` all_eligible P xs"
  shows "\<exists>e m st. mixed_weighted ck p P xs s = (Some (sa_auth e, sm_providerKey (sa_meta e)), s\<lparr>as_mixedWeightedStates := st\<rparr>) \<and>
      (sm_providerKey (sa_meta e), Some m) \<in> set (zip keys xs) \<and> e \<in> eligible P m \<and> prio_of e = p"
proof -
  let ?E = "mixed_entries xs" and ?ids = "sort (concat (map (ready_ids_at p) xs))"
  note get = mixed_entries_get [OF l d]
  note ix = shards_indexed [OF l]
  have ids: "ready_ids_at p (Some m) = ready_at (sh_entries m) p" if "Some m \<in> set xs" for m
  proof (cases "mget (sh_readyByPriority m) p")
    case None
    then have "ready_at (sh_entries m) p = []" using ix that unfolding index_ok_def by blast
    then show ?thesis using None by (simp add: ready_ids_at_def)
  next
    case (Some b)
    then have "bucket_ok (sh_entries m) p b" using ix that unfolding index_ok_def by blast
    then show ?thesis using Some by (simp add: ready_ids_at_def bucket_ok_def)
  qed
  have mem: "i \<in> set ?ids \<longleftrightarrow> (\<exists>m. Some m \<in> set xs \<and> i \<in> set (ready_at (sh_entries m) p))" for i
  proof -
    have "i \<in> set ?ids \<longleftrightarrow> (\<exists>x \<in> set xs. i \<in> set (ready_ids_at p x))" by auto
    also have "\<dots> \<longleftrightarrow> (\<exists>m. Some m \<in> set xs \<and> i \<in> set (ready_ids_at p (Some m)))" (is "?l \<longleftrightarrow> ?r")
    proof
      assume ?l
      then obtain x where x: "x \<in> set xs" "i \<in> set (ready_ids_at p x)" by blast
      then have "x \<noteq> None" by (auto simp: ready_ids_at_def)
      with x show ?r by blast
    qed blast
    finally show ?thesis using ids by auto
  qed
  have same: "mget ?E i = mget (sh_entries m) i" if "Some m \<in> set xs" "mget (sh_entries m) i \<noteq> None" for m i
    using get [of i] that by auto
  have wP: "weighs P e \<longleftrightarrow> P e" for e using request_pred_weight [of rq tried e] by (auto simp: weighs_def P)
  obtain e0 m0 where e0: "Some m0 \<in> set xs" "e0 \<in> eligible P m0" "prio_of e0 = p" using p by (auto simp: all_eligible_def split: option.splits)
  have wf0: "entries_ok (sh_entries m0)" "wf_map (sh_entries m0)" using ix e0(1) by (auto simp: entries_ok_def)
  obtain i0 where i0: "mget (sh_entries m0) i0 = Some e0" "sa_state e0 = scheduledStateReady" "P e0" using e0(2) by (auto simp: eligible_def)
  have "i0 \<in> set ?ids" unfolding mem using e0 i0 by (auto simp: ready_at_mem [OF wf0(2)] entry_passes_def)
  moreover have "mget ?E i0 = Some e0" using same [OF e0(1), of i0] i0(1) by simp
  ultimately have "i0 \<in> set (usable ?E (weighs P) ?ids)" unfolding usable_def set_filter using i0(3) by (simp add: entry_passes_def wP)
  then have ne: "usable ?E (weighs P) ?ids \<noteq> []" by auto
  define st where "st = prepare (scheduledWeightVectorMatching ?E P ?ids)
      (case mget (as_mixedWeightedStates s) ck of None \<Rightarrow> \<lparr>sw_current = [], sw_weights = []\<rparr> | Some st \<Rightarrow> st)"
  obtain y cur where y: "pickSmoothWeightedScheduled ?E P ?ids (sw_current st) = (y, cur)" by fastforce
  obtain i where i: "y = Some i" "i \<in> set (usable ?E (weighs P) ?ids)"
    using pickSmooth_picks [of ?E P ?ids "sw_current st"] ne y by (auto simp: picks_from_def split: option.splits)
  have "i \<in> set ?ids" "entry_passes ?E (weighs P) i" using i(2) by (simp_all add: usable_def)
  then obtain e m where e: "mget ?E i = Some e" "P e" "Some m \<in> set xs" "i \<in> set (ready_at (sh_entries m) p)"
    unfolding mem by (auto simp: entry_passes_def wP split: option.splits)
  have wf: "wf_map (sh_entries m)" using ix e(3) by (auto simp: entries_ok_def)
  obtain e' where e': "mget (sh_entries m) i = Some e'" "sa_state e' = scheduledStateReady" "prio_of e' = p"
    using e(4) unfolding ready_at_mem [OF wf] by (auto simp: entry_passes_def split: option.splits)
  have "e' = e" using same [OF e(3), of i] e'(1) e(1) by simp
  then have el: "e \<in> eligible P m" "prio_of e = p" using e'(1-3) e(2) by (auto simp: eligible_def)
  obtain k where k: "k < length xs" "xs ! k = Some m" using e(3) by (auto simp: in_set_conv_nth)
  have "length keys = length xs" using l by (rule list_all2_lengthD)
  then have z: "(keys ! k, Some m) \<in> set (zip keys xs)" using k by (force simp: set_zip)
  have "shard_for lookup t K (keys ! k) key m" using list_all2_nthD2 [OF l k(1)] k(2) by (simp add: ready_shard_def)
  moreover have "metas_of m i = Some (sa_meta e)" using e'(1) \<open>e' = e\<close> by (simp add: metas_of_def)
  ultimately have "sm_providerKey (sa_meta e) = keys ! k" unfolding shard_for_def by blast
  moreover have "mixed_weighted ck p P xs s = (Some (sa_auth e, sm_providerKey (sa_meta e)),
      s\<lparr>as_mixedWeightedStates := mput ck (st\<lparr>sw_current := cur\<rparr>) (as_mixedWeightedStates s)\<rparr>)"
    unfolding mixed_weighted_def Let_def st_def [symmetric] y by (simp add: i(1) e(1))
  ultimately show ?thesis using z el by metis
qed

lemma dedup_keys_props: "distinct (dedup_keys seen ps) \<and> set (dedup_keys seen ps) \<inter> set seen = {}"
  by (induction seen ps rule: dedup_keys.induct) (auto simp: Let_def)

lemma normalized_distinct: "distinct (normalizeProviderKeys ps)"
  by (simp add: normalizeProviderKeys_def dedup_keys_props)

lemma sched_ok_cursors [simp]:
  "sched_ok lookup t (s\<lparr>as_mixedCursors := c\<rparr>) = sched_ok lookup t s" "known (s\<lparr>as_mixedCursors := c\<rparr>) = known s"
  "sched_ok lookup t (s\<lparr>as_mixedWeightedStates := st\<rparr>) = sched_ok lookup t s"
  "known (s\<lparr>as_mixedWeightedStates := st\<rparr>) = known s"
  by (simp_all add: sched_ok_def known_def fun_eq_iff cong: option.case_cong)

lemma pick_back:
  assumes ok: "sched_ok lookup t s1" and t: "0 \<le> t" and m: "shard_for lookup t (known s1) pk key m" "index_ok m" "entries_ok (sh_entries m)"
    and w: "strat = schedulerStrategyWeightedRoundRobin \<Longrightarrow> (\<forall>e. P e \<longrightarrow> 0 < sm_weight (sa_meta e))"
    and r: "pickReadyAtPriorityLocked False p strat P m = (Some a, m')"
  shows "sched_ok lookup t (put_shard pk m' s1) \<and> known (put_shard pk m' s1) = known s1"
proof -
  note a = pick_at_entry [OF m(2,3) w r]
  obtain R where "m' = m\<lparr>sh_readyByPriority := R\<rparr>" using a(3) by blast
  then have "shard_for lookup t (known s1) pk key m'" using shard_for_views [OF m(1)] a(2) by simp
  from put_shard_ok' [OF ok t this] show ?thesis by blast
qed

lemma pickMixed_spec:
  fixes providers tried :: "string list" and model :: string and rq :: pick_request and strategy :: scheduler_strategy
  assumes ok: "sched_ok lookup t s" and t: "0 \<le> t" "t \<le> now1" "now1 \<le> now2" "now2 \<le> now3"
    and many: "2 \<le> length (normalizeProviderKeys providers)"
  defines "keys \<equiv> normalizeProviderKeys providers" and "key \<equiv> canonicalModelKey lookup (canonicalModelKey lookup model)"
    and "strat \<equiv> effective_strategy strategy s" and "pin \<equiv> pinnedAuthIDFromMetadata (rq_Metadata rq)"
  defines "A \<equiv> request_pool lookup (known s) keys key rq tried (strat = schedulerStrategyWeightedRoundRobin)"
    and "r \<equiv> pickMixedWithStrategy lookup rq providers model tried strategy now1 now2 now3 s"
  shows "sched_ok lookup now3 (snd r) \<and> known (snd r) = known s \<and>
     mixed_result lookup (known s) keys key (if pin = [] then now1 else now2) A
       (if pin = [] then failure lookup key now3 now3 [] model A else failure lookup key now2 now3 ''mixed'' model A) (fst r)"
proof (cases "pin = []")
  case False
  have "r = pick_pinned lookup keys model pin strat (request_pred rq tried (strat = schedulerStrategyWeightedRoundRobin)) now1 now2 now3 s"
    using many False unfolding r_def pickMixedWithStrategy_def keys_def strat_def pin_def
    by (cases "normalizeProviderKeys providers" rule: remdups_adj.cases) (auto simp: Let_def)
  then show ?thesis using pinned_ok [where w = "strat = schedulerStrategyWeightedRoundRobin" and strat = strat and rq = rq and model = model
      and keys = keys and tried = tried, OF ok t] False
    unfolding pin_def key_def A_def by simp
next
  case True
  let ?w = "strat = schedulerStrategyWeightedRoundRobin"
  define P where "P = request_pred rq tried ?w"
  have w: "strat' = schedulerStrategyWeightedRoundRobin \<Longrightarrow> (\<forall>e. P e \<longrightarrow> 0 < sm_weight (sa_meta e))" if "strat' = strat" for strat'
    using that request_pred_weight unfolding P_def by auto
  let ?e = "ensure_shards lookup (canonicalModelKey lookup model) now1 keys s"
  define xs s1 where "xs = fst ?e" and "s1 = snd ?e"
  have n: "0 \<le> now1" "0 \<le> now3" "now1 \<le> now3" using t by auto
  have e: "sched_ok lookup now1 s1" "known s1 = known s" "list_all2 (ready_shard lookup now1 (known s) key) keys xs"
    using ensure_shards_ok [OF ok n(1) t(2)] unfolding key_def xs_def s1_def by blast+
  let ?ck = "Join keys '','' @ '':'' @ canonicalModelKey lookup model"
  have r0: "r = pick_across lookup keys model strat P now1 now3 s"
    using many True unfolding r_def pickMixedWithStrategy_def keys_def strat_def pin_def P_def
    by (cases "normalizeProviderKeys providers" rule: remdups_adj.cases) (auto simp: Let_def)
  have r: "r = (case fold (best_ready P) xs None of
       None \<Rightarrow> fail_mixed lookup keys model P now3 s1
     | Some p \<Rightarrow>
         if strat = schedulerStrategyFillFirst then
           (case pick_in_order p strat P (zip keys xs) of
              Some (picked, providerKey, shard) \<Rightarrow> (Inr (picked, providerKey), put_shard providerKey shard s1)
            | None \<Rightarrow> fail_mixed lookup keys model P now3 s1)
         else if strat = schedulerStrategyWeightedRoundRobin then
           (case mixed_weighted ?ck p P xs s1 of
              (Some x, s2) \<Rightarrow> (Inr x, s2)
            | (None, s2) \<Rightarrow> fail_mixed lookup keys model P now3 s2)
         else mixed_round_robin lookup keys model ?ck p P now3 xs s1)"
    unfolding r0 pick_across_def Let_def case_prod_beta [of _ ?e] xs_def [symmetric] s1_def [symmetric] by (rule refl)
  have fr: "sa_auth ` all_eligible P xs = free lookup key now1 A" unfolding P_def A_def by (rule all_eligible_free [OF e(3)])
  have fb: "case fold (best_ready P) xs None of None \<Rightarrow> prio_of ` all_eligible P xs = {}
      | Some p \<Rightarrow> p \<in> prio_of ` all_eligible P xs \<and> (\<forall>q \<in> prio_of ` all_eligible P xs. q \<le> p)"
    using fold_best_ready [OF shards_indexed [OF e(3)], of None P] by (simp add: Let_def)
  show ?thesis
  proof (cases "fold (best_ready P) xs None")
    case None
    then have "free lookup key now1 A = {}" using fb fr by simp
    then show ?thesis
      using fail_mixed_ok [OF e(1) n(2,3), of keys model rq tried ?w] True None
      by (simp add: r P_def e(2) key_def [symmetric] A_def [symmetric] mixed_result_def)
  next
    case (Some p)
    then have p: "p \<in> prio_of ` all_eligible P xs" "\<forall>q \<in> prio_of ` all_eligible P xs. q \<le> p" using fb by auto
    note best = chosen_best [where w = ?w and rq = rq and tried = tried, folded P_def, OF e(3), folded A_def]
    have fin: ?thesis
      if x: "r = (Inr (sa_auth x, pk), s')" "(pk, Some m) \<in> set (zip keys xs)" "x \<in> eligible P m" "prio_of x = p"
        "sched_ok lookup now1 s'" "known s' = known s" for x pk s' m
      using best(1) [OF x(2,3)] p(2) x(1,4-6) sched_ok_later [OF n(3) x(5)] True by (simp add: mixed_result_def)
    consider (ff) "strat = schedulerStrategyFillFirst" | (wrr) "strat = schedulerStrategyWeightedRoundRobin"
      | (rr) "strat \<noteq> schedulerStrategyFillFirst" "strat \<noteq> schedulerStrategyWeightedRoundRobin" by blast
    then show ?thesis
    proof cases
      case ff
      have ix: "\<forall>pk m. (pk, Some m) \<in> set (zip keys xs) \<longrightarrow> index_ok m \<and> entries_ok (sh_entries m)"
        using shards_indexed [OF e(3)] by (auto dest: set_zip_rightD)
      obtain x0 m0 where "Some m0 \<in> set xs" "x0 \<in> eligible P m0" "prio_of x0 = p" using p(1) by (auto simp: all_eligible_def split: option.splits)
      moreover from this(1) obtain pk0 where "(pk0, Some m0) \<in> set (zip keys xs)"
        using list_all2_lengthD [OF e(3)] by (metis in_set_impl_in_set_zip2 prod.collapse snd_conv)
      ultimately obtain a pk m' where pio: "pick_in_order p strat P (zip keys xs) = Some (a, pk, m')"
        using pick_in_order_ok [where p = p and strategy = strat, OF ix w [OF refl]] by (cases "pick_in_order p strat P (zip keys xs)") auto
      then obtain m where m: "(pk, Some m) \<in> set (zip keys xs)" "pickReadyAtPriorityLocked False p strat P m = (Some a, m')"
        using pick_in_order_ok [where p = p and strategy = strat, OF ix w [OF refl]] by auto
      have im: "index_ok m" "entries_ok (sh_entries m)" using ix m(1) by auto
      obtain x where x: "x \<in> eligible P m" "a = sa_auth x" "prio_of x = p" using pick_at_entry(1) [OF im w [OF refl] m(2)] by auto
      have sf: "shard_for lookup now1 (known s1) pk key m" using best(2) [OF m(1) x(1)] p(2) x(3) e(2) by simp
      show ?thesis
        using pick_back [OF e(1) n(1) sf im w [OF refl] m(2)] Some ff pio
        by (intro fin [of x pk "put_shard pk m' s1" m]) (auto simp: r x m e(2))
    next
      case wrr
      obtain x m st where x: "mixed_weighted ?ck p P xs s1 = (Some (sa_auth x, sm_providerKey (sa_meta x)), s1\<lparr>as_mixedWeightedStates := st\<rparr>)"
        "(sm_providerKey (sa_meta x), Some m) \<in> set (zip keys xs)" "x \<in> eligible P m" "prio_of x = p"
        using mixed_weighted_picks [OF e(3) _ _ p(1), of rq tried ?ck s1] normalized_distinct wrr unfolding P_def keys_def by auto
      show ?thesis using Some wrr x(1) e
        by (intro fin [of x _ "s1\<lparr>as_mixedWeightedStates := st\<rparr>", OF _ x(2-4)]) (auto simp: r)
    next
      case rr
      obtain pk m a m' slot where x: "mixed_round_robin lookup keys model ?ck p P now3 xs s1 =
          (Inr (a, pk), put_shard pk m' (s1\<lparr>as_mixedCursors := mput ?ck (int slot + 1) (as_mixedCursors s1)\<rparr>))"
        "(pk, Some m) \<in> set (zip keys xs)" "pickReadyAtPriorityLocked False p schedulerStrategyRoundRobin P m = (Some a, m')"
        using mixed_round_robin_picks [OF e(3) P_def p(1), of model ?ck now3 s1] by blast
      have im: "index_ok m" "entries_ok (sh_entries m)"
        using shards_indexed [OF e(3)] x(2) by (auto dest: set_zip_rightD)
      have nw: "schedulerStrategyRoundRobin = schedulerStrategyWeightedRoundRobin \<Longrightarrow> (\<forall>e. P e \<longrightarrow> 0 < sm_weight (sa_meta e))" by simp
      obtain y where y: "y \<in> eligible P m" "a = sa_auth y" "prio_of y = p" using pick_at_entry(1) [OF im nw x(3)] by auto
      have sf: "shard_for lookup now1 (known s1) pk key m" using best(2) [OF x(2) y(1)] p(2) y(3) e(2) by simp
      let ?s = "s1\<lparr>as_mixedCursors := mput ?ck (int slot + 1) (as_mixedCursors s1)\<rparr>"
      have "sched_ok lookup now1 (put_shard pk m' ?s) \<and> known (put_shard pk m' ?s) = known ?s"
        using sf by (intro pick_back [OF _ n(1) _ im nw x(3), of lookup ?s pk key]) (simp_all add: e(1))
      then show ?thesis using Some rr x(1) e(2) by (intro fin [of y _ "put_shard pk m' ?s", OF _ x(2) y(1,3)]) (auto simp: r y(2))
    qed
  qed
qed

end
