(* ===== verification/Scheduler_Claims.thy ===== *)
theory Scheduler_Claims
  imports Scheduler_Runs
begin

text \<open>
  Runs of the scheduler and its theorems. The second index of a run is the abstract scheduler: the
  metadata last given for each id.
\<close>

section \<open>Runs\<close>

inductive sched_run :: "model_lookup \<Rightarrow> time \<Rightarrow> auth_scheduler \<Rightarrow> (string \<Rightarrow> scheduled_auth_meta option) \<Rightarrow> bool"
  for lookup :: model_lookup where
  start: "sched_run lookup 0 (newAuthScheduler sel) (\<lambda>_. None)"
| upsert: "sched_run lookup t s K \<Longrightarrow> t \<le> now \<Longrightarrow> trimmed (auth_ID a) \<Longrightarrow>
    sched_run lookup now (upsertAuth lookup reg (Some a) now s) (upsert_known lookup reg a K)"
| remove: "sched_run lookup t s K \<Longrightarrow> sched_run lookup t (removeAuth i s) (K(TrimSpace i := None))"
| select: "sched_run lookup t s K \<Longrightarrow> sched_run lookup t (setSelector sel s) K"
| rebuild: "sched_run lookup t s K \<Longrightarrow> t \<le> now \<Longrightarrow> \<forall>a \<in> set as. trimmed (auth_ID a) \<Longrightarrow>
    sched_run lookup now (rebuild lookup reg (map Some as) now s) (fold (upsert_known lookup reg) as (\<lambda>_. None))"
| single: "sched_run lookup t s K \<Longrightarrow> t \<le> now1 \<Longrightarrow> now1 \<le> now2 \<Longrightarrow> now2 \<le> now3 \<Longrightarrow>
    sched_run lookup now3 (snd (pickSingleWithStrategy lookup rq provider model tried strategy now1 now2 now3 s)) K"
| mixed: "sched_run lookup t s K \<Longrightarrow> t \<le> now1 \<Longrightarrow> now1 \<le> now2 \<Longrightarrow> now2 \<le> now3 \<Longrightarrow>
    sched_run lookup now3 (snd (pickMixedWithStrategy lookup rq providers model tried strategy now1 now2 now3 s)) K"

lemma rebuild_ok:
  assumes "sched_ok lookup t s" "0 \<le> now" "t \<le> now" "\<forall>a \<in> set as. trimmed (auth_ID a)"
  shows "sched_ok lookup now (fold (\<lambda>a. upsertAuthLocked lookup reg a now) (map Some as) s) \<and>
     known (fold (\<lambda>a. upsertAuthLocked lookup reg a now) (map Some as) s) = fold (upsert_known lookup reg) as (known s)"
  using assms(1,3,4)
proof (induction as arbitrary: s t)
  case Nil
  then show ?case using sched_ok_later by simp
next
  case (Cons a as)
  have "sched_ok lookup now (upsertAuthLocked lookup reg (Some a) now s) \<and>
      known (upsertAuthLocked lookup reg (Some a) now s) = upsert_known lookup reg a (known s)"
    using Cons.prems assms(2) by (intro upsert_ok [where t = t]) auto
  with Cons.IH [of now "upsertAuthLocked lookup reg (Some a) now s"] Cons.prems show ?case by simp
qed

lemma known_empty_id: "sched_ok lookup t s \<Longrightarrow> known s [] = None"
  by (auto simp: known_def sched_ok_def prov_ok_def meta_ok_def split: option.splits) blast

lemma known_None: "sched_ok lookup t s \<Longrightarrow> known s i = None \<Longrightarrow> mget (as_authProviders s) i = None"
  unfolding known_def sched_ok_def by (metis (no_types, lifting) not_None_eq option.simps(5))

lemma sched_run_ok: "sched_run lookup t s K \<Longrightarrow> 0 \<le> t \<and> sched_ok lookup t s \<and> known s = K"
proof (induction rule: sched_run.induct)
  case (start sel)
  then show ?case by (simp add: newAuthScheduler_def sched_ok_def known_def)
next
  case (upsert t s K now a reg)
  then show ?case using upsert_ok [of lookup t s now a reg] by (simp add: upsertAuth_def)
next
  case (remove t s K i)
  then have ok: "0 \<le> t" "sched_ok lookup t s" "known s = K" by auto
  show ?case
  proof (cases "TrimSpace i = []")
    case True
    then have "removeAuth i s = s" "K(TrimSpace i := None) = K"
      using known_empty_id [OF ok(2)] ok(3) by (auto simp: removeAuth_def)
    then show ?thesis using ok by simp
  next
    case False
    then show ?thesis using remove_auth_ok [OF ok(2)] ok by (simp add: removeAuth_def)
  qed
next
  case (select t s K sel)
  then show ?case by (simp add: setSelector_def sched_ok_def known_def fun_eq_iff cong: option.case_cong)
next
  case (rebuild t s K now as reg)
  have "sched_ok lookup t (s\<lparr>as_providers := [], as_authProviders := [], as_mixedCursors := [], as_mixedWeightedStates := []\<rparr>)"
    by (simp add: sched_ok_def)
  moreover have "known (s\<lparr>as_providers := [], as_authProviders := [], as_mixedCursors := [], as_mixedWeightedStates := []\<rparr>) = (\<lambda>_. None)"
    by (simp add: known_def fun_eq_iff)
  ultimately show ?case using rebuild rebuild_ok [of lookup t _ now as reg] by (simp add: rebuild_def)
next
  case (single t s K now1 now2 now3 rq provider model tried strategy)
  then show ?case using pickSingle_spec [of lookup t s now1 now2 now3] by auto
next
  case (mixed t s K now1 now2 now3 rq providers model tried strategy)
  have t: "0 \<le> t" "sched_ok lookup t s" "known s = K" using mixed by auto
  show ?case
  proof (cases "2 \<le> length (normalizeProviderKeys providers)")
    case True
    then show ?thesis using pickMixed_spec [where model = model and strategy = strategy and rq = rq and tried = tried, OF t(2,1) mixed.hyps(2-4) True] t mixed.hyps(2-4) by auto
  next
    case False
    then consider "normalizeProviderKeys providers = []" | pk where "normalizeProviderKeys providers = [pk]"
      by (cases "normalizeProviderKeys providers" rule: remdups_adj.cases) auto
    then show ?thesis
    proof cases
      case 1
      then show ?thesis using t sched_ok_later [OF _ t(2), of now3] mixed.hyps(2-4) by (simp add: pickMixedWithStrategy_def)
    next
      case 2
      have "snd (pickMixedWithStrategy lookup rq providers model tried strategy now1 now2 now3 s) =
          snd (pickSingleWithStrategy lookup rq pk model tried strategy now1 now2 now3 s)"
        by (simp add: pickMixedWithStrategy_def 2 split: sum.splits prod.splits)
      then show ?thesis using pickSingle_spec [OF t(2,1) mixed.hyps(2-4)] t mixed.hyps(2-4) by auto
    qed
  qed
qed

section \<open>A concrete run\<close>

text \<open>Two credentials: \<open>a\<close> of claude has priority 9 and is rate limited until 50, \<open>b\<close> has priority 1 and
  the given provider. Both serve the model \<open>m\<close>.\<close>

abbreviation no_lookup :: model_lookup where
  "no_lookup \<equiv> \<lambda>_ _. None"

definition demo_models :: model_registry where
  "demo_models = RegisterClient ''b'' ''claude'' [Some (zero_model_info\<lparr>mi_ID := ''m''\<rparr>)] 7
     (RegisterClient ''a'' ''claude'' [Some (zero_model_info\<lparr>mi_ID := ''m''\<rparr>)] 6 empty_registry)"

definition demo_a :: auth where
  "demo_a = (demo_limited ''a'' ''9'' 50)\<lparr>auth_Provider := ''claude''\<rparr>"

definition demo_b :: "string \<Rightarrow> auth" where
  "demo_b provider = (demo_auth ''b'' ''1'')\<lparr>auth_Provider := provider\<rparr>"

definition demo_scheduler :: "string \<Rightarrow> auth_scheduler" where
  "demo_scheduler provider = upsertAuth no_lookup demo_models (Some (demo_b provider)) 11
     (upsertAuth no_lookup demo_models (Some demo_a) 10 (newAuthScheduler FillFirstSelector))"

definition demo_known :: "string \<Rightarrow> string \<Rightarrow> scheduled_auth_meta option" where
  "demo_known provider = (\<lambda>_. None)(''a'' \<mapsto> buildScheduledAuthMeta no_lookup demo_models demo_a,
     ''b'' \<mapsto> buildScheduledAuthMeta no_lookup demo_models (demo_b provider))"

definition demo_pick_request :: pick_request where
  "demo_pick_request = \<lparr>rq_DownstreamWebsocket = False, rq_requiredKind = [], rq_credentialPolicy = [], rq_Metadata = []\<rparr>"

lemma demo_facts:
  "auth_ID demo_a = ''a''" "auth_ID (demo_b p) = ''b''" "trimmed ''a''" "trimmed ''b''"
  "\<not> auth_Disabled demo_a" "\<not> auth_Disabled (demo_b p)" "executorKeyFromAuth (Some demo_a) = ''claude''"
  "executorKeyFromAuth (Some (demo_b ''claude'')) = ''claude''" "executorKeyFromAuth (Some (demo_b ''gemini'')) = ''gemini''"
  "supportsModel no_lookup (buildScheduledAuthMeta no_lookup demo_models demo_a) ''m''"
  "supportsModel no_lookup (buildScheduledAuthMeta no_lookup demo_models (demo_b ''claude'')) ''m''"
  "supportsModel no_lookup (buildScheduledAuthMeta no_lookup demo_models (demo_b ''gemini'')) ''m''"
  "canonicalModelKey no_lookup ''m'' = ''m''"
  by code_simp+

lemma demo_run:
  assumes "executorKeyFromAuth (Some (demo_b p)) \<noteq> []"
  shows "sched_run no_lookup 11 (demo_scheduler p) (demo_known p)"
proof -
  have "sched_run no_lookup 11 (demo_scheduler p)
      (upsert_known no_lookup demo_models (demo_b p) (upsert_known no_lookup demo_models demo_a (\<lambda>_. None)))"
    unfolding demo_scheduler_def
    by (rule sched_run.upsert [where t = 10], rule sched_run.upsert [where t = 0], rule sched_run.start) (simp_all add: demo_facts)
  also have "upsert_known no_lookup demo_models (demo_b p) (upsert_known no_lookup demo_models demo_a (\<lambda>_. None)) = demo_known p"
    using assms by (simp add: upsert_known_def schedulable_def demo_known_def demo_facts)
  finally show ?thesis .
qed

section \<open>Theorems\<close>

text \<open>C24: After any sequence of operations the scheduler holds, for every id, exactly the metadata of
  the last upsert that was not followed by a removal, and holds it under one provider only, the
  credential's executor key: no stale copy of a credential can be picked.\<close>

theorem scheduler_knows_latest:
  assumes "sched_run lookup t s K"
  shows "mget (as_authProviders s) i = map_option sm_providerKey (K i) \<and>
     ((\<exists>p. mget (as_providers s) pk = Some p \<and> mget (ps_auths p) i = Some meta) \<longleftrightarrow> K i = Some meta \<and> sm_providerKey meta = pk)"
proof -
  have ok: "sched_ok lookup t s" and K: "known s = K" using sched_run_ok [OF assms] by auto
  have "mget (as_authProviders s) i = map_option sm_providerKey (K i)"
  proof (cases "K i")
    case None
    then show ?thesis using known_None [OF ok] K by simp
  next
    case (Some m)
    then show ?thesis using known_facts(1) [OF ok] K by simp
  qed
  moreover have "(\<exists>p. mget (as_providers s) pk = Some p \<and> mget (ps_auths p) i = Some meta) \<longleftrightarrow> K i = Some meta \<and> sm_providerKey meta = pk"
    using known_provider [OF ok] known_no_provider [OF ok] K by (metis option.exhaust)
  ultimately show ?thesis by blast
qed

theorem scheduler_knows_latest_witness:
  "mget (as_authProviders (demo_scheduler ''claude'')) ''b'' = Some ''claude'' \<and>
   mget (as_authProviders (removeAuth '' a '' (demo_scheduler ''claude''))) ''a'' = None"
proof -
  have run: "sched_run no_lookup 11 (demo_scheduler ''claude'') (demo_known ''claude'')"
    by (rule demo_run) (simp add: demo_facts)
  have "TrimSpace '' a '' = ''a''" by code_simp
  with sched_run.remove [OF run, of "'' a ''"]
  have "sched_run no_lookup 11 (removeAuth '' a '' (demo_scheduler ''claude'')) ((demo_known ''claude'')(''a'' := None))" by simp
  from scheduler_knows_latest [OF this, of "''a''"] scheduler_knows_latest [OF run, of "''b''"] show ?thesis
    by (simp add: demo_known_def buildScheduledAuthMeta_def demo_facts)
qed

text \<open>The error of a request that fails \<open>d\<close> later: its retry hint is shorter by as much.\<close>

definition delayed :: "duration \<Rightarrow> pick_error \<Rightarrow> pick_error" where
  "delayed d err = (case err of ModelCooldownError m p r \<Rightarrow> ModelCooldownError m p (max 0 (r - d)) | _ \<Rightarrow> err)"

lemma best_set:
  assumes "set cands = Some ` A"
  shows "set (unblocked lookup key now cands) = free lookup key now A"
    and "set (top_tier (unblocked lookup key now cands)) = best (free lookup key now A)"
  using assms by (auto simp: unblocked_mem free_def top_tier_def best_def)


lemma serving_upd:
  "K i = None \<Longrightarrow> serving lookup (K(i := Some m)) pk key =
     (if sm_providerKey m = pk \<and> supportsModel lookup m key then insert (sm_auth m) (serving lookup K pk key)
      else serving lookup K pk key)"
proof -
  assume i: "K i = None"
  let ?ok = "\<lambda>x. sm_providerKey x = pk \<and> supportsModel lookup x key"
  have "(K(i := Some m)) j = Some x \<longleftrightarrow> j = i \<and> x = m \<or> K j = Some x" for j x using i by auto
  then have "serving lookup (K(i := Some m)) pk key = {sm_auth x | j x. (j = i \<and> x = m \<or> K j = Some x) \<and> ?ok x}"
    unfolding serving_def by presburger
  also have "\<dots> = {sm_auth x | j x. j = i \<and> x = m \<and> ?ok x} \<union> {sm_auth x | j x. K j = Some x \<and> ?ok x}" by blast
  also have "{sm_auth x | j x. j = i \<and> x = m \<and> ?ok x} = (if ?ok m then {sm_auth m} else {})" by (simp split: if_splits)
  finally show ?thesis unfolding serving_def by simp
qed

lemma serving_none: "serving lookup (\<lambda>_. None) pk key = {}"
  by (simp add: serving_def)

lemma demo_meta:
  "sm_auth (buildScheduledAuthMeta lookup reg a) = a"
  "sm_providerKey (buildScheduledAuthMeta lookup reg a) = executorKeyFromAuth (Some a)"
  by (simp_all add: buildScheduledAuthMeta_def)

lemma demo_serving:
  "serving no_lookup (demo_known ''claude'') ''claude'' ''m'' = {demo_a, demo_b ''claude''}"
  "serving no_lookup (demo_known ''gemini'') ''claude'' ''m'' = {demo_a}"
  "serving no_lookup (demo_known ''gemini'') ''gemini'' ''m'' = {demo_b ''gemini''}"
  by (simp_all add: demo_known_def serving_upd serving_none demo_meta demo_facts insert_commute)

lemma demo_may_use: "may_use demo_pick_request [] False demo_a" "may_use demo_pick_request [] False (demo_b p)"
proof -
  have "\<not> disallowFreeAuthFromMetadata []" "pinnedAuthIDFromMetadata [] = []" by code_simp+
  then show "may_use demo_pick_request [] False demo_a" "may_use demo_pick_request [] False (demo_b p)"
    by (simp_all add: may_use_def demo_pick_request_def authSelectionEligibilityForRequest_def allows_def)
qed


text \<open>The credentials a request over several providers may be given.\<close>

definition offers ::
  "model_lookup \<Rightarrow> (string \<Rightarrow> scheduled_auth_meta option) \<Rightarrow> string list \<Rightarrow> string \<Rightarrow> pick_request \<Rightarrow> string list \<Rightarrow> bool \<Rightarrow> time \<Rightarrow>
   (auth \<times> string) set" where
  "offers lookup K keys model rq tried weighted now =
     {(a, pk). pk \<in> set keys \<and> a \<in> serving lookup K pk model \<and> may_use rq tried weighted a \<and>
        \<not> fst (isAuthBlockedForModel lookup (Some a) model now)}"

text \<open>C23: A pick over several providers returns a credential that serves the model under the reported
  provider, that the request may use, that is not blocked, and that has the highest priority among all
  such credentials of all the providers; it fails only when there is none. This holds for every
  strategy, whatever the cursors are.\<close>

theorem pickMixed_best:
  assumes "sched_run lookup t s K" and "t \<le> now1" "now1 \<le> now2" "now2 \<le> now3"
    and "2 \<le> length (normalizeProviderKeys providers)" and "pinnedAuthIDFromMetadata (rq_Metadata rq) = []"
    and "canonicalModelKey lookup model = model"
    and "offered = offers lookup K (normalizeProviderKeys providers) model rq tried
      (effective_strategy strategy s = schedulerStrategyWeightedRoundRobin) now1"
  shows "case fst (pickMixedWithStrategy lookup rq providers model tried strategy now1 now2 now3 s) of
      Inl err \<Rightarrow> offered = {}
    | Inr (a, pk) \<Rightarrow> (a, pk) \<in> offered \<and> (\<forall>(b, q) \<in> offered. authPriority (Some b) \<le> authPriority (Some a))"
proof -
  have ok: "sched_ok lookup t s" "known s = K" and t: "0 \<le> t" using sched_run_ok [OF assms(1)] by auto
  let ?A = "request_pool lookup K (normalizeProviderKeys providers) model rq tried (effective_strategy strategy s = schedulerStrategyWeightedRoundRobin)"
  have u: "fst ` offered = free lookup model now1 ?A" unfolding assms(8) by (auto simp: offers_def free_def request_pool_def image_iff)
  note m = pickMixed_spec [where model = model and strategy = strategy and rq = rq and tried = tried, OF ok(1) t assms(2-5), unfolded assms(6,7) ok(2), simplified]
  show ?thesis
  proof (cases "fst (pickMixedWithStrategy lookup rq providers model tried strategy now1 now2 now3 s)")
    case (Inl err)
    then show ?thesis using m u by (simp add: mixed_result_def)
  next
    case (Inr x)
    obtain a pk where x: "x = (a, pk)" by fastforce
    have r: "a \<in> best (fst ` offered)" "pk \<in> set (normalizeProviderKeys providers)" "a \<in> serving lookup K pk model"
      using m u Inr x by (simp_all add: mixed_result_def)
    then have "(a, pk) \<in> offered" unfolding assms(8) by (auto simp: best_def offers_def)
    then show ?thesis using Inr x r by (auto simp: best_def)
  qed
qed

theorem pickMixed_best_witness:
  "case fst (pickMixedWithStrategy no_lookup demo_pick_request [''claude'', ''gemini''] ''m'' [] schedulerStrategyCurrent 20 21 22 (demo_scheduler ''gemini'')) of
     Inl err \<Rightarrow> False | Inr (a, pk) \<Rightarrow> pk = ''gemini''"
proof -
  have run: "sched_run no_lookup 11 (demo_scheduler ''gemini'') (demo_known ''gemini'')"
    by (rule demo_run) (simp add: demo_facts)
  have keys: "normalizeProviderKeys [''claude'', ''gemini''] = [''claude'', ''gemini'']" by code_simp
  have pin: "pinnedAuthIDFromMetadata (rq_Metadata demo_pick_request) = []" by code_simp
  have strat: "effective_strategy schedulerStrategyCurrent (demo_scheduler ''gemini'') = schedulerStrategyFillFirst" by code_simp
  have blocked: "fst (isAuthBlockedForModel no_lookup (Some demo_a) ''m'' 20)"
    "\<not> fst (isAuthBlockedForModel no_lookup (Some (demo_b ''gemini'')) ''m'' 20)" by code_simp+
  have "offers no_lookup (demo_known ''gemini'') (normalizeProviderKeys [''claude'', ''gemini'']) ''m'' demo_pick_request []
      (effective_strategy schedulerStrategyCurrent (demo_scheduler ''gemini'') = schedulerStrategyWeightedRoundRobin) 20 =
      {(demo_b ''gemini'', ''gemini'')}"
    unfolding strat keys using blocked by (auto simp: offers_def demo_serving demo_may_use)
  from pickMixed_best [OF run _ _ _ _ pin demo_facts(13) this [symmetric], of 21 22] keys show ?thesis
    by (auto split: sum.splits)
qed

end
