(* ===== verification/Runtime_Config.thy ===== *)
theory Runtime_Config
  imports Go_Prelude
begin

text \<open>
  The part of the application configuration (\<^verbatim>\<open>internal/config\<close>) that the manager reads: the entries for
  API keys and OpenAI-compatible providers with their model aliases, the aliases of OAuth models, and
  the limits of concurrent requests. The six kinds of API-key entries differ in fields that routing
  does not read; they are one record, which stands for the interface \<open>APIKeyConfigEntry\<close>, and their
  models stand for the interface \<open>modelAliasEntry\<close>.
\<close>

section \<open>Entries\<close>

record model_alias =
  ma_Name :: string
  ma_Alias :: string
  ma_ForceMapping :: bool

record api_key_config =
  ak_APIKey :: string
  ak_BaseURL :: string
  ak_Prefix :: string
  ak_ProxyURL :: string
  ak_Models :: "model_alias list"

record openai_compat =
  oc_Name :: string
  oc_Disabled :: bool
  oc_Models :: "model_alias list"
  oc_DisableCooling :: bool

record upstream_concurrency_config =
  uc_Default :: int
  uc_Providers :: "(string, int) gomap"
  uc_QueueTimeoutSeconds :: int

record runtime_config =
  cfg_DisableCooling :: bool
  cfg_UpstreamConcurrency :: upstream_concurrency_config
  cfg_GeminiKey :: "api_key_config list"
  cfg_InteractionsKey :: "api_key_config list"
  cfg_CodexKey :: "api_key_config list"
  cfg_XAIKey :: "api_key_config list"
  cfg_ClaudeKey :: "api_key_config list"
  cfg_OpenAICompatibility :: "openai_compat list"
  cfg_VertexCompatAPIKey :: "api_key_config list"

definition zero_concurrency :: upstream_concurrency_config where
  "zero_concurrency = \<lparr>uc_Default = 0, uc_Providers = [], uc_QueueTimeoutSeconds = 0\<rparr>"

definition zero_config :: runtime_config where
  "zero_config =
     \<lparr>cfg_DisableCooling = False, cfg_UpstreamConcurrency = zero_concurrency, cfg_GeminiKey = [], cfg_InteractionsKey = [],
      cfg_CodexKey = [], cfg_XAIKey = [], cfg_ClaudeKey = [], cfg_OpenAICompatibility = [], cfg_VertexCompatAPIKey = []\<rparr>"

section \<open>Aliases of OAuth models\<close>

text \<open>The fields \<open>Fork\<close> and \<open>DisplayName\<close> are left out: they pass through unchanged or trimmed.\<close>

fun sanitize_aliases :: "string list \<Rightarrow> model_alias list \<Rightarrow> model_alias list" where
  "sanitize_aliases seenAlias [] = []"
| "sanitize_aliases seenAlias (entry # aliases) =
     (let name = TrimSpace (ma_Name entry);
          alias = TrimSpace (ma_Alias entry)
      in if name = [] \<or> alias = [] \<or> EqualFold name alias \<or> ToLower alias \<in> set seenAlias
         then sanitize_aliases seenAlias aliases
         else \<lparr>ma_Name = name, ma_Alias = alias, ma_ForceMapping = ma_ForceMapping entry\<rparr>
                # sanitize_aliases (ToLower alias # seenAlias) aliases)"

definition sanitize_channel ::
  "string \<times> model_alias list \<Rightarrow> (string, model_alias list) gomap \<Rightarrow> (string, model_alias list) gomap" where
  "sanitize_channel entry out =
     (case entry of (rawChannel, aliases) \<Rightarrow>
        let channel = ToLower (TrimSpace rawChannel);
            clean = sanitize_aliases [] aliases
        in if channel = [] \<or> aliases = [] \<or> clean = [] then out else mput channel clean out)"

definition SanitizeOAuthModelAlias :: "(string, model_alias list) gomap \<Rightarrow> (string, model_alias list) gomap" where
  "SanitizeOAuthModelAlias aliases = (if aliases = [] then aliases else fold sanitize_channel aliases [])"

section \<open>Limits of concurrent requests\<close>

definition limit_entry :: "string \<times> int \<Rightarrow> (string, int) gomap \<Rightarrow> (string, int) gomap" where
  "limit_entry entry normalized =
     (case entry of (key, limit) \<Rightarrow>
        let provider = ToLower (TrimSpace key)
        in if provider = [] then normalized else mput provider (if limit < 0 then 0 else limit) normalized)"

definition Normalize_concurrency :: "upstream_concurrency_config \<Rightarrow> upstream_concurrency_config" where
  "Normalize_concurrency c =
     c\<lparr>uc_Default := (if uc_Default c < 0 then 0 else uc_Default c),
       uc_QueueTimeoutSeconds := (if uc_QueueTimeoutSeconds c < 0 then 0 else uc_QueueTimeoutSeconds c),
       uc_Providers := (if uc_Providers c = [] then [] else fold limit_entry (uc_Providers c) [])\<rparr>"

fun find_limit :: "string \<Rightarrow> (string, int) gomap \<Rightarrow> int option" where
  "find_limit provider [] = None"
| "find_limit provider ((key, limit) # rest) =
     (if ToLower (TrimSpace key) \<noteq> provider then find_limit provider rest else Some (if limit < 0 then 0 else limit))"

definition LimitForProvider :: "upstream_concurrency_config \<Rightarrow> string \<Rightarrow> int" where
  "LimitForProvider c provider0 =
     (let provider = ToLower (TrimSpace provider0);
          explicit =
            (if provider = [] \<or> uc_Providers c = [] then None
             else
               (case mget (uc_Providers c) provider of
                  Some limit \<Rightarrow> Some (if limit < 0 then 0 else limit)
                | None \<Rightarrow> find_limit provider (uc_Providers c)))
      in case explicit of
           Some limit \<Rightarrow> limit
         | None \<Rightarrow> if uc_Default c < 0 then 0 else uc_Default c)"

definition QueueTimeout :: "upstream_concurrency_config \<Rightarrow> duration" where
  "QueueTimeout c =
     (if uc_QueueTimeoutSeconds c > 0 then wrap64 (uc_QueueTimeoutSeconds c * Second) else 30 * Second)"

end
