(* ===== verification/Model_Alias.thy ===== *)
theory Model_Alias
  imports Thinking Auth_Classify Runtime_Config
begin

text \<open>
  Names of models: \<^verbatim>\<open>oauth_model_alias.go\<close>. A request names an alias, perhaps with a thinking suffix;
  the entries of the configuration say which upstream model it means. \<open>decode\<close> stands for
  \<open>json.Unmarshal\<close> of the list of aliases in an attribute.
\<close>

section \<open>Candidates of a requested name\<close>

record alias_candidate =
  ac_value :: string
  ac_preserveSuffix :: bool

record alias_result =
  ar_UpstreamModel :: string
  ar_ForceMapping :: bool
  ar_OriginalAlias :: string

definition no_alias :: alias_result where
  "no_alias = \<lparr>ar_UpstreamModel = [], ar_ForceMapping = False, ar_OriginalAlias = []\<rparr>"

definition modelAliasLookupCandidates :: "string \<Rightarrow> suffix_result \<times> alias_candidate list" where
  "modelAliasLookupCandidates requestedModel0 =
     (let requestedModel = TrimSpace requestedModel0 in
      if requestedModel = [] then (no_suffix [], [])
      else
        let requestResult = ParseSuffixAllowHyphen requestedModel;
            base = (if sr_ModelName requestResult = [] then requestedModel else sr_ModelName requestResult)
        in (requestResult,
            \<lparr>ac_value = requestedModel, ac_preserveSuffix = False\<rparr> #
            (if base \<noteq> requestedModel then [\<lparr>ac_value = base, ac_preserveSuffix = True\<rparr>] else [])))"

definition modelAliasCandidatePreservesSuffix :: "alias_candidate \<Rightarrow> suffix_result \<Rightarrow> bool" where
  "modelAliasCandidatePreservesSuffix candidate requestResult \<longleftrightarrow>
     ac_preserveSuffix candidate \<or>
     sr_HasSuffix requestResult \<and> sr_RawSuffix requestResult \<noteq> [] \<and>
     HasSuffix (TrimSpace (ac_value candidate)) (''('' @ sr_RawSuffix requestResult @ '')'')"

definition preserveResolvedModelSuffix :: "string \<Rightarrow> suffix_result \<Rightarrow> string" where
  "preserveResolvedModelSuffix resolved0 requestResult =
     (let resolved = TrimSpace resolved0 in
      if resolved = [] then []
      else if sr_HasSuffix (ParseSuffixAllowHyphen resolved) then resolved
      else if sr_HasSuffix requestResult \<and> sr_RawSuffix requestResult \<noteq> [] then FormatSuffix resolved requestResult
      else resolved)"

definition oauthModelAliasForceMappingResponseModel :: "string \<Rightarrow> string" where
  "oauthModelAliasForceMappingResponseModel configAlias =
     (let aliasResult = ParseSuffixAllowHyphen (TrimSpace configAlias) in
      if sr_HasSuffix aliasResult \<and> sr_ModelName aliasResult \<noteq> [] then sr_ModelName aliasResult
      else TrimSpace configAlias)"

section \<open>Pools\<close>

definition pool_name :: "alias_candidate \<Rightarrow> suffix_result \<Rightarrow> string \<Rightarrow> string" where
  "pool_name candidate requestResult resolved =
     (if modelAliasCandidatePreservesSuffix candidate requestResult
      then preserveResolvedModelSuffix resolved requestResult else resolved)"

fun pool_entries :: "alias_candidate \<Rightarrow> suffix_result \<Rightarrow> string list \<Rightarrow> model_alias list \<Rightarrow> string list" where
  "pool_entries candidate requestResult seen [] = []"
| "pool_entries candidate requestResult seen (m # models) =
     (let name = TrimSpace (ma_Name m);
          alias = TrimSpace (ma_Alias m)
      in if ac_value candidate = [] \<or> alias = [] \<or> \<not> EqualFold alias (ac_value candidate)
         then pool_entries candidate requestResult seen models
         else
           let resolved = pool_name candidate requestResult (if name \<noteq> [] then name else ac_value candidate);
               key = ToLower (TrimSpace resolved)
           in if key = [] \<or> key \<in> set seen then pool_entries candidate requestResult seen models
              else resolved # pool_entries candidate requestResult (key # seen) models)"

fun first_pool :: "suffix_result \<Rightarrow> model_alias list \<Rightarrow> alias_candidate list \<Rightarrow> string list" where
  "first_pool requestResult models [] = []"
| "first_pool requestResult models (candidate # candidates) =
     (case pool_entries candidate requestResult [] models of
        [] \<Rightarrow> first_pool requestResult models candidates
      | out \<Rightarrow> out)"

fun named_entry :: "alias_candidate \<Rightarrow> suffix_result \<Rightarrow> model_alias list \<Rightarrow> string option" where
  "named_entry candidate requestResult [] = None"
| "named_entry candidate requestResult (m # models) =
     (let name = TrimSpace (ma_Name m) in
      if ac_value candidate = [] \<or> name = [] \<or> \<not> EqualFold name (ac_value candidate)
      then named_entry candidate requestResult models
      else Some (pool_name candidate requestResult name))"

fun first_named :: "suffix_result \<Rightarrow> model_alias list \<Rightarrow> alias_candidate list \<Rightarrow> string list" where
  "first_named requestResult models [] = []"
| "first_named requestResult models (candidate # candidates) =
     (case named_entry candidate requestResult models of
        None \<Rightarrow> first_named requestResult models candidates
      | Some name \<Rightarrow> [name])"

definition resolveModelAliasPoolFromConfigModels :: "string \<Rightarrow> model_alias list \<Rightarrow> string list" where
  "resolveModelAliasPoolFromConfigModels requestedModel0 models =
     (let requestedModel = TrimSpace requestedModel0 in
      if requestedModel = [] \<or> models = [] then []
      else
        (case modelAliasLookupCandidates requestedModel of
           (requestResult, candidates) \<Rightarrow>
             (case first_pool requestResult models candidates of
                [] \<Rightarrow> first_named requestResult models candidates
              | out \<Rightarrow> out)))"

definition resolveModelAliasFromConfigModels :: "string \<Rightarrow> model_alias list \<Rightarrow> string" where
  "resolveModelAliasFromConfigModels requestedModel models =
     (case resolveModelAliasPoolFromConfigModels requestedModel models of [] \<Rightarrow> [] | m # _ \<Rightarrow> m)"

section \<open>Results with a response name\<close>

text \<open>The body of the loops once an entry matches: the same in the three functions that have it.\<close>

definition matched_alias ::
  "string \<Rightarrow> suffix_result \<Rightarrow> string \<Rightarrow> alias_candidate \<Rightarrow> string \<Rightarrow> string \<Rightarrow> bool \<Rightarrow> alias_result" where
  "matched_alias requestedModel requestResult baseModel candidate original alias forceMapping =
     (if EqualFold original baseModel then
        if \<not> forceMapping then no_alias
        else \<lparr>ar_UpstreamModel = preserveResolvedModelSuffix original requestResult, ar_ForceMapping = forceMapping,
              ar_OriginalAlias = TrimSpace alias\<rparr>
      else
        \<lparr>ar_UpstreamModel =
           (if modelAliasCandidatePreservesSuffix candidate requestResult
            then preserveResolvedModelSuffix original requestResult else original),
         ar_ForceMapping = forceMapping,
         ar_OriginalAlias = (if forceMapping then oauthModelAliasForceMappingResponseModel alias else requestedModel)\<rparr>)"

fun scan_entries ::
  "string \<Rightarrow> suffix_result \<Rightarrow> string \<Rightarrow> alias_candidate \<Rightarrow> model_alias list \<Rightarrow> alias_result option" where
  "scan_entries requestedModel requestResult baseModel candidate [] = None"
| "scan_entries requestedModel requestResult baseModel candidate (m # models) =
     (let original = TrimSpace (ma_Name m);
          alias = TrimSpace (ma_Alias m)
      in if original = [] \<or> alias = [] \<or> \<not> EqualFold alias (TrimSpace (ac_value candidate))
         then scan_entries requestedModel requestResult baseModel candidate models
         else Some (matched_alias requestedModel requestResult baseModel candidate original alias (ma_ForceMapping m)))"

fun scan_candidates ::
  "string \<Rightarrow> suffix_result \<Rightarrow> string \<Rightarrow> model_alias list \<Rightarrow> alias_candidate list \<Rightarrow> alias_result" where
  "scan_candidates requestedModel requestResult baseModel models [] = no_alias"
| "scan_candidates requestedModel requestResult baseModel models (candidate # candidates) =
     (if TrimSpace (ac_value candidate) = [] then scan_candidates requestedModel requestResult baseModel models candidates
      else
        (case scan_entries requestedModel requestResult baseModel candidate models of
           None \<Rightarrow> scan_candidates requestedModel requestResult baseModel models candidates
         | Some r \<Rightarrow> r))"

definition base_model :: "suffix_result \<Rightarrow> string \<Rightarrow> string" where
  "base_model requestResult requestedModel =
     (if sr_ModelName requestResult = [] then TrimSpace requestedModel else sr_ModelName requestResult)"

definition resolveUpstreamModelFromAliases :: "model_alias list \<Rightarrow> string \<Rightarrow> alias_result" where
  "resolveUpstreamModelFromAliases aliases requestedModel =
     (if aliases = [] then no_alias
      else
        (case modelAliasLookupCandidates requestedModel of
           (requestResult, candidates) \<Rightarrow>
             scan_candidates requestedModel requestResult (base_model requestResult requestedModel) aliases candidates))"

definition resolveModelAliasResultFromConfigModels :: "string \<Rightarrow> model_alias list \<Rightarrow> alias_result" where
  "resolveModelAliasResultFromConfigModels requestedModel0 models =
     (let requestedModel = TrimSpace requestedModel0 in
      if requestedModel = [] \<or> models = [] then no_alias
      else resolveUpstreamModelFromAliases models requestedModel)"

section \<open>The compiled table of OAuth aliases\<close>

record oauth_alias_entry =
  oa_upstreamModel :: string
  oa_configAlias :: string
  oa_forceMapping :: bool

type_synonym oauth_alias_table = "(string, (string, oauth_alias_entry) gomap) gomap"

definition compile_entry :: "model_alias \<Rightarrow> (string, oauth_alias_entry) gomap \<Rightarrow> (string, oauth_alias_entry) gomap" where
  "compile_entry entry aliasMap =
     (let name = TrimSpace (ma_Name entry);
          alias = TrimSpace (ma_Alias entry)
      in if name = [] \<or> alias = [] \<or> EqualFold name alias \<or> mget aliasMap (ToLower alias) \<noteq> None then aliasMap
         else mput (ToLower alias)
                \<lparr>oa_upstreamModel = name, oa_configAlias = alias, oa_forceMapping = ma_ForceMapping entry\<rparr> aliasMap)"

definition compile_channel :: "string \<times> model_alias list \<Rightarrow> oauth_alias_table \<Rightarrow> oauth_alias_table" where
  "compile_channel ce out =
     (case ce of (rawChannel, entries) \<Rightarrow>
        let channel = ToLower (TrimSpace rawChannel);
            aliasMap = fold compile_entry entries []
        in if channel = [] \<or> entries = [] \<or> aliasMap = [] then out else mput channel aliasMap out)"

definition compileOAuthModelAliasTable :: "(string, model_alias list) gomap \<Rightarrow> oauth_alias_table" where
  "compileOAuthModelAliasTable aliases = fold compile_channel aliases []"

fun scan_table ::
  "string \<Rightarrow> suffix_result \<Rightarrow> string \<Rightarrow> (string, oauth_alias_entry) gomap \<Rightarrow> alias_candidate list \<Rightarrow> alias_result" where
  "scan_table requestedModel requestResult baseModel aliasMap [] = no_alias"
| "scan_table requestedModel requestResult baseModel aliasMap (candidate # candidates) =
     (let key = ToLower (TrimSpace (ac_value candidate)) in
      if key = [] then scan_table requestedModel requestResult baseModel aliasMap candidates
      else
        (case mget aliasMap key of
           None \<Rightarrow> scan_table requestedModel requestResult baseModel aliasMap candidates
         | Some entry \<Rightarrow>
             if oa_upstreamModel entry = [] then scan_table requestedModel requestResult baseModel aliasMap candidates
             else matched_alias requestedModel requestResult baseModel candidate (oa_upstreamModel entry)
                    (oa_configAlias entry) (oa_forceMapping entry)))"

definition resolveUpstreamModelFromAliasTable :: "oauth_alias_table \<Rightarrow> string \<Rightarrow> string \<Rightarrow> alias_result" where
  "resolveUpstreamModelFromAliasTable table requestedModel channel =
     (if channel = [] then no_alias
      else
        (case modelAliasLookupCandidates requestedModel of
           (requestResult, candidates) \<Rightarrow>
             (case mget table channel of
                None \<Rightarrow> no_alias
              | Some aliasMap \<Rightarrow>
                  scan_table requestedModel requestResult (base_model requestResult requestedModel) aliasMap candidates)))"

section \<open>The aliases of a credential\<close>

definition normalizeOAuthModelAliasAuthKind :: "string \<Rightarrow> string" where
  "normalizeOAuthModelAliasAuthKind authKind0 =
     (let authKind = ToLower (TrimSpace authKind0)
      in if authKind \<in> {''api_key'', ''api-key''} then ''apikey'' else authKind)"

definition OAuthModelAliasChannel :: "string \<Rightarrow> string \<Rightarrow> string" where
  "OAuthModelAliasChannel provider0 authKind =
     (let provider = ToLower (TrimSpace provider0) in
      if normalizeOAuthModelAliasAuthKind authKind = ''apikey'' then []
      else if provider = ''gemini'' then [] else provider)"

definition modelAliasChannel :: "auth option \<Rightarrow> string" where
  "modelAliasChannel auth0 =
     (case auth0 of None \<Rightarrow> [] | Some a \<Rightarrow> OAuthModelAliasChannel (ToLower (TrimSpace (auth_Provider a))) (AuthKind auth0))"

definition oauthModelAliasesAttributeKey :: string where
  "oauthModelAliasesAttributeKey = ''model_aliases''"

definition sanitizeOAuthModelAliases :: "model_alias list \<Rightarrow> model_alias list" where
  "sanitizeOAuthModelAliases aliases =
     (if aliases = [] then []
      else (case mget (SanitizeOAuthModelAlias [(''auth'', aliases)]) ''auth'' of None \<Rightarrow> [] | Some clean \<Rightarrow> clean))"

definition OAuthModelAliasesFromAttributes ::
  "(string \<Rightarrow> model_alias list option) \<Rightarrow> (string, string) gomap \<Rightarrow> model_alias list" where
  "OAuthModelAliasesFromAttributes decode attributes =
     (let raw = TrimSpace (attribute_value attributes oauthModelAliasesAttributeKey) in
      if raw = [] then []
      else (case decode raw of None \<Rightarrow> [] | Some aliases \<Rightarrow> sanitizeOAuthModelAliases aliases))"

definition resolveOAuthModelAliasWithResult ::
  "(string \<Rightarrow> model_alias list option) \<Rightarrow> oauth_alias_table \<Rightarrow> auth option \<Rightarrow> string \<Rightarrow> alias_result" where
  "resolveOAuthModelAliasWithResult decode table auth0 requestedModel =
     (let channel = modelAliasChannel auth0 in
      if channel = [] then no_alias
      else
        let result = resolveUpstreamModelFromAliases
              (OAuthModelAliasesFromAttributes decode (case auth0 of None \<Rightarrow> [] | Some a \<Rightarrow> auth_Attributes a)) requestedModel
        in if ar_UpstreamModel result \<noteq> [] then result
           else resolveUpstreamModelFromAliasTable table requestedModel channel)"

definition applyOAuthModelAlias ::
  "(string \<Rightarrow> model_alias list option) \<Rightarrow> oauth_alias_table \<Rightarrow> auth option \<Rightarrow> string \<Rightarrow> string" where
  "applyOAuthModelAlias decode table auth0 requestedModel =
     (let upstreamModel = ar_UpstreamModel (resolveOAuthModelAliasWithResult decode table auth0 requestedModel)
      in if upstreamModel = [] then requestedModel else upstreamModel)"

definition applyOAuthModelAliasWithResult ::
  "(string \<Rightarrow> model_alias list option) \<Rightarrow> oauth_alias_table \<Rightarrow> auth option \<Rightarrow> string \<Rightarrow> alias_result" where
  "applyOAuthModelAliasWithResult decode table auth0 requestedModel =
     (let result = resolveOAuthModelAliasWithResult decode table auth0 requestedModel
      in if ar_UpstreamModel result = [] then no_alias\<lparr>ar_UpstreamModel := requestedModel\<rparr> else result)"

end
