(* ===== verification/Cooldown.thy ===== *)
theory Cooldown
  imports Selector Model_Registry
begin

text \<open>
  How results of requests change the availability of credentials:
  \<^verbatim>\<open>sdk/cliproxy/auth/conductor_cooldown.go\<close>, with the constants of
  \<^verbatim>\<open>conductor_refresh.go\<close> and the classification of
  \<^verbatim>\<open>internal/clienterror/client_error.go\<close> it uses.

  The manager is its map of credentials, the model registry it reports to, and the list of
  snapshots it hands to the scheduler. Persisting (to disk or to the cool-down store), hooks and
  error events are left out. \<open>now\<close> is the reading of the clock in the critical section and
  \<open>now'\<close> the one of the registry calls after it. \<open>coolingDisabled\<close> is
  \<open>cooldownDisabledForAuth\<close> with the current configuration, and \<open>secs\<close> the global
  \<open>transientErrorCooldownSeconds\<close>.
\<close>

section \<open>Classification of errors\<close>

definition statusCodeFromResult :: "auth_error option \<Rightarrow> int" where
  "statusCodeFromResult err = Error_StatusCode err"

definition err_code :: "auth_error option \<Rightarrow> string" where
  "err_code err = (case err of None \<Rightarrow> [] | Some e \<Rightarrow> ae_Code e)"

definition err_message :: "auth_error option \<Rightarrow> string" where
  "err_message err = (case err of None \<Rightarrow> [] | Some e \<Rightarrow> ae_Message e)"

definition isConnectionLifecycleMessage :: "string \<Rightarrow> bool" where
  "isConnectionLifecycleMessage message =
     (let lower = ToLower (TrimSpace message) in
      if lower = [] then False
      else lower \<in> {''context canceled'', ''context deadline exceeded'', ''eof'', ''unexpected eof''} \<or>
           Contains lower ''websocket: close 1000'' \<or> Contains lower ''websocket: close 1001'' \<or>
           Contains lower ''websocket: close 1006'' \<or> Contains lower ''unexpected eof'')"

definition isConnectionLifecycleResultError :: "auth_error option \<Rightarrow> bool" where
  "isConnectionLifecycleResultError err =
     (if err = None then False
      else if err_code err = connectionLifecycleErrorCode then True
      else if statusCodeFromResult err \<noteq> 0 then False
      else isConnectionLifecycleMessage (err_message err))"

definition modelSupportPatterns :: "string list" where
  "modelSupportPatterns =
     [''model_not_supported'', ''requested model is not supported'', ''requested model is unsupported'',
      ''requested model is unavailable'', ''model is not supported'', ''model not supported'',
      ''unsupported model'', ''model unavailable'', ''not available for your plan'',
      ''not available for your account'']"

definition isModelSupportErrorMessage :: "string \<Rightarrow> bool" where
  "isModelSupportErrorMessage message =
     (let lower = ToLower (TrimSpace message)
      in lower \<noteq> [] \<and> list_ex (Contains lower) modelSupportPatterns)"

definition isModelSupportResultError :: "auth_error option \<Rightarrow> bool" where
  "isModelSupportResultError err =
     (err \<noteq> None \<and> statusCodeFromResult err \<in> {400, 422} \<and> isModelSupportErrorMessage (err_message err))"

definition isInvalidGrantErrorMessage :: "string \<Rightarrow> bool" where
  "isInvalidGrantErrorMessage message = Contains (ToLower message) ''invalid_grant''"

definition isInvalidGrantResultError :: "auth_error option \<Rightarrow> bool" where
  "isInvalidGrantResultError err =
     (err \<noteq> None \<and> statusCodeFromResult err \<in> {400, 401} \<and>
      (isInvalidGrantErrorMessage (err_code err) \<or> isInvalidGrantErrorMessage (err_message err)))"

definition isCloudflareChallengeErrorMessage :: "string \<Rightarrow> bool" where
  "isCloudflareChallengeErrorMessage message =
     (let lower = ToLower (TrimSpace message)
      in Contains lower ''challenge-platform'' \<or> Contains lower ''cf-mitigated'' \<or>
         Contains lower ''cloudflare challenge'' \<or> (Contains lower ''cloudflare'' \<and> Contains lower ''<html''))"

definition isCloudflareChallengeResultError :: "auth_error option \<Rightarrow> bool" where
  "isCloudflareChallengeResultError err = (err \<noteq> None \<and> isCloudflareChallengeErrorMessage (err_message err))"

definition backtick :: char where "backtick = char_of (96 :: nat)"

definition IsItemNotPersisted :: "string \<Rightarrow> bool" where
  "IsItemNotPersisted message =
     (let lower = ToLower message
      in Contains lower ''item with id'' \<and> Contains lower ''not found'' \<and>
         Contains lower (''items are not persisted when '' @ [backtick] @ ''store'' @ [backtick] @ '' is set to false''))"

definition isRequestScopedNotFoundResultError :: "auth_error option \<Rightarrow> bool" where
  "isRequestScopedNotFoundResultError err =
     (if err = None \<or> statusCodeFromResult err \<noteq> 404 then False else IsItemNotPersisted (err_message err))"

definition isRequestScopedResultError :: "auth_error option \<Rightarrow> bool" where
  "isRequestScopedResultError err = (err \<noteq> None \<and> (IsRequestScoped err \<or> isRequestScopedNotFoundResultError err))"

definition shouldSkipCredentialCooldown :: "auth_error option \<Rightarrow> bool" where
  "shouldSkipCredentialCooldown err = (isRequestScopedResultError err \<or> isConnectionLifecycleResultError err)"

section \<open>Cool-down times\<close>

definition quotaBackoffBase :: duration where "quotaBackoffBase = Second"
definition quotaBackoffMax :: duration where "quotaBackoffMax = 30 * Minute"
definition transientErrorCooldown :: duration where "transientErrorCooldown = Minute"

definition nextTransientErrorRetryAfter :: "int \<Rightarrow> time \<Rightarrow> time" where
  "nextTransientErrorRetryAfter seconds now =
     (if seconds < 0 then zero_time
      else if seconds = 0 then now + transientErrorCooldown
      else now + wrap64 (seconds * Second))"

definition recoverableFailureRetryAfter :: "int \<Rightarrow> time \<Rightarrow> bool \<Rightarrow> time" where
  "recoverableFailureRetryAfter seconds now disableCooling =
     (if disableCooling then zero_time else nextTransientErrorRetryAfter seconds now)"

text \<open>\<open>1 << n\<close> on 64 bits; a shift by 64 or more gives 0.\<close>

definition shl1 :: "int \<Rightarrow> int" where
  "shl1 n = (if n \<ge> 64 then 0 else wrap64 (2 ^ nat n))"

definition nextQuotaCooldown :: "int \<Rightarrow> bool \<Rightarrow> duration \<times> int" where
  "nextQuotaCooldown prevLevel0 disableCooling =
     (let prevLevel = (if prevLevel0 < 0 then 0 else prevLevel0) in
      if disableCooling then (0, prevLevel)
      else
        let cooldown0 = wrap64 (quotaBackoffBase * shl1 prevLevel);
            cooldown = (if cooldown0 < quotaBackoffBase then quotaBackoffBase else cooldown0)
        in if cooldown \<ge> quotaBackoffMax then (quotaBackoffMax, prevLevel) else (cooldown, prevLevel + 1))"

definition quotaCooldownAfterFailure :: "quota_state \<Rightarrow> time \<Rightarrow> time \<times> int" where
  "quotaCooldownAfterFailure quota now =
     (if q_NextRecoverAt quota > now then (q_NextRecoverAt quota, q_BackoffLevel quota)
      else
        (case nextQuotaCooldown (q_BackoffLevel quota) False of
           (cooldown, nextLevel) \<Rightarrow> (if cooldown > 0 then now + cooldown else zero_time, nextLevel)))"

definition nextCloudflareCooldown :: "int \<Rightarrow> bool \<Rightarrow> time \<Rightarrow> time \<times> int" where
  "nextCloudflareCooldown backoffLevel disableCooling now =
     (if disableCooling then (zero_time, backoffLevel)
      else
        (case nextQuotaCooldown backoffLevel disableCooling of
           (cooldown0, nextLevel) \<Rightarrow>
             let cooldown = (if cooldown0 < 10 * Second then 10 * Second else cooldown0)
             in (if cooldown > 0 then now + cooldown else zero_time, nextLevel)))"

section \<open>Model states\<close>

definition later :: "time \<Rightarrow> time \<Rightarrow> time" where
  "later source target = (if source > target then source else target)"

definition mergeModelState :: "model_state option \<Rightarrow> model_state option \<Rightarrow> model_state option" where
  "mergeModelState target0 source0 =
     (case (target0, source0) of
        (None, _) \<Rightarrow> source0
      | (_, None) \<Rightarrow> target0
      | (Some target, Some source) \<Rightarrow>
          let sourceNewer = ms_UpdatedAt source > ms_UpdatedAt target;
              preferred = (if sourceNewer then source else target);
              fallback = (if sourceNewer then target else source);
              unavailable = (ms_Unavailable target \<or> ms_Unavailable source);
              exceeded = (q_Exceeded (ms_Quota target) \<or> q_Exceeded (ms_Quota source))
          in Some \<lparr>ms_Status =
                     (if ms_Status target = StatusDisabled \<or> ms_Status source = StatusDisabled then StatusDisabled
                      else if unavailable \<or> exceeded then StatusError else ms_Status preferred),
                   ms_StatusMessage =
                     (if ms_StatusMessage preferred = [] then ms_StatusMessage fallback else ms_StatusMessage preferred),
                   ms_Unavailable = unavailable,
                   ms_NextRetryAfter = later (ms_NextRetryAfter source) (ms_NextRetryAfter target),
                   ms_LastError = (if ms_LastError preferred = None then ms_LastError fallback else ms_LastError preferred),
                   ms_Quota =
                     \<lparr>q_Exceeded = exceeded,
                      q_Reason = (if q_Reason (ms_Quota preferred) = [] then q_Reason (ms_Quota fallback)
                                  else q_Reason (ms_Quota preferred)),
                      q_NextRecoverAt = later (q_NextRecoverAt (ms_Quota source)) (q_NextRecoverAt (ms_Quota target)),
                      q_BackoffLevel = max (q_BackoffLevel (ms_Quota target)) (q_BackoffLevel (ms_Quota source))\<rparr>,
                   ms_UpdatedAt = later (ms_UpdatedAt source) (ms_UpdatedAt target)\<rparr>)"

definition normal_key :: "model_lookup \<Rightarrow> string \<Rightarrow> string" where
  "normal_key lookup model =
     (if canonicalModelKey lookup model = [] then TrimSpace model else canonicalModelKey lookup model)"

text \<open>The loop: the normalized map and whether something changed.\<close>

definition normalize_entry ::
  "model_lookup \<Rightarrow> string \<times> model_state option \<Rightarrow> (string, model_state option) gomap \<times> bool \<Rightarrow>
   (string, model_state option) gomap \<times> bool" where
  "normalize_entry lookup entry acc =
     (case (entry, acc) of ((model, state), (normalized, changed)) \<Rightarrow>
        let modelKey = normal_key lookup model;
            changed1 = (changed \<or> modelKey \<noteq> model)
        in (case mget normalized modelKey of
              Some existing \<Rightarrow> (mput modelKey (mergeModelState existing state) normalized, True)
            | None \<Rightarrow> (mput modelKey state normalized, changed1)))"

definition normalizeModelStates :: "model_lookup \<Rightarrow> auth \<Rightarrow> bool \<times> auth" where
  "normalizeModelStates lookup a =
     (if auth_ModelStates a = [] then (False, a)
      else
        (case fold (normalize_entry lookup) (auth_ModelStates a) ([], False) of
           (normalized, changed) \<Rightarrow>
             (changed, if changed then a\<lparr>auth_ModelStates := normalized\<rparr> else a)))"

definition new_model_state :: model_state where
  "new_model_state =
     \<lparr>ms_Status = StatusActive, ms_StatusMessage = [], ms_Unavailable = False, ms_NextRetryAfter = zero_time,
      ms_LastError = None, ms_Quota = zero_quota, ms_UpdatedAt = zero_time\<rparr>"

text \<open>The credential with a state for the model, and that state.\<close>

definition ensureModelState :: "model_lookup \<Rightarrow> string \<Rightarrow> auth \<Rightarrow> model_state option \<times> auth" where
  "ensureModelState lookup model0 a =
     (let model = canonicalModelKey lookup model0 in
      if model = [] then (None, a)
      else
        let a1 = snd (normalizeModelStates lookup a)
        in (case mget (auth_ModelStates a1) model of
              Some (Some state) \<Rightarrow> (Some state, a1)
            | _ \<Rightarrow>
                (Some new_model_state,
                 a1\<lparr>auth_ModelStates := mput model (Some new_model_state) (auth_ModelStates a1)\<rparr>)))"

text \<open>Assignments through the pointer that \<open>ensureModelState\<close> returned.\<close>

definition set_model_state :: "model_lookup \<Rightarrow> string \<Rightarrow> model_state \<Rightarrow> auth \<Rightarrow> auth" where
  "set_model_state lookup model st a =
     a\<lparr>auth_ModelStates := mput (canonicalModelKey lookup model) (Some st) (auth_ModelStates a)\<rparr>"

definition resetModelState :: "model_state \<Rightarrow> time \<Rightarrow> model_state" where
  "resetModelState state now =
     state\<lparr>ms_Unavailable := False, ms_Status := StatusActive, ms_StatusMessage := [], ms_NextRetryAfter := zero_time,
           ms_LastError := None, ms_Quota := zero_quota, ms_UpdatedAt := now\<rparr>"

definition modelStateIsClean :: "model_state option \<Rightarrow> bool" where
  "modelStateIsClean state0 =
     (case state0 of
        None \<Rightarrow> True
      | Some state \<Rightarrow>
          ms_Status state = StatusActive \<and>
          \<not> (ms_Unavailable state \<or> ms_StatusMessage state \<noteq> [] \<or> \<not> IsZero (ms_NextRetryAfter state) \<or>
             ms_LastError state \<noteq> None) \<and>
          \<not> (q_Exceeded (ms_Quota state) \<or> q_Reason (ms_Quota state) \<noteq> [] \<or>
             \<not> IsZero (q_NextRecoverAt (ms_Quota state)) \<or> q_BackoffLevel (ms_Quota state) \<noteq> 0))"

subsection \<open>Aggregation\<close>

definition clearAggregatedAvailability :: "auth \<Rightarrow> auth" where
  "clearAggregatedAvailability a =
     a\<lparr>auth_Unavailable := False, auth_NextRetryAfter := zero_time, auth_Quota := zero_quota\<rparr>"

text \<open>A state whose retry time has passed is made available by the loop.\<close>

definition expire_state :: "time \<Rightarrow> model_state \<Rightarrow> model_state" where
  "expire_state now state =
     (if ms_Status state \<noteq> StatusDisabled \<and> ms_Unavailable state \<and> \<not> IsZero (ms_NextRetryAfter state) \<and>
         \<not> ms_NextRetryAfter state > now
      then state\<lparr>ms_Unavailable := False, ms_NextRetryAfter := zero_time\<rparr> else state)"

definition retry_pending :: "time \<Rightarrow> model_state \<Rightarrow> bool" where
  "retry_pending now state \<longleftrightarrow>
     ms_Status state \<noteq> StatusDisabled \<and> ms_Unavailable state \<and> \<not> IsZero (ms_NextRetryAfter state) \<and>
     ms_NextRetryAfter state > now"

record aggregate =
  ag_allUnavailable :: bool
  ag_earliestRetry :: time
  ag_quotaExceeded :: bool
  ag_quotaRecover :: time
  ag_maxBackoffLevel :: int
  ag_hasState :: bool

definition aggregate_state :: "time \<Rightarrow> model_state option \<Rightarrow> aggregate \<Rightarrow> aggregate" where
  "aggregate_state now state0 g =
     (case state0 of
        None \<Rightarrow> g
      | Some state \<Rightarrow>
          let stateUnavailable = (ms_Status state = StatusDisabled \<or> retry_pending now state);
              g1 = g\<lparr>ag_hasState := True,
                     ag_allUnavailable := ag_allUnavailable g \<and> stateUnavailable,
                     ag_earliestRetry :=
                       (if retry_pending now state \<and>
                           (IsZero (ag_earliestRetry g) \<or> ms_NextRetryAfter state < ag_earliestRetry g)
                        then ms_NextRetryAfter state else ag_earliestRetry g)\<rparr>;
              q = ms_Quota state
          in if q_Exceeded q
             then g1\<lparr>ag_quotaExceeded := True,
                     ag_quotaRecover :=
                       (if IsZero (ag_quotaRecover g1) \<or> (\<not> IsZero (q_NextRecoverAt q) \<and> q_NextRecoverAt q < ag_quotaRecover g1)
                        then q_NextRecoverAt q else ag_quotaRecover g1),
                     ag_maxBackoffLevel := max (ag_maxBackoffLevel g1) (q_BackoffLevel q)\<rparr>
             else g1)"

definition aggregate_states :: "time \<Rightarrow> (string, model_state option) gomap \<Rightarrow> aggregate" where
  "aggregate_states now states =
     fold (aggregate_state now) (map snd states)
       \<lparr>ag_allUnavailable = True, ag_earliestRetry = zero_time, ag_quotaExceeded = False, ag_quotaRecover = zero_time,
        ag_maxBackoffLevel = 0, ag_hasState = False\<rparr>"

definition updateAggregatedAvailability :: "auth \<Rightarrow> time \<Rightarrow> auth" where
  "updateAggregatedAvailability a now =
     (if auth_ModelStates a = [] then clearAggregatedAvailability a
      else
        let g = aggregate_states now (auth_ModelStates a);
            a1 = a\<lparr>auth_ModelStates := map (\<lambda>(k, s). (k, map_option (expire_state now) s)) (auth_ModelStates a)\<rparr>
        in if \<not> ag_hasState g then clearAggregatedAvailability a1
           else a1\<lparr>auth_Unavailable := ag_allUnavailable g,
                   auth_NextRetryAfter := (if ag_allUnavailable g then ag_earliestRetry g else zero_time),
                   auth_Quota :=
                     (if ag_quotaExceeded g
                      then \<lparr>q_Exceeded = True, q_Reason = ''quota'', q_NextRecoverAt = ag_quotaRecover g,
                            q_BackoffLevel = ag_maxBackoffLevel g\<rparr>
                      else zero_quota)\<rparr>)"

definition hasModelError :: "auth \<Rightarrow> time \<Rightarrow> bool" where
  "hasModelError a now =
     list_ex (\<lambda>(_, state0). case state0 of
        None \<Rightarrow> False
      | Some state \<Rightarrow>
          ms_LastError state \<noteq> None \<or>
          (ms_Status state = StatusError \<and> ms_Unavailable state \<and>
           (IsZero (ms_NextRetryAfter state) \<or> ms_NextRetryAfter state > now))) (auth_ModelStates a)"

definition clearAuthStateOnSuccess :: "auth \<Rightarrow> time \<Rightarrow> auth" where
  "clearAuthStateOnSuccess a now =
     a\<lparr>auth_Unavailable := False, auth_Status := StatusActive, auth_StatusMessage := [], auth_Quota := zero_quota,
       auth_LastError := None, auth_NextRetryAfter := zero_time, auth_UpdatedAt := now\<rparr>"

end
