(* ===== verification/Mark_Result.thy ===== *)
theory Mark_Result
  imports Cooldown Auth_Classify Runtime_Config
begin

text \<open>
  What the outcome of a request does to a credential: the critical section of \<open>MarkResult\<close>, the
  clearing of cool-downs, and the records by which cool-downs survive a restart
  (\<^verbatim>\<open>conductor_cooldown.go\<close>, \<^verbatim>\<open>cooldown_state.go\<close>, and the reconciliation of
  \<^verbatim>\<open>conductor_selection.go\<close>). \<open>cooling_env\<close> holds the two package variables and the runtime
  configuration that decide whether cool-downs are in force.
\<close>

section \<open>Whether cool-downs are in force\<close>

record cooling_env =
  ce_config :: "runtime_config option"
  ce_quotaCooldownDisabled :: bool
  ce_transientErrorCooldownSeconds :: int

definition SetQuotaCooldownDisabled :: "bool \<Rightarrow> cooling_env \<Rightarrow> cooling_env" where
  "SetQuotaCooldownDisabled disable env = env\<lparr>ce_quotaCooldownDisabled := disable\<rparr>"

definition SetTransientErrorCooldownSeconds :: "int \<Rightarrow> cooling_env \<Rightarrow> cooling_env" where
  "SetTransientErrorCooldownSeconds seconds env = env\<lparr>ce_transientErrorCooldownSeconds := seconds\<rparr>"

definition resolveOpenAICompatConfig :: "runtime_config option \<Rightarrow> string \<Rightarrow> string \<Rightarrow> string \<Rightarrow> openai_compat option" where
  "resolveOpenAICompatConfig cfg0 providerKey compatName authProvider =
     (case cfg0 of
        None \<Rightarrow> None
      | Some cfg \<Rightarrow>
          let candidates = filter (\<lambda>v. v \<noteq> []) (map TrimSpace [compatName, providerKey, authProvider])
          in List.find (\<lambda>compat. \<not> oc_Disabled compat \<and>
                list_ex (\<lambda>candidate. EqualFold (TrimSpace candidate) (oc_Name compat)) candidates)
               (cfg_OpenAICompatibility cfg))"

definition providerCoolingDisabledForAuth :: "auth \<Rightarrow> runtime_config option \<Rightarrow> bool" where
  "providerCoolingDisabledForAuth a cfg =
     (if cfg = None then False
      else
        let provider = ToLower (TrimSpace (auth_Provider a));
            providerKey = TrimSpace (attribute_value (auth_Attributes a) ''provider_key'');
            compatName = TrimSpace (attribute_value (auth_Attributes a) ''compat_name'')
        in if provider = [] then False
           else if providerKey = [] \<and> compatName = [] \<and> provider \<noteq> ''openai-compatibility'' then False
           else
             (case resolveOpenAICompatConfig cfg (if providerKey = [] then provider else providerKey) compatName provider of
                None \<Rightarrow> False
              | Some entry \<Rightarrow> oc_DisableCooling entry))"

definition quotaCooldownDisabledForAuthWithConfig :: "bool \<Rightarrow> auth option \<Rightarrow> runtime_config option \<Rightarrow> bool" where
  "quotaCooldownDisabledForAuthWithConfig globally auth0 cfg =
     (let fallback = ((case cfg of None \<Rightarrow> False | Some c \<Rightarrow> cfg_DisableCooling c) \<or> globally)
      in case auth0 of
           None \<Rightarrow> fallback
         | Some a \<Rightarrow>
             (case DisableCoolingOverride auth0 of
                Some override \<Rightarrow> override
              | None \<Rightarrow> providerCoolingDisabledForAuth a cfg \<or> fallback))"

definition cooldownDisabledForAuth :: "cooling_env \<Rightarrow> auth \<Rightarrow> bool" where
  "cooldownDisabledForAuth env a =
     quotaCooldownDisabledForAuthWithConfig (ce_quotaCooldownDisabled env) (Some a) (ce_config env)"

section \<open>Results\<close>

record result =
  res_AuthID :: string
  res_Provider :: string
  res_Model :: string
  res_Success :: bool
  res_RetryAfter :: "duration option"
  res_Error :: "auth_error option"

text \<open>The switch of \<open>MarkResult\<close> on a failure of a model: the state, the reason to suspend the client's
  model in the registry if there is one, and whether the model is reported over quota.\<close>

definition fail_fixed :: "duration \<Rightarrow> string \<Rightarrow> bool \<Rightarrow> time \<Rightarrow> model_state \<Rightarrow> model_state \<times> string option \<times> bool" where
  "fail_fixed d reason disableCooling now st =
     (if disableCooling then (st\<lparr>ms_NextRetryAfter := zero_time\<rparr>, None, False)
      else (st\<lparr>ms_NextRetryAfter := now + d\<rparr>, Some reason, False))"

definition fail_quota :: "bool \<Rightarrow> duration option \<Rightarrow> time \<Rightarrow> model_state \<Rightarrow> model_state \<times> string option \<times> bool" where
  "fail_quota disableCooling retryAfter now st =
     (let q = ms_Quota st;
          (next, backoffLevel) =
            (if disableCooling then (zero_time, q_BackoffLevel q)
             else case retryAfter of
                    Some d \<Rightarrow> (now + d, q_BackoffLevel q)
                  | None \<Rightarrow> quotaCooldownAfterFailure q now)
      in (st\<lparr>ms_NextRetryAfter := next,
             ms_Quota := \<lparr>q_Exceeded = True, q_Reason = ''quota'', q_NextRecoverAt = next, q_BackoffLevel = backoffLevel\<rparr>\<rparr>,
          if disableCooling then None else Some ''quota'', \<not> disableCooling))"

definition fail_transient :: "int \<Rightarrow> bool \<Rightarrow> time \<Rightarrow> model_state \<Rightarrow> model_state \<times> string option \<times> bool" where
  "fail_transient seconds disableCooling now st =
     (let next = recoverableFailureRetryAfter seconds now disableCooling
      in (st\<lparr>ms_NextRetryAfter := next, ms_Unavailable := \<not> IsZero next\<rparr>, None, False))"

definition fail_cloudflare :: "bool \<Rightarrow> time \<Rightarrow> model_state \<Rightarrow> model_state \<times> string option \<times> bool" where
  "fail_cloudflare disableCooling now st =
     (case nextCloudflareCooldown (q_BackoffLevel (ms_Quota st)) disableCooling now of
        (next, backoffLevel) \<Rightarrow>
          (st\<lparr>ms_NextRetryAfter := next, ms_StatusMessage := ''cloudflare challenge'',
              ms_Quota := \<lparr>q_Exceeded = True, q_Reason = ''cloudflare challenge'', q_NextRecoverAt = next,
                           q_BackoffLevel = backoffLevel\<rparr>\<rparr>,
           None, False))"

definition fail_schedule ::
  "int \<Rightarrow> bool \<Rightarrow> auth_error option \<Rightarrow> duration option \<Rightarrow> time \<Rightarrow> model_state \<Rightarrow> model_state \<times> string option \<times> bool" where
  "fail_schedule seconds disableCooling err retryAfter now st =
     (let statusCode = statusCodeFromResult err in
      if isModelSupportResultError err
      then (st\<lparr>ms_NextRetryAfter := now + 12 * Hour\<rparr>, Some ''model_not_supported'', False)
      else if isCloudflareChallengeResultError err then fail_cloudflare disableCooling now st
      else if isInvalidGrantResultError err then fail_fixed (30 * Minute) ''invalid_grant'' disableCooling now st
      else if statusCode = 401 then fail_fixed (30 * Minute) ''unauthorized'' disableCooling now st
      else if statusCode \<in> {402, 403} then fail_fixed (30 * Minute) ''payment_required'' disableCooling now st
      else if statusCode = 404 then fail_fixed (12 * Hour) ''not_found'' disableCooling now st
      else if statusCode = 429 then fail_quota disableCooling retryAfter now st
      else fail_transient seconds disableCooling now st)"

text \<open>The assignments before the switch, and the one after it.\<close>

definition fail_begin :: "auth_error option \<Rightarrow> time \<Rightarrow> model_state \<Rightarrow> model_state" where
  "fail_begin err now st =
     (let st1 = st\<lparr>ms_Unavailable := True, ms_Status := StatusError, ms_UpdatedAt := now\<rparr>
      in case err of
           None \<Rightarrow> st1
         | Some e \<Rightarrow> st1\<lparr>ms_LastError := err, ms_StatusMessage := ae_Message e\<rparr>)"

definition fail_end :: "bool \<Rightarrow> model_state \<Rightarrow> model_state" where
  "fail_end disableCooling st =
     (if disableCooling \<and> IsZero (ms_NextRetryAfter st) \<and> IsZero (q_NextRecoverAt (ms_Quota st))
      then st\<lparr>ms_Unavailable := False, ms_Quota := (ms_Quota st)\<lparr>q_Exceeded := False\<rparr>\<rparr> else st)"

text \<open>What \<open>MarkResult\<close> reports to the registry after the critical section.\<close>

record registry_report =
  rr_resume :: bool
  rr_suspend :: "string option"
  rr_setQuota :: bool

definition no_report :: registry_report where
  "no_report = \<lparr>rr_resume = False, rr_suspend = None, rr_setQuota = False\<rparr>"

text \<open>The key is never empty where these are called, so \<open>ensureModelState\<close> returns a state (lemma
  \<open>ensure_total\<close>): the nil branch is not reached.\<close>

definition mark_model_failure ::
  "model_lookup \<Rightarrow> cooling_env \<Rightarrow> string \<Rightarrow> result \<Rightarrow> time \<Rightarrow> auth \<Rightarrow> auth \<times> registry_report" where
  "mark_model_failure lookup env modelKey res now a =
     (if shouldSkipCredentialCooldown (res_Error res) then (a, no_report)
      else
        let disableCooling = cooldownDisabledForAuth env a;
            err = res_Error res
        in (case ensureModelState lookup modelKey a of
              (None, a1) \<Rightarrow> (a1, no_report)
            | (Some st, a1) \<Rightarrow>
                (case fail_schedule (ce_transientErrorCooldownSeconds env) disableCooling err (res_RetryAfter res) now
                        (fail_begin err now st) of
                   (st1, suspendReason, setModelQuota) \<Rightarrow>
                     let a2 = (case err of
                                 None \<Rightarrow> a1
                               | Some e \<Rightarrow> a1\<lparr>auth_LastError := err, auth_StatusMessage := ae_Message e\<rparr>);
                         a3 = (if isModelSupportResultError err \<or> \<not> isCloudflareChallengeResultError err then a2
                               else if auth_LastError a2 \<noteq> None then a2\<lparr>auth_StatusMessage := ''cloudflare challenge''\<rparr>
                               else a2);
                         a4 = set_model_state lookup modelKey (fail_end disableCooling st1) a3
                     in (updateAggregatedAvailability (a4\<lparr>auth_Status := StatusError, auth_UpdatedAt := now\<rparr>) now,
                         \<lparr>rr_resume = False, rr_suspend = suspendReason, rr_setQuota = setModelQuota\<rparr>))))"

definition clear_error :: "auth \<Rightarrow> auth" where
  "clear_error a = a\<lparr>auth_LastError := None, auth_StatusMessage := [], auth_Status := StatusActive\<rparr>"

definition mark_model_success :: "model_lookup \<Rightarrow> string \<Rightarrow> time \<Rightarrow> auth \<Rightarrow> auth \<times> registry_report" where
  "mark_model_success lookup modelKey now a =
     (let a2 = (case ensureModelState lookup modelKey a of
                  (None, a1) \<Rightarrow> a1
                | (Some st, a1) \<Rightarrow> set_model_state lookup modelKey (resetModelState st now) a1);
          a3 = updateAggregatedAvailability a2 now;
          a4 = (if \<not> hasModelError a3 now then clear_error a3 else a3)
      in (a4\<lparr>auth_UpdatedAt := now\<rparr>, \<lparr>rr_resume = True, rr_suspend = None, rr_setQuota = False\<rparr>))"

section \<open>Failures without a model\<close>

definition auth_fail_fixed :: "string \<Rightarrow> duration \<Rightarrow> bool \<Rightarrow> time \<Rightarrow> auth \<Rightarrow> auth" where
  "auth_fail_fixed message d disableCooling now a =
     a\<lparr>auth_StatusMessage := message, auth_NextRetryAfter := (if disableCooling then zero_time else now + d)\<rparr>"

definition auth_fail_quota :: "duration option \<Rightarrow> bool \<Rightarrow> time \<Rightarrow> auth \<Rightarrow> auth" where
  "auth_fail_quota retryAfter disableCooling now a =
     (let q = (auth_Quota a)\<lparr>q_Exceeded := True, q_Reason := ''quota''\<rparr>;
          (next, level) =
            (if disableCooling then (zero_time, q_BackoffLevel q)
             else case retryAfter of
                    Some d \<Rightarrow> (now + d, q_BackoffLevel q)
                  | None \<Rightarrow> quotaCooldownAfterFailure q now)
      in a\<lparr>auth_StatusMessage := ''quota exhausted'', auth_Quota := q\<lparr>q_NextRecoverAt := next, q_BackoffLevel := level\<rparr>,
           auth_NextRetryAfter := next\<rparr>)"

definition auth_fail_transient :: "string \<Rightarrow> int \<Rightarrow> bool \<Rightarrow> time \<Rightarrow> auth \<Rightarrow> auth" where
  "auth_fail_transient message seconds disableCooling now a =
     (let next = recoverableFailureRetryAfter seconds now disableCooling
      in a\<lparr>auth_StatusMessage := message, auth_NextRetryAfter := next, auth_Unavailable := \<not> IsZero next\<rparr>)"

definition auth_fail_cloudflare :: "bool \<Rightarrow> time \<Rightarrow> auth \<Rightarrow> auth" where
  "auth_fail_cloudflare disableCooling now a =
     (case nextCloudflareCooldown (q_BackoffLevel (auth_Quota a)) disableCooling now of
        (next, backoffLevel) \<Rightarrow>
          a\<lparr>auth_StatusMessage := ''cloudflare challenge'',
            auth_Quota := \<lparr>q_Exceeded = True, q_Reason = ''cloudflare challenge'', q_NextRecoverAt = next,
                           q_BackoffLevel = backoffLevel\<rparr>,
            auth_NextRetryAfter := next\<rparr>)"

definition auth_fail_schedule :: "int \<Rightarrow> bool \<Rightarrow> auth_error option \<Rightarrow> duration option \<Rightarrow> time \<Rightarrow> auth \<Rightarrow> auth" where
  "auth_fail_schedule seconds disableCooling err retryAfter now a =
     (let statusCode = statusCodeFromResult err in
      if isCloudflareChallengeResultError err then auth_fail_cloudflare disableCooling now a
      else if isInvalidGrantResultError err then auth_fail_fixed ''invalid_grant'' (30 * Minute) disableCooling now a
      else if statusCode = 401 then auth_fail_fixed ''unauthorized'' (30 * Minute) disableCooling now a
      else if statusCode \<in> {402, 403} then auth_fail_fixed ''payment_required'' (30 * Minute) disableCooling now a
      else if statusCode = 404 then auth_fail_fixed ''not_found'' (12 * Hour) disableCooling now a
      else if statusCode = 429 then auth_fail_quota retryAfter disableCooling now a
      else if statusCode \<in> {408, 500, 502, 503, 504}
      then auth_fail_transient ''transient upstream error'' seconds disableCooling now a
      else auth_fail_transient (if auth_StatusMessage a = [] then ''request failed'' else auth_StatusMessage a)
             seconds disableCooling now a)"

text \<open>The deferred function runs last, on every path after the first test.\<close>

definition auth_fail_end :: "bool \<Rightarrow> auth \<Rightarrow> auth" where
  "auth_fail_end disableCooling a =
     (if disableCooling \<and> IsZero (auth_NextRetryAfter a) \<and> IsZero (q_NextRecoverAt (auth_Quota a))
      then a\<lparr>auth_Unavailable := False, auth_Quota := (auth_Quota a)\<lparr>q_Exceeded := False\<rparr>\<rparr> else a)"

definition applyAuthFailureState ::
  "int \<Rightarrow> auth_error option \<Rightarrow> duration option \<Rightarrow> time \<Rightarrow> bool \<Rightarrow> auth \<Rightarrow> auth" where
  "applyAuthFailureState seconds resultErr retryAfter now disableCooling a =
     (if shouldSkipCredentialCooldown resultErr then a
      else
        let a1 = a\<lparr>auth_Unavailable := True, auth_Status := StatusError, auth_UpdatedAt := now\<rparr>;
            a2 = (case resultErr of
                    None \<Rightarrow> a1
                  | Some e \<Rightarrow>
                      a1\<lparr>auth_LastError := resultErr,
                         auth_StatusMessage := (if ae_Message e \<noteq> [] then ae_Message e else auth_StatusMessage a1)\<rparr>)
        in auth_fail_end disableCooling (auth_fail_schedule seconds disableCooling resultErr retryAfter now a2))"

section \<open>The critical section of \<open>MarkResult\<close>\<close>

definition count_request :: "bool \<Rightarrow> time \<Rightarrow> auth \<Rightarrow> auth" where
  "count_request success now a =
     (let a1 = recordRecentRequest now success a
      in if success then a1\<lparr>auth_Success := wrap64 (auth_Success a1 + 1)\<rparr>
         else a1\<lparr>auth_Failed := wrap64 (auth_Failed a1 + 1)\<rparr>)"

definition mark_auth :: "model_lookup \<Rightarrow> cooling_env \<Rightarrow> result \<Rightarrow> time \<Rightarrow> auth \<Rightarrow> auth \<times> registry_report" where
  "mark_auth lookup env res now a =
     (let modelKey = canonicalModelKey lookup (res_Model res);
          a1 = count_request (res_Success res) now a
      in if res_Success res then
           if modelKey \<noteq> [] then mark_model_success lookup modelKey now a1
           else (clearAuthStateOnSuccess a1 now, no_report)
         else if modelKey \<noteq> [] then mark_model_failure lookup env modelKey res now a1
         else (applyAuthFailureState (ce_transientErrorCooldownSeconds env) (res_Error res) (res_RetryAfter res) now
                 (cooldownDisabledForAuth env a1) a1, no_report))"

end
