(* ===== verification/Home_Key.thy ===== *)
theory Home_Key
  imports Go_Prelude
begin

text \<open>
  The key under which the home service counts the executions of a model (\<^verbatim>\<open>home_concurrency.go\<close>). The
  white space that \<open>strings.Trim\<close> removes there is the one of \<open>TrimSpace\<close> in the ASCII range.
\<close>

section \<open>UTF-8\<close>

text \<open>\<open>utf8.ValidString\<close> on the bytes of a string.\<close>

definition byte_of :: "char \<Rightarrow> nat" where
  "byte_of c = of_char c"

definition continuation :: "nat \<Rightarrow> nat \<Rightarrow> char \<Rightarrow> bool" where
  "continuation lo hi c \<longleftrightarrow> lo \<le> byte_of c \<and> byte_of c \<le> hi"

fun ValidString :: "string \<Rightarrow> bool" where
  "ValidString [] = True"
| "ValidString (c # cs) =
     (if byte_of c < 128 then ValidString cs
      else
        (case cs of
           [] \<Rightarrow> False
         | c1 # cs1 \<Rightarrow>
             if 194 \<le> byte_of c \<and> byte_of c \<le> 223 then continuation 128 191 c1 \<and> ValidString cs1
             else
               (case cs1 of
                  [] \<Rightarrow> False
                | c2 # cs2 \<Rightarrow>
                    if 224 \<le> byte_of c \<and> byte_of c \<le> 239
                    then continuation (if byte_of c = 224 then 160 else 128) (if byte_of c = 237 then 159 else 191) c1 \<and>
                         continuation 128 191 c2 \<and> ValidString cs2
                    else
                      (case cs2 of
                         [] \<Rightarrow> False
                       | c3 # cs3 \<Rightarrow>
                           240 \<le> byte_of c \<and> byte_of c \<le> 244 \<and>
                           continuation (if byte_of c = 240 then 144 else 128) (if byte_of c = 244 then 143 else 191) c1 \<and>
                           continuation 128 191 c2 \<and> continuation 128 191 c3 \<and> ValidString cs3))))"

section \<open>Keys of models\<close>

definition maxHomeConcurrencyTupleFieldLength :: nat where
  "maxHomeConcurrencyTupleFieldLength = 256"

text \<open>The loop over the digits: \<open>parsed\<close> is bounded before each step, so it does not overflow.\<close>

fun digits_below :: "int \<Rightarrow> string \<Rightarrow> bool" where
  "digits_below parsed [] = True"
| "digits_below parsed (c # cs) =
     (case digit_value c of
        None \<Rightarrow> False
      | Some d \<Rightarrow>
          let parsed' = parsed * 10 + int d
          in if parsed' > 2147483647 then False else digits_below parsed' cs)"

definition recognizedHomeConcurrencySuffix :: "string \<Rightarrow> bool" where
  "recognizedHomeConcurrencySuffix value =
     (if value = ''-1'' then True
      else if ToLower value \<in> {''none'', ''auto'', ''minimal'', ''low'', ''medium'', ''high'', ''xhigh'', ''max''} then True
      else if value = [] \<or> length value > 10 then False
      else digits_below 0 value)"

definition canonicalHomeConcurrencyModelKey :: "string \<Rightarrow> string" where
  "canonicalHomeConcurrencyModelKey model =
     (if \<not> ValidString model then []
      else
        let key = ToLower (TrimSpace model) in
        if \<not> HasSuffix key '')'' then key
        else
          (case LastIndexByte (CHR ''('') key of
             None \<Rightarrow> key
           | Some lastOpen \<Rightarrow>
               let suffix = drop (lastOpen + 1) (take (length key - 1) key)
               in if \<not> recognizedHomeConcurrencySuffix suffix then key
                  else
                    let base = TrimSpace (take lastOpen key)
                    in if base = [] then key else base))"

definition validCanonicalHomeConcurrencyModelKey :: "string \<Rightarrow> string \<times> bool" where
  "validCanonicalHomeConcurrencyModelKey model =
     (let key = canonicalHomeConcurrencyModelKey model
      in (key, key \<noteq> [] \<and> ValidString key \<and> length key \<le> maxHomeConcurrencyTupleFieldLength))"

definition validHomeConcurrencyTupleField :: "string \<Rightarrow> bool" where
  "validHomeConcurrencyTupleField value \<longleftrightarrow>
     value \<noteq> [] \<and> ValidString value \<and> TrimSpace value = value \<and> length value \<le> maxHomeConcurrencyTupleFieldLength"

end
