(* ===== verification/Model_Routing.thy ===== *)
theory Model_Routing
  imports Model_Alias Mark_Result Home_Key Selector
begin

text \<open>
  From the model of a request to the models a credential executes: \<^verbatim>\<open>conductor_models.go\<close>. A credential
  with an API key takes its aliases from the entry of the configuration it was made from, through a
  table that is compiled when the credentials or the configuration change; other credentials take
  them from the OAuth tables. Several entries with one alias form a pool, which is tried in rotation.
  Credentials are never nil here: callers pass the one that was picked.
\<close>

section \<open>Kinds of credentials\<close>

definition isConfiguredModelRoutingAuth :: "auth \<Rightarrow> bool" where
  "isConfiguredModelRoutingAuth a =
     (if AuthKind (Some a) = AuthKindAPIKey then True
      else if AuthSourceKind (Some a) \<noteq> AuthSourceConfig then False
      else TrimSpace (attribute_value (auth_Attributes a) ''compat_name'') \<noteq> [])"

definition isConfiguredOpenAICompatAuth :: "auth \<Rightarrow> bool" where
  "isConfiguredOpenAICompatAuth a =
     (if \<not> isConfiguredModelRoutingAuth a then False
      else if EqualFold (TrimSpace (auth_Provider a)) ''openai-compatibility'' then True
      else TrimSpace (attribute_value (auth_Attributes a) ''compat_name'') \<noteq> [])"

definition openAICompatProviderKey :: "auth \<Rightarrow> string" where
  "openAICompatProviderKey a =
     (let providerKey = TrimSpace (attribute_value (auth_Attributes a) ''provider_key'');
          compatName = TrimSpace (attribute_value (auth_Attributes a) ''compat_name'')
      in OpenAICompatibleProviderKey
           (if providerKey \<noteq> [] then providerKey else if compatName \<noteq> [] then compatName else auth_Provider a))"

definition rewriteModelForAuth :: "string \<Rightarrow> auth \<Rightarrow> string" where
  "rewriteModelForAuth model a =
     (let prefix = TrimSpace (auth_Prefix a);
          needle = prefix @ ''/''
      in if model = [] \<or> prefix = [] \<or> \<not> HasPrefix model needle then model else drop (length needle) model)"

section \<open>The entry of a credential in the configuration\<close>

definition AttributeConfigIndex :: string where
  "AttributeConfigIndex = ''config_index''"

definition matchesCredentials :: "string \<Rightarrow> string \<Rightarrow> api_key_config \<Rightarrow> bool" where
  "matchesCredentials attrKey attrBase entry =
     (let cfgKey = TrimSpace (ak_APIKey entry);
          cfgBase = TrimSpace (ak_BaseURL entry)
      in if attrKey \<noteq> [] \<and> attrBase \<noteq> [] then EqualFold cfgKey attrKey \<and> EqualFold cfgBase attrBase
         else if attrKey \<noteq> [] then EqualFold cfgKey attrKey \<and> (cfgBase = [] \<or> EqualFold cfgBase attrBase)
         else attrBase \<noteq> [] \<and> EqualFold cfgBase attrBase)"

definition config_index :: "auth \<Rightarrow> 'a list \<Rightarrow> 'a option" where
  "config_index a entries =
     (if AuthSourceKind (Some a) \<noteq> AuthSourceConfig then None
      else
        (case Atoi (TrimSpace (attribute_value (auth_Attributes a) AttributeConfigIndex)) of
           None \<Rightarrow> None
         | Some index \<Rightarrow> if index \<ge> 0 \<and> index < int (length entries) then Some (entries ! nat index) else None))"

definition or_else :: "'a option \<Rightarrow> 'a option \<Rightarrow> 'a option" where
  "or_else x y = (case x of None \<Rightarrow> y | Some _ \<Rightarrow> x)"

definition resolveAPIKeyConfig :: "api_key_config list \<Rightarrow> auth \<Rightarrow> api_key_config option" where
  "resolveAPIKeyConfig entries a =
     (let attrKey = TrimSpace (attribute_value (auth_Attributes a) AttributeAPIKey);
          attrBase = TrimSpace (attribute_value (auth_Attributes a) ''base_url'');
          matches = matchesCredentials attrKey attrBase;
          indexed = (case config_index a entries of None \<Rightarrow> None | Some entry \<Rightarrow> if matches entry then Some entry else None);
          exact = find (\<lambda>entry. matches entry \<and> EqualFold (TrimSpace (ak_Prefix entry)) (TrimSpace (auth_Prefix a)) \<and>
                                EqualFold (TrimSpace (ak_ProxyURL entry)) (TrimSpace (auth_ProxyURL a))) entries;
          keyed = (if attrKey \<noteq> [] then find (\<lambda>entry. EqualFold (TrimSpace (ak_APIKey entry)) attrKey) entries else None)
      in or_else indexed (or_else exact (or_else (find matches entries) keyed)))"

definition resolveOpenAICompatConfigForAuth :: "runtime_config \<Rightarrow> auth \<Rightarrow> string \<Rightarrow> string \<Rightarrow> openai_compat option" where
  "resolveOpenAICompatConfigForAuth cfg a providerKey compatName =
     (let indexed = (case config_index a (cfg_OpenAICompatibility cfg) of
                       None \<Rightarrow> None | Some entry \<Rightarrow> if \<not> oc_Disabled entry then Some entry else None)
      in or_else indexed (resolveOpenAICompatConfig (Some cfg) providerKey compatName (auth_Provider a)))"

text \<open>The switch on the provider, which four functions share: the models of the credential's entry.\<close>

definition entry_models :: "runtime_config \<Rightarrow> auth \<Rightarrow> model_alias list option" where
  "entry_models cfg a =
     (let provider = ToLower (TrimSpace (auth_Provider a));
          keyed = (\<lambda>entries. map_option ak_Models (resolveAPIKeyConfig entries a))
      in if provider = ''gemini'' then keyed (cfg_GeminiKey cfg)
         else if provider = ''gemini-interactions'' then keyed (cfg_InteractionsKey cfg)
         else if provider = ''claude'' then keyed (cfg_ClaudeKey cfg)
         else if provider = ''codex'' then keyed (cfg_CodexKey cfg)
         else if provider = ''xai'' then keyed (cfg_XAIKey cfg)
         else if provider = ''vertex'' then keyed (cfg_VertexCompatAPIKey cfg)
         else
           let providerKey = TrimSpace (attribute_value (auth_Attributes a) ''provider_key'');
               compatName = TrimSpace (attribute_value (auth_Attributes a) ''compat_name'')
           in if compatName \<noteq> [] \<or> EqualFold (TrimSpace (auth_Provider a)) ''openai-compatibility''
              then map_option oc_Models (resolveOpenAICompatConfigForAuth cfg a providerKey compatName)
              else None)"

definition configuredModelAliasEntries :: "runtime_config \<Rightarrow> auth \<Rightarrow> model_alias list" where
  "configuredModelAliasEntries cfg a = (case entry_models cfg a of None \<Rightarrow> [] | Some ms \<Rightarrow> ms)"

section \<open>The compiled table of API-key aliases\<close>

definition add_alias :: "string \<Rightarrow> string \<Rightarrow> (string, string) gomap \<Rightarrow> (string, string) gomap" where
  "add_alias key0 name out =
     (let key = ToLower (TrimSpace key0) in if key = [] \<or> mget out key \<noteq> None then out else mput key name out)"

definition compile_model :: "model_alias \<Rightarrow> (string, string) gomap \<Rightarrow> (string, string) gomap" where
  "compile_model m out =
     (let alias = TrimSpace (ma_Alias m);
          name = TrimSpace (ma_Name m)
      in if alias = [] \<or> name = [] then out
         else
           let nameResult = ParseSuffixAllowHyphen name;
               out1 = add_alias name name (add_alias alias name out)
           in if sr_HasSuffix nameResult then add_alias (sr_ModelName nameResult) name out1 else out1)"

definition compileAPIKeyModelAliasForModels :: "model_alias list \<Rightarrow> (string, string) gomap" where
  "compileAPIKeyModelAliasForModels ms = fold compile_model ms []"

record routing_snapshot =
  rs_config :: runtime_config
  rs_aliases :: "(string, (string, string) gomap) gomap"

definition routing_entry ::
  "runtime_config \<Rightarrow> auth \<Rightarrow> (string, (string, string) gomap) gomap \<Rightarrow> (string, (string, string) gomap) gomap" where
  "routing_entry cfg a out =
     (if TrimSpace (auth_ID a) = [] \<or> \<not> isConfiguredModelRoutingAuth a then out
      else
        let byAlias = (case entry_models cfg a of None \<Rightarrow> [] | Some ms \<Rightarrow> compileAPIKeyModelAliasForModels ms)
        in if byAlias = [] then out else mput (auth_ID a) byAlias out)"

definition rebuildAPIKeyModelAliasLocked :: "runtime_config \<Rightarrow> auth list \<Rightarrow> routing_snapshot" where
  "rebuildAPIKeyModelAliasLocked cfg auths = \<lparr>rs_config = cfg, rs_aliases = fold (routing_entry cfg) auths []\<rparr>"

definition preserveRequestedModelSuffix :: "string \<Rightarrow> string \<Rightarrow> string" where
  "preserveRequestedModelSuffix requestedModel resolved =
     preserveResolvedModelSuffix resolved (ParseSuffixAllowHyphen requestedModel)"

fun lookup_alias :: "string \<Rightarrow> suffix_result \<Rightarrow> (string, string) gomap \<Rightarrow> alias_candidate list \<Rightarrow> string" where
  "lookup_alias requestedModel requestResult byAlias [] = []"
| "lookup_alias requestedModel requestResult byAlias (candidate # candidates) =
     (let key = ToLower (TrimSpace (ac_value candidate));
          resolved = (case mget byAlias key of None \<Rightarrow> [] | Some name \<Rightarrow> TrimSpace name)
      in if key = [] \<or> resolved = [] then lookup_alias requestedModel requestResult byAlias candidates
         else if modelAliasCandidatePreservesSuffix candidate requestResult
         then preserveRequestedModelSuffix requestedModel resolved
         else resolved)"

definition lookupAPIKeyUpstreamModel :: "routing_snapshot \<Rightarrow> string \<Rightarrow> string \<Rightarrow> string" where
  "lookupAPIKeyUpstreamModel routing authID0 requestedModel0 =
     (let authID = TrimSpace authID0;
          requestedModel = TrimSpace requestedModel0;
          byAlias = (case mget (rs_aliases routing) authID of None \<Rightarrow> [] | Some m \<Rightarrow> m)
      in if authID = [] \<or> requestedModel = [] \<or> byAlias = [] then []
         else
           (case modelAliasLookupCandidates requestedModel of
              (requestResult, candidates) \<Rightarrow> lookup_alias requestedModel requestResult byAlias candidates))"

definition applyAPIKeyModelAliasWithRouting :: "routing_snapshot \<Rightarrow> auth \<Rightarrow> string \<Rightarrow> string" where
  "applyAPIKeyModelAliasWithRouting routing a requestedModel0 =
     (if AuthKind (Some a) \<noteq> AuthKindAPIKey then requestedModel0
      else
        let requestedModel = TrimSpace requestedModel0 in
        if requestedModel = [] then requestedModel
        else
          let resolved = lookupAPIKeyUpstreamModel routing (auth_ID a) requestedModel in
          if resolved \<noteq> [] then resolved
          else
            let upstreamModel =
                  (case entry_models (rs_config routing) a of
                     None \<Rightarrow> []
                   | Some ms \<Rightarrow> resolveModelAliasFromConfigModels requestedModel ms)
            in if upstreamModel \<noteq> [] then upstreamModel else requestedModel)"

section \<open>Pools\<close>

definition resolveOpenAICompatUpstreamModelPool :: "runtime_config \<Rightarrow> auth \<Rightarrow> string \<Rightarrow> string list" where
  "resolveOpenAICompatUpstreamModelPool cfg a requestedModel0 =
     (let requestedModel = TrimSpace requestedModel0 in
      if \<not> isConfiguredOpenAICompatAuth a \<or> requestedModel = [] then []
      else
        (case resolveOpenAICompatConfigForAuth cfg a (TrimSpace (attribute_value (auth_Attributes a) ''provider_key''))
                (TrimSpace (attribute_value (auth_Attributes a) ''compat_name'')) of
           None \<Rightarrow> []
         | Some entry \<Rightarrow> resolveModelAliasPoolFromConfigModels requestedModel (oc_Models entry)))"

definition openAICompatModelPoolKey :: "auth \<Rightarrow> string \<Rightarrow> string" where
  "openAICompatModelPoolKey a requestedModel =
     (let base0 = TrimSpace (sr_ModelName (ParseSuffixAllowHyphen requestedModel));
          base = (if base0 = [] then TrimSpace requestedModel else base0)
      in ToLower (TrimSpace (auth_ID a)) @ ''|'' @ openAICompatProviderKey a @ ''|'' @ ToLower base)"

text \<open>The offset to use, and the table of offsets afterwards.\<close>

definition nextModelPoolOffset :: "string \<Rightarrow> nat \<Rightarrow> (string, int) gomap \<Rightarrow> int \<times> (string, int) gomap" where
  "nextModelPoolOffset key0 poolSize offsets =
     (let key = TrimSpace key0 in
      if poolSize \<le> 1 \<or> key = [] then (0, offsets)
      else
        let offset0 = (case mget offsets key of None \<Rightarrow> 0 | Some n \<Rightarrow> n);
            offset = (if offset0 \<ge> 2147483640 then 0 else offset0)
        in (rem64 offset (int poolSize), mput key (offset + 1) offsets))"

definition rotateStrings :: "string list \<Rightarrow> int \<Rightarrow> string list" where
  "rotateStrings values offset0 =
     (if length values \<le> 1 \<or> offset0 \<le> 0 then values
      else
        let offset = nat (offset0 mod int (length values))
        in drop offset values @ take offset values)"

definition rotated_pool :: "auth \<Rightarrow> string \<Rightarrow> string list \<Rightarrow> (string, int) gomap \<Rightarrow> string list \<times> (string, int) gomap" where
  "rotated_pool a requestedModel pool offsets =
     (if length pool = 1 then (pool, offsets)
      else
        (case nextModelPoolOffset (openAICompatModelPoolKey a requestedModel) (length pool) offsets of
           (offset, offsets1) \<Rightarrow> (rotateStrings pool offset, offsets1)))"

section \<open>The models to execute\<close>

definition homeUpstreamModelAttributeKey :: string where
  "homeUpstreamModelAttributeKey = ''home_upstream_model''"

definition homeForceMappingAttributeKey :: string where
  "homeForceMappingAttributeKey = ''home_force_mapping''"

definition homeOriginalAliasAttributeKey :: string where
  "homeOriginalAliasAttributeKey = ''home_original_alias''"

record model_names =
  mn_decode :: "string \<Rightarrow> model_alias list option"
  mn_oauth :: oauth_alias_table
  mn_routing :: routing_snapshot

definition home_model :: "auth \<Rightarrow> string" where
  "home_model a = TrimSpace (attribute_value (auth_Attributes a) homeUpstreamModelAttributeKey)"

definition homeForceMappingAliasResult :: "auth \<Rightarrow> string \<Rightarrow> alias_result" where
  "homeForceMappingAliasResult a requestedModel =
     (let attrs = auth_Attributes a;
          original = attribute_value attrs homeOriginalAliasAttributeKey;
          canonicalOriginalAlias = canonicalHomeConcurrencyModelKey original
      in if \<not> EqualFold (TrimSpace (attribute_value attrs homeForceMappingAttributeKey)) ''true'' then no_alias
         else if canonicalOriginalAlias = [] \<or> canonicalOriginalAlias \<noteq> canonicalHomeConcurrencyModelKey requestedModel then no_alias
         else
           \<lparr>ar_UpstreamModel = (if home_model a = [] then TrimSpace requestedModel else home_model a),
            ar_ForceMapping = True, ar_OriginalAlias = TrimSpace original\<rparr>)"

definition resolveAPIKeyModelAliasWithResult :: "runtime_config \<Rightarrow> auth \<Rightarrow> string \<Rightarrow> alias_result" where
  "resolveAPIKeyModelAliasWithResult cfg a requestedModel0 =
     (let requestedModel = TrimSpace requestedModel0;
          ms = configuredModelAliasEntries cfg a;
          result = resolveModelAliasResultFromConfigModels requestedModel ms
      in if requestedModel = [] then no_alias
         else if ms = [] \<or> TrimSpace (ar_UpstreamModel result) = [] then no_alias\<lparr>ar_UpstreamModel := requestedModel\<rparr>
         else result)"

definition resolveExecutionAliasResultForRequested :: "model_names \<Rightarrow> auth \<Rightarrow> string \<Rightarrow> alias_result" where
  "resolveExecutionAliasResultForRequested nm a requestedModel =
     (let home = homeForceMappingAliasResult a requestedModel
      in if ar_ForceMapping home then home
         else if isConfiguredModelRoutingAuth a then resolveAPIKeyModelAliasWithResult (rs_config (mn_routing nm)) a requestedModel
         else applyOAuthModelAliasWithResult (mn_decode nm) (mn_oauth nm) (Some a) requestedModel)"

definition executionAliasPoolModel :: "auth \<Rightarrow> string \<Rightarrow> alias_result \<Rightarrow> string" where
  "executionAliasPoolModel a requestedModel aliasResult =
     (if isConfiguredModelRoutingAuth a \<and> TrimSpace requestedModel \<noteq> [] then requestedModel
      else if TrimSpace (ar_UpstreamModel aliasResult) \<noteq> [] then ar_UpstreamModel aliasResult
      else requestedModel)"

text \<open>The candidates for one upstream name: the model of the home service, a pool in rotation, or an alias.\<close>

definition upstream_candidates :: "model_names \<Rightarrow> auth \<Rightarrow> string \<Rightarrow> (string, int) gomap \<Rightarrow> string list \<times> (string, int) gomap" where
  "upstream_candidates nm a upstreamModel offsets =
     (if home_model a \<noteq> [] then ([home_model a], offsets)
      else
        let pool = resolveOpenAICompatUpstreamModelPool (rs_config (mn_routing nm)) a upstreamModel in
        if pool \<noteq> [] then rotated_pool a upstreamModel pool offsets
        else
          let resolved = applyAPIKeyModelAliasWithRouting (mn_routing nm) a upstreamModel
          in ([if TrimSpace resolved = [] then upstreamModel else resolved], offsets))"

definition executionModelCandidates :: "model_names \<Rightarrow> auth \<Rightarrow> string \<Rightarrow> (string, int) gomap \<Rightarrow> string list \<times> (string, int) gomap" where
  "executionModelCandidates nm a routeModel offsets =
     upstream_candidates nm a
       (applyOAuthModelAlias (mn_decode nm) (mn_oauth nm) (Some a) (rewriteModelForAuth routeModel a)) offsets"

definition ResolveExecutionModel :: "model_names \<Rightarrow> auth \<Rightarrow> string \<Rightarrow> (string, int) gomap \<Rightarrow> string \<times> (string, int) gomap" where
  "ResolveExecutionModel nm a routeModel0 offsets =
     (let routeModel = TrimSpace routeModel0
      in case executionModelCandidates nm a routeModel offsets of
           (candidates, offsets1) \<Rightarrow>
             (case candidates of
                [] \<Rightarrow> routeModel
              | m # _ \<Rightarrow> if TrimSpace m \<noteq> [] then TrimSpace m else routeModel, offsets1))"

definition executionModelCandidatesWithAlias ::
  "model_names \<Rightarrow> auth \<Rightarrow> string \<Rightarrow> (string, int) gomap \<Rightarrow> (string list \<times> bool \<times> alias_result) \<times> (string, int) gomap" where
  "executionModelCandidatesWithAlias nm a routeModel offsets =
     (let requestedModel = rewriteModelForAuth routeModel a;
          aliasResult0 = resolveExecutionAliasResultForRequested nm a requestedModel;
          aliasResult =
            (if ar_ForceMapping aliasResult0 \<and>
                EqualFold (TrimSpace (attribute_value (auth_Attributes a) homeForceMappingAttributeKey)) ''true''
             then aliasResult0\<lparr>ar_OriginalAlias := TrimSpace routeModel\<rparr> else aliasResult0)
      in case upstream_candidates nm a (executionAliasPoolModel a requestedModel aliasResult) offsets of
           (candidates, offsets1) \<Rightarrow> ((candidates, length candidates > 1, aliasResult), offsets1))"

definition selectionModelForAuth :: "model_names \<Rightarrow> auth \<Rightarrow> string \<Rightarrow> string" where
  "selectionModelForAuth nm a routeModel =
     (let requested0 = rewriteModelForAuth routeModel a;
          requestedModel = (if TrimSpace requested0 = [] then TrimSpace routeModel else requested0);
          resolvedModel = applyOAuthModelAlias (mn_decode nm) (mn_oauth nm) (Some a) requestedModel
      in if TrimSpace resolvedModel = [] then requestedModel else resolvedModel)"

definition selectionModelKeyForAuth :: "model_lookup \<Rightarrow> model_names \<Rightarrow> auth \<Rightarrow> string \<Rightarrow> string" where
  "selectionModelKeyForAuth lookup nm a routeModel = canonicalModelKey lookup (selectionModelForAuth nm a routeModel)"

definition executionResultModel :: "string \<Rightarrow> string \<Rightarrow> bool \<Rightarrow> string" where
  "executionResultModel routeModel upstreamModel pooled =
     (if pooled \<and> TrimSpace upstreamModel \<noteq> [] then TrimSpace upstreamModel
      else if TrimSpace routeModel \<noteq> [] then TrimSpace routeModel
      else TrimSpace upstreamModel)"

definition stateModelForExecution :: "model_lookup \<Rightarrow> model_names \<Rightarrow> auth \<Rightarrow> string \<Rightarrow> string \<Rightarrow> bool \<Rightarrow> string" where
  "stateModelForExecution lookup nm a routeModel upstreamModel pooled =
     (if home_model a \<noteq> [] then if TrimSpace upstreamModel \<noteq> [] then TrimSpace upstreamModel else home_model a
      else
        let selectionModel = selectionModelForAuth nm a routeModel
        in if canonicalModelKey lookup selectionModel = canonicalModelKey lookup upstreamModel \<and> TrimSpace selectionModel \<noteq> []
           then TrimSpace upstreamModel
           else executionResultModel routeModel upstreamModel pooled)"

definition filterExecutionModels ::
  "model_lookup \<Rightarrow> model_names \<Rightarrow> auth \<Rightarrow> string \<Rightarrow> string list \<Rightarrow> bool \<Rightarrow> time \<Rightarrow> string list" where
  "filterExecutionModels lookup nm a routeModel candidates pooled now =
     filter (\<lambda>upstreamModel.
       \<not> fst (isAuthBlockedForModel lookup (Some a) (stateModelForExecution lookup nm a routeModel upstreamModel pooled) now))
       candidates"

definition preparedExecutionModelsWithAlias ::
  "model_lookup \<Rightarrow> model_names \<Rightarrow> auth \<Rightarrow> string \<Rightarrow> time \<Rightarrow> (string, int) gomap \<Rightarrow>
   (string list \<times> bool \<times> alias_result) \<times> (string, int) gomap" where
  "preparedExecutionModelsWithAlias lookup nm a routeModel now offsets =
     (case executionModelCandidatesWithAlias nm a routeModel offsets of
        ((candidates, pooled, aliasResult), offsets1) \<Rightarrow>
          ((filterExecutionModels lookup nm a routeModel candidates pooled now, pooled, aliasResult), offsets1))"

definition resolveModelAliasResultForUpstream :: "runtime_config \<Rightarrow> auth \<Rightarrow> string \<Rightarrow> string \<Rightarrow> alias_result" where
  "resolveModelAliasResultForUpstream cfg a requestedModel0 upstreamModel0 =
     (let requestedModel = TrimSpace requestedModel0;
          upstreamModel = TrimSpace upstreamModel0;
          requestResult = ParseSuffix requestedModel;
          filtered = filter (\<lambda>m. TrimSpace (ma_Name m) \<noteq> [] \<and>
              EqualFold (preserveResolvedModelSuffix (TrimSpace (ma_Name m)) requestResult) upstreamModel)
            (configuredModelAliasEntries cfg a)
      in if requestedModel = [] \<or> upstreamModel = [] \<or> filtered = [] then no_alias
         else resolveModelAliasResultFromConfigModels requestedModel filtered)"

definition resolveAttemptAliasResult :: "routing_snapshot \<Rightarrow> auth \<Rightarrow> string \<Rightarrow> string \<Rightarrow> alias_result \<Rightarrow> alias_result" where
  "resolveAttemptAliasResult routing a routeModel upstreamModel fallback =
     (if \<not> isConfiguredModelRoutingAuth a then fallback
      else
        let result = resolveModelAliasResultForUpstream (rs_config routing) a (rewriteModelForAuth routeModel a) upstreamModel
        in if TrimSpace (ar_UpstreamModel result) = [] then fallback
           else if ar_ForceMapping result \<and> ar_ForceMapping fallback \<and> TrimSpace (ar_OriginalAlias fallback) \<noteq> []
           then result\<lparr>ar_OriginalAlias := ar_OriginalAlias fallback\<rparr>
           else result)"

end
