(* ===== verification/Model_Claims.thy ===== *)
theory Model_Claims
  imports Model_Routing
begin

text \<open>
  Theorems on names of models: the compiled table of OAuth aliases answers like a scan of the sanitised
  entries, pools have no repeated members and rotate, and a chain of aliases that the table of API-key
  aliases does not follow.
\<close>

section \<open>The compiled table and the scan\<close>

lemma EqualFold_iff: "EqualFold s t \<longleftrightarrow> ToLower s = ToLower t"
  by (simp add: EqualFold_def)

definition alias_entry :: "model_alias \<Rightarrow> oauth_alias_entry" where
  "alias_entry e = \<lparr>oa_upstreamModel = ma_Name e, oa_configAlias = ma_Alias e, oa_forceMapping = ma_ForceMapping e\<rparr>"

definition find_alias :: "string \<Rightarrow> model_alias list \<Rightarrow> model_alias option" where
  "find_alias key = find (\<lambda>e. ToLower (ma_Alias e) = key)"

definition clean_entry :: "model_alias \<Rightarrow> bool" where
  "clean_entry e \<longleftrightarrow> trimmed (ma_Name e) \<and> ma_Name e \<noteq> [] \<and> trimmed (ma_Alias e) \<and> ma_Alias e \<noteq> []"

lemma trim_trimmed: "trimmed (TrimSpace s)"
  by simp

lemma sanitize_clean: "\<forall>e \<in> set (sanitize_aliases seen es). clean_entry e"
proof (induction es arbitrary: seen)
  case (Cons e es)
  let ?e = "\<lparr>ma_Name = TrimSpace (ma_Name e), ma_Alias = TrimSpace (ma_Alias e), ma_ForceMapping = ma_ForceMapping e\<rparr>"
  have "TrimSpace (ma_Name e) \<noteq> [] \<Longrightarrow> TrimSpace (ma_Alias e) \<noteq> [] \<Longrightarrow> clean_entry ?e"
    by (simp add: clean_entry_def trim_trimmed)
  then show ?case using Cons.IH unfolding sanitize_aliases.simps Let_def by (simp split: if_splits)
qed simp

lemma sanitize_seen_cong: "set seen = set seen' \<Longrightarrow> sanitize_aliases seen es = sanitize_aliases seen' es"
proof (induction es arbitrary: seen seen')
  case Nil
  then show ?case by simp
next
  case (Cons e es)
  have 1: "sanitize_aliases (k # seen) es = sanitize_aliases (k # seen') es" for k
  proof (rule Cons.IH)
    show "set (k # seen) = set (k # seen')" using Cons.prems by simp
  qed
  have 2: "sanitize_aliases seen es = sanitize_aliases seen' es" by (rule Cons.IH [OF Cons.prems])
  show ?case unfolding sanitize_aliases.simps Let_def Cons.prems 1 2 by (rule refl)
qed

lemma compile_find:
  "mget (fold compile_entry es M) k =
     (case mget M k of Some e \<Rightarrow> Some e | None \<Rightarrow> map_option alias_entry (find_alias k (sanitize_aliases (map fst M) es)))"
proof (induction es arbitrary: M)
  case Nil
  then show ?case by (simp add: find_alias_def split: option.splits)
next
  case (Cons e es)
  let ?n = "TrimSpace (ma_Name e)" and ?a = "TrimSpace (ma_Alias e)"
  show ?case
  proof (cases "?n = [] \<or> ?a = [] \<or> EqualFold ?n ?a \<or> mget M (ToLower ?a) \<noteq> None")
    case True
    have "ToLower ?a \<in> set (map fst M) \<longleftrightarrow> mget M (ToLower ?a) \<noteq> None" by (simp add: map_of_eq_None_iff)
    with True have s: "sanitize_aliases (map fst M) (e # es) = sanitize_aliases (map fst M) es" by (auto simp: Let_def)
    have c: "compile_entry e M = M" using True by (simp add: compile_entry_def Let_def)
    show ?thesis unfolding fold_simps(2) c s by (rule Cons)
  next
    case False
    let ?e = "\<lparr>ma_Name = ?n, ma_Alias = ?a, ma_ForceMapping = ma_ForceMapping e\<rparr>"
    let ?M = "mput (ToLower ?a) (alias_entry ?e) M"
    have c: "compile_entry e M = ?M" using False by (simp add: compile_entry_def Let_def alias_entry_def)
    have nin: "ToLower ?a \<notin> set (map fst M)" using False by (simp add: map_of_eq_None_iff)
    have "set (map fst ?M) = set (ToLower ?a # map fst M)" by (auto simp: keys_mput)
    then have s: "sanitize_aliases (map fst ?M) es = sanitize_aliases (ToLower ?a # map fst M) es" by (rule sanitize_seen_cong)
    have "sanitize_aliases (map fst M) (e # es) = ?e # sanitize_aliases (ToLower ?a # map fst M) es"
      using False nin by (simp add: Let_def)
    then show ?thesis using Cons.IH [of ?M] False s by (auto simp: c find_alias_def split: option.splits)
  qed
qed

lemma scan_find:
  assumes "\<forall>e \<in> set es. clean_entry e"
  shows "scan_entries m rr b c es =
     map_option (\<lambda>e. matched_alias m rr b c (ma_Name e) (ma_Alias e) (ma_ForceMapping e)) (find_alias (ToLower (TrimSpace (ac_value c))) es)"
  using assms by (induction es) (auto simp: Let_def find_alias_def clean_entry_def EqualFold_iff)

lemma find_alias_clean: "\<forall>e \<in> set es. clean_entry e \<Longrightarrow> find_alias k es = Some e \<Longrightarrow> ma_Name e \<noteq> []"
  by (auto simp: find_alias_def find_Some_iff clean_entry_def)

lemma table_scan:
  assumes "aliasMap = fold compile_entry es []"
  shows "scan_table m rr b aliasMap cs = scan_candidates m rr b (sanitize_aliases [] es) cs"
proof (induction cs)
  case (Cons c cs)
  have "mget aliasMap k = map_option alias_entry (find_alias k (sanitize_aliases [] es))" for k
    using compile_find [of es "[]" k] assms by simp
  then show ?case
    using Cons scan_find [OF sanitize_clean, of m rr b c "[]" es] find_alias_clean [OF sanitize_clean, of _ "[]" es]
    by (auto simp: Let_def alias_entry_def split: option.splits)
qed simp

lemma compiled_empty: "fold compile_entry es [] = [] \<longleftrightarrow> sanitize_aliases [] es = []"
proof
  assume "fold compile_entry es [] = []"
  then have "find_alias k (sanitize_aliases [] es) = None" for k using compile_find [of es "[]" k] by simp
  then show "sanitize_aliases [] es = []"
  proof (cases "sanitize_aliases [] es")
    case (Cons e l)
    then have "find_alias (ToLower (ma_Alias e)) (sanitize_aliases [] es) = Some e" by (simp add: find_alias_def)
    then show ?thesis using \<open>\<And>k. find_alias k (sanitize_aliases [] es) = None\<close> [of "ToLower (ma_Alias e)"] by simp
  qed
next
  assume "sanitize_aliases [] es = []"
  then have "mget (fold compile_entry es []) k = None" for k using compile_find [of es "[]" k] by (simp add: find_alias_def)
  then show "fold compile_entry es [] = []"
  proof (cases "fold compile_entry es []")
    case (Cons x l)
    then have "mget (fold compile_entry es []) (fst x) = Some (snd x)" by simp
    then show ?thesis using \<open>\<And>k. mget (fold compile_entry es []) k = None\<close> [of "fst x"] by simp
  qed
qed

lemma compiled_channel:
  assumes "channel \<noteq> []" "\<forall>x \<in> set aliases. ToLower (TrimSpace (fst x)) = channel \<longrightarrow> snd x = entries"
  shows "mget (fold compile_channel aliases T) channel =
     (if channel \<in> (\<lambda>x. ToLower (TrimSpace (fst x))) ` set aliases \<and> fold compile_entry entries [] \<noteq> []
      then Some (fold compile_entry entries []) else mget T channel)"
  using assms(2)
proof (induction aliases arbitrary: T)
  case (Cons x aliases)
  obtain c es where x: "x = (c, es)" by fastforce
  have "mget (compile_channel x T) channel = (if ToLower (TrimSpace c) = channel \<and> fold compile_entry es [] \<noteq> []
      then Some (fold compile_entry es []) else mget T channel)"
    using assms(1) by (auto simp: x compile_channel_def Let_def)
  moreover have "ToLower (TrimSpace c) = channel \<Longrightarrow> es = entries" using Cons.prems by (simp add: x)
  ultimately show ?case using Cons by (auto simp: x)
qed simp

lemma sanitize_auth: "sanitizeOAuthModelAliases es = sanitize_aliases [] es"
proof -
  have "ToLower (TrimSpace ''auth'') = ''auth''" "TrimSpace ''auth'' \<noteq> []" by code_simp+
  then show ?thesis
    by (simp add: sanitizeOAuthModelAliases_def SanitizeOAuthModelAlias_def sanitize_channel_def Let_def)
qed

text \<open>C19: The two ways to resolve an alias agree: the table that is compiled from the configured aliases
  answers a request for a channel as a scan of the channel's sanitised entries does, which is how the
  aliases in a credential's own attributes are resolved.\<close>

theorem compiled_aliases_agree:
  assumes "(c, entries) \<in> set aliases" "channel = ToLower (TrimSpace c)" "channel \<noteq> []"
    and "\<forall>x \<in> set aliases. ToLower (TrimSpace (fst x)) = channel \<longrightarrow> snd x = entries"
  shows "resolveUpstreamModelFromAliasTable (compileOAuthModelAliasTable aliases) model channel =
     resolveUpstreamModelFromAliases (sanitizeOAuthModelAliases entries) model"
proof -
  have "channel \<in> (\<lambda>x. ToLower (TrimSpace (fst x))) ` set aliases" using assms(1,2) by force
  then have t: "mget (compileOAuthModelAliasTable aliases) channel =
      (if fold compile_entry entries [] \<noteq> [] then Some (fold compile_entry entries []) else None)"
    using compiled_channel [OF assms(3,4), of "[]"] by (simp add: compileOAuthModelAliasTable_def)
  show ?thesis
  proof (cases "sanitize_aliases [] entries = []")
    case True
    then show ?thesis using t assms(3) compiled_empty [of entries]
      by (simp add: resolveUpstreamModelFromAliasTable_def resolveUpstreamModelFromAliases_def sanitize_auth case_prod_beta)
  next
    case False
    then show ?thesis using t assms(3) compiled_empty [of entries] table_scan [OF refl]
      by (simp add: resolveUpstreamModelFromAliasTable_def resolveUpstreamModelFromAliases_def sanitize_auth case_prod_beta)
  qed
qed

theorem compiled_aliases_agree_witness:
  "ar_UpstreamModel (resolveUpstreamModelFromAliases (sanitizeOAuthModelAliases
      [\<lparr>ma_Name = ''opus'', ma_Alias = '' Best '', ma_ForceMapping = False\<rparr>]) ''best(high)'') = ''opus(high)''"
proof -
  let ?e = "[\<lparr>ma_Name = ''opus'', ma_Alias = '' Best '', ma_ForceMapping = False\<rparr>]"
  have "ToLower (TrimSpace '' Claude'') = ''claude''" by code_simp
  then have "resolveUpstreamModelFromAliasTable (compileOAuthModelAliasTable [('' Claude'', ?e)]) ''best(high)'' ''claude'' =
      resolveUpstreamModelFromAliases (sanitizeOAuthModelAliases ?e) ''best(high)''"
    by (intro compiled_aliases_agree) auto
  moreover have "ar_UpstreamModel (resolveUpstreamModelFromAliasTable (compileOAuthModelAliasTable [('' Claude'', ?e)]) ''best(high)'' ''claude'') =
      ''opus(high)''" by code_simp
  ultimately show ?thesis by simp
qed

section \<open>Pools\<close>

lemma trim_nonempty: "x \<in> set s \<Longrightarrow> \<not> is_space x \<Longrightarrow> TrimSpace s \<noteq> []"
proof -
  assume a: "x \<in> set s" "\<not> is_space x"
  have keep: "x \<in> set l \<Longrightarrow> x \<in> set (dropWhile is_space l)" for l using a(2) by (induction l) auto
  have "x \<in> set (TrimSpace s)" unfolding TrimSpace_def using keep [OF a(1)] keep by simp
  then show ?thesis by auto
qed

lemma pool_entries_fresh:
  "distinct (map (\<lambda>m. ToLower (TrimSpace m)) (pool_entries c rr seen ms)) \<and>
   (\<lambda>m. ToLower (TrimSpace m)) ` set (pool_entries c rr seen ms) \<inter> set seen = {}"
proof (induction ms arbitrary: seen)
  case (Cons m ms)
  show ?case unfolding pool_entries.simps Let_def
    using Cons.IH [of seen] Cons.IH
      [of "ToLower (TrimSpace (pool_name c rr (if TrimSpace (ma_Name m) \<noteq> [] then TrimSpace (ma_Name m) else ac_value c))) # seen"]
    by (simp split: if_splits) blast?
qed simp

lemma pool_members_distinct: "distinct (map (\<lambda>m. ToLower (TrimSpace m)) (resolveModelAliasPoolFromConfigModels model ms))"
proof -
  have a: "distinct (map (\<lambda>m. ToLower (TrimSpace m)) (first_pool rr ms cs))" for rr cs
  proof (induction cs)
    case (Cons c cs)
    then show ?case using pool_entries_fresh [of c rr "[]" ms] by (cases "pool_entries c rr [] ms") simp_all
  qed simp
  have b: "length (first_named rr ms cs) \<le> 1" for rr cs by (induction cs) (auto split: option.splits)
  have c: "length l \<le> 1 \<Longrightarrow> distinct (map f l)" for f :: "string \<Rightarrow> string" and l by (cases l) auto
  obtain rr cs where l: "modelAliasLookupCandidates (TrimSpace model) = (rr, cs)" by fastforce
  show ?thesis using a [of rr cs] c [OF b, of _ rr cs]
    by (cases "first_pool rr ms cs") (simp_all add: resolveModelAliasPoolFromConfigModels_def Let_def l)
qed

text \<open>The pools of successive requests for one model through one credential.\<close>

fun pool_runs :: "auth \<Rightarrow> string \<Rightarrow> string list \<Rightarrow> (string, int) gomap \<Rightarrow> nat \<Rightarrow> string list list" where
  "pool_runs a model pool offsets 0 = []"
| "pool_runs a model pool offsets (Suc n) =
     (case rotated_pool a model pool offsets of (out, offsets1) \<Rightarrow> out # pool_runs a model pool offsets1 n)"

definition pool_offset :: "auth \<Rightarrow> string \<Rightarrow> (string, int) gomap \<Rightarrow> int" where
  "pool_offset a model offsets =
     (case mget offsets (TrimSpace (openAICompatModelPoolKey a model)) of None \<Rightarrow> 0 | Some n \<Rightarrow> n)"

lemma pool_key_nonempty: "TrimSpace (openAICompatModelPoolKey a model) \<noteq> []"
proof (rule trim_nonempty)
  show "CHR ''|'' \<in> set (openAICompatModelPoolKey a model)" by (simp add: openAICompatModelPoolKey_def Let_def)
  show "\<not> is_space (CHR ''|'')" by code_simp
qed

lemma rotateStrings_rotate:
  assumes "0 \<le> n" "1 < length pool"
  shows "rotateStrings pool (rem64 n (int (length pool))) = rotate (nat n) pool"
proof -
  have "rem64 n (int (length pool)) = int (nat n mod length pool)"
  proof -
    have "quot64 n (int (length pool)) = n div int (length pool)"
      by (rule quot64_nonneg) (use assms in linarith)+
    then show ?thesis using assms(1) by (simp add: rem64_def minus_mult_div_eq_mod zmod_int)
  qed
  then show ?thesis using assms(2) by (auto simp: rotateStrings_def rotate_drop_take Let_def simp flip: zmod_int)
qed

lemma rotated_pool_step:
  assumes "1 < length pool" "0 \<le> pool_offset a model offsets" "pool_offset a model offsets < 2147483640"
  shows "fst (rotated_pool a model pool offsets) = rotate (nat (pool_offset a model offsets)) pool"
    and "pool_offset a model (snd (rotated_pool a model pool offsets)) = pool_offset a model offsets + 1"
  using assms pool_key_nonempty [of a model]
  by (auto simp: rotated_pool_def nextModelPoolOffset_def Let_def pool_offset_def rotateStrings_rotate split: option.splits)

lemma pool_runs_rotate:
  assumes "1 < length pool" "0 \<le> pool_offset a model offsets" "pool_offset a model offsets + int n \<le> 2147483640"
  shows "pool_runs a model pool offsets n = map (\<lambda>j. rotate (nat (pool_offset a model offsets) + j) pool) [0..<n]"
  using assms(2,3)
proof (induction n arbitrary: offsets)
  case (Suc n)
  let ?o = "pool_offset a model offsets" and ?r = "rotated_pool a model pool offsets"
  have s: "fst ?r = rotate (nat ?o) pool" "pool_offset a model (snd ?r) = ?o + 1"
    using rotated_pool_step [OF assms(1)] Suc.prems by auto
  have "pool_runs a model pool (snd ?r) n = map (\<lambda>j. rotate (nat (?o + 1) + j) pool) [0..<n]"
    using Suc.IH [of "snd ?r"] s Suc.prems by simp
  moreover have "map (\<lambda>j. rotate (nat (?o + 1) + j) pool) [0..<n] = map (\<lambda>j. rotate (nat ?o + Suc j) pool) [0..<n]"
    using Suc.prems by (simp add: nat_add_distrib)
  ultimately show ?case using s(1) by (simp add: case_prod_beta map_upt_Suc del: upt_Suc)
qed simp

lemma heads_of_rotations:
  assumes "pool \<noteq> []"
  shows "map (\<lambda>j. hd (rotate (k + j) pool)) [0..<length pool] = rotate k pool"
proof (rule nth_equalityI)
  fix i assume "i < length (map (\<lambda>j. hd (rotate (k + j) pool)) [0..<length pool])"
  then have i: "i < length pool" by simp
  then have "hd (rotate (k + i) pool) = pool ! ((k + i) mod length pool)" using assms by (simp add: hd_rotate_conv_nth)
  with i show "map (\<lambda>j. hd (rotate (k + j) pool)) [0..<length pool] ! i = rotate k pool ! i" by (simp add: nth_rotate add.commute)
qed simp

text \<open>C20: Requests for a pooled model are spread evenly: while the stored offset stays below its reset
  value, successive requests see the pool rotated by one more place each, and over as many requests as the pool
  has members each member of the pool is tried first exactly once; no two members are the same name.\<close>

theorem pool_rotation:
  assumes "pool = resolveModelAliasPoolFromConfigModels model ms" "1 < length pool" "0 \<le> pool_offset a model offsets"
    and "pool_offset a model offsets + int n \<le> 2147483640"
  shows "pool_runs a model pool offsets n = map (\<lambda>j. rotate (nat (pool_offset a model offsets) + j) pool) [0..<n] \<and>
    (n = length pool \<longrightarrow> distinct (map hd (pool_runs a model pool offsets n)) \<and>
       set (map hd (pool_runs a model pool offsets n)) = set pool)"
proof -
  let ?k = "nat (pool_offset a model offsets)"
  have r: "pool_runs a model pool offsets n = map (\<lambda>j. rotate (?k + j) pool) [0..<n]"
    using pool_runs_rotate [OF assms(2,3,4)] .
  have d: "distinct pool" using pool_members_distinct [of model ms] assms(1) by (simp add: distinct_map)
  have ne: "pool \<noteq> []" using assms(2) by auto
  have "n = length pool \<Longrightarrow> map hd (pool_runs a model pool offsets n) = rotate ?k pool"
    using heads_of_rotations [OF ne, of ?k] unfolding r by (simp add: o_def)
  then show ?thesis using r d by simp
qed

definition demo_compat :: auth where
  "demo_compat = zero_auth\<lparr>auth_ID := ''c1'', auth_Provider := ''openai-compatibility''\<rparr>"

definition demo_pool :: "model_alias list" where
  "demo_pool = [\<lparr>ma_Name = ''north'', ma_Alias = ''chat'', ma_ForceMapping = False\<rparr>,
    \<lparr>ma_Name = ''south'', ma_Alias = ''Chat'', ma_ForceMapping = False\<rparr>,
    \<lparr>ma_Name = ''North'', ma_Alias = ''chat'', ma_ForceMapping = False\<rparr>]"

theorem pool_rotation_witness:
  "pool_runs demo_compat ''chat'' [''north'', ''south''] [] 2 = [[''north'', ''south''], [''south'', ''north'']]"
proof -
  have p: "[''north'', ''south''] = resolveModelAliasPoolFromConfigModels ''chat'' demo_pool" by code_simp
  have "pool_offset demo_compat ''chat'' [] = 0" by (simp add: pool_offset_def)
  with pool_rotation [OF p, of demo_compat "[]" 2] show ?thesis by (simp add: numeral_2_eq_2 upt_rec)
qed

section \<open>A chain of aliases\<close>

definition demo_chain :: "model_alias list" where
  "demo_chain = [\<lparr>ma_Name = ''a'', ma_Alias = ''b'', ma_ForceMapping = False\<rparr>,
    \<lparr>ma_Name = ''c'', ma_Alias = ''a'', ma_ForceMapping = False\<rparr>]"

definition demo_key_auth :: auth where
  "demo_key_auth = zero_auth\<lparr>auth_ID := ''k1'', auth_Provider := ''codex'', auth_Attributes := [(AttributeAPIKey, ''key'')]\<rparr>"

definition demo_key_config :: runtime_config where
  "demo_key_config = zero_config\<lparr>cfg_CodexKey :=
     [\<lparr>ak_APIKey = ''key'', ak_BaseURL = [], ak_Prefix = [], ak_ProxyURL = [], ak_Models = demo_chain\<rparr>]\<rparr>"

text \<open>The alias tables of one credential disagree: when an entry names a model that a later entry uses as
  its alias, the compiled table sends a request for that name to the model itself, while the alias result that
  is computed for the same request, from the same entries, says the later entry's model.\<close>

theorem chained_alias_ignored:
  "applyAPIKeyModelAliasWithRouting (rebuildAPIKeyModelAliasLocked demo_key_config [demo_key_auth]) demo_key_auth ''a'' = ''a'' \<and>
   ar_UpstreamModel (resolveAPIKeyModelAliasWithResult demo_key_config demo_key_auth ''a'') = ''c'' \<and>
   resolveModelAliasFromConfigModels ''a'' demo_chain = ''c''"
  by code_simp

end
