(* ===== verification/Home_Concurrency.thy ===== *)
theory Home_Concurrency
  imports Execution_Registry Auth_State Home_Key
begin

text \<open>
  Dispatches by the home service (\<^verbatim>\<open>home_concurrency.go\<close>): the validation of the concurrency tuple, the
  installation of an accounted scope in the execution registry, and the errors of a dispatch. JSON is
  decoded by the caller: the functions here take the decoded fields.
\<close>

section \<open>Tuples and scopes\<close>

record home_tuple =
  ht_Accounted :: bool
  ht_CredentialID :: string
  ht_Model :: string

definition validateAccountedHomeConcurrencyTuple :: "home_tuple \<Rightarrow> bool" where
  "validateAccountedHomeConcurrencyTuple tuple =
     (case validCanonicalHomeConcurrencyModelKey (ht_Model tuple) of
        (model, validModel) \<Rightarrow>
          ht_Accounted tuple \<and> validHomeConcurrencyTupleField (ht_CredentialID tuple) \<and> validModel \<and> ht_Model tuple = model)"

datatype install_error = MalformedHomeConcurrencyTuple | RegistryError registry_error

definition registry_install :: "nat \<Rightarrow> scope_spec \<Rightarrow> exec_registry \<Rightarrow> (install_error + nat) \<times> exec_registry" where
  "registry_install pending spec r =
     (case Install pending spec r of (Inl e, r1) \<Rightarrow> (Inl (RegistryError e), r1) | (Inr i, r1) \<Rightarrow> (Inr i, r1))"

text \<open>A registry and a pending dispatch that are not nil.\<close>

definition installHomeConcurrencyScope ::
  "nat \<Rightarrow> home_tuple \<Rightarrow> scope_spec \<Rightarrow> exec_registry \<Rightarrow> (install_error + nat) \<times> exec_registry" where
  "installHomeConcurrencyScope pending tuple base r =
     (if \<not> ht_Accounted tuple then registry_install pending (base\<lparr>Accounted := False\<rparr>) r
      else if \<not> validateAccountedHomeConcurrencyTuple tuple then (Inl MalformedHomeConcurrencyTuple, r)
      else registry_install pending
             (base\<lparr>CredentialID := ht_CredentialID tuple, Model := ht_Model tuple, Accounted := True\<rparr>) r)"

definition canonicalHomeDispatchModel :: "string \<Rightarrow> string \<Rightarrow> string" where
  "canonicalHomeDispatchModel responseModel requestedModel =
     (let model = TrimSpace responseModel in if model \<noteq> [] then model else requestedModel)"

section \<open>Errors\<close>

definition http_error :: "string \<Rightarrow> string \<Rightarrow> bool \<Rightarrow> int \<Rightarrow> auth_error" where
  "http_error code message retryable status =
     \<lparr>ae_Code = code, ae_Message = message, ae_Retryable = retryable, ae_HTTPStatus = status\<rparr>"

datatype home_error = HomeConcurrencyBusyError auth_error duration | HomeError auth_error

definition NewHomeConcurrencyBusyError :: "string \<Rightarrow> duration \<Rightarrow> home_error" where
  "NewHomeConcurrencyBusyError message0 retryAfter =
     (let message = TrimSpace message0 in
      HomeConcurrencyBusyError
        (http_error ''credential_concurrency_exceeded''
           (if message = [] then ''credential concurrency limit exceeded'' else message) True 429) retryAfter)"

definition busy_StatusCode :: "home_error \<Rightarrow> int" where
  "busy_StatusCode e = (case e of HomeConcurrencyBusyError cause _ \<Rightarrow> ae_HTTPStatus cause | HomeError cause \<Rightarrow> ae_HTTPStatus cause)"

definition busy_RetryAfter :: "home_error \<Rightarrow> duration option" where
  "busy_RetryAfter e =
     (case e of HomeConcurrencyBusyError _ retryAfter \<Rightarrow> (if retryAfter \<le> 0 then None else Some retryAfter) | HomeError _ \<Rightarrow> None)"

text \<open>The value of the header \<open>Retry-After\<close>, if it is set.\<close>

definition safeRetryAfterHeader :: "duration \<Rightarrow> string option" where
  "safeRetryAfterHeader retryAfter =
     (if retryAfter \<le> 0 then None
      else
        let seconds0 = retryAfter div Second;
            seconds1 = (if retryAfter mod Second \<noteq> 0 then seconds0 + 1 else seconds0);
            seconds = (if seconds1 < 1 then 1 else seconds1)
        in Some (show_nat (nat seconds)))"

definition SafeResponseHeaders :: "home_error \<Rightarrow> string option" where
  "SafeResponseHeaders e =
     (case e of HomeConcurrencyBusyError _ retryAfter \<Rightarrow> safeRetryAfterHeader retryAfter | HomeError _ \<Rightarrow> None)"

record home_error_detail =
  he_Type :: string
  he_Code :: string
  he_Message :: string
  he_Retryable :: bool
  he_RetryAfterMS :: int

text \<open>The field \<open>error\<close> of a response: absent, not an object of the expected form, or its detail.\<close>

datatype error_field = ErrorAbsent | ErrorMalformed | ErrorDetail home_error_detail

definition malformed_payload :: home_error where
  "malformed_payload = HomeError (http_error ''invalid_auth'' ''home returned malformed error payload'' False 502)"

definition dispatch_status :: "string \<Rightarrow> int" where
  "dispatch_status code =
     (if code = ''model_not_found'' then 404
      else if code \<in> {''authentication_error'', ''unauthorized'', ''no_credentials'', ''invalid_credential''} then 401
      else if code \<in> {''credential_concurrency_exceeded'', ''credential_model_concurrency_exceeded''} then 429
      else if code \<in> {''auth_not_found'', ''auth_unavailable'', ''refresh_temporarily_unavailable'', ''home_unavailable'',
        ''concurrency_protocol_required'', ''concurrency_tracker_unavailable'', ''concurrency_node_unavailable''} then 503
      else 502)"

definition decodeHomeDispatchError :: "error_field \<Rightarrow> home_error option" where
  "decodeHomeDispatchError field =
     (case field of
        ErrorAbsent \<Rightarrow> None
      | ErrorMalformed \<Rightarrow> Some malformed_payload
      | ErrorDetail detail \<Rightarrow>
          let code = (if TrimSpace (he_Type detail) = [] then TrimSpace (he_Code detail) else TrimSpace (he_Type detail));
              message = (if TrimSpace (he_Message detail) = [] then ''home returned error'' else TrimSpace (he_Message detail));
              result = http_error code message (he_Retryable detail) (dispatch_status (ToLower code))
          in if code = [] then Some malformed_payload
             else if dispatch_status (ToLower code) = 429
             then Some (HomeConcurrencyBusyError result (wrap64 (he_RetryAfterMS detail * 1000000)))
             else Some (HomeError result))"

definition invalidHomeConcurrencyResponse :: "string \<Rightarrow> auth_error" where
  "invalidHomeConcurrencyResponse message = http_error ''invalid_home_concurrency'' message False 502"

definition verifyAccountedHomeConcurrencyIdentity :: "home_tuple \<Rightarrow> auth option \<Rightarrow> string \<Rightarrow> auth_error option" where
  "verifyAccountedHomeConcurrencyIdentity tuple auth0 authIndex =
     (if \<not> ht_Accounted tuple then None
      else if (case auth0 of None \<Rightarrow> True | Some a \<Rightarrow> auth_ID a \<noteq> ht_CredentialID tuple) \<or> authIndex \<noteq> ht_CredentialID tuple
      then Some (invalidHomeConcurrencyResponse ''Home concurrency identity does not match dispatched auth'')
      else None)"

end
