(* ===== verification/Home_Claims.thy ===== *)
theory Home_Claims
  imports Home_Concurrency
begin

text \<open>
  Theorems on dispatches by the home service: what an installed scope carries, the seconds of the
  header \<open>Retry-After\<close>, and a model key on which the canonical form is not stable.
\<close>

section \<open>Scopes\<close>

lemma Install_Inr:
  assumes "Install pending spec r = (Inr i, r')"
  shows "i = pending \<and> i \<in> set (er_pending r) \<and> i \<notin> set (er_pending r') \<and> i \<in> set (er_scopes r') \<and>
    (\<exists>s. mget (er_objs r') i = Some s \<and> so_spec s = spec \<and> so_active s)"
  using assms by (auto simp: Install_def Let_def split: if_splits)

lemma registry_install_Inr:
  assumes "registry_install pending spec r = (Inr i, r')"
  shows "Install pending spec r = (Inr i, r')"
  using assms by (auto simp: registry_install_def split: prod.splits sum.splits)

lemma valid_tuple:
  assumes "validateAccountedHomeConcurrencyTuple t"
  shows "canonicalHomeConcurrencyModelKey (ht_Model t) = ht_Model t" "ht_Model t \<noteq> []"
    "length (ht_Model t) \<le> 256" "ht_CredentialID t \<noteq> []" "TrimSpace (ht_CredentialID t) = ht_CredentialID t"
    "length (ht_CredentialID t) \<le> 256"
  using assms
  by (auto simp: validateAccountedHomeConcurrencyTuple_def validCanonicalHomeConcurrencyModelKey_def Let_def
      validHomeConcurrencyTupleField_def maxHomeConcurrencyTupleFieldLength_def)

text \<open>C33: What the registry counts is what the home service granted: a scope is only installed for a dispatch that
  was pending, and it uses it up; the scope is accounted exactly when the tuple is, and then it carries the
  tuple's credential and model, both bounded and not empty, the model in canonical form. A malformed tuple changes
  nothing, so that the dispatch stays pending for its caller to end.\<close>

theorem home_scope_accounted:
  assumes "installHomeConcurrencyScope pending t base r = (res, r')"
  shows "case res of
      Inr i \<Rightarrow> i = pending \<and> i \<in> set (er_pending r) \<and> i \<notin> set (er_pending r') \<and> i \<in> set (er_scopes r') \<and>
        (\<exists>s. mget (er_objs r') i = Some s \<and> so_active s \<and> (Accounted (so_spec s) \<longleftrightarrow> ht_Accounted t) \<and>
           (ht_Accounted t \<longrightarrow> CredentialID (so_spec s) = ht_CredentialID t \<and> Model (so_spec s) = ht_Model t \<and>
              ht_CredentialID t \<noteq> [] \<and> length (ht_CredentialID t) \<le> 256 \<and>
              ht_Model t \<noteq> [] \<and> length (ht_Model t) \<le> 256 \<and> canonicalHomeConcurrencyModelKey (ht_Model t) = ht_Model t))
    | Inl e \<Rightarrow> e = MalformedHomeConcurrencyTuple \<longrightarrow> r' = r"
proof (cases res)
  case (Inl e)
  then show ?thesis using assms
    by (auto simp: installHomeConcurrencyScope_def registry_install_def split: if_splits prod.splits sum.splits)
next
  case (Inr i)
  have "\<exists>spec. Install pending spec r = (Inr i, r') \<and> (Accounted spec \<longleftrightarrow> ht_Accounted t) \<and>
      (ht_Accounted t \<longrightarrow> validateAccountedHomeConcurrencyTuple t \<and> CredentialID spec = ht_CredentialID t \<and> Model spec = ht_Model t)"
    using assms registry_install_Inr unfolding Inr installHomeConcurrencyScope_def
    by (fastforce split: if_splits)
  then obtain spec where s: "Install pending spec r = (Inr i, r')" "Accounted spec \<longleftrightarrow> ht_Accounted t"
    "ht_Accounted t \<longrightarrow> validateAccountedHomeConcurrencyTuple t \<and> CredentialID spec = ht_CredentialID t \<and> Model spec = ht_Model t"
    by blast
  show ?thesis using Install_Inr [OF s(1)] s(2,3) valid_tuple [of t] Inr by auto
qed

definition demo_tuple :: home_tuple where
  "demo_tuple = \<lparr>ht_Accounted = True, ht_CredentialID = ''cred'', ht_Model = ''gpt''\<rparr>"

definition demo_spec :: scope_spec where
  "demo_spec = \<lparr>RequestID = ''r'', CredentialID = [], Model = [], Kind = ''http'', StartedAt = 1, Accounted = False\<rparr>"

theorem home_scope_accounted_witness:
  "\<exists>s. mget (er_objs (snd (installHomeConcurrencyScope 1 demo_tuple demo_spec (snd (BeginDispatch New_registry))))) 1 = Some s \<and>
     Model (so_spec s) = ''gpt'' \<and> Accounted (so_spec s)"
proof -
  have "fst (installHomeConcurrencyScope 1 demo_tuple demo_spec (snd (BeginDispatch New_registry))) = Inr 1" by code_simp
  then have "installHomeConcurrencyScope 1 demo_tuple demo_spec (snd (BeginDispatch New_registry)) =
      (Inr 1, snd (installHomeConcurrencyScope 1 demo_tuple demo_spec (snd (BeginDispatch New_registry))))"
    by (metis prod.collapse)
  from home_scope_accounted [OF this] show ?thesis by (auto simp: demo_tuple_def)
qed

section \<open>Errors\<close>

text \<open>The header \<open>Retry-After\<close> of a refusal is the number of seconds to wait, rounded up: waiting that many
  seconds is never too short, and less than a second too long. It is at least one, and it reads back as
  the number it was printed from.\<close>

theorem retry_after_header:
  assumes "0 < d" "d \<le> MaxInt64"
  shows "\<exists>s n. SafeResponseHeaders (NewHomeConcurrencyBusyError message d) = Some s \<and> Atoi s = Some n \<and>
    1 \<le> n \<and> d \<le> n * Second \<and> n * Second < d + Second"
proof -
  define n where "n = (if d mod Second \<noteq> 0 then d div Second + 1 else d div Second)"
  have sec: "Second = 1000000000" by (simp add: Second_def)
  define q m where "q = d div Second" and "m = d mod Second"
  have d: "d = q * 1000000000 + m" "0 \<le> m" "m < 1000000000" by (simp_all add: q_def m_def sec)
  have n: "1 \<le> n" "d \<le> n * Second" "n * Second < d + Second" "n \<le> MaxInt64"
    using assms d unfolding n_def sec MaxInt64_def q_def [symmetric, unfolded sec] m_def [symmetric, unfolded sec]
    by (simp_all split: if_splits)
  then have "SafeResponseHeaders (NewHomeConcurrencyBusyError message d) = Some (show_nat (nat n))"
    using assms by (auto simp: SafeResponseHeaders_def NewHomeConcurrencyBusyError_def safeRetryAfterHeader_def Let_def n_def)
  moreover have "Atoi (show_nat (nat n)) = Some n" using Atoi_show_nat [of "nat n"] n by simp
  ultimately show ?thesis using n by blast
qed

theorem retry_after_header_witness:
  "\<exists>s n. SafeResponseHeaders (NewHomeConcurrencyBusyError [] 1500000000) = Some s \<and> Atoi s = Some n \<and> 1500000000 \<le> n * Second"
proof -
  have "\<exists>s n. SafeResponseHeaders (NewHomeConcurrencyBusyError [] 1500000000) = Some s \<and> Atoi s = Some n \<and>
      1 \<le> n \<and> 1500000000 \<le> n * Second \<and> n * Second < 1500000000 + Second"
    by (rule retry_after_header) (simp_all add: MaxInt64_def)
  then show ?thesis by blast
qed

section \<open>Keys\<close>

text \<open>The canonical form of a model key is not stable: of two recognised suffixes only the last is removed, and
  what is left is not canonical, so that a tuple that carries the key that was computed for such a model is
  refused as malformed.\<close>

theorem canonical_key_not_stable:
  "canonicalHomeConcurrencyModelKey ''m(high)(low)'' = ''m(high)'' \<and>
   canonicalHomeConcurrencyModelKey (canonicalHomeConcurrencyModelKey ''m(high)(low)'') = ''m'' \<and>
   \<not> validateAccountedHomeConcurrencyTuple
       \<lparr>ht_Accounted = True, ht_CredentialID = ''c'', ht_Model = canonicalHomeConcurrencyModelKey ''m(high)(low)''\<rparr>"
  by code_simp

end
