(* ===== verification/Upstream_Limit.thy ===== *)
theory Upstream_Limit
  imports Runtime_Config Auth_State
begin

text \<open>
  The limit of concurrent requests per provider (\<^verbatim>\<open>upstream_concurrency.go\<close>): limiters with a counting
  semaphore, the wait for a permit and its release. A limiter is an object: the map of limiters and the permits hold
  its index in \<open>ls_objs\<close>, and its channel is the number of its elements. A request is a number;
  the configuration may change between any two steps, as \<open>SetConfig\<close> does not wait for requests. Contexts are
  the steps that end a wait. Callers release a permit once, when the request has ended.
\<close>

section \<open>Limiters\<close>

record limiter =
  ul_key :: string
  ul_limit :: int
  ul_sem :: nat

record waiting_request =
  wr_request :: nat
  wr_limiter :: nat
  wr_timeout :: duration

record limit_state =
  ls_config :: upstream_concurrency_config
  ls_limiters :: "(string, nat) gomap"
  ls_objs :: "limiter list"
  ls_waiting :: "waiting_request list"
  ls_held :: "(nat \<times> nat) list"

definition provider_key :: "string \<Rightarrow> string" where
  "provider_key provider = ''provider:'' @ ToLower (TrimSpace provider)"

definition upstreamLimiterFor :: "string \<Rightarrow> int \<Rightarrow> limit_state \<Rightarrow> nat option \<times> limit_state" where
  "upstreamLimiterFor provider limit s =
     (if limit \<le> 0 \<or> ToLower (TrimSpace provider) = [] then (None, s)
      else
        let key = provider_key provider;
            fresh = (Some (length (ls_objs s)),
                     s\<lparr>ls_objs := ls_objs s @ [\<lparr>ul_key = key, ul_limit = limit, ul_sem = 0\<rparr>],
                       ls_limiters := mput key (length (ls_objs s)) (ls_limiters s)\<rparr>)
        in case mget (ls_limiters s) key of
             Some i \<Rightarrow> if ul_limit (ls_objs s ! i) = limit then (Some i, s) else fresh
           | None \<Rightarrow> fresh)"

section \<open>Permits\<close>

text \<open>\<open>acquireUpstreamConcurrency\<close> up to its select: the limiter to wait for, or no limit.\<close>

definition acquire_begin :: "nat \<Rightarrow> string \<Rightarrow> limit_state \<Rightarrow> limit_state" where
  "acquire_begin r provider s =
     (let limit = LimitForProvider (ls_config s) provider in
      if limit \<le> 0 then s
      else
        (case upstreamLimiterFor provider limit s of
           (None, s1) \<Rightarrow> s1
         | (Some i, s1) \<Rightarrow>
             s1\<lparr>ls_waiting := ls_waiting s1 @ [\<lparr>wr_request = r, wr_limiter = i, wr_timeout = QueueTimeout (ls_config s)\<rparr>]\<rparr>))"

text \<open>The three ways the select ends: the channel takes an element, the time is over, the request is cancelled.\<close>

definition send_ready :: "nat \<Rightarrow> limit_state \<Rightarrow> bool" where
  "send_ready i s \<longleftrightarrow> int (ul_sem (ls_objs s ! i)) < ul_limit (ls_objs s ! i)"

definition acquire_permit :: "waiting_request \<Rightarrow> limit_state \<Rightarrow> limit_state" where
  "acquire_permit w s =
     (let i = wr_limiter w; l = ls_objs s ! i
      in s\<lparr>ls_waiting := remove1 w (ls_waiting s), ls_held := (wr_request w, i) # ls_held s,
           ls_objs := (ls_objs s)[i := l\<lparr>ul_sem := ul_sem l + 1\<rparr>]\<rparr>)"

definition queue_timeout_error :: auth_error where
  "queue_timeout_error =
     \<lparr>ae_Code = ''upstream_concurrency_queue_timeout'', ae_Message = ''upstream concurrency queue timeout'',
      ae_Retryable = True, ae_HTTPStatus = 503\<rparr>"

definition acquire_fail :: "waiting_request \<Rightarrow> limit_state \<Rightarrow> limit_state" where
  "acquire_fail w s = s\<lparr>ls_waiting := remove1 w (ls_waiting s)\<rparr>"

text \<open>Taking an element from an empty channel is the branch that only logs.\<close>

definition permit_Release :: "nat \<times> nat \<Rightarrow> limit_state \<Rightarrow> limit_state" where
  "permit_Release p s =
     (let i = snd p; l = ls_objs s ! i
      in s\<lparr>ls_held := remove1 p (ls_held s),
           ls_objs := (if ul_sem l > 0 then (ls_objs s)[i := l\<lparr>ul_sem := ul_sem l - 1\<rparr>] else ls_objs s)\<rparr>)"

section \<open>Runs\<close>

definition new_limits :: "upstream_concurrency_config \<Rightarrow> limit_state" where
  "new_limits c = \<lparr>ls_config = c, ls_limiters = [], ls_objs = [], ls_waiting = [], ls_held = []\<rparr>"

text \<open>The steps that leave the configuration alone, and those that change it.\<close>

inductive limit_step :: "limit_state \<Rightarrow> limit_state \<Rightarrow> bool" where
  begin_request: "limit_step s (acquire_begin r provider s)"
| permit: "w \<in> set (ls_waiting s) \<Longrightarrow> send_ready (wr_limiter w) s \<Longrightarrow> limit_step s (acquire_permit w s)"
| timed_out: "w \<in> set (ls_waiting s) \<Longrightarrow> wr_timeout w > 0 \<Longrightarrow> limit_step s (acquire_fail w s)"
| cancelled: "w \<in> set (ls_waiting s) \<Longrightarrow> limit_step s (acquire_fail w s)"
| release: "p \<in> set (ls_held s) \<Longrightarrow> limit_step s (permit_Release p s)"

inductive reload_step :: "limit_state \<Rightarrow> limit_state \<Rightarrow> bool" where
  same_config: "limit_step s s' \<Longrightarrow> reload_step s s'"
| reload: "reload_step s (s\<lparr>ls_config := c\<rparr>)"

inductive_cases limit_stepE: "limit_step s s'"
inductive_cases reload_stepE: "reload_step s s'"

section \<open>Semaphores count the permits\<close>

definition permits_of :: "nat \<Rightarrow> limit_state \<Rightarrow> nat" where
  "permits_of i s = length (filter (\<lambda>p. snd p = i) (ls_held s))"

definition limiter_ok :: "limit_state \<Rightarrow> bool" where
  "limiter_ok s \<longleftrightarrow>
     (\<forall>i < length (ls_objs s). ul_sem (ls_objs s ! i) = permits_of i s \<and> 1 \<le> ul_limit (ls_objs s ! i) \<and>
        int (permits_of i s) \<le> ul_limit (ls_objs s ! i)) \<and>
     (\<forall>r i. (r, i) \<in> set (ls_held s) \<longrightarrow> i < length (ls_objs s)) \<and>
     (\<forall>w \<in> set (ls_waiting s). wr_limiter w < length (ls_objs s)) \<and>
     (\<forall>k i. mget (ls_limiters s) k = Some i \<longrightarrow> i < length (ls_objs s) \<and> ul_key (ls_objs s ! i) = k)"

lemma permits_remove: "p \<in> set h \<Longrightarrow> length (filter (\<lambda>q. snd q = i) (remove1 p h)) =
    length (filter (\<lambda>q. snd q = i) h) - (if snd p = i then 1 else 0)"
proof (induction h)
  case (Cons q h)
  then have "p \<in> set h \<Longrightarrow> snd p = i \<Longrightarrow> filter (\<lambda>q. snd q = i) h \<noteq> []" by (auto simp: filter_empty_conv)
  with Cons show ?case by (auto simp: neq_Nil_conv)
qed simp

lemma permits_pos: "p \<in> set (ls_held s) \<Longrightarrow> 0 < permits_of (snd p) s"
  by (auto simp: permits_of_def filter_empty_conv)

lemma fresh_permits: "limiter_ok s \<Longrightarrow> permits_of (length (ls_objs s)) s = 0"
  unfolding limiter_ok_def permits_of_def by (fastforce simp: filter_empty_conv)

lemma sem_update_key [simp]: "ul_key (objs[i := (objs ! i)\<lparr>ul_sem := n\<rparr>] ! j) = ul_key (objs ! j)"
  by (cases "length objs \<le> i") (auto simp: nth_list_update list_update_beyond)

lemma sem_update_limit [simp]: "ul_limit (objs[i := (objs ! i)\<lparr>ul_sem := n\<rparr>] ! j) = ul_limit (objs ! j)"
  by (cases "length objs \<le> i") (auto simp: nth_list_update list_update_beyond)

lemma limiter_ok_for:
  assumes "limiter_ok s" "upstreamLimiterFor provider limit s = (x, s')"
  shows "limiter_ok s' \<and> ls_held s' = ls_held s \<and> ls_waiting s' = ls_waiting s \<and> ls_config s' = ls_config s \<and>
    (\<forall>i. x = Some i \<longrightarrow> i < length (ls_objs s') \<and> mget (ls_limiters s') (provider_key provider) = Some i \<and>
       ul_limit (ls_objs s' ! i) = limit)"
  using assms fresh_permits [OF assms(1)]
  by (auto simp: upstreamLimiterFor_def Let_def limiter_ok_def permits_of_def nth_append less_Suc_eq
      split: if_splits option.splits dest: order.strict_implies_not_eq)

lemma limiter_ok_wait:
  assumes "limiter_ok s" "wr_limiter w < length (ls_objs s)"
  shows "limiter_ok (s\<lparr>ls_waiting := ls_waiting s @ [w]\<rparr>)"
  using assms by (simp add: limiter_ok_def permits_of_def)

lemma limiter_ok_begin:
  assumes "limiter_ok s"
  shows "limiter_ok (acquire_begin r provider s)"
proof -
  obtain x s1 where u: "upstreamLimiterFor provider (LimitForProvider (ls_config s) provider) s = (x, s1)" by fastforce
  from limiter_ok_for [OF assms u] limiter_ok_wait [of s1] assms show ?thesis
    by (simp add: acquire_begin_def Let_def u split: option.splits)
qed

lemma limiter_ok_permit:
  assumes "limiter_ok s" "w \<in> set (ls_waiting s)" "send_ready (wr_limiter w) s"
  shows "limiter_ok (acquire_permit w s)"
  using assms by (auto simp: acquire_permit_def Let_def limiter_ok_def permits_of_def send_ready_def nth_list_update
      dest: notin_set_remove1 set_remove1_subset [THEN subsetD])

lemma limiter_ok_fail: "limiter_ok s \<Longrightarrow> limiter_ok (acquire_fail w s)"
  by (auto simp: acquire_fail_def limiter_ok_def permits_of_def dest: set_remove1_subset [THEN subsetD])

lemma limiter_ok_release:
  assumes "limiter_ok s" "p \<in> set (ls_held s)"
  shows "limiter_ok (permit_Release p s)"
  using assms permits_pos [OF assms(2)]
  by (auto simp: permit_Release_def Let_def limiter_ok_def permits_of_def nth_list_update permits_remove
      dest: set_remove1_subset [THEN subsetD])

lemma limiter_ok_step: "limit_step s s' \<Longrightarrow> limiter_ok s \<Longrightarrow> limiter_ok s'"
  by (erule limit_stepE) (simp_all add: limiter_ok_begin limiter_ok_permit limiter_ok_fail limiter_ok_release)

lemma limiter_ok_new: "limiter_ok (new_limits c)"
  by (simp add: limiter_ok_def new_limits_def)

lemma limiter_ok_reload: "reload_step\<^sup>*\<^sup>* (new_limits c) s \<Longrightarrow> limiter_ok s"
proof (induction rule: rtranclp_induct)
  case base
  then show ?case by (rule limiter_ok_new)
next
  case (step s s')
  have "limiter_ok t \<Longrightarrow> limiter_ok (t\<lparr>ls_config := c\<rparr>)" for t c by (simp add: limiter_ok_def permits_of_def)
  with step limiter_ok_step show ?case by (auto elim: reload_stepE)
qed

text \<open>C18: The semaphore of a limiter counts its permits, also across changes of the configuration: it never
  exceeds the limit it was made with, releasing a permit always finds an element to take, and a request that waits
  for a limiter none of whose permits is held can go on.\<close>

theorem permits_counted:
  assumes "reload_step\<^sup>*\<^sup>* (new_limits c) s"
  shows "(\<forall>i < length (ls_objs s). ul_sem (ls_objs s ! i) = permits_of i s \<and> int (permits_of i s) \<le> ul_limit (ls_objs s ! i)) \<and>
    (\<forall>p \<in> set (ls_held s). snd p < length (ls_objs s) \<and> 0 < ul_sem (ls_objs s ! snd p)) \<and>
    (\<forall>w \<in> set (ls_waiting s). permits_of (wr_limiter w) s = 0 \<longrightarrow> limit_step s (acquire_permit w s))"
proof -
  have ok: "limiter_ok s" by (rule limiter_ok_reload [OF assms])
  have "\<forall>p \<in> set (ls_held s). snd p < length (ls_objs s) \<and> 0 < ul_sem (ls_objs s ! snd p)"
  proof
    fix p assume p: "p \<in> set (ls_held s)"
    obtain r i where "p = (r, i)" by fastforce
    with ok p have "snd p < length (ls_objs s)" unfolding limiter_ok_def by (metis snd_conv)
    moreover from this ok have "ul_sem (ls_objs s ! snd p) = permits_of (snd p) s" unfolding limiter_ok_def by blast
    ultimately show "snd p < length (ls_objs s) \<and> 0 < ul_sem (ls_objs s ! snd p)" using permits_pos [OF p] by simp
  qed
  moreover have "\<forall>w \<in> set (ls_waiting s). permits_of (wr_limiter w) s = 0 \<longrightarrow> limit_step s (acquire_permit w s)"
    using ok by (auto simp: limiter_ok_def send_ready_def intro!: limit_step.permit)
  ultimately show ?thesis using ok unfolding limiter_ok_def by blast
qed

section \<open>The limit of a provider\<close>

definition in_flight :: "string \<Rightarrow> limit_state \<Rightarrow> nat" where
  "in_flight provider s = length (filter (\<lambda>p. ul_key (ls_objs s ! snd p) = provider_key provider) (ls_held s))"

definition one_limiter :: "upstream_concurrency_config \<Rightarrow> limit_state \<Rightarrow> bool" where
  "one_limiter c s \<longleftrightarrow> ls_config s = c \<and>
     (\<forall>i < length (ls_objs s). mget (ls_limiters s) (ul_key (ls_objs s ! i)) = Some i \<and>
        (\<exists>provider. ul_key (ls_objs s ! i) = provider_key provider \<and> ul_limit (ls_objs s ! i) = LimitForProvider c provider))"

lemma LimitForProvider_key: "provider_key p = provider_key q \<Longrightarrow> LimitForProvider c p = LimitForProvider c q"
  by (simp add: provider_key_def LimitForProvider_def Let_def)

lemma one_limiter_begin:
  assumes "one_limiter c s" "limiter_ok s"
  shows "one_limiter c (acquire_begin r provider s)"
proof -
  let ?l = "LimitForProvider c provider" and ?k = "provider_key provider"
  have c: "ls_config s = c" using assms(1) by (simp add: one_limiter_def)
  have hit: "ul_limit (ls_objs s ! i) = ?l" if "mget (ls_limiters s) ?k = Some i" for i
  proof -
    have i: "i < length (ls_objs s)" "ul_key (ls_objs s ! i) = ?k" using assms(2) that by (auto simp: limiter_ok_def)
    then obtain q where "?k = provider_key q" "ul_limit (ls_objs s ! i) = LimitForProvider c q"
      using assms(1) unfolding one_limiter_def by metis
    then show ?thesis using LimitForProvider_key by metis
  qed
  have miss: "mget (ls_limiters s) ?k = None \<Longrightarrow> i < length (ls_objs s) \<Longrightarrow> ul_key (ls_objs s ! i) \<noteq> ?k" for i
    using assms(1) by (auto simp: one_limiter_def)
  show ?thesis using assms(1) hit miss
    by (auto simp: one_limiter_def acquire_begin_def upstreamLimiterFor_def Let_def c nth_append less_Suc_eq split: option.splits)
qed

lemma one_limiter_step: "limit_step s s' \<Longrightarrow> one_limiter c s \<Longrightarrow> limiter_ok s \<Longrightarrow> one_limiter c s'"
  by (erule limit_stepE)
    (auto simp: one_limiter_begin, auto simp: one_limiter_def acquire_permit_def acquire_fail_def permit_Release_def Let_def)

lemma one_limiter_run: "limit_step\<^sup>*\<^sup>* (new_limits c) s \<Longrightarrow> limiter_ok s \<and> one_limiter c s"
proof (induction rule: rtranclp_induct)
  case base
  show ?case using limiter_ok_new by (simp add: one_limiter_def new_limits_def)
next
  case (step s s')
  then show ?case using limiter_ok_step one_limiter_step by blast
qed


section \<open>Runs with requests in flight\<close>

definition demo_limits :: "int \<Rightarrow> upstream_concurrency_config" where
  "demo_limits n = \<lparr>uc_Default = n, uc_Providers = [], uc_QueueTimeoutSeconds = 0\<rparr>"

definition demo_acquire :: "nat \<Rightarrow> limit_state \<Rightarrow> limit_state" where
  "demo_acquire r s = acquire_begin r '' Codex'' s"

definition demo_start :: "limit_state \<Rightarrow> limit_state" where
  "demo_start s = acquire_permit (hd (ls_waiting s)) s"

lemma demo_start_step: "ls_waiting s \<noteq> [] \<and> send_ready (wr_limiter (hd (ls_waiting s))) s \<Longrightarrow> limit_step s (demo_start s)"
  unfolding demo_start_def by (rule limit_step.permit) auto

lemma demo_acquire_step: "limit_step s (demo_acquire r s)"
  unfolding demo_acquire_def by (rule limit_step.begin_request)

definition demo_first :: limit_state where
  "demo_first = demo_start (demo_acquire 1 (new_limits (demo_limits 1)))"

lemma demo_first_run: "limit_step\<^sup>*\<^sup>* (new_limits (demo_limits 1)) demo_first"
proof -
  have "limit_step (demo_acquire 1 (new_limits (demo_limits 1))) demo_first"
    unfolding demo_first_def by (rule demo_start_step) code_simp
  then show ?thesis using demo_acquire_step by (meson r_into_rtranclp rtranclp.rtrancl_into_rtrancl)
qed


definition demo_second :: limit_state where
  "demo_second = demo_start (demo_start (demo_acquire 3 (demo_acquire 2 (demo_first\<lparr>ls_config := demo_limits 2\<rparr>))))"

lemma demo_second_run: "reload_step\<^sup>*\<^sup>* (new_limits (demo_limits 1)) demo_second"
proof -
  let ?a = "demo_first\<lparr>ls_config := demo_limits 2\<rparr>"
  let ?b = "demo_acquire 3 (demo_acquire 2 ?a)"
  have "reload_step\<^sup>*\<^sup>* (new_limits (demo_limits 1)) demo_first"
    using demo_first_run by (rule rtranclp_mono [THEN predicate2D, rotated]) (auto intro: reload_step.same_config)
  moreover have "reload_step demo_first ?a" by (rule reload_step.reload)
  moreover have "reload_step ?a (demo_acquire 2 ?a)" "reload_step (demo_acquire 2 ?a) ?b"
    by (rule reload_step.same_config, rule demo_acquire_step)+
  moreover have "reload_step ?b (demo_start ?b)"
    by (rule reload_step.same_config, rule demo_start_step) code_simp
  moreover have "reload_step (demo_start ?b) demo_second"
    unfolding demo_second_def by (rule reload_step.same_config, rule demo_start_step) code_simp
  ultimately show ?thesis by (meson rtranclp.rtrancl_into_rtrancl)
qed

theorem permits_counted_witness:
  "ul_sem (ls_objs demo_second ! 1) = permits_of 1 demo_second \<and> permits_of 1 demo_second = 2"
proof -
  have "length (ls_objs demo_second) = 2" "permits_of 1 demo_second = 2" by code_simp+
  with permits_counted [OF demo_second_run] show ?thesis by auto
qed

text \<open>A change of the limit does not carry the requests in flight over: the limiter of the new limit starts
  empty, so that with a limit of two, raised from one, three requests of the provider are in flight.\<close>

theorem limit_exceeded_after_reload:
  "\<exists>s. reload_step\<^sup>*\<^sup>* (new_limits (demo_limits 1)) s \<and> LimitForProvider (ls_config s) ''codex'' = 2 \<and> in_flight ''codex'' s = 3"
proof (intro exI conjI)
  show "reload_step\<^sup>*\<^sup>* (new_limits (demo_limits 1)) demo_second" by (rule demo_second_run)
  show "LimitForProvider (ls_config demo_second) ''codex'' = 2" "in_flight ''codex'' demo_second = 3" by code_simp+
qed

end
