(* ===== verification/Cooldown_Records.thy ===== *)
theory Cooldown_Records
  imports Mark_Result
begin

text \<open>
  Clearing cool-downs, reconciling model states with the registry, and the records by which
  cool-downs survive a restart: \<^verbatim>\<open>conductor_cooldown.go\<close>, \<^verbatim>\<open>cooldown_state.go\<close> (the record) and
  \<open>ReconcileRegistryModelStates\<close> of \<^verbatim>\<open>conductor_selection.go\<close>, on one credential. Each operation
  returns whether it changed the credential.
\<close>

section \<open>Clearing\<close>

definition has_cooldown :: "bool \<Rightarrow> time \<Rightarrow> quota_state \<Rightarrow> bool" where
  "has_cooldown unavailable nextRetryAfter q \<longleftrightarrow>
     unavailable \<or> \<not> IsZero nextRetryAfter \<or> q_Exceeded q \<or> \<not> IsZero (q_NextRecoverAt q)"

definition state_has_cooldown :: "model_state option \<Rightarrow> bool" where
  "state_has_cooldown state0 \<longleftrightarrow>
     (case state0 of
        None \<Rightarrow> False
      | Some state \<Rightarrow> has_cooldown (ms_Unavailable state) (ms_NextRetryAfter state) (ms_Quota state))"

definition clear_state :: "time \<Rightarrow> model_state option \<Rightarrow> model_state option" where
  "clear_state now state0 =
     (if state_has_cooldown state0
      then map_option (\<lambda>state. state\<lparr>ms_Unavailable := False, ms_NextRetryAfter := zero_time, ms_Quota := zero_quota,
                                     ms_UpdatedAt := now\<rparr>) state0
      else state0)"

definition clearCooldownStateForAuth :: "time \<Rightarrow> auth \<Rightarrow> bool \<times> auth" where
  "clearCooldownStateForAuth now a =
     (let own = has_cooldown (auth_Unavailable a) (auth_NextRetryAfter a) (auth_Quota a);
          a1 = (if own then a\<lparr>auth_Unavailable := False, auth_NextRetryAfter := zero_time, auth_Quota := zero_quota,
                              auth_UpdatedAt := now\<rparr> else a);
          changed = (own \<or> list_ex (\<lambda>(_, state). state_has_cooldown state) (auth_ModelStates a));
          a2 = a1\<lparr>auth_ModelStates := map (\<lambda>(k, state). (k, clear_state now state)) (auth_ModelStates a)\<rparr>
      in (changed, if auth_ModelStates a2 \<noteq> [] then updateAggregatedAvailability a2 now else a2))"

fun dedup_trimmed :: "string list \<Rightarrow> string list \<Rightarrow> string list" where
  "dedup_trimmed seen [] = []"
| "dedup_trimmed seen (value # values) =
     (let v = TrimSpace value in
      if v = [] \<or> v \<in> set seen then dedup_trimmed seen values
      else v # dedup_trimmed (v # seen) values)"

definition dedupeStrings :: "string list \<Rightarrow> string list" where
  "dedupeStrings values = (if length values < 2 then values else dedup_trimmed [] values)"

definition reset_states :: "time \<Rightarrow> auth \<Rightarrow> auth" where
  "reset_states now a =
     a\<lparr>auth_ModelStates := map (\<lambda>(modelKey, state).
         (modelKey, if TrimSpace modelKey = [] then state else map_option (\<lambda>st. resetModelState st now) state))
       (auth_ModelStates a)\<rparr>"

text \<open>The critical section of \<open>ResetQuota\<close>: the credential and the models to resume in the registry.\<close>

definition reset_quota_auth :: "string list \<Rightarrow> time \<Rightarrow> auth \<Rightarrow> auth \<times> string list" where
  "reset_quota_auth registeredModels now a =
     (let models0 = filter (\<lambda>modelKey. TrimSpace modelKey \<noteq> []) (map fst (auth_ModelStates a));
          (cleared, a1) = clearCooldownStateForAuth now (reset_states now a);
          a2 = (if \<not> cleared \<and> auth_ModelStates a1 \<noteq> [] then updateAggregatedAvailability a1 now else a1);
          models = (if models0 = [] then registeredModels else models0);
          a3 = (if \<not> auth_Disabled a2 \<and> auth_Status a2 \<noteq> StatusDisabled \<and> \<not> hasModelError a2 now
                then clear_error a2 else a2)
      in (a3\<lparr>auth_UpdatedAt := now\<rparr>, dedupeStrings models))"

section \<open>Reconciliation with the registry\<close>

definition reconcile_states ::
  "model_lookup \<Rightarrow> string list \<Rightarrow> time \<Rightarrow> (string, model_state option) gomap \<Rightarrow> bool \<times> (string, model_state option) gomap" where
  "reconcile_states lookup supported now states =
     (list_ex (\<lambda>(k, state). normal_key lookup k \<notin> set supported \<or> \<not> modelStateIsClean state) states,
      map (\<lambda>(k, state). (k, if modelStateIsClean state then state else map_option (\<lambda>st. resetModelState st now) state))
        (filter (\<lambda>(k, _). normal_key lookup k \<in> set supported) states))"

definition reconcile_auth :: "model_lookup \<Rightarrow> string list \<Rightarrow> time \<Rightarrow> auth \<Rightarrow> bool \<times> auth" where
  "reconcile_auth lookup supported now a =
     (if auth_ModelStates a = [] then (False, a)
      else
        (case reconcile_states lookup supported now (auth_ModelStates a) of
           (changed, states) \<Rightarrow>
             if \<not> changed then (False, a)
             else
               let a1 = updateAggregatedAvailability (a\<lparr>auth_ModelStates := states\<rparr>) now;
                   a2 = (if \<not> hasModelError a1 now then clear_error a1 else a1)
               in (True, a2\<lparr>auth_UpdatedAt := now\<rparr>)))"

section \<open>Records\<close>

record cooldown_record =
  cr_Provider :: string
  cr_AuthID :: string
  cr_AuthFile :: string
  cr_Model :: string
  cr_Status :: string
  cr_NextRetryAfter :: time
  cr_Reason :: string
  cr_Quota :: quota_state
  cr_LastError :: "auth_error option"
  cr_UpdatedAt :: time

definition cooldownAuthFile :: "auth \<Rightarrow> string" where
  "cooldownAuthFile a =
     (let path = TrimSpace (attribute_value (auth_Attributes a) ''path'')
      in if path \<noteq> [] then path else TrimSpace (auth_FileName a))"

definition cooldownReason :: "string \<Rightarrow> quota_state \<Rightarrow> auth_error option \<Rightarrow> string" where
  "cooldownReason statusMessage quota lastErr =
     (let reason = TrimSpace (q_Reason quota);
          message = TrimSpace statusMessage
      in if reason \<noteq> [] then reason
         else if message \<noteq> [] then message
         else
           (case lastErr of
              None \<Rightarrow> []
            | Some e \<Rightarrow> if TrimSpace (ae_Code e) \<noteq> [] then TrimSpace (ae_Code e) else TrimSpace (ae_Message e)))"

definition authCooldownStateRecord :: "auth \<Rightarrow> time \<Rightarrow> cooldown_record option" where
  "authCooldownStateRecord a now =
     (if \<not> auth_Unavailable a \<or> IsZero (auth_NextRetryAfter a) \<or> \<not> auth_NextRetryAfter a > now then None
      else Some \<lparr>cr_Provider = TrimSpace (auth_Provider a), cr_AuthID = auth_ID a, cr_AuthFile = cooldownAuthFile a,
                 cr_Model = [], cr_Status = ''cooling'', cr_NextRetryAfter = auth_NextRetryAfter a,
                 cr_Reason = cooldownReason (auth_StatusMessage a) (auth_Quota a) (auth_LastError a),
                 cr_Quota = auth_Quota a, cr_LastError = auth_LastError a, cr_UpdatedAt = auth_UpdatedAt a\<rparr>)"

definition modelCooldownStateRecord :: "auth \<Rightarrow> time \<Rightarrow> string \<times> model_state option \<Rightarrow> cooldown_record option" where
  "modelCooldownStateRecord a now entry =
     (case entry of
        (_, None) \<Rightarrow> None
      | (model0, Some state) \<Rightarrow>
          let model = TrimSpace model0 in
          if model = [] \<or> \<not> ms_Unavailable state \<or> IsZero (ms_NextRetryAfter state) \<or> \<not> ms_NextRetryAfter state > now then None
          else Some \<lparr>cr_Provider = TrimSpace (auth_Provider a), cr_AuthID = auth_ID a, cr_AuthFile = cooldownAuthFile a,
                     cr_Model = model, cr_Status = ''cooling'', cr_NextRetryAfter = ms_NextRetryAfter state,
                     cr_Reason = cooldownReason (ms_StatusMessage state) (ms_Quota state) (ms_LastError state),
                     cr_Quota = ms_Quota state, cr_LastError = ms_LastError state, cr_UpdatedAt = ms_UpdatedAt state\<rparr>)"

definition cooldownStateRecordsForAuthLocked :: "cooling_env \<Rightarrow> auth \<Rightarrow> time \<Rightarrow> cooldown_record list" where
  "cooldownStateRecordsForAuthLocked env a now =
     (if auth_ID a = [] \<or> auth_Disabled a \<or> auth_Status a = StatusDisabled \<or> cooldownDisabledForAuth env a then []
      else sort_key cr_Model
             (List.map_filter id
               (authCooldownStateRecord a now # map (modelCooldownStateRecord a now) (auth_ModelStates a))))"

definition cooldownQuotaEqual :: "quota_state \<Rightarrow> quota_state \<Rightarrow> bool" where
  "cooldownQuotaEqual a b \<longleftrightarrow>
     q_Exceeded a = q_Exceeded b \<and> q_Reason a = q_Reason b \<and> q_BackoffLevel a = q_BackoffLevel b \<and>
     q_NextRecoverAt a = q_NextRecoverAt b"

definition cooldownErrorEqual :: "auth_error option \<Rightarrow> auth_error option \<Rightarrow> bool" where
  "cooldownErrorEqual a0 b0 =
     (case (a0, b0) of
        (Some a, Some b) \<Rightarrow>
          ae_Code a = ae_Code b \<and> ae_Message a = ae_Message b \<and> ae_Retryable a = ae_Retryable b \<and>
          ae_HTTPStatus a = ae_HTTPStatus b
      | _ \<Rightarrow> a0 = None \<and> b0 = None)"

definition cooldownStateRecordEqual :: "cooldown_record \<Rightarrow> cooldown_record \<Rightarrow> bool" where
  "cooldownStateRecordEqual a b \<longleftrightarrow>
     cr_Provider a = cr_Provider b \<and> cr_AuthID a = cr_AuthID b \<and> cr_AuthFile a = cr_AuthFile b \<and>
     cr_Model a = cr_Model b \<and> cr_Status a = cr_Status b \<and> cr_Reason a = cr_Reason b \<and>
     cr_NextRetryAfter a = cr_NextRetryAfter b \<and> cr_UpdatedAt a = cr_UpdatedAt b \<and>
     cooldownQuotaEqual (cr_Quota a) (cr_Quota b) \<and> cooldownErrorEqual (cr_LastError a) (cr_LastError b)"

definition cooldownStateRecordsEqual :: "cooldown_record list \<Rightarrow> cooldown_record list \<Rightarrow> bool" where
  "cooldownStateRecordsEqual as bs \<longleftrightarrow> list_all2 cooldownStateRecordEqual as bs"

section \<open>Restoring\<close>

definition restored_state :: "cooldown_record \<Rightarrow> quota_state \<Rightarrow> time \<Rightarrow> model_state" where
  "restored_state rec quota updatedAt =
     \<lparr>ms_Status = StatusError, ms_StatusMessage = TrimSpace (cr_Reason rec), ms_Unavailable = True,
      ms_NextRetryAfter = cr_NextRetryAfter rec, ms_LastError = cr_LastError rec, ms_Quota = quota,
      ms_UpdatedAt = updatedAt\<rparr>"

text \<open>\<open>restoreCooldownRecordLocked\<close> on the credential the record names.\<close>

definition restore_record :: "model_lookup \<Rightarrow> cooling_env \<Rightarrow> cooldown_record \<Rightarrow> time \<Rightarrow> auth \<Rightarrow> bool \<times> auth" where
  "restore_record lookup env rec now a =
     (if TrimSpace (cr_AuthID rec) = [] \<or> IsZero (cr_NextRetryAfter rec) \<or> \<not> cr_NextRetryAfter rec > now then (False, a)
      else if auth_Disabled a \<or> auth_Status a = StatusDisabled \<or> cooldownDisabledForAuth env a then (False, a)
      else
        let updatedAt = (if IsZero (cr_UpdatedAt rec) then now else cr_UpdatedAt rec);
            reason = TrimSpace (cr_Reason rec);
            model = TrimSpace (cr_Model rec);
            q = cr_Quota rec;
            quota = (if q_Exceeded q \<and> IsZero (q_NextRecoverAt q) then q\<lparr>q_NextRecoverAt := cr_NextRetryAfter rec\<rparr> else q)
        in if model = [] then
             (True, a\<lparr>auth_Unavailable := True, auth_Status := StatusError, auth_NextRetryAfter := cr_NextRetryAfter rec,
                      auth_Quota := quota, auth_UpdatedAt := updatedAt,
                      auth_StatusMessage := (if reason \<noteq> [] then reason else auth_StatusMessage a),
                      auth_LastError := cr_LastError rec\<rparr>)
           else
             (case ensureModelState lookup model a of
                (None, a1) \<Rightarrow> (True, updateAggregatedAvailability a1 now)
              | (Some st, a1) \<Rightarrow>
                  (case mergeModelState (Some st) (Some (restored_state rec quota updatedAt)) of
                     None \<Rightarrow> (True, updateAggregatedAvailability a1 now)
                   | Some st1 \<Rightarrow> (True, updateAggregatedAvailability (set_model_state lookup model st1 a1) now))))"

end
