(* ===== verification/Manager.thy ===== *)
theory Manager
  imports Cooldown_Records Scheduler
begin

text \<open>
  The manager as far as it keeps credentials and tells the scheduler and the registry about them:
  \<^verbatim>\<open>conductor_lifecycle.go\<close>, the results and cool-downs of \<^verbatim>\<open>conductor_cooldown.go\<close>, and the
  synchronisation of \<^verbatim>\<open>conductor_selection.go\<close>.

  \<open>mgr_auths\<close> is \<open>m.auths\<close>; its writers never store nil. A credential that \<open>Register\<close> stores and the
  one it hands to the scheduler are the same object in the code; the scheduler only reads the
  fields that later writers publish by another upsert, so copies behave alike as soon as that has happened;
  until then the theorems claim nothing of the state of the scheduler's copy (the stale ids of \<^verbatim>\<open>Manager_Restore\<close>).
  Persisting, hooks, error events, model aliases, the refresh loop and the run-time credentials of the
  home service are left out. \<open>now\<close> is the reading of the clock in the critical section; the scheduler
  and the registry read the clock again afterwards (\<open>nowS\<close>, \<open>nowR\<close>, or \<open>clk n\<close> for the n-th upsert of a
  loop).
\<close>

record manager =
  mgr_auths :: "(string, auth) gomap"
  mgr_scheduler :: auth_scheduler
  mgr_registry :: model_registry
  mgr_env :: cooling_env

definition NewManager :: "selector_type \<Rightarrow> cooling_env \<Rightarrow> model_registry \<Rightarrow> manager" where
  "NewManager selector env reg =
     \<lparr>mgr_auths = [],
      mgr_scheduler = newAuthScheduler (if selector = NilSelector then RoundRobinSelector else selector),
      mgr_registry = reg,
      mgr_env = env\<lparr>ce_config := Some zero_config\<rparr>\<rparr>"

text \<open>A snapshot handed to the scheduler; a loop over several.\<close>

definition publish :: "model_lookup \<Rightarrow> time \<Rightarrow> auth \<Rightarrow> manager \<Rightarrow> manager" where
  "publish lookup nowS a mgr =
     mgr\<lparr>mgr_scheduler := upsertAuth lookup (mgr_registry mgr) (Some a) nowS (mgr_scheduler mgr)\<rparr>"

fun publish_all :: "model_lookup \<Rightarrow> (nat \<Rightarrow> time) \<Rightarrow> nat \<Rightarrow> auth list \<Rightarrow> manager \<Rightarrow> manager" where
  "publish_all lookup clk n [] mgr = mgr"
| "publish_all lookup clk n (a # as) mgr = publish_all lookup clk (Suc n) as (publish lookup (clk n) a mgr)"

definition store_auth :: "auth \<Rightarrow> manager \<Rightarrow> manager" where
  "store_auth a mgr = mgr\<lparr>mgr_auths := mput (auth_ID a) a (mgr_auths mgr)\<rparr>"

section \<open>Results\<close>

text \<open>The critical section of \<open>MarkResult\<close>: the credential changes, and its snapshot is taken.\<close>

definition mark_locked ::
  "model_lookup \<Rightarrow> result \<Rightarrow> time \<Rightarrow> manager \<Rightarrow> (auth \<times> registry_report) option \<times> manager" where
  "mark_locked lookup res now mgr =
     (case mget (mgr_auths mgr) (res_AuthID res) of
        None \<Rightarrow> (None, mgr)
      | Some a \<Rightarrow>
          let marked = mark_auth lookup (mgr_env mgr) res now a
          in (Some marked, mgr\<lparr>mgr_auths := mput (res_AuthID res) (fst marked) (mgr_auths mgr)\<rparr>))"

definition report_registry :: "string \<Rightarrow> string \<Rightarrow> registry_report \<Rightarrow> time \<Rightarrow> model_registry \<Rightarrow> model_registry" where
  "report_registry authID modelKey rep nowR reg =
     (let reg1 = (if rr_resume rep \<and> modelKey \<noteq> [] then ClearModelQuotaExceeded authID modelKey reg else reg);
          reg2 = (if rr_setQuota rep \<and> modelKey \<noteq> [] then SetModelQuotaExceeded authID modelKey nowR reg1 else reg1)
      in if rr_resume rep then ResumeClientModel authID modelKey nowR reg2
         else
           (case rr_suspend rep of
              None \<Rightarrow> reg2
            | Some reason \<Rightarrow> SuspendClientModel authID modelKey reason nowR reg2))"

definition MarkResult :: "model_lookup \<Rightarrow> result \<Rightarrow> time \<Rightarrow> time \<Rightarrow> time \<Rightarrow> manager \<Rightarrow> manager" where
  "MarkResult lookup res now nowS nowR mgr =
     (if res_AuthID res = [] then mgr
      else
        (case mark_locked lookup res now mgr of
           (None, mgr1) \<Rightarrow> mgr1
         | (Some (snapshot, rep), mgr1) \<Rightarrow>
             let mgr2 = publish lookup nowS snapshot mgr1
             in mgr2\<lparr>mgr_registry :=
                       report_registry (res_AuthID res) (canonicalModelKey lookup (res_Model res)) rep nowR (mgr_registry mgr2)\<rparr>))"

definition recordAvailabilityNeutralResult :: "result \<Rightarrow> time \<Rightarrow> manager \<Rightarrow> manager" where
  "recordAvailabilityNeutralResult res now mgr =
     (if res_AuthID res = [] then mgr
      else
        (case mget (mgr_auths mgr) (res_AuthID res) of
           None \<Rightarrow> mgr
         | Some a \<Rightarrow> mgr\<lparr>mgr_auths := mput (res_AuthID res) (count_request (res_Success res) now a) (mgr_auths mgr)\<rparr>))"

section \<open>Life cycle of credentials\<close>

text \<open>What \<open>Register\<close> and \<open>Update\<close> do to the states of the credential they store.\<close>

definition admit :: "model_lookup \<Rightarrow> cooling_env \<Rightarrow> time \<Rightarrow> auth \<Rightarrow> auth" where
  "admit lookup env now a =
     (let a1 = snd (normalizeModelStates lookup a)
      in if cooldownDisabledForAuth env a1 \<or> auth_Disabled a1 \<or> auth_Status a1 = StatusDisabled
         then snd (clearCooldownStateForAuth now a1) else a1)"

text \<open>\<open>newID\<close> is the identifier that \<open>uuid.NewString\<close> returns for a credential without one.\<close>

definition Register ::
  "model_lookup \<Rightarrow> string \<Rightarrow> auth option \<Rightarrow> time \<Rightarrow> time \<Rightarrow> manager \<Rightarrow> (weight_error + auth option) \<times> manager" where
  "Register lookup newID auth0 now nowS mgr =
     (case auth0 of
        None \<Rightarrow> (Inr None, mgr)
      | Some a0 \<Rightarrow>
          (case ValidateAuthWeight auth0 of
             Some err \<Rightarrow> (Inl err, mgr)
           | None \<Rightarrow>
               let a1 = (if auth_ID a0 = [] then a0\<lparr>auth_ID := newID\<rparr> else a0);
                   a = admit lookup (mgr_env mgr) now a1
               in (Inr (Some a), publish lookup nowS a (store_auth a mgr))))"

definition inherit_state :: "auth \<Rightarrow> auth \<Rightarrow> auth" where
  "inherit_state existing a =
     (let a1 = a\<lparr>auth_Success := auth_Success existing, auth_Failed := auth_Failed existing,
                 auth_recentRequests := auth_recentRequests existing\<rparr>
      in if \<not> auth_Disabled existing \<and> auth_Status existing \<noteq> StatusDisabled \<and> \<not> auth_Disabled a1 \<and>
            auth_Status a1 \<noteq> StatusDisabled \<and> auth_ModelStates a1 = [] \<and> auth_ModelStates existing \<noteq> []
         then a1\<lparr>auth_ModelStates := auth_ModelStates existing\<rparr> else a1)"

definition Update ::
  "model_lookup \<Rightarrow> auth option \<Rightarrow> time \<Rightarrow> time \<Rightarrow> manager \<Rightarrow> (weight_error + auth option) \<times> manager" where
  "Update lookup auth0 now nowS mgr =
     (case auth0 of
        None \<Rightarrow> (Inr None, mgr)
      | Some a0 \<Rightarrow>
          if auth_ID a0 = [] then (Inr None, mgr)
          else
            (case ValidateAuthWeight auth0 of
               Some err \<Rightarrow> (Inl err, mgr)
             | None \<Rightarrow>
                 (case mget (mgr_auths mgr) (auth_ID a0) of
                    None \<Rightarrow> (Inr None, mgr)
                  | Some existing \<Rightarrow>
                      let a = admit lookup (mgr_env mgr) now (inherit_state existing a0)
                      in (Inr (Some a), publish lookup nowS a (store_auth a mgr)))))"

definition Remove :: "string \<Rightarrow> manager \<Rightarrow> manager" where
  "Remove i0 mgr =
     (let i = TrimSpace i0 in
      if i = [] then mgr
      else
        (case mget (mgr_auths mgr) i of
           None \<Rightarrow> mgr
         | Some existing \<Rightarrow>
             mgr\<lparr>mgr_auths := mdel i (mgr_auths mgr), mgr_scheduler := removeAuth i (mgr_scheduler mgr)\<rparr>))"

definition snapshotAuths :: "manager \<Rightarrow> auth list" where
  "snapshotAuths mgr = map snd (mgr_auths mgr)"

definition syncScheduler :: "model_lookup \<Rightarrow> time \<Rightarrow> manager \<Rightarrow> manager" where
  "syncScheduler lookup nowS mgr =
     mgr\<lparr>mgr_scheduler := rebuild lookup (mgr_registry mgr) (map Some (snapshotAuths mgr)) nowS (mgr_scheduler mgr)\<rparr>"

text \<open>\<open>items\<close> is what the store lists.\<close>

definition load_items :: "auth option list \<Rightarrow> (string, auth) gomap" where
  "load_items items =
     fold (\<lambda>item auths. case item of
         None \<Rightarrow> auths
       | Some a \<Rightarrow> if auth_ID a = [] \<or> ValidateAuthWeight item \<noteq> None then auths else mput (auth_ID a) a auths)
       items []"

definition Load :: "model_lookup \<Rightarrow> auth option list \<Rightarrow> time \<Rightarrow> manager \<Rightarrow> manager" where
  "Load lookup items nowS mgr = syncScheduler lookup nowS (mgr\<lparr>mgr_auths := load_items items\<rparr>)"

definition SetSelector :: "model_lookup \<Rightarrow> selector_type \<Rightarrow> time \<Rightarrow> manager \<Rightarrow> manager" where
  "SetSelector lookup selector nowS mgr =
     syncScheduler lookup nowS
       (mgr\<lparr>mgr_scheduler := setSelector (if selector = NilSelector then RoundRobinSelector else selector) (mgr_scheduler mgr)\<rparr>)"

definition RefreshSchedulerEntry :: "model_lookup \<Rightarrow> string \<Rightarrow> time \<Rightarrow> manager \<Rightarrow> manager" where
  "RefreshSchedulerEntry lookup authID nowS mgr =
     (if authID = [] then mgr
      else (case mget (mgr_auths mgr) authID of None \<Rightarrow> mgr | Some a \<Rightarrow> publish lookup nowS a mgr))"

fun refresh_each :: "model_lookup \<Rightarrow> (nat \<Rightarrow> time) \<Rightarrow> nat \<Rightarrow> string list \<Rightarrow> manager \<Rightarrow> manager" where
  "refresh_each lookup clk n [] mgr = mgr"
| "refresh_each lookup clk n (i # ids) mgr =
     refresh_each lookup clk (Suc n) ids (RefreshSchedulerEntry lookup i (clk n) mgr)"

definition RefreshSchedulerAll :: "model_lookup \<Rightarrow> (nat \<Rightarrow> time) \<Rightarrow> manager \<Rightarrow> manager" where
  "RefreshSchedulerAll lookup clk mgr = refresh_each lookup clk 0 (map fst (mgr_auths mgr)) mgr"

section \<open>Cool-downs\<close>

definition clear_disabled_entry :: "cooling_env \<Rightarrow> time \<Rightarrow> string \<times> auth \<Rightarrow> string \<times> auth" where
  "clear_disabled_entry env now entry =
     (case entry of (i, a) \<Rightarrow>
        (i, if cooldownDisabledForAuth env a \<or> auth_Disabled a \<or> auth_Status a = StatusDisabled
             then snd (clearCooldownStateForAuth now a) else a))"

definition clear_disabled_snapshots :: "cooling_env \<Rightarrow> time \<Rightarrow> (string, auth) gomap \<Rightarrow> auth list" where
  "clear_disabled_snapshots env now auths =
     List.map_filter (\<lambda>(i, a).
       if (cooldownDisabledForAuth env a \<or> auth_Disabled a \<or> auth_Status a = StatusDisabled) \<and> fst (clearCooldownStateForAuth now a)
       then Some (snd (clearCooldownStateForAuth now a)) else None) auths"

definition clearDisabledCooldownStates :: "model_lookup \<Rightarrow> time \<Rightarrow> (nat \<Rightarrow> time) \<Rightarrow> manager \<Rightarrow> bool \<times> manager" where
  "clearDisabledCooldownStates lookup now clk mgr =
     (let snapshots = clear_disabled_snapshots (mgr_env mgr) now (mgr_auths mgr);
          mgr1 = mgr\<lparr>mgr_auths := map (clear_disabled_entry (mgr_env mgr) now) (mgr_auths mgr)\<rparr>
      in (snapshots \<noteq> [], publish_all lookup clk 0 snapshots mgr1))"

text \<open>\<open>setConfigSnapshotLocked\<close>: the part about cool-downs.\<close>

definition SetConfigSnapshot ::
  "model_lookup \<Rightarrow> runtime_config option \<Rightarrow> time \<Rightarrow> (nat \<Rightarrow> time) \<Rightarrow> manager \<Rightarrow> bool \<times> manager" where
  "SetConfigSnapshot lookup cfg0 now clk mgr =
     (let cfg = (case cfg0 of None \<Rightarrow> zero_config | Some c \<Rightarrow> c)
      in clearDisabledCooldownStates lookup now clk (mgr\<lparr>mgr_env := (mgr_env mgr)\<lparr>ce_config := Some cfg\<rparr>\<rparr>))"

definition restoreCooldownRecordLocked ::
  "model_lookup \<Rightarrow> time \<Rightarrow> cooldown_record \<Rightarrow> manager \<times> (string, auth) gomap \<Rightarrow> manager \<times> (string, auth) gomap" where
  "restoreCooldownRecordLocked lookup now rec ms =
     (case ms of (mgr, snapshots) \<Rightarrow>
        let authID = TrimSpace (cr_AuthID rec)
        in (case mget (mgr_auths mgr) authID of
              None \<Rightarrow> ms
            | Some a \<Rightarrow>
                (case restore_record lookup (mgr_env mgr) rec now a of
                   (False, _) \<Rightarrow> ms
                 | (True, a1) \<Rightarrow>
                     (mgr\<lparr>mgr_auths := mput authID a1 (mgr_auths mgr)\<rparr>, mput (auth_ID a1) a1 snapshots))))"

text \<open>\<open>records\<close> is what the store of cool-downs has loaded.\<close>

definition RestoreCooldownStates ::
  "model_lookup \<Rightarrow> cooldown_record list \<Rightarrow> time \<Rightarrow> (nat \<Rightarrow> time) \<Rightarrow> manager \<Rightarrow> manager" where
  "RestoreCooldownStates lookup records now clk mgr =
     (let authLevel = (\<lambda>rec. TrimSpace (cr_Model rec) = []);
          ordered = filter (\<lambda>rec. \<not> authLevel rec) records @ filter authLevel records
      in (case fold (restoreCooldownRecordLocked lookup now) ordered (mgr, []) of
            (mgr1, snapshots) \<Rightarrow> publish_all lookup clk 0 (map snd snapshots) mgr1))"

definition cooldownStateRecordsSnapshot :: "manager \<Rightarrow> time \<Rightarrow> cooldown_record list" where
  "cooldownStateRecordsSnapshot mgr now =
     sort_key (\<lambda>rec. cr_Provider rec)
       (sort_key (\<lambda>rec. cr_AuthID rec)
         (sort_key (\<lambda>rec. cr_Model rec)
           (concat (map (\<lambda>a. cooldownStateRecordsForAuthLocked (mgr_env mgr) a now) (snapshotAuths mgr)))))"

definition modelsForRegisteredAuth :: "model_lookup \<Rightarrow> string \<Rightarrow> model_registry \<Rightarrow> string list" where
  "modelsForRegisteredAuth lookup authID reg =
     map (\<lambda>m. canonicalModelKey lookup (mi_ID m))
       (filter (\<lambda>m. TrimSpace (mi_ID m) \<noteq> []) (GetModelsForClient authID reg))"

datatype reset_error = AuthIDRequired | PersistFailed

text \<open>\<open>saved\<close> tells whether persisting the credential succeeded.\<close>

definition ResetQuota ::
  "model_lookup \<Rightarrow> bool \<Rightarrow> string \<Rightarrow> time \<Rightarrow> time \<Rightarrow> time \<Rightarrow> manager \<Rightarrow> (reset_error + (auth \<times> string list) option) \<times> manager" where
  "ResetQuota lookup saved authID0 now nowR nowS mgr =
     (let authID = TrimSpace authID0 in
      if authID = [] then (Inl AuthIDRequired, mgr)
      else
        (case mget (mgr_auths mgr) authID of
           None \<Rightarrow> (Inr None, mgr)
         | Some a \<Rightarrow>
             (case reset_quota_auth (modelsForRegisteredAuth lookup authID (mgr_registry mgr)) now a of
                (a1, ms) \<Rightarrow>
                  let mgr1 = mgr\<lparr>mgr_auths := mput authID a1 (mgr_auths mgr)\<rparr>
                  in if \<not> saved then (Inl PersistFailed, mgr1)
                     else
                       let reg = fold (\<lambda>modelKey reg. ResumeClientModel authID modelKey nowR (ClearModelQuotaExceeded authID modelKey reg))
                                   ms (mgr_registry mgr1)
                       in (Inr (Some (a1, ms)), publish lookup nowS a1 (mgr1\<lparr>mgr_registry := reg\<rparr>)))))"

definition ReconcileRegistryModelStates :: "model_lookup \<Rightarrow> string \<Rightarrow> time \<Rightarrow> time \<Rightarrow> manager \<Rightarrow> manager" where
  "ReconcileRegistryModelStates lookup authID now nowS mgr =
     (if authID = [] then mgr
      else
        let supported = filter (\<lambda>k. k \<noteq> [])
              (map (\<lambda>m. canonicalModelKey lookup (mi_ID m)) (GetModelsForClient authID (mgr_registry mgr)))
        in (case mget (mgr_auths mgr) authID of
              None \<Rightarrow> mgr
            | Some a \<Rightarrow>
                (case reconcile_auth lookup supported now a of
                   (False, _) \<Rightarrow> mgr
                 | (True, a1) \<Rightarrow> publish lookup nowS a1 (mgr\<lparr>mgr_auths := mput authID a1 (mgr_auths mgr)\<rparr>))))"

end
