(* ===== verification/Cooldown_Facts.thy ===== *)
theory Cooldown_Facts
  imports Cooldown_Records
begin

text \<open>
  The lemma library of the cool-downs: the back-off ladder, the states of a credential as a map from
  model keys, and what results, resets and restored records do to that map.
\<close>

section \<open>The back-off ladder\<close>

lemma shl1_small: "0 \<le> l \<Longrightarrow> l < 34 \<Longrightarrow> shl1 l = 2 ^ nat l"
proof -
  assume l: "0 \<le> l" "l < 34"
  have "(2 :: int) ^ nat l \<le> 2 ^ 34" using l by (intro power_increasing) auto
  then have "in_int64 (2 ^ nat l)" by (simp add: in_int64_def MinInt64_def MaxInt64_def) (smt (verit) zero_le_power)
  with l show ?thesis by (simp add: shl1_def)
qed

lemma nextQuotaCooldown_range:
  "quotaBackoffBase \<le> fst (nextQuotaCooldown l False) \<and> fst (nextQuotaCooldown l False) \<le> quotaBackoffMax"
  by (auto simp: nextQuotaCooldown_def Let_def quotaBackoffBase_def quotaBackoffMax_def Minute_def Second_def)

lemma nextQuotaCooldown_level:
  assumes "0 \<le> l" "l \<le> 11"
  shows "nextQuotaCooldown l False =
     (min (2 ^ nat l * Second) (30 * Minute), if l = 11 then 11 else l + 1)"
proof -
  have "l \<in> {0..11}" using assms by simp
  also have "{0..11} = {0, 1, 2, 3, 4, 5, 6, 7, 8, 9, 10, 11 :: int}" by (auto simp: atLeastAtMost_def) presburger
  finally have "l \<in> {0, 1, 2, 3, 4, 5, 6, 7, 8, 9, 10, 11}" .
  then show ?thesis
    by (auto simp: nextQuotaCooldown_def Let_def shl1_small quotaBackoffBase_def quotaBackoffMax_def Minute_def Second_def in_int64_def
        MinInt64_def MaxInt64_def)
qed

lemma ladder_level: "((\<lambda>l. snd (nextQuotaCooldown l False)) ^^ n) 0 = int (min n 11)"
proof (induction n)
  case (Suc n)
  then show ?case using nextQuotaCooldown_level [of "int (min n 11)"] by (auto simp: min_def)
qed simp

section \<open>States by model key\<close>

definition fixed_key :: "model_lookup \<Rightarrow> string \<Rightarrow> bool" where
  "fixed_key lookup k \<longleftrightarrow> canonicalModelKey lookup k = k"

definition states_ok :: "model_lookup \<Rightarrow> (string, model_state option) gomap \<Rightarrow> bool" where
  "states_ok lookup L \<longleftrightarrow> wf_map L \<and> (\<forall>k \<in> fst ` set L. fixed_key lookup k)"

lemma canonical_empty: "canonicalModelKey lookup m = [] \<longleftrightarrow> TrimSpace m = []"
  by (auto simp: canonicalModelKey_def Let_def)

lemma canonical_trimmed: "trimmed (canonicalModelKey lookup m)"
proof (cases "TrimSpace m = []")
  case True
  then have "canonicalModelKey lookup m = TrimSpace m" by (simp add: canonicalModelKey_def)
  then show ?thesis by simp
qed (simp add: canonicalModelKey_def Let_def)

lemma canonical_twice_empty: "canonicalModelKey lookup (canonicalModelKey lookup m) = [] \<longleftrightarrow> canonicalModelKey lookup m = []"
  using canonical_trimmed [of lookup m] by (simp add: canonical_empty)

definition state_block_of :: "time \<Rightarrow> model_state option option \<Rightarrow> block" where
  "state_block_of t x =
     (case x of
        Some (Some st) \<Rightarrow> if ms_Status st = StatusDisabled then (True, blockReasonDisabled, zero_time) else state_availability st t
      | _ \<Rightarrow> not_blocked)"

lemma state_block_absent: "\<forall>k \<in> fst ` set L. canonicalModelKey lookup k \<noteq> key \<Longrightarrow>
   state_block lookup key t L matched acc = (if matched then acc else not_blocked)"
  by (induction lookup key t L matched acc rule: state_block.induct) auto

lemma not_blocked_availability: "\<not> fst (state_availability st t) \<Longrightarrow> state_availability st t = not_blocked"
  by (auto simp: state_availability_def availabilityBlock_def Let_def split: if_splits)

lemma state_block_single:
  assumes "states_ok lookup L"
  shows "state_block lookup key t L False not_blocked = state_block_of t (mget L key)"
  using assms
proof (induction L)
  case Nil
  then show ?case by (simp add: state_block_of_def)
next
  case (Cons e L)
  obtain k x where e: "e = (k, x)" by fastforce
  have L: "states_ok lookup L" "k \<notin> fst ` set L" "canonicalModelKey lookup k = k"
    using Cons.prems by (auto simp: states_ok_def e fixed_key_def)
  show ?case
  proof (cases "k = key")
    case False
    then show ?thesis using Cons.IH [OF L(1)] L(3) by (cases x) (simp_all add: e)
  next
    case True
    have absent: "\<forall>k' \<in> fst ` set L. canonicalModelKey lookup k' \<noteq> key"
      using L True by (auto simp: states_ok_def fixed_key_def)
    note rest = state_block_absent [OF absent]
    show ?thesis
    proof (cases x)
      case None
      then show ?thesis using True by (simp add: e rest state_block_of_def)
    next
      case (Some st)
      obtain b r n where a: "state_availability st t = (b, r, n)" by (cases "state_availability st t") auto
      have "\<not> b \<Longrightarrow> (b, r, n) = not_blocked" using not_blocked_availability [of st t] a by simp
      then show ?thesis using True L(3) by (auto simp: e Some rest state_block_of_def a)
    qed
  qed
qed

lemma blocked_by_state:
  assumes "states_ok lookup (auth_ModelStates a)" "fixed_key lookup k" "k \<noteq> []"
  shows "isAuthBlockedForModel lookup (Some a) k t =
     (if auth_Disabled a \<or> auth_Status a = StatusDisabled then (True, blockReasonDisabled, zero_time)
      else if auth_ModelStates a = []
      then availabilityBlock (auth_Unavailable a) (q_Exceeded (auth_Quota a)) (auth_NextRetryAfter a) (q_NextRecoverAt (auth_Quota a)) t
      else state_block_of t (mget (auth_ModelStates a) k))"
  using assms state_block_single [OF assms(1)] by (simp add: isAuthBlockedForModel_def fixed_key_def)

subsection \<open>Normal form\<close>

lemma normal_key_fixed: "fixed_key lookup k \<Longrightarrow> normal_key lookup k = k"
proof (cases "k = []")
  case False
  assume "fixed_key lookup k"
  with False show ?thesis by (simp add: normal_key_def fixed_key_def)
qed (simp add: normal_key_def canonical_empty)

lemma mput_new: "k \<notin> fst ` set m \<Longrightarrow> mput k v m = m @ [(k, v)]"
  by (induction m) auto

lemma normalize_fixed:
  "states_ok lookup (M @ L) \<Longrightarrow> fold (normalize_entry lookup) L (M, c) = (M @ L, c)"
proof (induction L arbitrary: M)
  case (Cons e L)
  obtain k x where e: "e = (k, x)" by fastforce
  have k: "k \<notin> fst ` set M" "fixed_key lookup k" using Cons.prems by (auto simp: states_ok_def e)
  then have "mget M k = None" by (simp add: mget_eq_None_iff)
  then have "normalize_entry lookup e (M, c) = (M @ [e], c)"
    using k by (simp add: normalize_entry_def e normal_key_fixed mput_new)
  then show ?case using Cons.IH [of "M @ [e]"] Cons.prems by simp
qed simp

lemma normalize_id: "states_ok lookup (auth_ModelStates a) \<Longrightarrow> normalizeModelStates lookup a = (False, a)"
  using normalize_fixed [of lookup "[]" "auth_ModelStates a" False] by (simp add: normalizeModelStates_def)

lemma states_ok_mput: "states_ok lookup L \<Longrightarrow> fixed_key lookup k \<Longrightarrow> states_ok lookup (mput k v L)"
  by (auto simp: states_ok_def keys_mput)

lemma states_ok_map: "states_ok lookup (map (\<lambda>(k, x). (k, f k x)) L) = states_ok lookup L"
proof -
  have "map fst (map (\<lambda>(k, x). (k, f k x)) L) = map fst L" by (induction L) auto
  then show ?thesis unfolding states_ok_def by (metis list.set_map)
qed

lemma states_ok_filter: "states_ok lookup L \<Longrightarrow> states_ok lookup (filter P L)"
  by (auto simp: states_ok_def distinct_map inj_on_def)

end
