(* ===== verification/Cooldown_Live.thy ===== *)
theory Cooldown_Live
  imports Cooldown_Facts
begin

text \<open>
  Every block ends: the invariant that a credential which is out of use has a time at which it
  recovers, and that each operation on a credential keeps it.
\<close>

section \<open>The invariant\<close>

definition quota_live :: "quota_state \<Rightarrow> bool" where
  "quota_live q \<longleftrightarrow> (if q_Exceeded q then 0 < q_NextRecoverAt q else q_NextRecoverAt q = 0)"

definition state_live :: "model_state \<Rightarrow> bool" where
  "state_live st \<longleftrightarrow>
     ms_Status st \<noteq> StatusDisabled \<and> quota_live (ms_Quota st) \<and>
     (ms_Unavailable st \<longrightarrow> 0 < ms_NextRetryAfter st \<or> 0 < q_NextRecoverAt (ms_Quota st))"

definition live_states :: "(string, model_state option) gomap \<Rightarrow> bool" where
  "live_states L \<longleftrightarrow> (\<forall>x \<in> snd ` set L. pred_option state_live x)"

definition own_live :: "auth \<Rightarrow> bool" where
  "own_live a \<longleftrightarrow>
     quota_live (auth_Quota a) \<and>
     (auth_Unavailable a \<longrightarrow> 0 < auth_NextRetryAfter a \<or> 0 < q_NextRecoverAt (auth_Quota a))"

definition auth_live :: "model_lookup \<Rightarrow> auth \<Rightarrow> bool" where
  "auth_live lookup a \<longleftrightarrow> states_ok lookup (auth_ModelStates a) \<and> live_states (auth_ModelStates a) \<and> own_live a"

lemma live_zero [simp]: "quota_live zero_quota"
  by (simp add: quota_live_def zero_quota_def)

lemma live_statesD: "live_states L \<Longrightarrow> mget L k = Some (Some st) \<Longrightarrow> state_live st"
  by (force simp: live_states_def dest: map_of_SomeD)

lemma live_mput: "live_states L \<Longrightarrow> pred_option state_live x \<Longrightarrow> live_states (mput k x L)"
proof -
  assume L: "live_states L" and x: "pred_option state_live x"
  have "snd ` set (mput k x L) \<subseteq> insert x (snd ` set L)" by (induction L) auto
  with L x show ?thesis unfolding live_states_def by blast
qed

lemma live_map: "live_states L \<Longrightarrow> (\<And>k x. pred_option state_live x \<Longrightarrow> pred_option state_live (f k x)) \<Longrightarrow>
   live_states (map (\<lambda>(k, x). (k, f k x)) L)"
  by (auto simp: live_states_def)

lemma mget_map_states: "mget (map (\<lambda>(k, x). (k, f k x)) L) k = map_option (f k) (mget L k)"
  by (induction L) auto

section \<open>Expiry and aggregation\<close>

lemma expire_live: "state_live st \<Longrightarrow> state_live (expire_state now st)"
  by (auto simp: state_live_def expire_state_def)

lemma expire_status [simp]: "ms_Status (expire_state now st) = ms_Status st"
  by (simp add: expire_state_def)

lemma expire_block:
  assumes "0 \<le> now" "now \<le> t" "quota_live (ms_Quota st)"
  shows "state_availability (expire_state now st) t = state_availability st t"
  using assms by (auto simp: state_availability_def availabilityBlock_def expire_state_def quota_live_def Let_def split: if_splits)

lemma expire_block_of:
  assumes "0 \<le> now" "now \<le> t" "pred_option (pred_option state_live) x"
  shows "state_block_of t (map_option (map_option (expire_state now)) x) = state_block_of t x"
  using assms expire_block [OF assms(1,2)]
  by (cases x) (auto simp: state_block_of_def state_live_def split: option.splits)

definition aggregate_live :: "aggregate \<Rightarrow> bool" where
  "aggregate_live g \<longleftrightarrow>
     (if ag_quotaExceeded g then 0 < ag_quotaRecover g else ag_quotaRecover g = 0) \<and> 0 \<le> ag_earliestRetry g \<and>
     (ag_hasState g \<and> ag_allUnavailable g \<longrightarrow> 0 < ag_earliestRetry g)"

lemma aggregate_step:
  assumes "0 \<le> now" "pred_option state_live x" "aggregate_live g"
  shows "aggregate_live (aggregate_state now x g)"
proof (cases x)
  case (Some st)
  have st: "ms_Status st \<noteq> StatusDisabled" "quota_live (ms_Quota st)" using assms(2) by (auto simp: Some state_live_def)
  have r: "retry_pending now st \<Longrightarrow> 0 < ms_NextRetryAfter st" using assms(1) by (simp add: retry_pending_def)
  show ?thesis
    using st r assms(3) by (cases "retry_pending now st") (auto simp: aggregate_state_def Some aggregate_live_def quota_live_def Let_def split: if_splits)
qed (use assms in \<open>simp add: aggregate_state_def\<close>)

lemma aggregate_states_live:
  assumes "0 \<le> now" "live_states L"
  shows "aggregate_live (aggregate_states now L)"
proof -
  have "aggregate_live (fold (aggregate_state now) xs g)" if "\<forall>x \<in> set xs. pred_option state_live x" "aggregate_live g" for xs g
    using that by (induction xs arbitrary: g) (auto intro: aggregate_step [OF assms(1)])
  then show ?thesis using assms(2) by (simp add: aggregate_states_def live_states_def aggregate_live_def)
qed

lemma update_states:
  "auth_ModelStates (updateAggregatedAvailability a now) = map (\<lambda>(k, x). (k, map_option (expire_state now) x)) (auth_ModelStates a)"
  by (auto simp: updateAggregatedAvailability_def clearAggregatedAvailability_def Let_def)

lemma update_keeps [simp]:
  "auth_ID (updateAggregatedAvailability a now) = auth_ID a"
  "auth_Disabled (updateAggregatedAvailability a now) = auth_Disabled a"
  "auth_Status (updateAggregatedAvailability a now) = auth_Status a"
  "auth_Provider (updateAggregatedAvailability a now) = auth_Provider a"
  "auth_Attributes (updateAggregatedAvailability a now) = auth_Attributes a"
  "auth_Metadata (updateAggregatedAvailability a now) = auth_Metadata a"
  by (simp_all add: updateAggregatedAvailability_def clearAggregatedAvailability_def Let_def)

lemma update_live:
  assumes "0 \<le> now" "states_ok lookup (auth_ModelStates a)" "live_states (auth_ModelStates a)"
  shows "auth_live lookup (updateAggregatedAvailability a now)"
proof -
  have g: "aggregate_live (aggregate_states now (auth_ModelStates a))" by (rule aggregate_states_live [OF assms(1,3)])
  have "own_live (updateAggregatedAvailability a now)"
    using g by (auto simp: own_live_def updateAggregatedAvailability_def clearAggregatedAvailability_def Let_def aggregate_live_def
        quota_live_def zero_quota_def)
  then show ?thesis
    using assms by (auto simp: auth_live_def update_states states_ok_map option.pred_map comp_def intro!: live_map
        elim!: option.pred_mono_strong expire_live)
qed

section \<open>Entries of the map of states\<close>

definition state_or_new :: "model_state option option \<Rightarrow> model_state" where
  "state_or_new x = (case x of Some (Some st) \<Rightarrow> st | _ \<Rightarrow> new_model_state)"

lemma state_or_new_live: "live_states L \<Longrightarrow> state_live (state_or_new (mget L k))"
  using live_statesD [of L k]
  by (auto simp: state_or_new_def state_live_def new_model_state_def status_defs split: option.splits)

lemma ensure_total:
  assumes "states_ok lookup (auth_ModelStates a)" "fixed_key lookup k" "k \<noteq> []"
  shows "fst (ensureModelState lookup k a) = Some (state_or_new (mget (auth_ModelStates a) k))"
    and "set_model_state lookup k st (snd (ensureModelState lookup k a)) =
         a\<lparr>auth_ModelStates := mput k (Some st) (auth_ModelStates a)\<rparr>"
proof -
  have upd: "mput k v (mput k w L) = mput k v L" for v w and L :: "(string, model_state option) gomap"
    by (induction L) auto
  show "fst (ensureModelState lookup k a) = Some (state_or_new (mget (auth_ModelStates a) k))"
    "set_model_state lookup k st (snd (ensureModelState lookup k a)) = a\<lparr>auth_ModelStates := mput k (Some st) (auth_ModelStates a)\<rparr>"
    using assms normalize_id [OF assms(1)]
    by (auto simp: ensureModelState_def fixed_key_def state_or_new_def set_model_state_def upd split: option.splits)
qed

lemma set_live:
  assumes "auth_live lookup a" "fixed_key lookup k" "state_live st"
  shows "states_ok lookup (mput k (Some st) (auth_ModelStates a))" "live_states (mput k (Some st) (auth_ModelStates a))"
  using assms by (auto simp: auth_live_def intro!: states_ok_mput live_mput)

end
