(* ===== verification/Mark_Live.thy ===== *)
theory Mark_Live
  imports Cooldown_Live
begin

text \<open>
  Results, clearing, reconciliation and restored records keep the invariant of
  \<^verbatim>\<open>Cooldown_Live\<close>, and what they do to the states of the models.
\<close>

section \<open>Failures\<close>

definition sane_env :: "cooling_env \<Rightarrow> bool" where
  "sane_env env \<longleftrightarrow> ce_transientErrorCooldownSeconds env * Second \<le> MaxInt64"

definition sane_retry :: "duration option \<Rightarrow> bool" where
  "sane_retry ra \<longleftrightarrow> (\<forall>d. ra = Some d \<longrightarrow> 0 \<le> d)"

lemma transient_retry:
  assumes "0 < now" "secs * Second \<le> MaxInt64"
  shows "recoverableFailureRetryAfter secs now dc = 0 \<or> now < recoverableFailureRetryAfter secs now dc"
proof -
  have "wrap64 (secs * Second) = secs * Second" if "0 < secs"
    using that assms(2) by (simp add: in_int64_def MinInt64_def Second_def)
  then show ?thesis
    using assms by (auto simp: recoverableFailureRetryAfter_def nextTransientErrorRetryAfter_def transientErrorCooldown_def Minute_def Second_def)
qed

lemma quota_deadline:
  assumes "0 < now"
  shows "now < fst (quotaCooldownAfterFailure q now)"
  using nextQuotaCooldown_range [of "q_BackoffLevel q"]
  by (auto simp: quotaCooldownAfterFailure_def quotaBackoffBase_def Second_def case_prod_beta)

lemma cloudflare_deadline:
  assumes "0 < now"
  shows "if dc then fst (nextCloudflareCooldown l dc now) = 0 else now < fst (nextCloudflareCooldown l dc now)"
  using assms by (auto simp: nextCloudflareCooldown_def case_prod_beta Let_def Second_def)

lemmas fail_defs = fail_fixed_def fail_quota_def fail_transient_def fail_cloudflare_def fail_begin_def fail_end_def

lemma fail_begin_fields [simp]:
  "ms_Unavailable (fail_begin err now st)" "ms_Status (fail_begin err now st) = StatusError"
  "ms_Quota (fail_begin err now st) = ms_Quota st"
  by (simp_all add: fail_begin_def Let_def split: option.splits)

lemma StatusError_enabled [simp]: "StatusError \<noteq> StatusDisabled" "StatusActive \<noteq> StatusDisabled"
  by (simp_all add: status_defs)

lemma fail_branch_live:
  assumes now: "0 < now" and st: "ms_Unavailable st" "ms_Status st \<noteq> StatusDisabled" "quota_live (ms_Quota st)"
  shows "0 < d \<Longrightarrow> state_live (fail_end dc (fst (fail_fixed d reason dc now st)))"
    and "sane_retry ra \<Longrightarrow> state_live (fail_end dc (fst (fail_quota dc ra now st)))"
    and "secs * Second \<le> MaxInt64 \<Longrightarrow> state_live (fail_end dc (fst (fail_transient secs dc now st)))"
    and "state_live (fail_end dc (fst (fail_cloudflare dc now st)))"
    and "0 < d \<Longrightarrow> state_live (fail_end dc (st\<lparr>ms_NextRetryAfter := now + d\<rparr>))"
proof -
  show "0 < d \<Longrightarrow> state_live (fail_end dc (fst (fail_fixed d reason dc now st)))"
    "0 < d \<Longrightarrow> state_live (fail_end dc (st\<lparr>ms_NextRetryAfter := now + d\<rparr>))"
    using now st by (auto simp: fail_defs state_live_def quota_live_def split: if_splits)
  show "state_live (fail_end dc (fst (fail_cloudflare dc now st)))"
    using now st cloudflare_deadline [OF now, of dc "q_BackoffLevel (ms_Quota st)"]
    by (auto simp: fail_defs state_live_def quota_live_def case_prod_beta split: if_splits)
  show "state_live (fail_end dc (fst (fail_transient secs dc now st)))" if "secs * Second \<le> MaxInt64"
    using now st transient_retry [OF now that, of dc] by (auto simp: fail_defs state_live_def quota_live_def Let_def split: if_splits)
  show "state_live (fail_end dc (fst (fail_quota dc ra now st)))" if "sane_retry ra"
    using now st that quota_deadline [OF now, of "ms_Quota st"]
    by (auto simp: fail_defs state_live_def quota_live_def Let_def case_prod_beta sane_retry_def add_pos_nonneg split: if_splits option.splits)
qed

lemma fail_live:
  assumes "0 < now" "quota_live (ms_Quota st)" "secs * Second \<le> MaxInt64" "sane_retry ra"
  shows "state_live (fail_end dc (fst (fail_schedule secs dc err ra now (fail_begin err now st))))"
proof -
  note branch = fail_branch_live [of now "fail_begin err now st", OF assms(1), simplified, OF assms(2)]
  have pos: "0 < 30 * Minute" "0 < 12 * Hour" by (simp_all add: Minute_def Hour_def Second_def)
  show ?thesis
    unfolding fail_schedule_def Let_def
    by (simp add: branch(1) [OF pos(1)] branch(1) [OF pos(2)] branch(2) [OF assms(4)] branch(3) [OF assms(3)] branch(4) branch(5) [OF pos(2)])
qed

lemma count_request_fields [simp]:
  "auth_ModelStates (count_request s now a) = auth_ModelStates a" "auth_ID (count_request s now a) = auth_ID a"
  "auth_Quota (count_request s now a) = auth_Quota a" "auth_Unavailable (count_request s now a) = auth_Unavailable a"
  "auth_NextRetryAfter (count_request s now a) = auth_NextRetryAfter a" "auth_Disabled (count_request s now a) = auth_Disabled a"
  "auth_Status (count_request s now a) = auth_Status a" "auth_Provider (count_request s now a) = auth_Provider a"
  "auth_Attributes (count_request s now a) = auth_Attributes a" "auth_Metadata (count_request s now a) = auth_Metadata a"
  by (simp_all add: count_request_def recordRecentRequest_def Let_def)

lemma count_request_live [simp]: "auth_live lookup (count_request s now a) = auth_live lookup a"
  by (simp add: auth_live_def own_live_def)

subsection \<open>A failure of a model\<close>

text \<open>The state of the model after the failure, before expiry.\<close>

definition failed_state :: "cooling_env \<Rightarrow> auth \<Rightarrow> result \<Rightarrow> time \<Rightarrow> model_state \<Rightarrow> model_state" where
  "failed_state env a res now st =
     fail_end (cooldownDisabledForAuth env a)
       (fst (fail_schedule (ce_transientErrorCooldownSeconds env) (cooldownDisabledForAuth env a) (res_Error res) (res_RetryAfter res) now
               (fail_begin (res_Error res) now st)))"

lemma mark_failure_eq:
  assumes "states_ok lookup (auth_ModelStates a)" "fixed_key lookup k" "k \<noteq> []" "\<not> shouldSkipCredentialCooldown (res_Error res)"
  shows "\<exists>m e. fst (mark_model_failure lookup env k res now a) =
      updateAggregatedAvailability (a\<lparr>auth_ModelStates := mput k (Some (failed_state env a res now (state_or_new (mget (auth_ModelStates a) k))))
           (auth_ModelStates a), auth_LastError := e, auth_StatusMessage := m, auth_Status := StatusError, auth_UpdatedAt := now\<rparr>) now"
proof -
  let ?st = "state_or_new (mget (auth_ModelStates a) k)"
  obtain st1 r q where f: "fail_schedule (ce_transientErrorCooldownSeconds env) (cooldownDisabledForAuth env a) (res_Error res)
      (res_RetryAfter res) now (fail_begin (res_Error res) now ?st) = (st1, r, q)" by (metis prod_cases3)
  note e = ensure_total [OF assms(1-3)]
  obtain a1 where a1: "ensureModelState lookup k a = (Some ?st, a1)" using e(1) by (metis prod.collapse)
  have set1: "set_model_state lookup k st a1 = a\<lparr>auth_ModelStates := mput k (Some st) (auth_ModelStates a)\<rparr>" for st
    using e(2) [of st] a1 by simp
  have more: "set_model_state lookup k st (a1\<lparr>auth_LastError := x, auth_StatusMessage := y\<rparr>) =
      (set_model_state lookup k st a1)\<lparr>auth_LastError := x, auth_StatusMessage := y\<rparr>" for st x y
    by (simp add: set_model_state_def)
  define a2 where "a2 = (case res_Error res of None \<Rightarrow> a1 | Some e \<Rightarrow> a1\<lparr>auth_LastError := res_Error res, auth_StatusMessage := ae_Message e\<rparr>)"
  define a3 where "a3 = (if isModelSupportResultError (res_Error res) \<or> \<not> isCloudflareChallengeResultError (res_Error res) then a2
      else if auth_LastError a2 \<noteq> None then a2\<lparr>auth_StatusMessage := ''cloudflare challenge''\<rparr> else a2)"
  have "\<exists>x y. a2 = a1\<lparr>auth_LastError := x, auth_StatusMessage := y\<rparr>"
  proof (cases "res_Error res")
    case None
    then show ?thesis by (intro exI [of _ "auth_LastError a1"] exI [of _ "auth_StatusMessage a1"]) (simp add: a2_def)
  qed (auto simp: a2_def)
  then obtain x y where "a2 = a1\<lparr>auth_LastError := x, auth_StatusMessage := y\<rparr>" by blast
  then have "a3 = a1\<lparr>auth_LastError := x, auth_StatusMessage := y\<rparr> \<or> a3 = a1\<lparr>auth_LastError := x, auth_StatusMessage := ''cloudflare challenge''\<rparr>"
    by (auto simp: a3_def)
  then obtain y' where a3: "a3 = a1\<lparr>auth_LastError := x, auth_StatusMessage := y'\<rparr>" by blast
  have "fst (mark_model_failure lookup env k res now a) = updateAggregatedAvailability
      ((set_model_state lookup k (fail_end (cooldownDisabledForAuth env a) st1) a3)\<lparr>auth_Status := StatusError, auth_UpdatedAt := now\<rparr>) now"
    unfolding mark_model_failure_def if_not_P [OF assms(4)] Let_def a1 f prod.case option.case a3_def a2_def by simp
  moreover have "failed_state env a res now ?st = fail_end (cooldownDisabledForAuth env a) st1" by (simp add: failed_state_def f)
  ultimately show ?thesis unfolding a3 more set1 by (intro exI [of _ y'] exI [of _ x]) simp
qed

lemma mark_failure_live:
  assumes "auth_live lookup a" "fixed_key lookup k" "k \<noteq> []" "0 < now" "sane_env env" "sane_retry (res_RetryAfter res)"
  shows "auth_live lookup (fst (mark_model_failure lookup env k res now a))"
proof (cases "shouldSkipCredentialCooldown (res_Error res)")
  case True
  then show ?thesis using assms(1) by (simp add: mark_model_failure_def)
next
  case False
  let ?st = "state_or_new (mget (auth_ModelStates a) k)"
  have ok: "states_ok lookup (auth_ModelStates a)" "live_states (auth_ModelStates a)" using assms(1) by (simp_all add: auth_live_def)
  have "state_live ?st" by (rule state_or_new_live [OF ok(2)])
  then have "state_live (failed_state env a res now ?st)"
    unfolding failed_state_def using assms(4-6) by (intro fail_live) (simp_all add: state_live_def sane_env_def)
  from set_live [OF assms(1,2) this] show ?thesis
    using mark_failure_eq [OF ok(1) assms(2,3) False, of env now] assms(4) by (auto intro!: update_live)
qed

lemma mark_success_eq:
  fixes now :: time
  assumes "states_ok lookup (auth_ModelStates a)" "fixed_key lookup k" "k \<noteq> []"
  defines "b \<equiv> updateAggregatedAvailability (a\<lparr>auth_ModelStates :=
      mput k (Some (resetModelState (state_or_new (mget (auth_ModelStates a) k)) now)) (auth_ModelStates a)\<rparr>) now"
  shows "fst (mark_model_success lookup k now a) = (if \<not> hasModelError b now then clear_error b else b)\<lparr>auth_UpdatedAt := now\<rparr>"
proof -
  note e = ensure_total [OF assms(1-3)]
  obtain a1 where a1: "ensureModelState lookup k a = (Some (state_or_new (mget (auth_ModelStates a) k)), a1)"
    using e(1) by (metis prod.collapse)
  have "set_model_state lookup k st a1 = a\<lparr>auth_ModelStates := mput k (Some st) (auth_ModelStates a)\<rparr>" for st
    using e(2) [of st] a1 by simp
  then show ?thesis unfolding mark_model_success_def a1 b_def by (simp add: Let_def)
qed

lemma reset_live: "state_live (resetModelState st now)"
  by (simp add: state_live_def resetModelState_def)

lemma clear_error_live [simp]: "auth_live lookup (clear_error a) = auth_live lookup a"
  by (simp add: auth_live_def own_live_def clear_error_def)

lemma updated_live [simp]: "auth_live lookup (a\<lparr>auth_UpdatedAt := u\<rparr>) = auth_live lookup a"
  by (simp add: auth_live_def own_live_def)

lemma mark_success_live:
  assumes "auth_live lookup a" "fixed_key lookup k" "k \<noteq> []" "0 < now"
  shows "auth_live lookup (fst (mark_model_success lookup k now a))"
proof -
  have ok: "states_ok lookup (auth_ModelStates a)" using assms(1) by (simp add: auth_live_def)
  note s = set_live [OF assms(1,2) reset_live]
  show ?thesis unfolding mark_success_eq [OF ok assms(2,3)] using s assms(4) by (simp add: update_live)
qed

section \<open>Failures without a model\<close>

lemmas auth_fail_defs = auth_fail_fixed_def auth_fail_quota_def auth_fail_transient_def auth_fail_cloudflare_def auth_fail_end_def

lemma auth_fail_branch_live:
  assumes now: "0 < now" and a: "auth_Unavailable a" "quota_live (auth_Quota a)"
  shows "0 < d \<Longrightarrow> own_live (auth_fail_end dc (auth_fail_fixed m d dc now a))"
    and "sane_retry ra \<Longrightarrow> own_live (auth_fail_end dc (auth_fail_quota ra dc now a))"
    and "secs * Second \<le> MaxInt64 \<Longrightarrow> own_live (auth_fail_end dc (auth_fail_transient m secs dc now a))"
    and "own_live (auth_fail_end dc (auth_fail_cloudflare dc now a))"
proof -
  show "0 < d \<Longrightarrow> own_live (auth_fail_end dc (auth_fail_fixed m d dc now a))"
    using now a by (auto simp: auth_fail_defs own_live_def quota_live_def split: if_splits)
  show "own_live (auth_fail_end dc (auth_fail_cloudflare dc now a))"
    using now a cloudflare_deadline [OF now, of dc "q_BackoffLevel (auth_Quota a)"]
    by (auto simp: auth_fail_defs own_live_def quota_live_def case_prod_beta split: if_splits)
  show "own_live (auth_fail_end dc (auth_fail_transient m secs dc now a))" if "secs * Second \<le> MaxInt64"
    using now a transient_retry [OF now that, of dc] by (auto simp: auth_fail_defs own_live_def quota_live_def Let_def split: if_splits)
  show "own_live (auth_fail_end dc (auth_fail_quota ra dc now a))" if "sane_retry ra"
    using now a that quota_deadline [OF now, of "(auth_Quota a)\<lparr>q_Exceeded := True, q_Reason := ''quota''\<rparr>"]
    by (auto simp: auth_fail_defs own_live_def quota_live_def Let_def case_prod_beta sane_retry_def add_pos_nonneg split: if_splits option.splits)
qed

lemma auth_fail_states [simp]:
  "auth_ModelStates (auth_fail_end dc b) = auth_ModelStates b"
  "auth_ModelStates (auth_fail_schedule secs dc err ra now b) = auth_ModelStates b"
  by (simp_all add: auth_fail_defs auth_fail_schedule_def Let_def case_prod_beta)

lemma applyAuthFailure_live:
  assumes "auth_live lookup a" "0 < now" "secs * Second \<le> MaxInt64" "sane_retry ra"
  shows "auth_live lookup (applyAuthFailureState secs err ra now dc a)"
proof (cases "shouldSkipCredentialCooldown err")
  case True
  then show ?thesis using assms(1) by (simp add: applyAuthFailureState_def)
next
  case False
  let ?a1 = "a\<lparr>auth_Unavailable := True, auth_Status := StatusError, auth_UpdatedAt := now\<rparr>"
  define a2 where "a2 = (case err of None \<Rightarrow> ?a1 | Some e \<Rightarrow> ?a1\<lparr>auth_LastError := err,
      auth_StatusMessage := (if ae_Message e \<noteq> [] then ae_Message e else auth_StatusMessage ?a1)\<rparr>)"
  have a2: "auth_Unavailable a2" "auth_Quota a2 = auth_Quota a" "auth_ModelStates a2 = auth_ModelStates a"
    by (auto simp: a2_def split: option.splits)
  have q: "quota_live (auth_Quota a2)" using assms(1) a2(2) by (simp add: auth_live_def own_live_def)
  have pos: "0 < 30 * Minute" "0 < 12 * Hour" by (simp_all add: Minute_def Hour_def Second_def)
  note branch = auth_fail_branch_live [OF assms(2) a2(1) q]
  have "own_live (auth_fail_end dc (auth_fail_schedule secs dc err ra now a2))"
    unfolding auth_fail_schedule_def Let_def
    by (simp add: branch(1) [OF pos(1)] branch(1) [OF pos(2)] branch(2) [OF assms(4)] branch(3) [OF assms(3)] branch(4))
  then show ?thesis
    unfolding applyAuthFailureState_def if_not_P [OF False] Let_def a2_def [symmetric] using assms(1) a2(3) by (simp add: auth_live_def)
qed

text \<open>A result keeps the invariant when the name of its model has no suffix inside its suffix.\<close>

definition plain_model :: "model_lookup \<Rightarrow> string \<Rightarrow> bool" where
  "plain_model lookup m \<longleftrightarrow> fixed_key lookup (canonicalModelKey lookup m)"

lemma mark_auth_live:
  assumes "auth_live lookup a" "plain_model lookup (res_Model res)" "0 < now" "sane_env env" "sane_retry (res_RetryAfter res)"
  shows "auth_live lookup (fst (mark_auth lookup env res now a))"
  using assms mark_success_live mark_failure_live applyAuthFailure_live
  by (simp add: mark_auth_def Let_def plain_model_def sane_env_def) (simp add: auth_live_def own_live_def clearAuthStateOnSuccess_def)

end
