(* ===== verification/Records_Live.thy ===== *)
theory Records_Live
  imports Mark_Live
begin

text \<open>Clearing, resets, reconciliation and restored records keep the invariant too.\<close>

section \<open>Clearing\<close>

lemma clear_state_live: "pred_option state_live x \<Longrightarrow> pred_option state_live (clear_state now x)"
  by (cases x) (auto simp: clear_state_def state_has_cooldown_def state_live_def)

lemma clear_state_clean: "clear_state now x = Some st \<Longrightarrow> \<not> ms_Unavailable st \<and> \<not> q_Exceeded (ms_Quota st)"
  by (cases x) (auto simp: clear_state_def state_has_cooldown_def has_cooldown_def zero_quota_def split: if_splits)

lemma clear_keeps [simp]:
  "auth_ID (snd (clearCooldownStateForAuth now a)) = auth_ID a" "auth_Disabled (snd (clearCooldownStateForAuth now a)) = auth_Disabled a"
  "auth_Status (snd (clearCooldownStateForAuth now a)) = auth_Status a" "auth_Provider (snd (clearCooldownStateForAuth now a)) = auth_Provider a"
  "auth_Attributes (snd (clearCooldownStateForAuth now a)) = auth_Attributes a"
  "auth_Metadata (snd (clearCooldownStateForAuth now a)) = auth_Metadata a"
  by (simp_all add: clearCooldownStateForAuth_def Let_def)

lemma clear_live:
  assumes "0 \<le> now" "states_ok lookup (auth_ModelStates a)" "live_states (auth_ModelStates a)"
  shows "auth_live lookup (snd (clearCooldownStateForAuth now a))"
proof (cases "auth_ModelStates a = []")
  case True
  then show ?thesis
    using assms(2) by (auto simp: clearCooldownStateForAuth_def Let_def auth_live_def own_live_def live_states_def has_cooldown_def
        quota_live_def zero_quota_def)
next
  case False
  have "states_ok lookup (map (\<lambda>(k, x). (k, clear_state now x)) (auth_ModelStates a))"
    "live_states (map (\<lambda>(k, x). (k, clear_state now x)) (auth_ModelStates a))"
    using assms(2,3) by (simp_all add: states_ok_map live_map clear_state_live)
  then show ?thesis using False assms(1) by (auto simp: clearCooldownStateForAuth_def Let_def intro!: update_live)
qed

lemma admit_live:
  assumes "0 \<le> now" "auth_live lookup a"
  shows "auth_live lookup (if c then snd (clearCooldownStateForAuth now (snd (normalizeModelStates lookup a)))
     else snd (normalizeModelStates lookup a))"
  using assms clear_live [OF assms(1), of lookup a] by (auto simp: auth_live_def normalize_id)

lemma reset_states_live:
  assumes "states_ok lookup (auth_ModelStates a)" "live_states (auth_ModelStates a)"
  shows "states_ok lookup (auth_ModelStates (reset_states now a))" "live_states (auth_ModelStates (reset_states now a))"
  using assms reset_live by (auto simp: reset_states_def states_ok_map option.pred_map comp_def intro!: live_map elim!: option.pred_mono_strong)

lemma reset_quota_live:
  assumes "0 \<le> now" "auth_live lookup a"
  shows "auth_live lookup (fst (reset_quota_auth ms now a))"
proof -
  have r: "states_ok lookup (auth_ModelStates (reset_states now a))" "live_states (auth_ModelStates (reset_states now a))"
    using reset_states_live assms(2) by (auto simp: auth_live_def)
  obtain c a1 where c: "clearCooldownStateForAuth now (reset_states now a) = (c, a1)" by fastforce
  have a1: "auth_live lookup a1" using clear_live [OF assms(1) r] c by simp
  then have "auth_live lookup (updateAggregatedAvailability a1 now)" using assms(1) by (intro update_live) (auto simp: auth_live_def)
  with a1 show ?thesis by (auto simp: reset_quota_auth_def c Let_def)
qed

section \<open>Reconciliation\<close>

lemma reconcile_live:
  assumes "0 \<le> now" "auth_live lookup a"
  shows "auth_live lookup (snd (reconcile_auth lookup supported now a))"
proof -
  let ?f = "\<lambda>k x. if modelStateIsClean x then x else map_option (\<lambda>st. resetModelState st now) x"
  let ?L = "map (\<lambda>(k, x). (k, ?f k x)) (filter (\<lambda>(k, _). normal_key lookup k \<in> set supported) (auth_ModelStates a))"
  have ok: "states_ok lookup (auth_ModelStates a)" "live_states (auth_ModelStates a)" using assms(2) by (auto simp: auth_live_def)
  have "states_ok lookup ?L" by (simp add: states_ok_map states_ok_filter ok(1))
  moreover have "live_states (filter (\<lambda>(k, _). normal_key lookup k \<in> set supported) (auth_ModelStates a))"
    using ok(2) by (auto simp: live_states_def)
  then have "live_states ?L" using reset_live by (intro live_map) (auto simp: option.pred_map comp_def elim!: option.pred_mono_strong)
  ultimately have "auth_live lookup (updateAggregatedAvailability (a\<lparr>auth_ModelStates := ?L\<rparr>) now)"
    using assms(1) by (intro update_live) simp_all
  then show ?thesis using assms(2) by (simp add: reconcile_auth_def reconcile_states_def Let_def split: if_splits)
qed

section \<open>Restored records\<close>

definition record_ok :: "model_lookup \<Rightarrow> cooldown_record \<Rightarrow> bool" where
  "record_ok lookup rec \<longleftrightarrow>
     plain_model lookup (TrimSpace (cr_Model rec)) \<and>
     (if q_Exceeded (cr_Quota rec) then 0 \<le> q_NextRecoverAt (cr_Quota rec) else q_NextRecoverAt (cr_Quota rec) = 0)"

lemma merge_live:
  assumes "state_live s" "state_live s'"
  obtains m where "mergeModelState (Some s) (Some s') = Some m" "state_live m"
proof -
  define m where "m = the (mergeModelState (Some s) (Some s'))"
  have m: "mergeModelState (Some s) (Some s') = Some m" by (simp add: m_def mergeModelState_def Let_def)
  have "state_live m"
    using assms by (auto simp: m_def mergeModelState_def Let_def state_live_def quota_live_def later_def split: if_splits)
  with m show thesis by (rule that)
qed

lemma canonical_TrimSpace: "canonicalModelKey lookup (TrimSpace m) = canonicalModelKey lookup m"
  by (simp add: canonicalModelKey_def)

lemma ensure_canonical:
  assumes "plain_model lookup m"
  shows "ensureModelState lookup m a = ensureModelState lookup (canonicalModelKey lookup m) a"
    and "set_model_state lookup m st a = set_model_state lookup (canonicalModelKey lookup m) st a"
  using assms by (simp_all add: ensureModelState_def set_model_state_def plain_model_def fixed_key_def)

lemma restore_live:
  assumes "0 < now" "auth_live lookup a" "record_ok lookup rec"
  shows "auth_live lookup (snd (restore_record lookup env rec now a))"
proof -
  let ?m = "TrimSpace (cr_Model rec)" and ?q = "cr_Quota rec"
  define quota where "quota = (if q_Exceeded ?q \<and> IsZero (q_NextRecoverAt ?q) then ?q\<lparr>q_NextRecoverAt := cr_NextRetryAfter rec\<rparr> else ?q)"
  define updatedAt where "updatedAt = (if IsZero (cr_UpdatedAt rec) then now else cr_UpdatedAt rec)"
  consider (skip) "snd (restore_record lookup env rec now a) = a"
    | (own) "now < cr_NextRetryAfter rec" "?m = []"
        "snd (restore_record lookup env rec now a) = a\<lparr>auth_Unavailable := True, auth_Status := StatusError,
           auth_NextRetryAfter := cr_NextRetryAfter rec, auth_Quota := quota, auth_UpdatedAt := updatedAt,
           auth_StatusMessage := (if TrimSpace (cr_Reason rec) \<noteq> [] then TrimSpace (cr_Reason rec) else auth_StatusMessage a),
           auth_LastError := cr_LastError rec\<rparr>"
    | (model) "now < cr_NextRetryAfter rec" "?m \<noteq> []"
        "snd (restore_record lookup env rec now a) =
          (case ensureModelState lookup ?m a of
             (None, a1) \<Rightarrow> updateAggregatedAvailability a1 now
           | (Some st, a1) \<Rightarrow>
               (case mergeModelState (Some st) (Some (restored_state rec quota updatedAt)) of
                  None \<Rightarrow> updateAggregatedAvailability a1 now
                | Some st1 \<Rightarrow> updateAggregatedAvailability (set_model_state lookup ?m st1 a1) now))"
  proof -
    let ?bad1 = "TrimSpace (cr_AuthID rec) = [] \<or> IsZero (cr_NextRetryAfter rec) \<or> \<not> cr_NextRetryAfter rec > now"
    let ?bad2 = "auth_Disabled a \<or> auth_Status a = StatusDisabled \<or> cooldownDisabledForAuth env a"
    show thesis
    proof (cases "?bad1 \<or> ?bad2")
      case True
      then have "restore_record lookup env rec now a = (False, a)" unfolding restore_record_def by (meson if_P if_not_P)
      then show thesis using skip by simp
    next
      case False
      then have n: "\<not> ?bad1" "\<not> ?bad2" by blast+
      show thesis
      proof (cases "?m = []")
        case True
        with n show thesis
          by (intro own) (simp_all add: restore_record_def if_not_P [OF n(1)] if_not_P [OF n(2)] Let_def quota_def updatedAt_def)
      next
        case False
        have "snd (restore_record lookup env rec now a) =
          (case ensureModelState lookup ?m a of
             (None, a1) \<Rightarrow> updateAggregatedAvailability a1 now
           | (Some st, a1) \<Rightarrow>
               (case mergeModelState (Some st) (Some (restored_state rec quota updatedAt)) of
                  None \<Rightarrow> updateAggregatedAvailability a1 now
                | Some st1 \<Rightarrow> updateAggregatedAvailability (set_model_state lookup ?m st1 a1) now))"
          unfolding restore_record_def if_not_P [OF n(1)] if_not_P [OF n(2)] Let_def if_not_P [OF False]
            quota_def [symmetric] updatedAt_def [symmetric]
          by (simp split: prod.split option.split)
        with n(1) False show thesis by (intro model) simp_all
      qed
    qed
  qed
  then show ?thesis
  proof cases
    case skip
    then show ?thesis using assms(2) by simp
  next
    case own
    have "quota_live quota" using assms(1,3) own(1) by (auto simp: quota_def record_ok_def quota_live_def)
    then show ?thesis using assms(1,2) own by (simp add: auth_live_def own_live_def)
  next
    case model
    have q: "quota_live quota" using assms(1,3) model(1) by (auto simp: quota_def record_ok_def quota_live_def)
    let ?k = "canonicalModelKey lookup ?m"
    have k: "fixed_key lookup ?k" "?k \<noteq> []" and plain: "plain_model lookup ?m"
      using assms(3) model(2) by (auto simp: record_ok_def plain_model_def canonical_empty)
    have ok: "states_ok lookup (auth_ModelStates a)" "live_states (auth_ModelStates a)" using assms(2) by (auto simp: auth_live_def)
    note e = ensure_total [OF ok(1) k]
    obtain a1 where a1: "ensureModelState lookup ?k a = (Some (state_or_new (mget (auth_ModelStates a) ?k)), a1)"
      using e(1) by (metis prod.collapse)
    have "state_live (restored_state rec quota updatedAt)"
      using q model(1) assms(1) by (simp add: state_live_def restored_state_def)
    from merge_live [OF state_or_new_live [OF ok(2)] this] obtain st1 where
      st1: "mergeModelState (Some (state_or_new (mget (auth_ModelStates a) ?k))) (Some (restored_state rec quota updatedAt)) = Some st1"
        "state_live st1" by metis
    have "snd (restore_record lookup env rec now a) =
        updateAggregatedAvailability (a\<lparr>auth_ModelStates := mput ?k (Some st1) (auth_ModelStates a)\<rparr>) now"
      using e(2) [of st1] unfolding model(3) ensure_canonical [OF plain] a1 by (simp add: st1(1))
    then show ?thesis using set_live [OF assms(2) k(1) st1(2)] assms(1) by (simp add: update_live)
  qed
qed

end
