(* ===== verification/Manager_Run.thy ===== *)
theory Manager_Run
  imports Manager Records_Live Scheduler_Claims
begin

text \<open>
  The invariant that ties the credentials of the manager to the scheduler's: whatever the manager stores, the
  scheduler holds, up to the fields that no choice depends on. The exceptions are the credentials in a set \<open>S\<close>, whose
  last change the scheduler has not been given; of these it holds at most an older copy.
\<close>

section \<open>What the scheduler sees of a credential\<close>

definition sched_view :: "auth \<Rightarrow> auth" where
  "sched_view a = a\<lparr>auth_Success := 0, auth_Failed := 0, auth_recentRequests := [],
     auth_Quota := (auth_Quota a)\<lparr>q_Reason := [], q_BackoffLevel := 0\<rparr>\<rparr>"

definition visible :: "auth option \<Rightarrow> auth option" where
  "visible x = (case x of None \<Rightarrow> None | Some a \<Rightarrow> if executorKeyFromAuth (Some a) = [] \<or> auth_Disabled a then None else Some a)"

definition coherent_at :: "manager \<Rightarrow> string \<Rightarrow> bool" where
  "coherent_at m i \<longleftrightarrow>
     map_option (\<lambda>meta. sched_view (sm_auth meta)) (known (mgr_scheduler m) i) = map_option sched_view (visible (mget (mgr_auths m) i))"

definition stored_ok :: "model_lookup \<Rightarrow> manager \<Rightarrow> bool" where
  "stored_ok lookup m \<longleftrightarrow>
     wf_map (mgr_auths m) \<and> sane_env (mgr_env m) \<and>
     (\<forall>i a. mget (mgr_auths m) i = Some a \<longrightarrow> auth_ID a = i \<and> trimmed i \<and> i \<noteq> [] \<and> auth_live lookup a)"

definition sched_at :: "model_lookup \<Rightarrow> time \<Rightarrow> manager \<Rightarrow> bool" where
  "sched_at lookup t m \<longleftrightarrow> (\<exists>u \<le> t. sched_run lookup u (mgr_scheduler m) (known (mgr_scheduler m)))"

definition settled :: "string set \<Rightarrow> manager \<Rightarrow> string \<Rightarrow> bool" where
  "settled S m i \<longleftrightarrow> coherent_at m i \<or> i \<in> S \<and> mget (mgr_auths m) i \<noteq> None"

definition mgr_ok :: "model_lookup \<Rightarrow> time \<Rightarrow> string set \<Rightarrow> manager \<Rightarrow> bool" where
  "mgr_ok lookup t S m \<longleftrightarrow> stored_ok lookup m \<and> sched_at lookup t m \<and> (\<forall>i. settled S m i)"

lemma settled_stored: "settled S m i \<Longrightarrow> known (mgr_scheduler m) i \<noteq> None \<Longrightarrow> mget (mgr_auths m) i \<noteq> None"
  by (auto simp: settled_def coherent_at_def visible_def split: option.splits)

lemma settled_mono: "settled S m i \<Longrightarrow> S \<subseteq> S' \<Longrightarrow> settled S' m i"
  by (auto simp: settled_def)

lemma sched_run_known: "sched_run lookup t s K \<Longrightarrow> sched_run lookup t s (known s)"
  using sched_run_ok by blast

lemma sched_at_later: "sched_at lookup t m \<Longrightarrow> t \<le> t' \<Longrightarrow> sched_at lookup t' m"
  unfolding sched_at_def using order_trans by blast

lemma sched_at_nonneg: "sched_at lookup t m \<Longrightarrow> 0 \<le> t"
  using sched_run_ok by (fastforce simp: sched_at_def)

lemma mgr_ok_later: "mgr_ok lookup t S m \<Longrightarrow> t \<le> t' \<Longrightarrow> mgr_ok lookup t' S m"
  by (auto simp: mgr_ok_def intro: sched_at_later)

lemma mgr_ok_nonneg: "mgr_ok lookup t S m \<Longrightarrow> 0 \<le> t"
  by (auto simp: mgr_ok_def intro: sched_at_nonneg)

section \<open>Publishing\<close>

lemma publish_sched:
  assumes "sched_at lookup t m" "t \<le> nowS" "trimmed (auth_ID a)" "auth_ID a \<noteq> []"
  shows "sched_at lookup nowS (publish lookup nowS a m)"
    and "known (mgr_scheduler (publish lookup nowS a m)) =
         (known (mgr_scheduler m))(auth_ID a := schedulable lookup (mgr_registry m) a)"
proof -
  obtain u where u: "u \<le> t" "sched_run lookup u (mgr_scheduler m) (known (mgr_scheduler m))" using assms(1) by (auto simp: sched_at_def)
  have "sched_run lookup nowS (mgr_scheduler (publish lookup nowS a m))
      (upsert_known lookup (mgr_registry m) a (known (mgr_scheduler m)))"
    using sched_run.upsert [OF u(2), of nowS a "mgr_registry m"] u(1) assms(2,3) by (simp add: publish_def)
  then show "sched_at lookup nowS (publish lookup nowS a m)"
    "known (mgr_scheduler (publish lookup nowS a m)) = (known (mgr_scheduler m))(auth_ID a := schedulable lookup (mgr_registry m) a)"
    using sched_run_ok [of lookup nowS] assms(4) by (auto simp: sched_at_def upsert_known_def)
qed

lemma publish_fields [simp]:
  "mgr_auths (publish lookup nowS a m) = mgr_auths m" "mgr_registry (publish lookup nowS a m) = mgr_registry m"
  "mgr_env (publish lookup nowS a m) = mgr_env m" "stored_ok lookup' (publish lookup nowS a m) = stored_ok lookup' m"
  by (simp_all add: publish_def stored_ok_def)

lemma schedulable_visible: "map_option (\<lambda>meta. sched_view (sm_auth meta)) (schedulable lookup reg a) = map_option sched_view (visible (Some a))"
  by (auto simp: schedulable_def visible_def buildScheduledAuthMeta_def)

lemma publish_coherent:
  assumes "sched_at lookup t m" "t \<le> nowS" "trimmed (auth_ID a)" "auth_ID a \<noteq> []" "mget (mgr_auths m) (auth_ID a) = Some a"
  shows "coherent_at (publish lookup nowS a m) i \<longleftrightarrow> i = auth_ID a \<or> coherent_at m i"
  using publish_sched(2) [OF assms(1-4)] assms(5) schedulable_visible by (auto simp: coherent_at_def)

lemma publish_all_fields [simp]:
  "mgr_auths (publish_all lookup clk n as m) = mgr_auths m" "stored_ok lookup' (publish_all lookup clk n as m) = stored_ok lookup' m"
  by (induction as arbitrary: n m) auto

lemma publish_settled:
  assumes "sched_at lookup t m" "t \<le> nowS" "trimmed (auth_ID a)" "auth_ID a \<noteq> []" "mget (mgr_auths m) (auth_ID a) = Some a"
    and "i \<noteq> auth_ID a \<Longrightarrow> settled S m i"
  shows "settled (S - {auth_ID a}) (publish lookup nowS a m) i"
  using publish_coherent [OF assms(1-5), of i] assms(6) by (auto simp: settled_def)

lemma publish_all_step:
  assumes "mono clk" "stored_ok lookup m" "sched_at lookup (clk n) m" "\<forall>a \<in> set as. mget (mgr_auths m) (auth_ID a) = Some a"
  shows "(coherent_at m i \<or> i \<in> auth_ID ` set as \<longrightarrow> coherent_at (publish_all lookup clk n as m) i) \<and>
     sched_at lookup (clk (n + length as)) (publish_all lookup clk n as m)"
  using assms(2-)
proof (induction as arbitrary: n m)
  case (Cons a as)
  let ?m = "publish lookup (clk n) a m"
  have g: "mget (mgr_auths m) (auth_ID a) = Some a" using Cons.prems(3) by simp
  then have a: "mget (mgr_auths m) (auth_ID a) = Some a" "trimmed (auth_ID a)" "auth_ID a \<noteq> []"
    using Cons.prems(1) unfolding stored_ok_def by blast+
  have "sched_at lookup (clk (Suc n)) ?m"
    using sched_at_later [OF publish_sched(1) [OF Cons.prems(2) order_refl a(2,3)]] assms(1) by (simp add: mono_def)
  moreover have "\<forall>b \<in> set as. mget (mgr_auths ?m) (auth_ID b) = Some b" using Cons.prems(3) by simp
  ultimately have ih: "(coherent_at ?m i \<or> i \<in> auth_ID ` set as \<longrightarrow> coherent_at (publish_all lookup clk (Suc n) as ?m) i) \<and>
      sched_at lookup (clk (Suc n + length as)) (publish_all lookup clk (Suc n) as ?m)"
    using Cons.prems(1) by (intro Cons.IH) simp_all
  have "coherent_at m i \<or> i \<in> auth_ID ` set (a # as) \<Longrightarrow> coherent_at ?m i \<or> i \<in> auth_ID ` set as"
    unfolding publish_coherent [OF Cons.prems(2) order_refl a(2,3,1)] by auto
  with ih show ?case unfolding publish_all.simps by (metis add_Suc_shift length_Cons)
qed simp

lemma publish_all_ok:
  assumes "stored_ok lookup m" "sched_at lookup t m" "t \<le> clk n" "mono clk"
    and "\<forall>a \<in> set as. mget (mgr_auths m) (auth_ID a) = Some a" and "\<forall>i. i \<notin> auth_ID ` set as \<longrightarrow> settled S m i"
  shows "mgr_ok lookup (clk (n + length as)) S (publish_all lookup clk n as m)"
proof -
  note p = publish_all_step [OF assms(4,1) sched_at_later [OF assms(2,3)] assms(5)]
  have "settled S (publish_all lookup clk n as m) i" for i using p [of i] assms(6) unfolding settled_def by auto
  then show ?thesis unfolding mgr_ok_def using p assms(1) by (metis publish_all_fields(2))
qed

text \<open>A credential that is stored and published.\<close>

lemma store_publish_ok:
  assumes ok: "mgr_ok lookup t S m" and "t \<le> nowS" and a: "trimmed (auth_ID a)" "auth_ID a \<noteq> []" "auth_live lookup a"
    and m': "mgr_auths m' = mput (auth_ID a) a (mgr_auths m)" "mgr_scheduler m' = mgr_scheduler m" "mgr_env m' = mgr_env m"
  shows "mgr_ok lookup nowS (S - {auth_ID a}) (publish lookup nowS a m')"
proof -
  have st: "stored_ok lookup m'" using ok a by (auto simp: mgr_ok_def stored_ok_def m')
  have s: "sched_at lookup t m'" using ok by (simp add: mgr_ok_def sched_at_def m')
  have g: "mget (mgr_auths m') (auth_ID a) = Some a" by (simp add: m')
  have "settled (S - {auth_ID a}) (publish lookup nowS a m') i" for i
    using publish_settled [OF s assms(2) a(1,2) g, of i S] ok by (auto simp: mgr_ok_def settled_def coherent_at_def m')
  then show ?thesis using publish_sched(1) [OF s assms(2) a(1,2)] st by (simp add: mgr_ok_def)
qed

text \<open>The registry and the environment do not matter to the invariant.\<close>

lemma settled_fields [simp]:
  "settled S (m\<lparr>mgr_registry := r\<rparr>) i = settled S m i" "settled S (m\<lparr>mgr_env := e\<rparr>) i = settled S m i"
  by (simp_all add: settled_def coherent_at_def)

lemma mgr_ok_registry [simp]: "mgr_ok lookup t S (m\<lparr>mgr_registry := r\<rparr>) = mgr_ok lookup t S m"
  by (simp add: mgr_ok_def stored_ok_def sched_at_def)

lemma mgr_ok_env: "mgr_ok lookup t S m \<Longrightarrow> sane_env e \<Longrightarrow> mgr_ok lookup t S (m\<lparr>mgr_env := e\<rparr>)"
  by (simp add: mgr_ok_def stored_ok_def sched_at_def)

lemma executorKey_view: "executorKeyFromAuth (Some a) = executorKeyFromAuth (Some b)" if "sched_view a = sched_view b"
proof -
  have "auth_Provider (sched_view a) = auth_Provider (sched_view b)" "auth_Attributes (sched_view a) = auth_Attributes (sched_view b)"
    "auth_Label (sched_view a) = auth_Label (sched_view b)" using that by simp_all
  then show ?thesis by (simp add: sched_view_def executorKeyFromAuth_def Let_def)
qed

lemma view_visible: "sched_view a = sched_view b \<Longrightarrow> map_option sched_view (visible (Some a)) = map_option sched_view (visible (Some b))"
proof -
  assume v: "sched_view a = sched_view b"
  then have "auth_Disabled (sched_view a) = auth_Disabled (sched_view b)" by simp
  then have "auth_Disabled a = auth_Disabled b" by (simp add: sched_view_def)
  with executorKey_view [OF v] v show ?thesis by (simp add: visible_def)
qed

end
