(* ===== verification/Manager_Inv.thy ===== *)
theory Manager_Inv
  imports Manager_Run
begin

text \<open>Every operation of the manager keeps the invariant of \<^verbatim>\<open>Manager_Run\<close>.\<close>

declare map_of_eq_Some_iff [simp del]

section \<open>Identifiers\<close>

lemma normalize_ID [simp]: "auth_ID (snd (normalizeModelStates lookup a)) = auth_ID a"
  by (simp add: normalizeModelStates_def case_prod_beta)

lemma ensure_ID [simp]: "auth_ID (snd (ensureModelState lookup k a)) = auth_ID a"
  by (simp add: ensureModelState_def Let_def split: option.splits)

lemma set_state_ID [simp]: "auth_ID (set_model_state lookup k st a) = auth_ID a"
  by (simp add: set_model_state_def)

lemma clear_error_ID [simp]: "auth_ID (clear_error a) = auth_ID a"
  by (simp add: clear_error_def)

lemma mark_failure_ID: "auth_ID (fst (mark_model_failure lookup env k res now a)) = auth_ID a"
proof (cases "ensureModelState lookup k a")
  case (Pair x a1)
  then have "auth_ID a1 = auth_ID a" using ensure_ID [of lookup k a] by simp
  then show ?thesis
    by (cases x) (auto simp: mark_model_failure_def Pair Let_def case_prod_beta split: option.split)
qed

lemma mark_success_ID: "auth_ID (fst (mark_model_success lookup k now a)) = auth_ID a"
proof (cases "ensureModelState lookup k a")
  case (Pair x a1)
  then have "auth_ID a1 = auth_ID a" using ensure_ID [of lookup k a] by simp
  then show ?thesis by (cases x) (auto simp: mark_model_success_def Pair Let_def)
qed

lemma applyAuthFailure_ID: "auth_ID (applyAuthFailureState secs err ra now dc a) = auth_ID a"
proof -
  have "auth_ID (auth_fail_end dc b) = auth_ID b" "auth_ID (auth_fail_schedule secs dc err ra now b) = auth_ID b" for b
    by (simp_all add: auth_fail_defs auth_fail_schedule_def Let_def case_prod_beta)
  then show ?thesis by (simp add: applyAuthFailureState_def Let_def split: option.split)
qed

lemma mark_auth_ID: "auth_ID (fst (mark_auth lookup env res now a)) = auth_ID a"
  by (simp add: mark_auth_def Let_def mark_failure_ID mark_success_ID applyAuthFailure_ID clearAuthStateOnSuccess_def)

lemma admit_ID: "auth_ID (admit lookup env now a) = auth_ID a"
  by (simp add: admit_def Let_def)

lemma inherit_ID: "auth_ID (inherit_state old a) = auth_ID a"
  by (simp add: inherit_state_def Let_def)

lemma reset_quota_ID: "auth_ID (fst (reset_quota_auth ms now a)) = auth_ID a"
proof -
  have "auth_ID (reset_states now a) = auth_ID a" by (simp add: reset_states_def)
  then show ?thesis by (simp add: reset_quota_auth_def case_prod_beta Let_def)
qed

lemma reconcile_ID: "auth_ID (snd (reconcile_auth lookup supported now a)) = auth_ID a"
  by (simp add: reconcile_auth_def case_prod_beta Let_def)

lemma restore_ID: "auth_ID (snd (restore_record lookup env rec now a)) = auth_ID a"
proof (cases "ensureModelState lookup (TrimSpace (cr_Model rec)) a")
  case (Pair x a1)
  then have "auth_ID a1 = auth_ID a" using ensure_ID [of lookup "TrimSpace (cr_Model rec)" a] by simp
  then show ?thesis by (auto simp: restore_record_def Pair Let_def split: option.split)
qed

section \<open>Operations\<close>

lemma storedD:
  assumes "mgr_ok lookup t S m" "mget (mgr_auths m) i = Some a"
  shows "auth_ID a = i" "trimmed i" "i \<noteq> []" "auth_live lookup a"
  using assms unfolding mgr_ok_def stored_ok_def by blast+

text \<open>Ids the manager does not store are never stale.\<close>

lemma unstored_ok:
  assumes ok: "mgr_ok lookup t S m" and "t \<le> t'" "mget (mgr_auths m) i = None"
  shows "mgr_ok lookup t' (S - {i}) m"
proof -
  have "settled (S - {i}) m j" for j using ok assms(3) unfolding mgr_ok_def settled_def by auto
  then show ?thesis using mgr_ok_later [OF ok assms(2)] by (simp add: mgr_ok_def)
qed

lemma empty_unstored: "mgr_ok lookup t S m \<Longrightarrow> mget (mgr_auths m) [] = None"
  using storedD(3) by (metis not_None_eq)

lemma restore_publish_ok:
  assumes ok: "mgr_ok lookup t S m" and "t \<le> nowS" and g: "mget (mgr_auths m) i = Some a"
    and a': "auth_ID a' = auth_ID a" "auth_live lookup a'"
    and m': "mgr_auths m' = mput i a' (mgr_auths m)" "mgr_scheduler m' = mgr_scheduler m" "mgr_env m' = mgr_env m"
  shows "mgr_ok lookup nowS (S - {i}) (publish lookup nowS a' m')"
proof -
  have "mgr_ok lookup nowS (S - {auth_ID a'}) (publish lookup nowS a' m')"
    using storedD [OF ok g] a' m' by (intro store_publish_ok [OF ok assms(2)]) auto
  then show ?thesis using storedD(1) [OF ok g] a'(1) by simp
qed

text \<open>A stored credential that changes without the scheduler being told.\<close>

lemma unpublished_ok:
  assumes ok: "mgr_ok lookup t S m" and g: "mget (mgr_auths m) i = Some a" and a': "auth_ID a' = auth_ID a" "auth_live lookup a'"
  shows "mgr_ok lookup t (insert i S) (m\<lparr>mgr_auths := mput i a' (mgr_auths m)\<rparr>)"
proof -
  have "stored_ok lookup (m\<lparr>mgr_auths := mput i a' (mgr_auths m)\<rparr>)"
    using ok storedD [OF ok g] a' by (auto simp: mgr_ok_def stored_ok_def)
  moreover have "settled (insert i S) (m\<lparr>mgr_auths := mput i a' (mgr_auths m)\<rparr>) j" for j
    using ok by (auto simp: mgr_ok_def settled_def coherent_at_def)
  ultimately show ?thesis using ok by (simp add: mgr_ok_def sched_at_def)
qed

text \<open>A snapshot that may be out of date, handed over for a credential that is stored.\<close>

lemma late_ok:
  assumes ok: "mgr_ok lookup t S m" and "t \<le> nowS" and g: "mget (mgr_auths m) (auth_ID s) \<noteq> None"
  shows "mgr_ok lookup nowS (insert (auth_ID s) S) (publish lookup nowS s m)"
proof -
  obtain a where a: "mget (mgr_auths m) (auth_ID s) = Some a" using g by blast
  have sa: "sched_at lookup t m" using ok by (simp add: mgr_ok_def)
  note p = publish_sched [OF sa assms(2) storedD(2,3) [OF ok a]]
  have "settled (insert (auth_ID s) S) (publish lookup nowS s m) j" for j
    using ok a p(2) by (auto simp: mgr_ok_def settled_def coherent_at_def)
  then show ?thesis using p(1) ok by (simp add: mgr_ok_def)
qed
lemma mark_locked_ok:
  assumes ok: "mgr_ok lookup t S m" and "t \<le> now" "0 < now" "plain_model lookup (res_Model res)" "sane_retry (res_RetryAfter res)"
  shows "mgr_ok lookup now (insert (res_AuthID res) S) (snd (mark_locked lookup res now m))"
proof (cases "mget (mgr_auths m) (res_AuthID res)")
  case None
  then show ?thesis using mgr_ok_later [OF ok assms(2)] settled_mono [of S m _ "insert (res_AuthID res) S"]
    by (auto simp: mark_locked_def mgr_ok_def)
next
  case (Some a)
  have env: "sane_env (mgr_env m)" using ok by (simp add: mgr_ok_def stored_ok_def)
  have live: "auth_live lookup (fst (mark_auth lookup (mgr_env m) res now a))"
    using storedD(4) [OF ok Some] assms env by (intro mark_auth_live)
  from unpublished_ok [OF mgr_ok_later [OF ok assms(2)] Some _ this] show ?thesis by (simp add: mark_locked_def Some Let_def mark_auth_ID)
qed

lemma MarkResult_ok:
  assumes ok: "mgr_ok lookup t S m" and t: "t \<le> now" "0 < now" "now \<le> nowS"
    and "plain_model lookup (res_Model res)" "sane_retry (res_RetryAfter res)"
  shows "mgr_ok lookup nowS (S - {res_AuthID res}) (MarkResult lookup res now nowS nowR m)"
proof (cases "mget (mgr_auths m) (res_AuthID res) = None")
  case True
  then have "MarkResult lookup res now nowS nowR m = m" by (simp add: MarkResult_def mark_locked_def)
  then show ?thesis using unstored_ok [OF ok _ True] t by simp
next
  case False
  then obtain a where a: "mget (mgr_auths m) (res_AuthID res) = Some a" by blast
  let ?p = "mark_auth lookup (mgr_env m) res now a"
  have env: "sane_env (mgr_env m)" using ok by (simp add: mgr_ok_def stored_ok_def)
  have live: "auth_live lookup (fst ?p)" using storedD(4) [OF ok a] assms(5,6) t(2) env by (intro mark_auth_live)
  have "MarkResult lookup res now nowS nowR m =
      (publish lookup nowS (fst ?p) (m\<lparr>mgr_auths := mput (res_AuthID res) (fst ?p) (mgr_auths m)\<rparr>))
        \<lparr>mgr_registry := report_registry (res_AuthID res) (canonicalModelKey lookup (res_Model res)) (snd ?p) nowR (mgr_registry m)\<rparr>"
    using storedD(3) [OF ok a] by (simp add: MarkResult_def mark_locked_def a Let_def case_prod_beta)
  moreover have "mgr_ok lookup nowS (S - {res_AuthID res}) (publish lookup nowS (fst ?p) (m\<lparr>mgr_auths := mput (res_AuthID res) (fst ?p) (mgr_auths m)\<rparr>))"
    using t live by (intro restore_publish_ok [OF ok _ a]) (simp_all add: mark_auth_ID)
  ultimately show ?thesis by simp
qed

lemma admit_ok: "0 \<le> now \<Longrightarrow> auth_live lookup a \<Longrightarrow> auth_live lookup (admit lookup env now a)"
  unfolding admit_def Let_def by (rule admit_live)

text \<open>The ids whose credential an operation stored and handed to the scheduler are not stale any more.\<close>

definition handed :: "weight_error + auth option \<Rightarrow> string set" where
  "handed r = (case r of Inr (Some a) \<Rightarrow> {auth_ID a} | _ \<Rightarrow> {})"

lemma Register_ok:
  assumes ok: "mgr_ok lookup t S m" and t: "t \<le> now" "now \<le> nowS"
    and a: "trimmed (auth_ID a)" "auth_live lookup a" and new: "trimmed newID" "newID \<noteq> []"
  shows "mgr_ok lookup nowS (S - handed (fst (Register lookup newID (Some a) now nowS m))) (snd (Register lookup newID (Some a) now nowS m))"
proof (cases "ValidateAuthWeight (Some a)")
  case (Some err)
  then show ?thesis using mgr_ok_later [OF ok] t by (simp add: Register_def handed_def)
next
  case None
  define a1 where "a1 = (if auth_ID a = [] then a\<lparr>auth_ID := newID\<rparr> else a)"
  have a1: "trimmed (auth_ID a1)" "auth_ID a1 \<noteq> []" "auth_live lookup a1"
    using a new by (auto simp: a1_def auth_live_def own_live_def)
  have 0: "0 \<le> now" using mgr_ok_nonneg [OF ok] t by simp
  have "mgr_ok lookup nowS (S - {auth_ID (admit lookup (mgr_env m) now a1)})
      (publish lookup nowS (admit lookup (mgr_env m) now a1) (store_auth (admit lookup (mgr_env m) now a1) m))"
    using a1 t admit_ok [OF 0] by (intro store_publish_ok [OF ok]) (simp_all add: admit_ID store_auth_def)
  then show ?thesis by (simp add: Register_def None Let_def a1_def handed_def)
qed

lemma inherit_live: "auth_live lookup old \<Longrightarrow> auth_live lookup a \<Longrightarrow> auth_live lookup (inherit_state old a)"
  by (simp add: inherit_state_def Let_def auth_live_def own_live_def)

lemma Update_ok:
  assumes ok: "mgr_ok lookup t S m" and t: "t \<le> now" "now \<le> nowS" and a: "auth_live lookup a"
  shows "mgr_ok lookup nowS (S - handed (fst (Update lookup (Some a) now nowS m))) (snd (Update lookup (Some a) now nowS m))"
proof (cases "auth_ID a = [] \<or> ValidateAuthWeight (Some a) \<noteq> None \<or> mget (mgr_auths m) (auth_ID a) = None")
  case True
  then have "snd (Update lookup (Some a) now nowS m) = m \<and> handed (fst (Update lookup (Some a) now nowS m)) = {}"
    by (auto simp: Update_def handed_def split: option.split)
  then show ?thesis using mgr_ok_later [OF ok] t by simp
next
  case False
  then obtain old where old: "mget (mgr_auths m) (auth_ID a) = Some old" by blast
  let ?a = "admit lookup (mgr_env m) now (inherit_state old a)"
  have 0: "0 \<le> now" using mgr_ok_nonneg [OF ok] t by simp
  note s = storedD [OF ok old]
  have "mgr_ok lookup nowS (S - {auth_ID ?a}) (publish lookup nowS ?a (store_auth ?a m))"
    using t s admit_ok [OF 0 inherit_live [OF s(4) a]] by (intro store_publish_ok [OF ok]) (simp_all add: admit_ID inherit_ID store_auth_def)
  then show ?thesis using False old by (simp add: Update_def Let_def handed_def)
qed

lemma Remove_ok:
  assumes ok: "mgr_ok lookup t S m"
  shows "mgr_ok lookup t (S - {TrimSpace i}) (Remove i m)"
proof (cases "mget (mgr_auths m) (TrimSpace i) = None")
  case True
  then have "Remove i m = m" by (auto simp: Remove_def Let_def)
  then show ?thesis using unstored_ok [OF ok order_refl True] by simp
next
  case False
  let ?i = "TrimSpace i"
  have R: "Remove i m = m\<lparr>mgr_auths := mdel ?i (mgr_auths m), mgr_scheduler := removeAuth ?i (mgr_scheduler m)\<rparr>"
    using False empty_unstored [OF ok] by (auto simp: Remove_def Let_def)
  obtain u where u: "u \<le> t" "sched_run lookup u (mgr_scheduler m) (known (mgr_scheduler m))"
    using ok by (auto simp: mgr_ok_def sched_at_def)
  have run: "sched_run lookup u (removeAuth ?i (mgr_scheduler m)) ((known (mgr_scheduler m))(?i := None))"
    using sched_run.remove [OF u(2), of ?i] by simp
  then have k: "known (removeAuth ?i (mgr_scheduler m)) = (known (mgr_scheduler m))(?i := None)" using sched_run_ok by blast
  have "stored_ok lookup (Remove i m)" using ok by (auto simp: mgr_ok_def stored_ok_def R)
  moreover have "sched_at lookup t (Remove i m)" using u(1) run k by (auto simp: sched_at_def R)
  moreover have "settled (S - {?i}) (Remove i m) j" for j using ok by (auto simp: mgr_ok_def settled_def coherent_at_def R k visible_def)
  ultimately show ?thesis by (simp add: mgr_ok_def)
qed

lemma view_change_ok:
  assumes ok: "mgr_ok lookup t S m" and g: "mget (mgr_auths m) i = Some a"
    and a': "auth_ID a' = auth_ID a" "auth_live lookup a'" "sched_view a' = sched_view a"
  shows "mgr_ok lookup t S (m\<lparr>mgr_auths := mput i a' (mgr_auths m)\<rparr>)"
proof -
  have "stored_ok lookup (m\<lparr>mgr_auths := mput i a' (mgr_auths m)\<rparr>)"
    using ok storedD [OF ok g] a' by (auto simp: mgr_ok_def stored_ok_def)
  moreover have "settled S (m\<lparr>mgr_auths := mput i a' (mgr_auths m)\<rparr>) j" for j
  proof -
    have "settled S m j" using ok by (simp add: mgr_ok_def)
    then show ?thesis using view_visible [OF a'(3)] g by (cases "j = i") (auto simp: settled_def coherent_at_def)
  qed
  ultimately show ?thesis using ok by (simp add: mgr_ok_def sched_at_def)
qed

lemma count_view: "sched_view (count_request s now a) = sched_view a"
  by (simp add: sched_view_def count_request_def recordRecentRequest_def Let_def)

lemma neutral_ok:
  assumes ok: "mgr_ok lookup t S m"
  shows "mgr_ok lookup t S (recordAvailabilityNeutralResult res now m)"
proof (cases "res_AuthID res = [] \<or> mget (mgr_auths m) (res_AuthID res) = None")
  case False
  then obtain a where a: "mget (mgr_auths m) (res_AuthID res) = Some a" by blast
  have "mgr_ok lookup t S (m\<lparr>mgr_auths := mput (res_AuthID res) (count_request (res_Success res) now a) (mgr_auths m)\<rparr>)"
    using storedD(4) [OF ok a] by (intro view_change_ok [OF ok a]) (simp_all add: count_view)
  then show ?thesis using False a by (simp add: recordAvailabilityNeutralResult_def)
qed (use ok in \<open>auto simp: recordAvailabilityNeutralResult_def\<close>)

lemma ResetQuota_ok:
  assumes ok: "mgr_ok lookup t S m" and t: "t \<le> now" "now \<le> nowS"
  shows "mgr_ok lookup nowS (if saved then S - {TrimSpace i} else insert (TrimSpace i) S) (snd (ResetQuota lookup saved i now nowR nowS m))"
proof (cases "mget (mgr_auths m) (TrimSpace i) = None")
  case True
  then have "snd (ResetQuota lookup saved i now nowR nowS m) = m" by (auto simp: ResetQuota_def Let_def)
  moreover have "mgr_ok lookup nowS (insert (TrimSpace i) S) m"
    using mgr_ok_later [OF ok, of nowS] t settled_mono [of S m _ "insert (TrimSpace i) S"] by (auto simp: mgr_ok_def)
  ultimately show ?thesis using unstored_ok [OF ok _ True, of nowS] t by simp
next
  case False
  then obtain a where a: "mget (mgr_auths m) (TrimSpace i) = Some a" by blast
  let ?r = "reset_quota_auth (modelsForRegisteredAuth lookup (TrimSpace i) (mgr_registry m)) now a"
  have 0: "0 \<le> now" using mgr_ok_nonneg [OF ok] t by simp
  have live: "auth_live lookup (fst ?r)" by (rule reset_quota_live [OF 0 storedD(4) [OF ok a]])
  then have "mgr_ok lookup nowS (S - {TrimSpace i})
      (publish lookup nowS (fst ?r) (m\<lparr>mgr_auths := mput (TrimSpace i) (fst ?r) (mgr_auths m), mgr_registry := reg\<rparr>))" for reg
    using t by (intro restore_publish_ok [OF ok _ a]) (simp_all add: reset_quota_ID)
  moreover have "mgr_ok lookup nowS (insert (TrimSpace i) S) (m\<lparr>mgr_auths := mput (TrimSpace i) (fst ?r) (mgr_auths m)\<rparr>)"
    using t live by (intro unpublished_ok [OF mgr_ok_later [OF ok] a]) (simp_all add: reset_quota_ID)
  ultimately show ?thesis using storedD(3) [OF ok a] a by (simp add: ResetQuota_def Let_def case_prod_beta)
qed

lemma Reconcile_ok:
  assumes ok: "mgr_ok lookup t S m" and t: "t \<le> now" "now \<le> nowS"
  shows "mgr_ok lookup nowS S (ReconcileRegistryModelStates lookup i now nowS m)"
proof (cases "i = [] \<or> mget (mgr_auths m) i = None")
  case True
  then have "ReconcileRegistryModelStates lookup i now nowS m = m" by (auto simp: ReconcileRegistryModelStates_def Let_def)
  then show ?thesis using mgr_ok_later [OF ok] t by simp
next
  case False
  then obtain a where a: "mget (mgr_auths m) i = Some a" by blast
  let ?s = "filter (\<lambda>k. k \<noteq> []) (map (\<lambda>md. canonicalModelKey lookup (mi_ID md)) (GetModelsForClient i (mgr_registry m)))"
  let ?r = "reconcile_auth lookup ?s now a"
  have 0: "0 \<le> now" using mgr_ok_nonneg [OF ok] t by simp
  have "mgr_ok lookup nowS (S - {i}) (publish lookup nowS (snd ?r) (m\<lparr>mgr_auths := mput i (snd ?r) (mgr_auths m)\<rparr>))"
    using t storedD(4) [OF ok a] reconcile_live [OF 0] by (intro restore_publish_ok [OF ok _ a]) (simp_all add: reconcile_ID)
  then have p: "mgr_ok lookup nowS S (publish lookup nowS (snd ?r) (m\<lparr>mgr_auths := mput i (snd ?r) (mgr_auths m)\<rparr>))"
    using settled_mono [of "S - {i}" _ _ S] by (auto simp: mgr_ok_def)
  show ?thesis
  proof (cases "fst ?r")
    case True
    then have "ReconcileRegistryModelStates lookup i now nowS m = publish lookup nowS (snd ?r) (m\<lparr>mgr_auths := mput i (snd ?r) (mgr_auths m)\<rparr>)"
      using \<open>\<not> (i = [] \<or> _)\<close> a by (cases ?r) (simp add: ReconcileRegistryModelStates_def)
    then show ?thesis using p by simp
  next
    case no: False
    then have "ReconcileRegistryModelStates lookup i now nowS m = m"
      using \<open>\<not> (i = [] \<or> _)\<close> a by (cases ?r) (simp add: ReconcileRegistryModelStates_def)
    then show ?thesis using mgr_ok_later [OF ok] t by simp
  qed
qed

section \<open>Rebuilding and refreshing the scheduler\<close>

lemma fold_upsert_known:
  assumes "wf_map L" "\<forall>(i, a) \<in> set L. auth_ID a = i \<and> i \<noteq> []"
  shows "fold (upsert_known lookup reg) (map snd L) K i = (case mget L i of None \<Rightarrow> K i | Some a \<Rightarrow> schedulable lookup reg a)"
  using assms
proof (induction L arbitrary: K)
  case (Cons e L)
  obtain j a where e: "e = (j, a)" by fastforce
  have "auth_ID a = j" "j \<noteq> []" "j \<notin> fst ` set L" using Cons.prems by (auto simp: e)
  moreover from this(3) have "mget L j = None" by (simp add: mget_eq_None_iff)
  ultimately show ?case using Cons by (auto simp: e upsert_known_def split: option.splits)
qed simp

lemma sync_ok:
  assumes st: "stored_ok lookup m" and s: "sched_at lookup t m" "t \<le> nowS"
  shows "mgr_ok lookup nowS {} (syncScheduler lookup nowS m)"
proof -
  let ?s = "rebuild lookup (mgr_registry m) (map Some (snapshotAuths m)) nowS (mgr_scheduler m)"
  obtain u where u: "u \<le> t" "sched_run lookup u (mgr_scheduler m) (known (mgr_scheduler m))" using s(1) by (auto simp: sched_at_def)
  have L: "wf_map (mgr_auths m)" "\<forall>(i, a) \<in> set (mgr_auths m). auth_ID a = i \<and> i \<noteq> [] \<and> trimmed i"
    using st unfolding stored_ok_def by (auto dest: map_of_is_SomeI)
  then have "\<forall>a \<in> set (snapshotAuths m). trimmed (auth_ID a)" by (auto simp: snapshotAuths_def)
  with sched_run.rebuild [OF u(2), of nowS "snapshotAuths m" "mgr_registry m"] u(1) s(2)
  have run: "sched_run lookup nowS ?s (fold (upsert_known lookup (mgr_registry m)) (snapshotAuths m) (\<lambda>_. None))" by simp
  then have k: "known ?s = fold (upsert_known lookup (mgr_registry m)) (snapshotAuths m) (\<lambda>_. None)" using sched_run_ok by blast
  have "known ?s i = (case mget (mgr_auths m) i of None \<Rightarrow> None | Some a \<Rightarrow> schedulable lookup (mgr_registry m) a)" for i
  proof -
    have "\<forall>(i, a) \<in> set (mgr_auths m). auth_ID a = i \<and> i \<noteq> []" using L(2) by auto
    from fold_upsert_known [OF L(1) this, of lookup "mgr_registry m" "\<lambda>_. None" i] show ?thesis
      unfolding k by (simp add: snapshotAuths_def)
  qed
  then have "coherent_at (syncScheduler lookup nowS m) i" for i
    using schedulable_visible [of lookup "mgr_registry m"]
    by (cases "mget (mgr_auths m) i") (auto simp: coherent_at_def syncScheduler_def visible_def)
  moreover have "sched_at lookup nowS (syncScheduler lookup nowS m)" using run k by (auto simp: sched_at_def syncScheduler_def)
  ultimately show ?thesis using st by (simp add: mgr_ok_def settled_def stored_ok_def syncScheduler_def)
qed

definition item_ok :: "model_lookup \<Rightarrow> string \<Rightarrow> auth \<Rightarrow> bool" where
  "item_ok lookup i a \<longleftrightarrow> auth_ID a = i \<and> trimmed i \<and> i \<noteq> [] \<and> auth_live lookup a"

lemma load_items_ok:
  assumes "\<forall>a. Some a \<in> set items \<longrightarrow> trimmed (auth_ID a) \<and> auth_live lookup a"
  shows "wf_map (load_items items) \<and> (\<forall>i a. mget (load_items items) i = Some a \<longrightarrow> item_ok lookup i a)"
proof -
  let ?f = "\<lambda>item auths. case item of None \<Rightarrow> auths
      | Some a \<Rightarrow> if auth_ID a = [] \<or> ValidateAuthWeight item \<noteq> None then auths else mput (auth_ID a) a auths"
  let ?P = "\<lambda>L. wf_map L \<and> (\<forall>i a. mget L i = Some a \<longrightarrow> item_ok lookup i a)"
  have step: "?P (?f x L)" if L: "?P L" and x: "\<forall>a. x = Some a \<longrightarrow> trimmed (auth_ID a) \<and> auth_live lookup a" for x L
  proof (cases x)
    case (Some a)
    have "auth_ID a \<noteq> [] \<Longrightarrow> item_ok lookup (auth_ID a) a" using x Some by (simp add: item_ok_def)
    then show ?thesis using L Some by simp
  qed (use L in simp)
  have "?P (fold ?f xs L)" if "?P L" "\<forall>a. Some a \<in> set xs \<longrightarrow> trimmed (auth_ID a) \<and> auth_live lookup a" for xs L
    using that
  proof (induction xs arbitrary: L)
    case (Cons x xs)
    have "?P (?f x L)" using Cons.prems by (intro step) auto
    from Cons.IH [OF this] Cons.prems(2) show ?case by simp
  qed simp
  from this [of "[]" items] assms show ?thesis by (simp add: load_items_def)
qed

lemma Load_ok:
  assumes "mgr_ok lookup t S m" "t \<le> nowS" "\<forall>a. Some a \<in> set items \<longrightarrow> trimmed (auth_ID a) \<and> auth_live lookup a"
  shows "mgr_ok lookup nowS {} (Load lookup items nowS m)"
  unfolding Load_def using assms(1,2) load_items_ok [OF assms(3)]
  by (intro sync_ok [where t = t]) (auto simp: mgr_ok_def stored_ok_def sched_at_def item_ok_def)

lemma SetSelector_ok:
  assumes ok: "mgr_ok lookup t S m" and "t \<le> nowS"
  shows "mgr_ok lookup nowS {} (SetSelector lookup sel nowS m)"
proof -
  let ?s = "setSelector (if sel = NilSelector then RoundRobinSelector else sel) (mgr_scheduler m)"
  obtain u where u: "u \<le> t" "sched_run lookup u (mgr_scheduler m) (known (mgr_scheduler m))"
    using ok by (auto simp: mgr_ok_def sched_at_def)
  have "sched_run lookup u ?s (known ?s)" by (rule sched_run_known [OF sched_run.select [OF u(2)]])
  then have "sched_at lookup t (m\<lparr>mgr_scheduler := ?s\<rparr>)" using u(1) by (auto simp: sched_at_def)
  then show ?thesis unfolding SetSelector_def using ok assms(2) by (intro sync_ok [where t = t]) (auto simp: mgr_ok_def stored_ok_def)
qed

lemma Refresh_ok:
  assumes ok: "mgr_ok lookup t S m" and "t \<le> nowS"
  shows "mgr_ok lookup nowS (S - {i}) (RefreshSchedulerEntry lookup i nowS m)"
proof (cases "mget (mgr_auths m) i = None")
  case False
  then obtain a where a: "mget (mgr_auths m) i = Some a" by blast
  note s = storedD [OF ok a]
  have sa: "sched_at lookup t m" using ok by (simp add: mgr_ok_def)
  have "mgr_ok lookup nowS (S - {auth_ID a}) (publish lookup nowS a m)"
    unfolding mgr_ok_def using publish_sched(1) [OF sa assms(2), of a] publish_settled [OF sa assms(2), of a _ S] s a ok
    by (auto simp: mgr_ok_def)
  then show ?thesis using a s by (simp add: RefreshSchedulerEntry_def)
qed (use unstored_ok [OF ok assms(2)] in \<open>auto simp: RefreshSchedulerEntry_def\<close>)

lemma RefreshAll_ok:
  assumes "mgr_ok lookup t S m" "t \<le> clk 0" "mono clk"
  shows "mgr_ok lookup (clk (length (mgr_auths m))) {} (RefreshSchedulerAll lookup clk m)"
proof -
  have "mgr_ok lookup (clk (n + length ids)) (T - set ids) (refresh_each lookup clk n ids m') \<and>
      mgr_auths (refresh_each lookup clk n ids m') = mgr_auths m'" if "mgr_ok lookup (clk n) T m'" for n ids T m'
    using that
  proof (induction ids arbitrary: n T m')
    case (Cons i ids)
    have "mgr_ok lookup (clk (Suc n)) (T - {i}) (RefreshSchedulerEntry lookup i (clk n) m')"
      using mgr_ok_later [OF Refresh_ok [OF Cons.prems order_refl]] assms(3) by (simp add: mono_def)
    moreover have "T - set (i # ids) = T - {i} - set ids" by auto
    moreover have "mgr_auths (RefreshSchedulerEntry lookup i (clk n) m') = mgr_auths m'"
      by (simp add: RefreshSchedulerEntry_def split: option.split)
    ultimately show ?case using Cons.IH [of "Suc n" "T - {i}" "RefreshSchedulerEntry lookup i (clk n) m'"] by simp
  qed simp
  from this [of 0 S m "map fst (mgr_auths m)"] mgr_ok_later [OF assms(1,2)]
  have r: "mgr_ok lookup (clk (length (mgr_auths m))) (S - fst ` set (mgr_auths m)) (RefreshSchedulerAll lookup clk m)"
    "mgr_auths (RefreshSchedulerAll lookup clk m) = mgr_auths m" by (simp_all add: RefreshSchedulerAll_def)
  have "settled {} (RefreshSchedulerAll lookup clk m) i" for i
  proof -
    have "settled (S - fst ` set (mgr_auths m)) (RefreshSchedulerAll lookup clk m) i" using r(1) unfolding mgr_ok_def by blast
    then show ?thesis unfolding settled_def r(2) mget_eq_None_iff by blast
  qed
  then show ?thesis using r(1) by (simp add: mgr_ok_def)
qed

end
