(* ===== verification/Manager_Restore.thy ===== *)
theory Manager_Restore
  imports Manager_Inv
begin

text \<open>
  Changes of the configuration, restored records and picks keep the invariant; the runs of the manager.
\<close>

section \<open>Changes of the configuration\<close>

text \<open>A credential without a cool-down looks the same after clearing.\<close>

lemma quiet_aggregate:
  assumes "\<forall>x \<in> set xs. \<forall>st. x = Some st \<longrightarrow> ms_Status st \<noteq> StatusDisabled \<and> \<not> ms_Unavailable st \<and> \<not> q_Exceeded (ms_Quota st)"
    and "\<not> ag_quotaExceeded g" "ag_earliestRetry g = 0" "ag_hasState g \<longrightarrow> \<not> ag_allUnavailable g"
  shows "\<not> ag_quotaExceeded (fold (aggregate_state now) xs g) \<and> ag_earliestRetry (fold (aggregate_state now) xs g) = 0 \<and>
     (ag_hasState (fold (aggregate_state now) xs g) \<longrightarrow> \<not> ag_allUnavailable (fold (aggregate_state now) xs g))"
  using assms
proof (induction xs arbitrary: g)
  case (Cons x xs)
  have "\<not> ag_quotaExceeded (aggregate_state now x g) \<and> ag_earliestRetry (aggregate_state now x g) = 0 \<and>
      (ag_hasState (aggregate_state now x g) \<longrightarrow> \<not> ag_allUnavailable (aggregate_state now x g))"
    using Cons.prems by (cases x) (simp_all add: aggregate_state_def retry_pending_def Let_def)
  with Cons show ?case by simp
qed simp

lemma clear_unchanged_view:
  assumes live: "auth_live lookup a" and un: "\<not> fst (clearCooldownStateForAuth now a)"
  shows "sched_view (snd (clearCooldownStateForAuth now a)) = sched_view a"
proof -
  have own: "\<not> auth_Unavailable a" "auth_NextRetryAfter a = 0" "\<not> q_Exceeded (auth_Quota a)" "q_NextRecoverAt (auth_Quota a) = 0"
    and sts: "\<forall>(k, x) \<in> set (auth_ModelStates a). \<not> state_has_cooldown x"
    using un by (auto simp: clearCooldownStateForAuth_def Let_def has_cooldown_def list_ex_iff)
  have quiet: "ms_Status st \<noteq> StatusDisabled \<and> \<not> ms_Unavailable st \<and> \<not> q_Exceeded (ms_Quota st)" if "(k, Some st) \<in> set (auth_ModelStates a)" for k st
    using that sts live by (force simp: auth_live_def live_states_def state_live_def state_has_cooldown_def has_cooldown_def)
  have same: "map (\<lambda>(k, x). (k, clear_state now x)) (auth_ModelStates a) = auth_ModelStates a"
    using sts by (intro map_idI) (auto simp: clear_state_def)
  have exp: "map (\<lambda>(k, x). (k, map_option (expire_state now) x)) (auth_ModelStates a) = auth_ModelStates a"
  proof (intro map_idI)
    fix e assume e: "e \<in> set (auth_ModelStates a)"
    obtain k x where kx: "e = (k, x)" by fastforce
    show "(case e of (k, x) \<Rightarrow> (k, map_option (expire_state now) x)) = e"
      using quiet [of k] e by (cases x) (simp_all add: kx expire_state_def)
  qed
  define g where "g = aggregate_states now (auth_ModelStates a)"
  have g: "\<not> ag_quotaExceeded g" "ag_hasState g \<longrightarrow> \<not> ag_allUnavailable g"
    using quiet_aggregate [of "map snd (auth_ModelStates a)" _ now] quiet by (force simp: g_def aggregate_states_def)+
  have c: "snd (clearCooldownStateForAuth now a) = (if auth_ModelStates a \<noteq> [] then updateAggregatedAvailability a now else a)"
    using own same by (simp add: clearCooldownStateForAuth_def Let_def has_cooldown_def)
  show ?thesis
  proof (cases "auth_ModelStates a = []")
    case False
    have "updateAggregatedAvailability a now = a\<lparr>auth_Unavailable := False, auth_NextRetryAfter := 0, auth_Quota := zero_quota\<rparr>"
      using False g exp by (auto simp: updateAggregatedAvailability_def g_def [symmetric] Let_def clearAggregatedAvailability_def)
    moreover have "sched_view (a\<lparr>auth_Unavailable := False, auth_NextRetryAfter := 0, auth_Quota := zero_quota\<rparr>) = sched_view a"
    proof -
      obtain q where q: "auth_Quota a = q" by blast
      have "q\<lparr>q_Reason := [], q_BackoffLevel := 0\<rparr> = zero_quota" using own q by (cases q) (simp add: zero_quota_def)
      moreover have "zero_quota\<lparr>q_Reason := [], q_BackoffLevel := 0\<rparr> = zero_quota" by (simp add: zero_quota_def)
      ultimately show ?thesis using own q by (cases a) (simp add: sched_view_def)
    qed
    ultimately show ?thesis using c False by simp
  qed (simp add: c)
qed

lemma mget_clear: "mget (map (clear_disabled_entry env now) L) i = map_option (\<lambda>a. snd (clear_disabled_entry env now (i, a))) (mget L i)"
  by (induction L) (auto simp: clear_disabled_entry_def)

lemma keys_clear: "map fst (map (clear_disabled_entry env now) L) = map fst L"
  by (induction L) (auto simp: clear_disabled_entry_def)

lemma clear_entry_ok:
  assumes "0 \<le> now" "auth_live lookup a"
  shows "auth_live lookup (snd (clear_disabled_entry env now (i, a)))" "auth_ID (snd (clear_disabled_entry env now (i, a))) = auth_ID a"
  using assms clear_live [OF assms(1), of lookup a] by (auto simp: clear_disabled_entry_def auth_live_def)

lemma snapshots_mem:
  "b \<in> set (clear_disabled_snapshots env now L) \<longleftrightarrow>
     (\<exists>i a. (i, a) \<in> set L \<and> (cooldownDisabledForAuth env a \<or> auth_Disabled a \<or> auth_Status a = StatusDisabled) \<and>
        fst (clearCooldownStateForAuth now a) \<and> b = snd (clearCooldownStateForAuth now a))"
  unfolding clear_disabled_snapshots_def
proof (induction L)
  case (Cons e L)
  then show ?case by (cases e) (auto simp: map_filter_simps)
qed (simp add: map_filter_simps)

lemma clearDisabled_ok:
  assumes ok: "mgr_ok lookup t S m" and t: "t \<le> now" "now \<le> clk 0" "mono clk"
  shows "mgr_ok lookup (clk (length (clear_disabled_snapshots (mgr_env m) now (mgr_auths m)))) S
     (snd (clearDisabledCooldownStates lookup now clk m))"
proof -
  let ?L = "clear_disabled_snapshots (mgr_env m) now (mgr_auths m)"
  let ?m = "m\<lparr>mgr_auths := map (clear_disabled_entry (mgr_env m) now) (mgr_auths m)\<rparr>"
  have 0: "0 \<le> now" using mgr_ok_nonneg [OF ok] t by simp
  have wf: "wf_map (mgr_auths m)" using ok by (simp add: mgr_ok_def stored_ok_def)
  have it: "auth_ID a = i \<and> auth_live lookup a \<and> trimmed i \<and> i \<noteq> []" if "mget (mgr_auths m) i = Some a" for i a
    using storedD [OF ok that] by blast
  have st: "stored_ok lookup ?m"
    unfolding stored_ok_def
  proof (intro conjI allI impI)
    show "wf_map (mgr_auths ?m)" using wf by (simp add: keys_clear del: map_map)
    show "sane_env (mgr_env ?m)" using ok by (simp add: mgr_ok_def stored_ok_def)
  next
    fix i b assume "mget (mgr_auths ?m) i = Some b"
    then obtain a where a: "mget (mgr_auths m) i = Some a" "b = snd (clear_disabled_entry (mgr_env m) now (i, a))"
      by (auto simp: mget_clear)
    note c = clear_entry_ok [OF 0, of lookup a "mgr_env m" i] it [OF a(1)]
    show "auth_ID b = i" "trimmed i" "i \<noteq> []" "auth_live lookup b" using c a(2) by auto
  qed
  have sn: "\<forall>b \<in> set ?L. mget (mgr_auths ?m) (auth_ID b) = Some b"
  proof
    fix b assume "b \<in> set ?L"
    then obtain i a where a: "(i, a) \<in> set (mgr_auths m)" "cooldownDisabledForAuth (mgr_env m) a \<or> auth_Disabled a \<or> auth_Status a = StatusDisabled"
      "b = snd (clearCooldownStateForAuth now a)" by (auto simp: snapshots_mem)
    have g: "mget (mgr_auths m) i = Some a" using a(1) wf by (simp add: mget_in_set)
    then have "auth_ID b = i" using it a(3) by simp
    then show "mget (mgr_auths ?m) (auth_ID b) = Some b" using g a(2,3) by (simp add: mget_clear clear_disabled_entry_def)
  qed
  have co: "\<forall>i. i \<notin> auth_ID ` set ?L \<longrightarrow> settled S ?m i"
  proof (intro allI impI)
    fix i assume i: "i \<notin> auth_ID ` set ?L"
    have ci: "settled S m i" using ok by (simp add: mgr_ok_def)
    show "settled S ?m i"
    proof (cases "mget (mgr_auths m) i")
      case None
      then show ?thesis using ci by (simp add: settled_def coherent_at_def mget_clear)
    next
      case (Some a)
      let ?b = "snd (clear_disabled_entry (mgr_env m) now (i, a))"
      let ?c = "cooldownDisabledForAuth (mgr_env m) a \<or> auth_Disabled a \<or> auth_Status a = StatusDisabled"
      have "sched_view ?b = sched_view a"
      proof (cases ?c)
        case True
        have "\<not> fst (clearCooldownStateForAuth now a)"
        proof
          assume "fst (clearCooldownStateForAuth now a)"
          with True Some wf have "snd (clearCooldownStateForAuth now a) \<in> set ?L" unfolding snapshots_mem by (metis mget_in_set)
          then have "auth_ID (snd (clearCooldownStateForAuth now a)) \<in> auth_ID ` set ?L" by (rule imageI)
          then show False using i it [OF Some] by simp
        qed
        then show ?thesis using clear_unchanged_view it [OF Some] True by (auto simp: clear_disabled_entry_def)
      qed (simp add: clear_disabled_entry_def)
      from view_visible [OF this] ci Some show ?thesis by (simp add: settled_def coherent_at_def mget_clear)
    qed
  qed
  have "sched_at lookup t ?m" using ok by (simp add: mgr_ok_def sched_at_def)
  from publish_all_ok [OF st this _ t(3) sn co, of 0] t show ?thesis by (simp add: clearDisabledCooldownStates_def Let_def)
qed

lemma SetConfig_ok:
  assumes ok: "mgr_ok lookup t S m" and t: "t \<le> now" "now \<le> clk 0" "mono clk"
  shows "\<exists>n. mgr_ok lookup (clk n) S (snd (SetConfigSnapshot lookup cfg now clk m))"
proof -
  have "sane_env (mgr_env m)" using ok by (simp add: mgr_ok_def stored_ok_def)
  then have "mgr_ok lookup t S (m\<lparr>mgr_env := (mgr_env m)\<lparr>ce_config := c\<rparr>\<rparr>)" for c
    by (intro mgr_ok_env [OF ok]) (simp add: sane_env_def)
  from clearDisabled_ok [OF this t] show ?thesis unfolding SetConfigSnapshot_def Let_def by blast
qed

section \<open>Restored records\<close>

definition restoring :: "model_lookup \<Rightarrow> manager \<Rightarrow> manager \<times> (string, auth) gomap \<Rightarrow> bool" where
  "restoring lookup m ms \<longleftrightarrow>
     stored_ok lookup (fst ms) \<and> mgr_scheduler (fst ms) = mgr_scheduler m \<and> wf_map (snd ms) \<and>
     (\<forall>i. case mget (snd ms) i of None \<Rightarrow> mget (mgr_auths (fst ms)) i = mget (mgr_auths m) i
        | Some a \<Rightarrow> mget (mgr_auths (fst ms)) i = Some a)"

lemma restore_step:
  assumes r: "restoring lookup m ms" and "0 < now" "record_ok lookup rec"
  shows "restoring lookup m (restoreCooldownRecordLocked lookup now rec ms)"
proof (cases "mget (mgr_auths (fst ms)) (TrimSpace (cr_AuthID rec))")
  case None
  then show ?thesis using r by (simp add: restoreCooldownRecordLocked_def case_prod_beta Let_def)
next
  case (Some a)
  let ?i = "TrimSpace (cr_AuthID rec)" and ?r = "restore_record lookup (mgr_env (fst ms)) rec now a"
  have a: "auth_ID a = ?i" "trimmed ?i" "?i \<noteq> []" "auth_live lookup a" using r Some unfolding restoring_def stored_ok_def by blast+
  have new: "auth_ID (snd ?r) = ?i" "auth_live lookup (snd ?r)" using restore_ID restore_live assms(2,3) a by auto
  show ?thesis
  proof (cases "fst ?r")
    case False
    then have "restoreCooldownRecordLocked lookup now rec ms = ms"
      using Some by (cases ms; cases ?r) (simp add: restoreCooldownRecordLocked_def)
    then show ?thesis using r by simp
  next
    case True
    then have eq: "restoreCooldownRecordLocked lookup now rec ms =
        ((fst ms)\<lparr>mgr_auths := mput ?i (snd ?r) (mgr_auths (fst ms))\<rparr>, mput ?i (snd ?r) (snd ms))"
      using Some new(1) by (cases ms; cases ?r) (simp add: restoreCooldownRecordLocked_def Let_def)
    have "stored_ok lookup ((fst ms)\<lparr>mgr_auths := mput ?i (snd ?r) (mgr_auths (fst ms))\<rparr>)"
      using r new a unfolding restoring_def stored_ok_def by auto
    then show ?thesis using r unfolding eq restoring_def by (auto cong: option.case_cong)
  qed
qed

lemma Restore_ok:
  assumes ok: "mgr_ok lookup t S m" and t: "t \<le> now" "0 < now" "now \<le> clk 0" "mono clk" and recs: "\<forall>rec \<in> set records. record_ok lookup rec"
  shows "\<exists>n. mgr_ok lookup (clk n) S (RestoreCooldownStates lookup records now clk m)"
proof -
  define ordered where "ordered = filter (\<lambda>rec. TrimSpace (cr_Model rec) \<noteq> []) records @ filter (\<lambda>rec. TrimSpace (cr_Model rec) = []) records"
  have "\<forall>rec \<in> set ordered. record_ok lookup rec" using recs by (auto simp: ordered_def)
  then have fr: "restoring lookup m (fold (restoreCooldownRecordLocked lookup now) ordered ms)" if "restoring lookup m ms" for ms
    using that
  proof (induction ordered arbitrary: ms)
    case (Cons rec recs)
    then show ?case using restore_step [OF _ t(2), of lookup m ms rec] by (metis fold_simps(2) list.set_intros(1,2))
  qed simp
  define m1 L where "m1 = fst (fold (restoreCooldownRecordLocked lookup now) ordered (m, []))"
    and "L = snd (fold (restoreCooldownRecordLocked lookup now) ordered (m, []))"
  have "restoring lookup m (m, [])" using ok by (simp add: restoring_def mgr_ok_def)
  from fr [OF this] have R: "stored_ok lookup m1" "mgr_scheduler m1 = mgr_scheduler m" "wf_map L"
    "\<And>i. case mget L i of None \<Rightarrow> mget (mgr_auths m1) i = mget (mgr_auths m) i | Some a \<Rightarrow> mget (mgr_auths m1) i = Some a"
    unfolding restoring_def m1_def [symmetric] L_def [symmetric] by blast+
  have id: "auth_ID a = i" if "mget L i = Some a" for i a
  proof -
    have "mget (mgr_auths m1) i = Some a" using R(4) [of i] that by simp
    then show ?thesis using R(1) unfolding stored_ok_def by blast
  qed
  have sn: "\<forall>a \<in> set (map snd L). mget (mgr_auths m1) (auth_ID a) = Some a"
  proof
    fix a assume "a \<in> set (map snd L)"
    then obtain i where i: "mget L i = Some a" using R(3) by (auto simp: mget_in_set)
    then show "mget (mgr_auths m1) (auth_ID a) = Some a" using R(4) [of i] id by simp
  qed
  have co: "\<forall>i. i \<notin> auth_ID ` set (map snd L) \<longrightarrow> settled S m1 i"
  proof (intro allI impI)
    fix i assume i: "i \<notin> auth_ID ` set (map snd L)"
    have "mget L i = None"
    proof (rule ccontr)
      assume "mget L i \<noteq> None"
      then obtain a where a: "mget L i = Some a" by blast
      then have "a \<in> set (map snd L)" by (force dest: map_of_SomeD)
      then show False using i id [OF a] by blast
    qed
    then have "mget (mgr_auths m1) i = mget (mgr_auths m) i" using R(4) [of i] by simp
    then show "settled S m1 i" using ok R(2) by (simp add: mgr_ok_def settled_def coherent_at_def)
  qed
  have "sched_at lookup t m1" using ok R(2) by (simp add: mgr_ok_def sched_at_def)
  from publish_all_ok [OF R(1) this _ t(4) sn co, of 0] t
  have "mgr_ok lookup (clk (length (map snd L))) S (publish_all lookup clk 0 (map snd L) m1)" by simp
  moreover have "RestoreCooldownStates lookup records now clk m = publish_all lookup clk 0 (map snd L) m1"
    by (simp add: RestoreCooldownStates_def ordered_def m1_def L_def case_prod_beta Let_def)
  ultimately show ?thesis by metis
qed

section \<open>Picks\<close>

definition pick_single ::
  "model_lookup \<Rightarrow> pick_request \<Rightarrow> string \<Rightarrow> string \<Rightarrow> string list \<Rightarrow> time \<Rightarrow> time \<Rightarrow> time \<Rightarrow> manager \<Rightarrow> (pick_error + auth) \<times> manager" where
  "pick_single lookup rq provider model tried now1 now2 now3 m =
     (case pickSingle lookup rq provider model tried now1 now2 now3 (mgr_scheduler m) of (r, s) \<Rightarrow> (r, m\<lparr>mgr_scheduler := s\<rparr>))"

definition pick_mixed ::
  "model_lookup \<Rightarrow> pick_request \<Rightarrow> string list \<Rightarrow> string \<Rightarrow> string list \<Rightarrow> time \<Rightarrow> time \<Rightarrow> time \<Rightarrow> manager \<Rightarrow>
   (pick_error + auth \<times> string) \<times> manager" where
  "pick_mixed lookup rq providers model tried now1 now2 now3 m =
     (case pickMixed lookup rq providers model tried now1 now2 now3 (mgr_scheduler m) of (r, s) \<Rightarrow> (r, m\<lparr>mgr_scheduler := s\<rparr>))"

lemma sched_change_ok:
  assumes ok: "mgr_ok lookup t S m" and run: "\<And>u K. u \<le> t \<Longrightarrow> sched_run lookup u (mgr_scheduler m) K \<Longrightarrow> sched_run lookup t' s K"
  shows "mgr_ok lookup t' S (m\<lparr>mgr_scheduler := s\<rparr>)"
proof -
  obtain u where u: "u \<le> t" "sched_run lookup u (mgr_scheduler m) (known (mgr_scheduler m))"
    using ok by (auto simp: mgr_ok_def sched_at_def)
  have r: "sched_run lookup t' s (known (mgr_scheduler m))" by (rule run [OF u])
  then have "known s = known (mgr_scheduler m)" using sched_run_ok by blast
  then show ?thesis using ok r by (auto simp: mgr_ok_def stored_ok_def sched_at_def settled_def coherent_at_def)
qed

lemma picks_ok:
  assumes ok: "mgr_ok lookup t S m" and t: "t \<le> now1" "now1 \<le> now2" "now2 \<le> now3"
  shows "mgr_ok lookup now3 S (snd (pick_single lookup rq provider model tried now1 now2 now3 m))"
    and "mgr_ok lookup now3 S (snd (pick_mixed lookup rq providers model tried now1 now2 now3 m))"
proof -
  have "mgr_ok lookup now3 S (m\<lparr>mgr_scheduler := snd (pickSingle lookup rq provider model tried now1 now2 now3 (mgr_scheduler m))\<rparr>)"
    using t unfolding pickSingle_def by (intro sched_change_ok [OF ok]) (erule sched_run.single; simp)
  moreover have "mgr_ok lookup now3 S (m\<lparr>mgr_scheduler := snd (pickMixed lookup rq providers model tried now1 now2 now3 (mgr_scheduler m))\<rparr>)"
    using t unfolding pickMixed_def by (intro sched_change_ok [OF ok]) (erule sched_run.mixed; simp)
  ultimately show "mgr_ok lookup now3 S (snd (pick_single lookup rq provider model tried now1 now2 now3 m))"
    "mgr_ok lookup now3 S (snd (pick_mixed lookup rq providers model tried now1 now2 now3 m))"
    by (simp_all add: pick_single_def pick_mixed_def case_prod_beta)
qed

section \<open>Runs\<close>

text \<open>
  The runs of the manager. The set \<open>S\<close> of a run has the ids of the credentials whose last change the scheduler has not
  been given. Three steps add to it: \<open>ResetQuota\<close> returns early when the credential cannot be saved, after it has
  changed the stored one; \<open>MarkResult\<close> releases the manager's lock (\<open>mark_begin\<close>) before it hands its snapshot over, so that
  other steps may come in between; and a snapshot that is handed over late may be out of date (\<open>late\<close>, for any
  snapshot of a stored credential). A step that hands the scheduler what the manager stores takes the id out:
  \<open>mark_begin\<close> followed by \<open>refresh\<close> for the same id is \<open>MarkResult\<close> up to the registry, which any step may change (\<open>registry\<close>).
  A removal does not overlap with a result of the same credential, and the other operations are single steps.
\<close>

inductive mgr_trace :: "model_lookup \<Rightarrow> time \<Rightarrow> string set \<Rightarrow> manager \<Rightarrow> bool" for lookup :: model_lookup where
  new: "sane_env env \<Longrightarrow> mgr_trace lookup 0 {} (NewManager sel env reg)"
| register: "mgr_trace lookup t S m \<Longrightarrow> t \<le> now \<Longrightarrow> now \<le> nowS \<Longrightarrow> trimmed (auth_ID a) \<Longrightarrow> auth_live lookup a \<Longrightarrow>
    trimmed newID \<Longrightarrow> newID \<noteq> [] \<Longrightarrow> Register lookup newID (Some a) now nowS m = (r, m') \<Longrightarrow> mgr_trace lookup nowS (S - handed r) m'"
| update: "mgr_trace lookup t S m \<Longrightarrow> t \<le> now \<Longrightarrow> now \<le> nowS \<Longrightarrow> auth_live lookup a \<Longrightarrow>
    Update lookup (Some a) now nowS m = (r, m') \<Longrightarrow> mgr_trace lookup nowS (S - handed r) m'"
| remove: "mgr_trace lookup t S m \<Longrightarrow> mgr_trace lookup t (S - {TrimSpace i}) (Remove i m)"
| load: "mgr_trace lookup t S m \<Longrightarrow> t \<le> nowS \<Longrightarrow> \<forall>a. Some a \<in> set items \<longrightarrow> trimmed (auth_ID a) \<and> auth_live lookup a \<Longrightarrow>
    mgr_trace lookup nowS {} (Load lookup items nowS m)"
| select: "mgr_trace lookup t S m \<Longrightarrow> t \<le> nowS \<Longrightarrow> mgr_trace lookup nowS {} (SetSelector lookup sel nowS m)"
| refresh: "mgr_trace lookup t S m \<Longrightarrow> t \<le> nowS \<Longrightarrow> mgr_trace lookup nowS (S - {i}) (RefreshSchedulerEntry lookup i nowS m)"
| refresh_all: "mgr_trace lookup t S m \<Longrightarrow> t \<le> clk 0 \<Longrightarrow> mono clk \<Longrightarrow>
    mgr_trace lookup (clk (length (mgr_auths m))) {} (RefreshSchedulerAll lookup clk m)"
| mark: "mgr_trace lookup t S m \<Longrightarrow> t \<le> now \<Longrightarrow> 0 < now \<Longrightarrow> now \<le> nowS \<Longrightarrow> plain_model lookup (res_Model res) \<Longrightarrow>
    sane_retry (res_RetryAfter res) \<Longrightarrow> mgr_trace lookup nowS (S - {res_AuthID res}) (MarkResult lookup res now nowS nowR m)"
| mark_begin: "mgr_trace lookup t S m \<Longrightarrow> t \<le> now \<Longrightarrow> 0 < now \<Longrightarrow> plain_model lookup (res_Model res) \<Longrightarrow>
    sane_retry (res_RetryAfter res) \<Longrightarrow> mgr_trace lookup now (insert (res_AuthID res) S) (snd (mark_locked lookup res now m))"
| late: "mgr_trace lookup t S m \<Longrightarrow> t \<le> nowS \<Longrightarrow> mget (mgr_auths m) (auth_ID s) \<noteq> None \<Longrightarrow>
    mgr_trace lookup nowS (insert (auth_ID s) S) (publish lookup nowS s m)"
| neutral: "mgr_trace lookup t S m \<Longrightarrow> mgr_trace lookup t S (recordAvailabilityNeutralResult res now m)"
| reset: "mgr_trace lookup t S m \<Longrightarrow> t \<le> now \<Longrightarrow> now \<le> nowS \<Longrightarrow>
    mgr_trace lookup nowS (if saved then S - {TrimSpace i} else insert (TrimSpace i) S) (snd (ResetQuota lookup saved i now nowR nowS m))"
| reconcile: "mgr_trace lookup t S m \<Longrightarrow> t \<le> now \<Longrightarrow> now \<le> nowS \<Longrightarrow>
    mgr_trace lookup nowS S (ReconcileRegistryModelStates lookup i now nowS m)"
| config: "mgr_trace lookup t S m \<Longrightarrow> t \<le> now \<Longrightarrow> now \<le> clk 0 \<Longrightarrow> mono clk \<Longrightarrow> \<forall>n. clk n \<le> t' \<Longrightarrow>
    mgr_trace lookup t' S (snd (SetConfigSnapshot lookup cfg now clk m))"
| restore: "mgr_trace lookup t S m \<Longrightarrow> t \<le> now \<Longrightarrow> 0 < now \<Longrightarrow> now \<le> clk 0 \<Longrightarrow> mono clk \<Longrightarrow> \<forall>n. clk n \<le> t' \<Longrightarrow>
    \<forall>rec \<in> set records. record_ok lookup rec \<Longrightarrow> mgr_trace lookup t' S (RestoreCooldownStates lookup records now clk m)"
| environment: "mgr_trace lookup t S m \<Longrightarrow> sane_env env \<Longrightarrow> mgr_trace lookup t S (m\<lparr>mgr_env := env\<rparr>)"
| registry: "mgr_trace lookup t S m \<Longrightarrow> mgr_trace lookup t S (m\<lparr>mgr_registry := reg\<rparr>)"
| single: "mgr_trace lookup t S m \<Longrightarrow> t \<le> now1 \<Longrightarrow> now1 \<le> now2 \<Longrightarrow> now2 \<le> now3 \<Longrightarrow>
    mgr_trace lookup now3 S (snd (pick_single lookup rq provider model tried now1 now2 now3 m))"
| mixed: "mgr_trace lookup t S m \<Longrightarrow> t \<le> now1 \<Longrightarrow> now1 \<le> now2 \<Longrightarrow> now2 \<le> now3 \<Longrightarrow>
    mgr_trace lookup now3 S (snd (pick_mixed lookup rq providers model tried now1 now2 now3 m))"

definition mgr_run :: "model_lookup \<Rightarrow> time \<Rightarrow> manager \<Rightarrow> bool" where
  "mgr_run lookup t m \<longleftrightarrow> (\<exists>S. mgr_trace lookup t S m)"

lemma trace_run: "mgr_trace lookup t S m \<Longrightarrow> mgr_run lookup t m"
  unfolding mgr_run_def by blast

lemma NewManager_ok: "sane_env env \<Longrightarrow> mgr_ok lookup 0 {} (NewManager sel env reg)"
proof -
  assume env: "sane_env env"
  let ?s = "newAuthScheduler (if sel = NilSelector then RoundRobinSelector else sel)"
  have r: "sched_run lookup 0 ?s (\<lambda>_. None)" by (rule sched_run.start)
  then have "known ?s = (\<lambda>_. None)" using sched_run_ok by blast
  then show ?thesis using env r
    by (auto simp: NewManager_def mgr_ok_def settled_def stored_ok_def sched_at_def coherent_at_def visible_def sane_env_def)
qed

lemma mgr_trace_ok: "mgr_trace lookup t S m \<Longrightarrow> mgr_ok lookup t S m"
proof (induction rule: mgr_trace.induct)
  case (register t S m now nowS a newID r m')
  then show ?case using Register_ok [OF register.IH register.hyps(2-7)] by simp
next
  case (update t S m now nowS a r m')
  then show ?case using Update_ok [OF update.IH update.hyps(2-4)] by simp
next
  case (config t S m now clk t' cfg)
  then show ?case using SetConfig_ok mgr_ok_later by metis
next
  case (restore t S m now clk t' records)
  then show ?case using Restore_ok mgr_ok_later by metis
next
  case (load t S m nowS items)
  then show ?case by (intro Load_ok)
next
  case (select t S m nowS sel)
  then show ?case by (intro SetSelector_ok)
next
  case (refresh_all t S m clk)
  then show ?case by (intro RefreshAll_ok)
qed (simp_all add: NewManager_ok Remove_ok Refresh_ok MarkResult_ok mark_locked_ok late_ok neutral_ok
    ResetQuota_ok Reconcile_ok mgr_ok_env picks_ok)

lemma mgr_run_ok: "mgr_run lookup t m \<Longrightarrow> \<exists>S. mgr_ok lookup t S m"
  unfolding mgr_run_def using mgr_trace_ok by blast

end
