(* ===== verification/Exec_Error.thy ===== *)
theory Exec_Error
  imports Cooldown
begin

text \<open>
  The errors of executions and their classification: the predicates on Go errors of
  \<^verbatim>\<open>conductor_cooldown.go\<close> and \<^verbatim>\<open>internal/clienterror/client_error.go\<close>. An error is a record of what
  the code can ask of it: its text, and what \<open>errors.As\<close> and \<open>errors.Is\<close> find in its chain. Two readers of
  JSON are arguments: \<open>json_get\<close> is \<open>gjson.Get(body, path).String()\<close>, which is only asked when
  \<open>json_valid\<close>, and \<open>decode\<close> is \<open>json.Unmarshal\<close> into a value of any type. Errors are not nil here.
\<close>

section \<open>Errors\<close>

text \<open>The tree of an error and the errors it wraps: whether the node is an \<open>*Error\<close>, its text, its children.\<close>

datatype error_tree = ErrorTree (et_auth: "auth_error option") (et_text: string) (et_wrapped: "error_tree list")

record go_error =
  ge_tree :: error_tree
  ge_auth :: "auth_error option"
  ge_status :: "int option"
  ge_retryAfter :: "duration option"
  ge_requestScoped :: bool
  ge_closeCode :: "int option"
  ge_canceled :: bool
  ge_deadline :: bool
  ge_eof :: bool
  ge_homeBusy :: bool
  ge_terminated :: bool

definition go_error_text :: "go_error \<Rightarrow> string" where
  "go_error_text err = et_text (ge_tree err)"

record json_env =
  json_valid :: "string \<Rightarrow> bool"
  json_get :: "string \<Rightarrow> string \<Rightarrow> string"

definition statusCodeFromError :: "go_error \<Rightarrow> int" where
  "statusCodeFromError err = (case ge_status err of None \<Rightarrow> 0 | Some code \<Rightarrow> code)"

definition retryAfterFromError :: "go_error \<Rightarrow> duration option" where
  "retryAfterFromError err = ge_retryAfter err"

definition isRequestScopedError :: "go_error \<Rightarrow> bool" where
  "isRequestScopedError err = ge_requestScoped err"

section \<open>Faults of the request\<close>

definition requestFaultCodes :: "string list" where
  "requestFaultCodes =
     [''cyber_policy'', ''context_length_exceeded'', ''message_too_big'', ''string_above_max_length'', ''invalid_prompt'',
      ''invalid_value'', ''unsupported_value'', ''invalid_request_error'', ''previous_response_not_found'']"

definition requestFaultTypes :: "string list" where
  "requestFaultTypes = [''invalid_request'', ''invalid_request_error'', ''bad_request_error'', ''invalid_prompt'']"

definition HTTPStatusFromError :: "go_error \<Rightarrow> int" where
  "HTTPStatusFromError err =
     (if statusCodeFromError err > 0 then statusCodeFromError err
      else if ge_canceled err then 499
      else if ge_deadline err then 504
      else 0)"

definition HTTPStatusFromErrorOr :: "go_error \<Rightarrow> int \<Rightarrow> int" where
  "HTTPStatusFromErrorOr err fallback = (if HTTPStatusFromError err > 0 then HTTPStatusFromError err else fallback)"

definition hasRequestFaultBody :: "json_env \<Rightarrow> go_error \<Rightarrow> bool" where
  "hasRequestFaultBody je err =
     (let body = TrimSpace (go_error_text err);
          identifier = (\<lambda>path. ToLower (TrimSpace (json_get je body path)))
      in body \<noteq> [] \<and> json_valid je body \<and>
         (list_ex (\<lambda>path. identifier path \<in> set requestFaultCodes)
            [''error.code'', ''code'', ''response.error.code'', ''body.error.code''] \<or>
          list_ex (\<lambda>path. identifier path \<in> set requestFaultTypes)
            [''error.type'', ''type'', ''response.error.type'', ''body.error.type'']))"

definition IsRequestFault :: "json_env \<Rightarrow> int \<Rightarrow> go_error \<Rightarrow> bool" where
  "IsRequestFault je status0 err =
     (let status = (if status0 \<le> 0 then (case ge_status err of None \<Rightarrow> status0 | Some code \<Rightarrow> code) else status0) in
      if hasRequestFaultBody je err then True
      else if IsItemNotPersisted (go_error_text err) then True
      else status \<in> {400, 409, 413, 422})"

section \<open>Classes of errors\<close>

definition isConnectionLifecycleError :: "go_error \<Rightarrow> bool" where
  "isConnectionLifecycleError err =
     (if ge_closeCode err \<in> {Some 1000, Some 1001, Some 1006} then True
      else if statusCodeFromError err \<noteq> 0 then False
      else if ge_canceled err \<or> ge_deadline err \<or> ge_eof err then True
      else isConnectionLifecycleMessage (go_error_text err))"

definition isUnauthorizedError :: "go_error \<Rightarrow> bool" where
  "isUnauthorizedError err =
     (if statusCodeFromError err = 401 then True
      else
        let raw = ToLower (go_error_text err)
        in Contains raw ''status 401'' \<or> Contains raw ''401 unauthorized'')"

definition hasUnauthorizedAuthFailure :: "auth \<Rightarrow> bool" where
  "hasUnauthorizedAuthFailure a =
     (case auth_LastError a of
        None \<Rightarrow> False
      | Some e \<Rightarrow> Error_StatusCode (Some e) = 401 \<or> EqualFold (ae_Code e) ''unauthorized'')"

definition refreshErrorFromError :: "go_error \<Rightarrow> auth_error" where
  "refreshErrorFromError err =
     (let statusCode = (if statusCodeFromError err = 0 \<and> isUnauthorizedError err then 401 else statusCodeFromError err)
      in \<lparr>ae_Code = (if statusCode = 401 then ''unauthorized'' else []), ae_Message = go_error_text err,
          ae_Retryable = False, ae_HTTPStatus = statusCode\<rparr>)"

definition isModelSupportError :: "go_error \<Rightarrow> bool" where
  "isModelSupportError err =
     (statusCodeFromError err \<in> {400, 422} \<and> isModelSupportErrorMessage (go_error_text err))"

definition isInvalidGrantError :: "go_error \<Rightarrow> bool" where
  "isInvalidGrantError err =
     (statusCodeFromError err \<in> {400, 401} \<and> isInvalidGrantErrorMessage (go_error_text err))"

definition isCloudflareChallengeError :: "go_error \<Rightarrow> bool" where
  "isCloudflareChallengeError err = isCloudflareChallengeErrorMessage (go_error_text err)"

definition isRequestInvalidError :: "json_env \<Rightarrow> go_error \<Rightarrow> bool" where
  "isRequestInvalidError je err =
     (if isRequestScopedError err then True
      else if isCloudflareChallengeError err then False
      else if isInvalidGrantError err then False
      else if isModelSupportError err then False
      else IsRequestFault je (statusCodeFromError err) err)"

definition resultErrorFromError :: "json_env \<Rightarrow> go_error \<Rightarrow> auth_error" where
  "resultErrorFromError je err =
     (let base =
            (case ge_auth err of
               Some source \<Rightarrow> source
             | None \<Rightarrow> \<lparr>ae_Code = [], ae_Message = go_error_text err, ae_Retryable = False, ae_HTTPStatus = 0\<rparr>);
          resultErr = (if ae_HTTPStatus base = 0 then base\<lparr>ae_HTTPStatus := statusCodeFromError err\<rparr> else base)
      in if isRequestScopedError err \<or> isRequestInvalidError je err then resultErr\<lparr>ae_Code := requestScopedErrorCode\<rparr>
         else if isConnectionLifecycleError err
         then if ae_Code resultErr = [] \<or> ae_Code resultErr = connectionLifecycleErrorCode
              then resultErr\<lparr>ae_Code := connectionLifecycleErrorCode\<rparr> else resultErr
         else resultErr)"

section \<open>Missing models\<close>

definition trim_set :: "(char \<Rightarrow> bool) \<Rightarrow> string \<Rightarrow> string" where
  "trim_set P s = rev (dropWhile P (rev (dropWhile P s)))"

definition punctuation :: "char \<Rightarrow> bool" where
  "punctuation c \<longleftrightarrow> c \<in> {CHR '' '', CHR ''.'', CHR ''!'', CHR '';'', CHR 0x09, CHR 0x0D, CHR 0x0A}"

definition separator :: "char \<Rightarrow> bool" where
  "separator c \<longleftrightarrow> c \<in> {CHR '' '', CHR '':'', CHR '',''}"

definition underscored :: "string \<Rightarrow> string" where
  "underscored = map (\<lambda>c. if c = CHR ''-'' \<or> c = CHR '' '' then CHR ''_'' else c)"

definition after_last :: "(char \<Rightarrow> bool) \<Rightarrow> string \<Rightarrow> string" where
  "after_last P s = rev (takeWhile (\<lambda>c. \<not> P c) (rev s))"

definition isModelNotFoundIdentifier :: "string \<Rightarrow> bool" where
  "isModelNotFoundIdentifier value =
     (let candidate0 = ToLower (TrimSpace value);
          candidate =
            (if CHR ''#'' \<in> set candidate0 \<and> after_last (\<lambda>c. c = CHR ''#'') candidate0 \<noteq> []
             then after_last (\<lambda>c. c = CHR ''#'') candidate0
             else
               let path = rev (dropWhile (\<lambda>c. c = CHR ''/'') (rev (takeWhile (\<lambda>c. c \<noteq> CHR ''?'') candidate0)))
               in after_last (\<lambda>c. c = CHR ''/'' \<or> c = CHR '':'') path)
      in underscored candidate \<in>
           {''model_not_found'', ''model_not_found_error'', ''unknown_model'', ''model_does_not_exist'', ''model_not_exist''})"

definition isNotFoundErrorIdentifier :: "string \<Rightarrow> bool" where
  "isNotFoundErrorIdentifier value = (underscored (ToLower (TrimSpace value)) \<in> {''not_found'', ''not_found_error''})"

definition single_quote :: char where "single_quote = char_of (39 :: nat)"
definition double_quote :: char where "double_quote = char_of (34 :: nat)"

definition isMissingModelPhrase :: "string \<Rightarrow> bool" where
  "isMissingModelPhrase value =
     (trim_set punctuation value \<in>
        {''not found'', ''was not found'', ''could not be found'', ''does not exist'', ''doesn'' @ [single_quote] @ ''t exist'',
         ''not exist'', ''is unknown''})"

fun trim_candidates :: "string \<Rightarrow> string list \<Rightarrow> string option" where
  "trim_candidates value [] = None"
| "trim_candidates value (candidate # candidates) =
     (if value = candidate then Some []
      else if \<not> HasPrefix value candidate then trim_candidates value candidates
      else
        let remainder = drop (length candidate) value
        in if remainder = [] \<or> separator (hd remainder) then Some (dropWhile separator remainder)
           else trim_candidates value candidates)"

definition trimRequestedModelReference :: "string \<Rightarrow> string \<Rightarrow> string option" where
  "trimRequestedModelReference value requestedModel =
     (let model = ToLower (TrimSpace requestedModel)
      in if model = [] then None
         else trim_candidates value
                (model # map (\<lambda>q. [q] @ model @ [q]) [single_quote, double_quote, backtick]))"

text \<open>The rest of a message after the first of the prefixes that it starts with.\<close>

fun after_prefix :: "string list \<Rightarrow> string \<Rightarrow> string option" where
  "after_prefix [] lower = None"
| "after_prefix (pre # pres) lower =
     (if lower \<noteq> pre \<and> \<not> HasPrefix lower (pre @ '' '') \<and> \<not> HasPrefix lower (pre @ '':'') then after_prefix pres lower
      else
        let remainder = TrimSpace (drop (length pre) lower)
        in Some (TrimSpace (if HasPrefix remainder '':'' then drop 1 remainder else remainder)))"

definition message_text :: "string \<Rightarrow> string" where
  "message_text message = trim_set punctuation (ToLower (TrimSpace message))"

definition model_prefixes :: "string list" where
  "model_prefixes = [''the requested model'', ''requested model'', ''the model'', ''model'']"

definition isExplicitModelNotFoundMessage :: "string \<Rightarrow> string \<Rightarrow> bool" where
  "isExplicitModelNotFoundMessage message requestedModel =
     (let lower = message_text message in
      if lower = [] then False
      else if Contains (underscored lower) ''model_not_found'' \<or> Contains (underscored lower) ''unknown_model'' then True
      else
        (case after_prefix [''no such model'', ''unknown model''] lower of
           Some remainder \<Rightarrow> remainder = [] \<or> trimRequestedModelReference remainder requestedModel = Some []
         | None \<Rightarrow>
             (case after_prefix model_prefixes lower of
                None \<Rightarrow> False
              | Some remainder \<Rightarrow>
                  isMissingModelPhrase remainder \<or>
                  (case trimRequestedModelReference remainder requestedModel of
                     None \<Rightarrow> False
                   | Some missingSuffix \<Rightarrow> isMissingModelPhrase missingSuffix))))"

definition isExactRequestedModelReference :: "string \<Rightarrow> string \<Rightarrow> bool" where
  "isExactRequestedModelReference message requestedModel =
     (case after_prefix model_prefixes (message_text message) of
        None \<Rightarrow> False
      | Some remainder \<Rightarrow> trimRequestedModelReference remainder requestedModel = Some [])"

text \<open>The loop over a map returns true at the first item that decides, and otherwise combines two flags: the order
  of the items does not matter.\<close>

definition item_decides :: "string \<Rightarrow> string \<times> any \<Rightarrow> bool" where
  "item_decides requestedModel item =
     (case item of
        (key, AnyStr text) \<Rightarrow>
          let k = ToLower (TrimSpace key)
          in if k = ''code'' \<or> k = ''type'' then isModelNotFoundIdentifier text
             else k \<in> {''error'', ''message'', ''detail'', ''error_description'', ''title''} \<and>
                  isExplicitModelNotFoundMessage text requestedModel
      | _ \<Rightarrow> False)"

definition not_found_type :: "string \<times> any \<Rightarrow> bool" where
  "not_found_type item =
     (case item of (key, AnyStr text) \<Rightarrow> ToLower (TrimSpace key) = ''type'' \<and> isNotFoundErrorIdentifier text | _ \<Rightarrow> False)"

definition model_reference :: "string \<Rightarrow> string \<times> any \<Rightarrow> bool" where
  "model_reference requestedModel item =
     (case item of
        (key, AnyStr text) \<Rightarrow>
          ToLower (TrimSpace key) \<in> {''error'', ''message'', ''detail'', ''error_description'', ''title''} \<and>
          isExactRequestedModelReference text requestedModel
      | _ \<Rightarrow> False)"

fun containsStructuredModelNotFound :: "string \<Rightarrow> any \<Rightarrow> bool" where
  "containsStructuredModelNotFound requestedModel (AnyMap items) =
     (list_ex (item_decides requestedModel) items \<or>
      list_ex (\<lambda>item. containsStructuredModelNotFound requestedModel (snd item)) items \<or>
      list_ex not_found_type items \<and> list_ex (model_reference requestedModel) items)"
| "containsStructuredModelNotFound requestedModel (AnySlice items) =
     list_ex (\<lambda>item. (case item of AnyStr text \<Rightarrow> isExplicitModelNotFoundMessage text requestedModel | _ \<Rightarrow> False) \<or>
                     containsStructuredModelNotFound requestedModel item) items"
| "containsStructuredModelNotFound requestedModel _ = False"

definition isStructuredModelNotFoundError :: "(string \<Rightarrow> any option) \<Rightarrow> string \<Rightarrow> string \<Rightarrow> bool" where
  "isStructuredModelNotFoundError decode message requestedModel =
     (case decode (TrimSpace message) of
        None \<Rightarrow> False
      | Some payload \<Rightarrow> containsStructuredModelNotFound requestedModel payload)"

fun isExplicitModelNotFoundError :: "(string \<Rightarrow> any option) \<Rightarrow> string \<Rightarrow> error_tree \<Rightarrow> bool" where
  "isExplicitModelNotFoundError decode requestedModel (ErrorTree auth text wrapped) =
     ((case auth of
         Some e \<Rightarrow> isModelNotFoundIdentifier (ae_Code e) \<or> isStructuredModelNotFoundError decode (ae_Message e) requestedModel
       | None \<Rightarrow> isStructuredModelNotFoundError decode text requestedModel) \<or>
      list_ex (isExplicitModelNotFoundError decode requestedModel) wrapped)"

definition isCountTokensEndpointNotFoundError :: "(string \<Rightarrow> any option) \<Rightarrow> go_error \<Rightarrow> string \<Rightarrow> bool" where
  "isCountTokensEndpointNotFoundError decode err requestedModel =
     (statusCodeFromError err = 404 \<and>
      \<not> isExplicitModelNotFoundError decode (sr_ModelName (ParseSuffix requestedModel)) (ge_tree err))"

end
