(* ===== verification/Manager_Retry.thy ===== *)
theory Manager_Retry
  imports Manager Model_Routing Exec_Error
begin

text \<open>
  When a failed request is sent again, and after which wait: \<^verbatim>\<open>conductor_selection.go\<close> and the retry override
  of \<^verbatim>\<open>types.go\<close>. \<open>now\<close> is the clock, \<open>jitter\<close> the random number. A wait is a duration, so a
  difference of times saturates at the largest one.
\<close>

section \<open>Retries of a credential\<close>

text \<open>The conversion of a \<open>float64\<close>: towards zero, and the smallest integer outside the range, as on amd64.\<close>

definition int_of_float :: "float64 \<Rightarrow> int" where
  "int_of_float f =
     (case f of
        Finite q \<Rightarrow> let n = (if q \<ge> 0 then \<lfloor>q\<rfloor> else \<lceil>q\<rceil>) in if in_int64 n then n else MinInt64
      | _ \<Rightarrow> MinInt64)"

definition parseIntAny :: "any \<Rightarrow> int option" where
  "parseIntAny val =
     (case val of
        AnyInt kind n \<Rightarrow> if kind \<in> {KInt, KInt32, KInt64} then Some n else None
      | AnyFloat f \<Rightarrow> Some (int_of_float f)
      | AnyNumber s \<Rightarrow> Atoi s
      | AnyStr s \<Rightarrow> if TrimSpace s = [] then None else Atoi (TrimSpace s)
      | _ \<Rightarrow> None)"

definition retry_value :: "string \<Rightarrow> auth \<Rightarrow> int option" where
  "retry_value key a =
     (case mget (auth_Metadata a) key of
        None \<Rightarrow> None
      | Some val \<Rightarrow> map_option (\<lambda>parsed. if parsed < 0 then 0 else parsed) (parseIntAny val))"

definition RequestRetryOverride :: "auth \<Rightarrow> int option" where
  "RequestRetryOverride a = or_else (retry_value ''request_retry'' a) (retry_value ''request-retry'' a)"

record retry_settings =
  rt_requestRetry :: int
  rt_maxRetryCredentials :: int
  rt_maxRetryInterval :: duration

definition effective_retry :: "retry_settings \<Rightarrow> auth \<Rightarrow> int" where
  "effective_retry st a =
     (let defaultRetry = (if rt_requestRetry st < 0 then 0 else rt_requestRetry st);
          effectiveRetry = (case RequestRetryOverride a of Some override \<Rightarrow> override | None \<Rightarrow> defaultRetry)
      in if effectiveRetry < 0 then 0 else effectiveRetry)"

definition provider_set :: "string list \<Rightarrow> string list" where
  "provider_set providers = filter (\<lambda>key. key \<noteq> []) (map (\<lambda>p. TrimSpace (ToLower p)) providers)"

section \<open>The wait\<close>

text \<open>What one credential contributes: the time until it is available again, if it is blocked for a known time and has
  retries left.\<close>

definition credential_wait ::
  "model_lookup \<Rightarrow> model_names \<Rightarrow> retry_settings \<Rightarrow> string list \<Rightarrow> string \<Rightarrow> int \<Rightarrow> time \<Rightarrow> auth \<Rightarrow> duration option" where
  "credential_wait lookup nm st providers model attempt now a =
     (if executorKeyFromAuth (Some a) \<notin> set (provider_set providers) then None
      else if attempt \<ge> effective_retry st a then None
      else
        let checkModel = (if TrimSpace model \<noteq> [] then selectionModelForAuth nm a model else model)
        in (case isAuthBlockedForModel lookup (Some a) checkModel now of
              (blocked, reason, next) \<Rightarrow>
                if \<not> blocked \<or> IsZero next \<or> reason = blockReasonDisabled then None
                else if next - now < 0 then None
                else Some (min (next - now) MaxInt64)))"

definition closer :: "duration option \<Rightarrow> duration option \<Rightarrow> duration option" where
  "closer wait best =
     (case wait of
        None \<Rightarrow> best
      | Some w \<Rightarrow> (case best of None \<Rightarrow> wait | Some minWait \<Rightarrow> if w < minWait then wait else best))"

definition closestCooldownWait ::
  "model_lookup \<Rightarrow> model_names \<Rightarrow> retry_settings \<Rightarrow> string list \<Rightarrow> string \<Rightarrow> int \<Rightarrow> time \<Rightarrow> manager \<Rightarrow> duration option" where
  "closestCooldownWait lookup nm st providers model attempt now mgr =
     (if providers = [] then None
      else fold (\<lambda>a. closer (credential_wait lookup nm st providers model attempt now a)) (snapshotAuths mgr) None)"

definition retryAllowed :: "retry_settings \<Rightarrow> int \<Rightarrow> string list \<Rightarrow> manager \<Rightarrow> bool" where
  "retryAllowed st attempt providers mgr =
     (if attempt < 0 \<or> providers = [] \<or> provider_set providers = [] then False
      else list_ex (\<lambda>a. executorKeyFromAuth (Some a) \<in> set (provider_set providers) \<and> attempt < effective_retry st a)
             (snapshotAuths mgr))"

text \<open>The wait before the next attempt, if there is one.\<close>

definition shouldRetryAfterError ::
  "model_lookup \<Rightarrow> model_names \<Rightarrow> json_env \<Rightarrow> retry_settings \<Rightarrow> go_error \<Rightarrow> int \<Rightarrow> string list \<Rightarrow> string \<Rightarrow> duration \<Rightarrow>
   time \<Rightarrow> manager \<Rightarrow> duration option" where
  "shouldRetryAfterError lookup nm je st err attempt providers model maxWait now mgr =
     (if ge_homeBusy err then None
      else if maxWait \<le> 0 then None
      else if statusCodeFromError err = 200 then None
      else if isRequestInvalidError je err then None
      else
        (case closestCooldownWait lookup nm st providers model attempt now mgr of
           Some wait \<Rightarrow> if wait > maxWait then None else Some wait
         | None \<Rightarrow>
             if statusCodeFromError err \<noteq> 429 then None
             else if \<not> retryAllowed st attempt providers mgr then None
             else
               (case retryAfterFromError err of
                  None \<Rightarrow> None
                | Some retryAfter \<Rightarrow> if retryAfter \<le> 0 \<or> retryAfter > maxWait then None else Some retryAfter)))"

definition cooldownWaitJitterCap :: duration where
  "cooldownWaitJitterCap = 2 * Second"

definition jitter_range :: "duration \<Rightarrow> duration \<Rightarrow> duration" where
  "jitter_range wait maxWait =
     (let range0 = quot64 wait 4;
          range1 = (if range0 > cooldownWaitJitterCap then cooldownWaitJitterCap else range0)
      in if maxWait > 0 \<and> range1 > maxWait - wait then maxWait - wait else range1)"

definition jitteredCooldownWait :: "(duration \<Rightarrow> duration) \<Rightarrow> duration \<Rightarrow> duration \<Rightarrow> duration" where
  "jitteredCooldownWait jitter wait maxWait =
     (if wait \<le> 0 then wait
      else
        let jitterRange = jitter_range wait maxWait
        in if jitterRange \<le> 0 then wait else wait + jitter jitterRange)"

section \<open>Providers\<close>

fun normalize_from :: "string list \<Rightarrow> string list \<Rightarrow> string list" where
  "normalize_from seen [] = []"
| "normalize_from seen (provider # providers) =
     (let p = TrimSpace (ToLower provider)
      in if p = [] \<or> p \<in> set seen then normalize_from seen providers else p # normalize_from (p # seen) providers)"

definition normalizeProviders :: "string list \<Rightarrow> string list" where
  "normalizeProviders providers = normalize_from [] providers"

definition enabled_provider :: "auth \<Rightarrow> string option" where
  "enabled_provider a =
     (let provider = ToLower (TrimSpace (auth_Provider a))
      in if auth_Disabled a \<or> auth_Status a = StatusDisabled \<or> provider = [] then None else Some provider)"

definition AvailableProviders :: "manager \<Rightarrow> string list" where
  "AvailableProviders mgr = sort (remdups (List.map_filter enabled_provider (snapshotAuths mgr)))"

definition HasProviderAuth :: "manager \<Rightarrow> string \<Rightarrow> bool" where
  "HasProviderAuth mgr provider0 =
     (let provider = ToLower (TrimSpace provider0)
      in provider \<noteq> [] \<and> list_ex (\<lambda>a. enabled_provider a = Some provider) (snapshotAuths mgr))"

definition GetByID :: "manager \<Rightarrow> string \<Rightarrow> auth option" where
  "GetByID mgr i = (if i = [] then None else mget (mgr_auths mgr) i)"

end
