(* ===== verification/Manager_Pick.thy ===== *)
theory Manager_Pick
  imports Manager_Restore Manager_Retry Selector_Contract
begin

text \<open>
  The choice of a credential for one attempt: \<open>pickNext\<close>, \<open>pickNextMixed\<close> and their legacy paths in
  \<^verbatim>\<open>conductor_selection.go\<close>, with the home service disabled and no plugin scheduler. With one of the three
  built-in selectors the choice is the scheduler's, unless a credential selects another model than the requested one
  because of an alias; then the credentials are filtered one by one and the selector chooses. Only managers with a
  built-in selector are modelled here (\<open>Session_Affinity\<close> has the other one).

  \<open>pc_executors\<close> are the providers with a registered executor. \<open>clk n\<close> is the n-th reading of the clock in a pick.
  The index of a credential, which is assigned on the way out, is not modelled.
\<close>

section \<open>State\<close>

record pick_config =
  pc_selector :: selector_type
  pc_executors :: "string list"
  pc_names :: model_names

record pick_state =
  ps_mgr :: manager
  ps_rr :: rr_selector
  ps_wrr :: wrr_selector

definition has_executor :: "pick_config \<Rightarrow> string \<Rightarrow> bool" where
  "has_executor cfg provider0 =
     (let provider = TrimSpace provider0
      in provider \<noteq> [] \<and> (provider \<in> set (pc_executors cfg) \<or> ToLower provider \<in> set (pc_executors cfg)))"

definition authSupportsRouteModel :: "model_lookup \<Rightarrow> model_names \<Rightarrow> model_registry \<Rightarrow> auth \<Rightarrow> string \<Rightarrow> bool" where
  "authSupportsRouteModel lookup nm reg a routeModel =
     (let routeKey = canonicalModelKey lookup routeModel;
          selectionKey = selectionModelKeyForAuth lookup nm a routeModel
      in if routeKey = [] then True
         else if ClientSupportsModel (auth_ID a) routeKey reg then True
         else selectionKey \<noteq> [] \<and> selectionKey \<noteq> routeKey \<and> ClientSupportsModel (auth_ID a) selectionKey reg)"

definition routeAwareSelectionRequired :: "model_lookup \<Rightarrow> model_names \<Rightarrow> auth \<Rightarrow> string \<Rightarrow> bool" where
  "routeAwareSelectionRequired lookup nm a routeModel =
     (TrimSpace routeModel \<noteq> [] \<and> selectionModelKeyForAuth lookup nm a routeModel \<noteq> canonicalModelKey lookup routeModel)"

definition shouldRetrySchedulerPick :: "pick_error \<Rightarrow> bool" where
  "shouldRetrySchedulerPick err =
     (case err of
        ModelCooldownError _ _ _ \<Rightarrow> True
      | PickError e \<Rightarrow> ae_Code e = ''auth_not_found'' \<or> ae_Code e = ''auth_unavailable'')"

section \<open>The legacy path\<close>

definition availableAuthsForRouteModel ::
  "model_lookup \<Rightarrow> model_names \<Rightarrow> auth list \<Rightarrow> string \<Rightarrow> string \<Rightarrow> time \<Rightarrow> pick_error + auth list" where
  "availableAuthsForRouteModel lookup nm auths provider routeModel now =
     (if auths = [] then Inl (pick_failure ''auth_not_found'' ''no auth candidates'')
      else
        (case fold (\<lambda>a. collect_candidate lookup (selectionModelForAuth nm a routeModel) now (Some a)) auths ([], 0, zero_time) of
           (availableByPriority, cooldownCount, earliest) \<Rightarrow>
             if availableByPriority = [] then
               if cooldownCount = int (length auths) \<and> \<not> IsZero earliest then
                 let providerForError = (if provider = ''mixed'' then [] else provider);
                     resetIn = (if earliest - now < 0 then 0 else earliest - now)
                 in Inl (newModelCooldownError routeModel providerForError resetIn)
               else Inl (pick_failure ''auth_unavailable'' ''no auth available'')
             else Inr (availableAuthsFromPriorityBuckets availableByPriority False)))"

definition restoreModelCooldownErrorModel :: "pick_error \<Rightarrow> string \<Rightarrow> pick_error" where
  "restoreModelCooldownErrorModel err requestedModel =
     (case err of
        PickError e \<Rightarrow> err
      | ModelCooldownError model provider resetIn \<Rightarrow>
          if requestedModel = [] \<or> model \<noteq> [] then err else newModelCooldownError requestedModel provider resetIn)"

text \<open>The built-in selectors, called with an empty model.\<close>

definition selector_pick ::
  "model_lookup \<Rightarrow> pick_config \<Rightarrow> pick_request \<Rightarrow> string \<Rightarrow> string \<Rightarrow> time \<Rightarrow> auth list \<Rightarrow> pick_state \<Rightarrow>
   (pick_error + auth) \<times> pick_state" where
  "selector_pick lookup cfg rq provider model now auths s =
     (let ctx = \<lparr>ctx_DownstreamWebsocket = rq_DownstreamWebsocket rq, ctx_weightedSelectorStateModel = None\<rparr>
      in case pc_selector cfg of
           FillFirstSelector \<Rightarrow> (FillFirst_Pick lookup ctx provider [] now (map Some auths), s)
         | WeightedRoundRobinSelector \<Rightarrow>
             (case Weighted_Pick lookup
                     (if TrimSpace model = [] then ctx else ctx\<lparr>ctx_weightedSelectorStateModel := Some model\<rparr>)
                     provider [] now (map Some auths) (ps_wrr s) of (r, w) \<Rightarrow> (r, s\<lparr>ps_wrr := w\<rparr>))
         | _ \<Rightarrow>
             (case RoundRobin_Pick lookup ctx provider [] now (map Some auths) (ps_rr s) of (r, w) \<Rightarrow> (r, s\<lparr>ps_rr := w\<rparr>)))"

definition legacy_candidate ::
  "model_lookup \<Rightarrow> pick_config \<Rightarrow> pick_request \<Rightarrow> string list \<Rightarrow> string \<Rightarrow> string list \<Rightarrow> manager \<Rightarrow> auth \<Rightarrow> bool" where
  "legacy_candidate lookup cfg rq providerSet model tried mgr a =
     (let pinnedAuthID = pinnedAuthIDFromMetadata (rq_Metadata rq);
          providerKey = executorKeyFromAuth (Some a)
      in \<not> auth_Disabled a \<and> (pinnedAuthID = [] \<or> auth_ID a = pinnedAuthID) \<and>
         allows (authSelectionEligibilityForRequest rq) (Some a) \<and> providerKey \<noteq> [] \<and> providerKey \<in> set providerSet \<and>
         auth_ID a \<notin> set tried \<and> providerKey \<in> set (pc_executors cfg) \<and>
         (TrimSpace model = [] \<or> authSupportsRouteModel lookup (pc_names cfg) (mgr_registry mgr) a model))"

definition choose_candidate ::
  "model_lookup \<Rightarrow> pick_config \<Rightarrow> pick_request \<Rightarrow> string \<Rightarrow> string \<Rightarrow> (nat \<Rightarrow> time) \<Rightarrow> auth list \<Rightarrow> pick_state \<Rightarrow>
   (pick_error + auth) \<times> pick_state" where
  "choose_candidate lookup cfg rq provider model clk candidates s =
     (if candidates = [] then (Inl (pick_failure ''auth_not_found'' ''no auth available''), s)
      else
        (case availableAuthsForRouteModel lookup (pc_names cfg) candidates provider model (clk 0) of
           Inl err \<Rightarrow> (Inl err, s)
         | Inr available \<Rightarrow>
             (case selector_pick lookup cfg rq provider model (clk 1) available s of
                (Inl err, s1) \<Rightarrow> (Inl (restoreModelCooldownErrorModel err model), s1)
              | (Inr a, s1) \<Rightarrow> (Inr a, s1))))"

definition pickNextMixedLegacy ::
  "model_lookup \<Rightarrow> pick_config \<Rightarrow> pick_request \<Rightarrow> string list \<Rightarrow> string \<Rightarrow> string list \<Rightarrow> (nat \<Rightarrow> time) \<Rightarrow> pick_state \<Rightarrow>
   (pick_error + auth \<times> string) \<times> pick_state" where
  "pickNextMixedLegacy lookup cfg rq providers model tried clk s =
     (if provider_set providers = [] then (Inl (pick_failure ''provider_not_found'' ''no provider supplied''), s)
      else
        (case choose_candidate lookup cfg rq ''mixed'' model clk
                (filter (legacy_candidate lookup cfg rq (provider_set providers) model tried (ps_mgr s)) (snapshotAuths (ps_mgr s))) s of
           (Inl err, s1) \<Rightarrow> (Inl err, s1)
         | (Inr a, s1) \<Rightarrow>
             if has_executor cfg (executorKeyFromAuth (Some a)) then (Inr (a, executorKeyFromAuth (Some a)), s1)
             else (Inl (pick_failure ''executor_not_found'' ''executor not registered''), s1)))"

definition pickNextLegacy ::
  "model_lookup \<Rightarrow> pick_config \<Rightarrow> pick_request \<Rightarrow> string \<Rightarrow> string \<Rightarrow> string list \<Rightarrow> (nat \<Rightarrow> time) \<Rightarrow> pick_state \<Rightarrow>
   (pick_error + auth) \<times> pick_state" where
  "pickNextLegacy lookup cfg rq provider model tried clk s =
     (if provider \<notin> set (pc_executors cfg) then (Inl (pick_failure ''executor_not_found'' ''executor not registered''), s)
      else
        choose_candidate lookup cfg rq provider model clk
          (filter (\<lambda>a. let pinnedAuthID = pinnedAuthIDFromMetadata (rq_Metadata rq)
                       in executorKeyFromAuth (Some a) = provider \<and> \<not> auth_Disabled a \<and>
                          (pinnedAuthID = [] \<or> auth_ID a = pinnedAuthID) \<and>
                          allows (authSelectionEligibilityForRequest rq) (Some a) \<and> auth_ID a \<notin> set tried \<and>
                          (TrimSpace model = [] \<or> authSupportsRouteModel lookup (pc_names cfg) (mgr_registry (ps_mgr s)) a model))
             (snapshotAuths (ps_mgr s))) s)"

section \<open>The fast path\<close>

definition with_mgr :: "'a \<times> manager \<Rightarrow> pick_state \<Rightarrow> 'a \<times> pick_state" where
  "with_mgr p s = (case p of (r, m) \<Rightarrow> (r, s\<lparr>ps_mgr := m\<rparr>))"

text \<open>The pick, and once more after a synchronisation of the scheduler if it has failed for want of a credential.\<close>

definition pick_with_resync ::
  "(manager \<Rightarrow> (pick_error + 'a) \<times> manager) \<Rightarrow> (manager \<Rightarrow> (pick_error + 'a) \<times> manager) \<Rightarrow> model_lookup \<Rightarrow> string \<Rightarrow> time \<Rightarrow>
   manager \<Rightarrow> (pick_error + 'a) \<times> manager" where
  "pick_with_resync pick again lookup model nowS m =
     (case pick m of
        (Inl err, m1) \<Rightarrow>
          if model \<noteq> [] \<and> shouldRetrySchedulerPick err then again (syncScheduler lookup nowS m1) else (Inl err, m1)
      | (Inr x, m1) \<Rightarrow> (Inr x, m1))"

definition needs_route ::
  "model_lookup \<Rightarrow> pick_config \<Rightarrow> pick_request \<Rightarrow> string list \<Rightarrow> string \<Rightarrow> string list \<Rightarrow> manager \<Rightarrow> bool" where
  "needs_route lookup cfg rq providers model tried m =
     (TrimSpace model \<noteq> [] \<and>
      list_ex (\<lambda>a. \<not> auth_Disabled a \<and> executorKeyFromAuth (Some a) \<in> set providers \<and>
                   allows (authSelectionEligibilityForRequest rq) (Some a) \<and> auth_ID a \<notin> set tried \<and>
                   routeAwareSelectionRequired lookup (pc_names cfg) a model)
        (snapshotAuths m))"

definition pickNextMixed ::
  "model_lookup \<Rightarrow> pick_config \<Rightarrow> pick_request \<Rightarrow> string list \<Rightarrow> string \<Rightarrow> string list \<Rightarrow> (nat \<Rightarrow> time) \<Rightarrow> pick_state \<Rightarrow>
   (pick_error + auth \<times> string) \<times> pick_state" where
  "pickNextMixed lookup cfg rq providers model tried clk s =
     (let eligibleProviders = filter (has_executor cfg) (normalizeProviders providers)
      in if eligibleProviders = [] then (Inl (pick_failure ''auth_not_found'' ''no auth available''), s)
         else if needs_route lookup cfg rq eligibleProviders model tried (ps_mgr s)
         then pickNextMixedLegacy lookup cfg rq providers model tried clk s
         else
           (case with_mgr (pick_with_resync
                   (pick_mixed lookup rq eligibleProviders model tried (clk 0) (clk 1) (clk 2))
                   (pick_mixed lookup rq eligibleProviders model tried (clk 4) (clk 5) (clk 6)) lookup model (clk 3) (ps_mgr s)) s of
              (Inr (a, providerKey), s1) \<Rightarrow>
                if has_executor cfg providerKey then (Inr (a, providerKey), s1)
                else (Inl (pick_failure ''executor_not_found'' ''executor not registered''), s1)
            | (Inl err, s1) \<Rightarrow> (Inl err, s1)))"

definition pickNext ::
  "model_lookup \<Rightarrow> pick_config \<Rightarrow> pick_request \<Rightarrow> string \<Rightarrow> string \<Rightarrow> string list \<Rightarrow> (nat \<Rightarrow> time) \<Rightarrow> pick_state \<Rightarrow>
   (pick_error + auth) \<times> pick_state" where
  "pickNext lookup cfg rq provider model tried clk s =
     (if needs_route lookup cfg rq [provider] model tried (ps_mgr s) then pickNextLegacy lookup cfg rq provider model tried clk s
      else if \<not> has_executor cfg provider then (Inl (pick_failure ''executor_not_found'' ''executor not registered''), s)
      else
        with_mgr (pick_with_resync
          (pick_single lookup rq provider model tried (clk 0) (clk 1) (clk 2))
          (pick_single lookup rq provider model tried (clk 4) (clk 5) (clk 6)) lookup model (clk 3) (ps_mgr s)) s)"

end
