(* ===== verification/Execution.thy ===== *)
theory Execution
  imports Manager_Pick
begin

text \<open>
  The execution of a request: \<open>Execute\<close> and \<open>executeMixedOnce\<close> of \<^verbatim>\<open>conductor_execution.go\<close>, with the home
  service disabled. One run tries credential after credential, and the models of each; the outer loop repeats
  the run after a wait.

  What comes from outside is the record \<open>exec_world\<close>: the clock, whether the executor fails to prepare the
  credential, whether waiting for a permit of the upstream limit fails, whether an interceptor ends the request, what
  the executor's n-th call returns, and whether the request is cancelled while it waits for a retry. Preparing a
  credential leaves it as it is. The refresh of a token after an unauthorized response, the rewriting of bodies,
  a model to execute that differs from the one to select with (\<open>restoreExecutionModel\<close>) and the fall-back to the
  credits of one provider (Antigravity) are left out: the model is that of credentials without a refresh token
  and requests where these have nothing to do.
\<close>

section \<open>The loop over credentials\<close>

text \<open>What trying one credential comes to: it has no model to try, it has been tried, with an error or not, or
  the request has ended.\<close>

datatype ('e, 'r) attempt = Skipped | Tried "'e option" | Finished "'e + 'r"

text \<open>The loop that \<open>executeMixedOnce\<close> and its variants for streams and token counts share. \<open>fuel\<close> bounds its
  rounds; \<open>Execution_Claims\<close> shows how much is enough.\<close>

fun credential_loop ::
  "(string list \<Rightarrow> 's \<Rightarrow> (pick_error + auth \<times> string) \<times> 's) \<Rightarrow> (auth \<Rightarrow> string \<Rightarrow> 's \<Rightarrow> ('e, 'r) attempt \<times> 's) \<Rightarrow>
   (pick_error \<Rightarrow> 'e) \<Rightarrow> int \<Rightarrow> nat \<Rightarrow> string list \<Rightarrow> string list \<Rightarrow> 'e option \<Rightarrow> 's \<Rightarrow> (('e + 'r) \<times> 's) option" where
  "credential_loop pick attempt fail maxRetryCredentials 0 tried attempted lastErr s = None"
| "credential_loop pick attempt fail maxRetryCredentials (Suc fuel) tried attempted lastErr s =
     (let giveUp = (\<lambda>err. Inl (case lastErr of Some e \<Rightarrow> e | None \<Rightarrow> fail err)) in
      if maxRetryCredentials > 0 \<and> int (length attempted) \<ge> maxRetryCredentials
      then Some (giveUp (pick_failure ''auth_not_found'' ''no auth available''), s)
      else
        (case pick tried s of
           (Inl err, s1) \<Rightarrow> Some (giveUp err, s1)
         | (Inr (a, provider), s1) \<Rightarrow>
             (case attempt a provider s1 of
                (Skipped, s2) \<Rightarrow>
                  credential_loop pick attempt fail maxRetryCredentials fuel (auth_ID a # tried) attempted lastErr s2
              | (Tried err, s2) \<Rightarrow>
                  credential_loop pick attempt fail maxRetryCredentials fuel (auth_ID a # tried) (List.insert (auth_ID a) attempted)
                    (or_else err lastErr) s2
              | (Finished res, s2) \<Rightarrow> Some (res, s2))))"

section \<open>The attempt with one credential\<close>

datatype 'r outcome = Responded 'r | Failed go_error | Cancelled go_error

record 'r exec_world =
  xw_clock :: "nat \<Rightarrow> time"
  xw_execute :: "nat \<Rightarrow> auth \<Rightarrow> string \<Rightarrow> 'r outcome"
  xw_prepare :: "nat \<Rightarrow> auth \<Rightarrow> go_error option"
  xw_permit :: "nat \<Rightarrow> go_error option"
  xw_intercept :: "nat \<Rightarrow> string \<Rightarrow> go_error option"
  xw_wait :: "nat \<Rightarrow> go_error option"

record exec_state =
  es_pick :: pick_state
  es_offsets :: "(string, int) gomap"
  es_tick :: nat
  es_calls :: "(string \<times> string) list"

record exec_config =
  xc_lookup :: model_lookup
  xc_pick :: pick_config
  xc_json :: json_env
  xc_retry :: retry_settings

text \<open>A cancelled request of an OAuth credential of Claude is not recorded.\<close>

definition claudeOAuthRequestCancellation :: "auth \<Rightarrow> go_error \<Rightarrow> bool" where
  "claudeOAuthRequestCancellation a err =
     (EqualFold (TrimSpace (auth_Provider a)) ''claude'' \<and>
      EqualFold (TrimSpace (attribute_value (auth_Attributes a) ''auth_kind'')) ''oauth'' \<and> ge_canceled err)"

definition mark_result :: "exec_config \<Rightarrow> 'r exec_world \<Rightarrow> result \<Rightarrow> exec_state \<Rightarrow> exec_state" where
  "mark_result cfg w res s =
     (let n = es_tick s; ps = es_pick s
      in s\<lparr>es_pick := ps\<lparr>ps_mgr := MarkResult (xc_lookup cfg) res (xw_clock w n) (xw_clock w (n + 1)) (xw_clock w (n + 2)) (ps_mgr ps)\<rparr>,
           es_tick := n + 3\<rparr>)"

definition failed_result :: "json_env \<Rightarrow> auth \<Rightarrow> string \<Rightarrow> string \<Rightarrow> go_error \<Rightarrow> result" where
  "failed_result je a provider model err =
     \<lparr>res_AuthID = auth_ID a, res_Provider = provider, res_Model = model, res_Success = False,
      res_RetryAfter = retryAfterFromError err, res_Error = Some (resultErrorFromError je err)\<rparr>"

text \<open>The preparation of a credential fails for the model of the request, without a time to wait.\<close>

definition prepare_result :: "json_env \<Rightarrow> auth \<Rightarrow> string \<Rightarrow> string \<Rightarrow> go_error \<Rightarrow> result" where
  "prepare_result je a provider model err =
     \<lparr>res_AuthID = auth_ID a, res_Provider = provider, res_Model = model, res_Success = False,
      res_RetryAfter = None, res_Error = Some (resultErrorFromError je err)\<rparr>"

definition success_result :: "auth \<Rightarrow> string \<Rightarrow> string \<Rightarrow> result" where
  "success_result a provider model =
     \<lparr>res_AuthID = auth_ID a, res_Provider = provider, res_Model = model, res_Success = True,
      res_RetryAfter = None, res_Error = None\<rparr>"

text \<open>The loop over the models of the credential. A response comes with the alias it is to be rewritten for.\<close>

fun try_models ::
  "exec_config \<Rightarrow> 'r exec_world \<Rightarrow> string \<Rightarrow> auth \<Rightarrow> string \<Rightarrow> bool \<Rightarrow> alias_result \<Rightarrow> go_error option \<Rightarrow> string list \<Rightarrow>
   exec_state \<Rightarrow> (go_error, 'r \<times> alias_result) attempt \<times> exec_state" where
  "try_models cfg w routeModel a provider pooled aliasResult authErr [] s = (Tried authErr, s)"
| "try_models cfg w routeModel a provider pooled aliasResult authErr (upstreamModel # ms) s =
     (let nm = pc_names (xc_pick cfg);
          resultModel = stateModelForExecution (xc_lookup cfg) nm a routeModel upstreamModel pooled;
          s1 = s\<lparr>es_calls := es_calls s @ [(auth_ID a, upstreamModel)]\<rparr>
      in (case xw_intercept w (es_tick s) upstreamModel of
            Some err \<Rightarrow> (Finished (Inl err), s)
          | None \<Rightarrow>
         (case xw_execute w (length (es_calls s)) a upstreamModel of
            Cancelled err \<Rightarrow> (Finished (Inl err), s1)
          | Failed err \<Rightarrow>
              if claudeOAuthRequestCancellation a err then (Finished (Inl err), s1)
              else
                let s2 = mark_result cfg w (failed_result (xc_json cfg) a provider resultModel err) s1
                in if isRequestInvalidError (xc_json cfg) err then (Finished (Inl err), s2)
                   else try_models cfg w routeModel a provider pooled aliasResult (Some err) ms s2
          | Responded resp \<Rightarrow>
              (Finished (Inr (resp, resolveAttemptAliasResult (mn_routing nm) a routeModel upstreamModel aliasResult)),
               mark_result cfg w (success_result a provider resultModel) s1))))"

definition attempt_credential ::
  "exec_config \<Rightarrow> 'r exec_world \<Rightarrow> string \<Rightarrow> auth \<Rightarrow> string \<Rightarrow> exec_state \<Rightarrow> (go_error, 'r \<times> alias_result) attempt \<times> exec_state" where
  "attempt_credential cfg w routeModel a provider s =
     (case preparedExecutionModelsWithAlias (xc_lookup cfg) (pc_names (xc_pick cfg)) a routeModel (xw_clock w (es_tick s)) (es_offsets s) of
        ((ms, pooled, aliasResult), offsets) \<Rightarrow>
          let s1 = s\<lparr>es_offsets := offsets, es_tick := es_tick s + 1\<rparr>
          in if ms = [] then (Skipped, s1)
             else
               (case xw_prepare w (es_tick s) a of
                  Some err \<Rightarrow>
                    if claudeOAuthRequestCancellation a err then (Finished (Inl err), s1)
                    else (Tried (Some err), mark_result cfg w (prepare_result (xc_json cfg) a provider routeModel err) s1)
                | None \<Rightarrow>
                    (case xw_permit w (es_tick s) of
                       Some err \<Rightarrow> (Finished (Inl err), s1)
                     | None \<Rightarrow> try_models cfg w routeModel a provider pooled aliasResult None ms s1)))"

definition pick_credential ::
  "exec_config \<Rightarrow> 'r exec_world \<Rightarrow> pick_request \<Rightarrow> string list \<Rightarrow> string \<Rightarrow> string list \<Rightarrow> exec_state \<Rightarrow>
   (pick_error + auth \<times> string) \<times> exec_state" where
  "pick_credential cfg w rq providers routeModel tried s =
     (case pickNextMixed (xc_lookup cfg) (xc_pick cfg) rq providers routeModel tried (\<lambda>j. xw_clock w (es_tick s + j)) (es_pick s) of
        (r, ps) \<Rightarrow> (r, s\<lparr>es_pick := ps, es_tick := es_tick s + 7\<rparr>))"

text \<open>The error of a pick as a Go error. The text of a cool-down error is a JSON object with the code \<open>model_cooldown\<close>;
  \<open>text\<close> stands for it.\<close>

definition pick_go_error :: "(pick_error \<Rightarrow> string) \<Rightarrow> pick_error \<Rightarrow> go_error" where
  "pick_go_error text err =
     \<lparr>ge_tree = ErrorTree (case err of PickError e \<Rightarrow> Some e | _ \<Rightarrow> None) (text err) [],
      ge_auth = (case err of PickError e \<Rightarrow> Some e | _ \<Rightarrow> None),
      ge_status = Some (case err of PickError e \<Rightarrow> Error_StatusCode (Some e) | _ \<Rightarrow> 429),
      ge_retryAfter = None,
      ge_requestScoped = (case err of PickError e \<Rightarrow> IsRequestScoped (Some e) | _ \<Rightarrow> False),
      ge_closeCode = None, ge_canceled = False, ge_deadline = False, ge_eof = False, ge_homeBusy = False, ge_terminated = False\<rparr>"

definition executeMixedOnce ::
  "nat \<Rightarrow> exec_config \<Rightarrow> 'r exec_world \<Rightarrow> (pick_error \<Rightarrow> string) \<Rightarrow> pick_request \<Rightarrow> string list \<Rightarrow> string \<Rightarrow> exec_state \<Rightarrow>
   ((go_error + 'r \<times> alias_result) \<times> exec_state) option" where
  "executeMixedOnce fuel cfg w text rq providers routeModel s =
     (if providers = []
      then Some (Inl (pick_go_error text (pick_failure ''provider_not_found'' ''no provider supplied'')), s)
      else
        credential_loop (pick_credential cfg w rq providers routeModel) (attempt_credential cfg w routeModel)
          (pick_go_error text) (rt_maxRetryCredentials (xc_retry cfg)) fuel [] [] None s)"

section \<open>Retries\<close>

fun execute_loop ::
  "nat \<Rightarrow> nat \<Rightarrow> exec_config \<Rightarrow> 'r exec_world \<Rightarrow> (pick_error \<Rightarrow> string) \<Rightarrow> pick_request \<Rightarrow> string list \<Rightarrow> string \<Rightarrow> int \<Rightarrow>
   exec_state \<Rightarrow> ((go_error + 'r \<times> alias_result) \<times> exec_state) option" where
  "execute_loop 0 fuel cfg w text rq providers routeModel attempt s = None"
| "execute_loop (Suc rounds) fuel cfg w text rq providers routeModel attempt s =
     (case executeMixedOnce fuel cfg w text rq providers routeModel s of
        None \<Rightarrow> None
      | Some (Inr resp, s1) \<Rightarrow> Some (Inr resp, s1)
      | Some (Inl err, s1) \<Rightarrow>
          if ge_terminated err then Some (Inl err, s1)
          else
            let s2 = s1\<lparr>es_tick := es_tick s1 + 1\<rparr>
            in (case shouldRetryAfterError (xc_lookup cfg) (pc_names (xc_pick cfg)) (xc_json cfg) (xc_retry cfg) err attempt providers
                       routeModel (rt_maxRetryInterval (xc_retry cfg)) (xw_clock w (es_tick s1)) (ps_mgr (es_pick s1)) of
                  None \<Rightarrow> Some (Inl err, s2)
                | Some wait \<Rightarrow>
                    (case (if wait > 0 then xw_wait w (es_tick s1) else None) of
                       Some cancelled \<Rightarrow> Some (Inl cancelled, s2)
                     | None \<Rightarrow> execute_loop rounds fuel cfg w text rq providers routeModel (attempt + 1) s2)))"

definition Execute ::
  "nat \<Rightarrow> nat \<Rightarrow> exec_config \<Rightarrow> 'r exec_world \<Rightarrow> (pick_error \<Rightarrow> string) \<Rightarrow> pick_request \<Rightarrow> string list \<Rightarrow> string \<Rightarrow> exec_state \<Rightarrow>
   ((go_error + 'r \<times> alias_result) \<times> exec_state) option" where
  "Execute rounds fuel cfg w text rq providers routeModel s =
     (let normalized = normalizeProviders providers
      in if normalized = []
         then Some (Inl (pick_go_error text (pick_failure ''provider_not_found'' ''no provider supplied'')), s)
         else execute_loop rounds fuel cfg w text rq normalized routeModel 0 s)"

end
