(* ===== verification/Manager_Blocks.thy ===== *)
theory Manager_Blocks
  imports Manager_Restore
begin

text \<open>What results and resets do to the blocks of a credential, model by model.\<close>

section \<open>Blocks after an update of one state\<close>

lemma block_after_set:
  assumes L: "auth_live lookup a" and k: "fixed_key lookup k" "state_live st"
    and b: "auth_ModelStates b = mput k (Some st) (auth_ModelStates a)" "\<not> auth_Disabled b" "auth_Status b \<noteq> StatusDisabled"
    and t: "0 \<le> now" "now \<le> t" and k': "fixed_key lookup k'" "k' \<noteq> []"
  shows "isAuthBlockedForModel lookup (Some (updateAggregatedAvailability b now)) k' t =
     (if k' = k then state_availability st t else state_block_of t (mget (auth_ModelStates a) k'))"
proof -
  let ?M = "auth_ModelStates (updateAggregatedAvailability b now)"
  note s = set_live [OF L k]
  have ok: "states_ok lookup ?M" using s(1) by (simp add: update_states b(1) states_ok_map)
  have ne: "?M \<noteq> []" using keys_mput [of k "Some st" "auth_ModelStates a"] by (auto simp: update_states b(1))
  have x: "pred_option (pred_option state_live) (mget (mput k (Some st) (auth_ModelStates a)) k')"
  proof (cases "mget (mput k (Some st) (auth_ModelStates a)) k'")
    case (Some y)
    from map_of_SomeD [OF Some] have "y \<in> snd ` set (mput k (Some st) (auth_ModelStates a))" by (metis image_eqI snd_conv)
    then have "pred_option state_live y" using s(2) unfolding live_states_def by blast
    then show ?thesis unfolding Some by simp
  qed simp
  have "isAuthBlockedForModel lookup (Some (updateAggregatedAvailability b now)) k' t = state_block_of t (mget ?M k')"
    using blocked_by_state [OF ok k'] ne b(2,3) by simp
  also have "\<dots> = state_block_of t (mget (mput k (Some st) (auth_ModelStates a)) k')"
    unfolding update_states b(1) mget_map_states by (rule expire_block_of [OF t x])
  also have "\<dots> = (if k' = k then state_availability st t else state_block_of t (mget (auth_ModelStates a) k'))"
    using k(2) by (simp add: state_block_of_def state_live_def)
  finally show ?thesis .
qed

lemma blocked_fields:
  "auth_ModelStates a = auth_ModelStates b \<Longrightarrow> auth_Disabled a = auth_Disabled b \<Longrightarrow>
   (auth_Status a = StatusDisabled) = (auth_Status b = StatusDisabled) \<Longrightarrow> auth_Unavailable a = auth_Unavailable b \<Longrightarrow>
   auth_NextRetryAfter a = auth_NextRetryAfter b \<Longrightarrow> auth_Quota a = auth_Quota b \<Longrightarrow>
   isAuthBlockedForModel lookup (Some a) k t = isAuthBlockedForModel lookup (Some b) k t"
  by (simp add: isAuthBlockedForModel_def)

lemma view_blocked:
  assumes "sched_view a = sched_view b"
  shows "isAuthBlockedForModel lookup (Some a) k t = isAuthBlockedForModel lookup (Some b) k t"
proof -
  have "isAuthBlockedForModel lookup (Some (sched_view c)) k t = isAuthBlockedForModel lookup (Some c) k t" for c
    by (simp add: isAuthBlockedForModel_def sched_view_def)
  then show ?thesis using assms by metis
qed

section \<open>Failures\<close>

lemma failure_blocks:
  assumes L: "auth_live lookup a" and "plain_model lookup (res_Model res)" "\<not> res_Success res"
    and key: "key = canonicalModelKey lookup (res_Model res)" "key \<noteq> []"
    and "\<not> shouldSkipCredentialCooldown (res_Error res)" "\<not> auth_Disabled a" "sane_env env" "sane_retry (res_RetryAfter res)"
    and t: "0 < now" "now \<le> t" and k': "fixed_key lookup k'" "k' \<noteq> []"
  shows "isAuthBlockedForModel lookup (Some (fst (mark_auth lookup env res now a))) k' t =
     (if k' = key
      then state_availability (failed_state env (count_request False now a) res now (state_or_new (mget (auth_ModelStates a) key))) t
      else state_block_of t (mget (auth_ModelStates a) k'))"
proof -
  let ?a = "count_request False now a" and ?st = "state_or_new (mget (auth_ModelStates a) key)"
  have fk: "fixed_key lookup key" using assms(2) key by (simp add: plain_model_def)
  have ok: "states_ok lookup (auth_ModelStates a)" "live_states (auth_ModelStates a)" using L by (auto simp: auth_live_def)
  have "state_live ?st" by (rule state_or_new_live [OF ok(2)])
  then have live: "state_live (failed_state env ?a res now ?st)"
    unfolding failed_state_def using assms(8,9) t(1) by (intro fail_live) (simp_all add: state_live_def sane_env_def)
  obtain m e where "fst (mark_model_failure lookup env key res now ?a) =
      updateAggregatedAvailability (?a\<lparr>auth_ModelStates := mput key (Some (failed_state env ?a res now ?st)) (auth_ModelStates a),
        auth_LastError := e, auth_StatusMessage := m, auth_Status := StatusError, auth_UpdatedAt := now\<rparr>) now"
    using mark_failure_eq [of lookup ?a key res env now] ok(1) fk key(2) assms(6) by auto
  moreover have "mark_auth lookup env res now a = mark_model_failure lookup env key res now ?a"
    using assms(3) key by (simp add: mark_auth_def Let_def)
  ultimately show ?thesis
    using block_after_set [OF L fk live _ _ _ _ t(2) k', of
        "?a\<lparr>auth_ModelStates := mput key (Some (failed_state env ?a res now ?st)) (auth_ModelStates a),
        auth_LastError := e, auth_StatusMessage := m, auth_Status := StatusError, auth_UpdatedAt := now\<rparr>"] t(1) assms(7) by simp
qed

lemma rate_limit_classes:
  assumes "statusCodeFromResult err = 429" "\<not> isCloudflareChallengeResultError err"
  shows "fail_schedule secs dc err ra now st = fail_quota dc ra now st"
  using assms by (simp add: fail_schedule_def isModelSupportResultError_def isInvalidGrantResultError_def)

text \<open>The end of a rate-limit window.\<close>

definition quota_until :: "duration option \<Rightarrow> quota_state \<Rightarrow> time \<Rightarrow> time" where
  "quota_until retryAfter q now =
     (case retryAfter of Some d \<Rightarrow> now + d | None \<Rightarrow> fst (quotaCooldownAfterFailure q now))"

lemma quota_state_block:
  assumes "\<not> cooldownDisabledForAuth env a" "statusCodeFromResult (res_Error res) = 429"
    "\<not> isCloudflareChallengeResultError (res_Error res)" "0 < now" "now \<le> t" "sane_retry (res_RetryAfter res)"
  shows "state_availability (failed_state env a res now st) t =
     (if t < quota_until (res_RetryAfter res) (ms_Quota st) now
      then (True, blockReasonCooldown, quota_until (res_RetryAfter res) (ms_Quota st) now) else (False, blockReasonNone, 0))"
proof -
  let ?u = "quota_until (res_RetryAfter res) (ms_Quota st) now"
  obtain l where f: "fst (fail_quota False (res_RetryAfter res) now (fail_begin (res_Error res) now st)) =
      (fail_begin (res_Error res) now st)\<lparr>ms_NextRetryAfter := ?u,
         ms_Quota := \<lparr>q_Exceeded = True, q_Reason = ''quota'', q_NextRecoverAt = ?u, q_BackoffLevel = l\<rparr>\<rparr>"
    by (cases "res_RetryAfter res") (auto simp: fail_quota_def quota_until_def case_prod_beta Let_def)
  have pos: "0 < ?u" using assms(4,6) quota_deadline [OF assms(4), of "ms_Quota st"]
    by (auto simp: quota_until_def sane_retry_def add_pos_nonneg split: option.splits)
  have "failed_state env a res now st = (fail_begin (res_Error res) now st)\<lparr>ms_NextRetryAfter := ?u,
         ms_Quota := \<lparr>q_Exceeded = True, q_Reason = ''quota'', q_NextRecoverAt = ?u, q_BackoffLevel = l\<rparr>\<rparr>"
    unfolding failed_state_def rate_limit_classes [OF assms(2,3)] using assms(1) f by (simp add: fail_end_def)
  then show ?thesis using assms(4,5) pos by (auto simp: state_availability_def availabilityBlock_def Let_def)
qed

section \<open>Successes and resets\<close>

lemma reset_state_block: "state_availability (resetModelState st now) t = (False, blockReasonNone, 0)"
  by (simp add: state_availability_def availabilityBlock_def resetModelState_def zero_quota_def)

lemma success_blocks:
  assumes L: "auth_live lookup a" and "plain_model lookup (res_Model res)" "res_Success res"
    and key: "key = canonicalModelKey lookup (res_Model res)" "key \<noteq> []"
    and "\<not> auth_Disabled a" "auth_Status a \<noteq> StatusDisabled"
    and t: "0 < now" "now \<le> t" and k': "fixed_key lookup k'" "k' \<noteq> []"
  shows "isAuthBlockedForModel lookup (Some (fst (mark_auth lookup env res now a))) k' t =
     (if k' = key then (False, blockReasonNone, 0) else state_block_of t (mget (auth_ModelStates a) k'))"
proof -
  let ?a = "count_request True now a" and ?st = "resetModelState (state_or_new (mget (auth_ModelStates a) key)) now"
  let ?b = "?a\<lparr>auth_ModelStates := mput key (Some ?st) (auth_ModelStates a)\<rparr>"
  let ?u = "updateAggregatedAvailability ?b now"
  have fk: "fixed_key lookup key" using assms(2) key by (simp add: plain_model_def)
  have ok: "states_ok lookup (auth_ModelStates ?a)" using L by (simp add: auth_live_def)
  have "fst (mark_auth lookup env res now a) = (if \<not> hasModelError ?u now then clear_error ?u else ?u)\<lparr>auth_UpdatedAt := now\<rparr>"
    using assms(3) key mark_success_eq [OF ok fk key(2), of now] by (simp add: mark_auth_def Let_def)
  then have "isAuthBlockedForModel lookup (Some (fst (mark_auth lookup env res now a))) k' t = isAuthBlockedForModel lookup (Some ?u) k' t"
    using assms(6,7) by (intro blocked_fields) (simp_all add: clear_error_def)
  also have "\<dots> = (if k' = key then state_availability ?st t else state_block_of t (mget (auth_ModelStates a) k'))"
    using assms(6,7) t by (intro block_after_set [OF L fk reset_live _ _ _ _ _ k']) simp_all
  finally show ?thesis by (simp add: reset_state_block)
qed

definition quiet_states :: "(string, model_state option) gomap \<Rightarrow> bool" where
  "quiet_states L \<longleftrightarrow>
     (\<forall>x \<in> snd ` set L. pred_option (\<lambda>st. ms_Status st \<noteq> StatusDisabled \<and> \<not> ms_Unavailable st \<and> \<not> q_Exceeded (ms_Quota st)) x)"

lemma quiet_block: "quiet_states L \<Longrightarrow> state_block_of t (mget L k) = (False, blockReasonNone, 0)"
  by (cases "mget L k") (force simp: quiet_states_def state_block_of_def state_availability_def availabilityBlock_def
      dest: map_of_SomeD split: option.splits)+

lemma quiet_expire: "quiet_states L \<Longrightarrow> quiet_states (map (\<lambda>(k, x). (k, map_option (expire_state now) x)) L)"
  by (fastforce simp: quiet_states_def expire_state_def option.pred_map comp_def elim!: option.pred_mono_strong)

lemma quiet_clear: "live_states L \<Longrightarrow> quiet_states (map (\<lambda>(k, x). (k, clear_state now x)) L)"
proof -
  assume L: "live_states L"
  have "pred_option (\<lambda>st. ms_Status st \<noteq> StatusDisabled \<and> \<not> ms_Unavailable st \<and> \<not> q_Exceeded (ms_Quota st)) (clear_state now x)"
    if "pred_option state_live x" for x
    using clear_state_live [OF that, of now] clear_state_clean [of now x]
    by (cases "clear_state now x") (auto simp: state_live_def)
  with L show ?thesis by (auto simp: quiet_states_def live_states_def)
qed

lemma quiet_clear_auth: "live_states (auth_ModelStates a) \<Longrightarrow> quiet_states (auth_ModelStates (snd (clearCooldownStateForAuth now a)))"
  using quiet_expire [OF quiet_clear] quiet_clear [of "[]"] by (auto simp: clearCooldownStateForAuth_def Let_def update_states)

lemma clear_auth_own: "auth_ModelStates a = [] \<Longrightarrow>
   auth_ModelStates (snd (clearCooldownStateForAuth now a)) = [] \<and> \<not> auth_Unavailable (snd (clearCooldownStateForAuth now a)) \<and>
   \<not> q_Exceeded (auth_Quota (snd (clearCooldownStateForAuth now a)))"
  by (auto simp: clearCooldownStateForAuth_def Let_def has_cooldown_def zero_quota_def)

lemma reset_blocks:
  assumes L: "auth_live lookup a" and "\<not> auth_Disabled a" "auth_Status a \<noteq> StatusDisabled" "0 \<le> now"
    and k: "fixed_key lookup k" "k \<noteq> []"
  shows "isAuthBlockedForModel lookup (Some (fst (reset_quota_auth ms now a))) k t = (False, blockReasonNone, 0)"
proof -
  let ?b = "reset_states now a"
  obtain c a1 where c: "clearCooldownStateForAuth now ?b = (c, a1)" by fastforce
  define a2 where "a2 = (if \<not> c \<and> auth_ModelStates a1 \<noteq> [] then updateAggregatedAvailability a1 now else a1)"
  define a3 where "a3 = (if \<not> auth_Disabled a2 \<and> auth_Status a2 \<noteq> StatusDisabled \<and> \<not> hasModelError a2 now then clear_error a2 else a2)"
  have r: "fst (reset_quota_auth ms now a) = a3\<lparr>auth_UpdatedAt := now\<rparr>"
    by (simp add: reset_quota_auth_def c a2_def a3_def Let_def)
  have a1: "a1 = snd (clearCooldownStateForAuth now ?b)" using c by simp
  have dis2: "\<not> auth_Disabled a2" "auth_Status a2 \<noteq> StatusDisabled" using assms(2,3) by (simp_all add: a2_def a1 reset_states_def)
  have live: "live_states (auth_ModelStates ?b)" using reset_states_live(2) L by (auto simp: auth_live_def)
  have q: "quiet_states (auth_ModelStates a2)"
    using quiet_clear_auth [OF live, of now] quiet_expire by (auto simp: a2_def a1 update_states)
  have ok: "states_ok lookup (auth_ModelStates a2)"
    using reset_quota_live [OF assms(4) L, of ms] by (simp add: r a3_def clear_error_def auth_live_def split: if_splits)
  have "isAuthBlockedForModel lookup (Some (a3\<lparr>auth_UpdatedAt := now\<rparr>)) k t = isAuthBlockedForModel lookup (Some a2) k t"
    using dis2 by (intro blocked_fields) (simp_all add: a3_def clear_error_def)
  also have "\<dots> = (False, blockReasonNone, 0)"
  proof (cases "auth_ModelStates a2 = []")
    case True
    then have "auth_ModelStates ?b = []" by (auto simp: a2_def a1 clearCooldownStateForAuth_def Let_def update_states split: if_splits)
    from clear_auth_own [OF this, of now] True show ?thesis
      using blocked_by_state [OF ok k] dis2 by (simp add: a2_def a1 [symmetric] availabilityBlock_def)
  next
    case False
    then show ?thesis using blocked_by_state [OF ok k] dis2 quiet_block [OF q] by simp
  qed
  finally show ?thesis by (simp add: r)
qed

end
