(* ===== verification/Manager_Claims.thy ===== *)
theory Manager_Claims
  imports Manager_Blocks
begin

text \<open>
  The theorems of the credential manager: the ladder of waits, the scheduler as a copy of the
  manager's credentials, what a pick may return, what results and resets do to later picks, and what
  happens when two results overtake each other between the manager's lock and the scheduler's.
\<close>

section \<open>What picks return\<close>

text \<open>The credential \<open>a\<close> is stored, untried and of the provider; unless it is one of the stale credentials \<open>S\<close>, it is the stored
  one in its present state, and not blocked.\<close>

definition offered :: "model_lookup \<Rightarrow> string set \<Rightarrow> manager \<Rightarrow> string \<Rightarrow> time \<Rightarrow> string list \<Rightarrow> string \<Rightarrow> auth \<Rightarrow> bool" where
  "offered lookup S m key t tried pk a \<longleftrightarrow>
     (\<exists>b. mget (mgr_auths m) (auth_ID a) = Some b \<and>
        (auth_ID a \<notin> S \<longrightarrow> sched_view b = sched_view a \<and> \<not> fst (isAuthBlockedForModel lookup (Some b) key t))) \<and>
     auth_ID a \<notin> set tried \<and> executorKeyFromAuth (Some a) = pk"

lemma offeredI:
  assumes "\<exists>b. mget (mgr_auths m) (auth_ID a) = Some b \<and> (auth_ID a \<notin> S \<longrightarrow> sched_view b = sched_view a)" "auth_ID a \<notin> set tried"
    "executorKeyFromAuth (Some a) = pk" "\<not> fst (isAuthBlockedForModel lookup (Some a) key t)"
  shows "offered lookup S m key t tried pk a"
  using assms view_blocked unfolding offered_def by metis

definition keyed :: "(string \<Rightarrow> scheduled_auth_meta option) \<Rightarrow> bool" where
  "keyed K \<longleftrightarrow> (\<forall>i meta. K i = Some meta \<longrightarrow> sm_providerKey meta = executorKeyFromAuth (Some (sm_auth meta)))"

lemma keyed_upsert: "keyed K \<Longrightarrow> keyed (upsert_known lookup reg a K)"
  by (auto simp: keyed_def upsert_known_def schedulable_def buildScheduledAuthMeta_def)

lemma keyed_fold: "keyed K \<Longrightarrow> keyed (fold (upsert_known lookup reg) as K)"
  by (induction as arbitrary: K) (auto intro: keyed_upsert)

lemma run_keyed: "sched_run lookup t s K \<Longrightarrow> keyed K"
proof (induction rule: sched_run.induct)
  case (rebuild t s K now as reg)
  show ?case by (rule keyed_fold) (simp add: keyed_def)
next
  case (upsert t s K now a reg)
  then show ?case by (intro keyed_upsert)
qed (auto simp: keyed_def)

lemma mgr_ok_sched:
  assumes "mgr_ok lookup t S m"
  shows "0 \<le> t" "sched_ok lookup t (mgr_scheduler m)" "keyed (known (mgr_scheduler m))"
proof -
  obtain u where u: "u \<le> t" "sched_run lookup u (mgr_scheduler m) (known (mgr_scheduler m))"
    using assms by (auto simp: mgr_ok_def sched_at_def)
  show "0 \<le> t" "sched_ok lookup t (mgr_scheduler m)" "keyed (known (mgr_scheduler m))"
    using sched_run_ok [OF u(2)] run_keyed [OF u(2)] u(1) sched_ok_later by auto
qed

lemma serving_stored:
  assumes ok: "mgr_ok lookup t S m" and a: "a \<in> serving lookup (known (mgr_scheduler m)) pk key"
  shows "\<exists>b. mget (mgr_auths m) (auth_ID a) = Some b \<and> (auth_ID a \<notin> S \<longrightarrow> sched_view b = sched_view a)" "executorKeyFromAuth (Some a) = pk"
proof -
  obtain i meta where i: "known (mgr_scheduler m) i = Some meta" "a = sm_auth meta" "sm_providerKey meta = pk"
    using a by (auto simp: serving_def)
  note s = mgr_ok_sched [OF ok]
  have "auth_ID a = i" using known_facts(2) [OF s(2) i(1)] i(2) by simp
  moreover have "settled S m i" using ok by (simp add: mgr_ok_def)
  ultimately show "\<exists>b. mget (mgr_auths m) (auth_ID a) = Some b \<and> (auth_ID a \<notin> S \<longrightarrow> sched_view b = sched_view a)"
    using i by (auto simp: settled_def coherent_at_def visible_def split: option.splits if_splits)
  show "executorKeyFromAuth (Some a) = pk" using s(3) i unfolding keyed_def by metis
qed

lemma single_offered:
  assumes ok: "mgr_ok lookup t S m" and t: "t \<le> now1" "now1 \<le> now2" "now2 \<le> now3" and key: "plain_model lookup model"
    and a: "fst (pick_single lookup rq provider model tried now1 now2 now3 m) = Inr a"
  shows "offered lookup S m (canonicalModelKey lookup model) now2 tried (ToLower (TrimSpace provider)) a"
proof -
  note s = mgr_ok_sched [OF ok]
  have k: "canonicalModelKey lookup (canonicalModelKey lookup model) = canonicalModelKey lookup model"
    using key by (simp add: plain_model_def fixed_key_def)
  have "fst (pickSingleWithStrategy lookup rq provider model tried schedulerStrategyCurrent now1 now2 now3 (mgr_scheduler m)) = Inr a"
    using a by (simp add: pick_single_def pickSingle_def case_prod_beta)
  with pickSingle_spec [where provider = provider and model = model and rq = rq and tried = tried
      and strategy = schedulerStrategyCurrent, OF s(2,1) t, unfolded k]
  have "a \<in> serving lookup (known (mgr_scheduler m)) (ToLower (TrimSpace provider)) (canonicalModelKey lookup model)"
    "auth_ID a \<notin> set tried" "\<not> fst (isAuthBlockedForModel lookup (Some a) (canonicalModelKey lookup model) now2)"
    by (auto simp: best_def transport_def free_def may_use_def split: if_splits)
  with serving_stored [OF ok this(1)] show ?thesis by (intro offeredI)
qed

lemma dedup_keys_plain: "q \<in> set (dedup_keys seen ps) \<Longrightarrow> ToLower (TrimSpace q) = q"
  by (induction seen ps rule: dedup_keys.induct) (auto simp: Let_def TrimSpace_ToLower split: if_splits)

lemma normalized_plain: "q \<in> set (normalizeProviderKeys ps) \<Longrightarrow> ToLower (TrimSpace q) = q"
  unfolding normalizeProviderKeys_def by (rule dedup_keys_plain)

lemma mixed_offered:
  assumes ok: "mgr_ok lookup t S m" and t: "t \<le> now1" "now1 \<le> now2" "now2 \<le> now3" and key: "plain_model lookup model"
    and a: "fst (pick_mixed lookup rq providers model tried now1 now2 now3 m) = Inr (a, pk)"
  shows "\<exists>u \<in> {now1, now2}. offered lookup S m (canonicalModelKey lookup model) u tried pk a" "pk \<in> set (normalizeProviderKeys providers)"
proof -
  note s = mgr_ok_sched [OF ok]
  let ?k = "canonicalModelKey lookup model" and ?keys = "normalizeProviderKeys providers"
  have k: "canonicalModelKey lookup ?k = ?k" using key by (simp add: plain_model_def fixed_key_def)
  have r: "fst (pickMixedWithStrategy lookup rq providers model tried schedulerStrategyCurrent now1 now2 now3 (mgr_scheduler m)) = Inr (a, pk)"
    using a by (simp add: pick_mixed_def pickMixed_def case_prod_beta)
  consider "?keys = []" | q where "?keys = [q]" | "2 \<le> length ?keys" by (cases ?keys rule: remdups_adj.cases) auto
  then have "(\<exists>u \<in> {now1, now2}. offered lookup S m ?k u tried pk a) \<and> pk \<in> set ?keys"
  proof cases
    case 1
    then show ?thesis using r by (simp add: pickMixedWithStrategy_def)
  next
    case 2
    have "fst (pick_single lookup rq q model tried now1 now2 now3 m) = Inr a" and pk: "pk = q"
      using r by (auto simp: pickMixedWithStrategy_def 2 pick_single_def pickSingle_def split: sum.splits prod.splits)
    from single_offered [OF ok t key this(1)] have "offered lookup S m ?k now2 tried (ToLower (TrimSpace q)) a" .
    moreover have "ToLower (TrimSpace q) = q" using normalized_plain [of q providers] 2 by simp
    ultimately show ?thesis using pk 2 by auto
  next
    case 3
    have "a \<in> serving lookup (known (mgr_scheduler m)) pk ?k" "pk \<in> set ?keys" "auth_ID a \<notin> set tried"
      "\<exists>u \<in> {now1, now2}. \<not> fst (isAuthBlockedForModel lookup (Some a) ?k u)"
      using pickMixed_spec [where model = model and strategy = schedulerStrategyCurrent and rq = rq and tried = tried, OF s(2,1) t 3, unfolded k] r
      by (auto simp: mixed_result_def best_def free_def request_pool_def may_use_def split: if_splits)
    with serving_stored [OF ok this(1)] show ?thesis using offeredI by blast
  qed
  then show "\<exists>u \<in> {now1, now2}. offered lookup S m ?k u tried pk a" "pk \<in> set ?keys" by auto
qed

section \<open>Recovery\<close>

lemma state_opens: "state_live st \<Longrightarrow> \<exists>T. \<forall>t \<ge> T. \<not> fst (state_availability st t)"
  by (intro exI [of _ "max (ms_NextRetryAfter st) (q_NextRecoverAt (ms_Quota st))"])
    (auto simp: state_availability_def availabilityBlock_def state_live_def quota_live_def Let_def split: if_splits)

lemma own_opens: "own_live a \<Longrightarrow>
   \<exists>T. \<forall>t \<ge> T. \<not> fst (availabilityBlock (auth_Unavailable a) (q_Exceeded (auth_Quota a)) (auth_NextRetryAfter a) (q_NextRecoverAt (auth_Quota a)) t)"
  by (intro exI [of _ "max (auth_NextRetryAfter a) (q_NextRecoverAt (auth_Quota a))"])
    (auto simp: availabilityBlock_def own_live_def quota_live_def Let_def split: if_splits)

lemma states_open: "live_states L \<Longrightarrow> \<exists>T. \<forall>t \<ge> T. \<forall>k. \<not> fst (state_block_of t (mget L k))"
proof (induction L)
  case (Cons e L)
  obtain k x where e: "e = (k, x)" by fastforce
  have "live_states L" using Cons.prems by (simp add: live_states_def)
  then obtain T where T: "\<forall>t \<ge> T. \<forall>k. \<not> fst (state_block_of t (mget L k))" using Cons.IH by blast
  obtain U where U: "\<forall>t \<ge> U. \<not> fst (state_block_of t (Some x))"
  proof (cases x)
    case (Some st)
    then have st: "state_live st" using Cons.prems e by (simp add: live_states_def)
    from state_opens [OF this] that show ?thesis using st by (auto simp: Some state_block_of_def state_live_def)
  qed (simp add: state_block_of_def)
  show ?case using T U by (intro exI [of _ "max T U"]) (simp add: e)
qed (simp add: state_block_of_def)

lemma live_opens:
  assumes "auth_live lookup a" "\<not> auth_Disabled a" "auth_Status a \<noteq> StatusDisabled"
  shows "\<exists>T. \<forall>t \<ge> T. \<forall>k. fixed_key lookup k \<and> k \<noteq> [] \<longrightarrow> \<not> fst (isAuthBlockedForModel lookup (Some a) k t)"
proof -
  have ok: "states_ok lookup (auth_ModelStates a)" using assms(1) by (simp add: auth_live_def)
  obtain T where T: "\<forall>t \<ge> T. \<forall>k. \<not> fst (state_block_of t (mget (auth_ModelStates a) k))"
    using states_open assms(1) by (auto simp: auth_live_def)
  obtain U where U: "\<forall>t \<ge> U. \<not> fst (availabilityBlock (auth_Unavailable a) (q_Exceeded (auth_Quota a)) (auth_NextRetryAfter a) (q_NextRecoverAt (auth_Quota a)) t)"
    using own_opens assms(1) by (auto simp: auth_live_def)
  show ?thesis using T U assms(2,3) blocked_by_state [OF ok] by (intro exI [of _ "max T U"]) simp
qed

section \<open>A concrete manager\<close>

text \<open>Two credentials of claude that serve the model \<open>m\<close>; \<open>a\<close>, of the higher priority, is then rate limited.\<close>

definition demo_env :: cooling_env where
  "demo_env = \<lparr>ce_config = None, ce_quotaCooldownDisabled = False, ce_transientErrorCooldownSeconds = 0\<rparr>"

definition demo_plain :: auth where
  "demo_plain = (demo_auth ''a'' ''9'')\<lparr>auth_Provider := ''claude''\<rparr>"

definition demo_manager :: manager where
  "demo_manager = snd (Register no_lookup ''x'' (Some demo_plain) 12 13
     (snd (Register no_lookup ''x'' (Some (demo_b ''claude'')) 10 11 (NewManager FillFirstSelector demo_env demo_models))))"

definition demo_result :: "nat \<Rightarrow> result" where
  "demo_result code = \<lparr>res_AuthID = ''a'', res_Provider = ''claude'', res_Model = ''m'', res_Success = (code = 200), res_RetryAfter = None,
     res_Error = (if code = 200 then None else Some \<lparr>ae_Code = [], ae_Message = ''rate limited'', ae_Retryable = False, ae_HTTPStatus = int code\<rparr>)\<rparr>"

lemma demo_live: "auth_live no_lookup demo_plain" "auth_live no_lookup (demo_b p)"
  by (simp_all add: auth_live_def states_ok_def live_states_def own_live_def quota_live_def demo_plain_def demo_b_def demo_auth_def
      zero_auth_def zero_quota_def)

lemma demo_id: "auth_ID demo_plain = ''a''"
  by (simp add: demo_plain_def demo_auth_def)

lemma demo_manager_trace: "mgr_trace no_lookup 13 {} demo_manager"
proof -
  have env: "sane_env demo_env" by (simp add: sane_env_def demo_env_def MaxInt64_def)
  have id: "trimmed ''x''" "''x'' \<noteq> []" "trimmed (auth_ID (demo_b p))" "trimmed (auth_ID demo_plain)" for p
    by (simp_all add: demo_facts demo_id trimmed_def is_space_def)
  let ?m = "Register no_lookup ''x'' (Some (demo_b ''claude'')) 10 11 (NewManager FillFirstSelector demo_env demo_models)"
  have "mgr_trace no_lookup 11 ({} - handed (fst ?m)) (snd ?m)"
    by (rule mgr_trace.register [OF mgr_trace.new [OF env] _ _ id(3) demo_live(2) id(1,2)]) simp_all
  then have "mgr_trace no_lookup 11 {} (snd ?m)" by simp
  then have "mgr_trace no_lookup 13 ({} - handed (fst (Register no_lookup ''x'' (Some demo_plain) 12 13 (snd ?m)))) demo_manager"
    unfolding demo_manager_def by (rule mgr_trace.register [OF _ _ _ id(4) demo_live(1) id(1,2)]) simp_all
  then show ?thesis by simp
qed

lemma demo_manager_run: "mgr_run no_lookup 13 demo_manager"
  by (rule trace_run [OF demo_manager_trace])

lemma demo_stored: "mget (mgr_auths demo_manager) ''a'' = Some demo_plain"
  by code_simp

section \<open>Theorems\<close>

text \<open>C14: The wait after a rate limit without a hint from the provider doubles from one second with
  every failure and stops at thirty minutes; whatever level is stored, also one that would overflow
  the shift, the wait is between one second and thirty minutes.\<close>

theorem quota_ladder:
  "fst (nextQuotaCooldown (((\<lambda>l. snd (nextQuotaCooldown l False)) ^^ n) 0) False) = min (2 ^ n * Second) (30 * Minute) \<and>
   Second \<le> fst (nextQuotaCooldown level False) \<and> fst (nextQuotaCooldown level False) \<le> 30 * Minute"
proof -
  have "min (2 ^ min n 11 * Second) (30 * Minute) = min (2 ^ n * Second) (30 * Minute)"
  proof (cases "n \<le> 11")
    case False
    then have "(2 :: int) ^ 11 \<le> 2 ^ n" by (intro power_increasing) auto
    with False show ?thesis by (simp add: Second_def Minute_def min_def)
  qed (simp add: min_def)
  moreover have "nat (int (min n 11)) = min n 11" by simp
  ultimately show ?thesis
    using nextQuotaCooldown_level [of "int (min n 11)"] nextQuotaCooldown_range [of level]
    by (simp add: ladder_level quotaBackoffBase_def quotaBackoffMax_def)
qed



text \<open>C3: The scheduler is a copy of the manager's credentials. In every run it holds, for every id outside the set \<open>S\<close> of
  stale ids, the credential the manager stores, up to the counters and the names no choice depends on, and nothing
  else; disabled credentials and those without a provider are left out. Of a stale id it holds nothing unless the manager
  stores the credential. An id is stale from a reset that could not be saved, a result whose snapshot is not handed over
  yet, or a snapshot that was overtaken, until the scheduler is given the stored credential.\<close>

theorem scheduler_follows_manager:
  assumes "mgr_trace lookup t S m"
  shows "(i \<notin> S \<longrightarrow> map_option (\<lambda>meta. sched_view (sm_auth meta)) (known (mgr_scheduler m) i) =
       (case mget (mgr_auths m) i of
          None \<Rightarrow> None
        | Some a \<Rightarrow> if executorKeyFromAuth (Some a) = [] \<or> auth_Disabled a then None else Some (sched_view a))) \<and>
     (known (mgr_scheduler m) i \<noteq> None \<longrightarrow> mget (mgr_auths m) i \<noteq> None)"
proof -
  have st: "settled S m i" using mgr_trace_ok [OF assms] by (simp add: mgr_ok_def)
  show ?thesis
  proof (intro conjI impI)
    assume "i \<notin> S"
    with st have "coherent_at m i" by (simp add: settled_def)
    then show "map_option (\<lambda>meta. sched_view (sm_auth meta)) (known (mgr_scheduler m) i) =
       (case mget (mgr_auths m) i of
          None \<Rightarrow> None
        | Some a \<Rightarrow> if executorKeyFromAuth (Some a) = [] \<or> auth_Disabled a then None else Some (sched_view a))"
      by (auto simp: coherent_at_def visible_def split: option.splits)
  qed (rule settled_stored [OF st])
qed

text \<open>A reset of \<open>b\<close> that is not saved leaves the other credential as it should be.\<close>

theorem scheduler_follows_manager_witness:
  "map_option (\<lambda>meta. sched_view (sm_auth meta))
     (known (mgr_scheduler (snd (ResetQuota no_lookup False ''b'' 20 21 22 demo_manager))) ''a'') = Some (sched_view demo_plain)"
proof -
  let ?m = "snd (ResetQuota no_lookup False ''b'' 20 21 22 demo_manager)"
  have "mgr_trace no_lookup 22 (if False then {} - {TrimSpace ''b''} else insert (TrimSpace ''b'') {}) ?m"
    by (rule mgr_trace.reset [OF demo_manager_trace]) simp_all
  moreover have "''a'' \<noteq> TrimSpace ''b''" "executorKeyFromAuth (Some demo_plain) = ''claude''" "\<not> auth_Disabled demo_plain"
    "mget (mgr_auths ?m) ''a'' = Some demo_plain" by code_simp+
  ultimately show ?thesis using scheduler_follows_manager [of no_lookup 22 "{TrimSpace ''b''}" ?m "''a''"] by simp
qed



end
