(* ===== verification/Manager_Results.thy ===== *)
theory Manager_Results
  imports Manager_Claims
begin

text \<open>
  What results and resets do to later picks, and what happens when two results of one credential
  overtake each other between the manager's lock and the scheduler's.
\<close>

section \<open>Blocks after a result\<close>

lemma marked:
  assumes ok: "mgr_ok lookup t S m" and a: "mget (mgr_auths m) (res_AuthID res) = Some a"
  shows "mget (mgr_auths (MarkResult lookup res now nowS nowR m)) (res_AuthID res) = Some (fst (mark_auth lookup (mgr_env m) res now a))"
  using storedD(3) [OF ok a] a by (simp add: MarkResult_def mark_locked_def Let_def case_prod_beta)

lemma disabled_count [simp]: "cooldownDisabledForAuth env (count_request s now a) = cooldownDisabledForAuth env a"
proof -
  have "DisableCoolingOverride (Some (count_request s now a)) = DisableCoolingOverride (Some a)"
    by (simp add: DisableCoolingOverride_def)
  moreover have "providerCoolingDisabledForAuth (count_request s now a) cfg = providerCoolingDisabledForAuth a cfg" for cfg
    by (simp add: providerCoolingDisabledForAuth_def Let_def)
  ultimately show ?thesis by (simp add: cooldownDisabledForAuth_def quotaCooldownDisabledForAuthWithConfig_def cong: option.case_cong)
qed

lemma state_of_block:
  assumes "auth_live lookup a" "\<not> auth_Disabled a" "auth_Status a \<noteq> StatusDisabled" "auth_ModelStates a \<noteq> []" "fixed_key lookup k" "k \<noteq> []"
  shows "state_block_of t (mget (auth_ModelStates a) k) = isAuthBlockedForModel lookup (Some a) k t"
  using blocked_by_state [of lookup a k t] assms by (simp add: auth_live_def)

text \<open>A rate-limit failure of a model, reported for a credential with cool-downs.\<close>

definition rate_limit :: "model_lookup \<Rightarrow> cooling_env \<Rightarrow> result \<Rightarrow> auth \<Rightarrow> bool" where
  "rate_limit lookup env res a \<longleftrightarrow>
     \<not> res_Success res \<and> statusCodeFromResult (res_Error res) = 429 \<and> \<not> isCloudflareChallengeResultError (res_Error res) \<and>
     \<not> shouldSkipCredentialCooldown (res_Error res) \<and> \<not> cooldownDisabledForAuth env a \<and> \<not> auth_Disabled a \<and>
     canonicalModelKey lookup (res_Model res) \<noteq> [] \<and> plain_model lookup (res_Model res) \<and> sane_retry (res_RetryAfter res)"

text \<open>The quota recorded for a model.\<close>

definition model_quota :: "string \<Rightarrow> auth \<Rightarrow> quota_state" where
  "model_quota key a = ms_Quota (state_or_new (mget (auth_ModelStates a) key))"

lemma rate_limited_block:
  assumes "auth_live lookup a" "rate_limit lookup env res a" "sane_env env" "0 < now" "now \<le> t"
    and "u = quota_until (res_RetryAfter res) (model_quota (canonicalModelKey lookup (res_Model res)) a) now"
  shows "isAuthBlockedForModel lookup (Some (fst (mark_auth lookup env res now a))) (canonicalModelKey lookup (res_Model res)) t =
     (if t < u then (True, blockReasonCooldown, u) else (False, blockReasonNone, 0))"
proof -
  have k: "fixed_key lookup (canonicalModelKey lookup (res_Model res))" using assms(2) by (simp add: rate_limit_def plain_model_def)
  show ?thesis
    using failure_blocks [OF assms(1) _ _ refl _ _ _ assms(3) _ assms(4,5) k]
      quota_state_block [of env "count_request False now a" res now t] assms(2,4,5,6)
    by (simp add: rate_limit_def model_quota_def)
qed

lemma not_offered:
  assumes "auth_live lookup a" "rate_limit lookup env res a" "sane_env env" "0 < now" "now \<le> u"
    and "u < quota_until (res_RetryAfter res) (model_quota (canonicalModelKey lookup (res_Model res)) a) now"
    and "mget (mgr_auths m) (res_AuthID res) = Some c" "sched_view c = sched_view (fst (mark_auth lookup env res now a))" "res_AuthID res \<notin> S"
    and "offered lookup S m (canonicalModelKey lookup (res_Model res)) u tried pk b"
  shows "auth_ID b \<noteq> res_AuthID res"
proof
  assume "auth_ID b = res_AuthID res"
  then have "\<not> fst (isAuthBlockedForModel lookup (Some c) (canonicalModelKey lookup (res_Model res)) u)"
    using assms(7,9,10) by (simp add: offered_def)
  then show False using rate_limited_block [OF assms(1-5) refl] assms(6) view_blocked [OF assms(8)] by simp
qed

lemma demo_limit:
  "rate_limit no_lookup (mgr_env demo_manager) (demo_result 429) demo_plain"
  "mget (mgr_auths demo_manager) (res_AuthID (demo_result n)) = Some demo_plain"
  "res_AuthID (demo_result n) = ''a''" "res_Model (demo_result n) = ''m''"
proof -
  show "rate_limit no_lookup (mgr_env demo_manager) (demo_result 429) demo_plain" unfolding rate_limit_def
    by (intro conjI) (simp_all add: demo_result_def plain_model_def fixed_key_def demo_facts sane_retry_def, code_simp+)
  show i: "res_AuthID (demo_result n) = ''a''" "res_Model (demo_result n) = ''m''" by (simp_all add: demo_result_def)
  show "mget (mgr_auths demo_manager) (res_AuthID (demo_result n)) = Some demo_plain" using demo_stored i by simp
qed

section \<open>Theorems\<close>

text \<open>C13: A rate-limit failure blocks the credential for the model exactly until the hint of the provider
  has passed, or without a hint until the end of the window that was already open or of the next step
  of the ladder. For its other models only what is recorded for each of them counts from then on: if the credential
  had records of models and its status was not disabled, the blocks of the other models do not change; if it had
  none, it is open for every other model, even if a failure without a model had blocked it as a whole.\<close>

theorem rate_limit_window:
  assumes "mgr_run lookup t m" "mget (mgr_auths m) (res_AuthID res) = Some a" "rate_limit lookup (mgr_env m) res a"
    and "t \<le> now" "0 < now" "now \<le> t'"
    and "key = canonicalModelKey lookup (res_Model res)" "u = quota_until (res_RetryAfter res) (model_quota key a) now"
    and "mget (mgr_auths (MarkResult lookup res now nowS nowR m)) (res_AuthID res) = Some b"
  shows "isAuthBlockedForModel lookup (Some b) key t' = (if t' < u then (True, blockReasonCooldown, u) else (False, blockReasonNone, 0)) \<and>
     (canonicalModelKey lookup k = k \<and> k \<noteq> [] \<and> k \<noteq> key \<longrightarrow>
        (auth_ModelStates a \<noteq> [] \<and> auth_Status a \<noteq> StatusDisabled \<longrightarrow>
           isAuthBlockedForModel lookup (Some b) k t' = isAuthBlockedForModel lookup (Some a) k t') \<and>
        (auth_ModelStates a = [] \<longrightarrow> isAuthBlockedForModel lookup (Some b) k t' = (False, blockReasonNone, 0)))"
proof -
  obtain S where ok: "mgr_ok lookup t S m" using mgr_run_ok [OF assms(1)] by blast
  have L: "auth_live lookup a" "sane_env (mgr_env m)" using storedD(4) [OF ok assms(2)] ok by (simp_all add: mgr_ok_def stored_ok_def)
  have b: "b = fst (mark_auth lookup (mgr_env m) res now a)" using marked [OF ok assms(2)] assms(9) by simp
  have "isAuthBlockedForModel lookup (Some b) k t' = state_block_of t' (mget (auth_ModelStates a) k)"
    if "canonicalModelKey lookup k = k" "k \<noteq> []" "k \<noteq> key"
    using failure_blocks [OF L(1) _ _ assms(7) _ _ _ L(2) _ assms(5,6), of k] that assms(3,7)
    by (simp add: rate_limit_def fixed_key_def b)
  with rate_limited_block [OF L(1) assms(3) L(2) assms(5,6)] state_of_block [OF L(1), of k t'] assms(3) show ?thesis
    by (auto simp: assms(7,8) b fixed_key_def rate_limit_def state_block_of_def)
qed

text \<open>The credential \<open>a\<close> is rate limited for the model \<open>k\<close>, which opens nothing else, and then for \<open>m\<close>, which leaves \<open>k\<close> alone.\<close>

definition demo_other :: result where
  "demo_other = (demo_result 429)\<lparr>res_Model := ''k''\<rparr>"

definition demo_other_manager :: manager where
  "demo_other_manager = MarkResult no_lookup demo_other 14 15 16 demo_manager"

lemma demo_other_run: "mgr_run no_lookup 15 demo_other_manager"
proof -
  have "plain_model no_lookup (res_Model demo_other)" unfolding plain_model_def fixed_key_def by code_simp
  moreover have "sane_retry (res_RetryAfter demo_other)" by (simp add: demo_other_def demo_result_def sane_retry_def)
  ultimately show ?thesis unfolding demo_other_manager_def
    by (intro trace_run [OF mgr_trace.mark [OF demo_manager_trace]]) simp_all
qed

theorem rate_limit_window_witness:
  "isAuthBlockedForModel no_lookup (mget (mgr_auths (MarkResult no_lookup (demo_result 429) 20 21 22 demo_other_manager)) ''a'') ''m'' 30 =
     (True, blockReasonCooldown, 20 + Second) \<and>
   isAuthBlockedForModel no_lookup (mget (mgr_auths (MarkResult no_lookup (demo_result 429) 20 21 22 demo_other_manager)) ''a'') ''k'' 30 =
     (True, blockReasonCooldown, 14 + Second)"
proof -
  let ?m = "MarkResult no_lookup (demo_result 429) 20 21 22 demo_other_manager"
  have "(case mget (mgr_auths demo_other_manager) ''a'' of
      None \<Rightarrow> False
    | Some a \<Rightarrow> auth_ModelStates a \<noteq> [] \<and> auth_Status a \<noteq> StatusDisabled \<and> \<not> auth_Disabled a \<and>
        isAuthBlockedForModel no_lookup (Some a) ''k'' 30 = (True, blockReasonCooldown, 14 + Second) \<and>
        quota_until None (model_quota ''m'' a) 20 = 20 + Second \<and> \<not> cooldownDisabledForAuth (demo_env\<lparr>ce_config := Some zero_config\<rparr>) a)"
    by code_simp
  moreover have env: "mgr_env demo_other_manager = demo_env\<lparr>ce_config := Some zero_config\<rparr>" by code_simp
  moreover have k: "canonicalModelKey no_lookup ''k'' = ''k''" "res_RetryAfter (demo_result 429) = None" by code_simp+
  ultimately obtain a where a: "mget (mgr_auths demo_other_manager) (res_AuthID (demo_result 429)) = Some a"
    and facts: "auth_ModelStates a \<noteq> []" "auth_Status a \<noteq> StatusDisabled" "\<not> auth_Disabled a"
      "isAuthBlockedForModel no_lookup (Some a) ''k'' 30 = (True, blockReasonCooldown, 14 + Second)"
      "quota_until (res_RetryAfter (demo_result 429)) (model_quota ''m'' a) 20 = 20 + Second"
      "\<not> cooldownDisabledForAuth (mgr_env demo_other_manager) a"
    by (auto simp: demo_limit split: option.splits)
  have rl: "rate_limit no_lookup (mgr_env demo_other_manager) (demo_result 429) a" using demo_limit(1) facts(3,6) by (simp add: rate_limit_def)
  obtain b where b: "mget (mgr_auths ?m) (res_AuthID (demo_result 429)) = Some b"
    using mgr_run_ok [OF demo_other_run] marked [OF _ a] by blast
  note w = rate_limit_window [OF demo_other_run a rl _ _ _ refl refl b, of 30 "''k''"]
  show ?thesis using w facts k b by (simp add: demo_limit demo_facts Second_def)
qed

text \<open>C2: After a rate-limit failure no pick returns the credential for the model before the window has
  ended, neither among the credentials of one provider nor across providers, for as long as nothing else is
  recorded for the credential: this holds in every state of a run in which the manager's record of the credential is still
  the one that the failure left, up to counters, and the scheduler has been given that record. A success, a reset or an update
  changes the record, and an id is stale until its record is handed over.\<close>

theorem rate_limited_not_picked:
  assumes run: "mgr_run lookup t m" "mget (mgr_auths m) (res_AuthID res) = Some a" "rate_limit lookup (mgr_env m) res a"
    and mark: "0 < now" "mget (mgr_auths (MarkResult lookup res now nowS nowR m)) (res_AuthID res) = Some b"
    and later: "mgr_trace lookup t' S m'" "mget (mgr_auths m') (res_AuthID res) = Some c" "sched_view c = sched_view b" "res_AuthID res \<notin> S"
    and pick: "now \<le> now1" "t' \<le> now1" "now1 \<le> now2" "now2 \<le> now3"
    and win: "now2 < quota_until (res_RetryAfter res) (model_quota (canonicalModelKey lookup (res_Model res)) a) now"
  shows "(\<forall>x. fst (pick_single lookup rq provider (res_Model res) tried now1 now2 now3 m') = Inr x \<longrightarrow> auth_ID x \<noteq> res_AuthID res) \<and>
     (\<forall>x pk. fst (pick_mixed lookup rq providers (res_Model res) tried now1 now2 now3 m') = Inr (x, pk) \<longrightarrow> auth_ID x \<noteq> res_AuthID res)"
proof -
  have pm: "plain_model lookup (res_Model res)" using run(3) by (simp add: rate_limit_def)
  obtain T where T: "mgr_ok lookup t T m" using mgr_run_ok [OF run(1)] by blast
  have L: "auth_live lookup a" "sane_env (mgr_env m)" using storedD(4) [OF T run(2)] T by (simp_all add: mgr_ok_def stored_ok_def)
  have c: "sched_view c = sched_view (fst (mark_auth lookup (mgr_env m) res now a))" using marked [OF T run(2)] mark(2) later(3) by simp
  note ok = mgr_trace_ok [OF later(1)] and no = not_offered [OF L(1) run(3) L(2) mark(1) _ _ later(2) c later(4)]
  have "auth_ID x \<noteq> res_AuthID res" if "fst (pick_single lookup rq provider (res_Model res) tried now1 now2 now3 m') = Inr x" for x
    using no [OF _ win single_offered [OF ok pick(2-4) pm that]] pick by simp
  moreover have "auth_ID x \<noteq> res_AuthID res" if "fst (pick_mixed lookup rq providers (res_Model res) tried now1 now2 now3 m') = Inr (x, pk)" for x pk
  proof -
    note offer = mixed_offered(1) [OF ok pick(2-4) pm that]
    obtain u where u: "u \<in> {now1, now2}" "offered lookup S m' (canonicalModelKey lookup (res_Model res)) u tried pk x"
      using offer by blast
    then have "now \<le> u" "u < quota_until (res_RetryAfter res) (model_quota (canonicalModelKey lookup (res_Model res)) a) now"
      using pick win by auto
    from no [OF this u(2)] show ?thesis .
  qed
  ultimately show ?thesis by blast
qed

text \<open>The credential \<open>a\<close> is picked, then rate limited; a result of the other credential is recorded; \<open>a\<close> is not picked.\<close>

definition demo_limited_run :: manager where
  "demo_limited_run = MarkResult no_lookup ((demo_result 200)\<lparr>res_AuthID := ''b''\<rparr>) 24 25 26 (MarkResult no_lookup (demo_result 429) 20 21 22 demo_manager)"

lemma demo_limited_trace: "mgr_trace no_lookup 25 {} demo_limited_run"
proof -
  have pm: "plain_model no_lookup ''m''" by (simp add: plain_model_def fixed_key_def demo_facts)
  have "mgr_trace no_lookup 21 ({} - {res_AuthID (demo_result 429)}) (MarkResult no_lookup (demo_result 429) 20 21 22 demo_manager)"
    by (rule mgr_trace.mark [OF demo_manager_trace]) (simp_all add: pm demo_limit, simp add: demo_result_def sane_retry_def)
  then have 1: "mgr_trace no_lookup 21 {} (MarkResult no_lookup (demo_result 429) 20 21 22 demo_manager)" by simp
  have "mgr_trace no_lookup 25 ({} - {res_AuthID ((demo_result 200)\<lparr>res_AuthID := ''b''\<rparr>)}) demo_limited_run" unfolding demo_limited_run_def
    by (rule mgr_trace.mark [OF 1]) (simp_all add: pm demo_limit, simp add: demo_result_def sane_retry_def)
  then show ?thesis by simp
qed

theorem rate_limited_not_picked_witness:
  "map_sum id auth_ID (fst (pick_single no_lookup demo_pick_request ''claude'' ''m'' [] 14 15 16 demo_manager)) = Inr ''a'' \<and>
   (case fst (pick_single no_lookup demo_pick_request ''claude'' ''m'' [] 30 31 32 demo_limited_run) of
      Inl e \<Rightarrow> False | Inr x \<Rightarrow> auth_ID x \<noteq> ''a'')"
proof -
  let ?m = "MarkResult no_lookup (demo_result 429) 20 21 22 demo_manager"
  obtain b where b: "mget (mgr_auths ?m) (res_AuthID (demo_result 429)) = Some b"
    using mgr_run_ok [OF demo_manager_run] marked [OF _ demo_limit(2)] by blast
  have "mget (mgr_auths demo_limited_run) ''a'' = mget (mgr_auths ?m) ''a''"
    by (simp add: demo_limited_run_def MarkResult_def [of _ "(demo_result 200)\<lparr>res_AuthID := ''b''\<rparr>"] mark_locked_def Let_def
        split: option.split prod.split)
  then have c: "mget (mgr_auths demo_limited_run) (res_AuthID (demo_result 429)) = Some b" using b by (simp add: demo_limit)
  have u: "31 < quota_until (res_RetryAfter (demo_result 429)) (model_quota ''m'' demo_plain) 20" by code_simp
  have 1: "map_sum id auth_ID (fst (pick_single no_lookup demo_pick_request ''claude'' ''m'' [] 14 15 16 demo_manager)) = Inr ''a''"
    by code_simp
  have 2: "\<not> isl (fst (pick_single no_lookup demo_pick_request ''claude'' ''m'' [] 30 31 32 demo_limited_run))" by code_simp
  show ?thesis
    using rate_limited_not_picked [where rq = demo_pick_request and provider = "''claude''" and tried = "[]",
      OF demo_manager_run demo_limit(2,1) _ b demo_limited_trace c refl, of 30 31 32] u 1 2
    by (auto simp: demo_limit demo_facts split: sum.splits)
qed

text \<open>A success for a model opens the credential for it at once, whatever its failures were, and leaves
  the blocks of its other models as they are.\<close>

theorem success_reopens:
  assumes "mgr_run lookup t m" "mget (mgr_auths m) (res_AuthID res) = Some a" "\<not> auth_Disabled a" "auth_Status a \<noteq> StatusDisabled"
    and "res_Success res" "plain_model lookup (res_Model res)" "key = canonicalModelKey lookup (res_Model res)" "key \<noteq> []"
    and "0 < now" "now \<le> t'" "mget (mgr_auths (MarkResult lookup res now nowS nowR m)) (res_AuthID res) = Some b"
  shows "isAuthBlockedForModel lookup (Some b) key t' = (False, blockReasonNone, 0) \<and>
     (canonicalModelKey lookup k = k \<and> k \<noteq> [] \<and> k \<noteq> key \<and> auth_ModelStates a \<noteq> [] \<longrightarrow>
      isAuthBlockedForModel lookup (Some b) k t' = isAuthBlockedForModel lookup (Some a) k t')"
proof -
  obtain S where ok: "mgr_ok lookup t S m" using mgr_run_ok [OF assms(1)] by blast
  have L: "auth_live lookup a" by (rule storedD(4) [OF ok assms(2)])
  have b: "b = fst (mark_auth lookup (mgr_env m) res now a)" using marked [OF ok assms(2)] assms(11) by simp
  have fk: "fixed_key lookup key" using assms(6,7) by (simp add: plain_model_def)
  note eq = success_blocks [OF L assms(6,5,7,8,3,4,9,10)]
  show ?thesis using eq [OF fk assms(8)] eq [of k] state_of_block [OF L assms(3,4), of k] by (simp add: b fixed_key_def)
qed

theorem success_reopens_witness:
  "fst (isAuthBlockedForModel no_lookup (mget (mgr_auths (MarkResult no_lookup (demo_result 429) 20 21 22 demo_manager)) ''a'') ''m'' 30) \<and>
   \<not> fst (isAuthBlockedForModel no_lookup (mget (mgr_auths (MarkResult no_lookup (demo_result 200) 25 26 27
        (MarkResult no_lookup (demo_result 429) 20 21 22 demo_manager))) ''a'') ''m'' 30)"
proof -
  let ?m = "MarkResult no_lookup (demo_result 429) 20 21 22 demo_manager"
  have pm: "plain_model no_lookup ''m''" by (simp add: plain_model_def fixed_key_def demo_facts)
  have run: "mgr_run no_lookup 21 ?m"
    by (rule trace_run [OF mgr_trace.mark [OF demo_manager_trace]]) (simp_all add: pm demo_limit, simp add: demo_result_def sane_retry_def)
  have "(case mget (mgr_auths ?m) ''a'' of None \<Rightarrow> False | Some a \<Rightarrow> \<not> auth_Disabled a \<and> auth_Status a \<noteq> StatusDisabled \<and>
      fst (isAuthBlockedForModel no_lookup (Some a) ''m'' 30))" by code_simp
  then obtain a where a: "mget (mgr_auths ?m) ''a'' = Some a" "\<not> auth_Disabled a" "auth_Status a \<noteq> StatusDisabled"
    "fst (isAuthBlockedForModel no_lookup (Some a) ''m'' 30)" by (auto split: option.splits)
  have g: "mget (mgr_auths ?m) (res_AuthID (demo_result 200)) = Some a" using a(1) by (simp add: demo_limit)
  obtain b where b: "mget (mgr_auths (MarkResult no_lookup (demo_result 200) 25 26 27 ?m)) (res_AuthID (demo_result 200)) = Some b"
    using mgr_run_ok [OF run] marked [OF _ g] by blast
  have "res_Success (demo_result 200)" by (simp add: demo_result_def)
  from success_reopens [OF run g a(2,3) this _ refl _ _ _ b, of 30] pm a b show ?thesis by (simp add: demo_limit demo_facts)
qed

text \<open>C21: Resetting the quota of a stored credential that is not disabled succeeds, opens it for every
  model at once; if the credential cannot be saved the call fails, but the manager's credential is
  reset all the same; an unknown id is not an error and changes nothing.\<close>

theorem ResetQuota_opens:
  assumes "mgr_run lookup t m" "t \<le> now" "\<forall>a. mget (mgr_auths m) (TrimSpace i) = Some a \<longrightarrow> \<not> auth_Disabled a \<and> auth_Status a \<noteq> StatusDisabled"
    and "TrimSpace i \<noteq> []"
  shows "case mget (mgr_auths m) (TrimSpace i) of
      None \<Rightarrow> ResetQuota lookup saved i now nowR nowS m = (Inr None, m)
    | Some a \<Rightarrow> \<exists>b ms. mget (mgr_auths (snd (ResetQuota lookup saved i now nowR nowS m))) (TrimSpace i) = Some b \<and>
        fst (ResetQuota lookup saved i now nowR nowS m) = (if saved then Inr (Some (b, ms)) else Inl PersistFailed) \<and>
        (\<forall>k t'. canonicalModelKey lookup k = k \<and> k \<noteq> [] \<longrightarrow> isAuthBlockedForModel lookup (Some b) k t' = (False, blockReasonNone, 0))"
proof (cases "mget (mgr_auths m) (TrimSpace i)")
  case None
  then show ?thesis using assms(4) by (simp add: ResetQuota_def)
next
  case (Some a)
  obtain S where ok: "mgr_ok lookup t S m" using mgr_run_ok [OF assms(1)] by blast
  have now: "0 \<le> now" using mgr_ok_nonneg [OF ok] assms(2) by simp
  define r where "r = reset_quota_auth (modelsForRegisteredAuth lookup (TrimSpace i) (mgr_registry m)) now a"
  have "mget (mgr_auths (snd (ResetQuota lookup saved i now nowR nowS m))) (TrimSpace i) = Some (fst r)"
    "fst (ResetQuota lookup saved i now nowR nowS m) = (if saved then Inr (Some (fst r, snd r)) else Inl PersistFailed)"
    using assms(4) Some by (simp_all add: ResetQuota_def r_def [symmetric] case_prod_beta Let_def)
  moreover have "isAuthBlockedForModel lookup (Some (fst r)) k t' = (False, blockReasonNone, 0)"
    if "canonicalModelKey lookup k = k \<and> k \<noteq> []" for k t'
    unfolding r_def using assms(3) Some that by (intro reset_blocks [OF storedD(4) [OF ok Some] _ _ now]) (simp_all add: fixed_key_def)
  ultimately show ?thesis unfolding Some option.case by blast
qed

theorem ResetQuota_opens_witness:
  "\<not> isl (fst (ResetQuota no_lookup True '' a '' 25 26 27 (MarkResult no_lookup (demo_result 429) 20 21 22 demo_manager))) \<and>
   \<not> fst (isAuthBlockedForModel no_lookup (mget (mgr_auths (snd (ResetQuota no_lookup True '' a '' 25 26 27
      (MarkResult no_lookup (demo_result 429) 20 21 22 demo_manager)))) ''a'') ''m'' 30)"
proof -
  let ?m = "MarkResult no_lookup (demo_result 429) 20 21 22 demo_manager"
  have pm: "plain_model no_lookup ''m''" by (simp add: plain_model_def fixed_key_def demo_facts)
  have run: "mgr_run no_lookup 21 ?m"
    by (rule trace_run [OF mgr_trace.mark [OF demo_manager_trace]]) (simp_all add: pm demo_limit, simp add: demo_result_def sane_retry_def)
  have tr: "TrimSpace '' a '' = ''a''" by code_simp
  have "(case mget (mgr_auths ?m) ''a'' of None \<Rightarrow> False | Some a \<Rightarrow> \<not> auth_Disabled a \<and> auth_Status a \<noteq> StatusDisabled)" by code_simp
  then obtain a where a: "mget (mgr_auths ?m) ''a'' = Some a" "\<not> auth_Disabled a" "auth_Status a \<noteq> StatusDisabled" by (auto split: option.splits)
  from ResetQuota_opens [OF run, of 25 "'' a ''" True 26 27] a demo_facts(13) show ?thesis by (auto simp: tr)
qed

section \<open>Results that overtake each other\<close>

text \<open>
  \<open>MarkResult\<close> releases the manager's lock before it hands its snapshot to the scheduler. Two calls
  for one credential may therefore pass the manager's lock in one order and the scheduler's in the
  other.
\<close>

text \<open>C22: When the snapshots of two results of one credential reach the scheduler in the opposite order,
  the manager keeps the credential after both results, but the scheduler keeps the one after the first
  result only.\<close>

theorem overtaken_snapshot:
  assumes "mgr_run lookup t m" "mark_locked lookup r1 now1 m = (Some (s1, p1), m1)" "mark_locked lookup r2 now2 m1 = (Some (s2, p2), m2)"
    and "res_AuthID r1 = i" "res_AuthID r2 = i" "t \<le> now3" "now3 \<le> now4"
    and "m' = publish lookup now4 s1 (publish lookup now3 s2 m2)"
  shows "mget (mgr_auths m') i = Some s2 \<and> known (mgr_scheduler m') i = schedulable lookup (mgr_registry m) s1"
proof -
  obtain S where ok: "mgr_ok lookup t S m" using mgr_run_ok [OF assms(1)] by blast
  obtain a where a: "mget (mgr_auths m) i = Some a" using assms(2,4) by (auto simp: mark_locked_def split: option.splits)
  note st = storedD [OF ok a]
  have 1: "s1 = fst (mark_auth lookup (mgr_env m) r1 now1 a)" "m1 = m\<lparr>mgr_auths := mput i s1 (mgr_auths m)\<rparr>"
    using assms(2,4) a by (auto simp: mark_locked_def Let_def)
  have 2: "s2 = fst (mark_auth lookup (mgr_env m) r2 now2 s1)" "m2 = m1\<lparr>mgr_auths := mput i s2 (mgr_auths m1)\<rparr>"
    using assms(3,5) 1(2) by (auto simp: mark_locked_def Let_def)
  have id: "auth_ID s1 = i" "auth_ID s2 = i" using 1(1) 2(1) st(1) by (simp_all add: mark_auth_ID)
  have "sched_at lookup t m2" using ok by (simp add: mgr_ok_def sched_at_def 1(2) 2(2))
  from publish_sched(1) [OF this assms(6), of s2] have p: "sched_at lookup now3 (publish lookup now3 s2 m2)" using id st by simp
  have "known (mgr_scheduler m') i = schedulable lookup (mgr_registry m) s1"
    using publish_sched(2) [OF p assms(7), of s1] id st by (simp add: assms(8) 1(2) 2(2))
  then show ?thesis by (simp add: assms(8) 2(2))
qed

text \<open>A success and a rate limit of the credential \<open>a\<close>, whose snapshots change places: the credential
  is picked while the manager knows that it is rate limited.\<close>

theorem overtaken_snapshot_witness:
  "\<exists>s1 p1 m1 s2 p2 m2. mark_locked no_lookup (demo_result 200) 20 demo_manager = (Some (s1, p1), m1) \<and>
     mark_locked no_lookup (demo_result 429) 21 m1 = (Some (s2, p2), m2) \<and>
     (let m' = publish no_lookup 23 s1 (publish no_lookup 22 s2 m2)
      in mget (mgr_auths m') ''a'' = Some s2 \<and> known (mgr_scheduler m') ''a'' = schedulable no_lookup (mgr_registry demo_manager) s1 \<and>
         fst (isAuthBlockedForModel no_lookup (Some s2) ''m'' 31) \<and>
         map_sum id auth_ID (fst (pick_single no_lookup demo_pick_request ''claude'' ''m'' [] 30 31 32 m')) = Inr ''a'')"
proof -
  define r1 where "r1 = mark_locked no_lookup (demo_result 200) 20 demo_manager"
  define r2 where "r2 = mark_locked no_lookup (demo_result 429) 21 (snd r1)"
  define s1 s2 where "s1 = fst (the (fst r1))" and "s2 = fst (the (fst r2))"
  define m' where "m' = publish no_lookup 23 s1 (publish no_lookup 22 s2 (snd r2))"
  have some: "\<not> Option.is_none (fst r1)" "\<not> Option.is_none (fst r2)" unfolding r2_def r1_def by code_simp+
  have d: "fst (isAuthBlockedForModel no_lookup (Some s2) ''m'' 31)"
    "map_sum id auth_ID (fst (pick_single no_lookup demo_pick_request ''claude'' ''m'' [] 30 31 32 m')) = Inr ''a''"
    unfolding m'_def s1_def s2_def r2_def r1_def by code_simp+
  obtain p1 where 1: "mark_locked no_lookup (demo_result 200) 20 demo_manager = (Some (s1, p1), snd r1)"
    using some(1) unfolding r1_def [symmetric] s1_def Option.is_none_def by (metis option.exhaust_sel prod.collapse)
  obtain p2 where 2: "mark_locked no_lookup (demo_result 429) 21 (snd r1) = (Some (s2, p2), snd r2)"
    using some(2) unfolding r2_def [symmetric] s2_def Option.is_none_def by (metis option.exhaust_sel prod.collapse)
  have "mget (mgr_auths m') ''a'' = Some s2 \<and> known (mgr_scheduler m') ''a'' = schedulable no_lookup (mgr_registry demo_manager) s1"
    by (rule overtaken_snapshot [OF demo_manager_run 1 2 demo_limit(3,3) _ _ m'_def]) simp_all
  with 1 2 d show ?thesis unfolding m'_def Let_def by blast
qed

end
