(* ===== verification/Retry_Claims.thy ===== *)
theory Retry_Claims
  imports Manager_Retry Manager_Results
begin

text \<open>
  Theorems on retries and on the errors that end them: the wait is the smallest one and bounded, retries come to an
  end, and faults of the request leave the credential as it is.
\<close>

section \<open>The closest wait\<close>

definition waits ::
  "model_lookup \<Rightarrow> model_names \<Rightarrow> retry_settings \<Rightarrow> string list \<Rightarrow> string \<Rightarrow> int \<Rightarrow> time \<Rightarrow> auth list \<Rightarrow> duration set" where
  "waits lookup nm st providers model attempt now as =
     {w. \<exists>a \<in> set as. credential_wait lookup nm st providers model attempt now a = Some w}"

lemma waits_image:
  "waits lookup nm st providers model attempt now as = the ` (credential_wait lookup nm st providers model attempt now ` set as - {None})"
proof -
  have "x \<noteq> None \<longleftrightarrow> (\<exists>w. x = Some w)" for x :: "duration option" by auto
  then show ?thesis by (force simp: waits_def image_iff)
qed

lemma waits_finite: "finite (waits lookup nm st providers model attempt now as)"
  unfolding waits_image by simp

text \<open>The loop keeps the least of the waits it has seen.\<close>

lemma fold_closer:
  "fold (\<lambda>a. closer (f a)) as b0 =
     (let W = set_option b0 \<union> {w. \<exists>a \<in> set as. f a = Some w} in if W = {} then None else Some (Min W))"
proof (induction as arbitrary: b0)
  case Nil
  then show ?case by (cases b0) auto
next
  case (Cons a as)
  let ?W = "\<lambda>b. set_option b \<union> {w. \<exists>x \<in> set as. f x = Some w}"
  have fin: "finite {w. \<exists>x \<in> set as. f x = Some w}"
  proof (rule finite_subset)
    show "{w. \<exists>x \<in> set as. f x = Some w} \<subseteq> (\<lambda>x. the (f x)) ` set as" by force
  qed simp
  have all: "set_option b0 \<union> {w. \<exists>x \<in> set (a # as). f x = Some w} = set_option b0 \<union> set_option (f a) \<union> {w. \<exists>x \<in> set as. f x = Some w}"
    by (cases "f a") auto
  let ?S = "{w. \<exists>x \<in> set as. f x = Some w}"
  have 1: "set_option (closer (f a) b0) \<union> ?S = {} \<longleftrightarrow> set_option b0 \<union> set_option (f a) \<union> ?S = {}"
    by (auto simp: closer_def split: option.splits)
  have "finite S \<Longrightarrow> Min (set_option (closer (f a) b0) \<union> S) = Min (set_option b0 \<union> set_option (f a) \<union> S)" for S
    by (cases "S = {}") (auto simp: closer_def Min_insert split: option.splits)
  then have 2: "Min (set_option (closer (f a) b0) \<union> ?S) = Min (set_option b0 \<union> set_option (f a) \<union> ?S)" using fin .
  show ?case unfolding all fold_simps(2) comp_apply Cons.IH Let_def 1 2 by (rule refl)
qed

text \<open>The wait before a retry is exactly the least time after which one of the credentials of the request's
  providers, which is blocked for the model it would select, for a known time, and has retries left, is available
  again; without such a credential there is none.\<close>

theorem closest_wait_exact:
  assumes "providers \<noteq> []"
  shows "closestCooldownWait lookup nm st providers model attempt now m =
    (let W = waits lookup nm st providers model attempt now (snapshotAuths m) in if W = {} then None else Some (Min W))"
  using assms by (simp add: closestCooldownWait_def fold_closer waits_def)

definition demo_names :: model_names where
  "demo_names = \<lparr>mn_decode = (\<lambda>_. None), mn_oauth = [], mn_routing = rebuildAPIKeyModelAliasLocked zero_config []\<rparr>"

definition demo_retry :: retry_settings where
  "demo_retry = \<lparr>rt_requestRetry = 3, rt_maxRetryCredentials = 0, rt_maxRetryInterval = 30 * Second\<rparr>"

definition demo_limited_manager :: manager where
  "demo_limited_manager = MarkResult no_lookup (demo_result 429) 20 21 22 demo_manager"

definition demo_error :: "int \<Rightarrow> go_error" where
  "demo_error status =
     \<lparr>ge_tree = ErrorTree None ''upstream error'' [], ge_auth = None, ge_status = Some status, ge_retryAfter = None,
      ge_requestScoped = False, ge_closeCode = None, ge_canceled = False, ge_deadline = False, ge_eof = False,
      ge_homeBusy = False, ge_terminated = False\<rparr>"

definition demo_json :: json_env where
  "demo_json = \<lparr>json_valid = (\<lambda>_. False), json_get = (\<lambda>_ _. [])\<rparr>"

theorem closest_wait_exact_witness:
  "waits no_lookup demo_names demo_retry [''claude''] ''m'' 0 30 (snapshotAuths demo_limited_manager) \<noteq> {} \<and>
   Min (waits no_lookup demo_names demo_retry [''claude''] ''m'' 0 30 (snapshotAuths demo_limited_manager)) = Second - 10"
proof -
  have "closestCooldownWait no_lookup demo_names demo_retry [''claude''] ''m'' 0 30 demo_limited_manager = Some (Second - 10)" by code_simp
  then show ?thesis using closest_wait_exact [of "[''claude'']" no_lookup demo_names demo_retry "''m''" 0 30 demo_limited_manager]
    by (simp add: Let_def split: if_splits)
qed

section \<open>Retries end\<close>

definition most_retries :: "retry_settings \<Rightarrow> manager \<Rightarrow> int" where
  "most_retries st m = fold (\<lambda>a n. max (effective_retry st a) n) (snapshotAuths m) 0"

lemma fold_max: "n \<le> fold (\<lambda>a n. max (f a) n) as (n :: int) \<and> (\<forall>a \<in> set as. f a \<le> fold (\<lambda>a n. max (f a) n) as n)"
proof (induction as arbitrary: n)
  case (Cons a as)
  have "max (f a) n \<le> fold (\<lambda>a n. max (f a) n) as (max (f a) n)" using Cons by blast
  with Cons [of "max (f a) n"] show ?case by auto
qed simp

lemma most_retries_upper: "a \<in> set (snapshotAuths m) \<Longrightarrow> effective_retry st a \<le> most_retries st m"
  using fold_max [of 0 "effective_retry st" "snapshotAuths m"] by (simp add: most_retries_def)

lemma wait_credential:
  assumes "closestCooldownWait lookup nm st providers model attempt now m = Some w"
  shows "\<exists>a \<in> set (snapshotAuths m). credential_wait lookup nm st providers model attempt now a = Some w"
proof -
  let ?W = "waits lookup nm st providers model attempt now (snapshotAuths m)"
  have "?W \<noteq> {}" "w = Min ?W" using assms by (auto simp: closestCooldownWait_def fold_closer waits_def Let_def split: if_splits)
  then have "w \<in> ?W" using Min_in waits_finite by metis
  then show ?thesis by (simp add: waits_def)
qed

lemma credential_wait_facts:
  "credential_wait lookup nm st providers model attempt now a = Some w \<Longrightarrow> 0 \<le> w \<and> w \<le> MaxInt64 \<and> attempt < effective_retry st a"
  by (auto simp: credential_wait_def Let_def MaxInt64_def split: if_splits prod.splits)

lemma retry_wait_facts:
  assumes "shouldRetryAfterError lookup nm je st err attempt providers model maxWait now m = Some w"
  shows "attempt < most_retries st m \<and> 0 \<le> w \<and> w \<le> maxWait" "0 < maxWait" "\<not> isRequestInvalidError je err"
proof -
  show "0 < maxWait" "\<not> isRequestInvalidError je err" using assms by (auto simp: shouldRetryAfterError_def split: if_splits)
  show "attempt < most_retries st m \<and> 0 \<le> w \<and> w \<le> maxWait"
  proof (cases "closestCooldownWait lookup nm st providers model attempt now m")
    case (Some w')
    then have e: "w = w'" "w \<le> maxWait" using assms(1) by (auto simp: shouldRetryAfterError_def split: if_splits)
    obtain a where "a \<in> set (snapshotAuths m)" "credential_wait lookup nm st providers model attempt now a = Some w'"
      using wait_credential [OF Some] by blast
    then show ?thesis using credential_wait_facts most_retries_upper e by (metis order_less_le_trans)
  next
    case None
    then have "retryAllowed st attempt providers m" "0 < w" "w \<le> maxWait"
      using assms(1) by (auto simp: shouldRetryAfterError_def split: if_splits option.splits)
    then show ?thesis using most_retries_upper [of _ m st]
      by (auto simp: retryAllowed_def list_ex_iff split: if_splits dest: order_less_le_trans)
  qed
qed

text \<open>C16: Retries end: after a failed attempt the request is only sent again if the number of the attempt is below
  the retries of one of the credentials, after a wait that is not negative and not above the configured
  maximum, with the jitter included; never after a fault of the request.\<close>

theorem retry_bounded:
  assumes "shouldRetryAfterError lookup nm je st err attempt providers model maxWait now m = Some w"
    and "\<forall>r. 0 < r \<longrightarrow> 0 \<le> jitter r \<and> jitter r < r"
  shows "attempt < most_retries st m \<and> 0 \<le> w \<and> w \<le> jitteredCooldownWait jitter w maxWait \<and>
    jitteredCooldownWait jitter w maxWait \<le> maxWait \<and> jitteredCooldownWait jitter w maxWait \<le> w + cooldownWaitJitterCap \<and>
    \<not> isRequestInvalidError je err"
proof -
  note w = retry_wait_facts(1) [OF assms(1)] and mw = retry_wait_facts(2) [OF assms(1)] and inv = retry_wait_facts(3) [OF assms(1)]
  let ?r = "jitter_range w maxWait"
  have r: "?r \<le> cooldownWaitJitterCap" "?r \<le> maxWait - w" using mw by (auto simp: jitter_range_def Let_def)
  have cap: "0 \<le> cooldownWaitJitterCap" by (simp add: cooldownWaitJitterCap_def Second_def)
  have "w \<le> jitteredCooldownWait jitter w maxWait \<and> jitteredCooldownWait jitter w maxWait \<le> maxWait \<and>
      jitteredCooldownWait jitter w maxWait \<le> w + cooldownWaitJitterCap"
  proof (cases "w \<le> 0 \<or> ?r \<le> 0")
    case True
    then show ?thesis using w cap by (auto simp: jitteredCooldownWait_def Let_def)
  next
    case False
    then show ?thesis using assms(2) [rule_format, of ?r] r by (auto simp: jitteredCooldownWait_def Let_def)
  qed
  then show ?thesis using w inv by blast
qed

theorem retry_bounded_witness:
  "0 < most_retries demo_retry demo_limited_manager \<and> jitteredCooldownWait (\<lambda>r. r - 1) (Second - 10) (30 * Second) \<le> 30 * Second"
proof -
  have "shouldRetryAfterError no_lookup demo_names demo_json demo_retry (demo_error 429) 0 [''claude''] ''m'' (30 * Second) 30 demo_limited_manager =
      Some (Second - 10)" by code_simp
  from retry_bounded [OF this, of "\<lambda>r. r - 1"] show ?thesis by simp
qed

section \<open>Faults of the request\<close>

lemma request_fault_code: "isRequestInvalidError je err \<Longrightarrow> ae_Code (resultErrorFromError je err) = requestScopedErrorCode"
  by (simp add: resultErrorFromError_def Let_def)

lemma request_fault_skipped: "isRequestInvalidError je err \<Longrightarrow> shouldSkipCredentialCooldown (Some (resultErrorFromError je err))"
  using request_fault_code by (simp add: shouldSkipCredentialCooldown_def isRequestScopedResultError_def IsRequestScoped_def)

lemma skipped_counts_only:
  "\<not> res_Success res \<Longrightarrow> shouldSkipCredentialCooldown (res_Error res) \<Longrightarrow>
   fst (mark_auth lookup env res now a) = count_request False now a"
  by (simp add: mark_auth_def mark_model_failure_def applyAuthFailureState_def Let_def)

lemma count_request_blocks: "isAuthBlockedForModel lookup (Some (count_request s now a)) k t = isAuthBlockedForModel lookup (Some a) k t"
  by (simp add: isAuthBlockedForModel_def count_request_def Let_def recordRecentRequest_def)

text \<open>C15: A fault of the request does not penalise the credential that served it: when an attempt has failed with
  one, recording the result changes the blocks of no stored credential, for any model at any time.\<close>

theorem request_fault_harmless:
  assumes "isRequestInvalidError je err" "\<not> res_Success res" "res_Error res = Some (resultErrorFromError je err)"
  shows "map_option (\<lambda>a. isAuthBlockedForModel lookup (Some a) k t') (mget (mgr_auths (MarkResult lookup res now nowS nowR m)) i) =
    map_option (\<lambda>a. isAuthBlockedForModel lookup (Some a) k t') (mget (mgr_auths m) i)"
proof (cases "mget (mgr_auths m) (res_AuthID res)")
  case None
  then show ?thesis by (simp add: MarkResult_def mark_locked_def)
next
  case (Some a)
  have "fst (mark_auth lookup (mgr_env m) res now a) = count_request False now a"
    using assms(2,3) request_fault_skipped [OF assms(1)] by (intro skipped_counts_only) simp_all
  then have "mgr_auths (MarkResult lookup res now nowS nowR m) =
      (if res_AuthID res = [] then mgr_auths m else mput (res_AuthID res) (count_request False now a) (mgr_auths m))"
    by (simp add: MarkResult_def mark_locked_def Let_def Some split: prod.splits)
  then show ?thesis using Some by (auto simp: count_request_blocks)
qed

theorem request_fault_harmless_witness:
  "map_option (\<lambda>a. isAuthBlockedForModel no_lookup (Some a) ''m'' 40) (mget (mgr_auths (MarkResult no_lookup
      ((demo_result 429)\<lparr>res_Error := Some (resultErrorFromError demo_json (demo_error 400))\<rparr>) 20 21 22 demo_manager)) ''a'') =
   Some (False, blockReasonNone, 0)"
proof -
  have "isRequestInvalidError demo_json (demo_error 400)" by code_simp
  moreover have "\<not> res_Success (demo_result 429)" by code_simp
  ultimately have "map_option (\<lambda>a. isAuthBlockedForModel no_lookup (Some a) ''m'' 40) (mget (mgr_auths (MarkResult no_lookup
      ((demo_result 429)\<lparr>res_Error := Some (resultErrorFromError demo_json (demo_error 400))\<rparr>) 20 21 22 demo_manager)) ''a'') =
    map_option (\<lambda>a. isAuthBlockedForModel no_lookup (Some a) ''m'' 40) (mget (mgr_auths demo_manager) ''a'')"
    by (intro request_fault_harmless) simp_all
  moreover have "map_option (\<lambda>a. isAuthBlockedForModel no_lookup (Some a) ''m'' 40) (mget (mgr_auths demo_manager) ''a'') =
      Some (False, blockReasonNone, 0)" by code_simp
  ultimately show ?thesis by simp
qed

end
