(* ===== verification/Execution_Claims.thy ===== *)
theory Execution_Claims
  imports Execution Retry_Claims
begin

text \<open>
  Theorems on the execution of requests. The contract between the loop over credentials, the pick and the attempt is
  the locale \<open>execution_loop\<close>; it gives that the loop ends and that no credential is tried twice. The
  picks and attempts of \<open>Execution\<close> keep it.
\<close>

section \<open>The loop over credentials\<close>

definition blocks_of :: "(string \<times> nat) list \<Rightarrow> string list" where
  "blocks_of bs = concat (map (\<lambda>(i, k). replicate k i) bs)"

text \<open>The calls \<open>c'\<close> extend \<open>c\<close> by blocks of different credentials from \<open>I\<close>, no more than the maximum leaves after the
  \<open>n\<close> credentials tried before.\<close>

definition blocks_within :: "string set \<Rightarrow> int \<Rightarrow> nat \<Rightarrow> string list \<Rightarrow> string list \<Rightarrow> bool" where
  "blocks_within I maxC n c c' \<longleftrightarrow>
     (\<exists>bs. c' = c @ blocks_of bs \<and> distinct (map fst bs) \<and> fst ` set bs \<subseteq> I \<and> (maxC > 0 \<longrightarrow> bs = [] \<or> int (n + length bs) \<le> maxC))"

lemma within_none: "blocks_within I maxC n c c"
  by (auto simp: blocks_within_def blocks_of_def intro!: exI [of _ "[]"])

lemma within_mono: "blocks_within I maxC n c c' \<Longrightarrow> I \<subseteq> J \<Longrightarrow> blocks_within J maxC n c c'"
  unfolding blocks_within_def by blast

lemma within_step:
  assumes "blocks_within (I - {i}) maxC (n + 1) (c @ replicate k i) c'" "i \<in> I" "\<not> (maxC > 0 \<and> int n \<ge> maxC)"
  shows "blocks_within I maxC n c c'"
proof -
  obtain bs where bs: "c' = (c @ replicate k i) @ blocks_of bs" "distinct (map fst bs)" "fst ` set bs \<subseteq> I - {i}"
    "maxC > 0 \<longrightarrow> bs = [] \<or> int (n + 1 + length bs) \<le> maxC" using assms(1) unfolding blocks_within_def by blast
  have "c' = c @ blocks_of ((i, k) # bs)" "distinct (map fst ((i, k) # bs))" "fst ` set ((i, k) # bs) \<subseteq> I"
    using bs(1-3) assms(2) by (auto simp: blocks_of_def)
  moreover have "maxC > 0 \<longrightarrow> (i, k) # bs = [] \<or> int (n + length ((i, k) # bs)) \<le> maxC" using bs(4) assms(3) by auto
  ultimately show ?thesis unfolding blocks_within_def by blast
qed

locale execution_loop =
  fixes pick :: "string list \<Rightarrow> 's \<Rightarrow> (pick_error + auth \<times> string) \<times> 's"
    and attempt :: "auth \<Rightarrow> string \<Rightarrow> 's \<Rightarrow> ('e, 'r) attempt \<times> 's"
    and ids :: "'s \<Rightarrow> string set" and inv :: "'s \<Rightarrow> bool" and calls :: "'s \<Rightarrow> string list"
  assumes finite_ids: "inv s \<Longrightarrow> finite (ids s)"
    and pick_keeps: "inv s \<Longrightarrow> pick tried s = (x, s1) \<Longrightarrow> inv s1 \<and> ids s1 = ids s \<and> calls s1 = calls s"
    and pick_fresh: "inv s \<Longrightarrow> pick tried s = (Inr (a, provider), s1) \<Longrightarrow> auth_ID a \<in> ids s \<and> auth_ID a \<notin> set tried"
    and attempt_keeps: "inv s \<Longrightarrow> attempt a provider s = (y, s1) \<Longrightarrow> inv s1 \<and> ids s1 = ids s"
    and attempt_calls: "inv s \<Longrightarrow> attempt a provider s = (y, s1) \<Longrightarrow>
      \<exists>k. calls s1 = calls s @ replicate k (auth_ID a) \<and> (y = Skipped \<longrightarrow> k = 0)"
begin

lemma round_facts:
  assumes "inv s" "pick tried s = (Inr (a, provider), s1)" "attempt a provider s1 = (y, s2)"
  shows "inv s2" "ids s2 = ids s" "auth_ID a \<in> ids s - set tried" "\<exists>k. calls s2 = calls s @ replicate k (auth_ID a) \<and> (y = Skipped \<longrightarrow> k = 0)"
  using pick_keeps [OF assms(1,2)] pick_fresh [OF assms(1,2)] attempt_keeps [OF _ assms(3)] attempt_calls [OF _ assms(3)] by auto

lemma loop_ends:
  "inv s \<Longrightarrow> card (ids s - set tried) < fuel \<Longrightarrow> \<exists>r. credential_loop pick attempt fail maxC fuel tried attempted lastErr s = Some r"
proof (induction fuel arbitrary: tried attempted lastErr s)
  case (Suc fuel)
  obtain x s1 where p: "pick tried s = (x, s1)" by fastforce
  show ?case
  proof (cases x)
    case (Inr q)
    obtain a provider where q: "q = (a, provider)" by fastforce
    obtain y s2 where at: "attempt a provider s1 = (y, s2)" by fastforce
    note r = round_facts [OF Suc.prems(1) p [unfolded Inr q] at]
    have "card (ids s2 - set (auth_ID a # tried)) < card (ids s - set tried)"
      unfolding r(2) using finite_ids [OF Suc.prems(1)] r(3) by (intro psubset_card_mono) auto
    then have "card (ids s2 - set (auth_ID a # tried)) < fuel" using Suc.prems(2) by simp
    from Suc.IH [OF r(1) this] show ?thesis by (auto simp: Let_def p Inr q at split: attempt.splits)
  qed (simp add: Let_def p)
qed simp

lemma loop_blocks:
  "inv s \<Longrightarrow> set attempted \<subseteq> set tried \<Longrightarrow> credential_loop pick attempt fail maxC fuel tried attempted lastErr s = Some (r, s') \<Longrightarrow>
   inv s' \<and> ids s' = ids s \<and> blocks_within (ids s - set tried) maxC (length attempted) (calls s) (calls s')"
proof (induction fuel arbitrary: tried attempted lastErr s)
  case (Suc fuel)
  obtain x s1 where p: "pick tried s = (x, s1)" by fastforce
  show ?case
  proof (cases "maxC > 0 \<and> int (length attempted) \<ge> maxC \<or> isl x")
    case True
    then show ?thesis using Suc.prems pick_keeps [OF Suc.prems(1) p]
      by (cases x) (auto simp: Let_def p within_none split: if_splits)
  next
    case go: False
    then obtain a provider where x: "x = Inr (a, provider)" by (cases x) auto
    obtain y s2 where at: "attempt a provider s1 = (y, s2)" by fastforce
    note f = round_facts [OF Suc.prems(1) p [unfolded x] at]
    obtain k where k: "calls s2 = calls s @ replicate k (auth_ID a)" "y = Skipped \<longrightarrow> k = 0" using f(4) by blast
    have I: "ids s2 - set (auth_ID a # tried) = ids s - set tried - {auth_ID a}" using f(2) by auto
    note step = within_step [OF _ f(3), where c = "calls s" and k = k and maxC = maxC and n = "length attempted"]
    show ?thesis
    proof (cases y)
      case Skipped
      have "credential_loop pick attempt fail maxC fuel (auth_ID a # tried) attempted lastErr s2 = Some (r, s')"
        using Suc.prems(3) go by (auto simp: Let_def p x at Skipped split: if_splits)
      from Suc.IH [OF f(1) _ this] Suc.prems(2) have "inv s' \<and> ids s' = ids s2 \<and>
          blocks_within (ids s - set tried - {auth_ID a}) maxC (length attempted) (calls s) (calls s')"
        using k Skipped unfolding I by auto
      then show ?thesis using f(2) within_mono by (metis Diff_subset)
    next
      case (Tried err)
      have len: "length (List.insert (auth_ID a) attempted) = length attempted + 1" using f(3) Suc.prems(2) by (auto simp: List.insert_def)
      have "credential_loop pick attempt fail maxC fuel (auth_ID a # tried) (List.insert (auth_ID a) attempted) (or_else err lastErr) s2 = Some (r, s')"
        using Suc.prems(3) go by (auto simp: Let_def p x at Tried split: if_splits)
      from Suc.IH [OF f(1) _ this] Suc.prems(2) show ?thesis using step f(2) go unfolding I len k(1) by auto
    next
      case (Finished res)
      then have "s' = s2" using Suc.prems(3) go by (auto simp: Let_def p x at split: if_splits)
      then show ?thesis using step [OF within_none] f(1,2) go k(1) by auto
    qed
  qed
qed simp

end

section \<open>Stored and scheduled identifiers\<close>

text \<open>What the loop needs of the manager: the scheduler knows no credential that is not stored. Unlike the invariant
  of runs it does not depend on the names of models.\<close>

definition ids_ok :: "model_lookup \<Rightarrow> time \<Rightarrow> manager \<Rightarrow> bool" where
  "ids_ok lookup t m \<longleftrightarrow> wf_map (mgr_auths m) \<and> sched_at lookup t m \<and>
     (\<forall>i a. mget (mgr_auths m) i = Some a \<longrightarrow> auth_ID a = i \<and> trimmed i \<and> i \<noteq> []) \<and>
     (\<forall>i. known (mgr_scheduler m) i \<noteq> None \<longrightarrow> mget (mgr_auths m) i \<noteq> None)"

lemma mgr_ok_ids: "mgr_ok lookup t S m \<Longrightarrow> ids_ok lookup t m"
proof -
  assume ok: "mgr_ok lookup t S m"
  have "mget (mgr_auths m) i \<noteq> None" if "known (mgr_scheduler m) i \<noteq> None" for i
  proof -
    have "settled S m i" using ok by (simp add: mgr_ok_def)
    then show ?thesis using that by (rule settled_stored)
  qed
  then show ?thesis using ok unfolding ids_ok_def mgr_ok_def stored_ok_def by blast
qed

lemma ids_ok_later: "ids_ok lookup t m \<Longrightarrow> t \<le> t' \<Longrightarrow> ids_ok lookup t' m"
  by (auto simp: ids_ok_def intro: sched_at_later)

lemma ids_ok_stored:
  assumes "ids_ok lookup t m" "a \<in> set (snapshotAuths m)"
  shows "mget (mgr_auths m) (auth_ID a) = Some a"
proof -
  obtain i where "(i, a) \<in> set (mgr_auths m)" using assms(2) by (auto simp: snapshotAuths_def)
  then have "mget (mgr_auths m) i = Some a" using assms(1) by (simp add: ids_ok_def)
  then show ?thesis using assms(1) unfolding ids_ok_def by metis
qed

lemma ids_ok_sched:
  assumes "ids_ok lookup t m"
  shows "0 \<le> t" "sched_ok lookup t (mgr_scheduler m)"
proof -
  obtain u where u: "u \<le> t" "sched_run lookup u (mgr_scheduler m) (known (mgr_scheduler m))"
    using assms by (auto simp: ids_ok_def sched_at_def)
  show "0 \<le> t" "sched_ok lookup t (mgr_scheduler m)" using sched_run_ok [OF u(2)] u(1) sched_ok_later by auto
qed

lemma serving_known: "sched_ok lookup t s \<Longrightarrow> a \<in> serving lookup (known s) pk key \<Longrightarrow> known s (auth_ID a) \<noteq> None"
  using known_facts(2) by (fastforce simp: serving_def)

text \<open>Picks of the scheduler.\<close>

lemma single_known:
  assumes "sched_ok lookup t s" "0 \<le> t" "t \<le> now1" "now1 \<le> now2" "now2 \<le> now3"
    and "fst (pickSingleWithStrategy lookup rq provider model tried strategy now1 now2 now3 s) = Inr a"
  shows "known s (auth_ID a) \<noteq> None \<and> auth_ID a \<notin> set tried"
proof -
  from pickSingle_spec [where provider = provider and model = model and rq = rq and tried = tried and strategy = strategy,
      OF assms(1-5)] assms(6)
  have "a \<in> serving lookup (known s) (ToLower (TrimSpace provider)) (canonicalModelKey lookup (canonicalModelKey lookup model))"
    "auth_ID a \<notin> set tried"
    by (auto simp: best_def transport_def free_def may_use_def split: if_splits)
  then show ?thesis using serving_known [OF assms(1)] by blast
qed

lemma mixed_known:
  assumes "sched_ok lookup t s" "0 \<le> t" "t \<le> now1" "now1 \<le> now2" "now2 \<le> now3"
    and r: "fst (pickMixedWithStrategy lookup rq providers model tried strategy now1 now2 now3 s) = Inr (a, pk)"
  shows "known s (auth_ID a) \<noteq> None \<and> auth_ID a \<notin> set tried"
proof -
  let ?keys = "normalizeProviderKeys providers"
  consider "?keys = []" | q where "?keys = [q]" | "2 \<le> length ?keys" by (cases ?keys rule: remdups_adj.cases) auto
  then show ?thesis
  proof cases
    case 1
    then show ?thesis using r by (simp add: pickMixedWithStrategy_def)
  next
    case (2 q)
    have "fst (pickSingleWithStrategy lookup rq q model tried strategy now1 now2 now3 s) = Inr a"
      using r by (auto simp: pickMixedWithStrategy_def 2 split: sum.splits prod.splits)
    then show ?thesis by (rule single_known [OF assms(1-5)])
  next
    case 3
    have "\<exists>pk. a \<in> serving lookup (known s) pk (canonicalModelKey lookup (canonicalModelKey lookup model))" "auth_ID a \<notin> set tried"
      using pickMixed_spec [where model = model and strategy = strategy and rq = rq and tried = tried, OF assms(1-5) 3] r
      by (auto simp: mixed_result_def best_def free_def request_pool_def may_use_def split: if_splits)
    then show ?thesis using serving_known [OF assms(1)] by blast
  qed
qed

lemma sched_change_ids:
  assumes "ids_ok lookup t m" and run: "\<And>u K. u \<le> t \<Longrightarrow> sched_run lookup u (mgr_scheduler m) K \<Longrightarrow> sched_run lookup t' s K"
  shows "ids_ok lookup t' (m\<lparr>mgr_scheduler := s\<rparr>)"
proof -
  obtain u where u: "u \<le> t" "sched_run lookup u (mgr_scheduler m) (known (mgr_scheduler m))"
    using assms(1) by (auto simp: ids_ok_def sched_at_def)
  have r: "sched_run lookup t' s (known (mgr_scheduler m))" by (rule run [OF u])
  then have "known s = known (mgr_scheduler m)" using sched_run_ok by blast
  then show ?thesis using assms(1) r by (auto simp: ids_ok_def sched_at_def)
qed

lemma pick_mixed_ids:
  assumes ok: "ids_ok lookup t m" and t: "t \<le> now1" "now1 \<le> now2" "now2 \<le> now3"
    and p: "pick_mixed lookup rq providers model tried now1 now2 now3 m = (x, m')"
  shows "ids_ok lookup now3 m'" "mgr_auths m' = mgr_auths m"
    "x = Inr (a, pk) \<Longrightarrow> auth_ID a \<in> fst ` set (mgr_auths m) \<and> auth_ID a \<notin> set tried"
proof -
  let ?r = "pickMixedWithStrategy lookup rq providers model tried schedulerStrategyCurrent now1 now2 now3 (mgr_scheduler m)"
  have m': "m' = m\<lparr>mgr_scheduler := snd ?r\<rparr>" and x: "x = fst ?r" using p by (auto simp: pick_mixed_def pickMixed_def case_prod_beta)
  show "ids_ok lookup now3 m'" unfolding m' using t by (intro sched_change_ids [OF ok]) (erule sched_run.mixed; simp)
  show "mgr_auths m' = mgr_auths m" by (simp add: m')
  show "auth_ID a \<in> fst ` set (mgr_auths m) \<and> auth_ID a \<notin> set tried" if "x = Inr (a, pk)"
  proof -
    have k: "known (mgr_scheduler m) (auth_ID a) \<noteq> None \<and> auth_ID a \<notin> set tried"
      using that x by (intro mixed_known [OF ids_ok_sched(2,1) [OF ok] t]) simp
    then have "mget (mgr_auths m) (auth_ID a) \<noteq> None" using ok unfolding ids_ok_def by blast
    with k show ?thesis by (simp add: mget_eq_None_iff)
  qed
qed

lemma sync_ids:
  assumes ok: "ids_ok lookup t m" and "t \<le> nowS"
  shows "ids_ok lookup nowS (syncScheduler lookup nowS m)"
proof -
  let ?s = "rebuild lookup (mgr_registry m) (map Some (snapshotAuths m)) nowS (mgr_scheduler m)"
  let ?K = "fold (upsert_known lookup (mgr_registry m)) (snapshotAuths m) (\<lambda>_. None)"
  obtain u where u: "u \<le> t" "sched_run lookup u (mgr_scheduler m) (known (mgr_scheduler m))" using ok by (auto simp: ids_ok_def sched_at_def)
  have L: "wf_map (mgr_auths m)" "\<forall>(i, a) \<in> set (mgr_auths m). auth_ID a = i \<and> i \<noteq> []" "\<forall>a \<in> set (snapshotAuths m). trimmed (auth_ID a)"
    using ok unfolding ids_ok_def snapshotAuths_def by (auto dest: map_of_is_SomeI)
  with sched_run.rebuild [OF u(2), of nowS "snapshotAuths m" "mgr_registry m"] u(1) assms(2)
  have run: "sched_run lookup nowS ?s ?K" by simp
  then have k: "known ?s = ?K" using sched_run_ok by blast
  have "known ?s i \<noteq> None \<Longrightarrow> mget (mgr_auths m) i \<noteq> None" for i
    using fold_upsert_known [OF L(1,2), of lookup "mgr_registry m" "\<lambda>_. None" i] unfolding k
    by (auto simp: snapshotAuths_def split: option.splits)
  then show ?thesis using ok run k by (auto simp: ids_ok_def sched_at_def syncScheduler_def)
qed

lemma MarkResult_ids:
  assumes ok: "ids_ok lookup t m" and t: "t \<le> nowS"
  shows "ids_ok lookup nowS (MarkResult lookup res now nowS nowR m) \<and>
    fst ` set (mgr_auths (MarkResult lookup res now nowS nowR m)) = fst ` set (mgr_auths m)"
proof (cases "res_AuthID res = [] \<or> mget (mgr_auths m) (res_AuthID res) = None")
  case True
  then have "MarkResult lookup res now nowS nowR m = m" by (auto simp: MarkResult_def mark_locked_def)
  then show ?thesis using ids_ok_later [OF ok t] by simp
next
  case False
  then obtain a where a: "mget (mgr_auths m) (res_AuthID res) = Some a" by blast
  let ?i = "res_AuthID res" and ?b = "fst (mark_auth lookup (mgr_env m) res now a)"
  let ?m = "m\<lparr>mgr_auths := mput ?i ?b (mgr_auths m)\<rparr>"
  have id: "auth_ID ?b = ?i" "trimmed ?i" "?i \<noteq> []" using ok a mark_auth_ID unfolding ids_ok_def by metis+
  have s: "sched_at lookup t ?m" using ok by (simp add: ids_ok_def sched_at_def)
  note pub = publish_sched [OF s t, of ?b, unfolded id(1), OF id(2,3)]
  have "ids_ok lookup nowS (publish lookup nowS ?b ?m)"
    using ok pub id by (auto simp: ids_ok_def)
  moreover have "fst ` set (mput ?i ?b (mgr_auths m)) = fst ` set (mgr_auths m)"
    using a unfolding keys_mput by (force dest: map_of_SomeD)
  moreover have "MarkResult lookup res now nowS nowR m = (publish lookup nowS ?b ?m)
      \<lparr>mgr_registry := report_registry ?i (canonicalModelKey lookup (res_Model res)) (snd (mark_auth lookup (mgr_env m) res now a)) nowR (mgr_registry m)\<rparr>"
    using False by (simp add: MarkResult_def mark_locked_def a Let_def case_prod_beta)
  ultimately show ?thesis by (simp add: ids_ok_def sched_at_def)
qed

section \<open>Picks\<close>

lemma bucket_get: "\<forall>(p, b) \<in> set av. set b \<subseteq> S \<Longrightarrow> set (case mget av q of None \<Rightarrow> [] | Some b \<Rightarrow> b) \<subseteq> S"
  by (cases "mget av q") (auto dest!: map_of_SomeD)

lemma collect_members:
  assumes "\<forall>(p, b) \<in> set av. set b \<subseteq> S" "wf_map av" "set as \<subseteq> S"
    and "fold (\<lambda>a. collect_candidate lookup (f a) now (Some a)) as (av, c, e) = (av', c', e')"
  shows "\<forall>(p, b) \<in> set av'. set b \<subseteq> S"
  using assms
proof (induction as arbitrary: av c e)
  case (Cons a as)
  obtain av1 c1 e1 where st: "collect_candidate lookup (f a) now (Some a) (av, c, e) = (av1, c1, e1)" by (metis prod_cases3)
  have new: "\<forall>(p, b) \<in> set (bucket_append q a av). set b \<subseteq> S" "wf_map (bucket_append q a av)" for q
  proof -
    show "wf_map (bucket_append q a av)" using Cons.prems(2) by (simp add: bucket_append_def)
    have b: "set (case mget av q of None \<Rightarrow> [] | Some b \<Rightarrow> b) \<subseteq> S"
      by (rule bucket_get [OF Cons.prems(1)])
    show "\<forall>(p, b) \<in> set (bucket_append q a av). set b \<subseteq> S"
    proof (safe, goal_cases)
      case (1 p b x)
      have g: "mget (bucket_append q a av) p = Some b" using 1(1) \<open>wf_map (bucket_append q a av)\<close> by simp
      show ?case
      proof (cases "p = q")
        case True
        then have "b = (case mget av q of None \<Rightarrow> [] | Some b \<Rightarrow> b) @ [a]" using g by (simp add: bucket_append_def)
        then show ?thesis using 1(2) b Cons.prems(3) by (cases "mget av q") auto
      next
        case False
        then have "(p, b) \<in> set av" using g by (auto simp: bucket_append_def dest: map_of_SomeD)
        then show ?thesis using Cons.prems(1) 1(2) by blast
      qed
    qed
  qed
  have "av1 = av \<or> (\<exists>q. av1 = bucket_append q a av)" using st by (auto simp: collect_candidate_def split: prod.splits if_splits)
  then consider (same) "av1 = av" | (more) q where "av1 = bucket_append q a av" by blast
  then have n: "(\<forall>(p, b) \<in> set av1. set b \<subseteq> S) \<and> wf_map av1"
  proof cases
    case same
    show ?thesis unfolding same by (intro conjI Cons.prems(1,2))
  next
    case more
    show ?thesis unfolding more by (intro conjI new)
  qed
  from Cons.IH [OF conjunct1 [OF n] conjunct2 [OF n]] Cons.prems(3,4) show ?case by (simp add: st)
qed simp

lemma buckets_members: "\<forall>(p, b) \<in> set av. set b \<subseteq> S \<Longrightarrow> set (availableAuthsFromPriorityBuckets av False) \<subseteq> S"
  using bucket_get [of av S "best_priority (map fst av)"] by (simp add: availableAuthsFromPriorityBuckets_def)

lemma available_route_members:
  assumes "availableAuthsForRouteModel lookup nm as provider routeModel now = Inr available"
  shows "set available \<subseteq> set as"
proof -
  obtain av c e where f: "fold (\<lambda>a. collect_candidate lookup (selectionModelForAuth nm a routeModel) now (Some a)) as ([], 0, 0) = (av, c, e)"
    by (rule prod_cases3)
  then have "available = availableAuthsFromPriorityBuckets av False"
    using assms unfolding availableAuthsForRouteModel_def f by (simp add: Let_def split: if_splits)
  moreover have "\<forall>(p, b) \<in> set av. set b \<subseteq> set as" by (rule collect_members [OF _ _ subset_refl f]) simp_all
  ultimately show ?thesis using buckets_members [of av "set as"] by simp
qed

lemma selector_pick_member:
  assumes "0 \<le> now" "selector_pick lookup cfg rq provider model now as s = (x, s1)"
  shows "ps_mgr s1 = ps_mgr s" "x = Inr a \<Longrightarrow> a \<in> set as"
proof -
  show "ps_mgr s1 = ps_mgr s" using assms(2) by (auto simp: selector_pick_def Let_def split: selector_type.splits prod.splits)
  have rr: "RoundRobin_Pick lookup ctx provider [] now (map Some as) w = (Inr a, w1) \<Longrightarrow> a \<in> set as" for ctx w w1
    using rr.pick_candidate [OF assms(1), of lookup ctx provider "[]" "map Some as" w a] by auto
  have ff: "FillFirst_Pick lookup ctx provider [] now (map Some as) = Inr a \<Longrightarrow> a \<in> set as" for ctx
    using ff.pick_candidate [OF assms(1), of lookup ctx provider "[]" "map Some as" "()" a] by auto
  have wr: "Weighted_Pick lookup ctx provider [] now (map Some as) w = (Inr a, w1) \<Longrightarrow> a \<in> set as" for ctx w w1
    using wrr.pick_candidate [OF assms(1), of lookup ctx provider "[]" "map Some as" w a] by auto
  assume "x = Inr a"
  with assms(2) show "a \<in> set as"
    by (auto simp: selector_pick_def Let_def split: selector_type.splits prod.splits dest: rr ff wr)
qed

lemma choose_member:
  assumes "0 \<le> clk 1" "choose_candidate lookup cfg rq provider model clk candidates s = (x, s1)"
  shows "ps_mgr s1 = ps_mgr s" "x = Inr a \<Longrightarrow> a \<in> set candidates"
proof -
  show "ps_mgr s1 = ps_mgr s"
    using assms selector_pick_member(1) [OF assms(1)] by (fastforce simp: choose_candidate_def split: if_splits sum.splits prod.splits)
  assume "x = Inr a"
  with assms(2) obtain av where av: "availableAuthsForRouteModel lookup (pc_names cfg) candidates provider model (clk 0) = Inr av"
    "selector_pick lookup cfg rq provider model (clk 1) av s = (Inr a, s1)"
    by (auto simp: choose_candidate_def split: if_splits sum.splits prod.splits)
  then show "a \<in> set candidates" using selector_pick_member(2) [OF assms(1) av(2)] available_route_members [OF av(1)] by blast
qed

text \<open>What a pick of the manager keeps, and what it returns.\<close>

definition pick_good :: "model_lookup \<Rightarrow> time \<Rightarrow> string list \<Rightarrow> manager \<Rightarrow> (pick_error + auth \<times> string) \<Rightarrow> manager \<Rightarrow> bool" where
  "pick_good lookup t tried m x m' \<longleftrightarrow> ids_ok lookup t m' \<and> mgr_auths m' = mgr_auths m \<and>
     (\<forall>a pk. x = Inr (a, pk) \<longrightarrow> auth_ID a \<in> fst ` set (mgr_auths m) \<and> auth_ID a \<notin> set tried)"

lemma pick_mixed_good:
  assumes "ids_ok lookup t m" "t \<le> now1" "now1 \<le> now2" "now2 \<le> now3" "pick_mixed lookup rq providers model tried now1 now2 now3 m = (x, m')"
  shows "pick_good lookup now3 tried m x m'"
  using pick_mixed_ids [OF assms] unfolding pick_good_def by blast

lemma resync_good:
  fixes clk :: "nat \<Rightarrow> time"
  assumes ok: "ids_ok lookup t m" and clk: "mono clk" "t \<le> clk 0"
    and p: "pick_with_resync (pick_mixed lookup rq providers model tried (clk 0) (clk 1) (clk 2))
        (pick_mixed lookup rq providers model tried (clk 4) (clk 5) (clk 6)) lookup model (clk 3) m = (x, m')"
  shows "pick_good lookup (clk 6) tried m x m'"
proof -
  have c: "clk i \<le> clk j" if "i \<le> j" for i j using clk(1) that by (simp add: mono_def)
  obtain x1 m1 where p1: "pick_mixed lookup rq providers model tried (clk 0) (clk 1) (clk 2) m = (x1, m1)" by fastforce
  have g1: "pick_good lookup (clk 2) tried m x1 m1" by (rule pick_mixed_good [OF ok clk(2) c c p1]) simp_all
  show ?thesis
  proof (cases "\<exists>err. x1 = Inl err \<and> model \<noteq> [] \<and> shouldRetrySchedulerPick err")
    case False
    then have "x = x1" "m' = m1" using p by (auto simp: pick_with_resync_def p1 simp del: One_nat_def split: sum.splits if_splits)
    with g1 show ?thesis using ids_ok_later [of lookup "clk 2" m1 "clk 6"] c [of 2 6] by (auto simp: pick_good_def)
  next
    case True
    let ?m = "syncScheduler lookup (clk 3) m1"
    have ok1: "ids_ok lookup (clk 3) ?m" using g1 c [of 2 3] by (intro sync_ids) (auto simp: pick_good_def)
    have p2: "pick_mixed lookup rq providers model tried (clk 4) (clk 5) (clk 6) ?m = (x, m')"
      using p True by (auto simp: pick_with_resync_def p1 simp del: One_nat_def)
    have "pick_good lookup (clk 6) tried ?m x m'" by (rule pick_mixed_good [OF ok1 c c c p2]) simp_all
    then show ?thesis using g1 by (simp add: pick_good_def syncScheduler_def)
  qed
qed

lemma legacy_good:
  assumes ok: "ids_ok lookup t (ps_mgr s)" and clk: "mono clk" "t \<le> clk 0"
    and p: "pickNextMixedLegacy lookup cfg rq providers model tried clk s = (x, s1)"
  shows "pick_good lookup (clk 6) tried (ps_mgr s) x (ps_mgr s1)"
proof -
  have "0 \<le> clk 1" using ids_ok_sched(1) [OF ok] clk(2) monoD [OF clk(1), of 0 1] by linarith
  note ch = choose_member [where clk = clk, OF this]
  let ?cs = "filter (legacy_candidate lookup cfg rq (provider_set providers) model tried (ps_mgr s)) (snapshotAuths (ps_mgr s))"
  obtain y s2 where y: "choose_candidate lookup cfg rq ''mixed'' model clk ?cs s = (y, s2)" by fastforce
  have s1: "s1 = s \<or> s1 = s2" and x: "x = Inr (a, pk) \<Longrightarrow> y = Inr a" for a pk
    using p by (auto simp: pickNextMixedLegacy_def y split: if_splits sum.splits)
  have keep: "ps_mgr s1 = ps_mgr s" using s1 ch(1) [OF y] by auto
  have "auth_ID a \<in> fst ` set (mgr_auths (ps_mgr s)) \<and> auth_ID a \<notin> set tried" if "x = Inr (a, pk)" for a pk
  proof -
    have a: "a \<in> set ?cs" by (rule ch(2) [OF y x [OF that]])
    then have "mget (mgr_auths (ps_mgr s)) (auth_ID a) = Some a" by (intro ids_ok_stored [OF ok]) simp
    then show ?thesis using a by (force simp: legacy_candidate_def Let_def dest: map_of_SomeD)
  qed
  moreover have "ids_ok lookup (clk 6) (ps_mgr s1)"
    unfolding keep using monoD [OF clk(1), of 0 6] clk(2) by (intro ids_ok_later [OF ok]) simp
  ultimately show ?thesis by (simp add: pick_good_def keep)
qed

lemma pickNextMixed_good:
  assumes ok: "ids_ok lookup t (ps_mgr s)" and clk: "mono clk" "t \<le> clk 0"
    and p: "pickNextMixed lookup cfg rq providers model tried clk s = (x, s1)"
  shows "pick_good lookup (clk 6) tried (ps_mgr s) x (ps_mgr s1)"
proof -
  let ?el = "filter (has_executor cfg) (normalizeProviders providers)"
  consider "?el = []" | "?el \<noteq> []" "needs_route lookup cfg rq ?el model tried (ps_mgr s)"
    | "?el \<noteq> []" "\<not> needs_route lookup cfg rq ?el model tried (ps_mgr s)" by blast
  then show ?thesis
  proof cases
    case 1
    then have "ps_mgr s1 = ps_mgr s" "isl x" using p by (auto simp: pickNextMixed_def Let_def)
    then show ?thesis using ids_ok_later [OF ok, of "clk 6"] monoD [OF clk(1), of 0 6] clk(2) by (auto simp: pick_good_def)
  next
    case 2
    then have "pickNextMixedLegacy lookup cfg rq providers model tried clk s = (x, s1)" using p by (simp add: pickNextMixed_def Let_def)
    then show ?thesis by (rule legacy_good [OF ok clk])
  next
    case 3
    obtain y m1 where y: "pick_with_resync (pick_mixed lookup rq ?el model tried (clk 0) (clk 1) (clk 2))
        (pick_mixed lookup rq ?el model tried (clk 4) (clk 5) (clk 6)) lookup model (clk 3) (ps_mgr s) = (y, m1)" by fastforce
    have "ps_mgr s1 = m1 \<and> (\<forall>q. x = Inr q \<longrightarrow> y = Inr q)"
      using p 3 by (auto simp: pickNextMixed_def Let_def y with_mgr_def simp del: One_nat_def split: sum.splits if_splits)
    then show ?thesis using resync_good [OF ok clk y] by (auto simp: pick_good_def)
  qed
qed

section \<open>The loop of the manager\<close>

text \<open>Results leave the metadata of a credential alone, and with it the number of its retries.\<close>

lemma normalize_Metadata [simp]: "auth_Metadata (snd (normalizeModelStates lookup a)) = auth_Metadata a"
  by (simp add: normalizeModelStates_def case_prod_beta)

lemma ensure_Metadata: "auth_Metadata (snd (ensureModelState lookup k a)) = auth_Metadata a"
  by (simp add: ensureModelState_def Let_def split: option.splits)

lemma aggregate_Metadata [simp]: "auth_Metadata (updateAggregatedAvailability a now) = auth_Metadata a"
  by (simp add: updateAggregatedAvailability_def clearAggregatedAvailability_def Let_def case_prod_beta)

lemma mark_failure_Metadata: "auth_Metadata (fst (mark_model_failure lookup env k res now a)) = auth_Metadata a"
proof (cases "ensureModelState lookup k a")
  case (Pair x a1)
  then have "auth_Metadata a1 = auth_Metadata a" using ensure_Metadata [of lookup k a] by simp
  then show ?thesis
    by (cases x) (auto simp: mark_model_failure_def Pair Let_def case_prod_beta set_model_state_def split: option.split)
qed

lemma mark_success_Metadata: "auth_Metadata (fst (mark_model_success lookup k now a)) = auth_Metadata a"
proof (cases "ensureModelState lookup k a")
  case (Pair x a1)
  then have "auth_Metadata a1 = auth_Metadata a" using ensure_Metadata [of lookup k a] by simp
  then show ?thesis by (cases x) (auto simp: mark_model_success_def Pair Let_def set_model_state_def clear_error_def)
qed

lemma applyAuthFailure_Metadata: "auth_Metadata (applyAuthFailureState secs err ra now dc a) = auth_Metadata a"
proof -
  have "auth_Metadata (auth_fail_end dc b) = auth_Metadata b" "auth_Metadata (auth_fail_schedule secs dc err ra now b) = auth_Metadata b" for b
    by (simp_all add: auth_fail_defs auth_fail_schedule_def Let_def case_prod_beta)
  then show ?thesis by (simp add: applyAuthFailureState_def Let_def split: option.split)
qed

lemma mark_auth_Metadata: "auth_Metadata (fst (mark_auth lookup env res now a)) = auth_Metadata a"
proof -
  have "auth_Metadata (count_request b now a) = auth_Metadata a" for b
    by (simp add: count_request_def Let_def recordRecentRequest_def)
  then show ?thesis
    by (simp add: mark_auth_def Let_def mark_failure_Metadata mark_success_Metadata applyAuthFailure_Metadata clearAuthStateOnSuccess_def)
qed

definition retries_below :: "retry_settings \<Rightarrow> int \<Rightarrow> (string, auth) gomap \<Rightarrow> bool" where
  "retries_below st R auths \<longleftrightarrow> 0 \<le> R \<and> (\<forall>i a. mget auths i = Some a \<longrightarrow> effective_retry st a \<le> R)"

lemma fold_max_below: "n \<le> R \<Longrightarrow> \<forall>a \<in> set as. f a \<le> R \<Longrightarrow> fold (\<lambda>a n. max (f a) n) as (n :: int) \<le> R"
  by (induction as arbitrary: n) auto

lemma retries_below_most: "retries_below st R (mgr_auths m) \<Longrightarrow> wf_map (mgr_auths m) \<Longrightarrow> most_retries st m \<le> R"
  unfolding most_retries_def by (rule fold_max_below) (auto simp: retries_below_def snapshotAuths_def dest: map_of_is_SomeI)

lemma most_retries_below: "retries_below st (most_retries st m) (mgr_auths m)"
proof -
  have "a \<in> set (snapshotAuths m)" if "mget (mgr_auths m) i = Some a" for i a
    using map_of_SomeD [OF that] by (force simp: snapshotAuths_def)
  then show ?thesis using fold_max [of 0 "effective_retry st" "snapshotAuths m"]
    by (auto simp: retries_below_def most_retries_def)
qed

lemma MarkResult_retries:
  assumes "retries_below st R (mgr_auths m)"
  shows "retries_below st R (mgr_auths (MarkResult lookup res now nowS nowR m))"
proof (cases "res_AuthID res = [] \<or> mget (mgr_auths m) (res_AuthID res) = None")
  case True
  then have "MarkResult lookup res now nowS nowR m = m" by (auto simp: MarkResult_def mark_locked_def)
  then show ?thesis using assms by simp
next
  case False
  then obtain a where a: "mget (mgr_auths m) (res_AuthID res) = Some a" by blast
  let ?b = "fst (mark_auth lookup (mgr_env m) res now a)"
  have "effective_retry st ?b = effective_retry st a"
    using mark_auth_Metadata [of lookup "mgr_env m" res now a]
    by (simp add: effective_retry_def RequestRetryOverride_def retry_value_def)
  moreover have "mgr_auths (MarkResult lookup res now nowS nowR m) = mput (res_AuthID res) ?b (mgr_auths m)"
    using False by (simp add: MarkResult_def mark_locked_def a Let_def case_prod_beta)
  ultimately show ?thesis using assms a by (auto simp: retries_below_def)
qed

text \<open>\<open>R\<close> bounds the retries of the stored credentials.\<close>

definition exec_inv :: "exec_config \<Rightarrow> 'r exec_world \<Rightarrow> int \<Rightarrow> exec_state \<Rightarrow> bool" where
  "exec_inv cfg w R s \<longleftrightarrow> (mono (xw_clock w) \<and> retries_below (xc_retry cfg) R (mgr_auths (ps_mgr (es_pick s)))) \<and>
     ids_ok (xc_lookup cfg) (xw_clock w (es_tick s)) (ps_mgr (es_pick s))"

definition stored_ids :: "exec_state \<Rightarrow> string set" where
  "stored_ids s = fst ` set (mgr_auths (ps_mgr (es_pick s)))"

definition called :: "exec_state \<Rightarrow> string list" where
  "called s = map fst (es_calls s)"

lemma mark_result_facts:
  assumes "exec_inv cfg w R s"
  shows "exec_inv cfg w R (mark_result cfg w res s)" "stored_ids (mark_result cfg w res s) = stored_ids s" "called (mark_result cfg w res s) = called s"
proof -
  let ?c = "xw_clock w" and ?n = "es_tick s"
  have c: "?c ?n \<le> ?c (?n + 1)" "?c (?n + 1) \<le> ?c (?n + 3)" using assms by (auto simp: exec_inv_def mono_def)
  have R: "retries_below (xc_retry cfg) R (mgr_auths (MarkResult (xc_lookup cfg) res (?c ?n) (?c (?n + 1)) (?c (?n + 2)) (ps_mgr (es_pick s))))"
    using assms by (intro MarkResult_retries) (simp add: exec_inv_def)
  note m = MarkResult_ids [where now = "?c ?n" and nowR = "?c (?n + 2)" and res = res, OF conjunct2 [OF assms [unfolded exec_inv_def]] c(1)]
  show "exec_inv cfg w R (mark_result cfg w res s)"
    using assms ids_ok_later [OF conjunct1 [OF m] c(2)] R by (simp add: exec_inv_def mark_result_def Let_def)
  show "stored_ids (mark_result cfg w res s) = stored_ids s" using m by (simp add: stored_ids_def mark_result_def Let_def)
  show "called (mark_result cfg w res s) = called s" by (simp add: called_def mark_result_def Let_def)
qed

lemma log_call:
  "exec_inv cfg w R s \<Longrightarrow> exec_inv cfg w R (s\<lparr>es_calls := c\<rparr>)" "stored_ids (s\<lparr>es_calls := c\<rparr>) = stored_ids s"
  by (simp_all add: exec_inv_def stored_ids_def)

lemma try_models_facts:
  assumes "exec_inv cfg w R s" "try_models cfg w routeModel a provider pooled al err ms s = (y, s1)"
  shows "exec_inv cfg w R s1 \<and> stored_ids s1 = stored_ids s \<and> (\<exists>k. called s1 = called s @ replicate k (auth_ID a)) \<and> y \<noteq> Skipped"
  using assms
proof (induction ms arbitrary: err s)
  case Nil
  then show ?case by (auto intro!: exI [of _ 0])
next
  case (Cons m ms)
  let ?s = "s\<lparr>es_calls := es_calls s @ [(auth_ID a, m)]\<rparr>"
  have i: "exec_inv cfg w R ?s" "stored_ids ?s = stored_ids s" by (simp_all add: log_call Cons.prems(1))
  have one: "called ?s = called s @ replicate 1 (auth_ID a)" by (simp add: called_def)
  note mr = mark_result_facts [OF i(1)]
  show ?case
  proof (cases "xw_intercept w (es_tick s) m")
    case (Some e)
    then show ?thesis using Cons.prems by (auto simp: Let_def intro!: exI [of _ 0])
  next
    case go: None
    show ?thesis
    proof (cases "xw_execute w (length (es_calls s)) a m")
      case (Failed e)
      show ?thesis
      proof (cases "claudeOAuthRequestCancellation a e \<or> isRequestInvalidError (xc_json cfg) e")
        case True
        then show ?thesis using Cons.prems(2) i one mr by (auto simp: Let_def go Failed split: if_splits intro!: exI [of _ 1])
      next
        case False
        let ?res = "failed_result (xc_json cfg) a provider (stateModelForExecution (xc_lookup cfg) (pc_names (xc_pick cfg)) a routeModel m pooled) e"
        have "try_models cfg w routeModel a provider pooled al (Some e) ms (mark_result cfg w ?res ?s) = (y, s1)"
          using Cons.prems(2) False by (simp add: Let_def go Failed)
        from Cons.IH [OF mr(1) this] obtain k where "exec_inv cfg w R s1" "stored_ids s1 = stored_ids s" "y \<noteq> Skipped"
          "called s1 = called s @ replicate (Suc k) (auth_ID a)" using mr(2,3) i one by auto
        then show ?thesis by blast
      qed
    qed (use Cons.prems(2) i one mr in \<open>auto simp: Let_def go intro!: exI [of _ 1]\<close>)
  qed
qed

lemma attempt_facts:
  assumes "exec_inv cfg w R s" "attempt_credential cfg w routeModel a provider s = (y, s1)"
  shows "exec_inv cfg w R s1 \<and> stored_ids s1 = stored_ids s \<and>
    (\<exists>k. called s1 = called s @ replicate k (auth_ID a) \<and> (y = Skipped \<longrightarrow> k = 0))"
proof -
  obtain ms pooled al off where p: "preparedExecutionModelsWithAlias (xc_lookup cfg) (pc_names (xc_pick cfg)) a routeModel
      (xw_clock w (es_tick s)) (es_offsets s) = ((ms, pooled, al), off)" by (metis prod_cases3 surj_pair)
  let ?s = "s\<lparr>es_offsets := off, es_tick := es_tick s + 1\<rparr>"
  have "xw_clock w (es_tick s) \<le> xw_clock w (es_tick s + 1)" using assms(1) by (simp add: exec_inv_def mono_def)
  then have i: "exec_inv cfg w R ?s" "stored_ids ?s = stored_ids s" "called ?s = called s"
    using assms(1) ids_ok_later by (auto simp: exec_inv_def stored_ids_def called_def)
  note mr = mark_result_facts [OF i(1)]
  show ?thesis
  proof (cases "ms = [] \<or> xw_prepare w (es_tick s) a \<noteq> None \<or> xw_permit w (es_tick s) \<noteq> None")
    case True
    then have "s1 = ?s \<or> (\<exists>res. s1 = mark_result cfg w res ?s)"
      using assms(2) by (auto simp: attempt_credential_def p Let_def split: if_splits option.splits)
    then show ?thesis using i mr by (auto intro!: exI [of _ 0])
  next
    case False
    then have "try_models cfg w routeModel a provider pooled al None ms ?s = (y, s1)"
      using assms(2) by (auto simp: attempt_credential_def p Let_def)
    from try_models_facts [OF i(1) this] i show ?thesis by auto
  qed
qed

lemma pick_credential_facts:
  assumes "exec_inv cfg w R s" "pick_credential cfg w rq providers routeModel tried s = (x, s1)"
  shows "exec_inv cfg w R s1 \<and> stored_ids s1 = stored_ids s \<and> called s1 = called s \<and>
    (\<forall>a pk. x = Inr (a, pk) \<longrightarrow> auth_ID a \<in> stored_ids s \<and> auth_ID a \<notin> set tried)"
proof -
  let ?clk = "\<lambda>j. xw_clock w (es_tick s + j)"
  obtain y ps where y: "pickNextMixed (xc_lookup cfg) (xc_pick cfg) rq providers routeModel tried ?clk (es_pick s) = (y, ps)" by fastforce
  have "mono ?clk" "xw_clock w (es_tick s + 6) \<le> xw_clock w (es_tick s + 7)" using assms(1) by (auto simp: exec_inv_def mono_def)
  moreover from this(1) have "pick_good (xc_lookup cfg) (?clk 6) tried (ps_mgr (es_pick s)) y (ps_mgr ps)"
    using assms(1) by (intro pickNextMixed_good [OF _ _ _ y]) (auto simp: exec_inv_def)
  ultimately show ?thesis
    using assms ids_ok_later by (auto simp: pick_credential_def y pick_good_def exec_inv_def stored_ids_def called_def)
qed

interpretation once: execution_loop "pick_credential cfg w rq providers routeModel" "attempt_credential cfg w routeModel"
  stored_ids "exec_inv cfg w R" called
proof
  fix s x s1 tried
  assume "exec_inv cfg w R s" "pick_credential cfg w rq providers routeModel tried s = (x, s1)"
  from pick_credential_facts [OF this] show "exec_inv cfg w R s1 \<and> stored_ids s1 = stored_ids s \<and> called s1 = called s" by blast
next
  fix s tried a provider s1
  assume "exec_inv cfg w R s" "pick_credential cfg w rq providers routeModel tried s = (Inr (a, provider), s1)"
  from pick_credential_facts [OF this] show "auth_ID a \<in> stored_ids s \<and> auth_ID a \<notin> set tried" by blast
next
  fix s a provider y s1
  assume "exec_inv cfg w R s" "attempt_credential cfg w routeModel a provider s = (y, s1)"
  from attempt_facts [OF this] show "exec_inv cfg w R s1 \<and> stored_ids s1 = stored_ids s"
    "\<exists>k. called s1 = called s @ replicate k (auth_ID a) \<and> (y = Skipped \<longrightarrow> k = 0)" by blast+
qed (simp add: stored_ids_def)

lemma run_inv:
  assumes "mgr_run (xc_lookup cfg) t (ps_mgr (es_pick s))" "mono (xw_clock w)" "t \<le> xw_clock w (es_tick s)"
  shows "exec_inv cfg w (most_retries (xc_retry cfg) (ps_mgr (es_pick s))) s"
proof -
  have "ids_ok (xc_lookup cfg) t (ps_mgr (es_pick s))" using mgr_run_ok [OF assms(1)] mgr_ok_ids by blast
  from ids_ok_later [OF this assms(3)] show ?thesis using assms(2) most_retries_below by (simp add: exec_inv_def)
qed

lemma once_ends:
  assumes "exec_inv cfg w R s" "card (stored_ids s) < fuel"
  shows "\<exists>r. executeMixedOnce fuel cfg w text rq providers routeModel s = Some r"
  using once.loop_ends [where tried = "[]", OF assms(1)] assms(2) by (simp add: executeMixedOnce_def)

lemma once_blocks:
  assumes "exec_inv cfg w R s" "executeMixedOnce fuel cfg w text rq providers routeModel s = Some (r, s')"
  shows "exec_inv cfg w R s' \<and> stored_ids s' = stored_ids s \<and>
    (\<exists>bs. called s' = called s @ blocks_of bs \<and> distinct (map fst bs) \<and> fst ` set bs \<subseteq> stored_ids s \<and>
       (rt_maxRetryCredentials (xc_retry cfg) > 0 \<longrightarrow> int (length bs) \<le> rt_maxRetryCredentials (xc_retry cfg)))"
proof (cases "providers = []")
  case True
  then have "s' = s" using assms(2) by (simp add: executeMixedOnce_def)
  then show ?thesis using assms(1) by (auto simp: blocks_of_def intro!: exI [of _ "[]"])
next
  case False
  then have "credential_loop (pick_credential cfg w rq providers routeModel) (attempt_credential cfg w routeModel)
      (pick_go_error text) (rt_maxRetryCredentials (xc_retry cfg)) fuel [] [] None s = Some (r, s')"
    using assms(2) by (simp add: executeMixedOnce_def)
  from once.loop_blocks [OF assms(1) _ this] show ?thesis by (auto simp: blocks_within_def)
qed

lemma stored_ids_card: "card (stored_ids s) \<le> length (mgr_auths (ps_mgr (es_pick s)))"
  unfolding stored_ids_def by (metis card_length length_map list.set_map)

text \<open>C7: One round of a request ends, and tries no credential twice: with one unit of fuel more than there are
  stored credentials the loop returns; the executor's calls fall into one block per credential, the
  credentials of the blocks are stored and different, and there are at most as many as the configured maximum.\<close>

theorem credentials_tried_once:
  assumes "mgr_run (xc_lookup cfg) t (ps_mgr (es_pick s))" "mono (xw_clock w)" "t \<le> xw_clock w (es_tick s)"
    and "length (mgr_auths (ps_mgr (es_pick s))) < fuel"
  shows "\<exists>r s' bs. executeMixedOnce fuel cfg w text rq providers routeModel s = Some (r, s') \<and>
    map fst (es_calls s') = map fst (es_calls s) @ concat (map (\<lambda>(i, k). replicate k i) bs) \<and> distinct (map fst bs) \<and>
    fst ` set bs \<subseteq> fst ` set (mgr_auths (ps_mgr (es_pick s))) \<and>
    (rt_maxRetryCredentials (xc_retry cfg) > 0 \<longrightarrow> int (length bs) \<le> rt_maxRetryCredentials (xc_retry cfg))"
proof -
  have i: "exec_inv cfg w (most_retries (xc_retry cfg) (ps_mgr (es_pick s))) s" by (rule run_inv [OF assms(1-3)])
  obtain r s' where r: "executeMixedOnce fuel cfg w text rq providers routeModel s = Some (r, s')"
    using once_ends [OF i, of fuel "text" rq providers routeModel] stored_ids_card [of s] assms(4) by fastforce
  show ?thesis using once_blocks [OF i r] r by (auto simp: called_def stored_ids_def blocks_of_def)
qed

definition demo_exec_config :: exec_config where
  "demo_exec_config = \<lparr>xc_lookup = no_lookup, xc_pick = \<lparr>pc_selector = FillFirstSelector, pc_executors = [''claude''], pc_names = demo_names\<rparr>,
     xc_json = demo_json, xc_retry = demo_retry\<rparr>"

definition demo_exec_world :: "string exec_world" where
  "demo_exec_world = \<lparr>xw_clock = (\<lambda>n. 20 + int n),
     xw_execute = (\<lambda>n a model. if auth_ID a = ''a'' then Failed (demo_error 429) else Responded ''ok''),
     xw_prepare = (\<lambda>_ _. None), xw_permit = (\<lambda>_. None), xw_intercept = (\<lambda>_ _. None), xw_wait = (\<lambda>_. None)\<rparr>"

definition demo_exec_start :: exec_state where
  "demo_exec_start = \<lparr>es_pick = \<lparr>ps_mgr = demo_manager, ps_rr = \<lparr>rr_cursors = [], rr_maxKeys = 0\<rparr>, ps_wrr = \<lparr>wrr_states = [], wrr_maxKeys = 0\<rparr>\<rparr>,
     es_offsets = [], es_tick = 0, es_calls = []\<rparr>"

lemma demo_exec_start_facts:
  "mgr_run (xc_lookup demo_exec_config) 13 (ps_mgr (es_pick demo_exec_start))" "mono (xw_clock demo_exec_world)" "13 \<le> xw_clock demo_exec_world (es_tick demo_exec_start)"
  "length (mgr_auths (ps_mgr (es_pick demo_exec_start))) = 2" "es_calls demo_exec_start = []"
proof -
  show "length (mgr_auths (ps_mgr (es_pick demo_exec_start))) = 2" by code_simp
qed (use demo_manager_run in \<open>simp_all add: demo_exec_config_def demo_exec_world_def demo_exec_start_def mono_def\<close>)

theorem credentials_tried_once_witness:
  "case executeMixedOnce 3 demo_exec_config demo_exec_world (\<lambda>_. []) demo_pick_request [''claude''] ''m'' demo_exec_start of
     None \<Rightarrow> False
   | Some (r, s) \<Rightarrow> \<exists>bs. map fst (es_calls s) = concat (map (\<lambda>(i, k). replicate k i) bs) \<and> distinct (map fst bs)"
proof -
  have "length (mgr_auths (ps_mgr (es_pick demo_exec_start))) < 3" by (simp add: demo_exec_start_facts(4))
  from credentials_tried_once [where cfg = demo_exec_config and w = demo_exec_world, OF demo_exec_start_facts(1-3) this,
      of "\<lambda>_. []" demo_pick_request "[''claude'']" "''m''"]
  show ?thesis by (auto simp: demo_exec_start_facts(5))
qed

section \<open>Rounds of a request\<close>

text \<open>The response \<open>resp\<close> is what the last call of the executor returned.\<close>

definition answered :: "'r exec_world \<Rightarrow> 'r \<Rightarrow> exec_state \<Rightarrow> bool" where
  "answered w resp s \<longleftrightarrow> (\<exists>a m. es_calls s \<noteq> [] \<and> last (es_calls s) = (auth_ID a, m) \<and>
     xw_execute w (length (es_calls s) - 1) a m = Responded resp)"

lemma mark_result_calls [simp]: "es_calls (mark_result cfg w res s) = es_calls s"
  by (simp add: mark_result_def Let_def)

lemma try_models_answered:
  "try_models cfg w routeModel a provider pooled al0 err ms s = (Finished (Inr (resp, al)), s1) \<Longrightarrow> answered w resp s1"
proof (induction ms arbitrary: err s)
  case (Cons m ms)
  then show ?case
    by (cases "xw_execute w (length (es_calls s)) a m")
      (auto simp: Let_def answered_def split: option.splits if_splits)
qed simp

lemma attempt_answered:
  assumes "attempt_credential cfg w routeModel a provider s = (Finished (Inr (resp, al)), s1)"
  shows "answered w resp s1"
proof -
  obtain ms pooled al0 off where p: "preparedExecutionModelsWithAlias (xc_lookup cfg) (pc_names (xc_pick cfg)) a routeModel
      (xw_clock w (es_tick s)) (es_offsets s) = ((ms, pooled, al0), off)" by (metis prod_cases3 surj_pair)
  show ?thesis using assms
    by (auto simp: attempt_credential_def p Let_def split: if_splits option.splits intro: try_models_answered)
qed

lemma loop_answered:
  assumes "\<And>a provider s v s1. attempt a provider s = (Finished (Inr v), s1) \<Longrightarrow> P v s1"
  shows "credential_loop pick attempt fail maxC fuel tried attempted lastErr s = Some (Inr v, s') \<Longrightarrow> P v s'"
proof (induction fuel arbitrary: tried attempted lastErr s)
  case (Suc fuel)
  then show ?case using assms
    by (auto simp: Let_def split: if_splits prod.splits sum.splits attempt.splits)
qed simp

lemma once_answered:
  assumes "executeMixedOnce fuel cfg w text rq providers routeModel s = Some (Inr (resp, al), s')"
  shows "answered w resp s'"
proof -
  have "credential_loop (pick_credential cfg w rq providers routeModel) (attempt_credential cfg w routeModel)
      (pick_go_error text) (rt_maxRetryCredentials (xc_retry cfg)) fuel [] [] None s = Some (Inr (resp, al), s')"
    using assms by (auto simp: executeMixedOnce_def split: if_splits)
  from loop_answered [where P = "\<lambda>v s. answered w (fst v) s", OF _ this] attempt_answered show ?thesis by fastforce
qed

lemma tick_inv: "exec_inv cfg w R s \<Longrightarrow> exec_inv cfg w R (s\<lparr>es_tick := es_tick s + 1\<rparr>)"
  using ids_ok_later monoD [of "xw_clock w" "es_tick s" "es_tick s + 1"] by (auto simp: exec_inv_def)

definition answers :: "'r exec_world \<Rightarrow> ((go_error + 'r \<times> alias_result) \<times> exec_state) option \<Rightarrow> bool" where
  "answers w x \<longleftrightarrow> (case x of None \<Rightarrow> False | Some (Inl err, s') \<Rightarrow> True | Some (Inr (resp, al), s') \<Rightarrow> answered w resp s')"

text \<open>A round ends the request, or its number is below the retries that are left.\<close>

lemma execute_step:
  assumes "exec_inv cfg w R s" "card (stored_ids s) < fuel"
  shows "answers w (execute_loop (Suc n) fuel cfg w text rq providers routeModel attempt s) \<or>
    (\<exists>s2. exec_inv cfg w R s2 \<and> stored_ids s2 = stored_ids s \<and> attempt < R \<and>
      execute_loop (Suc n) fuel cfg w text rq providers routeModel attempt s =
      execute_loop n fuel cfg w text rq providers routeModel (attempt + 1) s2)"
proof -
  obtain r s1 where r: "executeMixedOnce fuel cfg w text rq providers routeModel s = Some (r, s1)"
    using once_ends [OF assms, of "text" rq providers routeModel] by fastforce
  note b = once_blocks [OF assms(1) r]
  show ?thesis
  proof (cases r)
    case (Inr v)
    then show ?thesis using once_answered r by (cases v) (auto simp: answers_def)
  next
    case (Inl err)
    let ?s = "s1\<lparr>es_tick := es_tick s1 + 1\<rparr>"
    let ?retry = "shouldRetryAfterError (xc_lookup cfg) (pc_names (xc_pick cfg)) (xc_json cfg) (xc_retry cfg) err attempt providers
      routeModel (rt_maxRetryInterval (xc_retry cfg)) (xw_clock w (es_tick s1)) (ps_mgr (es_pick s1))"
    have i: "exec_inv cfg w R ?s" "stored_ids ?s = stored_ids s" using b tick_inv by (auto simp: stored_ids_def)
    have "attempt < R" if "?retry = Some wait" for wait
    proof -
      have "most_retries (xc_retry cfg) (ps_mgr (es_pick s1)) \<le> R"
        using b by (intro retries_below_most) (auto simp: exec_inv_def ids_ok_def)
      then show ?thesis using retry_wait_facts(1) [OF that] by linarith
    qed
    then show ?thesis using i by (auto simp: r Inl answers_def Let_def split: option.splits)
  qed
qed

lemma execute_loop_ends:
  "exec_inv cfg w R s \<Longrightarrow> card (stored_ids s) < fuel \<Longrightarrow> R \<le> attempt + int n \<Longrightarrow>
   answers w (execute_loop (Suc n) fuel cfg w text rq providers routeModel attempt s)"
proof (induction n arbitrary: attempt s)
  case 0
  then show ?case using execute_step [OF 0(1,2), of 0] by force
next
  case (Suc n)
  from execute_step [OF Suc.prems(1,2), of "Suc n" "text" rq providers routeModel attempt] show ?case
  proof
    assume "\<exists>s2. exec_inv cfg w R s2 \<and> stored_ids s2 = stored_ids s \<and> attempt < R \<and>
      execute_loop (Suc (Suc n)) fuel cfg w text rq providers routeModel attempt s =
      execute_loop (Suc n) fuel cfg w text rq providers routeModel (attempt + 1) s2"
    then obtain s2 where s2: "exec_inv cfg w R s2" "stored_ids s2 = stored_ids s"
      "execute_loop (Suc (Suc n)) fuel cfg w text rq providers routeModel attempt s =
       execute_loop (Suc n) fuel cfg w text rq providers routeModel (attempt + 1) s2" by blast
    show ?case unfolding s2(3) using Suc.prems s2(2) by (intro Suc.IH [OF s2(1)]) simp_all
  qed
qed

text \<open>C6: A request always comes to an end: with one round more than the most retries of a stored credential, and
  one unit of fuel more than there are stored credentials, \<open>Execute\<close> returns; a response it returns is the one
  the last call of the executor gave.\<close>

theorem Execute_ends:
  assumes "mgr_run (xc_lookup cfg) t (ps_mgr (es_pick s))" "mono (xw_clock w)" "t \<le> xw_clock w (es_tick s)"
    and "length (mgr_auths (ps_mgr (es_pick s))) < fuel"
    and "most_retries (xc_retry cfg) (ps_mgr (es_pick s)) < int rounds"
  shows "\<exists>r s'. Execute rounds fuel cfg w text rq providers routeModel s = Some (r, s') \<and>
    (\<forall>resp al. r = Inr (resp, al) \<longrightarrow>
       (\<exists>a model. es_calls s' \<noteq> [] \<and> last (es_calls s') = (auth_ID a, model) \<and>
          xw_execute w (length (es_calls s') - 1) a model = Responded resp))"
proof (cases "normalizeProviders providers = []")
  case True
  then show ?thesis by (simp add: Execute_def)
next
  case False
  let ?R = "most_retries (xc_retry cfg) (ps_mgr (es_pick s))"
  have R: "0 \<le> ?R" using most_retries_below by (simp add: retries_below_def)
  then obtain n where n: "rounds = Suc n" using assms(5) by (cases rounds) auto
  have "answers w (execute_loop (Suc n) fuel cfg w text rq (normalizeProviders providers) routeModel 0 s)"
    using assms(5) n stored_ids_card [of s] assms(4) by (intro execute_loop_ends [OF run_inv [OF assms(1-3)]]) simp_all
  then have "answers w (Execute rounds fuel cfg w text rq providers routeModel s)" unfolding Execute_def Let_def n using False by (simp only: if_False)
  then show ?thesis by (auto simp: answers_def answered_def split: option.splits sum.splits prod.splits)
qed

theorem Execute_ends_witness:
  "Execute 4 3 demo_exec_config demo_exec_world (\<lambda>_. []) demo_pick_request [''claude''] ''m'' demo_exec_start \<noteq> None"
proof -
  have "length (mgr_auths (ps_mgr (es_pick demo_exec_start))) < 3" by (simp add: demo_exec_start_facts(4))
  moreover have "most_retries (xc_retry demo_exec_config) (ps_mgr (es_pick demo_exec_start)) < int 4" by code_simp
  ultimately show ?thesis
    using Execute_ends [where cfg = demo_exec_config and w = demo_exec_world, OF demo_exec_start_facts(1-3), of 3 4
      "\<lambda>_. []" demo_pick_request "[''claude'']" "''m''"] by fastforce
qed

end
