(* ===== verification/Spec2Isabelle.thy ===== *)
theory Spec2Isabelle
  imports Thinking_Validate Bounded_LRU Redis_Queue Session_Cache Execution_Registry Model_Registry_Listing
    Selector_Fairness Session_Affinity Scheduler_Claims Model_Claims Home_Claims Upstream_Limit Execution_Claims
begin

text \<open>
  \<^bold>\<open>The program.\<close> AIPROXY is a proxy for language-model services. A request names a model; the proxy
  decides which of its credentials serves it, sends it upstream, records the outcome and reports the
  usage. This development models the parts that decide and remember:

    \<^item> the \<^emph>\<open>model registry\<close> (\<^verbatim>\<open>internal/registry/model_registry.go\<close>) knows which client (credential)
      serves which model, counts references, and lists the models that are available;
    \<^item> the \<^emph>\<open>selectors\<close> (\<^verbatim>\<open>sdk/cliproxy/auth/selector.go\<close>) choose one of a list of credentials: the
      unblocked ones of the highest priority, in turn, first come, by weight, or bound to a session by
      the \<^emph>\<open>session cache\<close> (\<^verbatim>\<open>session_cache.go\<close>);
    \<^item> the \<^emph>\<open>scheduler\<close> (\<^verbatim>\<open>scheduler.go\<close>) keeps, per provider and model, the indexes that make the same
      choice without a pass over all credentials;
    \<^item> the \<^emph>\<open>cool-downs\<close> (\<^verbatim>\<open>conductor_cooldown.go\<close>) turn the outcome of a request into times before which a
      credential is not used for a model;
    \<^item> the \<^emph>\<open>manager\<close> (\<^verbatim>\<open>conductor.go\<close>, \<^verbatim>\<open>conductor_lifecycle.go\<close>, \<^verbatim>\<open>conductor_selection.go\<close>) owns the credentials: it
      registers, updates and removes them, records results, resets and restores cool-downs, and hands a
      snapshot of every change to the scheduler and a report to the registry;
    \<^item> the \<^emph>\<open>names of models\<close> (\<^verbatim>\<open>oauth_model_alias.go\<close>, \<^verbatim>\<open>conductor_models.go\<close>) turn the name in a request into the
      names to send upstream: aliases, pools and prefixes;
    \<^item> the \<^emph>\<open>execution of requests\<close> (\<^verbatim>\<open>conductor_selection.go\<close>, \<^verbatim>\<open>conductor_execution.go\<close>) picks credential after
      credential, sends the request, records the result, and repeats the round after a wait;
    \<^item> the \<^emph>\<open>upstream limits\<close> (\<^verbatim>\<open>upstream_concurrency.go\<close>) bound the requests of a provider that are under way;
    \<^item> \<^emph>\<open>home concurrency\<close> (\<^verbatim>\<open>home_concurrency.go\<close>) ties the tuples a remote home service grants to the scopes of
      the execution registry;
    \<^item> \<^emph>\<open>thinking\<close> (\<^verbatim>\<open>internal/thinking\<close>) parses the thinking suffix of a model name and adapts the requested
      level or budget to what the model supports;
    \<^item> the \<^emph>\<open>usage queue\<close> (\<^verbatim>\<open>internal/redisqueue/queue.go\<close>) hands usage records to subscribers;
    \<^item> the \<^emph>\<open>bounded LRU\<close> (\<^verbatim>\<open>internal/cache/bounded_lru.go\<close>) caches per-model objects;
    \<^item> the \<^emph>\<open>execution registry\<close> (\<^verbatim>\<open>sdk/cliproxy/executionregistry\<close>) tracks the executions under way, their
      release sequences and the drain at shutdown.

  The registry, the session cache and the selectors share no state; the scheduler reads the registry
  when a credential is inserted, so the registry is an argument of its operations. The manager holds the
  scheduler and the registry; its record has both as fields. The execution of a request holds the manager and the
  offsets of the model pools.

  \<^bold>\<open>Conventions.\<close> A Go map is an association list with distinct keys (\<open>gomap\<close>, \<open>mget\<close>, \<open>mput\<close>, \<open>mdel\<close> of
  \<^verbatim>\<open>Go_Prelude\<close>); where the code ranges over a map, the list is the order of that run, and theorems hold
  for every list. A pointer that may be nil is an option. A time is the number of nanoseconds since a
  fixed instant, the zero time being \<open>zero_time\<close>; each reading of the clock is an argument. Integers are
  \<open>int\<close> with the 64-bit wrap-around or saturation written out where the code can reach it. Methods under a
  mutex are state transformers; code that runs concurrently outside one critical section is a step
  relation over its sections. The model registry that \<open>canonicalModelKey\<close> consults to parse a suffix is the
  argument \<open>lookup\<close>. Logging is left out everywhere.

  \<^bold>\<open>Theories.\<close>
    \<^item> \<^verbatim>\<open>Go_Prelude\<close>: strings (\<open>TrimSpace\<close>, \<open>ToLower\<close>, \<open>Contains\<close>, \<open>Fields\<close>, \<open>Join\<close>), maps, times, 64-bit integers.
    \<^item> \<^verbatim>\<open>Model_Info\<close>: the record of a model and dynamically typed values.
    \<^item> \<^verbatim>\<open>Thinking\<close>, \<^verbatim>\<open>Thinking_Validate\<close>: \<^verbatim>\<open>convert.go\<close>, \<^verbatim>\<open>suffix.go\<close>, \<^verbatim>\<open>validate.go\<close>. The suffix parser inverts
      writing a suffix, published aliases resolve, a validated configuration is one the model accepts, an
      unsupported level is clamped to the nearest.
    \<^item> \<^verbatim>\<open>Bounded_LRU\<close>: refinement of a list in order of use.
    \<^item> \<^verbatim>\<open>Redis_Queue\<close>: the slice with a moving head refines an expiring FIFO; channels are a store, and no
      interleaving closes one twice or sends on a closed one; delivery at most once and in order.
    \<^item> \<^verbatim>\<open>Session_Cache\<close>: groups of aliases are coherent and bounded; bindings live exactly as long as their time
      to live, renewed as a group.
    \<^item> \<^verbatim>\<open>Execution_Registry\<close>: an interleaving semantics of \<open>Bind\<close>, \<open>EndWithRelease\<close>, \<open>Drain\<close> and the barrier, with the
      invariants of release sequences, of the barrier and of the final state.
    \<^item> \<^verbatim>\<open>Model_Registry\<close> (operations), \<^verbatim>\<open>Model_Registry_Counts\<close> (reference counts are exact in every reachable
      registry), \<^verbatim>\<open>Model_Registry_Listing\<close> (the cached listing equals a rebuild; providers of a model).
    \<^item> \<^verbatim>\<open>Auth_State\<close>: the credential, its weight, priority and counters of recent requests.
    \<^item> \<^verbatim>\<open>Selector\<close> (operations), \<^verbatim>\<open>Selector_Availability\<close> (the set of candidates and the retry hint are exact),
      \<^verbatim>\<open>Selector_Contract\<close> (the contract of a selector as a locale and its three interpretations),
      \<^verbatim>\<open>Selector_Fairness\<close> (round robin visits all, smooth weights give exact shares), \<^verbatim>\<open>Session_Affinity\<close> (over
      any selector that meets the contract).
    \<^item> \<^verbatim>\<open>Auth_Classify\<close>: what kind a credential is, credential policies and the eligibility of a request.
    \<^item> \<^verbatim>\<open>Scheduler\<close> (operations), \<^verbatim>\<open>Scheduler_Time\<close> (a block changes only when its retry time passes),
      \<^verbatim>\<open>Scheduler_Shards\<close> (the invariant of a shard), \<^verbatim>\<open>Scheduler_Picks\<close> (picks from a shard), \<^verbatim>\<open>Scheduler_Refine\<close>
      (the whole scheduler refines a map from ids to metadata), \<^verbatim>\<open>Scheduler_Exact\<close>, \<^verbatim>\<open>Scheduler_Mixed\<close>,
      \<^verbatim>\<open>Scheduler_Runs\<close>, \<^verbatim>\<open>Scheduler_Claims\<close> (picks for one and for several providers are those of the selectors).
    \<^item> \<^verbatim>\<open>Cooldown\<close> (classification of errors, back-off and aggregation of model states), \<^verbatim>\<open>Mark_Result\<close> (what a result
      does to a credential), \<^verbatim>\<open>Cooldown_Records\<close> (clearing, reconciling, and the records that survive a restart);
      \<^verbatim>\<open>Cooldown_Facts\<close>, \<^verbatim>\<open>Cooldown_Live\<close>, \<^verbatim>\<open>Mark_Live\<close>, \<^verbatim>\<open>Records_Live\<close>: every state these produce has a time of
      recovery.
    \<^item> \<^verbatim>\<open>Manager\<close> (operations), \<^verbatim>\<open>Manager_Run\<close>, \<^verbatim>\<open>Manager_Inv\<close>, \<^verbatim>\<open>Manager_Restore\<close> (each operation keeps the scheduler a
      copy of the stored credentials, up to counters; the runs of the manager as an inductive predicate, with the set
      of stale ids, whose last change the scheduler has not been given: after a reset that could not be saved, between
      the two locks of a result, and after a snapshot that was overtaken),
      \<^verbatim>\<open>Manager_Blocks\<close> (the blocks after a result, model by model), \<^verbatim>\<open>Manager_Claims\<close>, \<^verbatim>\<open>Manager_Results\<close> (every
      credential recovers, picks respect the present state, a rate-limited credential is not picked before
      its window ends, resets open it, and what two results do that overtake each other).
    \<^item> \<^verbatim>\<open>Runtime_Config\<close> (the parts of the configuration that are read), \<^verbatim>\<open>Model_Alias\<close>, \<^verbatim>\<open>Model_Routing\<close> (aliases, compiled
      tables, pools and prefixes), \<^verbatim>\<open>Model_Claims\<close> (the compiled tables agree with a scan of the entries, pools
      rotate evenly, and a chain of aliases that the tables of API keys do not follow).
    \<^item> \<^verbatim>\<open>Upstream_Limit\<close>: the limiters and the requests that wait as a step relation; permits are counted and the
      limit holds while the configuration stays, and what happens when it changes.
    \<^item> \<^verbatim>\<open>Home_Key\<close>, \<^verbatim>\<open>Home_Concurrency\<close>, \<^verbatim>\<open>Home_Claims\<close>: keys, tuples, scopes and refusals; an accounted scope carries
      what was granted, the header of a refusal is the wait rounded up.
    \<^item> \<^verbatim>\<open>Exec_Error\<close> (predicates on the errors of executors), \<^verbatim>\<open>Manager_Retry\<close> (retries and waits), \<^verbatim>\<open>Manager_Pick\<close>
      (\<open>pickNext\<close> and \<open>pickNextMixed\<close> with both paths), \<^verbatim>\<open>Execution\<close> (\<open>Execute\<close>), \<^verbatim>\<open>Retry_Claims\<close> (the wait is the least
      one, retries are bounded, faults of a request penalise no credential), \<^verbatim>\<open>Execution_Claims\<close> (a request
      ends, and a round tries no credential twice; the contract of pick and attempt is a locale).

  \<^bold>\<open>Bounds.\<close> The loops of the code are structural recursion or folds, except those of \<open>Execute\<close>. Its loop over
  credentials has fuel, of which one unit more than there are stored credentials is enough, since every
  round tries a new one; its loop over rounds has as fuel one more than the most retries any stored
  credential allows. Both are shown to return with that much. Exact shares of the
  weighted selectors assume at most a million credentials of at most the maximal weight, which keeps the
  64-bit sums below saturation. The scheduler theorems assume a clock that does not go back, starts at
  zero or later, and credential ids without surrounding blanks, which is how the manager creates them.
  The theorems on results assume retry hints that are not negative, a configured wait that fits 64-bit
  nanoseconds, and model names that \<open>canonicalModelKey\<close> normalises in one step. \<open>Register\<close> and \<open>Update\<close> hand
  the scheduler the very object the manager stores; since every operation that changes the availability
  of a credential hands over a new snapshot, the model hands over values throughout; what is claimed of a stale
  credential does not depend on the difference. Runs let the results of a credential overlap; a removal does not
  overlap with a result of the same credential, and the other operations are single steps. Differences of times
  are exact, where Go saturates them beyond 292 years. Two passes over one unchanged map have the same
  order: where Go's answer depends on the order (\<open>LimitForProvider\<close> for several spellings of one provider, the
  listing for Gemini, whose entries have no id to sort by), the theorems speak of runs with one order.

  \<^bold>\<open>Not modelled.\<close> Network clients, HTTP handlers, login flows, stores, plugins and the terminal and web user
  interfaces are input and output. The protocol translators and the request side of thinking rewrite JSON
  with third-party packages. Session identifiers are extracted from JSON bodies and are arguments here. Of the
  manager, persistence, hooks, error events and the credentials of the home service are left out; a failed
  save is an argument of \<open>ResetQuota\<close>. Of the execution of requests, the executors, the preparation of
  credentials, interceptors and cancellation are arguments; home execution, streams, token counts, the renewal
  of tokens, the plugin scheduler and the fall-back to credits are left out.
\<close>

end
